(* ===== verification/Prelude.thy ===== *)
theory Prelude
  imports Main "HOL-Library.Word"
begin

text \<open>
  Shared vocabulary of the development: Go's byte slices, strings and sized integers,
  the three ways a Go call can end (a value, an error value, a panic), and the generic
  list and word lemmas the component theories use.

  \<^item> \<open>[]byte\<close> and \<open>[n]byte\<close> are lists of 8-bit words; a Go \<open>string\<close> is a HOL
    \<open>string\<close> (a list of bytes written as characters).
  \<^item> unsigned integers are words of their width, \<open>int32\<close>, \<open>int64\<close> and \<open>int\<close> are
    HOL integers with the wrap-around written out (\<open>wrap32\<close>, \<open>wrap64\<close>) wherever the
    code computes with them.
  \<^item> a call that returns \<open>(T, error)\<close> or may panic has a \<open>res\<close> result.
\<close>

named_theorems go_simps \<open>unfolding rules for the result combinators\<close>

type_synonym byte = "8 word"
type_synonym bytes = "byte list"
type_synonym u32 = "32 word"
type_synonym u64 = "64 word"

subsection \<open>Results of Go calls\<close>

datatype ('e, 'a) res = Ok 'a | Err 'e | Panic

fun and_then :: "('e, 'a) res \<Rightarrow> ('a \<Rightarrow> ('e, 'b) res) \<Rightarrow> ('e, 'b) res" where
  "and_then (Ok a) f = f a"
| "and_then (Err e) f = Err e"
| "and_then Panic f = Panic"

fun map_err :: "('e \<Rightarrow> 'f) \<Rightarrow> ('e, 'a) res \<Rightarrow> ('f, 'a) res" where
  "map_err g (Ok a) = Ok a"
| "map_err g (Err e) = Err (g e)"
| "map_err g Panic = Panic"

lemma and_then_Ok_iff [go_simps]:
  "and_then r f = Ok b \<longleftrightarrow> (\<exists>a. r = Ok a \<and> f a = Ok b)"
  by (cases r) auto

lemma and_then_Err_iff [go_simps]:
  "and_then r f = Err e \<longleftrightarrow> r = Err e \<or> (\<exists>a. r = Ok a \<and> f a = Err e)"
  by (cases r) auto

lemma and_then_Panic_iff [go_simps]:
  "and_then r f = Panic \<longleftrightarrow> r = Panic \<or> (\<exists>a. r = Ok a \<and> f a = Panic)"
  by (cases r) auto

lemma map_err_Ok_iff [go_simps]: "map_err g r = Ok a \<longleftrightarrow> r = Ok a"
  by (cases r) auto

lemma map_err_Panic_iff [go_simps]: "map_err g r = Panic \<longleftrightarrow> r = Panic"
  by (cases r) auto

lemma map_err_Err_iff [go_simps]: "map_err g r = Err e \<longleftrightarrow> (\<exists>e'. r = Err e' \<and> e = g e')"
  by (cases r) auto

subsection \<open>Signed integers\<close>

definition wrap32 :: "int \<Rightarrow> int" where
  "wrap32 x = (x + 2 ^ 31) mod 2 ^ 32 - 2 ^ 31"

definition wrap64 :: "int \<Rightarrow> int" where
  "wrap64 x = (x + 2 ^ 63) mod 2 ^ 64 - 2 ^ 63"

lemma wrap32_id [simp]: "- (2 ^ 31) \<le> x \<Longrightarrow> x < 2 ^ 31 \<Longrightarrow> wrap32 x = x"
  by (simp add: wrap32_def)

lemma wrap64_id [simp]: "- (2 ^ 63) \<le> x \<Longrightarrow> x < 2 ^ 63 \<Longrightarrow> wrap64 x = x"
  by (simp add: wrap64_def)

lemma wrap32_range: "- (2 ^ 31) \<le> wrap32 x \<and> wrap32 x < 2 ^ 31"
proof -
  have "0 \<le> (x + 2 ^ 31) mod 2 ^ 32" and "(x + 2 ^ 31) mod 2 ^ 32 < (2 :: int) ^ 32"
    by simp_all
  then show ?thesis unfolding wrap32_def by simp
qed

subsection \<open>Strings and byte slices\<close>

definition byte_of_char :: "char \<Rightarrow> byte" where
  "byte_of_char c = of_nat (of_char c)"

definition char_of_byte :: "byte \<Rightarrow> char" where
  "char_of_byte w = char_of (unat w)"

definition bytes_of_string :: "string \<Rightarrow> bytes" where
  "bytes_of_string s = map byte_of_char s"

definition string_of_bytes :: "bytes \<Rightarrow> string" where
  "string_of_bytes b = map char_of_byte b"

lemma byte_lt [simp]: "unat (d :: byte) < 256"
  using unsigned_less [of d, where ?'a = nat] by simp

lemma length_bytes_of_string [simp]: "length (bytes_of_string s) = length s"
  by (simp add: bytes_of_string_def)

lemma length_string_of_bytes [simp]: "length (string_of_bytes b) = length b"
  by (simp add: string_of_bytes_def)

lemma unat_byte_of_char [simp]: "unat (byte_of_char c) = of_char c"
  by (simp add: byte_of_char_def unat_of_nat)

lemma char_of_byte_of_char [simp]: "char_of_byte (byte_of_char c) = c"
  by (simp add: char_of_byte_def)

lemma byte_of_char_of_byte [simp]: "byte_of_char (char_of_byte w) = w"
  by (simp add: char_of_byte_def byte_of_char_def)

lemma string_of_bytes_of_string [simp]: "string_of_bytes (bytes_of_string s) = s"
  by (simp add: string_of_bytes_def bytes_of_string_def comp_def)

lemma bytes_of_string_of_bytes [simp]: "bytes_of_string (string_of_bytes b) = b"
  by (simp add: string_of_bytes_def bytes_of_string_def comp_def)

subsection \<open>Big-endian numbers\<close>

text \<open>\<open>big.Int.SetBytes\<close> and \<open>big.Int.Bytes\<close> of \<open>math/big\<close>: the value of a big-endian
  byte slice, and the shortest big-endian slice of a value (empty for 0).\<close>

definition big_SetBytes :: "bytes \<Rightarrow> nat" where
  "big_SetBytes b = foldl (\<lambda>acc d. acc * 256 + unat d) 0 b"

fun big_Bytes :: "nat \<Rightarrow> bytes" where
  "big_Bytes n = (if n = 0 then [] else big_Bytes (n div 256) @ [of_nat (n mod 256)])"

declare big_Bytes.simps [simp del]

lemma big_SetBytes_Nil [simp]: "big_SetBytes [] = 0"
  by (simp add: big_SetBytes_def)

lemma big_SetBytes_snoc [simp]: "big_SetBytes (b @ [d]) = big_SetBytes b * 256 + unat d"
  by (simp add: big_SetBytes_def)

lemma big_Bytes_0 [simp]: "big_Bytes 0 = []"
  by (simp add: big_Bytes.simps)

lemma big_Bytes_step: "0 < n * 256 + unat d \<Longrightarrow> big_Bytes (n * 256 + unat d) = big_Bytes n @ [d]"
  for d :: byte
  using big_Bytes.simps [of "n * 256 + unat d"] by simp

lemma big_SetBytes_Bytes: "big_SetBytes (big_Bytes n) = n"
proof (induction n rule: big_Bytes.induct)
  case (1 n)
  show ?case
  proof (cases "n = 0")
    case False
    then have "big_SetBytes (big_Bytes n) = n div 256 * 256 + unat (of_nat (n mod 256) :: byte)"
      using 1 by (simp add: big_Bytes.simps [of n])
    then show ?thesis by (simp add: unat_of_nat)
  qed simp
qed

lemma big_Bytes_SetBytes: "big_Bytes (big_SetBytes b) = dropWhile (\<lambda>d. d = 0) b"
proof (induction b rule: rev_induct)
  case Nil
  then show ?case by simp
next
  case (snoc d b)
  show ?case
  proof (cases "big_SetBytes b * 256 + unat d = 0")
    case True
    then have z: "big_SetBytes b = 0" "d = 0" by (auto simp: unat_eq_zero)
    with snoc.IH have "dropWhile (\<lambda>d. d = 0) b = []" by simp
    with z show ?thesis by (auto simp: dropWhile_append dropWhile_eq_Nil_conv)
  next
    case False
    have ne: "dropWhile (\<lambda>d. d = 0) b \<noteq> [] \<or> d \<noteq> 0"
    proof (rule ccontr)
      assume "\<not> ?thesis"
      then have "big_Bytes (big_SetBytes b) = []" and "d = 0" using snoc.IH by auto
      then have "big_SetBytes (big_Bytes (big_SetBytes b)) = 0" by simp
      with \<open>d = 0\<close> False show False by (simp add: big_SetBytes_Bytes)
    qed
    have "big_Bytes (big_SetBytes (b @ [d])) = dropWhile (\<lambda>d. d = 0) b @ [d]"
      using False snoc.IH by (simp add: big_Bytes_step)
    also have "\<dots> = dropWhile (\<lambda>d. d = 0) (b @ [d])"
      using ne by (auto simp: dropWhile_append dropWhile_eq_Nil_conv)
    finally show ?thesis .
  qed
qed

lemma length_big_Bytes_less: "n < 256 ^ k \<Longrightarrow> length (big_Bytes n) \<le> k"
proof (induction k arbitrary: n)
  case (Suc k)
  show ?case
  proof (cases "n = 0")
    case False
    have "n div 256 < 256 ^ k" using Suc.prems by (simp add: less_mult_imp_div_less mult.commute)
    then show ?thesis using Suc.IH False by (simp add: big_Bytes.simps [of n])
  qed simp
qed simp

lemma length_big_Bytes_ge: "256 ^ k \<le> n \<Longrightarrow> k < length (big_Bytes n)"
proof (induction k arbitrary: n)
  case 0
  then show ?case by (simp add: big_Bytes.simps [of n])
next
  case (Suc k)
  then have n: "n \<noteq> 0" by (metis le_0_eq power_eq_0_iff zero_neq_numeral)
  have "256 ^ k \<le> n div 256" using Suc.prems by (simp add: less_eq_div_iff_mult_less_eq mult.commute)
  then show ?case using Suc.IH n by (simp add: big_Bytes.simps [of n])
qed

lemma big_SetBytes_less: "big_SetBytes b < 256 ^ length b"
proof (induction b rule: rev_induct)
  case (snoc d b)
  have "unat d < 256" using unsigned_less [of d] by simp
  then have "big_SetBytes b * 256 + unat d < (big_SetBytes b + 1) * 256" by simp
  also have "\<dots> \<le> 256 ^ length b * 256" using snoc by (intro mult_right_mono) simp_all
  finally show ?case by (simp add: mult.commute)
qed simp

end
