(* ===== verification/Sha256.thy ===== *)
theory Sha256
  imports Prelude
begin

text \<open>
  The SHA-256 implementation of \<open>privacy-protocol/crypto/sha256\<close> (\<open>sha256.go\<close> and
  \<open>sha256block.go\<close>), the code that hashes the nodes of the commitment tree; its
  \<open>Sum256\<close> is the same function as \<open>crypto/sha256\<close>, which \<open>common\<close> calls.
  The record \<open>digest\<close> is the running state. The lemmas relate it to the message written
  so far (\<open>digest_of\<close>): writing is streaming, a full checksum never reaches the
  \<open>d.nx != 0\<close> panic, and the variant without padding panics exactly on a partial chunk.
\<close>

unbundle bit_operations_syntax

subsection \<open>State and constants\<close>

record digest =
  d_h :: "u32 list"
  d_x :: bytes
  d_nx :: nat
  d_len :: u64
  d_is224 :: bool

definition chunk :: nat where
  "chunk = 64"

definition init256 :: "u32 list" where
  "init256 = [0x6A09E667, 0xBB67AE85, 0x3C6EF372, 0xA54FF53A,
              0x510E527F, 0x9B05688C, 0x1F83D9AB, 0x5BE0CD19]"

definition init224 :: "u32 list" where
  "init224 = [0xC1059ED8, 0x367CD507, 0x3070DD17, 0xF70E5939,
              0xFFC00B31, 0x68581511, 0x64F98FA7, 0xBEFA4FA4]"

definition sha_K :: "u32 list" where
  "sha_K = concat [
   [0x428a2f98, 0x71374491, 0xb5c0fbcf, 0xe9b5dba5, 0x3956c25b, 0x59f111f1],
   [0x923f82a4, 0xab1c5ed5, 0xd807aa98, 0x12835b01, 0x243185be, 0x550c7dc3],
   [0x72be5d74, 0x80deb1fe, 0x9bdc06a7, 0xc19bf174, 0xe49b69c1, 0xefbe4786],
   [0x0fc19dc6, 0x240ca1cc, 0x2de92c6f, 0x4a7484aa, 0x5cb0a9dc, 0x76f988da],
   [0x983e5152, 0xa831c66d, 0xb00327c8, 0xbf597fc7, 0xc6e00bf3, 0xd5a79147],
   [0x06ca6351, 0x14292967, 0x27b70a85, 0x2e1b2138, 0x4d2c6dfc, 0x53380d13],
   [0x650a7354, 0x766a0abb, 0x81c2c92e, 0x92722c85, 0xa2bfe8a1, 0xa81a664b],
   [0xc24b8b70, 0xc76c51a3, 0xd192e819, 0xd6990624, 0xf40e3585, 0x106aa070],
   [0x19a4c116, 0x1e376c08, 0x2748774c, 0x34b0bcb5, 0x391c0cb3, 0x4ed8aa4a],
   [0x5b9cca4f, 0x682e6ff3, 0x748f82ee, 0x78a5636f, 0x84c87814, 0x8cc70208],
   [0x90befffa, 0xa4506ceb, 0xbef9a3f7, 0xc67178f2]]"

subsection \<open>The block function\<close>

text \<open>\<open>sha_rotr v n\<close> is the source's \<open>v>>n | v<<(32-n)\<close>.\<close>

definition sha_rotr :: "u32 \<Rightarrow> nat \<Rightarrow> u32" where
  "sha_rotr v n = drop_bit n v OR push_bit (32 - n) v"

definition word_of_be4 :: "byte \<Rightarrow> byte \<Rightarrow> byte \<Rightarrow> byte \<Rightarrow> u32" where
  "word_of_be4 a b c d =
     push_bit 24 (ucast a) OR push_bit 16 (ucast b) OR push_bit 8 (ucast c) OR ucast d"

definition sched_init :: "bytes \<Rightarrow> u32 list" where
  "sched_init p =
     map (\<lambda>i. let j = i * 4 in word_of_be4 (p ! j) (p ! (j + 1)) (p ! (j + 2)) (p ! (j + 3)))
       [0..<16]"

definition sched_step :: "nat \<Rightarrow> u32 list \<Rightarrow> u32 list" where
  "sched_step i w =
     (let v1 = w ! (i - 2);
          t1 = sha_rotr v1 17 XOR sha_rotr v1 19 XOR drop_bit 10 v1;
          v2 = w ! (i - 15);
          t2 = sha_rotr v2 7 XOR sha_rotr v2 18 XOR drop_bit 3 v2
      in w @ [t1 + w ! (i - 7) + t2 + w ! (i - 16)])"

definition sched :: "bytes \<Rightarrow> u32 list" where
  "sched p = fold sched_step [16..<64] (sched_init p)"

type_synonym round_state = "u32 \<times> u32 \<times> u32 \<times> u32 \<times> u32 \<times> u32 \<times> u32 \<times> u32"

definition sha_round :: "u32 list \<Rightarrow> nat \<Rightarrow> round_state \<Rightarrow> round_state" where
  "sha_round w i = (\<lambda>(a, b, c, d, e, f, g, h).
     (let t1 = h + (sha_rotr e 6 XOR sha_rotr e 11 XOR sha_rotr e 25)
                 + ((e AND f) XOR (NOT e AND g)) + sha_K ! i + w ! i;
          t2 = (sha_rotr a 2 XOR sha_rotr a 13 XOR sha_rotr a 22)
                 + ((a AND b) XOR (a AND c) XOR (b AND c))
      in (t1 + t2, a, b, c, d + t1, e, f, g)))"

text \<open>One iteration of the loop \<open>for len(p) >= chunk\<close> of \<open>blockGeneric\<close>, on the first
  chunk of \<open>p\<close>.\<close>

definition block_chunk :: "u32 list \<Rightarrow> bytes \<Rightarrow> u32 list" where
  "block_chunk hs p =
     (let w = sched p;
          (a, b, c, d, e, f, g, h) =
            fold (sha_round w) [0..<64]
              (hs ! 0, hs ! 1, hs ! 2, hs ! 3, hs ! 4, hs ! 5, hs ! 6, hs ! 7)
      in [hs ! 0 + a, hs ! 1 + b, hs ! 2 + c, hs ! 3 + d,
          hs ! 4 + e, hs ! 5 + f, hs ! 6 + g, hs ! 7 + h])"

fun block_loop :: "u32 list \<Rightarrow> bytes \<Rightarrow> u32 list" where
  "block_loop hs p =
     (if chunk \<le> length p \<and> 0 < chunk then block_loop (block_chunk hs p) (drop chunk p) else hs)"

declare block_loop.simps [simp del]

definition blockGeneric :: "digest \<Rightarrow> bytes \<Rightarrow> digest" where
  "blockGeneric dig p = dig\<lparr>d_h := block_loop (d_h dig) p\<rparr>"

subsection \<open>Reset, Write and the checksums\<close>

definition Reset :: "digest \<Rightarrow> digest" where
  "Reset d = d\<lparr>d_h := (if d_is224 d then init224 else init256), d_nx := 0, d_len := 0\<rparr>"

text \<open>\<open>new(digest)\<close>, \<open>var d digest\<close>: the zero value.\<close>

definition zero_digest :: "bool \<Rightarrow> digest" where
  "zero_digest is224 =
     \<lparr>d_h = replicate 8 0, d_x = replicate chunk 0, d_nx = 0, d_len = 0, d_is224 = is224\<rparr>"

definition New :: digest where
  "New = Reset (zero_digest False)"

definition New224 :: digest where
  "New224 = Reset (zero_digest True)"

text \<open>\<open>Write\<close>, in the three parts of its body: fill the partial chunk, process the whole
  chunks of the rest, keep the remainder. It returns \<open>len(p)\<close> and no error.\<close>

definition Write_fill :: "digest \<Rightarrow> bytes \<Rightarrow> digest \<times> bytes" where
  "Write_fill d p =
     (if 0 < d_nx d
      then let n = min (chunk - d_nx d) (length p);
               x' = take (d_nx d) (d_x d) @ take n p @ drop (d_nx d + n) (d_x d);
               d1 = d\<lparr>d_x := x', d_nx := d_nx d + n\<rparr>;
               d2 = (if d_nx d1 = chunk then (blockGeneric d1 x')\<lparr>d_nx := 0\<rparr> else d1)
           in (d2, drop n p)
      else (d, p))"

definition Write_blocks :: "digest \<Rightarrow> bytes \<Rightarrow> digest \<times> bytes" where
  "Write_blocks d p =
     (if chunk \<le> length p
      then let n = chunk * (length p div chunk) in (blockGeneric d (take n p), drop n p)
      else (d, p))"

definition Write_rest :: "digest \<Rightarrow> bytes \<Rightarrow> digest" where
  "Write_rest d p =
     (if 0 < length p
      then d\<lparr>d_x := take chunk p @ drop (length p) (d_x d), d_nx := min chunk (length p)\<rparr>
      else d)"

definition Write :: "digest \<Rightarrow> bytes \<Rightarrow> digest" where
  "Write d p =
     (let (d1, p1) = Write_fill (d\<lparr>d_len := d_len d + of_nat (length p)\<rparr>) p;
          (d2, p2) = Write_blocks d1 p1
      in Write_rest d2 p2)"

definition be4_of_word :: "u32 \<Rightarrow> bytes" where
  "be4_of_word s = [ucast (drop_bit 24 s), ucast (drop_bit 16 s), ucast (drop_bit 8 s), ucast s]"

definition be8_of_word :: "u64 \<Rightarrow> bytes" where
  "be8_of_word s = map (\<lambda>i. ucast (drop_bit (56 - 8 * i) s)) [0..<8]"

text \<open>The last part of both checksums: \<open>[Size]byte\<close> filled from \<open>d.h\<close> (seven words for
  SHA-224, the rest stays zero); \<open>None\<close> is the panic \<open>d.nx != 0\<close>.\<close>

definition checkSumNoPad :: "digest \<Rightarrow> bytes option" where
  "checkSumNoPad d =
     (if d_nx d \<noteq> 0 then None
      else let h = (if d_is224 d then take 7 (d_h d) else d_h d);
               out = concat (map be4_of_word h)
           in Some (out @ replicate (32 - length out) 0))"

definition checkSum :: "digest \<Rightarrow> bytes option" where
  "checkSum d =
     (let len = d_len d;
          r = unat (len mod 64);
          tmp = 0x80 # replicate 63 0;
          d1 = (if r < 56 then Write d (take (56 - r) tmp)
                else Write d (take (64 + 56 - r) (tmp @ replicate 56 0)));
          d2 = Write d1 (be8_of_word (push_bit 3 len))
      in checkSumNoPad d2)"

text \<open>In the second branch the source slices \<open>tmp[0 : 64+56-len%64]\<close>, which is at most 64
  because \<open>len%64 >= 56\<close> there; the appended zeros are never taken (lemma
  \<open>checkSum_slice_in_range\<close>).\<close>

definition Sum :: "digest \<Rightarrow> bytes \<Rightarrow> bytes option" where
  "Sum d inp = map_option (\<lambda>h. inp @ (if d_is224 d then take 28 h else h)) (checkSum d)"

definition SumNoPad :: "digest \<Rightarrow> bytes \<Rightarrow> bytes option" where
  "SumNoPad d inp = map_option (\<lambda>h. inp @ (if d_is224 d then take 28 h else h)) (checkSumNoPad d)"

definition Sum256 :: "bytes \<Rightarrow> bytes option" where
  "Sum256 data = checkSum (Write (Reset (zero_digest False)) data)"

definition Sum256NoPad :: "bytes \<Rightarrow> bytes option" where
  "Sum256NoPad data = checkSumNoPad (Write (Reset (zero_digest False)) data)"

definition Sum224 :: "bytes \<Rightarrow> bytes option" where
  "Sum224 data = map_option (take 28) (checkSum (Write (Reset (zero_digest True)) data))"

subsection \<open>Saving and restoring the state\<close>

definition magic224 :: bytes where
  "magic224 = bytes_of_string ''sha'' @ [2]"

definition magic256 :: bytes where
  "magic256 = bytes_of_string ''sha'' @ [3]"

definition marshaledSize :: nat where
  "marshaledSize = 4 + 8 * 4 + chunk + 8"

definition MarshalBinary :: "digest \<Rightarrow> bytes" where
  "MarshalBinary d =
     (if d_is224 d then magic224 else magic256)
       @ concat (map (\<lambda>i. be4_of_word (d_h d ! i)) [0..<8])
       @ take (d_nx d) (d_x d) @ replicate (length (d_x d) - d_nx d) 0
       @ be8_of_word (d_len d)"

definition consumeUint32 :: "bytes \<Rightarrow> bytes \<times> u32" where
  "consumeUint32 b = (drop 4 b, word_of_be4 (b ! 0) (b ! 1) (b ! 2) (b ! 3))"

definition consumeUint64 :: "bytes \<Rightarrow> bytes \<times> u64" where
  "consumeUint64 b =
     (drop 8 b,
      ucast (b ! 7) OR push_bit 8 (ucast (b ! 6)) OR push_bit 16 (ucast (b ! 5))
        OR push_bit 24 (ucast (b ! 4)) OR push_bit 32 (ucast (b ! 3)) OR push_bit 40 (ucast (b ! 2))
        OR push_bit 48 (ucast (b ! 1)) OR push_bit 56 (ucast (b ! 0)))"

fun consume_words :: "nat \<Rightarrow> bytes \<Rightarrow> bytes \<times> u32 list" where
  "consume_words 0 b = (b, [])"
| "consume_words (Suc n) b =
     (let (b1, w) = consumeUint32 b; (b2, ws) = consume_words n b1 in (b2, w # ws))"

datatype sha_error = InvalidIdentifier | InvalidSize

text \<open>The source computes \<open>d.nx = int(d.len) % chunk\<close>; for lengths below \<open>2^63\<close>, the range of
  Go's \<open>int\<close>, this is the remainder written here.\<close>

definition UnmarshalBinary :: "digest \<Rightarrow> bytes \<Rightarrow> (sha_error, digest) res" where
  "UnmarshalBinary d b =
     (if length b < length magic224 \<or> d_is224 d \<and> take (length magic224) b \<noteq> magic224
         \<or> \<not> d_is224 d \<and> take (length magic256) b \<noteq> magic256 then Err InvalidIdentifier
      else if length b \<noteq> marshaledSize then Err InvalidSize
      else let (b1, hs) = consume_words 8 (drop (length magic224) b);
               x = take chunk b1;
               (b2, len) = consumeUint64 (drop chunk b1)
           in Ok (d\<lparr>d_h := hs, d_x := x, d_len := len, d_nx := unat len mod chunk\<rparr>))"

subsection \<open>The message behind a state\<close>

definition state_of :: "digest \<Rightarrow> bytes \<Rightarrow> bool" where
  "state_of d m \<longleftrightarrow>
     d_h d = block_loop (if d_is224 d then init224 else init256) m \<and>
     d_nx d = length m mod chunk \<and> length (d_x d) = chunk \<and>
     take (d_nx d) (d_x d) = drop (chunk * (length m div chunk)) m"

definition digest_of :: "digest \<Rightarrow> bytes \<Rightarrow> bool" where
  "digest_of d m \<longleftrightarrow> state_of d m \<and> d_len d = of_nat (length m)"

lemma chunk_64 [simp]: "chunk = 64"
  by (simp add: chunk_def)

lemma block_loop_short [simp]: "length p < 64 \<Longrightarrow> block_loop hs p = hs"
  by (simp add: block_loop.simps)

lemma block_chunk_append: "64 \<le> length p \<Longrightarrow> block_chunk hs (p @ q) = block_chunk hs p"
proof -
  assume "64 \<le> length p"
  then have "sched_init (p @ q) = sched_init p"
    by (auto simp: sched_init_def Let_def nth_append)
  then show ?thesis by (simp add: block_chunk_def sched_def)
qed

lemma block_loop_append:
  "64 dvd length p \<Longrightarrow> block_loop hs (p @ q) = block_loop (block_loop hs p) q"
proof (induction hs p rule: block_loop.induct)
  case (1 hs p)
  show ?case
  proof (cases "64 \<le> length p")
    case True
    have "block_loop hs (p @ q) = block_loop (block_chunk hs p) (drop 64 p @ q)"
      using True by (simp add: block_loop.simps [of hs "p @ q"] block_chunk_append)
    also have "\<dots> = block_loop (block_loop (block_chunk hs p) (drop 64 p)) q"
      using 1 True by simp
    also have "block_loop (block_chunk hs p) (drop 64 p) = block_loop hs p"
      using True by (simp add: block_loop.simps [of hs p])
    finally show ?thesis .
  next
    case False
    with 1(2) have "p = []" by (cases p) (auto dest: dvd_imp_le)
    then show ?thesis by (simp add: block_loop.simps [of hs "[]"])
  qed
qed

lemma block_loop_whole: "block_loop hs (take (64 * (length p div 64)) p) = block_loop hs p"
proof -
  let ?n = "64 * (length p div 64)"
  have "block_loop hs p = block_loop hs (take ?n p @ drop ?n p)" by simp
  also have "\<dots> = block_loop (block_loop hs (take ?n p)) (drop ?n p)"
    by (rule block_loop_append) (simp add: min_absorb2)
  also have "\<dots> = block_loop hs (take ?n p)"
    by (rule block_loop_short) (simp add: minus_mult_div_eq_mod)
  finally show ?thesis by simp
qed

lemma length_block_chunk [simp]: "length (block_chunk hs p) = 8"
  by (simp add: block_chunk_def Let_def split: prod.splits)

lemma length_block_loop: "length hs = 8 \<Longrightarrow> length (block_loop hs p) = 8"
proof (induction hs p rule: block_loop.induct)
  case (1 hs p)
  then show ?case by (cases "64 \<le> length p") (auto simp: block_loop.simps [of hs p])
qed

lemma digest_of_Reset: "digest_of (Reset (zero_digest b)) []"
  by (simp add: digest_of_def state_of_def Reset_def zero_digest_def)

lemma state_of_split:
  assumes "state_of d m"
  obtains m0 where "m = m0 @ take (d_nx d) (d_x d)" and "64 dvd length m0"
    and "d_h d = block_loop (if d_is224 d then init224 else init256) m0"
    and "d_nx d < 64" and "length (d_x d) = 64"
proof (rule that)
  let ?n = "64 * (length m div 64)"
  from assms show "m = take ?n m @ take (d_nx d) (d_x d)"
    unfolding state_of_def chunk_64 by (metis append_take_drop_id)
  from assms show "64 dvd length (take ?n m)" by (simp add: min_absorb2)
  from assms show "d_h d = block_loop (if d_is224 d then init224 else init256) (take ?n m)"
    by (simp add: state_of_def block_loop_whole)
  from assms show "d_nx d < 64" and "length (d_x d) = 64"
    by (simp_all add: state_of_def)
qed

lemma state_ofI:
  assumes "m = m0 @ take (d_nx d) (d_x d)" and "64 dvd length m0"
    and "d_h d = block_loop (if d_is224 d then init224 else init256) m0"
    and "d_nx d < 64" and "length (d_x d) = 64"
  shows "state_of d m"
proof -
  from assms(2) obtain k where k: "length m0 = 64 * k" ..
  have len: "length m = 64 * k + d_nx d" using assms k by simp
  have "block_loop hs m = block_loop hs m0" for hs
    using assms by (simp add: block_loop_append)
  with assms len k show ?thesis
    by (simp add: state_of_def)
qed

lemma Write_fill_state:
  assumes st: "state_of d m" and w: "Write_fill d p = (d1, p1)"
  shows "\<exists>q. p = q @ p1 \<and> state_of d1 (m @ q) \<and> (d_nx d1 = 0 \<or> p1 = []) \<and>
    d_len d1 = d_len d \<and> d_is224 d1 = d_is224 d"
proof (cases "0 < d_nx d")
  case False
  with st w show ?thesis by (auto simp: Write_fill_def)
next
  case True
  from st obtain m0 where m0: "m = m0 @ take (d_nx d) (d_x d)" "64 dvd length m0"
    "d_h d = block_loop (if d_is224 d then init224 else init256) m0"
    "d_nx d < 64" "length (d_x d) = 64"
    by (rule state_of_split)
  define n where "n = min (64 - d_nx d) (length p)"
  define x' where "x' = take (d_nx d) (d_x d) @ take n p @ drop (d_nx d + n) (d_x d)"
  have n_le: "d_nx d + n \<le> 64" "n \<le> length p" using m0 by (auto simp: n_def)
  have x': "length x' = 64" "take (d_nx d + n) x' = take (d_nx d) (d_x d) @ take n p"
    using m0 n_le by (auto simp: x'_def min_absorb2)
  show ?thesis
  proof (cases "d_nx d + n = 64")
    case full: True
    have w': "p1 = drop n p" "d1 = (blockGeneric (d\<lparr>d_x := x', d_nx := 64\<rparr>) x')\<lparr>d_nx := 0\<rparr>"
      using w True full by (simp_all add: Write_fill_def Let_def x'_def n_def)
    have xe: "x' = take (d_nx d) (d_x d) @ take n p" using x' full by simp
    have "state_of d1 (m @ take n p)"
      by (rule state_ofI [of _ "m0 @ x'"])
        (use m0 x' w' in \<open>simp_all add: xe blockGeneric_def block_loop_append\<close>)
    then show ?thesis
      using w' by (intro exI [of _ "take n p"]) (simp add: blockGeneric_def)
  next
    case part: False
    have w': "p1 = drop n p" "d1 = d\<lparr>d_x := x', d_nx := d_nx d + n\<rparr>"
      using w True part by (simp_all add: Write_fill_def Let_def x'_def n_def)
    have "p1 = []" using w' part n_le by (auto simp: n_def)
    moreover have "state_of d1 (m @ take n p)"
      by (rule state_ofI [of _ m0]) (use m0 x' w' part n_le in simp_all)
    ultimately show ?thesis
      using w' by (intro exI [of _ "take n p"]) simp
  qed
qed

lemma Write_blocks_state:
  assumes st: "state_of d m" and z: "d_nx d = 0 \<or> p = []" and w: "Write_blocks d p = (d2, p2)"
  shows "\<exists>q. p = q @ p2 \<and> state_of d2 (m @ q) \<and> (d_nx d2 = 0 \<or> p2 = []) \<and> length p2 < 64 \<and>
    d_len d2 = d_len d \<and> d_is224 d2 = d_is224 d"
proof (cases "64 \<le> length p")
  case False
  with assms show ?thesis by (auto simp: Write_blocks_def)
next
  case True
  with z have nx: "d_nx d = 0" by auto
  from st obtain m0 where m0: "m = m0 @ take (d_nx d) (d_x d)" "64 dvd length m0"
    "d_h d = block_loop (if d_is224 d then init224 else init256) m0"
    "d_nx d < 64" "length (d_x d) = 64"
    by (rule state_of_split)
  let ?n = "64 * (length p div 64)"
  have w': "d2 = blockGeneric d (take ?n p)" "p2 = drop ?n p"
    using w True by (simp_all add: Write_blocks_def Let_def)
  have "state_of d2 (m @ take ?n p)"
    by (rule state_ofI [of _ "m0 @ take ?n p"])
      (use m0 nx w' in \<open>simp_all add: blockGeneric_def block_loop_append min_absorb2\<close>)
  then show ?thesis
    using w' nx by (intro exI [of _ "take ?n p"]) (simp add: blockGeneric_def minus_mult_div_eq_mod)
qed

lemma Write_rest_state:
  assumes st: "state_of d m" and z: "d_nx d = 0 \<or> p = []" and l: "length p < 64"
  shows "state_of (Write_rest d p) (m @ p)"
proof (cases "p = []")
  case True
  with st show ?thesis by (simp add: Write_rest_def)
next
  case False
  with z have nx: "d_nx d = 0" by simp
  from st obtain m0 where m0: "m = m0 @ take (d_nx d) (d_x d)" "64 dvd length m0"
    "d_h d = block_loop (if d_is224 d then init224 else init256) m0"
    "d_nx d < 64" "length (d_x d) = 64"
    by (rule state_of_split)
  show ?thesis
    by (rule state_ofI [of _ m0]) (use m0 nx l False in \<open>simp_all add: Write_rest_def min_absorb2\<close>)
qed

lemma Write_rest_frame [simp]:
  "d_len (Write_rest d p) = d_len d" "d_is224 (Write_rest d p) = d_is224 d"
  by (simp_all add: Write_rest_def)

lemma Write_digest_of:
  assumes "digest_of d m"
  shows "digest_of (Write d p) (m @ p)" and "d_is224 (Write d p) = d_is224 d"
proof -
  let ?d0 = "d\<lparr>d_len := d_len d + of_nat (length p)\<rparr>"
  obtain d1 p1 where 1: "Write_fill ?d0 p = (d1, p1)" by fastforce
  obtain d2 p2 where 2: "Write_blocks d1 p1 = (d2, p2)" by fastforce
  from assms have s0: "state_of ?d0 m" by (auto simp: digest_of_def state_of_def)
  from Write_fill_state [OF s0 1] obtain q1 where q1: "p = q1 @ p1" "state_of d1 (m @ q1)"
    "d_nx d1 = 0 \<or> p1 = []" "d_len d1 = d_len ?d0" "d_is224 d1 = d_is224 d" by auto
  from Write_blocks_state [OF q1(2,3) 2] obtain q2 where q2: "p1 = q2 @ p2"
    "state_of d2 (m @ q1 @ q2)" "d_nx d2 = 0 \<or> p2 = []" "length p2 < 64"
    "d_len d2 = d_len d1" "d_is224 d2 = d_is224 d1" by auto
  have W: "Write d p = Write_rest d2 p2" by (simp add: Write_def 1 2)
  from Write_rest_state [OF q2(2,3,4)] have "state_of (Write d p) (m @ p)"
    unfolding W using q1(1) q2(1) by simp
  moreover have "d_len (Write d p) = of_nat (length (m @ p))"
    unfolding W using assms q1(4) q2(5) by (simp add: digest_of_def)
  ultimately show "digest_of (Write d p) (m @ p)" by (simp add: digest_of_def)
  show "d_is224 (Write d p) = d_is224 d" unfolding W using q1(5) q2(6) by simp
qed

subsection \<open>Checksums of a message\<close>

text \<open>The reference: FIPS 180 padding of the whole message, then the block function over it.\<close>

definition sha_pad :: "bytes \<Rightarrow> bytes" where
  "sha_pad m =
     m @ 0x80 # replicate ((119 - length m mod 64) mod 64) 0
       @ be8_of_word (push_bit 3 (of_nat (length m)))"

definition sha256_spec :: "bytes \<Rightarrow> bytes" where
  "sha256_spec m = concat (map be4_of_word (block_loop init256 (sha_pad m)))"

lemma length_be4 [simp]: "length (be4_of_word w) = 4"
  by (simp add: be4_of_word_def)

lemma length_be8 [simp]: "length (be8_of_word w) = 8"
  by (simp add: be8_of_word_def)

lemma length_concat_be4 [simp]: "length (concat (map be4_of_word ws)) = 4 * length ws"
  by (induction ws) auto

lemma length_init [simp]: "length init256 = 8" "length init224 = 8"
  by (simp_all add: init256_def init224_def)

lemma unat_len_mod64: "unat ((of_nat n :: u64) mod 64) = n mod 64"
proof -
  have "unat ((of_nat n :: u64) mod 64) = n mod 2 ^ 64 mod 64"
    by (simp add: unat_mod_distrib unat_of_nat)
  also have "\<dots> = n mod 64" by (rule mod_mod_cancel) simp
  finally show ?thesis .
qed

lemma checkSum_slice_in_range:
  "56 \<le> r \<Longrightarrow> r < 64 \<Longrightarrow>
   take (64 + 56 - r) (((0x80 :: byte) # replicate 63 0) @ replicate 56 0)
     = take (64 + 56 - r) (0x80 # replicate 63 0)"
  by (subst take_append) simp

lemma pad_tmp:
  assumes "r < 64"
  shows "(if r < 56 then take (56 - r) ((0x80 :: byte) # replicate 63 0)
          else take (64 + 56 - r) ((0x80 # replicate 63 0) @ replicate 56 0))
         = 0x80 # replicate ((119 - r) mod 64) 0"
proof (cases "r < 56")
  case True
  then have "(119 - r) mod 64 = 55 - r"
    by (simp add: mod_if)
  with True show ?thesis by (cases "56 - r") (auto simp: min_absorb1)
next
  case False
  then have "(119 - r) mod 64 = 119 - r" using assms by simp
  moreover have "64 + 56 - r = Suc (119 - r)" using assms by simp
  ultimately show ?thesis using False assms
    by (simp only: checkSum_slice_in_range [OF _ assms] not_less if_False) (simp add: min_absorb1)
qed

lemma sha_pad_dvd: "64 dvd length (sha_pad m)"
proof -
  define r where "r = length m mod 64"
  have r: "r < 64" by (simp add: r_def)
  have m: "length m = 64 * (length m div 64) + r" by (simp add: r_def)
  have l: "length (sha_pad m) = 64 * (length m div 64) + (r + ((119 - r) mod 64) + 9)"
    using m by (simp add: sha_pad_def flip: r_def)
  have "64 dvd r + ((119 - r) mod 64) + 9"
    by (cases "r < 56") (use r in \<open>simp_all add: mod_if\<close>)
  then show ?thesis unfolding l by (simp only: dvd_add_right_iff dvd_triv_left)
qed

lemma checkSum_writes:
  assumes "digest_of d m"
  shows "\<exists>d2. checkSum d = checkSumNoPad d2 \<and> digest_of d2 (sha_pad m) \<and> d_is224 d2 = d_is224 d"
proof -
  let ?pad = "0x80 # replicate ((119 - length m mod 64) mod 64) (0 :: byte)"
  let ?d1 = "Write d ?pad"
  let ?d2 = "Write ?d1 (be8_of_word (push_bit 3 (d_len d)))"
  have len: "d_len d = of_nat (length m)" using assms by (simp add: digest_of_def)
  have "checkSum d = checkSumNoPad ?d2"
    unfolding checkSum_def Let_def len unat_len_mod64 if_distrib [of "Write d", symmetric]
    by (subst pad_tmp) simp_all
  moreover have "digest_of ?d2 (sha_pad m)" "d_is224 ?d2 = d_is224 d"
    using Write_digest_of [OF Write_digest_of(1) [OF assms], of ?pad]
      Write_digest_of(2) [OF assms, of ?pad]
    by (simp_all add: sha_pad_def len)
  ultimately show ?thesis by blast
qed

lemma checkSum_eq_spec:
  assumes "digest_of d m" and "\<not> d_is224 d"
  shows "checkSum d = Some (sha256_spec m)"
proof -
  from checkSum_writes [OF assms(1)] obtain d2 where d2: "checkSum d = checkSumNoPad d2"
    "digest_of d2 (sha_pad m)" "d_is224 d2 = d_is224 d" by blast
  then have "d_nx d2 = 0" and "d_h d2 = block_loop init256 (sha_pad m)"
    using sha_pad_dvd [of m] assms(2) by (simp_all add: digest_of_def state_of_def)
  then show ?thesis
    using d2 assms(2) by (simp add: checkSumNoPad_def sha256_spec_def length_block_loop Let_def)
qed

lemma Sum256_spec: "Sum256 m = Some (sha256_spec m)"
proof -
  have "digest_of (Write (Reset (zero_digest False)) m) m"
    using Write_digest_of(1) [OF digest_of_Reset, of False m] by simp
  moreover have "\<not> d_is224 (Write (Reset (zero_digest False)) m)"
    using Write_digest_of(2) [OF digest_of_Reset, of False m] by (simp add: Reset_def zero_digest_def)
  ultimately show ?thesis unfolding Sum256_def by (rule checkSum_eq_spec)
qed

lemma length_sha256_spec [simp]: "length (sha256_spec m) = 32"
  by (simp add: sha256_spec_def length_block_loop)

lemma Sum256NoPad_eq:
  "Sum256NoPad m = (if 64 dvd length m then Some (concat (map be4_of_word (block_loop init256 m)))
     else None)"
proof -
  let ?d = "Write (Reset (zero_digest False)) m"
  have "digest_of ?d m" "\<not> d_is224 ?d"
    using Write_digest_of [OF digest_of_Reset, of False m]
    by (simp_all add: Reset_def zero_digest_def)
  then show ?thesis
    by (simp add: Sum256NoPad_def checkSumNoPad_def digest_of_def state_of_def Let_def
        length_block_loop dvd_eq_mod_eq_0)
qed

subsection \<open>Save and restore\<close>

lemma word_of_be4_of_word:
  "word_of_be4 (ucast (drop_bit 24 s)) (ucast (drop_bit 16 s)) (ucast (drop_bit 8 s)) (ucast s) = s"
  (is "?l = s") for s :: u32
proof (rule bit_word_eqI)
  fix n :: nat
  assume "n < LENGTH(32)"
  then consider "n < 8" | "8 \<le> n" "n < 16" | "16 \<le> n" "n < 24" | "24 \<le> n" "n < 32"
    by fastforce
  then show "bit ?l n = bit s n"
    unfolding word_of_be4_def by cases (simp_all add: bit_simps less_diff_conv2)
qed

lemma consumeUint32_be4 [simp]: "consumeUint32 (be4_of_word w @ b) = (b, w)"
  by (simp add: consumeUint32_def be4_of_word_def word_of_be4_of_word)

lemma consume_words_be4: "consume_words (length ws) (concat (map be4_of_word ws) @ b) = (b, ws)"
  by (induction ws) auto

lemma word_of_be8_bytes:
  "ucast (ucast w :: byte) OR push_bit 8 (ucast (ucast (drop_bit 8 w) :: byte))
     OR push_bit 16 (ucast (ucast (drop_bit 16 w) :: byte))
     OR push_bit 24 (ucast (ucast (drop_bit 24 w) :: byte))
     OR push_bit 32 (ucast (ucast (drop_bit 32 w) :: byte))
     OR push_bit 40 (ucast (ucast (drop_bit 40 w) :: byte))
     OR push_bit 48 (ucast (ucast (drop_bit 48 w) :: byte))
     OR push_bit 56 (ucast (ucast (drop_bit 56 w) :: byte)) = w"
  (is "?l = w") for w :: u64
proof (rule bit_word_eqI)
  fix n :: nat
  assume "n < LENGTH(64)"
  then consider "n < 8" | "8 \<le> n" "n < 16" | "16 \<le> n" "n < 24" | "24 \<le> n" "n < 32"
    | "32 \<le> n" "n < 40" | "40 \<le> n" "n < 48" | "48 \<le> n" "n < 56" | "56 \<le> n" "n < 64"
    by fastforce
  then show "bit ?l n = bit w n"
    by cases (simp_all add: bit_simps less_diff_conv2)
qed

lemma consumeUint64_be8 [simp]: "consumeUint64 (be8_of_word w @ b) = (b, w)"
proof -
  have "be8_of_word w = map (\<lambda>i. ucast (drop_bit (56 - 8 * i) w)) [0, 1, 2, 3, 4, 5, 6, 7]"
    by (simp add: be8_of_word_def upt_rec)
  then show ?thesis using word_of_be8_bytes [of w] by (simp add: consumeUint64_def)
qed

lemma MarshalBinary_eq:
  "length (d_h d) = 8 \<Longrightarrow> MarshalBinary d = (if d_is224 d then magic224 else magic256)
     @ concat (map be4_of_word (d_h d))
     @ (take (d_nx d) (d_x d) @ replicate (length (d_x d) - d_nx d) 0) @ be8_of_word (d_len d)"
proof -
  assume "length (d_h d) = 8"
  then have "map (\<lambda>i. be4_of_word (d_h d ! i)) [0..<8] = map be4_of_word (d_h d)"
    by (intro nth_equalityI) auto
  then show ?thesis by (simp add: MarshalBinary_def)
qed

lemma length_magic [simp]: "length magic224 = 4" "length magic256 = 4"
  by (simp_all add: magic224_def magic256_def)

lemma Unmarshal_Marshal_state:
  assumes d: "digest_of d m" and l: "length m < 2 ^ 63" and e: "d_is224 e = d_is224 d"
  shows "UnmarshalBinary e (MarshalBinary d) =
    Ok (e\<lparr>d_h := d_h d, d_x := take (d_nx d) (d_x d) @ replicate (64 - d_nx d) 0,
         d_len := d_len d, d_nx := d_nx d\<rparr>)"
proof -
  have h: "length (d_h d) = 8" "length (d_x d) = 64" "d_nx d < 64" "d_nx d = length m mod 64"
    using d by (auto simp: digest_of_def state_of_def length_block_loop)
  let ?x = "take (d_nx d) (d_x d) @ replicate (64 - d_nx d) (0 :: byte)"
  have lx: "length ?x = 64" using h by simp
  have nx: "unat (d_len d) mod 64 = d_nx d"
    using d l h(4) by (simp add: digest_of_def unat_of_nat)
  have c: "consume_words 8 (concat (map be4_of_word (d_h d)) @ ?x @ be8_of_word (d_len d))
      = (?x @ be8_of_word (d_len d), d_h d)"
    using consume_words_be4 [of "d_h d" "?x @ be8_of_word (d_len d)"] h by simp
  have M: "MarshalBinary d = (if d_is224 d then magic224 else magic256)
      @ concat (map be4_of_word (d_h d)) @ ?x @ be8_of_word (d_len d)"
    using MarshalBinary_eq [OF h(1)] h(2) by simp
  have u: "consumeUint64 (be8_of_word (d_len d)) = ([], d_len d)"
    using consumeUint64_be8 [of "d_len d" "[]"] by simp
  have t: "drop (length magic224) (MarshalBinary d)
      = concat (map be4_of_word (d_h d)) @ ?x @ be8_of_word (d_len d)"
    unfolding M by simp
  have tk: "take 4 (MarshalBinary d) = (if d_is224 d then magic224 else magic256)"
    unfolding M by simp
  have len: "length (MarshalBinary d) = 108" unfolding M using h by simp
  show ?thesis
    unfolding UnmarshalBinary_def t c Let_def
    using tk len e lx nx by (simp add: marshaledSize_def u split: if_splits)
qed

lemma Unmarshal_Marshal_digest_of:
  assumes "digest_of d m" and "length m < 2 ^ 63" and "d_is224 e = d_is224 d"
  shows "\<exists>d'. UnmarshalBinary e (MarshalBinary d) = Ok d' \<and> digest_of d' m
    \<and> d_is224 d' = d_is224 d"
proof -
  have "digest_of (e\<lparr>d_h := d_h d, d_x := take (d_nx d) (d_x d) @ replicate (64 - d_nx d) 0,
         d_len := d_len d, d_nx := d_nx d\<rparr>) m"
    using assms(1,3) by (auto simp: digest_of_def state_of_def)
  then show ?thesis using Unmarshal_Marshal_state [OF assms] assms(3) by auto
qed

subsection \<open>The contract of a streaming hash\<close>

locale stream_hash =
  fixes new :: 's
    and wr :: "'s \<Rightarrow> bytes \<Rightarrow> 's"
    and sum :: "'s \<Rightarrow> bytes option"
    and rep :: "'s \<Rightarrow> bytes \<Rightarrow> bool"
    and spec :: "bytes \<Rightarrow> bytes"
  assumes rep_new: "rep new []"
    and rep_write: "rep s m \<Longrightarrow> rep (wr s p) (m @ p)"
    and sum_spec: "rep s m \<Longrightarrow> sum s = Some (spec m)"
begin

lemma rep_writes: "rep s m \<Longrightarrow> rep (foldl wr s ps) (m @ concat ps)"
proof (induction ps arbitrary: s m)
  case (Cons p ps)
  from Cons.IH [OF rep_write [OF Cons.prems]] show ?case by simp
qed simp

lemma sum_writes: "rep s m \<Longrightarrow> sum (foldl wr s ps) = Some (spec (m @ concat ps))"
  by (rule sum_spec) (rule rep_writes)

lemma sum_chunking: "concat ps = concat qs \<Longrightarrow> sum (foldl wr new ps) = sum (foldl wr new qs)"
  using sum_writes [OF rep_new] by simp

end

interpretation sha: stream_hash New Write checkSum "\<lambda>d m. digest_of d m \<and> \<not> d_is224 d" sha256_spec
proof unfold_locales
  show "digest_of New [] \<and> \<not> d_is224 New"
    using digest_of_Reset [of False] by (simp add: New_def Reset_def zero_digest_def)
next
  fix s m p
  assume "digest_of s m \<and> \<not> d_is224 s"
  then show "digest_of (Write s p) (m @ p) \<and> \<not> d_is224 (Write s p)"
    using Write_digest_of [of s m p] by simp
next
  fix s m
  assume "digest_of s m \<and> \<not> d_is224 s"
  then show "checkSum s = Some (sha256_spec m)" using checkSum_eq_spec [of s m] by simp
qed

text \<open>Claim C30 (equivalence): however a message is cut into \<open>Write\<close> calls, the checksum of the
  resulting state is the SHA-256 reference value of the whole message: the padding, the
  partial-chunk buffer and the block loop together compute the one-shot function, and the panic
  \<open>d.nx != 0\<close> in \<open>checkSum\<close> is never reached.\<close>

theorem sha_write_streaming: "checkSum (foldl Write New ps) = Some (sha256_spec (concat ps))"
  using sha.sum_writes [OF sha.rep_new, of ps] by simp

text \<open>\<open>Sum256NoPad\<close> panics exactly when the data is not a whole number of
  64-byte chunks, and otherwise returns 32 bytes; so hashing two 32-byte nodes never panics.\<close>

theorem Sum256NoPad_panics_iff:
  "(Sum256NoPad data = None) = (length data mod 64 \<noteq> 0) \<and>
   (case Sum256NoPad data of None \<Rightarrow> True | Some h \<Rightarrow> length h = 32)"
  by (auto simp: Sum256NoPad_eq dvd_eq_mod_eq_0 length_block_loop)

text \<open>A state saved with \<open>MarshalBinary\<close> and restored with
  \<open>UnmarshalBinary\<close> into a fresh digest continues the computation: writing the rest of the
  message and summing gives the checksum of the whole message.\<close>

theorem sha_resume:
  assumes "length (concat ps) < 2 ^ 63"
  shows "\<exists>d. UnmarshalBinary New (MarshalBinary (foldl Write New ps)) = Ok d \<and>
    checkSum (foldl Write d qs) = Some (sha256_spec (concat ps @ concat qs))"
proof -
  have "digest_of (foldl Write New ps) (concat ps) \<and> \<not> d_is224 (foldl Write New ps)"
    using sha.rep_writes [OF sha.rep_new, of ps] by simp
  with Unmarshal_Marshal_digest_of [of "foldl Write New ps" "concat ps" New] assms
  obtain d where d: "UnmarshalBinary New (MarshalBinary (foldl Write New ps)) = Ok d"
    "digest_of d (concat ps) \<and> \<not> d_is224 d"
    by (auto simp: New_def Reset_def zero_digest_def)
  with sha.sum_writes [OF d(2), of qs] show ?thesis by blast
qed

theorem sha_resume_witness:
  "length (concat [[1, 2], [3 :: byte]]) < (2 :: nat) ^ 63 \<and>
   (\<exists>d. UnmarshalBinary New (MarshalBinary (foldl Write New [[1, 2], [3]])) = Ok d \<and>
      checkSum (foldl Write d [[4]]) = Some (sha256_spec (concat [[1, 2], [3]] @ concat [[4]])))"
proof -
  have h: "length (concat [[1, 2], [3 :: byte]]) < (2 :: nat) ^ 63" by simp
  from h sha_resume [OF h, of "[[4]]"] show ?thesis by (rule conjI)
qed

end
