(* ===== verification/Common.thy ===== *)
theory Common
  imports Sha256
begin

text \<open>
  The package \<open>common\<close>: the hash type and its string form (\<open>hash.go\<close>), the hash functions
  (\<open>hashfunc.go\<close>) and the small list and chain helpers of \<open>common.go\<close>. A \<open>common.Hash\<close>
  is a byte list of length 32 (\<open>is_hash\<close>); a \<open>*common.Hash\<close> that may be nil is an option.
\<close>

type_synonym hash = bytes

definition HashSize :: nat where
  "HashSize = 32"

definition MaxHashStringSize :: nat where
  "MaxHashStringSize = HashSize * 2"

definition is_hash :: "hash \<Rightarrow> bool" where
  "is_hash h \<longleftrightarrow> length h = HashSize"

definition zero_hash :: hash where
  "zero_hash = replicate HashSize 0"

datatype hash_error = ErrHashLength nat | ErrHashStrSize | ErrHexByte char

subsection \<open>Hash functions\<close>

definition HashB :: "bytes \<Rightarrow> bytes" where
  "HashB b = the (Sum256 b)"

definition HashH :: "bytes \<Rightarrow> hash" where
  "HashH b = the (Sum256 b)"

definition DoubleHashB :: "bytes \<Rightarrow> bytes" where
  "DoubleHashB b = (let first = the (Sum256 b); second = the (Sum256 first) in second)"

definition DoubleHashH :: "bytes \<Rightarrow> hash" where
  "DoubleHashH b = (let first = the (Sum256 b) in the (Sum256 first))"

subsection \<open>Hexadecimal strings (\<open>encoding/hex\<close>)\<close>

definition hextable :: string where
  "hextable = ''0123456789abcdef''"

definition hex_EncodeToString :: "bytes \<Rightarrow> string" where
  "hex_EncodeToString b =
     concat (map (\<lambda>v. [hextable ! (unat v div 16), hextable ! (unat v mod 16)]) b)"

definition fromHexChar :: "char \<Rightarrow> nat option" where
  "fromHexChar c =
     (let n = (of_char c :: nat)
      in if of_char (CHR ''0'') \<le> n \<and> n \<le> of_char (CHR ''9'') then Some (n - of_char (CHR ''0''))
         else if of_char (CHR ''a'') \<le> n \<and> n \<le> of_char (CHR ''f'')
           then Some (n - of_char (CHR ''a'') + 10)
         else if of_char (CHR ''A'') \<le> n \<and> n \<le> of_char (CHR ''F'')
           then Some (n - of_char (CHR ''A'') + 10)
         else None)"

fun hex_Decode :: "string \<Rightarrow> (hash_error, bytes) res" where
  "hex_Decode (p # q # s) =
     (case fromHexChar p of
        None \<Rightarrow> Err (ErrHexByte p)
      | Some a \<Rightarrow>
         (case fromHexChar q of
            None \<Rightarrow> Err (ErrHexByte q)
          | Some b \<Rightarrow> and_then (hex_Decode s) (\<lambda>bs. Ok (of_nat (a * 16 + b) # bs))))"
| "hex_Decode s = Ok []"

subsection \<open>Operations of \<open>Hash\<close>\<close>

text \<open>\<open>String\<close> swaps the bytes end for end (on its copy of the array) and encodes them.\<close>

definition hash_String :: "hash \<Rightarrow> string" where
  "hash_String h = hex_EncodeToString (rev h)"

definition CloneBytes :: "hash \<Rightarrow> bytes" where
  "CloneBytes h = take HashSize h"

definition SetBytes :: "hash \<Rightarrow> bytes \<Rightarrow> (hash_error, hash) res" where
  "SetBytes h newHash =
     (if length newHash \<noteq> HashSize then Err (ErrHashLength (length newHash)) else Ok newHash)"

text \<open>\<open>BytesToHash\<close> drops the error of \<open>SetBytes\<close> on a zero hash.\<close>

definition BytesToHash :: "bytes \<Rightarrow> hash" where
  "BytesToHash b = (case SetBytes zero_hash b of Ok h \<Rightarrow> h | _ \<Rightarrow> zero_hash)"

definition NewHash :: "hash \<Rightarrow> bytes \<Rightarrow> (hash_error, hash) res" where
  "NewHash h newHash = SetBytes h newHash"

text \<open>\<open>IsEqual\<close> compares the strings. The receiver test \<open>&hash == nil\<close> takes the address of a
  parameter and is never true, so a nil receiver is dereferenced (panic) unless the target is
  nil.\<close>

definition IsEqual :: "hash option \<Rightarrow> hash option \<Rightarrow> ('e, bool) res" where
  "IsEqual h target =
     (case target of
        None \<Rightarrow> Ok False
      | Some t \<Rightarrow> (case h of None \<Rightarrow> Panic | Some g \<Rightarrow> Ok (hash_String g = hash_String t)))"

definition hash_Decode :: "string \<Rightarrow> (hash_error, hash) res" where
  "hash_Decode src =
     (if length src > MaxHashStringSize then Err ErrHashStrSize
      else let srcBytes = (if length src mod 2 = 0 then src else CHR ''0'' # src)
           in and_then (hex_Decode srcBytes)
                (\<lambda>b. let reversedHash = replicate (HashSize - length srcBytes div 2) 0 @ b
                     in Ok (rev reversedHash)))"

definition NewHashFromStr :: "string \<Rightarrow> (hash_error, hash) res" where
  "NewHashFromStr s = hash_Decode s"

subsection \<open>Helpers of \<open>common.go\<close>\<close>

datatype common_error = CannotGetSenderChain

text \<open>The loop \<open>for index := byte(0); index < 5; index++\<close>, in byte arithmetic.\<close>

function sender_chain_loop :: "byte \<Rightarrow> nat \<Rightarrow> (common_error, byte) res" where
  "sender_chain_loop modResult index =
     (if index < 5
      then if (modResult - of_nat index) mod 5 = 0 then Ok ((modResult - of_nat index) div 5)
           else sender_chain_loop modResult (Suc index)
      else Err CannotGetSenderChain)"
  by pat_completeness auto
termination
  by (relation "measure (\<lambda>(r, index). 5 - index)") auto

declare sender_chain_loop.simps [simp del]

definition GetTxSenderChain :: "byte \<Rightarrow> (common_error, byte) res" where
  "GetTxSenderChain senderLastByte = sender_chain_loop (senderLastByte mod 100) 0"

definition SliceBytesExists :: "bytes list \<Rightarrow> bytes \<Rightarrow> bool" where
  "SliceBytesExists sl item = list_ex (\<lambda>b. b = item) sl"

fun IntArrayEquals_loop :: "int list \<Rightarrow> int list \<Rightarrow> bool" where
  "IntArrayEquals_loop (v # a) (w # b) = (if v \<noteq> w then False else IntArrayEquals_loop a b)"
| "IntArrayEquals_loop _ _ = True"

definition IntArrayEquals :: "int list \<Rightarrow> int list \<Rightarrow> bool" where
  "IntArrayEquals a b = (if length a \<noteq> length b then False else IntArrayEquals_loop a b)"

fun IndexOfStr_from :: "int \<Rightarrow> string \<Rightarrow> string list \<Rightarrow> int" where
  "IndexOfStr_from k item [] = -1"
| "IndexOfStr_from k item (v # list) = (if item = v then k else IndexOfStr_from (k + 1) item list)"

definition IndexOfStr :: "string \<Rightarrow> string list \<Rightarrow> int" where
  "IndexOfStr item list = IndexOfStr_from 0 item list"

definition Max_int :: "int \<Rightarrow> int \<Rightarrow> int" where
  "Max_int x y = (if x > y then x else y)"

definition ConstantToMiliConstant :: "u64 \<Rightarrow> u64" where
  "ConstantToMiliConstant constant = constant * 10 ^ 3"

subsection \<open>Lemmas\<close>

lemma HashSize_32 [simp]: "HashSize = 32"
  by (simp add: HashSize_def)

lemma DoubleHashB_eq: "DoubleHashB b = sha256_spec (sha256_spec b)"
  by (simp add: DoubleHashB_def Sum256_spec)

lemma DoubleHashH_eq: "DoubleHashH b = sha256_spec (sha256_spec b)"
  by (simp add: DoubleHashH_def Sum256_spec)

lemma length_hashes [simp]:
  "length (HashB b) = 32" "length (HashH b) = 32"
  "length (DoubleHashB b) = 32" "length (DoubleHashH b) = 32"
  by (simp_all add: HashB_def HashH_def DoubleHashB_eq DoubleHashH_eq Sum256_spec)

lemma is_hash_DoubleHashH [simp, intro]: "is_hash (DoubleHashH b)"
  by (simp add: is_hash_def)

lemma fromHexChar_hextable: "n < 16 \<Longrightarrow> fromHexChar (hextable ! n) = Some n"
proof -
  have "list_all (\<lambda>n. fromHexChar (hextable ! n) = Some n) [0..<16]" by code_simp
  then show "n < 16 \<Longrightarrow> ?thesis" by (simp add: list_all_iff)
qed

lemma hex_Decode_Encode: "hex_Decode (hex_EncodeToString b) = Ok b"
proof (induction b)
  case (Cons v b)
  have lt: "unat v div 16 < 16" using byte_lt [of v] by (simp add: div_less_iff_less_mult)
  have v: "(of_nat (unat v div 16 * 16 + unat v mod 16) :: byte) = v"
    by (simp only: div_mult_mod_eq) simp
  have e: "hex_EncodeToString (v # b)
      = hextable ! (unat v div 16) # hextable ! (unat v mod 16) # hex_EncodeToString b"
    by (simp add: hex_EncodeToString_def)
  show ?case
    unfolding e using Cons lt v by (simp add: fromHexChar_hextable)
qed (simp add: hex_EncodeToString_def)

lemma length_hex_Encode [simp]: "length (hex_EncodeToString b) = 2 * length b"
  by (induction b) (simp_all add: hex_EncodeToString_def)

lemma length_hash_String [simp]: "length (hash_String h) = 2 * length h"
  by (simp add: hash_String_def)

lemma hash_Decode_String: "is_hash h \<Longrightarrow> hash_Decode (hash_String h) = Ok h"
  by (simp add: hash_Decode_def is_hash_def MaxHashStringSize_def hex_Decode_Encode hash_String_def)

lemma hash_String_inject [simp]:
  "hash_String g = hash_String h \<longleftrightarrow> g = h"
  using hex_Decode_Encode by (metis hash_String_def rev_rev_ident res.inject(1))

lemma sender_chain_loop_step:
  "index < 5 \<Longrightarrow> index \<le> unat r \<Longrightarrow>
   sender_chain_loop r index =
     (if (unat r - index) mod 5 = 0 then Ok (of_nat ((unat r - index) div 5))
      else sender_chain_loop r (Suc index))"
proof -
  assume i: "index < 5" "index \<le> unat r"
  have o: "of_nat index \<le> r" using i by (simp add: word_le_nat_alt unat_of_nat)
  have s: "unat (r - of_nat index) = unat r - index"
    using o i by (simp add: unat_sub unat_of_nat)
  have m: "(r - of_nat index) mod 5 = 0 \<longleftrightarrow> (unat r - index) mod 5 = 0"
    by (simp add: word_unat_eq_iff unat_mod_distrib s)
  have "(unat r - index) div 5 \<le> unat r" by linarith
  then have lt: "(unat r - index) div 5 < 256" using byte_lt [of r] by linarith
  have d: "(r - of_nat index) div 5 = of_nat ((unat r - index) div 5)"
    by (rule word_unat_eq_iff [THEN iffD2]) (use lt in \<open>simp add: unat_div_distrib s unat_of_nat\<close>)
  show ?thesis using i m d by (simp add: sender_chain_loop.simps [of r index])
qed

lemma sender_chain_loop_result:
  "index \<le> unat r mod 5 \<Longrightarrow> sender_chain_loop r index = Ok (of_nat (unat r div 5))"
proof (induction "unat r mod 5 - index" arbitrary: index)
  case 0
  then have i: "index = unat r mod 5" by simp
  then have "index < 5" "index \<le> unat r" by simp_all
  then show ?case by (simp add: sender_chain_loop_step i minus_mod_eq_mult_div)
next
  case (Suc k)
  have i: "index < 5" "index \<le> unat r"
    using Suc by (auto intro: le_trans [OF _ mod_less_eq_dividend])
  have "(unat r - index) mod 5 \<noteq> 0"
  proof
    assume "(unat r - index) mod 5 = 0"
    then have "unat r mod 5 = index mod 5"
      using i(2) by (metis mod_eq_dvd_iff_nat dvd_eq_mod_eq_0)
    then show False using Suc i by simp
  qed
  moreover have "sender_chain_loop r (Suc index) = Ok (of_nat (unat r div 5))"
    using Suc by (intro Suc.hyps(1)) auto
  ultimately show ?case using i by (simp add: sender_chain_loop_step)
qed

lemma GetTxSenderChain_eq: "GetTxSenderChain b = Ok (of_nat (unat b mod 100 div 5))"
  using sender_chain_loop_result [of 0 "b mod 100"]
  by (simp add: GetTxSenderChain_def unat_mod_distrib)

lemma IndexOfStr_from_bounds:
  "IndexOfStr_from k item l = -1 \<or>
   k \<le> IndexOfStr_from k item l \<and> IndexOfStr_from k item l < k + int (length l)
     \<and> l ! nat (IndexOfStr_from k item l - k) = item"
proof (induction k item l rule: IndexOfStr_from.induct)
  case (2 k item v list)
  show ?case
  proof (cases "item = v \<or> IndexOfStr_from (k + 1) item list = -1")
    case False
    let ?j = "IndexOfStr_from (k + 1) item list"
    from 2 False have j: "k + 1 \<le> ?j" "?j < k + 1 + int (length list)"
      "list ! nat (?j - (k + 1)) = item" by auto
    then have "nat (?j - k) = Suc (nat (?j - (k + 1)))" by simp
    with j False show ?thesis by auto
  qed auto
qed simp

lemma IndexOfStr_from_member: "0 \<le> k \<Longrightarrow> 0 \<le> IndexOfStr_from k item l \<longleftrightarrow> item \<in> set l"
  by (induction k item l rule: IndexOfStr_from.induct) auto

lemma IndexOfStr_member: "0 \<le> IndexOfStr item l \<longleftrightarrow> item \<in> set l"
  by (simp add: IndexOfStr_def IndexOfStr_from_member)

lemma IndexOfStr_nth:
  "0 \<le> IndexOfStr item l \<Longrightarrow>
     nat (IndexOfStr item l) < length l \<and> l ! nat (IndexOfStr item l) = item"
  using IndexOfStr_from_bounds [of 0 item l] by (auto simp: IndexOfStr_def)

lemma SliceBytesExists_iff [simp]: "SliceBytesExists sl item \<longleftrightarrow> item \<in> set sl"
  by (auto simp: SliceBytesExists_def list_ex_iff)

lemma IntArrayEquals_iff: "IntArrayEquals a b \<longleftrightarrow> a = b"
proof -
  have "length a = length b \<Longrightarrow> IntArrayEquals_loop a b \<longleftrightarrow> a = b"
    by (induction a b rule: list_induct2) auto
  then show ?thesis by (auto simp: IntArrayEquals_def)
qed

subsection \<open>The contract of an encoding\<close>

text \<open>An encoder and a decoder that inverts it on the values of a domain; the clients of a codec
  use injectivity and that a decoded encoding is unambiguous. It is interpreted by the hash
  strings here and by both Base58 encodings.\<close>

locale codec =
  fixes enc :: "'a \<Rightarrow> 'b" and dec :: "'b \<Rightarrow> 'c" and ok :: "'a \<Rightarrow> 'c" and valid :: "'a \<Rightarrow> bool"
  assumes dec_enc: "valid x \<Longrightarrow> dec (enc x) = ok x"
    and ok_inj: "valid x \<Longrightarrow> valid y \<Longrightarrow> ok x = ok y \<Longrightarrow> x = y"
begin

lemma enc_inj: "valid x \<Longrightarrow> valid y \<Longrightarrow> enc x = enc y \<Longrightarrow> x = y"
  by (rule ok_inj) (simp_all flip: dec_enc)

lemma enc_inj_on: "inj_on enc (Collect valid)"
  by (rule inj_onI) (auto intro: enc_inj)

end

interpretation hash_str: codec hash_String NewHashFromStr Ok is_hash
  by unfold_locales (simp_all add: NewHashFromStr_def hash_Decode_String)

subsection \<open>Properties\<close>

text \<open>For every hash, \<open>NewHashFromStr\<close> of its string gives the hash back,
  the string has 64 characters, and two hashes have the same string only when they are equal,
  so \<open>IsEqual\<close> decides equality.\<close>

theorem hash_string_roundtrip:
  assumes "is_hash h" and "is_hash g"
  shows "NewHashFromStr (hash_String h) = Ok h \<and> length (hash_String h) = 64 \<and>
    IsEqual (Some h) (Some g) = Ok (h = g)"
  using assms by (simp add: hash_str.dec_enc IsEqual_def is_hash_def)

theorem hash_string_roundtrip_witness:
  "is_hash zero_hash \<and> is_hash (1 # replicate 31 0) \<and>
   NewHashFromStr (hash_String zero_hash) = Ok zero_hash \<and> length (hash_String zero_hash) = 64 \<and>
   IsEqual (Some zero_hash) (Some (1 # replicate 31 0)) = Ok (zero_hash = 1 # replicate 31 0)"
proof -
  have h: "is_hash zero_hash" "is_hash (1 # replicate 31 0)"
    by (simp_all add: is_hash_def zero_hash_def)
  show ?thesis using h hash_string_roundtrip [OF h] by simp
qed

text \<open>Every sender's last address byte is assigned a chain: the error branch of
  \<open>GetTxSenderChain\<close> is unreachable, byte subtraction never wraps in the branch taken, and the
  chain is \<open>(b mod 100) div 5\<close>, one of the 20 chains.\<close>

theorem GetTxSenderChain_total:
  "GetTxSenderChain b = Ok (of_nat (unat b mod 100 div 5)) \<and> unat b mod 100 div 5 < 20"
proof -
  have "unat b mod 100 < 100" by simp
  then show ?thesis by (simp add: GetTxSenderChain_eq div_less_iff_less_mult)
qed

end
