(* ===== verification/Base58.thy ===== *)
theory Base58
  imports Common
begin

text \<open>
  The package \<open>common/base58\<close>: the alphabet and its inverse table (\<open>alphabet.go\<close>), Base58
  (\<open>base58.go\<close>) and Base58Check (\<open>base58check.go\<close>), the encodings of keys, addresses and
  signatures. The big integers of \<open>math/big\<close> are natural numbers.
\<close>

definition alphabet :: string where
  "alphabet = ''123456789ABCDEFGHJKLMNPQRSTUVWXYZabcdefghijkmnopqrstuvwxyz''"

definition alphabetIdx0 :: char where
  "alphabetIdx0 = CHR ''1''"

definition b58 :: "nat list" where
  "b58 =
   [255, 255, 255, 255, 255, 255, 255, 255, 255, 255, 255, 255, 255, 255, 255, 255,
    255, 255, 255, 255, 255, 255, 255, 255, 255, 255, 255, 255, 255, 255, 255, 255,
    255, 255, 255, 255, 255, 255, 255, 255, 255, 255, 255, 255, 255, 255, 255, 255,
    255, 0, 1, 2, 3, 4, 5, 6, 7, 8, 255, 255, 255, 255, 255, 255,
    255, 9, 10, 11, 12, 13, 14, 15, 16, 255, 17, 18, 19, 20, 21, 255,
    22, 23, 24, 25, 26, 27, 28, 29, 30, 31, 32, 255, 255, 255, 255, 255,
    255, 33, 34, 35, 36, 37, 38, 39, 40, 41, 42, 43, 255, 44, 45, 46,
    47, 48, 49, 50, 51, 52, 53, 54, 55, 56, 57, 255, 255, 255, 255, 255,
    255, 255, 255, 255, 255, 255, 255, 255, 255, 255, 255, 255, 255, 255, 255, 255,
    255, 255, 255, 255, 255, 255, 255, 255, 255, 255, 255, 255, 255, 255, 255, 255,
    255, 255, 255, 255, 255, 255, 255, 255, 255, 255, 255, 255, 255, 255, 255, 255,
    255, 255, 255, 255, 255, 255, 255, 255, 255, 255, 255, 255, 255, 255, 255, 255,
    255, 255, 255, 255, 255, 255, 255, 255, 255, 255, 255, 255, 255, 255, 255, 255,
    255, 255, 255, 255, 255, 255, 255, 255, 255, 255, 255, 255, 255, 255, 255, 255,
    255, 255, 255, 255, 255, 255, 255, 255, 255, 255, 255, 255, 255, 255, 255, 255,
    255, 255, 255, 255, 255, 255, 255, 255, 255, 255, 255, 255, 255, 255, 255, 255]"

subsection \<open>Base58\<close>

text \<open>The loop over \<open>i := len(b) - 1; i >= 0; i--\<close>, on the reversed string; \<open>None\<close> is the
  early return of the empty slice at a character outside the alphabet.\<close>

fun decode_loop :: "string \<Rightarrow> nat \<Rightarrow> nat \<Rightarrow> nat option" where
  "decode_loop [] answer j = Some answer"
| "decode_loop (c # rest) answer j =
     (let tmp = b58 ! of_char c
      in if tmp = 255 then None else decode_loop rest (answer + j * tmp) (j * 58))"

fun count_idx0 :: "string \<Rightarrow> nat" where
  "count_idx0 [] = 0"
| "count_idx0 (c # s) = (if c \<noteq> alphabetIdx0 then 0 else Suc (count_idx0 s))"

definition Base58_Decode :: "string \<Rightarrow> bytes" where
  "Base58_Decode b =
     (case decode_loop (rev b) 0 1 of
        None \<Rightarrow> []
      | Some answer \<Rightarrow>
          let tmpval = big_Bytes answer; numZeros = count_idx0 b
          in replicate numZeros 0 @ tmpval)"

fun encode_loop :: "nat \<Rightarrow> string" where
  "encode_loop x = (if x > 0 then alphabet ! (x mod 58) # encode_loop (x div 58) else [])"

declare encode_loop.simps [simp del]

fun leading_zeros :: "bytes \<Rightarrow> string" where
  "leading_zeros [] = []"
| "leading_zeros (i # b) = (if i \<noteq> 0 then [] else alphabetIdx0 # leading_zeros b)"

definition Base58_Encode :: "bytes \<Rightarrow> string" where
  "Base58_Encode b =
     (let x = big_SetBytes b; answer = encode_loop x @ leading_zeros b in rev answer)"

subsection \<open>Base58Check\<close>

datatype base58_error = ErrChecksum | ErrInvalidFormat

definition ChecksumFirst4Bytes :: "bytes \<Rightarrow> bytes" where
  "ChecksumFirst4Bytes input = (let h2 = DoubleHashB input in take 4 h2)"

definition Base58Check_Encode :: "bytes \<Rightarrow> byte \<Rightarrow> string" where
  "Base58Check_Encode input version =
     (let b = version # input; cksum = ChecksumFirst4Bytes b in Base58_Encode (b @ cksum))"

definition Base58Check_Decode :: "string \<Rightarrow> (base58_error, bytes \<times> byte) res" where
  "Base58Check_Decode input =
     (let decoded = Base58_Decode input
      in if length decoded < 5 then Err ErrInvalidFormat
         else let version = decoded ! 0;
                  cksum = drop (length decoded - 4) decoded
              in if ChecksumFirst4Bytes (take (length decoded - 4) decoded) \<noteq> cksum
                 then Err ErrChecksum
                 else Ok (drop 1 (take (length decoded - 4) decoded), version))"

subsection \<open>The alphabet and its inverse\<close>

lemma b58_alphabet: "d < 58 \<Longrightarrow> b58 ! of_char (alphabet ! d) = d"
proof -
  have "list_all (\<lambda>d. b58 ! of_char (alphabet ! d) = d) [0..<58]" by code_simp
  then show "d < 58 \<Longrightarrow> ?thesis" by (simp add: list_all_iff)
qed

lemma b58_table: "list_all2 (\<lambda>n v. v = 255 \<or> v < 58 \<and> of_char (alphabet ! v) = n) [0..<256] b58"
  by code_simp

lemma b58_inverse: "b58 ! of_char c = 255 \<or> b58 ! of_char c < 58 \<and> alphabet ! (b58 ! of_char c) = c"
proof -
  have "b58 ! of_char c = 255 \<or>
      b58 ! of_char c < 58 \<and> of_char (alphabet ! (b58 ! of_char c)) = (of_char c :: nat)"
    using list_all2_nthD [OF b58_table, of "of_char c"] by simp
  then show ?thesis by auto
qed

lemma b58_idx0 [simp]: "b58 ! of_char alphabetIdx0 = 0"
  by code_simp

lemma alphabet_0 [simp]: "alphabet ! 0 = alphabetIdx0"
  by (simp add: alphabet_def alphabetIdx0_def)

lemma alphabet_idx0_iff: "d < 58 \<Longrightarrow> alphabet ! d = alphabetIdx0 \<longleftrightarrow> d = 0"
  using b58_alphabet [of d] by auto

definition b58_valid :: "string \<Rightarrow> bool" where
  "b58_valid s \<longleftrightarrow> (\<forall>c \<in> set s. c \<in> set alphabet)"

lemma in_alphabet_iff: "c \<in> set alphabet \<longleftrightarrow> b58 ! of_char c \<noteq> 255"
proof
  have l: "length alphabet = 58" by (simp add: alphabet_def)
  assume "c \<in> set alphabet"
  then obtain d where "d < 58" "c = alphabet ! d" using l by (auto simp: in_set_conv_nth)
  then show "b58 ! of_char c \<noteq> 255" by (simp add: b58_alphabet)
next
  have l: "length alphabet = 58" by (simp add: alphabet_def)
  assume "b58 ! of_char c \<noteq> 255"
  with b58_inverse [of c] have "b58 ! of_char c < 58" "alphabet ! (b58 ! of_char c) = c" by auto
  then show "c \<in> set alphabet" using l by (metis nth_mem)
qed

subsection \<open>Values of digit strings\<close>

fun digits_val :: "string \<Rightarrow> nat" where
  "digits_val [] = 0"
| "digits_val (c # s) = b58 ! of_char c + 58 * digits_val s"

lemma decode_loop_val:
  "decode_loop s answer j = (if b58_valid s then Some (answer + j * digits_val s) else None)"
  by (induction s arbitrary: answer j)
    (auto simp: b58_valid_def in_alphabet_iff Let_def algebra_simps)

lemma encode_loop_valid: "b58_valid (encode_loop x)"
proof (induction x rule: encode_loop.induct)
  case (1 x)
  have "alphabet ! (x mod 58) \<in> set alphabet" by (rule nth_mem) (simp add: alphabet_def)
  with 1 show ?case by (subst encode_loop.simps) (auto simp: b58_valid_def)
qed

lemma digits_val_encode: "digits_val (encode_loop x) = x"
proof (induction x rule: encode_loop.induct)
  case (1 x)
  then show ?case by (subst encode_loop.simps) (simp add: b58_alphabet)
qed

lemma digits_val_ones: "\<forall>c \<in> set t. c = alphabetIdx0 \<Longrightarrow> digits_val (s @ t) = digits_val s"
proof (induction s)
  case Nil
  then show ?case by (induction t) auto
qed auto

lemma leading_zeros_eq:
  "leading_zeros b = replicate (length (takeWhile (\<lambda>d. d = 0) b)) alphabetIdx0"
  by (induction b) auto

lemma count_idx0_eq: "count_idx0 s = length (takeWhile (\<lambda>c. c = alphabetIdx0) s)"
  by (induction s) auto

lemma encode_loop_last: "0 < x \<Longrightarrow> encode_loop x \<noteq> [] \<and> last (encode_loop x) \<noteq> alphabetIdx0"
proof (induction x rule: encode_loop.induct)
  case (1 x)
  show ?case
  proof (cases "x div 58 = 0")
    case True
    then have "x < 58" by (simp add: div_eq_0_iff)
    then show ?thesis
      using 1(2) by (simp add: encode_loop.simps [of x] encode_loop.simps [of 0] alphabet_idx0_iff)
  next
    case False
    with 1 show ?thesis by (simp add: encode_loop.simps [of x])
  qed
qed

lemma count_idx0_encode: "count_idx0 (rev (encode_loop x)) = 0"
proof (cases "x = 0")
  case False
  then have "encode_loop x \<noteq> []" "last (encode_loop x) \<noteq> alphabetIdx0"
    using encode_loop_last by auto
  then show ?thesis by (cases "encode_loop x" rule: rev_cases) auto
qed (simp add: encode_loop.simps)

lemma count_idx0_replicate: "count_idx0 (replicate n alphabetIdx0 @ s) = n + count_idx0 s"
  by (induction n) auto

lemma Base58_Decode_Encode: "Base58_Decode (Base58_Encode b) = b"
proof -
  let ?k = "length (takeWhile (\<lambda>d. d = 0) b)"
  let ?e = "encode_loop (big_SetBytes b)"
  have r: "Base58_Encode b = replicate ?k alphabetIdx0 @ rev ?e"
    by (simp add: Base58_Encode_def leading_zeros_eq)
  have v: "b58_valid (?e @ replicate ?k alphabetIdx0)"
    using encode_loop_valid [of "big_SetBytes b"]
    by (auto simp: b58_valid_def in_alphabet_iff)
  have "decode_loop (rev (Base58_Encode b)) 0 1 = Some (digits_val (?e @ replicate ?k alphabetIdx0))"
    using v by (simp add: r decode_loop_val)
  also have "digits_val (?e @ replicate ?k alphabetIdx0) = big_SetBytes b"
    by (subst digits_val_ones) (auto simp: digits_val_encode)
  finally have "Base58_Decode (Base58_Encode b)
      = replicate (count_idx0 (Base58_Encode b)) 0 @ big_Bytes (big_SetBytes b)"
    by (simp add: Base58_Decode_def)
  also have "count_idx0 (Base58_Encode b) = ?k"
    unfolding r count_idx0_replicate by (simp add: count_idx0_encode)
  also have "replicate ?k 0 = takeWhile (\<lambda>d. d = 0) b"
    by (induction b) auto
  finally show ?thesis by (simp add: big_Bytes_SetBytes)
qed

lemma encode_loop_digits:
  "b58_valid s \<Longrightarrow> s = [] \<or> last s \<noteq> alphabetIdx0 \<Longrightarrow> encode_loop (digits_val s) = s"
proof (induction s)
  case Nil
  then show ?case by (simp add: encode_loop.simps)
next
  case (Cons c s)
  from Cons.prems have c: "b58 ! of_char c < 58" "alphabet ! (b58 ! of_char c) = c"
    using b58_inverse [of c] by (auto simp: b58_valid_def in_alphabet_iff)
  have IH: "encode_loop (digits_val s) = s"
    using Cons by (cases s) (auto simp: b58_valid_def)
  have pos: "0 < digits_val (c # s)"
  proof (rule ccontr)
    assume "\<not> ?thesis"
    then have z: "b58 ! of_char c = 0" "digits_val s = 0" by auto
    with IH have "s = []" by (simp add: encode_loop.simps)
    with Cons.prems c z show False by simp
  qed
  have "encode_loop (digits_val (c # s)) = c # encode_loop (digits_val s)"
    using pos c by (subst encode_loop.simps) simp
  then show ?case by (simp add: IH)
qed

lemma digits_val_rev_count:
  "digits_val (rev s) = digits_val (rev (drop (count_idx0 s) s))"
proof -
  have "s = takeWhile (\<lambda>c. c = alphabetIdx0) s @ drop (count_idx0 s) s"
    by (simp add: count_idx0_eq flip: dropWhile_eq_drop)
  then have "digits_val (rev s)
      = digits_val (rev (drop (count_idx0 s) s) @ rev (takeWhile (\<lambda>c. c = alphabetIdx0) s))"
    by (metis rev_append)
  then show ?thesis by (subst (asm) digits_val_ones) (auto dest: set_takeWhileD)
qed

lemma big_SetBytes_replicate: "big_SetBytes (replicate k 0 @ b) = big_SetBytes b"
proof (induction b rule: rev_induct)
  case Nil
  show ?case by (induction k) (auto simp flip: replicate_append_same)
next
  case (snoc d b)
  then show ?case by (simp flip: append_assoc)
qed

lemma takeWhile_big_Bytes: "takeWhile (\<lambda>d. d = 0) (big_Bytes n) = []"
proof -
  have "big_Bytes n = dropWhile (\<lambda>d. d = 0) (big_Bytes n)"
    by (metis big_Bytes_SetBytes big_SetBytes_Bytes)
  then show ?thesis
    by (metis (mono_tags, lifting) append_same_eq append_self_conv2 takeWhile_dropWhile_id)
qed

lemma Base58_Encode_Decode:
  assumes "b58_valid s"
  shows "Base58_Encode (Base58_Decode s) = s"
proof -
  let ?k = "count_idx0 s" and ?t = "drop (count_idx0 s) s"
  let ?v = "digits_val (rev ?t)"
  have v: "b58_valid (rev s)" "b58_valid (rev ?t)"
    using assms by (auto simp: b58_valid_def dest: in_set_dropD)
  have d: "Base58_Decode s = replicate ?k 0 @ big_Bytes ?v"
    using v digits_val_rev_count [of s] by (simp add: Base58_Decode_def decode_loop_val Let_def)
  have z: "leading_zeros (replicate ?k 0 @ big_Bytes ?v) = replicate ?k alphabetIdx0"
    by (simp add: leading_zeros_eq takeWhile_append takeWhile_big_Bytes)
  have "rev ?t = [] \<or> last (rev ?t) \<noteq> alphabetIdx0"
    using hd_dropWhile [of "\<lambda>c. c = alphabetIdx0" s]
    by (auto simp: last_rev count_idx0_eq simp flip: dropWhile_eq_drop)
  then have e: "encode_loop ?v = rev ?t" using v encode_loop_digits by blast
  have "Base58_Encode (Base58_Decode s) = replicate ?k alphabetIdx0 @ ?t"
    by (simp add: Base58_Encode_def d z e big_SetBytes_replicate big_SetBytes_Bytes)
  also have "replicate ?k alphabetIdx0 = takeWhile (\<lambda>c. c = alphabetIdx0) s"
    by (simp add: count_idx0_eq) (rule replicate_eqI [symmetric], auto dest: set_takeWhileD)
  finally show ?thesis by (simp add: count_idx0_eq flip: dropWhile_eq_drop)
qed

lemma Base58_Decode_invalid: "\<not> b58_valid s \<Longrightarrow> Base58_Decode s = []"
  by (auto simp: Base58_Decode_def decode_loop_val b58_valid_def)

lemma b58_valid_Encode [simp]: "b58_valid (Base58_Encode b)"
proof -
  have "b58_valid (encode_loop (big_SetBytes b))" by (rule encode_loop_valid)
  then show ?thesis
    by (auto simp: Base58_Encode_def leading_zeros_eq b58_valid_def in_alphabet_iff)
qed

subsection \<open>Base58Check\<close>

lemma length_ChecksumFirst4Bytes [simp]: "length (ChecksumFirst4Bytes b) = 4"
  by (simp add: ChecksumFirst4Bytes_def)

lemma Base58Check_Decode_Encode:
  "Base58Check_Decode (Base58Check_Encode input version) = Ok (input, version)"
  by (simp add: Base58Check_Encode_def Base58Check_Decode_def Base58_Decode_Encode Let_def)

text \<open>Exactly the strings \<open>Base58Check_Encode\<close> produces are decoded without an error.\<close>

lemma Base58Check_Decode_Ok:
  assumes "Base58Check_Decode s = Ok (input, version)"
  shows "s = Base58Check_Encode input version"
proof -
  let ?d = "Base58_Decode s"
  let ?body = "take (length ?d - 4) ?d"
  from assms have l: "5 \<le> length ?d" and c: "ChecksumFirst4Bytes ?body = drop (length ?d - 4) ?d"
    and i: "input = drop 1 ?body" and v: "version = ?d ! 0"
    by (auto simp: Base58Check_Decode_def Let_def split: if_splits)
  have "b58_valid s" using l Base58_Decode_invalid [of s] by fastforce
  then have s: "Base58_Encode ?d = s" by (rule Base58_Encode_Decode)
  have "?body ! 0 = version" "?body \<noteq> []" using l v by auto
  then have b: "version # input = ?body" unfolding i by (cases ?body) auto
  then have "Base58Check_Encode input version = Base58_Encode (?body @ drop (length ?d - 4) ?d)"
    unfolding Base58Check_Encode_def Let_def c [symmetric] by simp
  then show ?thesis using s by simp
qed

interpretation b58c: codec Base58_Encode Base58_Decode id "\<lambda>b. True"
  by unfold_locales (simp_all add: Base58_Decode_Encode)

interpretation b58chk: codec "\<lambda>(input, version). Base58Check_Encode input version"
  Base58Check_Decode Ok "\<lambda>p. True"
  by unfold_locales (auto simp: Base58Check_Decode_Encode)

subsection \<open>Properties\<close>

text \<open>Base58 is a bijection between byte slices and strings over the
  alphabet: decoding an encoding gives the bytes back (leading zero bytes included), encoding
  the decoding of a string over the alphabet gives the string back, and a string with any other
  character decodes to the empty slice.\<close>

theorem Base58_bijection:
  "Base58_Decode (Base58_Encode b) = b \<and> b58_valid (Base58_Encode b) \<and>
   (if b58_valid s then Base58_Encode (Base58_Decode s) = s else Base58_Decode s = [])"
  by (simp add: Base58_Decode_Encode Base58_Encode_Decode Base58_Decode_invalid)

text \<open>Base58Check decoding accepts exactly the strings that encoding
  produces, and returns the payload and version encoded; so an accepted address is never
  ambiguous.\<close>

theorem Base58Check_accepts_iff:
  "Base58Check_Decode s = Ok (input, version) \<longleftrightarrow> s = Base58Check_Encode input version"
  using Base58Check_Decode_Ok Base58Check_Decode_Encode by blast

text \<open>The decoder fails with \<open>ErrInvalidFormat\<close> exactly when fewer than five
  bytes decode, never panics, and otherwise reports a checksum error exactly when the last
  four bytes are not the checksum of the rest.\<close>

theorem Base58Check_errors:
  "Base58Check_Decode s \<noteq> Panic \<and>
   (Base58Check_Decode s = Err ErrInvalidFormat \<longleftrightarrow> length (Base58_Decode s) < 5) \<and>
   (Base58Check_Decode s = Err ErrChecksum \<longleftrightarrow>
      (\<exists>body ck. Base58_Decode s = body @ ck \<and> body \<noteq> [] \<and> length ck = 4
         \<and> ck \<noteq> ChecksumFirst4Bytes body))"
proof -
  let ?d = "Base58_Decode s"
  have "(\<exists>body ck. ?d = body @ ck \<and> body \<noteq> [] \<and> length ck = 4 \<and> ck \<noteq> ChecksumFirst4Bytes body)
      \<longleftrightarrow> 5 \<le> length ?d \<and> ChecksumFirst4Bytes (take (length ?d - 4) ?d) \<noteq> drop (length ?d - 4) ?d"
    (is "?l \<longleftrightarrow> ?r")
  proof
    assume ?l
    then obtain body ck where b: "?d = body @ ck" "body \<noteq> []" "length ck = 4"
      "ck \<noteq> ChecksumFirst4Bytes body" by blast
    have "Suc 0 \<le> length body" using b(2) by (cases body) auto
    then show ?r using b by auto
  next
    assume ?r
    then show ?l
      by (intro exI [of _ "take (length ?d - 4) ?d"] exI [of _ "drop (length ?d - 4) ?d"]) auto
  qed
  then show ?thesis by (auto simp: Base58Check_Decode_def Let_def)
qed

end
