(* ===== verification/Merkle_Spec.thy ===== *)
theory Merkle_Spec
  imports Main
begin

text \<open>
  Specifications of binary hash trees, over an arbitrary two-to-one hash \<open>H\<close>: the root of a list
  by pairing up neighbours (an odd last node is paired with itself), the root of a complete tree
  of a fixed height whose missing leaves are a padding value, and the root that an authentication
  path computes. The locale \<open>binary_hash\<close> is the contract of \<open>H\<close> these trees rely on; it is
  interpreted by the hash of the transaction tree and by the hash of the commitment tree.
\<close>

fun pair_up :: "('h \<Rightarrow> 'h \<Rightarrow> 'h) \<Rightarrow> 'h list \<Rightarrow> 'h list" where
  "pair_up H (a # b # r) = H a b # pair_up H r"
| "pair_up H [a] = [H a a]"
| "pair_up H [] = []"

lemma length_pair_up: "length (pair_up H xs) = (length xs + 1) div 2"
  by (induction H xs rule: pair_up.induct) auto

function list_root :: "('h \<Rightarrow> 'h \<Rightarrow> 'h) \<Rightarrow> 'h list \<Rightarrow> 'h" where
  "list_root H xs = (if length xs \<le> 1 then hd xs else list_root H (pair_up H xs))"
  by pat_completeness auto
termination
  by (relation "measure (\<lambda>(H, xs). length xs)") (auto simp: length_pair_up)

declare list_root.simps [simp del]

fun padded_root :: "('h \<Rightarrow> 'h \<Rightarrow> 'h) \<Rightarrow> 'h \<Rightarrow> nat \<Rightarrow> 'h list \<Rightarrow> 'h" where
  "padded_root H z 0 xs = (case xs of [] \<Rightarrow> z | x # _ \<Rightarrow> x)"
| "padded_root H z (Suc d) xs =
     H (padded_root H z d (take (2 ^ d) xs)) (padded_root H z d (drop (2 ^ d) xs))"

text \<open>An authentication path lists, from the leaf up, the sibling and whether the sibling is the
  left child.\<close>

fun path_root :: "('h \<Rightarrow> 'h \<Rightarrow> 'h) \<Rightarrow> 'h \<Rightarrow> ('h \<times> bool) list \<Rightarrow> 'h" where
  "path_root H x [] = x"
| "path_root H x ((a, left) # p) = path_root H (if left then H a x else H x a) p"

fun path_index :: "bool list \<Rightarrow> nat" where
  "path_index [] = 0"
| "path_index (b # bs) = (if b then 1 else 0) + 2 * path_index bs"

lemma path_root_append: "path_root H x (p @ q) = path_root H (path_root H x p) q"
  by (induction p arbitrary: x) auto

lemma path_index_less: "path_index bs < 2 ^ length bs"
  by (induction bs) auto

lemma path_index_snoc: "path_index (bs @ [b]) = path_index bs + (if b then 2 ^ length bs else 0)"
  by (induction bs) auto

subsection \<open>The padded tree\<close>

lemma padded_root_append_full:
  "length ys = 2 ^ d \<Longrightarrow> padded_root H z (Suc d) (ys @ xs) = H (padded_root H z d ys) (padded_root H z d xs)"
  by simp

lemma padded_root_extend:
  "length xs \<le> 2 ^ d \<Longrightarrow> padded_root H z (Suc d) xs = H (padded_root H z d xs) (padded_root H z d [])"
  by simp

subsection \<open>The messages a tree hashes\<close>

text \<open>With \<open>H a b\<close> the hash of the message \<open>cat a b\<close>, these are the messages hashed while a
  root is computed. Security statements name a collision among them, rather than assume that the
  hash function has none.\<close>

fun pair_msgs :: "('h \<Rightarrow> 'h \<Rightarrow> 'm) \<Rightarrow> 'h list \<Rightarrow> 'm list" where
  "pair_msgs cat (a # b # r) = cat a b # pair_msgs cat r"
| "pair_msgs cat [a] = [cat a a]"
| "pair_msgs cat [] = []"

function list_msgs :: "('h \<Rightarrow> 'h \<Rightarrow> 'h) \<Rightarrow> ('h \<Rightarrow> 'h \<Rightarrow> 'm) \<Rightarrow> 'h list \<Rightarrow> 'm list" where
  "list_msgs H cat xs =
     (if length xs \<le> 1 then [] else pair_msgs cat xs @ list_msgs H cat (pair_up H xs))"
  by pat_completeness auto
termination
  by (relation "measure (\<lambda>(H, cat, xs). length xs)") (auto simp: length_pair_up)

declare list_msgs.simps [simp del]

fun padded_msgs :: "('h \<Rightarrow> 'h \<Rightarrow> 'h) \<Rightarrow> ('h \<Rightarrow> 'h \<Rightarrow> 'm) \<Rightarrow> 'h \<Rightarrow> nat \<Rightarrow> 'h list \<Rightarrow> 'm list" where
  "padded_msgs H cat z 0 xs = []"
| "padded_msgs H cat z (Suc d) xs =
     cat (padded_root H z d (take (2 ^ d) xs)) (padded_root H z d (drop (2 ^ d) xs))
     # padded_msgs H cat z d (take (2 ^ d) xs) @ padded_msgs H cat z d (drop (2 ^ d) xs)"

fun path_msgs :: "('h \<Rightarrow> 'h \<Rightarrow> 'h) \<Rightarrow> ('h \<Rightarrow> 'h \<Rightarrow> 'm) \<Rightarrow> 'h \<Rightarrow> ('h \<times> bool) list \<Rightarrow> 'm list" where
  "path_msgs H cat x [] = []"
| "path_msgs H cat x ((a, left) # p) =
     (if left then cat a x else cat x a) # path_msgs H cat (if left then H a x else H x a) p"

definition collide :: "('m \<Rightarrow> 'h) \<Rightarrow> 'm list \<Rightarrow> 'm list \<Rightarrow> bool" where
  "collide h M N \<longleftrightarrow> (\<exists>m \<in> set M. \<exists>n \<in> set N. m \<noteq> n \<and> h m = h n)"

lemma path_msgs_append:
  "path_msgs H cat x (p @ q) = path_msgs H cat x p @ path_msgs H cat (path_root H x p) q"
  by (induction p arbitrary: x) auto

lemma collide_mono: "collide h M N \<Longrightarrow> set M \<subseteq> set M' \<Longrightarrow> set N \<subseteq> set N' \<Longrightarrow> collide h M' N'"
  by (auto simp: collide_def)

subsection \<open>The contract of the two-to-one hash\<close>

text \<open>\<open>ok\<close> are the node values (32-byte hashes); two of them are concatenated without ambiguity
  and hashed to a node value.\<close>

locale binary_hash =
  fixes H :: "'h \<Rightarrow> 'h \<Rightarrow> 'h" and cat :: "'h \<Rightarrow> 'h \<Rightarrow> 'm" and h :: "'m \<Rightarrow> 'h" and ok :: "'h \<Rightarrow> bool"
  assumes H_cat: "ok a \<Longrightarrow> ok b \<Longrightarrow> H a b = h (cat a b)"
    and closed: "ok a \<Longrightarrow> ok b \<Longrightarrow> ok (H a b)"
    and cat_inj: "ok a \<Longrightarrow> ok b \<Longrightarrow> ok c \<Longrightarrow> ok d \<Longrightarrow> cat a b = cat c d \<Longrightarrow> a = c \<and> b = d"
begin

lemma binding:
  "ok a \<Longrightarrow> ok b \<Longrightarrow> ok c \<Longrightarrow> ok d \<Longrightarrow> H a b = H c d \<Longrightarrow>
   (a = c \<and> b = d) \<or> collide h [cat a b] [cat c d]"
  using H_cat [of a b] H_cat [of c d] cat_inj [of a b c d] by (auto simp: collide_def)

lemma pair_up_ok: "list_all ok xs \<Longrightarrow> list_all ok (pair_up H xs)"
  by (induction xs rule: induct_list012) (auto simp: closed)

lemma pair_up_inj:
  "length xs = length ys \<Longrightarrow> list_all ok xs \<Longrightarrow> list_all ok ys \<Longrightarrow> pair_up H xs = pair_up H ys \<Longrightarrow>
   xs = ys \<or> collide h (pair_msgs cat xs) (pair_msgs cat ys)"
proof (induction xs arbitrary: ys rule: induct_list012)
  case (3 a b r)
  from "3.prems" obtain c d s where ys: "ys = c # d # s" by (cases ys; cases "tl ys") auto
  have "(a = c \<and> b = d) \<or> collide h [cat a b] [cat c d]"
    using "3.prems" ys by (intro binding) auto
  moreover have "r = s \<or> collide h (pair_msgs cat r) (pair_msgs cat s)"
    using "3.prems" ys by (intro "3.IH"(1)) auto
  ultimately show ?case using ys by (auto intro: collide_mono)
next
  case (2 a)
  then obtain c where ys: "ys = [c]" by (cases ys) auto
  then show ?case using 2 binding [of a a c c] by auto
qed auto

lemma list_root_binding:
  "length xs = length ys \<Longrightarrow> xs \<noteq> [] \<Longrightarrow> list_all ok xs \<Longrightarrow> list_all ok ys \<Longrightarrow>
   list_root H xs = list_root H ys \<Longrightarrow>
   xs = ys \<or> collide h (list_msgs H cat xs) (list_msgs H cat ys)"
proof (induction "length xs" arbitrary: xs ys rule: less_induct)
  case less
  show ?case
  proof (cases "length xs \<le> 1")
    case True
    then obtain x y where "xs = [x]" "ys = [y]"
      using less.prems by (cases xs; cases ys) auto
    then show ?thesis using less.prems by (simp add: list_root.simps)
  next
    case False
    have m: "list_msgs H cat xs = pair_msgs cat xs @ list_msgs H cat (pair_up H xs)"
      "list_msgs H cat ys = pair_msgs cat ys @ list_msgs H cat (pair_up H ys)"
      using False less.prems by (simp_all add: list_msgs.simps [of H cat xs] list_msgs.simps [of H cat ys])
    have "pair_up H xs = pair_up H ys \<or>
        collide h (list_msgs H cat (pair_up H xs)) (list_msgs H cat (pair_up H ys))"
      using False less.prems
      by (intro less.hyps)
        (auto simp: length_pair_up list_root.simps [of H xs] list_root.simps [of H ys] pair_up_ok
          simp flip: length_greater_0_conv)
    then show ?thesis using pair_up_inj [of xs ys] less.prems unfolding m
      by (auto intro: collide_mono)
  qed
qed

lemma path_root_ok: "ok x \<Longrightarrow> list_all (\<lambda>(a, _). ok a) p \<Longrightarrow> ok (path_root H x p)"
  by (induction p arbitrary: x) (auto simp: closed)

lemma padded_root_ok: "ok z \<Longrightarrow> list_all ok xs \<Longrightarrow> ok (padded_root H z d xs)"
proof (induction d arbitrary: xs)
  case 0
  then show ?case by (cases xs) auto
next
  case (Suc d)
  have "list_all ok (take (2 ^ d) xs)" "list_all ok (drop (2 ^ d) xs)"
    using Suc.prems by (auto simp: list_all_iff dest: in_set_takeD in_set_dropD)
  then show ?case using Suc by (auto intro: closed)
qed

text \<open>Soundness of authentication: a path that leads from \<open>x\<close> to the root of the tree over
  \<open>xs\<close> shows that \<open>x\<close> is the leaf at the position its direction bits spell (or the padding).\<close>

lemma path_sound:
  "ok z \<Longrightarrow> list_all ok xs \<Longrightarrow> ok x \<Longrightarrow> list_all (\<lambda>(a, _). ok a) p \<Longrightarrow>
   path_root H x p = padded_root H z (length p) xs \<Longrightarrow> length xs \<le> 2 ^ length p \<Longrightarrow>
   x = (if path_index (map snd p) < length xs then xs ! path_index (map snd p) else z) \<or>
   collide h (path_msgs H cat x p) (padded_msgs H cat z (length p) xs)"
proof (induction p arbitrary: xs rule: rev_induct)
  case Nil
  then show ?case by (cases xs) auto
next
  case (snoc st p)
  obtain a left where st: "st = (a, left)" by (cases st)
  let ?n = "length p" and ?i = "path_index (map snd p)"
  let ?s = "if left then drop (2 ^ length p) xs else take (2 ^ length p) xs"
  let ?c = "collide h (path_msgs H cat x (p @ [st])) (padded_msgs H cat z (length (p @ [st])) xs)"
  have lr: "list_all ok (take (2 ^ ?n) xs)" "list_all ok (drop (2 ^ ?n) xs)"
    using snoc.prems by (auto simp: list_all_iff dest: in_set_takeD in_set_dropD)
  have p: "list_all (\<lambda>(a, _). ok a) p" "ok a" using snoc.prems st by auto
  have x: "ok (path_root H x p)" using p snoc.prems by (simp add: path_root_ok)
  have i: "?i < 2 ^ ?n" using path_index_less [of "map snd p"] by simp
  have e: "H (if left then a else path_root H x p) (if left then path_root H x p else a) =
      H (padded_root H z ?n (take (2 ^ ?n) xs)) (padded_root H z ?n (drop (2 ^ ?n) xs))"
    using snoc.prems by (simp add: path_root_append st split: if_splits)
  have "?c \<or> path_root H x p = padded_root H z ?n ?s"
    using binding [OF _ _ _ _ e] p x snoc.prems lr padded_root_ok
    by (auto simp: path_msgs_append st split: if_splits intro: collide_mono)
  moreover have "length ?s \<le> 2 ^ ?n" using snoc.prems by auto
  moreover have "?c" if "collide h (path_msgs H cat x p) (padded_msgs H cat z ?n ?s)"
    using that by (rule collide_mono) (auto simp: path_msgs_append)
  ultimately have "?c \<or> x = (if ?i < length ?s then ?s ! ?i else z)"
    using snoc.IH [of ?s] snoc.prems p lr by auto
  then show ?case using i snoc.prems
    by (auto simp: st path_index_snoc min_def add.commute split: if_splits)
qed

end

end
