(* ===== verification/TxMerkle.thy ===== *)
theory TxMerkle
  imports Common Merkle_Spec
begin

text \<open>
  The transaction Merkle tree of a block (\<open>blockchain/merkle.go\<close>): the linear array that
  \<open>BuildMerkleTreeStore\<close> fills bottom-up. A \<open>*common.Hash\<close> of the array is a
  \<open>hash option\<close>; a run-time panic (a negative \<open>make\<close> size, an index out of range) is
  \<open>None\<close>. The transactions enter through their \<open>Hash()\<close> method, the argument \<open>tx_Hash\<close>.
\<close>

subsection \<open>Definitions\<close>

unbundle bit_operations_syntax

text \<open>\<open>uint(math.Log2(float64(n)))\<close>, the integer part of the binary logarithm.\<close>

fun log2_floor :: "nat \<Rightarrow> nat" where
  "log2_floor n = (if n < 2 then 0 else Suc (log2_floor (n div 2)))"

declare log2_floor.simps [simp del]

definition nextPowerOfTwo :: "int \<Rightarrow> int" where
  "nextPowerOfTwo n =
     (if n AND (n - 1) = 0 then n
      else let exponent = log2_floor (nat n) + 1 in push_bit exponent 1)"

definition hashMerkleBranches :: "hash \<Rightarrow> hash \<Rightarrow> hash" where
  "hashMerkleBranches left right = DoubleHashH (left @ right)"

text \<open>The parent of two array entries (the \<open>switch\<close> of the loop).\<close>

fun merkle_parent :: "hash option \<Rightarrow> hash option \<Rightarrow> hash option" where
  "merkle_parent None _ = None"
| "merkle_parent (Some l) None = Some (hashMerkleBranches l l)"
| "merkle_parent (Some l) (Some r) = Some (hashMerkleBranches l r)"

function merkle_loop :: "nat \<Rightarrow> nat \<Rightarrow> nat \<Rightarrow> hash option list \<Rightarrow> hash option list option" where
  "merkle_loop arraySize i offset merkles =
     (if i < arraySize - 1
      then if i + 1 < length merkles \<and> offset < length merkles
           then merkle_loop arraySize (i + 2) (offset + 1)
                  (merkles[offset := merkle_parent (merkles ! i) (merkles ! (i + 1))])
           else None
      else Some merkles)"
  by pat_completeness auto
termination
  by (relation "measure (\<lambda>(arraySize, i, offset, merkles). arraySize - i)") auto

declare merkle_loop.simps [simp del]

definition BuildMerkleTreeStore :: "('tx \<Rightarrow> hash option) \<Rightarrow> 'tx list \<Rightarrow> hash option list option" where
  "BuildMerkleTreeStore tx_Hash transactions =
     (let nextPoT = nextPowerOfTwo (int (length transactions));
          arraySize = nextPoT * 2 - 1
      in if arraySize < 0 \<or> arraySize < int (length transactions) then None
         else let merkles = map tx_Hash transactions
                    @ replicate (nat arraySize - length transactions) None
              in merkle_loop (nat arraySize) 0 (nat nextPoT) merkles)"

subsection \<open>The next power of two\<close>

lemma log2_floor_bounds: "0 < n \<Longrightarrow> 2 ^ log2_floor n \<le> n \<and> n < 2 ^ Suc (log2_floor n)"
proof (induction n rule: log2_floor.induct)
  case (1 n)
  show ?case
  proof (cases "n < 2")
    case False
    then have "2 ^ log2_floor (n div 2) \<le> n div 2 \<and> n div 2 < 2 ^ Suc (log2_floor (n div 2))"
      using 1 by simp
    then show ?thesis using False by (auto simp: log2_floor.simps [of n])
  qed (use 1 in \<open>auto simp: log2_floor.simps\<close>)
qed

lemma and_pred_eq_0:
  fixes n :: int
  assumes "0 < n" "n AND (n - 1) = 0"
  shows "n = 2 ^ log2_floor (nat n)"
proof -
  let ?k = "log2_floor (nat n)"
  have "2 ^ ?k \<le> nat n" "nat n < 2 ^ Suc ?k" using log2_floor_bounds [of "nat n"] assms by auto
  then have "int (2 ^ ?k) \<le> n" "n < int (2 ^ Suc ?k)" using assms by linarith+
  then have b: "2 ^ ?k \<le> n" "n < 2 ^ Suc ?k" by simp_all
  have div1: "x div 2 ^ ?k = 1" if "2 ^ ?k \<le> x" "x < 2 ^ Suc ?k" for x :: int
    using that by (simp add: int_div_pos_eq [of x "2 ^ ?k" 1 "x - 2 ^ ?k"])
  show ?thesis
  proof (rule ccontr)
    assume "n \<noteq> 2 ^ ?k"
    then have "2 ^ ?k \<le> n - 1" using b by linarith
    then have "bit n ?k" "bit (n - 1) ?k" using b by (auto simp: bit_iff_odd div1)
    then have "bit (n AND (n - 1)) ?k" by (simp add: bit_and_iff)
    then show False using assms by simp
  qed
qed

lemma nextPowerOfTwo_spec:
  assumes "0 < n"
  shows "\<exists>k. nextPowerOfTwo (int n) = 2 ^ k \<and> n \<le> 2 ^ k \<and> 2 ^ k < 2 * n"
proof (cases "int n AND (int n - 1) = 0")
  case True
  then have "int n = 2 ^ log2_floor n" using and_pred_eq_0 [of "int n"] assms by simp
  then have "n = 2 ^ log2_floor n" using of_nat_eq_iff [where 'a = int] by (metis of_nat_numeral of_nat_power)
  then show ?thesis using True assms
    by (intro exI [of _ "log2_floor n"]) (metis \<open>int n = 2 ^ log2_floor n\<close> le_refl lessI
        mult_2 nat_add_left_cancel_less nextPowerOfTwo_def add_0_right)
next
  case False
  have b: "2 ^ log2_floor n \<le> n" "n < 2 ^ Suc (log2_floor n)" using log2_floor_bounds assms by auto
  have "2 ^ log2_floor n \<noteq> n"
  proof
    assume e: "2 ^ log2_floor n = n"
    let ?k = "log2_floor n"
    have i: "int n = 2 ^ ?k" using e by (metis of_nat_numeral of_nat_power)
    have "int n AND (int n - 1) = take_bit ?k (int n)"
      unfolding take_bit_eq_mask mask_eq_exp_minus_1 by (simp only: i)
    also have "\<dots> = 0" unfolding take_bit_eq_mod by (simp only: i mod_self)
    finally show False using False by simp
  qed
  then have "2 ^ Suc (log2_floor n) < 2 * n" using b by simp
  then show ?thesis using False b
    by (intro exI [of _ "Suc (log2_floor n)"]) (simp add: nextPowerOfTwo_def Let_def push_bit_eq_mult)
qed

subsection \<open>The array as levels of the tree\<close>

fun parents :: "hash option list \<Rightarrow> hash option list" where
  "parents (a # b # r) = merkle_parent a b # parents r"
| "parents _ = []"

fun levels :: "nat \<Rightarrow> hash option list \<Rightarrow> hash option list" where
  "levels 0 xs = xs"
| "levels (Suc k) xs = xs @ levels k (parents xs)"

definition heap_filled :: "nat \<Rightarrow> nat \<Rightarrow> hash option list \<Rightarrow> bool" where
  "heap_filled n m a \<longleftrightarrow>
     (\<forall>j < m. a ! (n + j) = merkle_parent (a ! (2 * j)) (a ! (2 * j + 1)))"

lemma length_parents [simp]: "length (parents xs) = length xs div 2"
  by (induction xs rule: parents.induct) auto

lemma nth_parents:
  "j < length xs div 2 \<Longrightarrow> parents xs ! j = merkle_parent (xs ! (2 * j)) (xs ! (2 * j + 1))"
  by (induction xs arbitrary: j rule: parents.induct) (auto simp: nth_Cons split: nat.splits)

lemma heap_filled_step:
  assumes "heap_filled n j a" "j < n - 1" "length a = 2 * n - 1"
  shows "heap_filled n (Suc j) (a[n + j := merkle_parent (a ! (2 * j)) (a ! (2 * j + 1))])"
  unfolding heap_filled_def
proof (intro allI impI)
  fix i assume "i < Suc j"
  then have i: "i \<le> j" by simp
  let ?a = "a[n + j := merkle_parent (a ! (2 * j)) (a ! (2 * j + 1))]"
  have "2 * i + 1 < n + j" using i assms by linarith
  then have u: "?a ! (2 * i) = a ! (2 * i)" "?a ! (2 * i + 1) = a ! (2 * i + 1)" by simp_all
  show "?a ! (n + i) = merkle_parent (?a ! (2 * i)) (?a ! (2 * i + 1))"
  proof (cases "i = j")
    case True
    then show ?thesis using u assms by simp
  next
    case False
    then have "?a ! (n + i) = a ! (n + i)" by simp
    then show ?thesis using u assms i False by (simp add: heap_filled_def)
  qed
qed

lemma merkle_loop_fills:
  "length a = 2 * n - 1 \<Longrightarrow> 0 < n \<Longrightarrow> j \<le> n - 1 \<Longrightarrow> heap_filled n j a \<Longrightarrow>
   \<exists>b. merkle_loop (2 * n - 1) (2 * j) (n + j) a = Some b \<and> length b = 2 * n - 1 \<and>
     take n b = take n a \<and> heap_filled n (n - 1) b"
proof (induction "n - 1 - j" arbitrary: j a)
  case 0
  then have "j = n - 1" by simp
  then show ?case using 0 by (simp add: merkle_loop.simps)
next
  case (Suc m)
  let ?a = "a[n + j := merkle_parent (a ! (2 * j)) (a ! (2 * j + 1))]"
  have j: "j < n - 1" using Suc by simp
  have "\<exists>b. merkle_loop (2 * n - 1) (2 * Suc j) (n + Suc j) ?a = Some b \<and> length b = 2 * n - 1 \<and>
     take n b = take n ?a \<and> heap_filled n (n - 1) b"
    using Suc j heap_filled_step [of n j a] by (intro Suc.hyps) auto
  moreover have "merkle_loop (2 * n - 1) (2 * j) (n + j) a
      = merkle_loop (2 * n - 1) (2 * Suc j) (n + Suc j) ?a"
    using j Suc by (subst merkle_loop.simps) auto
  ultimately show ?case by simp
qed

lemma heap_filled_levels:
  "length a = 2 * 2 ^ k - 1 \<Longrightarrow> heap_filled (2 ^ k) (2 ^ k - 1) a \<Longrightarrow> a = levels k (take (2 ^ k) a)"
proof (induction k arbitrary: a)
  case (Suc k)
  let ?n = "2 ^ k :: nat"
  let ?b = "drop (2 * ?n) a"
  have n: "0 < ?n" by simp
  have lb: "length ?b = 2 * ?n - 1" using Suc.prems by simp
  have f: "a ! (2 * ?n + j) = merkle_parent (a ! (2 * j)) (a ! (2 * j + 1))" if "j < 2 * ?n - 1" for j
    using Suc.prems that by (simp add: heap_filled_def)
  have "heap_filled ?n (?n - 1) ?b"
    unfolding heap_filled_def
  proof (intro allI impI)
    fix j assume j: "j < ?n - 1"
    have "?b ! (?n + j) = a ! (2 * ?n + (?n + j))" using Suc.prems j by simp
    also have "\<dots> = merkle_parent (a ! (2 * (?n + j))) (a ! (2 * (?n + j) + 1))"
      using j by (intro f) simp
    also have "\<dots> = merkle_parent (?b ! (2 * j)) (?b ! (2 * j + 1))"
      using Suc.prems j by (simp add: algebra_simps)
    finally show "?b ! (?n + j) = merkle_parent (?b ! (2 * j)) (?b ! (2 * j + 1))" .
  qed
  then have b: "?b = levels k (take ?n ?b)" using Suc.IH lb by blast
  have "take ?n ?b = parents (take (2 * ?n) a)"
  proof (rule nth_equalityI)
    show "length (take ?n ?b) = length (parents (take (2 * ?n) a))" using Suc.prems by simp
  next
    fix j assume "j < length (take ?n ?b)"
    then have j: "j < ?n" "j < 2 * ?n - 1" using lb by auto
    then show "take ?n ?b ! j = parents (take (2 * ?n) a) ! j"
      using f [of j] Suc.prems by (simp add: nth_parents)
  qed
  then show ?case using b by (simp del: drop_eq_Nil) (metis append_take_drop_id)
qed simp

subsection \<open>The last level\<close>

lemma parents_nones: "parents (replicate n None) = replicate (n div 2) None"
  by (induction n rule: induct_nat_012) auto

lemma parents_somes:
  "even (length hs + n) \<Longrightarrow>
   parents (map Some hs @ replicate n None)
     = map Some (pair_up hashMerkleBranches hs) @ replicate (n div 2) None"
proof (induction hs rule: induct_list012)
  case 1
  then show ?case by (simp add: parents_nones)
next
  case (2 a)
  then obtain m where "n = Suc m" "even m" by (cases n) auto
  then show ?case by (simp add: parents_nones)
qed auto

lemma last_levels:
  "length hs + n = 2 ^ k \<Longrightarrow> 2 ^ k < 2 * length hs \<Longrightarrow>
   last (levels k (map Some hs @ replicate n None)) = Some (list_root hashMerkleBranches hs)"
proof (induction k arbitrary: hs n)
  case 0
  then obtain h where "hs = [h]" "n = 0" by (cases hs) auto
  then show ?case by (simp add: list_root.simps)
next
  case (Suc k)
  have two: "1 < length hs" using Suc.prems one_le_power [of "2 :: nat" k] by simp
  then have ne: "pair_up hashMerkleBranches hs \<noteq> []"
    using length_pair_up [of hashMerkleBranches hs] by fastforce
  have e: "even (length hs + n)" using Suc.prems by simp
  have l: "length (pair_up hashMerkleBranches hs) + n div 2 = 2 ^ k"
    using Suc.prems by (simp add: length_pair_up)
  have l2: "2 ^ k < 2 * length (pair_up hashMerkleBranches hs)"
    using Suc.prems by (simp add: length_pair_up)
  have "levels k (parents (map Some hs @ replicate n None)) \<noteq> []"
    using ne by (cases k) (auto simp: parents_somes [OF e])
  then have "last (levels (Suc k) (map Some hs @ replicate n None))
      = Some (list_root hashMerkleBranches (pair_up hashMerkleBranches hs))"
    using Suc.IH [OF l l2] by (simp add: parents_somes [OF e])
  also have "list_root hashMerkleBranches (pair_up hashMerkleBranches hs) = list_root hashMerkleBranches hs"
    using two by (simp add: list_root.simps [of _ hs])
  finally show ?case .
qed

subsection \<open>The whole function\<close>

lemma BuildMerkleTreeStore_loop:
  assumes "nextPowerOfTwo (int (length txs)) = int n" "length txs \<le> n" "0 < n"
  shows "BuildMerkleTreeStore tx_Hash txs =
    merkle_loop (2 * n - 1) 0 n (map tx_Hash txs @ replicate (2 * n - 1 - length txs) None)"
proof -
  have "nat (int n * 2 - 1) = 2 * n - 1" using assms by linarith
  then show ?thesis
    unfolding BuildMerkleTreeStore_def Let_def assms(1) using assms(2,3) by simp
qed

lemma BuildMerkleTreeStore_eq:
  assumes "txs \<noteq> []" and "\<forall>tx \<in> set txs. tx_Hash tx = Some (h tx)"
  shows "\<exists>merkles. BuildMerkleTreeStore tx_Hash txs = Some merkles \<and>
    last merkles = Some (list_root hashMerkleBranches (map h txs)) \<and>
    (\<exists>k. length merkles = 2 * 2 ^ k - 1 \<and> length txs \<le> 2 ^ k \<and> 2 ^ k < 2 * length txs)"
proof -
  obtain k where k: "nextPowerOfTwo (int (length txs)) = 2 ^ k" "length txs \<le> 2 ^ k"
    "2 ^ k < 2 * length txs"
    using nextPowerOfTwo_spec [of "length txs"] assms by auto
  let ?n = "2 ^ k :: nat"
  have n: "0 < ?n" by simp
  have hs: "map tx_Hash txs = map Some (map h txs)" using assms by simp
  let ?a = "map Some (map h txs) @ replicate (2 * ?n - 1 - length txs) None"
  have s: "BuildMerkleTreeStore tx_Hash txs = merkle_loop (2 * ?n - 1) 0 ?n ?a"
    unfolding hs [symmetric] using k n by (intro BuildMerkleTreeStore_loop) simp_all
  have la: "length ?a = 2 * ?n - 1" using k by simp
  obtain b where b: "merkle_loop (2 * ?n - 1) 0 ?n ?a = Some b" "length b = 2 * ?n - 1"
    "take ?n b = take ?n ?a" "heap_filled ?n (?n - 1) b"
    using merkle_loop_fills [OF la n, of 0] by (auto simp: heap_filled_def)
  have t: "take ?n ?a = map Some (map h txs) @ replicate (?n - length txs) None"
    using k n by (simp add: min_def)
  have "b = levels k (take ?n ?a)" using heap_filled_levels [of b k] b by simp
  then have "last b = Some (list_root hashMerkleBranches (map h txs))"
    unfolding t using k by (simp add: last_levels del: map_map)
  with b s k show ?thesis by auto
qed

lemma BuildMerkleTreeStore_Nil: "BuildMerkleTreeStore tx_Hash [] = None"
  by (simp add: BuildMerkleTreeStore_def nextPowerOfTwo_def)

interpretation tx_tree: binary_hash hashMerkleBranches "(@)" DoubleHashH is_hash
  by unfold_locales (auto simp: hashMerkleBranches_def is_hash_def)

lemma pair_up_dup: "odd (length xs) \<Longrightarrow> pair_up H (xs @ [last xs]) = pair_up H xs"
  by (induction xs rule: induct_list012) auto

lemma list_root_dup: "odd (length xs) \<Longrightarrow> 1 < length xs \<Longrightarrow> list_root H (xs @ [last xs]) = list_root H xs"
  using pair_up_dup [of xs H] list_root.simps [of H xs] list_root.simps [of H "xs @ [last xs]"]
  by (auto split: if_splits)

definition tx_merkle_root :: "('tx \<Rightarrow> hash option) \<Rightarrow> 'tx list \<Rightarrow> hash option option" where
  "tx_merkle_root tx_Hash txs = map_option last (BuildMerkleTreeStore tx_Hash txs)"

lemma tx_merkle_root_eq:
  assumes "txs \<noteq> []" and "\<forall>tx \<in> set txs. tx_Hash tx = Some (h tx)"
  shows "tx_merkle_root tx_Hash txs = Some (Some (list_root hashMerkleBranches (map h txs)))"
  using BuildMerkleTreeStore_eq [OF assms] by (auto simp: tx_merkle_root_def)

subsection \<open>Properties\<close>

text \<open>Claim C22 (equivalence): on a non-empty list of transactions whose \<open>Hash\<close> is not nil the
  array construction never indexes out of range, returns \<open>2 * 2^k - 1\<close> entries, \<open>2^k\<close> the
  smallest power of two that holds the transactions, and its last entry is the recursive Merkle
  root: neighbours hashed in pairs, an odd last node with itself, until one is left.\<close>

theorem BuildMerkleTreeStore_root:
  assumes "txs \<noteq> []" and "\<forall>tx \<in> set txs. tx_Hash tx = Some (h tx)"
  shows "\<exists>merkles k. BuildMerkleTreeStore tx_Hash txs = Some merkles \<and>
    length merkles = 2 * 2 ^ k - 1 \<and> length txs \<le> 2 ^ k \<and> 2 ^ k < 2 * length txs \<and>
    last merkles = Some (list_root hashMerkleBranches (map h txs))"
  using BuildMerkleTreeStore_eq [OF assms] by blast

theorem BuildMerkleTreeStore_root_witness:
  "\<exists>merkles k. BuildMerkleTreeStore Some [replicate 32 1, replicate 32 2, zero_hash] = Some merkles \<and>
    length merkles = 2 * 2 ^ k - 1 \<and> length [replicate 32 1, replicate 32 2, zero_hash] \<le> 2 ^ k \<and>
    2 ^ k < 2 * length [replicate 32 1, replicate 32 2, zero_hash] \<and>
    last merkles = Some (hashMerkleBranches (hashMerkleBranches (replicate 32 1) (replicate 32 2))
      (hashMerkleBranches zero_hash zero_hash))"
proof -
  have "list_root hashMerkleBranches [a, b, c]
      = hashMerkleBranches (hashMerkleBranches a b) (hashMerkleBranches c c)" for a b c
    by (simp add: list_root.simps)
  then show ?thesis
    using BuildMerkleTreeStore_root [of "[replicate 32 1, replicate 32 2, zero_hash]" Some "\<lambda>h. h"]
    unfolding list.map by (metis (no_types, lifting) list.distinct(1))
qed

text \<open>Claim C21 (safety): the Merkle root binds the transactions of a block: two blocks with equally
  many transactions and the same root have the same transaction hashes in the same order, or the
  64-byte messages hashed in the two trees contain a collision of double SHA-256.\<close>

theorem tx_merkle_root_binding:
  assumes "length txs = length txs'" and "txs \<noteq> []"
    and "\<forall>tx \<in> set txs \<union> set txs'. tx_Hash tx = Some (h tx) \<and> is_hash (h tx)"
    and "tx_merkle_root tx_Hash txs = tx_merkle_root tx_Hash txs'"
  shows "map h txs = map h txs' \<or>
    collide DoubleHashH (list_msgs hashMerkleBranches (@) (map h txs))
      (list_msgs hashMerkleBranches (@) (map h txs'))"
proof -
  have "txs' \<noteq> []" using assms(1,2) by auto
  then have "list_root hashMerkleBranches (map h txs) = list_root hashMerkleBranches (map h txs')"
    using assms(2,3,4) by (simp add: tx_merkle_root_eq [of _ _ h])
  then show ?thesis
    using assms by (intro tx_tree.list_root_binding) (auto simp: list_all_iff)
qed

theorem tx_merkle_root_binding_witness:
  "tx_merkle_root Some [zero_hash, zero_hash] = tx_merkle_root Some [zero_hash, zero_hash] \<and>
   (map id [zero_hash, zero_hash] = map id [zero_hash, zero_hash] \<or>
    collide DoubleHashH (list_msgs hashMerkleBranches (@) (map id [zero_hash, zero_hash]))
      (list_msgs hashMerkleBranches (@) (map id [zero_hash, zero_hash])))"
  using tx_merkle_root_binding [of "[zero_hash, zero_hash]" "[zero_hash, zero_hash]" Some id]
  by (simp add: is_hash_def zero_hash_def)

text \<open>The empty transaction list makes the array size negative and
  \<open>make\<close> panics; and the root does not bind the number of transactions: any three transactions and
  the same three with the last one repeated have the same root.\<close>

theorem BuildMerkleTreeStore_limits:
  "BuildMerkleTreeStore tx_Hash [] = None \<and>
   tx_merkle_root Some [a, b, c] = tx_merkle_root Some [a, b, c, c]"
proof -
  have "list_root hashMerkleBranches ([a, b, c] @ [last [a, b, c]]) = list_root hashMerkleBranches [a, b, c]"
    by (rule list_root_dup) auto
  then show ?thesis
    by (simp add: BuildMerkleTreeStore_Nil tx_merkle_root_eq [of _ Some id])
qed

end
