(* ===== verification/IncMerkle.thy ===== *)
theory IncMerkle
  imports Common Merkle_Spec
begin

text \<open>
  The incremental commitment tree (\<open>privacy-protocol/client/merkle_tree.go\<close>): a Merkle tree of
  height 29 kept as one pending hash per level, the witness that follows one leaf while later
  leaves are added, and the authentication paths built from it for the input notes of a
  transaction. A \<open>MerkleHash\<close> that may be nil is an option; a panic is \<open>None\<close> or \<open>Panic\<close>. Every
  slice concatenated has capacity 32 (\<open>make([]byte, 32)\<close> or an array slice), so the \<open>append\<close> in
  \<open>combineAndHash\<close> never writes into a node.
\<close>

subsection \<open>Definitions\<close>

definition IncMerkleTreeHeight :: nat where
  "IncMerkleTreeHeight = 29"

text \<open>\<open>make([]byte, 32)\<close> followed by \<open>copy\<close>.\<close>

definition copy32 :: "bytes \<Rightarrow> bytes" where
  "copy32 b = take 32 (b @ replicate (32 - length b) 0)"

definition combineAndHash :: "bytes \<Rightarrow> bytes \<Rightarrow> hash" where
  "combineAndHash left right = the (Sum256NoPad (left @ right))"

record MerklePath =
  AuthPath :: "hash list"
  Index :: "bool list"

definition CreateDummyPath :: MerklePath where
  "CreateDummyPath =
     \<lparr>AuthPath = replicate IncMerkleTreeHeight (replicate 32 0),
      Index = replicate IncMerkleTreeHeight False\<rparr>"

definition uncommittedNodeHash :: hash where
  "uncommittedNodeHash = replicate 32 0"

record IncMerkleTree =
  imt_nodes :: "hash option list"
  imt_left :: "hash option"
  imt_right :: "hash option"

definition empty_tree :: IncMerkleTree where
  "empty_tree = \<lparr>imt_nodes = [], imt_left = None, imt_right = None\<rparr>"

definition MakeCopy :: "IncMerkleTree \<Rightarrow> IncMerkleTree" where
  "MakeCopy tree =
     \<lparr>imt_nodes = map (map_option copy32) (imt_nodes tree),
      imt_left = map_option copy32 (imt_left tree), imt_right = map_option copy32 (imt_right tree)\<rparr>"

record IncMerkleWitness =
  snapshot :: IncMerkleTree
  tmpTree :: "IncMerkleTree option"
  uncles :: "hash list"
  uID :: nat
  nextDepth :: nat

definition TakeSnapshot :: "IncMerkleTree \<Rightarrow> IncMerkleWitness" where
  "TakeSnapshot tree =
     \<lparr>snapshot = MakeCopy tree, tmpTree = None, uncles = [], uID = 0, nextDepth = 0\<rparr>"

text \<open>The global \<open>arrayPadding\<close> is a cache, here an argument and a result; the padding loop
  extends the slice by the hash of its last entry with itself.\<close>

fun padding_loop :: "nat \<Rightarrow> hash \<Rightarrow> hash list" where
  "padding_loop 0 lastHash = []"
| "padding_loop (Suc n) lastHash =
     (let h = combineAndHash lastHash lastHash in h # padding_loop n h)"

definition getPaddingAtDepth :: "hash list \<Rightarrow> nat \<Rightarrow> hash \<times> hash list" where
  "getPaddingAtDepth arrayPadding d =
     (if length arrayPadding \<ge> IncMerkleTreeHeight then (arrayPadding ! d, arrayPadding)
      else let paddings = uncommittedNodeHash # padding_loop IncMerkleTreeHeight uncommittedNodeHash
           in (paddings ! d, paddings))"

text \<open>The loop over \<open>tree.nodes\<close> in \<open>AddNewNode\<close>; the second result is the left-over hash.\<close>

fun add_loop :: "hash option list \<Rightarrow> hash \<Rightarrow> hash option list \<times> hash option" where
  "add_loop [] prevHash = ([], Some prevHash)"
| "add_loop (None # ns) prevHash = (Some prevHash # ns, None)"
| "add_loop (Some node # ns) prevHash =
     (let (ns', l) = add_loop ns (combineAndHash node prevHash) in (None # ns', l))"

definition AddNewNode :: "IncMerkleTree \<Rightarrow> bytes \<Rightarrow> IncMerkleTree option" where
  "AddNewNode tree hash =
     (let hashCopy = copy32 hash
      in case (imt_left tree, imt_right tree) of
           (None, _) \<Rightarrow> Some (tree\<lparr>imt_left := Some hashCopy\<rparr>)
         | (Some l, None) \<Rightarrow> Some (tree\<lparr>imt_right := Some hashCopy\<rparr>)
         | (Some l, Some r) \<Rightarrow>
             let prevHash = combineAndHash l r;
                 tree' = tree\<lparr>imt_left := Some hashCopy, imt_right := None\<rparr>
             in case add_loop (imt_nodes tree) prevHash of
                  (ns, None) \<Rightarrow> Some (tree'\<lparr>imt_nodes := ns\<rparr>)
                | (ns, Some leftOver) \<Rightarrow>
                    if length ns \<ge> IncMerkleTreeHeight - 1 then None
                    else Some (tree'\<lparr>imt_nodes := ns @ [Some leftOver]\<rparr>))"

definition node_at :: "hash option list \<Rightarrow> nat \<Rightarrow> hash option" where
  "node_at ns i = (if i \<ge> length ns then None else ns ! i)"

text \<open>The loop of \<open>GetRoot\<close> from level \<open>i\<close> upwards, \<open>n\<close> levels.\<close>

fun root_loop :: "hash option list \<Rightarrow> nat \<Rightarrow> nat \<Rightarrow> hash \<Rightarrow> hash" where
  "root_loop ns i 0 prevHash = prevHash"
| "root_loop ns i (Suc n) prevHash =
     root_loop ns (Suc i) n
       (case node_at ns i of
          None \<Rightarrow> combineAndHash prevHash (fst (getPaddingAtDepth [] (i + 1)))
        | Some node \<Rightarrow> combineAndHash node prevHash)"

definition GetRoot :: "IncMerkleTree \<Rightarrow> nat \<Rightarrow> hash" where
  "GetRoot tree depth =
     (let d = (if depth > IncMerkleTreeHeight then IncMerkleTreeHeight else depth)
      in case (if d = 0 then (case imt_right tree of None \<Rightarrow> imt_left tree | Some r \<Rightarrow> Some r) else None) of
           Some leaf \<Rightarrow> leaf
         | None \<Rightarrow>
             let r = (case imt_right tree of None \<Rightarrow> uncommittedNodeHash | Some r \<Rightarrow> r);
                 l = (case imt_left tree of None \<Rightarrow> uncommittedNodeHash | Some l \<Rightarrow> l)
             in root_loop (imt_nodes tree) 0 (d - 1) (combineAndHash l r))"

definition finishedDepth :: "IncMerkleTree \<Rightarrow> nat \<Rightarrow> bool" where
  "finishedDepth tree d =
     (case (imt_left tree, imt_right tree) of
        (None, _) \<Rightarrow> False
      | (Some l, None) \<Rightarrow> d = 0
      | (Some l, Some r) \<Rightarrow> list_all (\<lambda>i. node_at (imt_nodes tree) i \<noteq> None) [0..<d - 1])"

fun uncle_depth_loop :: "hash option list \<Rightarrow> nat \<Rightarrow> nat \<Rightarrow> nat \<Rightarrow> nat" where
  "uncle_depth_loop ns i 0 numUnclesBuilt = i + 1"
| "uncle_depth_loop ns i (Suc n) numUnclesBuilt =
     (if node_at ns i = None
      then if numUnclesBuilt = 0 then i + 1 else uncle_depth_loop ns (Suc i) n (numUnclesBuilt - 1)
      else uncle_depth_loop ns (Suc i) n numUnclesBuilt)"

definition getNextUncleDepth :: "IncMerkleTree \<Rightarrow> nat \<Rightarrow> nat" where
  "getNextUncleDepth tree numUnclesBuilt =
     (if imt_left tree = None \<or> imt_right tree = None
      then if numUnclesBuilt = 0 then 0
           else uncle_depth_loop (imt_nodes tree) 0 IncMerkleTreeHeight (numUnclesBuilt - 1)
      else uncle_depth_loop (imt_nodes tree) 0 IncMerkleTreeHeight numUnclesBuilt)"

definition addNewNode :: "IncMerkleWitness \<Rightarrow> bytes \<Rightarrow> IncMerkleWitness option" where
  "addNewNode w hash =
     (let w1 = (case tmpTree w of
                  None \<Rightarrow> w\<lparr>nextDepth := getNextUncleDepth (snapshot w) (length (uncles w))\<rparr>
                | Some _ \<Rightarrow> w);
          tree = (case tmpTree w of None \<Rightarrow> empty_tree | Some t \<Rightarrow> t)
      in case AddNewNode tree hash of
           None \<Rightarrow> None
         | Some t \<Rightarrow>
             Some (if finishedDepth t (nextDepth w1)
                   then w1\<lparr>uncles := uncles w1 @ [GetRoot t (nextDepth w1)], tmpTree := None\<rparr>
                   else w1\<lparr>tmpTree := Some t\<rparr>))"

definition getUncle :: "IncMerkleWitness \<Rightarrow> nat \<Rightarrow> hash \<times> IncMerkleWitness" where
  "getUncle w d =
     (if uID w \<ge> length (uncles w) then (GetRoot empty_tree d, w)
      else (uncles w ! uID w, w\<lparr>uID := uID w + 1\<rparr>))"

text \<open>The loop of \<open>getWitnessPath\<close> from level \<open>d\<close> upwards, \<open>n\<close> levels.\<close>

fun path_loop :: "IncMerkleWitness \<Rightarrow> nat \<Rightarrow> nat \<Rightarrow> MerklePath \<Rightarrow> MerklePath \<times> IncMerkleWitness" where
  "path_loop w d 0 path = (path, w)"
| "path_loop w d (Suc n) path =
     (case node_at (imt_nodes (snapshot w)) d of
        None \<Rightarrow>
          let (u, w') = getUncle w (d + 1)
          in path_loop w' (Suc d) n
               (path\<lparr>AuthPath := AuthPath path @ [u], Index := Index path @ [False]\<rparr>)
      | Some node \<Rightarrow>
          path_loop w (Suc d) n
            (path\<lparr>AuthPath := AuthPath path @ [node], Index := Index path @ [True]\<rparr>))"

definition getWitnessPath :: "IncMerkleWitness \<Rightarrow> MerklePath \<times> IncMerkleWitness" where
  "getWitnessPath w =
     (case imt_left (snapshot w) of
        None \<Rightarrow> (CreateDummyPath, w)
      | Some l \<Rightarrow>
          let w1 = (case tmpTree w of
                      None \<Rightarrow> w
                    | Some t \<Rightarrow> w\<lparr>uncles := uncles w @ [GetRoot t (nextDepth w)], tmpTree := None\<rparr>);
              w2 = w1\<lparr>uID := 0\<rparr>;
              (h, b, w3) = (case imt_right (snapshot w) of
                      Some r \<Rightarrow> (l, True, w2)
                    | None \<Rightarrow> (let (u, w') = getUncle w2 0 in (u, False, w')))
          in path_loop w3 0 (IncMerkleTreeHeight - 1) \<lparr>AuthPath = [h], Index = [b]\<rparr>)"

record Note =
  Value :: u64
  Apk :: bytes
  Rho :: bytes
  R_rand :: bytes
  Nf :: bytes
  Cm :: bytes
  Memo :: bytes

record JSInput =
  WitnessPath :: "MerklePath option"
  Key :: "bytes option"
  InputNote :: Note

datatype path_error = DuplicateCommitments | CommitmentNotExisted bytes

text \<open>The first inner loop of \<open>BuildWitnessPath\<close>: every witness started so far gets the new
  leaf.\<close>

fun witnesses_add :: "IncMerkleWitness option list \<Rightarrow> bytes \<Rightarrow> IncMerkleWitness option list option" where
  "witnesses_add [] cm = Some []"
| "witnesses_add (None # ws) cm = map_option (\<lambda>ws'. None # ws') (witnesses_add ws cm)"
| "witnesses_add (Some w # ws) cm =
     (case addNewNode w cm of
        None \<Rightarrow> None
      | Some w' \<Rightarrow> map_option (\<lambda>ws'. Some w' # ws') (witnesses_add ws cm))"

text \<open>The second inner loop: notes whose commitment has just been added get a snapshot.\<close>

fun witnesses_start :: "IncMerkleTree \<Rightarrow> bytes \<Rightarrow> JSInput list \<Rightarrow> IncMerkleWitness option list \<Rightarrow>
    (path_error, IncMerkleWitness option list) res" where
  "witnesses_start tree cm (note # notes) (w # ws) =
     (if cm = Cm (InputNote note)
      then if w \<noteq> None then Err DuplicateCommitments
           else and_then (witnesses_start tree cm notes ws)
                  (\<lambda>ws'. Ok (Some (TakeSnapshot tree) # ws'))
      else and_then (witnesses_start tree cm notes ws) (\<lambda>ws'. Ok (w # ws')))"
| "witnesses_start tree cm _ ws = Ok ws"

fun commitments_loop :: "JSInput list \<Rightarrow> bytes list \<Rightarrow> IncMerkleTree \<Rightarrow> IncMerkleWitness option list \<Rightarrow>
    (path_error, IncMerkleTree \<times> IncMerkleWitness option list) res" where
  "commitments_loop notes [] tree ws = Ok (tree, ws)"
| "commitments_loop notes (cm # cms) tree ws =
     (case AddNewNode tree cm of
        None \<Rightarrow> Panic
      | Some tree' \<Rightarrow>
          (case witnesses_add ws cm of
             None \<Rightarrow> Panic
           | Some ws' \<Rightarrow>
               and_then (witnesses_start tree' cm notes ws')
                 (\<lambda>ws''. commitments_loop notes cms tree' ws'')))"

fun set_paths :: "JSInput list \<Rightarrow> IncMerkleWitness option list \<Rightarrow> (path_error, JSInput list) res" where
  "set_paths (note # notes) (None # ws) = Err (CommitmentNotExisted (Cm (InputNote note)))"
| "set_paths (note # notes) (Some w # ws) =
     and_then (set_paths notes ws)
       (\<lambda>notes'. Ok (note\<lparr>WitnessPath := Some (fst (getWitnessPath w))\<rparr> # notes'))"
| "set_paths _ _ = Ok []"

text \<open>The notes are updated in place, so the result pairs the new root with the updated notes.
  The last lines print \<open>notes[0].WitnessPath.AuthPath[28]\<close>, which panics without notes.\<close>

definition BuildWitnessPath :: "JSInput list \<Rightarrow> bytes list \<Rightarrow> (path_error, hash \<times> JSInput list) res" where
  "BuildWitnessPath notes commitments =
     and_then (commitments_loop notes commitments empty_tree (replicate (length notes) None))
       (\<lambda>(tree, witnesses). and_then (set_paths notes witnesses)
          (\<lambda>notes'. if notes' = [] then Panic
                    else Ok (GetRoot tree IncMerkleTreeHeight, notes')))"

text \<open>Go visits the chainIDs of the map \<open>inputs\<close> in an unspecified order, the argument
  \<open>chainIDs\<close>.\<close>

fun BuildWitnessPathMultiChain ::
  "byte list \<Rightarrow> (byte \<rightharpoonup> JSInput list) \<Rightarrow> (byte \<Rightarrow> bytes list) \<Rightarrow>
   (path_error, (byte \<rightharpoonup> hash) \<times> (byte \<rightharpoonup> JSInput list)) res" where
  "BuildWitnessPathMultiChain [] inputs commitments = Ok (Map.empty, inputs)"
| "BuildWitnessPathMultiChain (c # chainIDs) inputs commitments =
     (case inputs c of
        None \<Rightarrow> BuildWitnessPathMultiChain chainIDs inputs commitments
      | Some inputList \<Rightarrow>
          and_then (BuildWitnessPath inputList (commitments c))
            (\<lambda>(rt, notes'). and_then (BuildWitnessPathMultiChain chainIDs inputs commitments)
               (\<lambda>(mapRt, inputs'). Ok (mapRt(c \<mapsto> rt), inputs'(c \<mapsto> notes')))))"

subsection \<open>Hashes and paddings\<close>

abbreviation troot :: "nat \<Rightarrow> hash list \<Rightarrow> hash" where
  "troot \<equiv> padded_root combineAndHash uncommittedNodeHash"

lemma length_copy32 [simp]: "length (copy32 b) = 32"
  by (simp add: copy32_def)

lemma copy32_id [simp]: "length b = 32 \<Longrightarrow> copy32 b = b"
  by (simp add: copy32_def)

lemma is_hash_copy32 [simp]: "is_hash (copy32 b)"
  by (simp add: is_hash_def)

lemma is_hash_uncommitted [simp]: "is_hash uncommittedNodeHash"
  by (simp add: is_hash_def uncommittedNodeHash_def)

text \<open>Concatenating two hashes never makes \<open>Sum256NoPad\<close> panic.\<close>

lemma combineAndHash_total:
  "is_hash a \<Longrightarrow> is_hash b \<Longrightarrow> Sum256NoPad (a @ b) = Some (combineAndHash a b)"
  by (auto simp: combineAndHash_def is_hash_def Sum256NoPad_eq)

lemma is_hash_combine [simp]: "is_hash a \<Longrightarrow> is_hash b \<Longrightarrow> is_hash (combineAndHash a b)"
  by (simp add: combineAndHash_def is_hash_def Sum256NoPad_eq length_block_loop)

interpretation inc_tree: binary_hash combineAndHash "(@)" "\<lambda>m. the (Sum256NoPad m)" is_hash
  by unfold_locales (auto simp: combineAndHash_def [abs_def] is_hash_def Sum256NoPad_eq length_block_loop)

lemma padding_loop_nth: "i < n \<Longrightarrow> padding_loop n (troot d []) ! i = troot (d + Suc i) []"
proof (induction n arbitrary: i d)
  case (Suc n)
  have "combineAndHash (troot d []) (troot d []) = troot (Suc d) []" by simp
  then show ?case using Suc.IH [of _ "Suc d"] Suc.prems
    by (cases i) (simp_all add: Let_def del: padded_root.simps)
qed simp

lemma getPaddingAtDepth_eq: "d \<le> IncMerkleTreeHeight \<Longrightarrow> fst (getPaddingAtDepth [] d) = troot d []"
  using padding_loop_nth [of "d - 1" IncMerkleTreeHeight 0]
  by (cases d) (simp_all add: getPaddingAtDepth_def IncMerkleTreeHeight_def)

lemma length_padding_loop [simp]: "length (padding_loop n h) = n"
  by (induction n arbitrary: h) (simp_all add: Let_def)

text \<open>The cache is transparent: a call finds the same value whether or not an earlier call has
  filled it.\<close>

lemma getPaddingAtDepth_cache:
  "fst (getPaddingAtDepth (snd (getPaddingAtDepth [] d')) d) = fst (getPaddingAtDepth [] d)"
  by (simp add: getPaddingAtDepth_def Let_def IncMerkleTreeHeight_def)

subsection \<open>The pending nodes as a binary counter\<close>

text \<open>\<open>ctr d ns zs\<close>: the pending nodes \<open>ns\<close>, from level \<open>d\<close> up, hold the leaves \<open>zs\<close>, a node
  of level \<open>d\<close> being the root of a full tree over \<open>2 ^ d\<close> of them, older leaves higher up.\<close>

fun ctr :: "nat \<Rightarrow> hash option list \<Rightarrow> hash list \<Rightarrow> bool" where
  "ctr d [] zs \<longleftrightarrow> zs = []"
| "ctr d (None # ns) zs \<longleftrightarrow> ctr (Suc d) ns zs"
| "ctr d (Some h # ns) zs \<longleftrightarrow>
     (\<exists>ys bs. zs = ys @ bs \<and> length bs = 2 ^ d \<and> h = troot d bs \<and> ctr (Suc d) ns ys)"

lemma node_at_simps [simp]:
  "node_at [] i = None" "node_at (n # ns) 0 = n" "node_at (n # ns) (Suc i) = node_at ns i"
  by (simp_all add: node_at_def)

lemma ctr_dvd: "ctr d ns zs \<Longrightarrow> 2 ^ d dvd length zs"
proof (induction d ns zs rule: ctr.induct)
  case (2 d ns zs)
  then show ?case using power_le_dvd [of 2 "Suc d" "length zs" d] by simp
next
  case (3 d h ns zs)
  then obtain ys bs where "zs = ys @ bs" "length bs = 2 ^ d" "ctr (Suc d) ns ys" by auto
  moreover from this have "2 ^ d dvd length ys"
    using "3.IH" power_le_dvd [of 2 "Suc d" "length ys" d] by simp
  ultimately show ?case by simp
qed simp

lemma ctr_bit: "ctr d ns zs \<Longrightarrow> node_at ns i \<noteq> None \<longleftrightarrow> odd (length zs div 2 ^ (d + i))"
proof (induction d ns zs arbitrary: i rule: ctr.induct)
  case (2 d ns zs)
  then have "2 ^ Suc d dvd length zs" using ctr_dvd [of "Suc d" ns zs] by simp
  then have "even (length zs div 2 ^ d)" by (auto elim!: dvdE simp: power_Suc mult.assoc)
  then show ?case using 2 by (cases i) auto
next
  case (3 d h ns zs)
  then obtain ys bs where zs: "zs = ys @ bs" "length bs = 2 ^ d" "ctr (Suc d) ns ys" by auto
  then obtain m where m: "length ys = 2 ^ Suc d * m" using ctr_dvd by blast
  have l: "length zs = 2 ^ d * (2 * m + 1)" using zs m by simp
  show ?case
  proof (cases i)
    case 0
    then show ?thesis using l by simp
  next
    case (Suc j)
    have "length zs div 2 ^ (d + i) = (2 * m + 1) div 2 ^ i"
      by (simp add: l power_add div_mult2_eq)
    also have "\<dots> = m div 2 ^ j" by (simp add: Suc div_mult2_eq)
    also have "\<dots> = length ys div 2 ^ (Suc d + j)"
      unfolding m power_add div_mult2_eq by simp
    finally show ?thesis using "3.IH" [of ys j] zs Suc by simp
  qed
qed simp

lemma ctr_somes:
  "ctr d ns zs \<Longrightarrow> list_all is_hash zs \<Longrightarrow> list_all (\<lambda>n. case n of None \<Rightarrow> True | Some h \<Rightarrow> is_hash h) ns"
proof (induction d ns zs rule: ctr.induct)
  case (3 d h ns zs)
  then obtain ys bs where "zs = ys @ bs" "h = troot d bs" "ctr (Suc d) ns ys" by auto
  then show ?case using 3 inc_tree.padded_root_ok [of uncommittedNodeHash bs d] by auto
qed auto

lemma length_add_loop: "length (fst (add_loop ns h)) = length ns"
  by (induction ns h rule: add_loop.induct) (auto split: prod.splits)

lemma ctr_add_loop:
  "ctr d ns zs \<Longrightarrow> length bs = 2 ^ d \<Longrightarrow>
   case add_loop ns (troot d bs) of
     (ns', None) \<Rightarrow> ctr d ns' (zs @ bs)
   | (ns', Some h) \<Rightarrow> ctr d (ns' @ [Some h]) (zs @ bs) \<and> None \<notin> set ns"
proof (induction ns arbitrary: d zs bs)
  case Nil
  then show ?case by auto
next
  case (Cons n ns)
  show ?case
  proof (cases n)
    case None
    then show ?thesis using Cons.prems by auto
  next
    case (Some h)
    then obtain ys cs where zs: "zs = ys @ cs" "length cs = 2 ^ d" "h = troot d cs" "ctr (Suc d) ns ys"
      using Cons.prems by auto
    have e: "combineAndHash h (troot d bs) = troot (Suc d) (cs @ bs)" using zs by simp
    have "length (cs @ bs) = 2 ^ Suc d" using zs Cons.prems by simp
    then show ?thesis
      using Cons.IH [OF zs(4), of "cs @ bs"] unfolding Some add_loop.simps e
      by (auto simp: zs split: prod.splits option.splits simp del: padded_root.simps)
  qed
qed

lemma all_bits_mask: "m < 2 ^ k \<Longrightarrow> (\<forall>i < k. odd (m div 2 ^ i)) \<longleftrightarrow> m = 2 ^ k - 1" for m :: nat
proof (induction k arbitrary: m)
  case (Suc k)
  have "(\<forall>i < Suc k. odd (m div 2 ^ i)) \<longleftrightarrow> odd m \<and> (\<forall>i < k. odd (m div 2 div 2 ^ i))"
    by (auto simp: less_Suc_eq_0_disj div_mult2_eq all_conj_distrib)
  also have "\<dots> \<longleftrightarrow> odd m \<and> m div 2 = 2 ^ k - 1" using Suc by (simp add: less_mult_imp_div_less)
  also have "\<dots> \<longleftrightarrow> m = 2 ^ Suc k - 1"
  proof -
    have "(1 :: nat) \<le> 2 ^ k" by simp
    then show ?thesis unfolding power_Suc by presburger
  qed
  finally show ?case .
qed simp

subsection \<open>The tree over a list of leaves\<close>

definition tail_of :: "IncMerkleTree \<Rightarrow> hash list" where
  "tail_of t = (case (imt_left t, imt_right t) of
     (None, _) \<Rightarrow> [] | (Some a, None) \<Rightarrow> [a] | (Some a, Some b) \<Rightarrow> [a, b])"

definition tree_of :: "IncMerkleTree \<Rightarrow> hash list \<Rightarrow> bool" where
  "tree_of t xs \<longleftrightarrow>
     (\<exists>zs. xs = zs @ tail_of t \<and> ctr 1 (imt_nodes t) zs \<and> (imt_left t = None \<longrightarrow> zs = []))
     \<and> (imt_left t = None \<longrightarrow> imt_right t = None)
     \<and> length (imt_nodes t) < IncMerkleTreeHeight \<and> list_all is_hash xs"

lemma tree_of_empty [simp]: "tree_of empty_tree []"
  by (simp add: tree_of_def empty_tree_def tail_of_def IncMerkleTreeHeight_def)

lemma node_at_some_iff: "None \<notin> set ns \<Longrightarrow> node_at ns i \<noteq> None \<longleftrightarrow> i < length ns"
  by (force simp: node_at_def in_set_conv_nth)

text \<open>With both leaves present, the number of leaves is read off the pending nodes.\<close>

lemma full_nodes_iff:
  assumes "ctr 1 ns zs" "length zs + 2 \<le> 2 ^ Suc k"
  shows "(\<forall>i < k. node_at ns i \<noteq> None) \<longleftrightarrow> length zs + 2 = 2 ^ Suc k"
proof -
  let ?m = "length zs div 2"
  have ev: "even (length zs)" using ctr_dvd [OF assms(1)] by simp
  have m: "?m < 2 ^ k" using assms(2) by simp
  have "(\<forall>i < k. node_at ns i \<noteq> None) \<longleftrightarrow> (\<forall>i < k. odd (?m div 2 ^ i))"
    using ctr_bit [OF assms(1)] by (simp add: div_mult2_eq)
  also have "\<dots> \<longleftrightarrow> ?m = 2 ^ k - 1" using all_bits_mask [OF m] .
  also have "\<dots> \<longleftrightarrow> length zs + 2 = 2 ^ Suc k" using m ev unfolding power_Suc by presburger
  finally show ?thesis .
qed

lemma carry_room:
  assumes "ctr 1 ns zs" "None \<notin> set ns" "length zs + 2 < 2 ^ Suc k" "length ns \<le> k"
  shows "length ns < k"
proof (rule ccontr)
  assume "\<not> ?thesis"
  then have "\<forall>i < k. node_at ns i \<noteq> None" using assms(2,4) node_at_some_iff by simp
  then show False using full_nodes_iff [OF assms(1), of k] assms(3) by simp
qed

lemma AddNewNode_tree_of:
  assumes t: "tree_of t xs" and lt: "length xs < 2 ^ IncMerkleTreeHeight"
  shows "\<exists>t'. AddNewNode t h = Some t' \<and> tree_of t' (xs @ [copy32 h])"
proof -
  obtain zs where zs: "xs = zs @ tail_of t" "ctr 1 (imt_nodes t) zs" "imt_left t = None \<longrightarrow> zs = []"
    and t': "imt_left t = None \<longrightarrow> imt_right t = None" "length (imt_nodes t) < IncMerkleTreeHeight"
    "list_all is_hash xs"
    using t by (auto simp: tree_of_def)
  show ?thesis
  proof (cases "imt_left t = None \<or> imt_right t = None")
    case True
    then show ?thesis
      using zs t' by (auto simp: AddNewNode_def tree_of_def tail_of_def Let_def split: option.splits)
  next
    case False
    then obtain l r where lr: "imt_left t = Some l" "imt_right t = Some r" by auto
    then have xs: "xs = zs @ [l, r]" using zs by (simp add: tail_of_def)
    have e: "combineAndHash l r = troot 1 [l, r]" by simp
    obtain ns' o' where a: "add_loop (imt_nodes t) (troot 1 [l, r]) = (ns', o')" by fastforce
    note c = ctr_add_loop [OF zs(2), of "[l, r]", unfolded a]
    have ln: "length ns' = length (imt_nodes t)"
      using length_add_loop [of "imt_nodes t" "troot 1 [l, r]"] a by simp
    have room: "length ns' < IncMerkleTreeHeight - 1" if "o' \<noteq> None"
      using carry_room [OF zs(2), of 28] that c t' lt ln xs
      by (auto simp: IncMerkleTreeHeight_def split: option.splits)
    show ?thesis
      using c room ln t' xs unfolding AddNewNode_def Let_def lr option.case prod.case e a
      by (auto simp: tree_of_def tail_of_def split: option.splits simp del: padded_root.simps)
  qed
qed

lemma AddNewNode_full:
  assumes t: "tree_of t xs" and full: "length xs = 2 ^ IncMerkleTreeHeight"
  shows "AddNewNode t h = None"
proof -
  obtain zs where zs: "xs = zs @ tail_of t" "ctr 1 (imt_nodes t) zs" "imt_left t = None \<longrightarrow> zs = []"
    and t': "length (imt_nodes t) < IncMerkleTreeHeight"
    using t by (auto simp: tree_of_def)
  have ev: "even (length zs)" using ctr_dvd [OF zs(2)] by simp
  have evx: "even (length xs)" using full by (simp add: IncMerkleTreeHeight_def)
  obtain l r where lr: "imt_left t = Some l" "imt_right t = Some r"
  proof (cases "imt_left t")
    case None
    then show ?thesis using zs full by (simp add: tail_of_def)
  next
    case (Some l)
    then have "imt_right t \<noteq> None" using zs ev evx by (auto simp: tail_of_def split: option.splits)
    then show ?thesis using that Some by auto
  qed
  then have lz: "length zs + 2 = 2 ^ Suc 28"
    using zs full by (simp add: tail_of_def IncMerkleTreeHeight_def)
  then have "\<forall>i < 28. node_at (imt_nodes t) i \<noteq> None"
    using full_nodes_iff [OF zs(2), of 28] by simp
  then have n: "\<forall>i < 28. i < length (imt_nodes t) \<and> imt_nodes t ! i \<noteq> None"
    by (auto simp: node_at_def split: if_splits)
  then have l28: "length (imt_nodes t) = 28"
    using t' by (auto simp: IncMerkleTreeHeight_def dest: spec [of _ 27])
  then have nn: "None \<notin> set (imt_nodes t)" using n by (metis in_set_conv_nth)
  have "snd (add_loop ns p) \<noteq> None" if "None \<notin> set ns" for ns p
    using that by (induction ns p rule: add_loop.induct) (auto split: prod.splits)
  then have "snd (add_loop (imt_nodes t) (combineAndHash l r)) \<noteq> None" using nn by blast
  then show ?thesis using nn l28 length_add_loop [of "imt_nodes t" "combineAndHash l r"]
    by (auto simp: AddNewNode_def lr IncMerkleTreeHeight_def Let_def split: prod.splits option.splits)
qed

lemma root_loop_eq:
  "ctr (Suc i) (drop i ns) zs \<Longrightarrow> length cs \<le> 2 ^ Suc i \<Longrightarrow> cs \<noteq> [] \<or> zs = [] \<Longrightarrow>
   length (zs @ cs) \<le> 2 ^ (Suc i + n) \<Longrightarrow> i + n < IncMerkleTreeHeight \<Longrightarrow>
   root_loop ns i n (troot (Suc i) cs) = troot (Suc i + n) (zs @ cs)"
proof (induction n arbitrary: i zs cs)
  case 0
  have "2 ^ Suc i dvd length zs" using 0 ctr_dvd by blast
  moreover have "length zs < 2 ^ Suc i" if "cs \<noteq> []"
    using 0 that by (cases cs) auto
  ultimately have "zs = []" using 0 by (metis length_0_conv nat_dvd_not_less gr0I)
  then show ?case by simp
next
  case (Suc n)
  show ?case
  proof (cases "node_at ns i")
    case None
    then have c: "ctr (Suc (Suc i)) (drop (Suc i) ns) zs"
      using Suc.prems(1) by (cases "i < length ns") (auto simp: node_at_def simp flip: Cons_nth_drop_Suc)
    have p: "fst (getPaddingAtDepth [] (i + 1)) = troot (Suc i) []"
      using Suc.prems by (simp add: getPaddingAtDepth_eq)
    have e: "combineAndHash (troot (Suc i) cs) (fst (getPaddingAtDepth [] (i + 1))) = troot (Suc (Suc i)) cs"
      unfolding p using padded_root_extend [OF Suc.prems(2)] by metis
    have "root_loop ns (Suc i) n (troot (Suc (Suc i)) cs) = troot (Suc (Suc i) + n) (zs @ cs)"
      using c Suc.prems by (intro Suc.IH) auto
    then show ?thesis unfolding root_loop.simps None option.case e by simp
  next
    case (Some h)
    then have "drop i ns = Some h # drop (Suc i) ns"
      using Cons_nth_drop_Suc [of i ns] by (auto simp: node_at_def split: if_splits)
    then obtain ys bs where z: "zs = ys @ bs" "length bs = 2 ^ Suc i" "h = troot (Suc i) bs"
      "ctr (Suc (Suc i)) (drop (Suc i) ns) ys"
      using Suc.prems(1) by auto
    have e: "combineAndHash h (troot (Suc i) cs) = troot (Suc (Suc i)) (bs @ cs)"
      unfolding z(3) using padded_root_append_full [OF z(2)] by metis
    have "bs \<noteq> []" using z(2) by force
    then have "root_loop ns (Suc i) n (troot (Suc (Suc i)) (bs @ cs)) = troot (Suc (Suc i) + n) (ys @ (bs @ cs))"
      using z Suc.prems by (intro Suc.IH) auto
    then show ?thesis unfolding root_loop.simps Some option.case e by (simp add: z)
  qed
qed

lemma GetRoot_eq:
  assumes t: "tree_of t xs" and d: "d \<le> IncMerkleTreeHeight" "length xs \<le> 2 ^ d"
    and ne: "xs \<noteq> [] \<or> 0 < d"
  shows "GetRoot t d = troot d xs"
proof (cases d)
  case 0
  then obtain x where x: "xs = [x]" using d ne by (cases xs) auto
  obtain zs where zs: "xs = zs @ tail_of t" "imt_left t = None \<longrightarrow> zs = []"
    using t by (auto simp: tree_of_def)
  then have "imt_left t = Some x \<and> imt_right t = None"
    using x by (auto simp: tail_of_def Cons_eq_append_conv split: option.splits)
  then show ?thesis using 0 x by (simp add: GetRoot_def)
next
  case (Suc k)
  obtain zs where zs: "xs = zs @ tail_of t" "ctr 1 (imt_nodes t) zs" "imt_left t = None \<longrightarrow> zs = []"
    and t': "imt_left t = None \<longrightarrow> imt_right t = None"
    using t by (auto simp: tree_of_def)
  have e: "combineAndHash (case imt_left t of None \<Rightarrow> uncommittedNodeHash | Some l \<Rightarrow> l)
      (case imt_right t of None \<Rightarrow> uncommittedNodeHash | Some r \<Rightarrow> r) = troot 1 (tail_of t)"
    using t' by (auto simp: tail_of_def split: option.splits)
  have tl: "length (tail_of t) \<le> 2" "tail_of t \<noteq> [] \<or> zs = []"
    using zs by (auto simp: tail_of_def split: option.splits)
  have "root_loop (imt_nodes t) 0 k (troot (Suc 0) (tail_of t)) = troot (Suc 0 + k) (zs @ tail_of t)"
    using zs tl d Suc by (intro root_loop_eq) auto
  then show ?thesis using Suc d(1) e zs by (simp add: GetRoot_def Let_def del: padded_root.simps)
qed

subsection \<open>Witnesses\<close>

lemma tree_of_MakeCopy: "tree_of t xs \<Longrightarrow> MakeCopy t = t"
proof -
  assume t: "tree_of t xs"
  then obtain zs where zs: "xs = zs @ tail_of t" "ctr 1 (imt_nodes t) zs" "list_all is_hash zs"
    "imt_left t = None \<longrightarrow> imt_right t = None" "list_all is_hash (tail_of t)"
    by (auto simp: tree_of_def)
  have "map (map_option copy32) (imt_nodes t) = imt_nodes t"
    using ctr_somes [OF zs(2,3)]
    by (intro map_idI) (force simp: list_all_iff is_hash_def map_option_case split: option.splits)
  moreover have "map_option copy32 (imt_left t) = imt_left t" "map_option copy32 (imt_right t) = imt_right t"
    using zs(4,5) by (auto simp: tail_of_def is_hash_def split: option.splits)
  ultimately show ?thesis by (simp add: MakeCopy_def)
qed

lemma finishedDepth_iff:
  assumes t: "tree_of t xs" and "xs \<noteq> []" "length xs \<le> 2 ^ d"
  shows "finishedDepth t d \<longleftrightarrow> length xs = 2 ^ d"
proof -
  obtain zs where zs: "xs = zs @ tail_of t" "ctr 1 (imt_nodes t) zs" "imt_left t = None \<longrightarrow> zs = []"
    using t by (auto simp: tree_of_def)
  have ev: "even (length zs)" using ctr_dvd [OF zs(2)] by simp
  obtain l where l: "imt_left t = Some l" using zs assms(2) by (cases "imt_left t") (auto simp: tail_of_def)
  show ?thesis
  proof (cases "imt_right t")
    case None
    then have "odd (length xs)" using l zs ev by (simp add: tail_of_def)
    then show ?thesis using None l assms
      by (cases d) (auto simp: finishedDepth_def, cases xs, auto)
  next
    case (Some r)
    then have x: "length xs = length zs + 2" using l zs by (simp add: tail_of_def)
    then obtain k where k: "d = Suc k" using assms by (cases d) auto
    show ?thesis
      using full_nodes_iff [OF zs(2), of k] assms(3)
      by (auto simp: finishedDepth_def l Some k x list_all_iff)
  qed
qed

text \<open>The depths of the subtrees to the right of the snapshot's last leaf, from the leaf up.\<close>

definition right_depths :: "hash option list \<Rightarrow> nat \<Rightarrow> nat \<Rightarrow> nat list" where
  "right_depths ns i n = map Suc (filter (\<lambda>j. node_at ns j = None) [i..<i + n])"

definition udepths :: "IncMerkleTree \<Rightarrow> nat list" where
  "udepths t = (if imt_left t = None \<or> imt_right t = None then [0] else [])
     @ right_depths (imt_nodes t) 0 IncMerkleTreeHeight"

lemma right_depths_0 [simp]: "right_depths ns i 0 = []"
  by (simp add: right_depths_def)

lemma right_depths_Suc:
  "right_depths ns i (Suc n) = (if node_at ns i = None then [Suc i] else []) @ right_depths ns (Suc i) n"
proof -
  have "[i..<i + Suc n] = i # [Suc i..<Suc i + n]" by (simp add: upt_conv_Cons)
  then show ?thesis unfolding right_depths_def by simp
qed

lemma uncle_depth_loop_eq:
  "uncle_depth_loop ns i n k =
     (if k < length (right_depths ns i n) then right_depths ns i n ! k else i + n + 1)"
  by (induction n arbitrary: i k) (auto simp: right_depths_Suc nth_Cons split: nat.splits)

lemma getNextUncleDepth_eq: "k < length (udepths t) \<Longrightarrow> getNextUncleDepth t k = udepths t ! k"
  by (auto simp: getNextUncleDepth_def udepths_def uncle_depth_loop_eq nth_append nth_Cons
      split: nat.splits)

lemma udepths_le: "d \<in> set (udepths t) \<Longrightarrow> d \<le> IncMerkleTreeHeight"
  by (auto simp: udepths_def right_depths_def split: if_splits)

lemma height_in_udepths: "length (imt_nodes t) < IncMerkleTreeHeight \<Longrightarrow> IncMerkleTreeHeight \<in> set (udepths t)"
  by (auto simp: udepths_def right_depths_def node_at_def IncMerkleTreeHeight_def intro!: image_eqI [of _ _ 28])

text \<open>\<open>follows w xs ys\<close>: the witness \<open>w\<close>, started after the leaves \<open>xs\<close>, has seen the leaves
  \<open>ys\<close>: they are cut into full subtrees of the depths \<open>ds1\<close>, whose roots are the uncles, and the
  leaves of the subtree under construction.\<close>

definition follows :: "IncMerkleWitness \<Rightarrow> hash list \<Rightarrow> hash list \<Rightarrow> bool" where
  "follows w xs ys \<longleftrightarrow> tree_of (snapshot w) xs \<and> xs \<noteq> [] \<and> list_all is_hash ys \<and>
     (\<exists>ds1 ds2 full rest. udepths (snapshot w) = ds1 @ ds2 \<and> ys = concat full @ rest \<and>
        list_all2 (\<lambda>d b. length b = 2 ^ d) ds1 full \<and> uncles w = map2 troot ds1 full \<and>
        (case tmpTree w of
           None \<Rightarrow> rest = []
         | Some t \<Rightarrow> tree_of t rest \<and> rest \<noteq> [] \<and> ds2 \<noteq> [] \<and> nextDepth w = hd ds2 \<and>
             length rest < 2 ^ hd ds2))"

lemma followsI:
  assumes "tree_of (snapshot w) xs" "xs \<noteq> []" "list_all is_hash ys"
    and "udepths (snapshot w) = ds1 @ ds2" "ys = concat full @ rest"
    and "list_all2 (\<lambda>d b. length b = 2 ^ d) ds1 full" "uncles w = map2 troot ds1 full"
    and "case tmpTree w of
           None \<Rightarrow> rest = []
         | Some t \<Rightarrow> tree_of t rest \<and> rest \<noteq> [] \<and> ds2 \<noteq> [] \<and> nextDepth w = hd ds2 \<and>
             length rest < 2 ^ hd ds2"
  shows "follows w xs ys"
  using assms unfolding follows_def by blast

lemma follows_TakeSnapshot: "tree_of t xs \<Longrightarrow> xs \<noteq> [] \<Longrightarrow> follows (TakeSnapshot t) xs []"
  by (rule followsI [where ?ds1.0 = "[]" and full = "[]"]) (auto simp: TakeSnapshot_def tree_of_MakeCopy)

lemma length_blocks_ge:
  "list_all2 (\<lambda>d b. length b = 2 ^ d) ds full \<Longrightarrow> d \<in> set ds \<Longrightarrow> 2 ^ d \<le> length (concat full)"
  by (induction rule: list_all2_induct) auto

lemma addNewNode_follows:
  assumes f: "follows w xs ys" and lt: "length xs + length ys < 2 ^ IncMerkleTreeHeight"
  shows "\<exists>w'. addNewNode w h = Some w' \<and> follows w' xs (ys @ [copy32 h])"
proof -
  obtain ds1 ds2 full rest where s: "tree_of (snapshot w) xs" "xs \<noteq> []" "list_all is_hash ys"
    and d: "udepths (snapshot w) = ds1 @ ds2" "ys = concat full @ rest"
      "list_all2 (\<lambda>d b. length b = 2 ^ d) ds1 full" "uncles w = map2 troot ds1 full"
    and c: "case tmpTree w of
           None \<Rightarrow> rest = []
         | Some t \<Rightarrow> tree_of t rest \<and> rest \<noteq> [] \<and> ds2 \<noteq> [] \<and> nextDepth w = hd ds2 \<and>
             length rest < 2 ^ hd ds2"
    using f unfolding follows_def by blast
  have hd: "IncMerkleTreeHeight \<in> set (udepths (snapshot w))"
    using s(1) by (intro height_in_udepths) (simp add: tree_of_def)
  have "IncMerkleTreeHeight \<notin> set ds1"
    using length_blocks_ge [OF d(3), of IncMerkleTreeHeight] d(2) lt by auto
  then obtain e ds3 where ds2: "ds2 = e # ds3" using hd d(1) by (cases ds2) auto
  have e: "e \<le> IncMerkleTreeHeight" using udepths_le [of e "snapshot w"] d(1) ds2 by simp
  let ?w1 = "case tmpTree w of
      None \<Rightarrow> w\<lparr>nextDepth := getNextUncleDepth (snapshot w) (length (uncles w))\<rparr> | Some _ \<Rightarrow> w"
  let ?t = "case tmpTree w of None \<Rightarrow> empty_tree | Some t \<Rightarrow> t"
  have "length (uncles w) = length ds1" using d(3,4) by (auto dest: list_all2_lengthD)
  then have nd: "nextDepth ?w1 = e"
    using c ds2 getNextUncleDepth_eq [of "length ds1" "snapshot w"] d(1)
    by (auto split: option.splits)
  have w1: "snapshot ?w1 = snapshot w" "uncles ?w1 = uncles w" by (auto split: option.splits)
  have t: "tree_of ?t rest" "length rest < 2 ^ e" using c ds2 by (auto split: option.splits)
  have "length rest < 2 ^ IncMerkleTreeHeight" using lt d(2) by simp
  then obtain t' where t': "AddNewNode ?t h = Some t'" "tree_of t' (rest @ [copy32 h])"
    using AddNewNode_tree_of [OF t(1)] by blast
  have fin: "finishedDepth t' e \<longleftrightarrow> length (rest @ [copy32 h]) = 2 ^ e"
    using t by (intro finishedDepth_iff [OF t'(2)]) auto
  let ?w' = "if finishedDepth t' e then ?w1\<lparr>uncles := uncles w @ [GetRoot t' e], tmpTree := None\<rparr>
      else ?w1\<lparr>tmpTree := Some t'\<rparr>"
  have "addNewNode w h = Some ?w'"
    unfolding addNewNode_def Let_def t'(1) nd option.case w1(2) by simp
  moreover have "follows ?w' xs (ys @ [copy32 h])"
  proof (cases "finishedDepth t' e")
    case True
    have "GetRoot t' e = troot e (rest @ [copy32 h])"
      using t e by (intro GetRoot_eq [OF t'(2)]) auto
    then show ?thesis using True s w1 d fin ds2
      by (intro followsI [where ?ds1.0 = "ds1 @ [e]" and ?ds2.0 = ds3 and
            full = "full @ [rest @ [copy32 h]]" and rest = "[]"])
        (auto simp: list_all2_appendI list_all2_lengthD)
  next
    case False
    then have "length (rest @ [copy32 h]) < 2 ^ e" using fin t(2) by auto
    then show ?thesis using False s w1 d ds2 t'(2) nd
      by (intro followsI [where ?ds1.0 = ds1 and ?ds2.0 = "e # ds3" and full = full and
            rest = "rest @ [copy32 h]"]) auto
  qed
  ultimately show ?thesis by blast
qed

subsection \<open>Authentication paths\<close>

text \<open>\<open>covers ds us rest\<close>: the uncles \<open>us\<close> are the roots of the consecutive subtrees of depths
  \<open>ds\<close> over the leaves \<open>rest\<close>; subtrees without leaves have no uncle.\<close>

fun covers :: "nat list \<Rightarrow> hash list \<Rightarrow> hash list \<Rightarrow> bool" where
  "covers ds [] rest \<longleftrightarrow> rest = []"
| "covers [] (u # us) rest \<longleftrightarrow> False"
| "covers (d # ds) (u # us) rest \<longleftrightarrow>
     u = troot d (take (2 ^ d) rest) \<and> rest \<noteq> [] \<and> covers ds us (drop (2 ^ d) rest)"

lemma covers_blocks:
  "list_all2 (\<lambda>d b. length b = 2 ^ d) ds1 full \<Longrightarrow> covers ds2 us rest \<Longrightarrow>
   covers (ds1 @ ds2) (map2 troot ds1 full @ us) (concat full @ rest)"
proof (induction rule: list_all2_induct)
  case (Cons d ds b full)
  then have "b \<noteq> []" by force
  then show ?case using Cons by simp
qed simp

definition finish_tmp :: "IncMerkleWitness \<Rightarrow> IncMerkleWitness" where
  "finish_tmp w = (case tmpTree w of
     None \<Rightarrow> w | Some t \<Rightarrow> w\<lparr>uncles := uncles w @ [GetRoot t (nextDepth w)], tmpTree := None\<rparr>)"

lemma finish_tmp_covers:
  assumes "follows w xs ys"
  shows "covers (udepths (snapshot w)) (uncles (finish_tmp w)) ys"
proof -
  obtain ds1 ds2 full rest where d: "udepths (snapshot w) = ds1 @ ds2" "ys = concat full @ rest"
      "list_all2 (\<lambda>d b. length b = 2 ^ d) ds1 full" "uncles w = map2 troot ds1 full"
    and c: "case tmpTree w of
           None \<Rightarrow> rest = []
         | Some t \<Rightarrow> tree_of t rest \<and> rest \<noteq> [] \<and> ds2 \<noteq> [] \<and> nextDepth w = hd ds2 \<and>
             length rest < 2 ^ hd ds2"
    using assms unfolding follows_def by blast
  show ?thesis
  proof (cases "tmpTree w")
    case None
    then show ?thesis using covers_blocks [OF d(3), of ds2 "[]" rest] d c by (simp add: finish_tmp_def)
  next
    case (Some t)
    then obtain e ds3 where e: "ds2 = e # ds3" using c by (cases ds2) auto
    have le: "e \<le> IncMerkleTreeHeight" using udepths_le [of e "snapshot w"] d(1) e by simp
    have "GetRoot t e = troot e rest" using c Some e le by (intro GetRoot_eq) auto
    then have "covers ds2 [GetRoot t e] rest" using c Some e by simp
    then show ?thesis using covers_blocks [OF d(3)] d c Some e by (simp add: finish_tmp_def)
  qed
qed

lemma getUncle_eq:
  assumes "covers (d # ds) (drop (uID w) (uncles w)) rest" "rest \<noteq> [] \<or> 0 < d" "d \<le> IncMerkleTreeHeight"
  shows "\<exists>w'. getUncle w d = (troot d (take (2 ^ d) rest), w') \<and> snapshot w' = snapshot w \<and>
    covers ds (drop (uID w') (uncles w')) (drop (2 ^ d) rest)"
proof (cases "uID w < length (uncles w)")
  case True
  then have "drop (uID w) (uncles w) = uncles w ! uID w # drop (Suc (uID w)) (uncles w)"
    by (simp add: Cons_nth_drop_Suc)
  then show ?thesis using True assms by (auto simp: getUncle_def)
next
  case False
  then have r: "rest = []" using assms(1) by simp
  have "GetRoot empty_tree d = troot d []" using assms r by (intro GetRoot_eq) auto
  then show ?thesis using False r by (auto simp: getUncle_def)
qed

lemma path_loop_eq:
  fixes w :: IncMerkleWitness
  defines "ns \<equiv> imt_nodes (snapshot w)"
  assumes "ctr (Suc d) (drop d ns) zs" and "covers (right_depths ns d (Suc n)) (drop (uID w) (uncles w)) rest"
    and "d + n = IncMerkleTreeHeight - 1"
    and "length cs \<le> 2 ^ Suc d" "cs \<noteq> []" "rest = [] \<or> length cs = 2 ^ Suc d"
    and "length (zs @ cs @ rest) \<le> 2 ^ (Suc d + n)"
    and "length (AuthPath path) = length (Index path)"
    and "path_root combineAndHash x (zip (AuthPath path) (Index path)) = troot (Suc d) cs"
  shows "\<exists>path' w'. path_loop w d n path = (path', w') \<and> length (AuthPath path') = length (Index path') \<and>
    path_root combineAndHash x (zip (AuthPath path') (Index path')) = troot (Suc d + n) (zs @ cs @ rest) \<and>
    Index path' = Index path @ map (\<lambda>i. node_at ns i \<noteq> None) [d..<d + n]"
  using assms(2-) unfolding ns_def
proof (induction n arbitrary: w d zs cs rest path)
  case 0
  have "2 ^ Suc d dvd length zs" using 0 ctr_dvd by blast
  moreover have "length zs < 2 ^ Suc d" using "0.prems" by (cases cs) auto
  ultimately have "zs = []" by (metis length_0_conv nat_dvd_not_less gr0I)
  moreover have "rest = []" using "0.prems" by (cases rest) auto
  ultimately show ?case using "0.prems" by simp
next
  case (Suc n)
  let ?ns = "imt_nodes (snapshot w)"
  have upt: "[d..<d + Suc n] = d # [Suc d..<Suc d + n]" by (simp add: upt_conv_Cons)
  have i: "Suc d + n = IncMerkleTreeHeight - 1" using Suc.prems(3) by simp
  then have le: "Suc d \<le> IncMerkleTreeHeight" by simp
  show ?case
  proof (cases "node_at ?ns d")
    case None
    have c: "ctr (Suc (Suc d)) (drop (Suc d) ?ns) zs"
      using Suc.prems(1) None
      by (cases "d < length ?ns") (auto simp: node_at_def simp flip: Cons_nth_drop_Suc)
    have cov: "covers (Suc d # right_depths ?ns (Suc d) (Suc n)) (drop (uID w) (uncles w)) rest"
      using Suc.prems(2) None by (simp add: right_depths_Suc [of ?ns d])
    obtain w' where w': "getUncle w (Suc d) = (troot (Suc d) (take (2 ^ Suc d) rest), w')"
      "snapshot w' = snapshot w"
      "covers (right_depths ?ns (Suc d) (Suc n)) (drop (uID w') (uncles w')) (drop (2 ^ Suc d) rest)"
      using getUncle_eq [OF cov _ le] by auto
    let ?cs = "cs @ take (2 ^ Suc d) rest"
    let ?path = "path\<lparr>AuthPath := AuthPath path @ [troot (Suc d) (take (2 ^ Suc d) rest)],
      Index := Index path @ [False]\<rparr>"
    have r: "combineAndHash (troot (Suc d) cs) (troot (Suc d) (take (2 ^ Suc d) rest)) = troot (Suc (Suc d)) ?cs"
    proof (cases "rest = []")
      case True
      then show ?thesis using padded_root_extend [OF Suc.prems(4)] by (metis append_Nil2 take_Nil)
    next
      case False
      then show ?thesis using Suc.prems(6) padded_root_append_full by metis
    qed
    have "\<exists>path' w''. path_loop w' (Suc d) n ?path = (path', w'') \<and>
        length (AuthPath path') = length (Index path') \<and>
        path_root combineAndHash x (zip (AuthPath path') (Index path'))
          = troot (Suc (Suc d) + n) (zs @ ?cs @ drop (2 ^ Suc d) rest) \<and>
        Index path' = Index ?path @ map (\<lambda>i. node_at (imt_nodes (snapshot w')) i \<noteq> None) [Suc d..<Suc d + n]"
    proof (rule Suc.IH)
      show "ctr (Suc (Suc d)) (drop (Suc d) (imt_nodes (snapshot w'))) zs" using c w'(2) by simp
      show "covers (right_depths (imt_nodes (snapshot w')) (Suc d) (Suc n)) (drop (uID w') (uncles w'))
          (drop (2 ^ Suc d) rest)" using w'(2,3) by simp
      show "Suc d + n = IncMerkleTreeHeight - 1" by (rule i)
      show "length ?cs \<le> 2 ^ Suc (Suc d)" using Suc.prems(4) by auto
      show "?cs \<noteq> []" using Suc.prems(5) by simp
      show "drop (2 ^ Suc d) rest = [] \<or> length ?cs = 2 ^ Suc (Suc d)" using Suc.prems(6) by auto
      show "length (zs @ ?cs @ drop (2 ^ Suc d) rest) \<le> 2 ^ (Suc (Suc d) + n)"
        using Suc.prems(7) by simp
      show "length (AuthPath ?path) = length (Index ?path)" using Suc.prems(8) by simp
      show "path_root combineAndHash x (zip (AuthPath ?path) (Index ?path)) = troot (Suc (Suc d)) ?cs"
        using Suc.prems(8,9) r by (simp add: path_root_append del: padded_root.simps)
    qed
    then show ?thesis using None w' unfolding upt by (simp del: padded_root.simps)
  next
    case (Some h)
    then have dr: "drop d ?ns = Some h # drop (Suc d) ?ns"
      using Cons_nth_drop_Suc [of d ?ns] by (auto simp: node_at_def split: if_splits)
    then obtain ys bs where z: "zs = ys @ bs" "length bs = 2 ^ Suc d" "h = troot (Suc d) bs"
      "ctr (Suc (Suc d)) (drop (Suc d) ?ns) ys"
      using Suc.prems(1) by auto
    have cov: "covers (right_depths ?ns (Suc d) (Suc n)) (drop (uID w) (uncles w)) rest"
      using Suc.prems(2) Some by (simp add: right_depths_Suc [of ?ns d])
    have r: "combineAndHash h (troot (Suc d) cs) = troot (Suc (Suc d)) (bs @ cs)"
      unfolding z(3) using padded_root_append_full [OF z(2)] by metis
    let ?path = "path\<lparr>AuthPath := AuthPath path @ [h], Index := Index path @ [True]\<rparr>"
    have "\<exists>path' w''. path_loop w (Suc d) n ?path = (path', w'') \<and>
        length (AuthPath path') = length (Index path') \<and>
        path_root combineAndHash x (zip (AuthPath path') (Index path'))
          = troot (Suc (Suc d) + n) (ys @ (bs @ cs) @ rest) \<and>
        Index path' = Index ?path @ map (\<lambda>i. node_at ?ns i \<noteq> None) [Suc d..<Suc d + n]"
      using z cov i Suc.prems r
      by (intro Suc.IH) (auto simp: path_root_append simp del: padded_root.simps)
    then show ?thesis using Some z(1) unfolding upt by (simp del: padded_root.simps)
  qed
qed

lemma ctr_index: "ctr d ns zs \<Longrightarrow> length ns \<le> n \<Longrightarrow>
   2 ^ d * path_index (map (\<lambda>i. node_at ns i \<noteq> None) [0..<n]) = length zs"
proof (induction ns arbitrary: d zs n)
  case Nil
  have "path_index (map (\<lambda>i. False) [0..<n]) = 0" by (induction n) (auto simp: path_index_snoc)
  then show ?case using Nil by simp
next
  case (Cons a ns)
  then obtain m where n: "n = Suc m" "length ns \<le> m" by (cases n) auto
  have u: "map (\<lambda>i. node_at (a # ns) i \<noteq> None) [0..<n]
      = (a \<noteq> None) # map (\<lambda>i. node_at ns i \<noteq> None) [0..<m]"
    unfolding n(1) by (simp add: upt_conv_Cons map_Suc_upt [symmetric] del: upt_Suc)
  show ?case
  proof (cases a)
    case None
    then show ?thesis using Cons.IH [of "Suc d" zs m] Cons.prems n(2) unfolding u by simp
  next
    case (Some h)
    then obtain ys bs where "zs = ys @ bs" "length bs = 2 ^ d" "ctr (Suc d) ns ys" using Cons.prems by auto
    then show ?thesis using Cons.IH [of "Suc d" ys m] n(2) Some unfolding u by (simp add: algebra_simps)
  qed
qed

text \<open>The first step of \<open>getWitnessPath\<close>: the sibling \<open>h\<close> of the witnessed leaf, whether it is
  the left child, and the witness after taking it.\<close>

definition first_sibling :: "IncMerkleWitness \<Rightarrow> hash \<Rightarrow> hash \<times> bool \<times> IncMerkleWitness" where
  "first_sibling w l = (let w2 = finish_tmp w\<lparr>uID := 0\<rparr> in
     case imt_right (snapshot w) of
       Some r \<Rightarrow> (l, True, w2)
     | None \<Rightarrow> (let (u, w') = getUncle w2 0 in (u, False, w')))"

lemma getWitnessPath_first:
  "imt_left (snapshot w) = Some l \<Longrightarrow> first_sibling w l = (h, b, w3) \<Longrightarrow>
   getWitnessPath w = path_loop w3 0 28 \<lparr>AuthPath = [h], Index = [b]\<rparr>"
  by (simp add: getWitnessPath_def first_sibling_def finish_tmp_def IncMerkleTreeHeight_def Let_def
      split: option.splits prod.splits)

definition seen :: "hash list \<Rightarrow> hash list \<Rightarrow> hash list" where
  "seen xs ys = (if odd (length xs) \<and> ys = []
     then [combineAndHash uncommittedNodeHash uncommittedNodeHash] else ys)"

lemma covers_Nil: "covers ds us [] \<Longrightarrow> us = []"
  by (cases us; cases ds) auto

lemma getUncle_leaf:
  assumes "covers (0 # ds) (uncles w) ys" "uID w = 0" "odd (length xs)"
  shows "\<exists>w' y ys'. getUncle w 0 = (y, w') \<and> snapshot w' = snapshot w \<and> seen xs ys = y # ys' \<and>
    covers ds (drop (uID w') (uncles w')) ys'"
proof (cases ys)
  case Nil
  then show ?thesis using assms covers_Nil [of "0 # ds" "uncles w"]
    by (auto simp: getUncle_def GetRoot_def empty_tree_def seen_def)
next
  case (Cons y ys')
  have "covers (0 # ds) (drop (uID w) (uncles w)) ys" using assms by simp
  from getUncle_eq [OF this] Cons show ?thesis by (auto simp: seen_def)
qed

lemma first_sibling_eq:
  assumes f: "follows w xs ys"
    and l: "imt_left (snapshot w) = Some l" and s3: "first_sibling w l = (h, b, w3)"
  shows "\<exists>cs rest. cs @ rest = tail_of (snapshot w) @ seen xs ys \<and> length cs = 2 \<and> snapshot w3 = snapshot w \<and>
    covers (right_depths (imt_nodes (snapshot w)) 0 IncMerkleTreeHeight) (drop (uID w3) (uncles w3)) rest \<and>
    (if b then combineAndHash h (last xs) else combineAndHash (last xs) h) = troot 1 cs \<and>
    b = (imt_right (snapshot w) \<noteq> None)"
proof -
  let ?s = "snapshot w" and ?w2 = "finish_tmp w\<lparr>uID := 0\<rparr>"
  obtain zs where zs: "xs = zs @ tail_of ?s" "ctr 1 (imt_nodes ?s) zs"
    using f by (auto simp: follows_def tree_of_def)
  have ev: "even (length zs)" using ctr_dvd [OF zs(2)] by simp
  have s2: "snapshot ?w2 = ?s" by (auto simp: finish_tmp_def split: option.splits)
  have cov: "covers (udepths ?s) (uncles ?w2) ys" using finish_tmp_covers [OF f] by simp
  show ?thesis
  proof (cases "imt_right ?s")
    case None
    then have odd: "odd (length xs)" using zs l ev by (simp add: tail_of_def)
    have "covers (0 # right_depths (imt_nodes ?s) 0 IncMerkleTreeHeight) (uncles ?w2) ys"
      using cov None by (simp add: udepths_def)
    from getUncle_leaf [OF this _ odd] obtain w' y ys' where "getUncle ?w2 0 = (y, w')"
      "snapshot w' = ?s" "seen xs ys = y # ys'"
      "covers (right_depths (imt_nodes ?s) 0 IncMerkleTreeHeight) (drop (uID w') (uncles w')) ys'"
      using s2 by auto
    then show ?thesis using s3 None l zs(1)
      by (intro exI [of _ "[l, y]"] exI [of _ ys']) (auto simp: first_sibling_def tail_of_def)
  next
    case (Some r)
    then have "even (length xs)" using zs l ev by (simp add: tail_of_def)
    then show ?thesis using s3 l zs(1) cov s2 Some
      by (intro exI [of _ "[l, r]"] exI [of _ ys])
        (auto simp: first_sibling_def tail_of_def udepths_def seen_def)
  qed
qed

text \<open>The path of a witness leads from the last leaf of its snapshot to the root of the tree over
  all leaves added since (\<open>seen xs ys\<close>). When that leaf is a left child without a right sibling,
  the missing sibling is taken to be the root of an empty tree of height 1 instead of the padding
  leaf, and the path leads to the root of the tree with that value as an additional leaf.\<close>

lemma getWitnessPath_eq:
  assumes f: "follows w xs ys" and le: "length xs + length ys \<le> 2 ^ IncMerkleTreeHeight"
  shows "\<exists>path w'. getWitnessPath w = (path, w') \<and>
    length (AuthPath path) = IncMerkleTreeHeight \<and> length (Index path) = IncMerkleTreeHeight \<and>
    path_index (Index path) = length xs - 1 \<and>
    path_root combineAndHash (last xs) (zip (AuthPath path) (Index path))
      = troot IncMerkleTreeHeight (xs @ seen xs ys)"
proof -
  let ?s = "snapshot w"
  have t: "tree_of ?s xs" and ne: "xs \<noteq> []" using f by (simp_all add: follows_def)
  obtain zs where zs: "xs = zs @ tail_of ?s" "ctr 1 (imt_nodes ?s) zs" "imt_left ?s = None \<longrightarrow> zs = []"
    and ln: "length (imt_nodes ?s) \<le> 28"
    using t by (auto simp: tree_of_def IncMerkleTreeHeight_def)
  with ne obtain l where l: "imt_left ?s = Some l" by (cases "imt_left ?s") (auto simp: tail_of_def)
  obtain h b w3 where s3: "first_sibling w l = (h, b, w3)" by (cases "first_sibling w l")
  obtain cs rest where cr: "cs @ rest = tail_of ?s @ seen xs ys" "length cs = 2" and w3: "snapshot w3 = ?s"
    and cov: "covers (right_depths (imt_nodes ?s) 0 IncMerkleTreeHeight) (drop (uID w3) (uncles w3)) rest"
    and r: "(if b then combineAndHash h (last xs) else combineAndHash (last xs) h) = troot 1 cs"
    and b: "b = (imt_right ?s \<noteq> None)"
    using first_sibling_eq [OF f l s3] by blast
  have all: "zs @ cs @ rest = xs @ seen xs ys" using cr(1) zs(1) by simp
  have "length xs + length (seen xs ys) \<le> 2 ^ IncMerkleTreeHeight"
    using le by (auto simp: seen_def IncMerkleTreeHeight_def) presburger
  note le = this
  let ?p0 = "\<lparr>AuthPath = [h], Index = [b]\<rparr>"
  have "\<exists>path w'. path_loop w3 0 28 ?p0 = (path, w') \<and>
      length (AuthPath path) = length (Index path) \<and>
      path_root combineAndHash (last xs) (zip (AuthPath path) (Index path)) = troot (Suc 0 + 28) (zs @ cs @ rest) \<and>
      Index path = Index ?p0 @ map (\<lambda>i. node_at (imt_nodes (snapshot w3)) i \<noteq> None) [0..<0 + 28]"
  proof (rule path_loop_eq)
    show "ctr (Suc 0) (drop 0 (imt_nodes (snapshot w3))) zs" using w3 zs(2) by simp
    show "covers (right_depths (imt_nodes (snapshot w3)) 0 (Suc 28)) (drop (uID w3) (uncles w3)) rest"
      using cov w3 by (simp add: IncMerkleTreeHeight_def)
    show "length (zs @ cs @ rest) \<le> 2 ^ (Suc 0 + 28)"
      using le unfolding all by (simp add: IncMerkleTreeHeight_def)
    show "path_root combineAndHash (last xs) (zip (AuthPath ?p0) (Index ?p0)) = troot (Suc 0) cs"
      using r by simp
  qed (use cr(2) in \<open>auto simp: IncMerkleTreeHeight_def\<close>)
  then obtain path w' where p: "path_loop w3 0 28 ?p0 = (path, w')"
    "length (AuthPath path) = length (Index path)"
    "path_root combineAndHash (last xs) (zip (AuthPath path) (Index path))
      = troot IncMerkleTreeHeight (xs @ seen xs ys)"
    "Index path = b # map (\<lambda>i. node_at (imt_nodes ?s) i \<noteq> None) [0..<28]"
    unfolding all w3 by (auto simp: IncMerkleTreeHeight_def simp del: padded_root.simps)
  have "path_index (Index path) = length xs - 1"
    using ctr_index [OF zs(2) ln] p(4) b zs(1) l by (auto simp: tail_of_def split: option.splits)
  then show ?thesis using getWitnessPath_first [OF l s3] p by (auto simp: IncMerkleTreeHeight_def)
qed

subsection \<open>The paths of the input notes\<close>

abbreviation note_cm :: "JSInput \<Rightarrow> bytes" where
  "note_cm inp \<equiv> Cm (InputNote inp)"

text \<open>What is known of a note and its witness after the commitments \<open>ps\<close>, of which the witness
  has been given all but the last \<open>k\<close>.\<close>

definition tracks :: "nat \<Rightarrow> bytes list \<Rightarrow> JSInput \<Rightarrow> IncMerkleWitness option \<Rightarrow> bool" where
  "tracks k ps inp ow \<longleftrightarrow> (case ow of
     None \<Rightarrow> note_cm inp \<notin> set (take (length ps - k) ps)
   | Some w \<Rightarrow> (\<exists>as bs. take (length ps - k) ps = as @ note_cm inp # bs \<and>
       note_cm inp \<notin> set as \<union> set bs \<and>
       follows w (map copy32 (as @ [note_cm inp])) (map copy32 (drop (length as + 1) ps))))"

lemma tracks_iff:
  "tracks k ps inp None \<longleftrightarrow> note_cm inp \<notin> set (take (length ps - k) ps)"
  "tracks k ps inp (Some w) \<longleftrightarrow> (\<exists>as bs. take (length ps - k) ps = as @ note_cm inp # bs \<and>
     note_cm inp \<notin> set as \<union> set bs \<and>
     follows w (map copy32 (as @ [note_cm inp])) (map copy32 (drop (length as + 1) ps)))"
  by (simp_all add: tracks_def)

lemma tracks_SomeI:
  "take (length ps - k) ps = as @ note_cm inp # bs \<Longrightarrow> note_cm inp \<notin> set as \<union> set bs \<Longrightarrow>
   follows w (map copy32 (as @ [note_cm inp])) (map copy32 (drop (length as + 1) ps)) \<Longrightarrow>
   tracks k ps inp (Some w)"
  by (auto simp: tracks_iff)

lemma witnesses_add_eq:
  "list_all2 (tracks 0 ps) inps ws \<Longrightarrow> length ps < 2 ^ IncMerkleTreeHeight \<Longrightarrow>
   \<exists>ws'. witnesses_add ws c = Some ws' \<and> list_all2 (tracks 1 (ps @ [c])) inps ws'"
proof (induction rule: list_all2_induct)
  case (Cons inp inps ow ws)
  then obtain ws' where ws': "witnesses_add ws c = Some ws'" "list_all2 (tracks 1 (ps @ [c])) inps ws'"
    by blast
  show ?case
  proof (cases ow)
    case None
    then show ?thesis using Cons.hyps ws' by (simp add: tracks_iff)
  next
    case (Some w)
    then obtain as bs where t: "ps = as @ note_cm inp # bs" "note_cm inp \<notin> set as \<union> set bs"
      "follows w (map copy32 (as @ [note_cm inp])) (map copy32 bs)"
      using Cons.hyps by (auto simp: tracks_iff)
    then obtain w' where w': "addNewNode w c = Some w'"
      "follows w' (map copy32 (as @ [note_cm inp])) (map copy32 bs @ [copy32 c])"
      using addNewNode_follows [OF t(3), of c] Cons.prems by auto
    have "tracks 1 (ps @ [c]) inp (Some w')"
      using t w' by (intro tracks_SomeI [of _ _ as _ bs]) auto
    then show ?thesis using ws' Some w'(1) by auto
  qed
qed simp

lemma witnesses_start_eq:
  "list_all2 (tracks 1 (ps @ [c])) inps ws \<Longrightarrow> tree_of tree (map copy32 (ps @ [c])) \<Longrightarrow>
   if c \<in> set ps \<and> c \<in> note_cm ` set inps then witnesses_start tree c inps ws = Err DuplicateCommitments
   else \<exists>ws'. witnesses_start tree c inps ws = Ok ws' \<and> list_all2 (tracks 0 (ps @ [c])) inps ws'"
proof (induction rule: list_all2_induct)
  case (Cons inp inps ow ws)
  note IH = Cons.IH [OF Cons.prems]
  show ?case
  proof (cases "c = note_cm inp")
    case True
    show ?thesis
    proof (cases ow)
      case None
      then have "c \<notin> set ps" using True Cons.hyps by (simp add: tracks_iff)
      moreover have "follows (TakeSnapshot tree) (map copy32 (ps @ [c])) []"
        using Cons.prems by (intro follows_TakeSnapshot) auto
      ultimately have "tracks 0 (ps @ [c]) inp (Some (TakeSnapshot tree))"
        using True by (intro tracks_SomeI [of _ _ ps _ "[]"]) auto
      then show ?thesis using IH \<open>c \<notin> set ps\<close> None True by auto
    next
      case (Some w)
      then have "c \<in> set ps" using True Cons.hyps by (auto simp: tracks_iff)
      then show ?thesis using Some True by simp
    qed
  next
    case False
    have "tracks 0 (ps @ [c]) inp ow"
    proof (cases ow)
      case (Some w)
      then obtain as bs where "ps = as @ note_cm inp # bs" "note_cm inp \<notin> set as \<union> set bs"
        "follows w (map copy32 (as @ [note_cm inp])) (map copy32 (drop (length as + 1) (ps @ [c])))"
        using Cons.hyps by (auto simp: tracks_iff)
      then show ?thesis unfolding Some using False by (intro tracks_SomeI [of _ _ as _ "bs @ [c]"]) auto
    qed (use Cons.hyps False in \<open>auto simp: tracks_iff\<close>)
    then show ?thesis using IH False by (auto split: if_splits)
  qed
qed simp

lemma commitments_loop_eq:
  "list_all2 (tracks 0 ps) inps ws \<Longrightarrow> tree_of tree (map copy32 ps) \<Longrightarrow>
   length ps + length cms \<le> 2 ^ IncMerkleTreeHeight \<Longrightarrow>
   \<forall>inp \<in> set inps. count_list ps (note_cm inp) \<le> 1 \<Longrightarrow>
   if \<exists>inp \<in> set inps. 1 < count_list (ps @ cms) (note_cm inp)
   then commitments_loop inps cms tree ws = Err DuplicateCommitments
   else \<exists>tree' ws'. commitments_loop inps cms tree ws = Ok (tree', ws') \<and>
     tree_of tree' (map copy32 (ps @ cms)) \<and> list_all2 (tracks 0 (ps @ cms)) inps ws'"
proof (induction cms arbitrary: ps tree ws)
  case Nil
  then show ?case by (auto simp: not_less)
next
  case (Cons c cms)
  have lt: "length (map copy32 ps) < 2 ^ IncMerkleTreeHeight" using Cons.prems by simp
  obtain tree' where t': "AddNewNode tree c = Some tree'" "tree_of tree' (map copy32 (ps @ [c]))"
    using AddNewNode_tree_of [OF Cons.prems(2) lt, of c] by auto
  obtain ws' where w': "witnesses_add ws c = Some ws'" "list_all2 (tracks 1 (ps @ [c])) inps ws'"
    using witnesses_add_eq [OF Cons.prems(1), of c] lt by auto
  note st = witnesses_start_eq [OF w'(2) t'(2)]
  show ?case
  proof (cases "c \<in> set ps \<and> c \<in> note_cm ` set inps")
    case True
    then obtain inp where n: "inp \<in> set inps" "c = note_cm inp" "0 < count_list ps c"
      by (metis count_list_0_iff gr0I image_iff)
    then have "1 < count_list (ps @ c # cms) (note_cm inp)" by simp
    then show ?thesis using n True st t' w' by auto
  next
    case False
    then obtain ws'' where w'': "witnesses_start tree' c inps ws' = Ok ws''"
      "list_all2 (tracks 0 (ps @ [c])) inps ws''"
      using st by auto
    have "\<forall>inp \<in> set inps. count_list (ps @ [c]) (note_cm inp) \<le> 1"
      using False Cons.prems(4) by (auto simp: image_iff)
    note IH = Cons.IH [OF w''(2) t'(2) _ this, unfolded append.assoc append.simps]
    have "commitments_loop inps (c # cms) tree ws = commitments_loop inps cms tree' ws''"
      using t' w' w'' by simp
    then show ?thesis using IH Cons.prems(3) by (simp only: length_append list.size) simp
  qed
qed

text \<open>What a path must satisfy to authenticate commitment \<open>cm\<close> under \<open>root\<close>: one sibling per
  level, direction bits that spell the position of the commitment, and the recomputed root.\<close>

definition authenticates :: "MerklePath \<Rightarrow> bytes list \<Rightarrow> bytes \<Rightarrow> hash \<Rightarrow> bool" where
  "authenticates path cms cm root \<longleftrightarrow>
     length (AuthPath path) = IncMerkleTreeHeight \<and> length (Index path) = IncMerkleTreeHeight \<and>
     path_index (Index path) < length cms \<and> cms ! path_index (Index path) = cm \<and>
     path_root combineAndHash (copy32 cm) (zip (AuthPath path) (Index path)) = root"

lemma tracks_path:
  assumes "tracks 0 cms inp (Some w)" and "length cms \<le> 2 ^ IncMerkleTreeHeight"
  shows "authenticates (fst (getWitnessPath w)) cms (note_cm inp)
    (troot IncMerkleTreeHeight (if odd (length cms) \<and> note_cm inp = last cms
       then map copy32 cms @ [combineAndHash uncommittedNodeHash uncommittedNodeHash]
       else map copy32 cms))"
proof -
  from assms(1) obtain as bs where t: "cms = as @ note_cm inp # bs" "note_cm inp \<notin> set as \<union> set bs"
    "follows w (map copy32 (as @ [note_cm inp])) (map copy32 bs)"
    by (auto simp: tracks_iff)
  have "note_cm inp = last cms \<longleftrightarrow> bs = []" using t by auto
  then have s: "map copy32 (as @ [note_cm inp]) @ seen (map copy32 (as @ [note_cm inp])) (map copy32 bs)
      = (if odd (length cms) \<and> note_cm inp = last cms
         then map copy32 cms @ [combineAndHash uncommittedNodeHash uncommittedNodeHash]
         else map copy32 cms)"
    using t(1) by (auto simp: seen_def)
  have "length (map copy32 (as @ [note_cm inp])) + length (map copy32 bs) \<le> 2 ^ IncMerkleTreeHeight"
    using assms(2) t(1) by simp
  from getWitnessPath_eq [OF t(3) this, unfolded s] show ?thesis
    by (auto simp: authenticates_def t(1))
qed

lemma set_paths_eq:
  "list_all2 (tracks 0 cms) inps ws \<Longrightarrow> \<forall>inp \<in> set inps. note_cm inp \<in> set cms \<Longrightarrow>
   length cms \<le> 2 ^ IncMerkleTreeHeight \<Longrightarrow>
   \<exists>inps'. set_paths inps ws = Ok inps' \<and>
     list_all2 (\<lambda>inp inp'. \<exists>path. inp' = inp\<lparr>WitnessPath := Some path\<rparr> \<and>
       authenticates path cms (note_cm inp)
         (troot IncMerkleTreeHeight (if odd (length cms) \<and> note_cm inp = last cms
           then map copy32 cms @ [combineAndHash uncommittedNodeHash uncommittedNodeHash]
           else map copy32 cms))) inps inps'"
proof (induction rule: list_all2_induct)
  case (Cons inp inps ow ws)
  then obtain w where w: "ow = Some w" by (cases ow) (auto simp: tracks_iff)
  from Cons.IH Cons.prems obtain inps' where "set_paths inps ws = Ok inps'"
    "list_all2 (\<lambda>inp inp'. \<exists>path. inp' = inp\<lparr>WitnessPath := Some path\<rparr> \<and>
       authenticates path cms (note_cm inp)
         (troot IncMerkleTreeHeight (if odd (length cms) \<and> note_cm inp = last cms
           then map copy32 cms @ [combineAndHash uncommittedNodeHash uncommittedNodeHash]
           else map copy32 cms))) inps inps'"
    by auto
  moreover have "tracks 0 cms inp (Some w)" using Cons.hyps(1) w by simp
  ultimately show ?case using w Cons.prems(2) tracks_path [of cms inp w] by auto
qed simp

lemma set_paths_missing:
  "list_all2 (tracks 0 cms) inps ws \<Longrightarrow> \<exists>inp \<in> set inps. note_cm inp \<notin> set cms \<Longrightarrow>
   \<exists>c. set_paths inps ws = Err (CommitmentNotExisted c) \<and> c \<notin> set cms"
proof (induction rule: list_all2_induct)
  case (Cons inp inps ow ws)
  show ?case
  proof (cases ow)
    case None
    then show ?thesis using Cons.hyps by (simp add: tracks_iff)
  next
    case (Some w)
    then have "note_cm inp \<in> set cms" using Cons.hyps by (auto simp: tracks_iff)
    then show ?thesis using Cons Some by auto
  qed
qed simp

lemma tracks_start: "list_all2 (tracks 0 []) inps (replicate (length inps) None)"
  by (simp add: list_all2_conv_all_nth tracks_iff)

lemma BuildWitnessPath_loop:
  assumes "length cms \<le> 2 ^ IncMerkleTreeHeight"
  shows "if \<exists>inp \<in> set inps. 1 < count_list cms (note_cm inp)
    then BuildWitnessPath inps cms = Err DuplicateCommitments
    else \<exists>ws. list_all2 (tracks 0 cms) inps ws \<and>
      BuildWitnessPath inps cms = and_then (set_paths inps ws)
        (\<lambda>inps'. if inps' = [] then Panic
                 else Ok (troot IncMerkleTreeHeight (map copy32 cms), inps'))"
proof -
  note l = commitments_loop_eq [OF tracks_start, of empty_tree cms inps, simplified, OF assms]
  show ?thesis
  proof (cases "\<exists>inp \<in> set inps. 1 < count_list cms (note_cm inp)")
    case True
    then show ?thesis using l by (auto simp: BuildWitnessPath_def)
  next
    case False
    then obtain tree' ws' where c: "commitments_loop inps cms empty_tree (replicate (length inps) None) = Ok (tree', ws')"
      "tree_of tree' (map copy32 cms)" "list_all2 (tracks 0 cms) inps ws'"
      using l by auto
    have "GetRoot tree' IncMerkleTreeHeight = troot IncMerkleTreeHeight (map copy32 cms)"
      using assms by (intro GetRoot_eq [OF c(2)]) (auto simp: IncMerkleTreeHeight_def)
    then have "BuildWitnessPath inps cms = and_then (set_paths inps ws')
        (\<lambda>inps'. if inps' = [] then Panic
                 else Ok (troot IncMerkleTreeHeight (map copy32 cms), inps'))"
      by (simp add: BuildWitnessPath_def c(1) del: padded_root.simps cong: if_cong)
    then show ?thesis using c(3) False by auto
  qed
qed

fun add_all :: "IncMerkleTree \<Rightarrow> bytes list \<Rightarrow> IncMerkleTree option" where
  "add_all t [] = Some t"
| "add_all t (c # cs) = (case AddNewNode t c of None \<Rightarrow> None | Some t' \<Rightarrow> add_all t' cs)"

lemma add_all_eq:
  "tree_of t xs \<Longrightarrow> length xs \<le> 2 ^ IncMerkleTreeHeight \<Longrightarrow>
   case add_all t cs of
     None \<Rightarrow> 2 ^ IncMerkleTreeHeight < length xs + length cs
   | Some t' \<Rightarrow> length xs + length cs \<le> 2 ^ IncMerkleTreeHeight \<and> tree_of t' (xs @ map copy32 cs)"
proof (induction cs arbitrary: t xs)
  case (Cons c cs)
  show ?case
  proof (cases "length xs < 2 ^ IncMerkleTreeHeight")
    case True
    then obtain t' where "AddNewNode t c = Some t'" "tree_of t' (xs @ [copy32 c])"
      using AddNewNode_tree_of Cons.prems by blast
    then show ?thesis using Cons.IH [of t' "xs @ [copy32 c]"] True by (auto split: option.splits)
  next
    case False
    then show ?thesis using Cons.prems AddNewNode_full [of t xs c] by simp
  qed
qed simp

subsection \<open>Properties\<close>

text \<open>Claim C2 (refinement): adding commitments one by one to an empty tree panics exactly when
  there are more than \<open>2^29\<close> of them; otherwise \<open>GetRoot\<close> at full height is the root of the
  complete Merkle tree of height 29 over the commitments (cut or zero-filled to 32 bytes),
  missing leaves being the uncommitted value.\<close>

theorem IncMerkleTree_refines_padded_tree:
  "case add_all empty_tree cms of
     None \<Rightarrow> 2 ^ IncMerkleTreeHeight < length cms
   | Some t \<Rightarrow> length cms \<le> 2 ^ IncMerkleTreeHeight \<and>
       GetRoot t IncMerkleTreeHeight =
         padded_root combineAndHash uncommittedNodeHash IncMerkleTreeHeight (map copy32 cms)"
proof (cases "add_all empty_tree cms")
  case None
  then show ?thesis using add_all_eq [OF tree_of_empty, of cms] by simp
next
  case (Some t)
  then have "length cms \<le> 2 ^ IncMerkleTreeHeight" "tree_of t (map copy32 cms)"
    using add_all_eq [OF tree_of_empty, of cms] by auto
  then show ?thesis using Some GetRoot_eq [of t "map copy32 cms" IncMerkleTreeHeight]
    by (auto simp: IncMerkleTreeHeight_def)
qed

text \<open>Claim C1 (functional): when every input note's commitment occurs exactly once in the
  commitment list, \<open>BuildWitnessPath\<close> succeeds, returns the root of the full tree, changes only
  the \<open>WitnessPath\<close> of the notes, and every path authenticates its note's commitment at its
  position under that root - except for the last commitment of a list of odd length, whose path
  leads to the root of a tree with one more leaf.\<close>

theorem BuildWitnessPath_correct:
  assumes "inps \<noteq> []" and "length cms \<le> 2 ^ IncMerkleTreeHeight"
    and "\<forall>inp \<in> set inps. count_list cms (note_cm inp) = 1"
  shows "\<exists>root inps'. BuildWitnessPath inps cms = Ok (root, inps') \<and>
    root = padded_root combineAndHash uncommittedNodeHash IncMerkleTreeHeight (map copy32 cms) \<and>
    list_all2 (\<lambda>inp inp'. \<exists>path. inp' = inp\<lparr>WitnessPath := Some path\<rparr> \<and>
      authenticates path cms (note_cm inp)
        (if odd (length cms) \<and> note_cm inp = last cms
         then padded_root combineAndHash uncommittedNodeHash IncMerkleTreeHeight
           (map copy32 cms @ [combineAndHash uncommittedNodeHash uncommittedNodeHash])
         else root)) inps inps'"
proof -
  have "\<forall>inp \<in> set inps. note_cm inp \<in> set cms"
    using assms(3) by (metis count_list_0_iff zero_neq_one)
  moreover obtain ws where ws: "list_all2 (tracks 0 cms) inps ws"
    "BuildWitnessPath inps cms = and_then (set_paths inps ws)
        (\<lambda>inps'. if inps' = [] then Panic else Ok (troot IncMerkleTreeHeight (map copy32 cms), inps'))"
    using BuildWitnessPath_loop [OF assms(2), of inps] assms(3) by (auto split: if_splits)
  ultimately obtain inps' where s: "set_paths inps ws = Ok inps'"
    and p: "list_all2 (\<lambda>inp inp'. \<exists>path. inp' = inp\<lparr>WitnessPath := Some path\<rparr> \<and>
       authenticates path cms (note_cm inp)
         (troot IncMerkleTreeHeight (if odd (length cms) \<and> note_cm inp = last cms
           then map copy32 cms @ [combineAndHash uncommittedNodeHash uncommittedNodeHash]
           else map copy32 cms))) inps inps'"
    using set_paths_eq [OF ws(1) _ assms(2)] by blast
  have ne: "inps' \<noteq> []" using p assms(1) by auto
  have "list_all2 (\<lambda>inp inp'. \<exists>path. inp' = inp\<lparr>WitnessPath := Some path\<rparr> \<and>
      authenticates path cms (note_cm inp)
        (if odd (length cms) \<and> note_cm inp = last cms
         then troot IncMerkleTreeHeight (map copy32 cms @ [combineAndHash uncommittedNodeHash uncommittedNodeHash])
         else troot IncMerkleTreeHeight (map copy32 cms))) inps inps'"
    using p by (rule list_all2_mono) (simp add: if_distrib cong: if_cong)
  then show ?thesis using ws(2) s ne by auto
qed

definition example_input :: "bytes \<Rightarrow> JSInput" where
  "example_input cm = \<lparr>WitnessPath = None, Key = None,
     InputNote = \<lparr>Value = 0, Apk = [], Rho = [], R_rand = [], Nf = [], Cm = cm, Memo = []\<rparr>\<rparr>"

theorem BuildWitnessPath_correct_witness:
  "\<exists>root inps'. BuildWitnessPath [example_input (replicate 32 1)] [replicate 32 1, replicate 32 2] = Ok (root, inps') \<and>
    root = padded_root combineAndHash uncommittedNodeHash IncMerkleTreeHeight
      (map copy32 [replicate 32 1, replicate 32 2]) \<and>
    list_all2 (\<lambda>inp inp'. \<exists>path. inp' = inp\<lparr>WitnessPath := Some path\<rparr> \<and>
      authenticates path [replicate 32 1, replicate 32 2] (note_cm inp)
        (if odd (length [replicate 32 1, replicate 32 2 :: bytes]) \<and> note_cm inp = last [replicate 32 1, replicate 32 2]
         then padded_root combineAndHash uncommittedNodeHash IncMerkleTreeHeight
           (map copy32 [replicate 32 1, replicate 32 2] @ [combineAndHash uncommittedNodeHash uncommittedNodeHash])
         else root)) [example_input (replicate 32 1)] inps'"
proof (rule BuildWitnessPath_correct)
  show "[example_input (replicate 32 1)] \<noteq> []" by simp
  show "length [replicate 32 1, replicate 32 2 :: bytes] \<le> 2 ^ IncMerkleTreeHeight"
    by (simp add: IncMerkleTreeHeight_def)
  show "\<forall>inp \<in> set [example_input (replicate 32 1)].
      count_list [replicate 32 1, replicate 32 2] (note_cm inp) = 1"
    by (simp add: example_input_def replicate_eq_replicate)
qed

text \<open>On at most \<open>2^29\<close> commitments, \<open>BuildWitnessPath\<close> returns the duplicate
  error exactly when some note's commitment occurs more than once, otherwise the missing error
  for a commitment that does not occur, and otherwise panics exactly when there are no notes (the
  trailing print reads \<open>notes[0]\<close>).\<close>

theorem BuildWitnessPath_errors:
  assumes "length cms \<le> 2 ^ IncMerkleTreeHeight"
  shows "if \<exists>inp \<in> set inps. 1 < count_list cms (note_cm inp)
     then BuildWitnessPath inps cms = Err DuplicateCommitments
     else if \<exists>inp \<in> set inps. note_cm inp \<notin> set cms
     then \<exists>c. BuildWitnessPath inps cms = Err (CommitmentNotExisted c) \<and> c \<notin> set cms
     else BuildWitnessPath inps cms = Panic \<longleftrightarrow> inps = []"
proof (cases "\<exists>inp \<in> set inps. 1 < count_list cms (note_cm inp)")
  case True
  then show ?thesis using BuildWitnessPath_loop [OF assms, of inps] by simp
next
  case False
  then obtain ws where ws: "list_all2 (tracks 0 cms) inps ws"
    "BuildWitnessPath inps cms = and_then (set_paths inps ws)
        (\<lambda>inps'. if inps' = [] then Panic else Ok (troot IncMerkleTreeHeight (map copy32 cms), inps'))"
    using BuildWitnessPath_loop [OF assms, of inps] by (auto split: if_splits)
  show ?thesis
  proof (cases "\<exists>inp \<in> set inps. note_cm inp \<notin> set cms")
    case True
    then show ?thesis using set_paths_missing [OF ws(1)] ws(2) False by auto
  next
    case no_missing: False
    then obtain inps' where "set_paths inps ws = Ok inps'" "length inps = length inps'"
      using set_paths_eq [OF ws(1) _ assms] by (auto dest: list_all2_lengthD)
    then show ?thesis using ws(2) False no_missing by auto
  qed
qed

theorem BuildWitnessPath_errors_witness:
  "BuildWitnessPath [example_input [1]] [[1], [1]] = Err DuplicateCommitments \<and>
   (\<exists>c. BuildWitnessPath [example_input [1]] [[2]] = Err (CommitmentNotExisted c) \<and> c \<notin> set [[2]]) \<and>
   BuildWitnessPath [] [[2]] = Panic"
  using BuildWitnessPath_errors [of "[[1], [1]]" "[example_input [1]]"]
    BuildWitnessPath_errors [of "[[2]]" "[example_input [1]]"] BuildWitnessPath_errors [of "[[2]]" "[]"]
  by (simp add: IncMerkleTreeHeight_def example_input_def)

text \<open>Claim C20 (safety): authentication is sound. Let a path of 29 sibling hashes lead from a hash \<open>x\<close> to
  the root of the tree, and let its direction bits spell a position. If the position is that of a commitment, \<open>x\<close> is
  this commitment; if it lies beyond the last commitment, \<open>x\<close> is the padding hash of an uncommitted
  leaf, for which such paths exist; or else two different 64-byte messages, one hashed along the path and one in
  the tree, collide.\<close>

theorem merkle_path_sound:
  assumes "add_all empty_tree cms = Some t" and "is_hash x"
    and "list_all is_hash auth" and "length auth = IncMerkleTreeHeight" and "length idx = IncMerkleTreeHeight"
    and "path_root combineAndHash x (zip auth idx) = GetRoot t IncMerkleTreeHeight"
  shows "x = (if path_index idx < length cms then copy32 (cms ! path_index idx) else uncommittedNodeHash) \<or>
    collide (\<lambda>m. the (Sum256NoPad m)) (path_msgs combineAndHash (@) x (zip auth idx))
      (padded_msgs combineAndHash (@) uncommittedNodeHash IncMerkleTreeHeight (map copy32 cms))"
proof -
  have t: "length cms \<le> 2 ^ IncMerkleTreeHeight" "tree_of t (map copy32 cms)"
    using add_all_eq [OF tree_of_empty, of cms] assms(1) by auto
  have "GetRoot t IncMerkleTreeHeight = troot IncMerkleTreeHeight (map copy32 cms)"
    using t by (intro GetRoot_eq) (auto simp: IncMerkleTreeHeight_def)
  moreover have "list_all (\<lambda>(a, _). is_hash a) (zip auth idx)"
    using assms(3) by (auto simp: list_all_iff dest: set_zip_leftD)
  moreover have "length (zip auth idx) = IncMerkleTreeHeight" "map snd (zip auth idx) = idx"
    using assms(4,5) by simp_all
  moreover have "list_all is_hash (map copy32 cms)" by (simp add: list_all_iff)
  ultimately show ?thesis
    using inc_tree.path_sound [of uncommittedNodeHash "map copy32 cms" x "zip auth idx"] assms(2,6) t(1)
    by (auto simp: nth_map split: if_splits)
qed

theorem merkle_path_sound_witness:
  "\<exists>t auth idx. add_all empty_tree [replicate 32 1, replicate 32 2] = Some t \<and>
    path_root combineAndHash (replicate 32 1) (zip auth idx) = GetRoot t IncMerkleTreeHeight \<and>
    (replicate 32 1 = (if path_index idx < length [replicate 32 1, replicate 32 2 :: bytes]
       then copy32 ([replicate 32 1, replicate 32 2] ! path_index idx) else uncommittedNodeHash) \<or>
     collide (\<lambda>m. the (Sum256NoPad m)) (path_msgs combineAndHash (@) (replicate 32 1) (zip auth idx))
      (padded_msgs combineAndHash (@) uncommittedNodeHash IncMerkleTreeHeight
        (map copy32 [replicate 32 1, replicate 32 2])))"
proof -
  let ?c = "[replicate 32 1, replicate 32 2] :: bytes list" and ?x = "replicate 32 1 :: bytes"
  obtain t where t: "add_all empty_tree ?c = Some t"
    by (simp add: AddNewNode_def empty_tree_def)
  have tr: "tree_of t (map copy32 ?c)" using add_all_eq [OF tree_of_empty, of ?c] t by auto
  let ?auth = "replicate 32 2 # map (\<lambda>i. troot i []) [1..<29]" and ?idx = "False # replicate 28 False"
  have "path_root combineAndHash (troot (Suc i) (map copy32 ?c)) (zip (map (\<lambda>i. troot i []) [Suc i..<Suc i + n])
      (replicate n False)) = troot (Suc i + n) (map copy32 ?c)" for i n
  proof (induction n arbitrary: i)
    case (Suc n)
    have "(1 :: nat) \<le> 2 ^ i" by simp
    then have "length (map copy32 ?c) \<le> 2 ^ Suc i" by (simp only: length_map list.size power_Suc)
    from padded_root_extend [OF this] Suc [of "Suc i"] show ?case
      by (simp add: upt_conv_Cons del: padded_root.simps upt_Suc)
  qed simp
  from this [of 0 28] have p: "path_root combineAndHash ?x (zip ?auth ?idx) = GetRoot t IncMerkleTreeHeight"
    using GetRoot_eq [OF tr, of IncMerkleTreeHeight] by (simp add: IncMerkleTreeHeight_def)
  have h: "is_hash ?x" "list_all is_hash ?auth" "length ?auth = IncMerkleTreeHeight"
    "length ?idx = IncMerkleTreeHeight"
    using inc_tree.padded_root_ok [of uncommittedNodeHash "[]", OF is_hash_uncommitted]
    by (auto simp: is_hash_def IncMerkleTreeHeight_def list_all_iff simp del: padded_root.simps)
  show ?thesis
    using merkle_path_sound [OF t h p] t p by blast
qed

end
