(* ===== verification/FeeEstimator.thy ===== *)
theory FeeEstimator
  imports Common "HOL-Library.Multiset"
begin

text \<open>
  The fee estimator of the mempool (\<open>mempool/estimatefee.go\<close>): observed transactions, the bins of
  confirmed transactions by blocks-to-confirm, the history of dropped transactions that a rollback
  restores, and the estimates. The Go objects \<open>*observedTransaction\<close> are shared between the map,
  the bins and the history, so they live in an explicit store \<open>ef_heap\<close>; a pointer is an index
  into it, and allocation appends. Heights are \<open>int32\<close>.

  Go's map iteration and \<open>rand.Intn\<close> are arguments: the transactions of a block are given in the
  order in which the map of them is visited, and \<open>rnd k mod l\<close> is the \<open>k\<close>-th random number below
  \<open>l\<close>. A mutex guards every exported operation, so each is one step.
\<close>

subsection \<open>Data\<close>

definition estimateFeeDepth :: nat where "estimateFeeDepth = 25"
definition estimateFeeBinSize :: int where "estimateFeeBinSize = 100"
definition estimateFeeMaxReplacements :: int where "estimateFeeMaxReplacements = 10"
definition UnminedHeight :: int where "UnminedHeight = 0x7fffffff"

record observedTransaction =
  ot_hash :: hash
  ot_feeRate :: u64
  ot_observed :: int
  ot_mined :: int

record registeredBlock =
  rb_hash :: hash
  rb_transactions :: "nat list"

record FeeEstimator =
  ef_heap :: "observedTransaction list"
  maxRollback :: u32
  binSize :: int
  maxReplacements :: int
  minRegisteredBlocks :: u32
  lastKnownHeight :: int
  numBlocksRegistered :: u32
  ef_observed :: "hash \<rightharpoonup> nat"
  ef_bin :: "nat list list"
  cached :: "u64 list option"
  dropped :: "registeredBlock list"

datatype fee_error = IntermediateBlock | AlreadyMined | NoSuchBlock | NotEnoughBlocks | ZeroBlocks | TooManyBlocks

definition NewFeeEstimator :: "u32 \<Rightarrow> u32 \<Rightarrow> FeeEstimator" where
  "NewFeeEstimator mr mb =
     \<lparr>ef_heap = [], maxRollback = mr, binSize = estimateFeeBinSize,
      maxReplacements = estimateFeeMaxReplacements, minRegisteredBlocks = mb,
      lastKnownHeight = UnminedHeight, numBlocksRegistered = 0, ef_observed = Map.empty,
      ef_bin = replicate estimateFeeDepth [], cached = None, dropped = []\<rparr>"

subsection \<open>Observing transactions and registering blocks\<close>

text \<open>\<open>CoinPerKilobyte(float64(fee) / float64(size))\<close>: the quotient rounded down, which the
  \<open>float64\<close> computation gives exactly for a positive size and amounts below \<open>2^53\<close>.\<close>

definition NewCoinPerKilobyte :: "u64 \<Rightarrow> u64 \<Rightarrow> u64" where
  "NewCoinPerKilobyte fee sz = fee div sz"

text \<open>The argument is the hash, virtual size, fee and height of the \<open>TxDesc\<close>.\<close>

definition ObserveTransaction :: "FeeEstimator \<Rightarrow> hash \<Rightarrow> u64 \<Rightarrow> u64 \<Rightarrow> int \<Rightarrow> FeeEstimator" where
  "ObserveTransaction ef h sz fee height =
     (if lastKnownHeight ef = UnminedHeight then ef
      else case ef_observed ef h of
             Some _ \<Rightarrow> ef
           | None \<Rightarrow>
               ef\<lparr>ef_heap := ef_heap ef @ [\<lparr>ot_hash = h, ot_feeRate = NewCoinPerKilobyte fee sz,
                    ot_observed = height, ot_mined = UnminedHeight\<rparr>],
                  ef_observed := (ef_observed ef)(h \<mapsto> length (ef_heap ef))\<rparr>)"

text \<open>The body of the loop over the transactions of a block. The state is the estimator, the
  replacement counts and the dropped transactions; \<open>Err\<close> carries the estimator at the early
  return.\<close>

type_synonym reg_state = "FeeEstimator \<times> nat list \<times> nat list"

definition reg_step :: "int \<Rightarrow> (nat \<Rightarrow> nat) \<Rightarrow> hash \<Rightarrow> reg_state \<Rightarrow> (FeeEstimator, reg_state) res" where
  "reg_step height rnd h s = (case s of (ef, counts, drops) \<Rightarrow>
     (case ef_observed ef h of
        None \<Rightarrow> Ok s
      | Some a \<Rightarrow>
         (let o1 = ef_heap ef ! a;
              btc = wrap32 (height - ot_observed o1 - 1)
          in if ot_mined o1 \<noteq> UnminedHeight then Err ef
             else if btc \<ge> int estimateFeeDepth then Ok s
             else if btc < 0 then Panic
             else let b = nat btc
                  in if int (counts ! b) = maxReplacements ef then Ok s
                     else let counts' = counts[b := counts ! b + 1];
                              heap' = (ef_heap ef)[a := o1\<lparr>ot_mined := height\<rparr>];
                              bin = ef_bin ef ! b
                          in if int (length bin) = binSize ef
                             then if binSize ef - int (counts' ! b) \<le> 0 then Panic
                                  else let l = nat (binSize ef) - counts' ! b;
                                           d = rnd (length drops) mod l;
                                           bin' = (bin[d := bin ! (l - 1)])[l - 1 := a]
                                       in Ok (ef\<lparr>ef_heap := heap', ef_bin := (ef_bin ef)[b := bin']\<rparr>,
                                              counts', drops @ [bin ! d])
                             else Ok (ef\<lparr>ef_heap := heap', ef_bin := (ef_bin ef)[b := bin @ [a]]\<rparr>,
                                      counts', drops))))"

fun reg_loop :: "int \<Rightarrow> (nat \<Rightarrow> nat) \<Rightarrow> hash list \<Rightarrow> reg_state \<Rightarrow> (FeeEstimator, reg_state) res" where
  "reg_loop height rnd [] s = Ok s"
| "reg_loop height rnd (h # hs) s = and_then (reg_step height rnd h s) (\<lambda>s'. reg_loop height rnd hs s')"

text \<open>The loop that deletes transactions observed too long ago.\<close>

definition purge_observed :: "int \<Rightarrow> FeeEstimator \<Rightarrow> hash \<rightharpoonup> nat" where
  "purge_observed height ef =
     (\<lambda>h. case ef_observed ef h of
            None \<Rightarrow> None
          | Some a \<Rightarrow>
              if ot_mined (ef_heap ef ! a) = UnminedHeight
                 \<and> wrap32 (height - ot_observed (ef_heap ef ! a)) \<ge> int estimateFeeDepth
              then None else Some a)"

text \<open>\<open>RegisterBlock\<close> on a block of height \<open>height\<close> and hash \<open>bhash\<close> whose normal and salary
  transactions have the hashes \<open>txs\<close>, in visiting order. The result is the error, if any, and the
  estimator; \<open>None\<close> is a panic.\<close>

definition RegisterBlock :: "(nat \<Rightarrow> nat) \<Rightarrow> FeeEstimator \<Rightarrow> int \<Rightarrow> hash \<Rightarrow> hash list \<Rightarrow>
    (fee_error option \<times> FeeEstimator) option" where
  "RegisterBlock rnd ef height bhash txs =
     (let ef0 = ef\<lparr>cached := None\<rparr>
      in if height \<noteq> wrap32 (lastKnownHeight ef0 + 1) \<and> lastKnownHeight ef0 \<noteq> UnminedHeight
         then Some (Some IntermediateBlock, ef0)
         else let ef1 = ef0\<lparr>lastKnownHeight := height,
                            numBlocksRegistered := numBlocksRegistered ef0 + 1\<rparr>
              in case reg_loop height rnd txs (ef1, replicate estimateFeeDepth 0, []) of
                   Panic \<Rightarrow> None
                 | Err ef2 \<Rightarrow> Some (Some AlreadyMined, ef2)
                 | Ok (ef2, counts, drops) \<Rightarrow>
                     let ef3 = ef2\<lparr>ef_observed := purge_observed height ef2\<rparr>;
                         block = \<lparr>rb_hash = bhash, rb_transactions = drops\<rparr>
                     in if maxRollback ef3 = 0 then Some (None, ef3)
                        else if of_nat (length (dropped ef3)) = maxRollback ef3
                        then Some (None, ef3\<lparr>dropped := tl (dropped ef3) @ [block]\<rparr>)
                        else Some (None, ef3\<lparr>dropped := dropped ef3 @ [block]\<rparr>))"

subsection \<open>Rolling back\<close>

text \<open>The inner \<open>for\<close> of \<open>rollback\<close>: the next transaction of the bin mined at the last known
  height, from \<open>counter\<close> on, makes place for the dropped one; \<open>None\<close> is the panic.\<close>

function rollback_place :: "int \<Rightarrow> observedTransaction list \<Rightarrow> nat list \<Rightarrow> nat \<Rightarrow> nat \<Rightarrow>
    (observedTransaction list \<times> nat list \<times> nat) option" where
  "rollback_place lkh heap bin counter a =
     (if counter \<ge> length bin then None
      else let prev = bin ! counter
           in if ot_mined (heap ! prev) = lkh
              then Some (heap[prev := (heap ! prev)\<lparr>ot_mined := UnminedHeight\<rparr>], bin[counter := a], counter + 1)
              else rollback_place lkh heap bin (counter + 1) a)"
  by pat_completeness auto
termination
  by (relation "measure (\<lambda>(lkh, heap, bin, counter, a). length bin - counter)") auto

declare rollback_place.simps [simp del]

fun rollback_dropped :: "int \<Rightarrow> nat list \<Rightarrow> observedTransaction list \<times> nat list list \<times> nat list \<Rightarrow>
    (observedTransaction list \<times> nat list list \<times> nat list) option" where
  "rollback_dropped lkh [] s = Some s"
| "rollback_dropped lkh (a # as) (heap, bins, counters) =
     (let btc = wrap32 (ot_mined (heap ! a) - ot_observed (heap ! a) - 1)
      in if btc < 0 \<or> btc \<ge> int estimateFeeDepth then None
         else let b = nat btc
              in case rollback_place lkh heap (bins ! b) (counters ! b) a of
                   None \<Rightarrow> None
                 | Some (heap', bin', c') \<Rightarrow>
                     rollback_dropped lkh as (heap', bins[b := bin'], counters[b := c']))"

function rollback_sweep :: "int \<Rightarrow> observedTransaction list \<Rightarrow> nat list \<Rightarrow> nat \<Rightarrow>
    observedTransaction list \<times> nat list" where
  "rollback_sweep lkh heap bin j =
     (if j \<ge> length bin then (heap, bin)
      else let prev = bin ! j
           in if ot_mined (heap ! prev) = lkh
              then rollback_sweep lkh (heap[prev := (heap ! prev)\<lparr>ot_mined := UnminedHeight\<rparr>])
                     (take j bin @ drop (j + 1) bin) j
              else rollback_sweep lkh heap bin (j + 1))"
  by pat_completeness auto
termination
  by (relation "measure (\<lambda>(lkh, heap, bin, j). length bin - j)") auto

declare rollback_sweep.simps [simp del]

fun rollback_bins :: "int \<Rightarrow> observedTransaction list \<Rightarrow> nat list list \<Rightarrow> nat list \<Rightarrow>
    observedTransaction list \<times> nat list list" where
  "rollback_bins lkh heap (bin # bins) (j # js) =
     (let (heap1, bin') = rollback_sweep lkh heap bin j;
          (heap2, bins') = rollback_bins lkh heap1 bins js
      in (heap2, bin' # bins'))"
| "rollback_bins lkh heap bins _ = (heap, bins)"

definition rollback :: "FeeEstimator \<Rightarrow> FeeEstimator option" where
  "rollback ef =
     (if dropped ef = [] then Some (ef\<lparr>cached := None\<rparr>)
      else case rollback_dropped (lastKnownHeight ef) (rb_transactions (last (dropped ef)))
                  (ef_heap ef, ef_bin ef, replicate estimateFeeDepth 0) of
             None \<Rightarrow> None
           | Some (heap, bins, counters) \<Rightarrow>
               let (heap', bins') = rollback_bins (lastKnownHeight ef) heap bins counters
               in Some (ef\<lparr>cached := None, ef_heap := heap', ef_bin := bins',
                           dropped := butlast (dropped ef),
                           numBlocksRegistered := numBlocksRegistered ef - 1,
                           lastKnownHeight := wrap32 (lastKnownHeight ef - 1)\<rparr>))"

fun rollback_n :: "nat \<Rightarrow> FeeEstimator \<Rightarrow> FeeEstimator option" where
  "rollback_n 0 ef = Some ef"
| "rollback_n (Suc n) ef = (case rollback ef of None \<Rightarrow> None | Some ef' \<Rightarrow> rollback_n n ef')"

text \<open>The search for the block from the newest entry of the history backwards: the number of
  blocks to roll back.\<close>

fun find_block :: "hash \<Rightarrow> registeredBlock list \<Rightarrow> nat \<Rightarrow> nat option" where
  "find_block h [] n = None"
| "find_block h (b # bs) n = (if rb_hash b = h then Some n else find_block h bs (n + 1))"

definition Rollback :: "FeeEstimator \<Rightarrow> hash \<Rightarrow> (fee_error option \<times> FeeEstimator) option" where
  "Rollback ef h =
     (case find_block h (rev (dropped ef)) 1 of
        None \<Rightarrow> Some (Some NoSuchBlock, ef)
      | Some n \<Rightarrow> (case rollback_n n ef of None \<Rightarrow> None | Some ef' \<Rightarrow> Some (None, ef')))"

subsection \<open>Estimating\<close>

record estimateFeeSet =
  set_feeRate :: "u64 list"
  set_bin :: "u32 list"

text \<open>\<open>CoinPerKilobyte(math.Inf(1))\<close> is implementation-defined; amd64 converts to \<open>2^63\<close>.\<close>

definition coin_inf :: u64 where
  "coin_inf = 2 ^ 63"

definition estimateFee :: "estimateFeeSet \<Rightarrow> int \<Rightarrow> u64" where
  "estimateFee b confirmations =
     (if confirmations \<le> 0 then coin_inf
      else if confirmations > int estimateFeeDepth then 0
      else if length (set_feeRate b) = 0 then 0
      else let c = nat confirmations;
               mn = (\<Sum>i \<leftarrow> [0..<c - 1]. uint (set_bin b ! i));
               mx = mn + uint (set_bin b ! (c - 1)) - 1;
               mx' = (if mx < mn then mn else mx);
               feeIndex = (mn + mx') div 2;
               feeIndex' = (if feeIndex \<ge> int (length (set_feeRate b))
                            then int (length (set_feeRate b)) - 1 else feeIndex)
           in set_feeRate b ! nat feeIndex')"

definition newEstimateFeeSet :: "FeeEstimator \<Rightarrow> estimateFeeSet" where
  "newEstimateFeeSet ef =
     \<lparr>set_feeRate = rev (sort (map (\<lambda>a. ot_feeRate (ef_heap ef ! a)) (concat (ef_bin ef)))),
      set_bin = map (\<lambda>b. of_nat (length b)) (ef_bin ef)\<rparr>"

definition estimates :: "FeeEstimator \<Rightarrow> u64 list" where
  "estimates ef =
     (let s = newEstimateFeeSet ef in map (\<lambda>i. estimateFee s (int i + 1)) [0..<estimateFeeDepth])"

definition EstimateFee :: "FeeEstimator \<Rightarrow> u32 \<Rightarrow> (fee_error, u64) res \<times> FeeEstimator" where
  "EstimateFee ef numBlocks =
     (if numBlocksRegistered ef < minRegisteredBlocks ef then (Err NotEnoughBlocks, ef)
      else if numBlocks = 0 then (Err ZeroBlocks, ef)
      else if numBlocks > of_nat estimateFeeDepth then (Err TooManyBlocks, ef)
      else let ef' = (case cached ef of None \<Rightarrow> ef\<lparr>cached := Some (estimates ef)\<rparr> | Some _ \<Rightarrow> ef)
           in (Ok (the (cached ef') ! (unat numBlocks - 1)), ef'))"

subsection \<open>Estimates\<close>

lemma rev_sorted_antimono:
  fixes xs :: "'a :: linorder list"
  shows "i \<le> j \<Longrightarrow> j < length xs \<Longrightarrow> rev (sort xs) ! j \<le> rev (sort xs) ! i"
  by (simp add: rev_nth sorted_nth_mono)

text \<open>The index into the sorted rates that \<open>estimateFee\<close> reads for \<open>c\<close> confirmations.\<close>

definition fee_index :: "estimateFeeSet \<Rightarrow> nat \<Rightarrow> int" where
  "fee_index b c = (let mn = (\<Sum>i \<leftarrow> [0..<c - 1]. uint (set_bin b ! i));
      mx = mn + uint (set_bin b ! (c - 1)) - 1;
      mx' = (if mx < mn then mn else mx);
      fi = (mn + mx') div 2
    in if fi \<ge> int (length (set_feeRate b)) then int (length (set_feeRate b)) - 1 else fi)"

lemma estimateFee_index:
  "1 \<le> c \<Longrightarrow> c \<le> estimateFeeDepth \<Longrightarrow> set_feeRate b \<noteq> [] \<Longrightarrow>
   estimateFee b (int c) = set_feeRate b ! nat (fee_index b c)"
  by (simp add: estimateFee_def fee_index_def Let_def)

lemma sum_bins_nonneg: "0 \<le> (\<Sum>i \<leftarrow> xs. uint (f i :: u32))"
  by (induction xs) auto

lemma fee_index_bounds:
  assumes "set_feeRate b \<noteq> []"
  shows "0 \<le> fee_index b c \<and> fee_index b c < int (length (set_feeRate b))"
  using assms sum_bins_nonneg [of "\<lambda>i. set_bin b ! i" "[0..<c - 1]"]
  by (auto simp: fee_index_def Let_def Suc_le_eq simp flip: length_greater_0_conv)

lemma fee_index_mono_step:
  assumes "1 \<le> c"
  shows "fee_index b c \<le> fee_index b (Suc c)"
proof -
  let ?mn = "(\<Sum>i \<leftarrow> [0..<c - 1]. uint (set_bin b ! i))"
  have "[0..<c] = [0..<c - 1] @ [c - 1]" using assms by (metis le_add_diff_inverse2 upt_Suc_append zero_le Suc_eq_plus1)
  then have s: "(\<Sum>i \<leftarrow> [0..<c]. uint (set_bin b ! i)) = ?mn + uint (set_bin b ! (c - 1))" by simp
  have u: "0 \<le> uint (set_bin b ! (c - 1))" "0 \<le> uint (set_bin b ! c)" by simp_all
  show ?thesis
    unfolding fee_index_def Let_def diff_Suc_1 s using u by (auto simp: add_mono zdiv_mono1)
qed

lemma fee_index_mono: "1 \<le> c \<Longrightarrow> c \<le> d \<Longrightarrow> fee_index b c \<le> fee_index b d"
proof (induction d)
  case (Suc d)
  then show ?case using fee_index_mono_step [of d b] by (cases "c = Suc d") auto
qed simp

lemma estimateFee_antimono:
  assumes "1 \<le> c" "c \<le> d" "d \<le> estimateFeeDepth"
  shows "estimateFee (newEstimateFeeSet ef) (int d) \<le> estimateFee (newEstimateFeeSet ef) (int c)"
proof (cases "set_feeRate (newEstimateFeeSet ef) = []")
  case True
  then show ?thesis using assms by (simp add: estimateFee_def)
next
  case False
  let ?b = "newEstimateFeeSet ef"
  have "nat (fee_index ?b c) \<le> nat (fee_index ?b d)" "nat (fee_index ?b d) < length (set_feeRate ?b)"
    using fee_index_mono [OF assms(1,2)] fee_index_bounds [OF False] by (auto simp: nat_le_iff nat_less_iff)
  moreover obtain rs where "set_feeRate ?b = rev (sort rs)" by (simp add: newEstimateFeeSet_def)
  ultimately have "set_feeRate ?b ! nat (fee_index ?b d) \<le> set_feeRate ?b ! nat (fee_index ?b c)"
    using rev_sorted_antimono [of _ _ rs] by simp
  then show ?thesis using assms False by (simp add: estimateFee_index)
qed

lemma estimates_nth: "i < estimateFeeDepth \<Longrightarrow> estimates ef ! i = estimateFee (newEstimateFeeSet ef) (int (Suc i))"
  by (simp add: estimates_def Let_def add.commute)

lemma estimateFee_observed:
  assumes "1 \<le> c" "c \<le> estimateFeeDepth"
  shows "estimateFee (newEstimateFeeSet ef) (int c) \<in> {0} \<union> (\<lambda>a. ot_feeRate (ef_heap ef ! a)) ` set (concat (ef_bin ef))"
proof (cases "set_feeRate (newEstimateFeeSet ef) = []")
  case False
  let ?b = "newEstimateFeeSet ef"
  have "nat (fee_index ?b c) < length (set_feeRate ?b)"
    using fee_index_bounds [OF False] by (simp add: nat_less_iff)
  then have "set_feeRate ?b ! nat (fee_index ?b c) \<in> set (set_feeRate ?b)" by (rule nth_mem)
  then show ?thesis using assms False by (auto simp: estimateFee_index newEstimateFeeSet_def)
qed (use assms in \<open>simp add: estimateFee_def\<close>)

subsection \<open>The invariant\<close>

definition btc_at :: "int \<Rightarrow> observedTransaction list \<Rightarrow> nat \<Rightarrow> int" where
  "btc_at h heap a = wrap32 (h - ot_observed (heap ! a) - 1)"

text \<open>The 25 bins are not overfull, hold mined transactions of the store, each in the bin of the
  number of blocks it took, mined no later than the last registered block; the map leads to
  transactions of the store.\<close>

definition fe_ok :: "FeeEstimator \<Rightarrow> bool" where
  "fe_ok ef \<longleftrightarrow> length (ef_bin ef) = estimateFeeDepth \<and>
     - (2 ^ 31) \<le> lastKnownHeight ef \<and> lastKnownHeight ef \<le> UnminedHeight \<and>
     (\<forall>i < estimateFeeDepth. int (length (ef_bin ef ! i)) \<le> binSize ef \<and>
        (\<forall>a \<in> set (ef_bin ef ! i). a < length (ef_heap ef) \<and>
           ot_mined (ef_heap ef ! a) \<noteq> UnminedHeight \<and> lastKnownHeight ef \<noteq> UnminedHeight \<and>
           ot_mined (ef_heap ef ! a) \<le> lastKnownHeight ef \<and>
           btc_at (ot_mined (ef_heap ef ! a)) (ef_heap ef) a = int i)) \<and>
     (\<forall>h a. ef_observed ef h = Some a \<longrightarrow> a < length (ef_heap ef) \<and> ot_hash (ef_heap ef ! a) = h)"

lemma fe_okD:
  assumes "fe_ok ef" "i < estimateFeeDepth" "a \<in> set (ef_bin ef ! i)"
  shows "a < length (ef_heap ef)" "ot_mined (ef_heap ef ! a) \<noteq> UnminedHeight"
    "lastKnownHeight ef \<noteq> UnminedHeight" "ot_mined (ef_heap ef ! a) \<le> lastKnownHeight ef"
    "btc_at (ot_mined (ef_heap ef ! a)) (ef_heap ef) a = int i"
  using assms by (auto simp: fe_ok_def)

lemma fe_ok_New: "fe_ok (NewFeeEstimator mr mb)"
  by (simp add: fe_ok_def NewFeeEstimator_def estimateFeeBinSize_def UnminedHeight_def)

lemma fe_ok_Observe:
  assumes "fe_ok ef"
  shows "fe_ok (ObserveTransaction ef h sz fee height)"
  using assms
  by (auto simp: fe_ok_def ObserveTransaction_def btc_at_def nth_append less_SucI split: option.splits)

subsection \<open>Registering\<close>

text \<open>The loop over the block's transactions: \<open>added\<close> are the transactions mined by it so far. The
  bins lose the dropped and gain the added ones, and the most recent additions are at the end of
  each bin, out of reach of the random choice.\<close>

definition same_params :: "FeeEstimator \<Rightarrow> FeeEstimator \<Rightarrow> bool" where
  "same_params ef0 ef \<longleftrightarrow> ef = ef0\<lparr>ef_heap := ef_heap ef, ef_bin := ef_bin ef\<rparr>"

lemma same_paramsD:
  assumes "same_params ef0 ef"
  shows "binSize ef = binSize ef0" "maxReplacements ef = maxReplacements ef0"
    "ef_observed ef = ef_observed ef0" "lastKnownHeight ef = lastKnownHeight ef0"
    "dropped ef = dropped ef0" "maxRollback ef = maxRollback ef0"
    "numBlocksRegistered ef = numBlocksRegistered ef0" "minRegisteredBlocks ef = minRegisteredBlocks ef0"
    "cached ef = cached ef0"
  by (subst assms [unfolded same_params_def], simp)+

lemma same_params_update:
  "same_params ef0 ef \<Longrightarrow> same_params ef0 (ef\<lparr>ef_heap := h, ef_bin := b\<rparr>)"
  unfolding same_params_def by (erule ssubst) simp

definition reg_inv :: "FeeEstimator \<Rightarrow> int \<Rightarrow> nat list \<Rightarrow> FeeEstimator \<Rightarrow> nat list \<Rightarrow> nat list \<Rightarrow> bool" where
  "reg_inv ef0 H added ef counts drops \<longleftrightarrow>
     same_params ef0 ef \<and> length (ef_bin ef) = estimateFeeDepth \<and> length counts = estimateFeeDepth \<and>
     length (ef_heap ef) = length (ef_heap ef0) \<and> distinct added \<and>
     (\<forall>a \<in> set added. a < length (ef_heap ef0) \<and> ot_mined (ef_heap ef0 ! a) = UnminedHeight \<and>
        0 \<le> btc_at H (ef_heap ef0) a \<and> btc_at H (ef_heap ef0) a < int estimateFeeDepth) \<and>
     (\<forall>a < length (ef_heap ef0). ef_heap ef ! a =
        (if a \<in> set added then (ef_heap ef0 ! a)\<lparr>ot_mined := H\<rparr> else ef_heap ef0 ! a)) \<and>
     (\<forall>i < estimateFeeDepth. int (length (ef_bin ef ! i)) \<le> binSize ef0 \<and>
        length (ef_bin ef0 ! i) \<le> length (ef_bin ef ! i) \<and>
        mset (ef_bin ef ! i) + mset (filter (\<lambda>a. btc_at (ot_mined (ef_heap ef0 ! a)) (ef_heap ef0) a = int i) drops)
          = mset (ef_bin ef0 ! i) + mset (filter (\<lambda>a. btc_at H (ef_heap ef0) a = int i) added) \<and>
        (\<forall>p. p + counts ! i + 1 < length (ef_bin ef ! i) \<longrightarrow> ef_bin ef ! i ! p \<notin> set added)) \<and>
     (\<forall>a \<in> set drops. \<exists>i < estimateFeeDepth. a \<in> set (ef_bin ef0 ! i))"

lemma mset_replace:
  assumes "d \<le> k" "k < length xs"
  shows "mset ((xs[d := xs ! k])[k := a]) + {#xs ! d#} = mset xs + {#a#}"
proof -
  let ?ys = "xs[d := xs ! k]"
  have yk: "?ys ! k = xs ! k" using assms by (cases "d = k") auto
  have "mset ?ys = add_mset (xs ! k) (mset xs - {#xs ! d#})" using assms by (simp add: mset_update)
  then have "mset (?ys[k := a]) = add_mset a (mset xs - {#xs ! d#})"
    using assms yk by (simp add: mset_update)
  moreover have "xs ! d \<in># mset xs" using assms by simp
  ultimately show ?thesis by simp
qed

lemma reg_invD:
  assumes "reg_inv ef0 H added ef counts drops"
  shows "same_params ef0 ef" "length (ef_bin ef) = estimateFeeDepth" "length counts = estimateFeeDepth"
    "length (ef_heap ef) = length (ef_heap ef0)" "distinct added"
    "a \<in> set added \<Longrightarrow> a < length (ef_heap ef0) \<and> ot_mined (ef_heap ef0 ! a) = UnminedHeight \<and>
        0 \<le> btc_at H (ef_heap ef0) a \<and> btc_at H (ef_heap ef0) a < int estimateFeeDepth"
    "a < length (ef_heap ef0) \<Longrightarrow> ef_heap ef ! a =
        (if a \<in> set added then (ef_heap ef0 ! a)\<lparr>ot_mined := H\<rparr> else ef_heap ef0 ! a)"
    "i < estimateFeeDepth \<Longrightarrow> int (length (ef_bin ef ! i)) \<le> binSize ef0"
    "i < estimateFeeDepth \<Longrightarrow> length (ef_bin ef0 ! i) \<le> length (ef_bin ef ! i)"
    "i < estimateFeeDepth \<Longrightarrow>
       mset (ef_bin ef ! i) + mset (filter (\<lambda>a. btc_at (ot_mined (ef_heap ef0 ! a)) (ef_heap ef0) a = int i) drops)
          = mset (ef_bin ef0 ! i) + mset (filter (\<lambda>a. btc_at H (ef_heap ef0) a = int i) added)"
    "i < estimateFeeDepth \<Longrightarrow> p + counts ! i + 1 < length (ef_bin ef ! i) \<Longrightarrow> ef_bin ef ! i ! p \<notin> set added"
    "a \<in> set drops \<Longrightarrow> \<exists>i < estimateFeeDepth. a \<in> set (ef_bin ef0 ! i)"
  using assms unfolding reg_inv_def by blast+

lemma reg_inv_old:
  assumes "reg_inv ef0 H added ef counts drops" "i < estimateFeeDepth"
    and "a \<in> set (ef_bin ef ! i)" "a \<notin> set added"
  shows "a \<in> set (ef_bin ef0 ! i)"
proof -
  have "a \<in># mset (ef_bin ef ! i) + mset (filter (\<lambda>a. btc_at (ot_mined (ef_heap ef0 ! a)) (ef_heap ef0) a = int i) drops)"
    using assms(3) by simp
  then show ?thesis unfolding reg_invD(10) [OF assms(1,2)] using assms(4) by auto
qed

lemma reg_inv_start:
  "fe_ok ef0 \<Longrightarrow> reg_inv ef0 H [] ef0 (replicate estimateFeeDepth 0) []"
  by (simp add: reg_inv_def same_params_def fe_ok_def)

text \<open>One transaction that is put into a bin.\<close>

lemma reg_inv_add:
  assumes inv: "reg_inv ef0 H added ef counts drops" and ok: "fe_ok ef0"
    and a: "a < length (ef_heap ef0)" "a \<notin> set added" "ot_mined (ef_heap ef0 ! a) = UnminedHeight"
    and b: "btc_at H (ef_heap ef0) a = int b" "b < estimateFeeDepth"
    and bin': "mset bin' + mset ds = mset (ef_bin ef ! b) + {#a#}" "length (ef_bin ef ! b) \<le> length bin'"
      "int (length bin') \<le> binSize ef0"
      "\<And>p. p + counts ! b + 2 < length bin' \<Longrightarrow>
         bin' ! p \<in> set (ef_bin ef ! b) \<and> bin' ! p \<notin> set added"
    and ds: "set ds \<subseteq> set (ef_bin ef ! b) - set added"
  shows "reg_inv ef0 H (added @ [a])
    (ef\<lparr>ef_heap := (ef_heap ef)[a := (ef_heap ef ! a)\<lparr>ot_mined := H\<rparr>], ef_bin := (ef_bin ef)[b := bin']\<rparr>)
    (counts[b := counts ! b + 1]) (drops @ ds)"
proof -
  note D = reg_invD [OF inv]
  have notold: "x \<noteq> a" if "x \<in> set (ef_bin ef ! i)" "x \<notin> set added" "i < estimateFeeDepth" for x i
    using fe_okD(2) [OF ok that(3) reg_inv_old [OF inv that(3,1,2)]] a(3) by auto
  have dsb: "btc_at (ot_mined (ef_heap ef0 ! x)) (ef_heap ef0) x = int b \<and> x \<in> set (ef_bin ef0 ! b)"
    if "x \<in> set ds" for x
    using ds that reg_inv_old [OF inv b(2)] fe_okD(5) [OF ok b(2)] by blast
  then have fds: "filter (\<lambda>x. btc_at (ot_mined (ef_heap ef0 ! x)) (ef_heap ef0) x = int i) ds
      = (if i = b then ds else [])" for i
    by (auto simp: filter_id_conv filter_empty_conv)
  have bins: "int (length ((ef_bin ef)[b := bin'] ! i)) \<le> binSize ef0 \<and>
        length (ef_bin ef0 ! i) \<le> length ((ef_bin ef)[b := bin'] ! i) \<and>
        mset ((ef_bin ef)[b := bin'] ! i) + mset (filter (\<lambda>a. btc_at (ot_mined (ef_heap ef0 ! a)) (ef_heap ef0) a = int i) (drops @ ds))
          = mset (ef_bin ef0 ! i) + mset (filter (\<lambda>a. btc_at H (ef_heap ef0) a = int i) (added @ [a])) \<and>
        (\<forall>p. p + counts[b := counts ! b + 1] ! i + 1 < length ((ef_bin ef)[b := bin'] ! i) \<longrightarrow>
           (ef_bin ef)[b := bin'] ! i ! p \<notin> set (added @ [a]))"
    if i: "i < estimateFeeDepth" for i
  proof (cases "i = b")
    case True
    have "mset bin' + (mset (filter (\<lambda>a. btc_at (ot_mined (ef_heap ef0 ! a)) (ef_heap ef0) a = int i) drops) + mset ds)
        = mset (ef_bin ef0 ! i) + (mset (filter (\<lambda>a. btc_at H (ef_heap ef0) a = int i) added) + {#a#})"
      using bin'(1) D(10) [OF i] True by (metis (no_types, lifting) add.assoc add.commute)
    then show ?thesis
      using True D(2,3) b bin' D(9) [OF i] notold [OF _ _ b(2)] by (auto simp: fds)
  next
    case False
    then show ?thesis
      using D(2,3,8,9,10,11) i b notold [OF nth_mem [of _ "ef_bin ef ! i"] _ i] by (auto simp: fds)
  qed
  have heap: "(ef_heap ef)[a := (ef_heap ef ! a)\<lparr>ot_mined := H\<rparr>] ! x =
        (if x \<in> set (added @ [a]) then (ef_heap ef0 ! x)\<lparr>ot_mined := H\<rparr> else ef_heap ef0 ! x)"
    if "x < length (ef_heap ef0)" for x
    using D(4,7) that a(1,2) by (auto simp: nth_list_update)
  show ?thesis
    unfolding reg_inv_def
    using D(1-6,12) a b bins heap dsb by (auto simp: same_params_update)
qed

lemma reg_step_inv:
  assumes inv: "reg_inv ef0 H added ef counts drops" and ok: "fe_ok ef0" and H: "H \<noteq> UnminedHeight"
    and step: "reg_step H rnd h (ef, counts, drops) = Ok (ef', counts', drops')"
  shows "\<exists>added'. reg_inv ef0 H added' ef' counts' drops'"
proof (cases "ef_observed ef h")
  case None
  then show ?thesis using step inv by (auto simp: reg_step_def)
next
  case (Some a)
  note D = reg_invD [OF inv]
  note P = same_paramsD [OF D(1)]
  have al: "a < length (ef_heap ef0)" using ok Some P(3) by (auto simp: fe_ok_def)
  show ?thesis
  proof (cases "(ef', counts', drops') = (ef, counts, drops)")
    case True
    then show ?thesis using inv by auto
  next
    case changed: False
    let ?o = "ef_heap ef ! a"
    let ?btc = "wrap32 (H - ot_observed ?o - 1)" and ?b = "nat (wrap32 (H - ot_observed ?o - 1))"
    have un: "ot_mined ?o = UnminedHeight" and btc: "0 \<le> ?btc" "?btc < int estimateFeeDepth"
      using step Some changed by (auto simp: reg_step_def Let_def split: if_splits)
    have na: "a \<notin> set added" using D(7) [OF al] un H by auto
    then have o0: "?o = ef_heap ef0 ! a" using D(7) [OF al] by simp
    have b: "btc_at H (ef_heap ef0) a = int ?b" "?b < estimateFeeDepth"
      using btc o0 by (auto simp: btc_at_def)
    note add = reg_inv_add [OF inv ok al na un [unfolded o0] b]
    let ?bin = "ef_bin ef ! ?b" and ?c = "counts ! ?b"
    show ?thesis
    proof (cases "int (length ?bin) = binSize ef")
      case False
      have le: "int (length ?bin) \<le> binSize ef0" using D(8) [OF b(2)] .
      have new: "ef' = ef\<lparr>ef_heap := (ef_heap ef)[a := ?o\<lparr>ot_mined := H\<rparr>], ef_bin := (ef_bin ef)[?b := ?bin @ [a]]\<rparr>"
        "counts' = counts[?b := ?c + 1]" "drops' = drops @ []"
        using step Some changed un btc False by (auto simp: reg_step_def Let_def split: if_splits)
      have "reg_inv ef0 H (added @ [a]) ef' counts' drops'"
        unfolding new
      proof (rule add)
        fix p assume p: "p + ?c + 2 < length (?bin @ [a])"
        then show "(?bin @ [a]) ! p \<in> set ?bin \<and> (?bin @ [a]) ! p \<notin> set added"
          using D(11) [OF b(2), of p] by (simp add: nth_append)
      qed (use le False P(1) in auto)
      then show ?thesis by blast
    next
      case True
      define l d where "l = nat (binSize ef) - (?c + 1)" and "d = rnd (length drops) mod l"
      have bl: "?b < length counts" using b(2) D(3) by simp
      have pos: "0 < binSize ef - int (?c + 1)"
        using step Some changed un btc True bl
        by (auto simp: reg_step_def Let_def not_le split: if_splits)
      have l: "0 < l" "l + ?c + 1 = length ?bin" using pos True by (auto simp: l_def)
      have d: "d < l" using l(1) by (simp add: d_def)
      have new: "ef' = ef\<lparr>ef_heap := (ef_heap ef)[a := ?o\<lparr>ot_mined := H\<rparr>],
          ef_bin := (ef_bin ef)[?b := (?bin[d := ?bin ! (l - 1)])[l - 1 := a]]\<rparr>"
        "counts' = counts[?b := ?c + 1]" "drops' = drops @ [?bin ! d]"
        using step Some changed un btc True pos bl
        by (auto simp: reg_step_def Let_def l_def d_def split: if_splits)
      have keep: "?bin ! p \<notin> set added" if "p < l" for p
        using D(11) [OF b(2), of p] that l by simp
      have "reg_inv ef0 H (added @ [a]) ef' counts' drops'"
        unfolding new
      proof (rule add)
        show "mset ((?bin[d := ?bin ! (l - 1)])[l - 1 := a]) + mset [?bin ! d] = mset ?bin + {#a#}"
          using mset_replace [of d "l - 1" ?bin a] d l by simp
        show "set [?bin ! d] \<subseteq> set ?bin - set added" using d l keep by simp
        fix p assume "p + ?c + 2 < length ((?bin[d := ?bin ! (l - 1)])[l - 1 := a])"
        then have "p < l - 1" using l by simp
        then show "(?bin[d := ?bin ! (l - 1)])[l - 1 := a] ! p \<in> set ?bin \<and>
            (?bin[d := ?bin ! (l - 1)])[l - 1 := a] ! p \<notin> set added"
          using keep l d by (auto simp: nth_list_update)
      qed (use True P(1) in auto)
      then show ?thesis by blast
    qed
  qed
qed

lemma reg_step_Err: "reg_step H rnd h (ef, counts, drops) = Err ef' \<Longrightarrow> ef' = ef"
  by (auto simp: reg_step_def Let_def split: option.splits if_splits)

lemma reg_loop_inv:
  assumes "fe_ok ef0" "H \<noteq> UnminedHeight" "reg_inv ef0 H added ef counts drops"
  shows "case reg_loop H rnd hs (ef, counts, drops) of
      Ok (ef', counts', drops') \<Rightarrow> \<exists>added'. reg_inv ef0 H added' ef' counts' drops'
    | Err ef' \<Rightarrow> \<exists>added' counts' drops'. reg_inv ef0 H added' ef' counts' drops'
    | Panic \<Rightarrow> True"
  using assms(3)
proof (induction hs arbitrary: added ef counts drops)
  case (Cons h hs)
  show ?case
  proof (cases "reg_step H rnd h (ef, counts, drops)")
    case (Ok s)
    obtain ef1 c1 d1 where s: "s = (ef1, c1, d1)" by (cases s)
    then show ?thesis using Ok Cons.IH reg_step_inv [OF Cons.prems assms(1,2)] by fastforce
  next
    case (Err e)
    then show ?thesis using Cons.prems reg_step_Err by fastforce
  qed simp
qed auto

lemma filter_mset_False_conv: "\<forall>x \<in># M. \<not> P x \<Longrightarrow> filter_mset P M = {#}"
  by (induction M) auto

lemma filter_mset_True_conv: "\<forall>x \<in># M. P x \<Longrightarrow> filter_mset P M = M"
  by (induction M) auto

lemma reg_inv_added_bin:
  assumes "reg_inv ef0 H added ef counts drops" "fe_ok ef0" "i < estimateFeeDepth"
    and "a \<in> set (ef_bin ef ! i)" "a \<in> set added"
  shows "btc_at H (ef_heap ef0) a = int i"
proof -
  have "a \<notin> set (ef_bin ef0 ! i)"
    using fe_okD(2) [OF assms(2,3)] reg_invD(6) [OF assms(1,5)] by auto
  moreover have "a \<in># mset (ef_bin ef ! i) + mset (filter (\<lambda>a. btc_at (ot_mined (ef_heap ef0 ! a)) (ef_heap ef0) a = int i) drops)"
    using assms(4) by simp
  ultimately show ?thesis unfolding reg_invD(10) [OF assms(1,3)] by auto
qed

lemma reg_inv_fe_ok:
  assumes inv: "reg_inv ef0 H added ef counts drops" and ok: "fe_ok ef0"
    and H: "H \<noteq> UnminedHeight" "lastKnownHeight ef0 = H"
  shows "fe_ok ef"
proof -
  note D = reg_invD [OF inv]
  note P = same_paramsD [OF D(1)]
  have bin: "a < length (ef_heap ef) \<and> ot_mined (ef_heap ef ! a) \<noteq> UnminedHeight \<and>
      ot_mined (ef_heap ef ! a) \<le> H \<and> btc_at (ot_mined (ef_heap ef ! a)) (ef_heap ef) a = int i"
    if "i < estimateFeeDepth" "a \<in> set (ef_bin ef ! i)" for i a
  proof (cases "a \<in> set added")
    case True
    then show ?thesis
      using D(4) D(6) [of a] D(7) [of a] reg_inv_added_bin [OF inv ok that True] H(1) by (simp add: btc_at_def)
  next
    case False
    note old = fe_okD [OF ok that(1) reg_inv_old [OF inv that False]]
    then show ?thesis using False D(4) D(7) [of a] H(2) by (simp add: btc_at_def)
  qed
  have obs: "a < length (ef_heap ef) \<and> ot_hash (ef_heap ef ! a) = h" if "ef_observed ef h = Some a" for h a
    using ok that P(3) D(4) D(7) [of a] by (auto simp: fe_ok_def)
  show ?thesis
    using D(2,8) bin obs ok H P(1,4) unfolding fe_ok_def by auto
qed

lemma RegisterBlock_start_ok:
  assumes "fe_ok ef" "- (2 ^ 31) \<le> height" "height < UnminedHeight"
    and "height = wrap32 (lastKnownHeight ef + 1) \<or> lastKnownHeight ef = UnminedHeight"
  shows "fe_ok (ef\<lparr>cached := None, lastKnownHeight := height,
      numBlocksRegistered := numBlocksRegistered ef + 1\<rparr>)"
    and "\<forall>i < estimateFeeDepth. \<forall>a \<in> set (ef_bin ef ! i). ot_mined (ef_heap ef ! a) < height"
proof -
  have lt: "ot_mined (ef_heap ef ! a) < height" if "i < estimateFeeDepth" "a \<in> set (ef_bin ef ! i)" for i a
  proof -
    note D = fe_okD [OF assms(1) that]
    have "- (2 ^ 31) \<le> lastKnownHeight ef" "lastKnownHeight ef < UnminedHeight"
      using assms(1) D(3) by (auto simp: fe_ok_def)
    then have "wrap32 (lastKnownHeight ef + 1) = lastKnownHeight ef + 1"
      by (simp add: UnminedHeight_def)
    then show ?thesis using assms(4) D by simp
  qed
  then show "\<forall>i < estimateFeeDepth. \<forall>a \<in> set (ef_bin ef ! i). ot_mined (ef_heap ef ! a) < height" by blast
  show "fe_ok (ef\<lparr>cached := None, lastKnownHeight := height,
      numBlocksRegistered := numBlocksRegistered ef + 1\<rparr>)"
    using assms(1-3) lt unfolding fe_ok_def by (auto simp: less_imp_le)
qed

lemma fe_ok_purge:
  assumes "fe_ok ef"
  shows "fe_ok (ef\<lparr>ef_observed := purge_observed height ef\<rparr>)"
    and "fe_ok (ef\<lparr>ef_observed := purge_observed height ef, dropped := d\<rparr>)"
  using assms by (auto simp: fe_ok_def purge_observed_def split: option.splits if_splits)

subsection \<open>Rolling back\<close>

lemma rollback_place_eq:
  assumes "c \<le> p" "p < length bin" "ot_mined (heap ! (bin ! p)) = H"
  shows "\<exists>q. c \<le> q \<and> q < length bin \<and> ot_mined (heap ! (bin ! q)) = H \<and>
    (\<forall>r. c \<le> r \<and> r < q \<longrightarrow> ot_mined (heap ! (bin ! r)) \<noteq> H) \<and>
    rollback_place H heap bin c a =
      Some (heap[bin ! q := (heap ! (bin ! q))\<lparr>ot_mined := UnminedHeight\<rparr>], bin[q := a], q + 1)"
  using assms
proof (induction H heap bin c a rule: rollback_place.induct)
  case (1 lkh heap bin counter a)
  show ?case
  proof (cases "ot_mined (heap ! (bin ! counter)) = lkh")
    case True
    then show ?thesis using "1.prems"
      by (intro exI [of _ counter]) (auto simp: Let_def rollback_place.simps [of lkh heap bin counter])
  next
    case False
    then have lt: "counter < p" using "1.prems" by (cases "counter = p") auto
    then obtain q where q: "counter + 1 \<le> q" "q < length bin" "ot_mined (heap ! (bin ! q)) = lkh"
      "\<forall>r. counter + 1 \<le> r \<and> r < q \<longrightarrow> ot_mined (heap ! (bin ! r)) \<noteq> lkh"
      "rollback_place lkh heap bin (counter + 1) a =
        Some (heap[bin ! q := (heap ! (bin ! q))\<lparr>ot_mined := UnminedHeight\<rparr>], bin[q := a], q + 1)"
      using "1.IH" [OF _ refl False] "1.prems" by auto
    have "rollback_place lkh heap bin counter a = rollback_place lkh heap bin (counter + 1) a"
      using False lt "1.prems" by (simp add: rollback_place.simps [of lkh heap bin counter])
    moreover have "\<forall>r. counter \<le> r \<and> r < q \<longrightarrow> ot_mined (heap ! (bin ! r)) \<noteq> lkh"
      using q(4) False by (metis Suc_eq_plus1 Suc_leI le_neq_implies_less)
    ultimately show ?thesis using q by (intro exI [of _ q]) auto
  qed
qed

text \<open>Rolling back: \<open>Nw\<close> are the transactions still marked as mined by the block, \<open>R\<close> the dropped
  ones still to be put back.\<close>

definition rb_inv :: "FeeEstimator \<Rightarrow> int \<Rightarrow> nat set \<Rightarrow> nat list \<Rightarrow>
    observedTransaction list \<Rightarrow> nat list list \<Rightarrow> nat list \<Rightarrow> bool" where
  "rb_inv ef0 H Nw R heap bins ctrs \<longleftrightarrow>
     length bins = estimateFeeDepth \<and> length ctrs = estimateFeeDepth \<and>
     length heap = length (ef_heap ef0) \<and>
     (\<forall>a < length (ef_heap ef0). heap ! a =
        (if a \<in> Nw then (ef_heap ef0 ! a)\<lparr>ot_mined := H\<rparr> else ef_heap ef0 ! a)) \<and>
     (\<forall>a \<in> Nw. a < length (ef_heap ef0) \<and> ot_mined (ef_heap ef0 ! a) = UnminedHeight \<and>
        0 \<le> btc_at H (ef_heap ef0) a \<and> btc_at H (ef_heap ef0) a < int estimateFeeDepth) \<and>
     (\<forall>a \<in> set R. \<exists>i < estimateFeeDepth. a \<in> set (ef_bin ef0 ! i)) \<and>
     (\<forall>i < estimateFeeDepth.
        filter_mset (\<lambda>a. a \<notin> Nw) (mset (bins ! i)) +
          mset (filter (\<lambda>a. btc_at (ot_mined (ef_heap ef0 ! a)) (ef_heap ef0) a = int i) R) = mset (ef_bin ef0 ! i) \<and>
        (\<forall>p < ctrs ! i. p < length (bins ! i) \<longrightarrow> bins ! i ! p \<notin> Nw) \<and>
        length (filter (\<lambda>a. btc_at (ot_mined (ef_heap ef0 ! a)) (ef_heap ef0) a = int i) R)
          \<le> size (filter_mset (\<lambda>a. a \<in> Nw) (mset (bins ! i))) \<and>
        (\<forall>a \<in> Nw. count (mset (bins ! i)) a = (if btc_at H (ef_heap ef0) a = int i then 1 else 0)))"

lemma rb_invD:
  assumes "rb_inv ef0 H Nw R heap bins ctrs"
  shows "length bins = estimateFeeDepth" "length ctrs = estimateFeeDepth" "length heap = length (ef_heap ef0)"
    "a < length (ef_heap ef0) \<Longrightarrow> heap ! a =
        (if a \<in> Nw then (ef_heap ef0 ! a)\<lparr>ot_mined := H\<rparr> else ef_heap ef0 ! a)"
    "a \<in> Nw \<Longrightarrow> a < length (ef_heap ef0) \<and> ot_mined (ef_heap ef0 ! a) = UnminedHeight \<and>
        0 \<le> btc_at H (ef_heap ef0) a \<and> btc_at H (ef_heap ef0) a < int estimateFeeDepth"
    "a \<in> set R \<Longrightarrow> \<exists>i < estimateFeeDepth. a \<in> set (ef_bin ef0 ! i)"
    "i < estimateFeeDepth \<Longrightarrow> filter_mset (\<lambda>a. a \<notin> Nw) (mset (bins ! i)) +
          mset (filter (\<lambda>a. btc_at (ot_mined (ef_heap ef0 ! a)) (ef_heap ef0) a = int i) R) = mset (ef_bin ef0 ! i)"
    "i < estimateFeeDepth \<Longrightarrow> p < ctrs ! i \<Longrightarrow> p < length (bins ! i) \<Longrightarrow> bins ! i ! p \<notin> Nw"
    "i < estimateFeeDepth \<Longrightarrow> length (filter (\<lambda>a. btc_at (ot_mined (ef_heap ef0 ! a)) (ef_heap ef0) a = int i) R)
          \<le> size (filter_mset (\<lambda>a. a \<in> Nw) (mset (bins ! i)))"
    "i < estimateFeeDepth \<Longrightarrow> a \<in> Nw \<Longrightarrow>
        count (mset (bins ! i)) a = (if btc_at H (ef_heap ef0) a = int i then 1 else 0)"
  using assms unfolding rb_inv_def by blast+

text \<open>A transaction of a bin is marked as mined by the block exactly when it is in \<open>Nw\<close>.\<close>

lemma rb_inv_mined:
  assumes inv: "rb_inv ef0 H Nw R heap bins ctrs" and ok: "fe_ok ef0"
    and old: "\<forall>i < estimateFeeDepth. \<forall>a \<in> set (ef_bin ef0 ! i). ot_mined (ef_heap ef0 ! a) \<noteq> H"
    and i: "i < estimateFeeDepth" "a \<in> set (bins ! i)"
  shows "ot_mined (heap ! a) = H \<longleftrightarrow> a \<in> Nw"
proof (cases "a \<in> Nw")
  case True
  then show ?thesis using rb_invD(4,5) [OF inv, of a] by simp
next
  case False
  then have "a \<in># filter_mset (\<lambda>a. a \<notin> Nw) (mset (bins ! i))" using i(2) by simp
  then have "a \<in># mset (ef_bin ef0 ! i)" unfolding rb_invD(7) [OF inv i(1), symmetric] by simp
  then have b: "a \<in> set (ef_bin ef0 ! i)" by simp
  then show ?thesis using False old i(1) fe_okD(1) [OF ok i(1) b] rb_invD(4) [OF inv, of a] by simp
qed

lemma rb_inv_start:
  assumes inv: "reg_inv ef0 H added ef counts drops" and ok: "fe_ok ef0"
  shows "rb_inv ef0 H (set added) drops (ef_heap ef) (ef_bin ef) (replicate estimateFeeDepth 0)"
proof -
  note D = reg_invD [OF inv]
  have bin: "filter_mset (\<lambda>a. a \<notin> set added) (mset (ef_bin ef ! i)) + mset (filter (\<lambda>a. btc_at (ot_mined (ef_heap ef0 ! a)) (ef_heap ef0) a = int i) drops)
        = mset (ef_bin ef0 ! i) \<and>
      length (filter (\<lambda>a. btc_at (ot_mined (ef_heap ef0 ! a)) (ef_heap ef0) a = int i) drops)
          \<le> size (filter_mset (\<lambda>a. a \<in> set added) (mset (ef_bin ef ! i))) \<and>
      (\<forall>a \<in> set added. count (mset (ef_bin ef ! i)) a = (if btc_at H (ef_heap ef0) a = int i then 1 else 0))"
    if i: "i < estimateFeeDepth" for i
  proof -
    define DR A where "DR = mset (filter (\<lambda>a. btc_at (ot_mined (ef_heap ef0 ! a)) (ef_heap ef0) a = int i) drops)"
      and "A = mset (filter (\<lambda>a. btc_at H (ef_heap ef0) a = int i) added)"
    have eq: "mset (ef_bin ef ! i) + DR = mset (ef_bin ef0 ! i) + A"
      using D(10) [OF i] by (simp add: DR_def A_def)
    have old: "x \<notin> set added" if "x \<in> set (ef_bin ef0 ! j)" "j < estimateFeeDepth" for x j
      using fe_okD(2) [OF ok that(2,1)] D(6) [of x] by auto
    have DR: "x \<notin> set added" if "x \<in># DR" for x
      using that D(12) [of x] old by (auto simp: DR_def)
    have fA: "filter_mset (\<lambda>a. a \<notin> set added) A = {#}" "filter_mset (\<lambda>a. a \<in> set added) A = A"
      by (auto simp: A_def filter_mset_False_conv filter_mset_True_conv)
    have fO: "filter_mset (\<lambda>a. a \<notin> set added) (mset (ef_bin ef0 ! i)) = mset (ef_bin ef0 ! i)"
      "filter_mset (\<lambda>a. a \<in> set added) (mset (ef_bin ef0 ! i)) = {#}"
      using old [OF _ i] by (auto simp: filter_mset_False_conv filter_mset_True_conv)
    have fD: "filter_mset (\<lambda>a. a \<notin> set added) DR = DR" "filter_mset (\<lambda>a. a \<in> set added) DR = {#}"
      using DR by (auto simp: filter_mset_False_conv filter_mset_True_conv)
    have 1: "filter_mset (\<lambda>a. a \<notin> set added) (mset (ef_bin ef ! i)) + DR = mset (ef_bin ef0 ! i)"
      using arg_cong [OF eq, of "filter_mset (\<lambda>a. a \<notin> set added)"] fA fO fD by simp
    have 2: "filter_mset (\<lambda>a. a \<in> set added) (mset (ef_bin ef ! i)) = A"
      using arg_cong [OF eq, of "filter_mset (\<lambda>a. a \<in> set added)"] fA fO fD by simp
    have "size (mset (ef_bin ef ! i)) + size DR = size (mset (ef_bin ef0 ! i)) + size A"
      using arg_cong [OF eq, of size] by simp
    then have 3: "size DR \<le> size A" using D(9) [OF i] by simp
    have 4: "count (mset (ef_bin ef ! i)) a = (if btc_at H (ef_heap ef0) a = int i then 1 else 0)"
      if a: "a \<in> set added" for a
    proof -
      have "count (mset (ef_bin ef ! i)) a = count A a"
        using 2 a by (metis count_filter_mset)
      also have "\<dots> = (if btc_at H (ef_heap ef0) a = int i then 1 else 0)"
        using a D(5) by (simp add: A_def distinct_count_atmost_1 [THEN iffD1, OF distinct_filter] flip: mset_filter)
      finally show ?thesis .
    qed
    have 5: "length (filter (\<lambda>a. btc_at (ot_mined (ef_heap ef0 ! a)) (ef_heap ef0) a = int i) drops) = size DR"
      unfolding DR_def by (rule size_mset [symmetric])
    show ?thesis unfolding 5 2 using 1 3 4 unfolding DR_def by blast
  qed
  show ?thesis unfolding rb_inv_def using D(2,4,6,7,12) bin by auto
qed

lemma rb_inv_step:
  assumes inv: "rb_inv ef0 H Nw (a # R) heap bins ctrs" and ok: "fe_ok ef0"
    and old: "\<forall>i < estimateFeeDepth. \<forall>a \<in> set (ef_bin ef0 ! i). ot_mined (ef_heap ef0 ! a) \<noteq> H"
  shows "\<exists>Nw' heap' bins' ctrs'. rollback_dropped H (a # R) (heap, bins, ctrs) = rollback_dropped H R (heap', bins', ctrs') \<and>
    rb_inv ef0 H Nw' R heap' bins' ctrs'"
proof -
  note D = rb_invD [OF inv]
  obtain b where b: "b < estimateFeeDepth" "a \<in> set (ef_bin ef0 ! b)" using D(6) [of a] by auto
  note F = fe_okD [OF ok b]
  have na: "a \<notin> Nw" using D(5) [of a] F(2) by auto
  have ha: "heap ! a = ef_heap ef0 ! a" using D(4) [OF F(1)] na by simp
  have btc: "wrap32 (ot_mined (heap ! a) - ot_observed (heap ! a) - 1) = int b"
    using F(5) ha by (simp add: btc_at_def)
  let ?bin = "bins ! b" and ?c = "ctrs ! b"
  have mined: "ot_mined (heap ! x) = H \<longleftrightarrow> x \<in> Nw" if "x \<in> set ?bin" for x
    using rb_inv_mined [OF inv ok old b(1) that] .
  have "0 < size (filter_mset (\<lambda>a. a \<in> Nw) (mset ?bin))" using D(9) [OF b(1)] F(5) by simp
  then obtain x where "x \<in># filter_mset (\<lambda>a. a \<in> Nw) (mset ?bin)"
    by (metis multiset_nonemptyE nonempty_has_size)
  then have "x \<in> set ?bin" "x \<in> Nw" by simp_all
  then obtain p where p: "p < length ?bin" "?bin ! p \<in> Nw" by (auto simp: in_set_conv_nth)
  then have cp: "?c \<le> p" using D(8) [OF b(1), of p] by (metis not_less)
  have pm: "ot_mined (heap ! (?bin ! p)) = H" using mined p by simp
  from rollback_place_eq [OF cp p(1) pm, of a] obtain q where q: "?c \<le> q" "q < length ?bin"
    "ot_mined (heap ! (?bin ! q)) = H" "\<forall>r. ?c \<le> r \<and> r < q \<longrightarrow> ot_mined (heap ! (?bin ! r)) \<noteq> H"
    "rollback_place H heap ?bin ?c a =
      Some (heap[?bin ! q := (heap ! (?bin ! q))\<lparr>ot_mined := UnminedHeight\<rparr>], ?bin[q := a], q + 1)"
    by blast
  let ?x = "?bin ! q"
  have x: "?x \<in> Nw" "?x \<in> set ?bin" using q(2,3) mined by auto
  note X = D(5) [OF x(1)]
  have "0 < count (mset ?bin) ?x" using x(2) by simp
  then have xb: "btc_at H (ef_heap ef0) ?x = int b" and cx: "count (mset ?bin) ?x = 1"
    using D(10) [OF b(1) x(1)] by (auto split: if_splits)
  let ?Nw = "Nw - {?x}" and ?heap = "heap[?x := (heap ! ?x)\<lparr>ot_mined := UnminedHeight\<rparr>]"
    and ?bins = "bins[b := ?bin[q := a]]" and ?ctrs = "ctrs[b := q + 1]"
  have mb: "mset (?bin[q := a]) = add_mset a (mset ?bin - {#?x#})" using q(2) by (simp add: mset_update)
  have heap: "?heap ! y = (if y \<in> ?Nw then (ef_heap ef0 ! y)\<lparr>ot_mined := H\<rparr> else ef_heap ef0 ! y)"
    if "y < length (ef_heap ef0)" for y
    using D(3) D(4) [OF that] X x(1) that by (auto simp: nth_list_update)
  have bin: "filter_mset (\<lambda>a. a \<notin> ?Nw) (mset (?bins ! i)) +
          mset (filter (\<lambda>a. btc_at (ot_mined (ef_heap ef0 ! a)) (ef_heap ef0) a = int i) R) = mset (ef_bin ef0 ! i) \<and>
        (\<forall>p < ?ctrs ! i. p < length (?bins ! i) \<longrightarrow> ?bins ! i ! p \<notin> ?Nw) \<and>
        length (filter (\<lambda>a. btc_at (ot_mined (ef_heap ef0 ! a)) (ef_heap ef0) a = int i) R)
          \<le> size (filter_mset (\<lambda>a. a \<in> ?Nw) (mset (?bins ! i))) \<and>
        (\<forall>a \<in> ?Nw. count (mset (?bins ! i)) a = (if btc_at H (ef_heap ef0) a = int i then 1 else 0))"
    if i: "i < estimateFeeDepth" for i
  proof (cases "i = b")
    case True
    have f1: "filter_mset (\<lambda>a. a \<notin> ?Nw) (mset ?bin - {#?x#}) = filter_mset (\<lambda>a. a \<notin> Nw) (mset ?bin)"
      using cx x(1) by (intro multiset_eqI) auto
    have f2: "filter_mset (\<lambda>a. a \<in> ?Nw) (mset ?bin - {#?x#}) = filter_mset (\<lambda>a. a \<in> Nw) (mset ?bin) - {#?x#}"
      using cx x(1) by (intro multiset_eqI) auto
    have "?x \<in># filter_mset (\<lambda>a. a \<in> Nw) (mset ?bin)" using x by simp
    then have sz: "size (filter_mset (\<lambda>a. a \<in> Nw) (mset ?bin) - {#?x#}) = size (filter_mset (\<lambda>a. a \<in> Nw) (mset ?bin)) - 1"
      by (rule size_Diff_singleton)
    have pos: "?bin[q := a] ! p \<notin> ?Nw" if "p < q + 1" "p < length ?bin" for p
    proof (cases "p = q \<or> p < ?c")
      case True
      then show ?thesis using na q(2) D(8) [OF b(1), of p] that by (auto simp: nth_list_update)
    next
      case False
      then show ?thesis using q(4) mined [of "?bin ! p"] that by auto
    qed
    show ?thesis
      using True D(1,2) D(7) [OF b(1)] D(9) [OF b(1)] D(10) [OF b(1)] b(1) F(5) pos f1 f2 sz na
      by (auto simp: mb)
  next
    case False
    have "count (mset (bins ! i)) ?x = 0" using D(10) [OF i x(1)] xb False by simp
    then have "?x \<notin> set (bins ! i)" by (simp add: count_eq_zero_iff)
    then have fi: "filter_mset (\<lambda>a. a \<notin> ?Nw) (mset (bins ! i)) = filter_mset (\<lambda>a. a \<notin> Nw) (mset (bins ! i))"
      "filter_mset (\<lambda>a. a \<in> ?Nw) (mset (bins ! i)) = filter_mset (\<lambda>a. a \<in> Nw) (mset (bins ! i))"
      by (auto intro!: filter_mset_cong)
    show ?thesis using False D(7,8,9,10) [OF i] F(5) fi by auto
  qed
  have "rb_inv ef0 H ?Nw R ?heap ?bins ?ctrs"
    unfolding rb_inv_def using D(1,2,3,5,6) heap bin by auto
  moreover have "rollback_dropped H (a # R) (heap, bins, ctrs) = rollback_dropped H R (?heap, ?bins, ?ctrs)"
    using btc b(1) q(5) by (simp add: Let_def)
  ultimately show ?thesis by blast
qed

lemma rb_inv_loop:
  assumes "fe_ok ef0" "\<forall>i < estimateFeeDepth. \<forall>a \<in> set (ef_bin ef0 ! i). ot_mined (ef_heap ef0 ! a) \<noteq> H"
  shows "rb_inv ef0 H Nw R heap bins ctrs \<Longrightarrow>
    \<exists>Nw' heap' bins' ctrs'. rollback_dropped H R (heap, bins, ctrs) = Some (heap', bins', ctrs') \<and>
      rb_inv ef0 H Nw' [] heap' bins' ctrs'"
proof (induction R arbitrary: Nw heap bins ctrs)
  case (Cons a R)
  then show ?case using rb_inv_step [OF Cons.prems assms] by metis
qed auto

text \<open>The final sweep of one bin: the marked transactions from position \<open>j\<close> on leave the bin and
  lose their mark.\<close>

lemma rollback_sweep_eq:
  assumes "\<forall>a \<in> set (drop j bin). ot_mined (heap ! a) = H \<longrightarrow> count (mset (drop j bin)) a = 1 \<and> a < length heap"
    and "H \<noteq> UnminedHeight"
  shows "\<exists>heap'. rollback_sweep H heap bin j =
      (heap', take j bin @ filter (\<lambda>a. ot_mined (heap ! a) \<noteq> H) (drop j bin)) \<and> length heap' = length heap \<and>
    (\<forall>a < length heap. heap' ! a = (if a \<in> set (drop j bin) \<and> ot_mined (heap ! a) = H
       then (heap ! a)\<lparr>ot_mined := UnminedHeight\<rparr> else heap ! a))"
  using assms
proof (induction H heap bin j rule: rollback_sweep.induct)
  case (1 H heap bin j)
  show ?case
  proof (cases "j < length bin")
    case False
    then show ?thesis by (simp add: rollback_sweep.simps)
  next
    case lt: True
    let ?x = "bin ! j"
    have dr: "drop j bin = ?x # drop (Suc j) bin" using lt by (simp add: Cons_nth_drop_Suc)
    show ?thesis
    proof (cases "ot_mined (heap ! ?x) = H")
      case True
      let ?h = "heap[?x := (heap ! ?x)\<lparr>ot_mined := UnminedHeight\<rparr>]" and ?bin = "take j bin @ drop (j + 1) bin"
      have x: "?x \<notin> set (drop (Suc j) bin)" "?x < length heap"
        using "1.prems"(1) True unfolding dr by (auto simp: count_eq_zero_iff)
      have db: "drop j ?bin = drop (Suc j) bin" "take j ?bin = take j bin" using lt by simp_all
      have mined: "ot_mined (?h ! a) = ot_mined (heap ! a)" if "a \<in> set (drop (Suc j) bin)" for a
        using that x by (cases "a = ?x") auto
      have flt: "filter (\<lambda>a. ot_mined (?h ! a) \<noteq> H) (drop (Suc j) bin) = filter (\<lambda>a. ot_mined (heap ! a) \<noteq> H) (drop (Suc j) bin)"
        using mined by (intro filter_cong) auto
      have pre: "\<forall>a \<in> set (drop j ?bin). ot_mined (?h ! a) = H \<longrightarrow> count (mset (drop j ?bin)) a = 1 \<and> a < length ?h"
        unfolding db using "1.prems"(1) mined x unfolding dr by (auto split: if_splits)
      from "1.IH"(1) [OF _ refl True pre "1.prems"(2)] lt obtain h' where h':
        "rollback_sweep H ?h ?bin j = (h', take j bin @ filter (\<lambda>a. ot_mined (heap ! a) \<noteq> H) (drop (Suc j) bin))"
        "length h' = length heap"
        "\<forall>a < length heap. h' ! a = (if a \<in> set (drop (Suc j) bin) \<and> ot_mined (?h ! a) = H
           then (?h ! a)\<lparr>ot_mined := UnminedHeight\<rparr> else ?h ! a)"
        unfolding db flt by auto
      have "rollback_sweep H heap bin j = rollback_sweep H ?h ?bin j"
        using lt True by (subst rollback_sweep.simps) (simp add: Let_def)
      moreover have "h' ! a = (if a \<in> set (drop j bin) \<and> ot_mined (heap ! a) = H
           then (heap ! a)\<lparr>ot_mined := UnminedHeight\<rparr> else heap ! a)" if "a < length heap" for a
        using h'(3) that x mined True unfolding dr by (cases "a = ?x") auto
      ultimately show ?thesis using h' True unfolding dr by auto
    next
      case False
      have pre: "\<forall>a \<in> set (drop (j + 1) bin). ot_mined (heap ! a) = H \<longrightarrow>
          count (mset (drop (j + 1) bin)) a = 1 \<and> a < length heap"
        using "1.prems"(1) False unfolding dr by (auto split: if_splits)
      have "rollback_sweep H heap bin j = rollback_sweep H heap bin (j + 1)"
        using lt False by (subst rollback_sweep.simps) (simp add: Let_def)
      moreover have "take (j + 1) bin = take j bin @ [?x]" using lt by (simp add: take_Suc_conv_app_nth)
      ultimately show ?thesis
        using "1.IH"(2) [OF _ refl False pre "1.prems"(2)] lt False unfolding dr by auto
    qed
  qed
qed

lemma rollback_bins_eq:
  assumes "length bins = length js" "H \<noteq> UnminedHeight"
    and "\<forall>i < length bins. \<forall>a \<in> set (bins ! i). \<forall>k < length bins. ot_mined (heap ! a) = H \<longrightarrow>
           a \<in> set (bins ! k) \<longrightarrow> i = k"
    and "\<forall>i < length bins. \<forall>a \<in> set (bins ! i). a < length heap \<and>
           (ot_mined (heap ! a) = H \<longrightarrow> count (mset (bins ! i)) a = 1)"
    and "\<forall>i < length bins. \<forall>p < js ! i. p < length (bins ! i) \<longrightarrow> ot_mined (heap ! (bins ! i ! p)) \<noteq> H"
  shows "\<exists>heap'. rollback_bins H heap bins js = (heap', map (filter (\<lambda>a. ot_mined (heap ! a) \<noteq> H)) bins) \<and>
    length heap' = length heap \<and>
    (\<forall>a < length heap. heap' ! a = (if a \<in> \<Union> (set ` set bins) \<and> ot_mined (heap ! a) = H
       then (heap ! a)\<lparr>ot_mined := UnminedHeight\<rparr> else heap ! a))"
  using assms
proof (induction bins js arbitrary: heap rule: list_induct2)
  case (Cons bin bins j js)
  have tk: "ot_mined (heap ! a) \<noteq> H" if "a \<in> set (take j bin)" for a
    using spec [OF Cons.prems(4), of 0] that by (auto simp: in_set_conv_nth)
  have cnt: "count (mset (drop j bin)) a = 1 \<and> a < length heap" if "a \<in> set (drop j bin)" "ot_mined (heap ! a) = H" for a
  proof -
    have "count (mset bin) a = 1 \<and> a < length heap"
      using spec [OF Cons.prems(3), of 0] that by (auto dest: in_set_dropD)
    moreover have "count (mset (drop j bin)) a \<le> count (mset bin) a"
      by (metis append_take_drop_id count_union mset_append le_add2)
    moreover have "0 < count (mset (drop j bin)) a" using that by simp
    ultimately show ?thesis by linarith
  qed
  then obtain h1 where h1: "rollback_sweep H heap bin j =
      (h1, take j bin @ filter (\<lambda>a. ot_mined (heap ! a) \<noteq> H) (drop j bin))" "length h1 = length heap"
    "\<forall>a < length heap. h1 ! a = (if a \<in> set (drop j bin) \<and> ot_mined (heap ! a) = H
       then (heap ! a)\<lparr>ot_mined := UnminedHeight\<rparr> else heap ! a)"
    using rollback_sweep_eq [of j bin heap H] Cons.prems(1) by blast
  have bin': "take j bin @ filter (\<lambda>a. ot_mined (heap ! a) \<noteq> H) (drop j bin) = filter (\<lambda>a. ot_mined (heap ! a) \<noteq> H) bin"
  proof -
    have "filter (\<lambda>a. ot_mined (heap ! a) \<noteq> H) (take j bin) = take j bin" using tk by (simp add: filter_id_conv)
    then show ?thesis by (metis append_take_drop_id filter_append)
  qed
  have disj: "a \<notin> set bin" if "k < length bins" "a \<in> set (bins ! k)" "ot_mined (heap ! a) = H" for a k
    using spec [OF Cons.prems(2), of "Suc k"] that by force
  have same: "ot_mined (h1 ! a) = ot_mined (heap ! a)" if "k < length bins" "a \<in> set (bins ! k)" for a k
  proof -
    have "a < length heap" using spec [OF Cons.prems(3), of "Suc k"] that by auto
    then show ?thesis using h1(3) disj [OF that] by (auto dest: in_set_dropD)
  qed
  have "\<exists>heap'. rollback_bins H h1 bins js = (heap', map (filter (\<lambda>a. ot_mined (h1 ! a) \<noteq> H)) bins) \<and>
    length heap' = length h1 \<and>
    (\<forall>a < length h1. heap' ! a = (if a \<in> \<Union> (set ` set bins) \<and> ot_mined (h1 ! a) = H
       then (h1 ! a)\<lparr>ot_mined := UnminedHeight\<rparr> else h1 ! a))"
  proof (rule Cons.IH)
    show "\<forall>i < length bins. \<forall>a \<in> set (bins ! i). \<forall>k < length bins. ot_mined (h1 ! a) = H \<longrightarrow>
        a \<in> set (bins ! k) \<longrightarrow> i = k"
      using Cons.prems(2) same by (metis Suc_inject Suc_less_eq length_Cons nth_Cons_Suc)
    show "\<forall>i < length bins. \<forall>a \<in> set (bins ! i). a < length h1 \<and> (ot_mined (h1 ! a) = H \<longrightarrow> count (mset (bins ! i)) a = 1)"
    proof (intro allI impI ballI)
      fix i a assume ia: "i < length bins" "a \<in> set (bins ! i)"
      show "a < length h1 \<and> (ot_mined (h1 ! a) = H \<longrightarrow> count (mset (bins ! i)) a = 1)"
        using spec [OF Cons.prems(3), of "Suc i"] ia same [OF ia] h1(2) by auto
    qed
    show "\<forall>i < length bins. \<forall>p < js ! i. p < length (bins ! i) \<longrightarrow> ot_mined (h1 ! (bins ! i ! p)) \<noteq> H"
      using Cons.prems(4) same by fastforce
  qed (use Cons.prems in auto)
  then obtain h2 where h2: "rollback_bins H h1 bins js = (h2, map (filter (\<lambda>a. ot_mined (h1 ! a) \<noteq> H)) bins)"
    "length h2 = length h1"
    "\<forall>a < length h1. h2 ! a = (if a \<in> \<Union> (set ` set bins) \<and> ot_mined (h1 ! a) = H
       then (h1 ! a)\<lparr>ot_mined := UnminedHeight\<rparr> else h1 ! a)" by blast
  have bins': "map (filter (\<lambda>a. ot_mined (h1 ! a) \<noteq> H)) bins = map (filter (\<lambda>a. ot_mined (heap ! a) \<noteq> H)) bins"
    by (intro map_cong refl filter_cong) (metis same in_set_conv_nth)
  have bj: "a \<in> set (drop j bin) \<longleftrightarrow> a \<in> set bin" if "ot_mined (heap ! a) = H" for a
    using tk [of a] that by (metis Un_iff append_take_drop_id set_append)
  have "h2 ! a = (if a \<in> \<Union> (set ` set (bin # bins)) \<and> ot_mined (heap ! a) = H
       then (heap ! a)\<lparr>ot_mined := UnminedHeight\<rparr> else heap ! a)" if a: "a < length heap" for a
    using h1(2,3) h2(3) a bj [of a] Cons.prems(1) by auto
  then show ?case using h1(1,2) h2(1,2) bin' bins' by simp
qed simp

lemma rollback_bins_restores:
  assumes inv: "rb_inv ef0 H Nw [] heap bins ctrs" and ok: "fe_ok ef0"
    and old: "\<forall>i < estimateFeeDepth. \<forall>a \<in> set (ef_bin ef0 ! i). ot_mined (ef_heap ef0 ! a) \<noteq> H"
    and H: "H \<noteq> UnminedHeight"
  shows "\<exists>bins'. rollback_bins H heap bins ctrs = (ef_heap ef0, bins') \<and> length bins' = estimateFeeDepth \<and>
    (\<forall>i < estimateFeeDepth. mset (bins' ! i) = mset (ef_bin ef0 ! i))"
proof -
  note D = rb_invD [OF inv]
  have mined: "ot_mined (heap ! a) = H \<longleftrightarrow> a \<in> Nw" if "i < estimateFeeDepth" "a \<in> set (bins ! i)" for i a
    using rb_inv_mined [OF inv ok old that] .
  have rng: "a < length heap" if "i < estimateFeeDepth" "a \<in> set (bins ! i)" for i a
  proof (cases "a \<in> Nw")
    case True
    then show ?thesis using D(3,5) by simp
  next
    case False
    then have "a \<in># filter_mset (\<lambda>a. a \<notin> Nw) (mset (bins ! i))" using that by simp
    then have "a \<in># mset (ef_bin ef0 ! i)" unfolding D(7) [OF that(1), symmetric] by simp
    then have "a \<in> set (ef_bin ef0 ! i)" by simp
    then show ?thesis using fe_okD(1) [OF ok that(1)] D(3) by simp
  qed
  have cnt: "count (mset (bins ! i)) a = 1" if "i < estimateFeeDepth" "a \<in> set (bins ! i)" "a \<in> Nw" for i a
  proof -
    have "0 < count (mset (bins ! i)) a" using that(2) by simp
    then show ?thesis using D(10) [OF that(1,3)] by (simp split: if_splits)
  qed
  have one: "btc_at H (ef_heap ef0) a = int i" if "i < estimateFeeDepth" "a \<in> set (bins ! i)" "a \<in> Nw" for i a
    using D(10) [OF that(1,3)] cnt [OF that] by (cases "btc_at H (ef_heap ef0) a = int i") simp_all
  have c1: "\<forall>i < length bins. \<forall>a \<in> set (bins ! i). \<forall>k < length bins. ot_mined (heap ! a) = H \<longrightarrow>
      a \<in> set (bins ! k) \<longrightarrow> i = k"
    using mined one unfolding D(1) by (metis of_nat_eq_iff)
  have c2: "\<forall>i < length bins. \<forall>a \<in> set (bins ! i). a < length heap \<and>
      (ot_mined (heap ! a) = H \<longrightarrow> count (mset (bins ! i)) a = 1)"
    using mined cnt rng unfolding D(1) by blast
  have c3: "\<forall>i < length bins. \<forall>p < ctrs ! i. p < length (bins ! i) \<longrightarrow> ot_mined (heap ! (bins ! i ! p)) \<noteq> H"
    using D(8) mined unfolding D(1) by (metis nth_mem)
  from rollback_bins_eq [OF _ H c1 c2 c3] D(1,2) obtain heap' where h:
    "rollback_bins H heap bins ctrs = (heap', map (filter (\<lambda>a. ot_mined (heap ! a) \<noteq> H)) bins)"
    "length heap' = length heap"
    "\<forall>a < length heap. heap' ! a = (if a \<in> \<Union> (set ` set bins) \<and> ot_mined (heap ! a) = H
       then (heap ! a)\<lparr>ot_mined := UnminedHeight\<rparr> else heap ! a)" by auto
  have "heap' ! a = ef_heap ef0 ! a" if a: "a < length (ef_heap ef0)" for a
  proof (cases "a \<in> Nw")
    case True
    note N = D(5) [OF True]
    let ?i = "nat (btc_at H (ef_heap ef0) a)"
    have i: "?i < estimateFeeDepth" using N by linarith
    have "count (mset (bins ! ?i)) a = 1" using D(10) [OF i True] N by simp
    then have "a \<in> set (bins ! ?i)" by (metis count_mset_0_iff one_neq_zero)
    then have "a \<in> \<Union> (set ` set bins)" using i D(1) by (auto intro!: nth_mem bexI [of _ "bins ! ?i"])
    then show ?thesis using h(3) a D(3) D(4) [OF a] True N by simp
  next
    case False
    have "heap ! a = ef_heap ef0 ! a" using D(4) [OF a] False by simp
    moreover have "\<not> (a \<in> \<Union> (set ` set bins) \<and> ot_mined (heap ! a) = H)"
      using mined False D(1) by (metis UN_E in_set_conv_nth)
    ultimately show ?thesis using h(3) a D(3) by auto
  qed
  then have "heap' = ef_heap ef0" using h(2) D(3) by (intro nth_equalityI) auto
  moreover have "mset (map (filter (\<lambda>a. ot_mined (heap ! a) \<noteq> H)) bins ! i) = mset (ef_bin ef0 ! i)"
    if i: "i < estimateFeeDepth" for i
  proof -
    have "filter (\<lambda>a. ot_mined (heap ! a) \<noteq> H) (bins ! i) = filter (\<lambda>a. a \<notin> Nw) (bins ! i)"
      using mined [OF i] by (intro filter_cong) auto
    then show ?thesis using i D(1) D(7) [OF i] by simp
  qed
  ultimately show ?thesis using h(1) D(1) by auto
qed

text \<open>What \<open>RegisterBlock\<close> did, for an estimator in good order.\<close>

lemma RegisterBlock_inv:
  assumes ok: "fe_ok ef" and h: "- (2 ^ 31) \<le> height" "height < UnminedHeight"
    and r: "RegisterBlock rnd ef height bhash txs = Some (e, ef')"
    and ni: "e \<noteq> Some IntermediateBlock"
  defines "ef0 \<equiv> ef\<lparr>cached := None, lastKnownHeight := height, numBlocksRegistered := numBlocksRegistered ef + 1\<rparr>"
  shows "fe_ok ef0" "\<forall>i < estimateFeeDepth. \<forall>a \<in> set (ef_bin ef ! i). ot_mined (ef_heap ef ! a) < height"
    "\<exists>added ef2 counts drops. reg_inv ef0 height added ef2 counts drops \<and>
      (case e of Some _ \<Rightarrow> ef' = ef2
       | None \<Rightarrow> ef' = (let ef3 = ef2\<lparr>ef_observed := purge_observed height ef2\<rparr> in
           if maxRollback ef = 0 then ef3
           else ef3\<lparr>dropped := (if of_nat (length (dropped ef)) = maxRollback ef then tl (dropped ef) else dropped ef)
                 @ [\<lparr>rb_hash = bhash, rb_transactions = drops\<rparr>]\<rparr>))"
proof -
  have ht: "height = wrap32 (lastKnownHeight ef + 1) \<or> lastKnownHeight ef = UnminedHeight"
    using r ni by (auto simp: RegisterBlock_def Let_def split: if_splits)
  note S = RegisterBlock_start_ok [OF ok h ht]
  show ok0: "fe_ok ef0" using S(1) by (simp add: ef0_def)
  show "\<forall>i < estimateFeeDepth. \<forall>a \<in> set (ef_bin ef ! i). ot_mined (ef_heap ef ! a) < height" by (rule S(2))
  note L = reg_loop_inv [OF ok0 _ reg_inv_start [OF ok0], of height rnd txs]
  show "\<exists>added ef2 counts drops. reg_inv ef0 height added ef2 counts drops \<and>
      (case e of Some _ \<Rightarrow> ef' = ef2
       | None \<Rightarrow> ef' = (let ef3 = ef2\<lparr>ef_observed := purge_observed height ef2\<rparr> in
           if maxRollback ef = 0 then ef3
           else ef3\<lparr>dropped := (if of_nat (length (dropped ef)) = maxRollback ef then tl (dropped ef) else dropped ef)
                 @ [\<lparr>rb_hash = bhash, rb_transactions = drops\<rparr>]\<rparr>))"
  proof (cases "reg_loop height rnd txs (ef0, replicate estimateFeeDepth 0, [])")
    case (Ok s)
    obtain ef2 counts drops where s: "s = (ef2, counts, drops)" by (cases s)
    then obtain added where inv: "reg_inv ef0 height added ef2 counts drops" using L Ok h by auto
    note P = same_paramsD [OF reg_invD(1) [OF inv]]
    have "e = None \<and> ef' = (let ef3 = ef2\<lparr>ef_observed := purge_observed height ef2\<rparr> in
           if maxRollback ef = 0 then ef3
           else ef3\<lparr>dropped := (if of_nat (length (dropped ef)) = maxRollback ef then tl (dropped ef) else dropped ef)
                 @ [\<lparr>rb_hash = bhash, rb_transactions = drops\<rparr>]\<rparr>)"
      using r ht Ok s P(5,6) by (auto simp: RegisterBlock_def Let_def ef0_def split: if_splits)
    then show ?thesis using inv by auto
  next
    case (Err ef2)
    then obtain added counts drops where "reg_inv ef0 height added ef2 counts drops" using L h by auto
    moreover have "e = Some AlreadyMined \<and> ef' = ef2"
      using r ht Err by (auto simp: RegisterBlock_def Let_def ef0_def split: if_splits)
    ultimately show ?thesis by auto
  next
    case Panic
    then show ?thesis using r ht by (auto simp: RegisterBlock_def Let_def ef0_def split: if_splits)
  qed
qed

text \<open>A block that can be registered: the next one, with transactions of different hashes; those observed
  are not mined yet and were observed below the height of the block, and the bins are larger than the number of
  replacements.\<close>

definition registrable :: "FeeEstimator \<Rightarrow> int \<Rightarrow> hash list \<Rightarrow> bool" where
  "registrable ef height txs \<longleftrightarrow> (height = wrap32 (lastKnownHeight ef + 1) \<or> lastKnownHeight ef = UnminedHeight) \<and>
     0 \<le> maxReplacements ef \<and> maxReplacements ef < binSize ef \<and> distinct txs \<and>
     (\<forall>h \<in> set txs. \<forall>a. ef_observed ef h = Some a \<longrightarrow>
        ot_mined (ef_heap ef ! a) = UnminedHeight \<and> 0 \<le> btc_at height (ef_heap ef) a)"

lemma reg_step_ok:
  assumes "length counts = estimateFeeDepth" and "\<forall>i < estimateFeeDepth. int (counts ! i) \<le> maxReplacements ef"
    and "maxReplacements ef < binSize ef"
    and "\<forall>a. ef_observed ef h = Some a \<longrightarrow> ot_mined (ef_heap ef ! a) = UnminedHeight \<and> 0 \<le> btc_at height (ef_heap ef) a"
  shows "\<exists>ef' counts' drops'. reg_step height rnd h (ef, counts, drops) = Ok (ef', counts', drops') \<and>
    length counts' = estimateFeeDepth \<and> (\<forall>i < estimateFeeDepth. int (counts' ! i) \<le> maxReplacements ef) \<and>
    maxReplacements ef' = maxReplacements ef \<and> binSize ef' = binSize ef \<and> ef_observed ef' = ef_observed ef \<and>
    (\<forall>a. ef_observed ef h \<noteq> Some a \<longrightarrow> ef_heap ef' ! a = ef_heap ef ! a)"
proof (cases "ef_observed ef h")
  case None
  then show ?thesis using assms(1,2) by (simp add: reg_step_def)
next
  case (Some a)
  let ?btc = "btc_at height (ef_heap ef) a" and ?b = "nat (btc_at height (ef_heap ef) a)"
  have un: "ot_mined (ef_heap ef ! a) = UnminedHeight" "0 \<le> ?btc" using assms(4) Some by auto
  show ?thesis
  proof (cases "?btc \<ge> int estimateFeeDepth \<or> int (counts ! ?b) = maxReplacements ef")
    case True
    then have "reg_step height rnd h (ef, counts, drops) = Ok (ef, counts, drops)"
      using Some un by (auto simp: reg_step_def Let_def btc_at_def)
    then show ?thesis using assms(1,2) by auto
  next
    case False
    then have b1: "?b < estimateFeeDepth" using un(2) by linarith
    then have "int (counts ! ?b) \<le> maxReplacements ef" using assms(2) by blast
    with False b1 have b: "?b < estimateFeeDepth" "int (counts ! ?b) < maxReplacements ef" by linarith+
    let ?c = "counts[?b := counts ! ?b + 1]"
    have c: "?c ! ?b = counts ! ?b + 1" using b(1) assms(1) by simp
    have room: "\<not> binSize ef - int (?c ! ?b) \<le> 0" unfolding c using b(2) assms(3) by linarith
    have bound: "length ?c = estimateFeeDepth" "\<forall>i < estimateFeeDepth. int (?c ! i) \<le> maxReplacements ef"
      using assms(1,2) b by (auto simp: nth_list_update)
    have other: "(ef_heap ef)[a := x] ! a' = ef_heap ef ! a'" if "ef_observed ef h \<noteq> Some a'" for x a'
      using that Some by (cases "a' = a") simp_all
    obtain bin' drops' where "reg_step height rnd h (ef, counts, drops) =
        Ok (ef\<lparr>ef_heap := (ef_heap ef)[a := (ef_heap ef ! a)\<lparr>ot_mined := height\<rparr>], ef_bin := (ef_bin ef)[?b := bin']\<rparr>, ?c, drops')"
      using Some un False room by (cases "int (length (ef_bin ef ! ?b)) = binSize ef") (simp_all add: reg_step_def Let_def flip: btc_at_def)
    then show ?thesis using bound other by (intro exI conjI) (assumption | simp)+
  qed
qed

lemma reg_loop_ok:
  assumes "length counts = estimateFeeDepth" "\<forall>i < estimateFeeDepth. int (counts ! i) \<le> maxReplacements ef"
    "maxReplacements ef < binSize ef" "distinct txs" "\<And>h a. ef_observed ef h = Some a \<Longrightarrow> name a = h"
    "\<And>h a. h \<in> set txs \<Longrightarrow> ef_observed ef h = Some a \<Longrightarrow>
       ot_mined (ef_heap ef ! a) = UnminedHeight \<and> 0 \<le> btc_at height (ef_heap ef) a"
  shows "\<exists>s. reg_loop height rnd txs (ef, counts, drops) = Ok s"
  using assms
proof (induction txs arbitrary: ef counts drops)
  case (Cons h txs)
  have h: "\<forall>a. ef_observed ef h = Some a \<longrightarrow> ot_mined (ef_heap ef ! a) = UnminedHeight \<and> 0 \<le> btc_at height (ef_heap ef) a"
    using Cons.prems(6) [OF list.set_intros(1)] by blast
  obtain ef1 c1 d1 where s: "reg_step height rnd h (ef, counts, drops) = Ok (ef1, c1, d1)" "length c1 = estimateFeeDepth"
      "\<forall>i < estimateFeeDepth. int (c1 ! i) \<le> maxReplacements ef" "maxReplacements ef1 = maxReplacements ef"
      "binSize ef1 = binSize ef" "ef_observed ef1 = ef_observed ef"
      "\<forall>a. ef_observed ef h \<noteq> Some a \<longrightarrow> ef_heap ef1 ! a = ef_heap ef ! a"
    using reg_step_ok [where ef = ef and h = h and height = height and rnd = rnd and drops = drops, OF Cons.prems(1-3) h]
    by (elim exE conjE) (rule that)
  have "\<exists>s. reg_loop height rnd txs (ef1, c1, d1) = Ok s"
  proof (rule Cons.IH)
    fix h' a assume h': "h' \<in> set txs" "ef_observed ef1 h' = Some a"
    have "h' \<noteq> h" using h'(1) Cons.prems(4) by auto
    then have "ef_observed ef h \<noteq> Some a" using Cons.prems(5) h'(2) s(6) by metis
    then have "ef_heap ef1 ! a = ef_heap ef ! a" using s(7) by blast
    then show "ot_mined (ef_heap ef1 ! a) = UnminedHeight \<and> 0 \<le> btc_at height (ef_heap ef1) a"
      using Cons.prems(6) [of h' a] h' s(6) by (simp add: btc_at_def)
  qed (use s Cons.prems(3-5) in auto)
  then show ?case using s(1) by simp
qed simp

lemma RegisterBlock_succeeds:
  assumes "fe_ok ef" and "registrable ef height txs"
  shows "\<exists>ef'. RegisterBlock rnd ef height bhash txs = Some (None, ef')"
proof -
  let ?ef0 = "ef\<lparr>cached := None, lastKnownHeight := height, numBlocksRegistered := numBlocksRegistered ef + 1\<rparr>"
  have "\<exists>s. reg_loop height rnd txs (?ef0, replicate estimateFeeDepth 0, []) = Ok s"
    by (rule reg_loop_ok [where name = "\<lambda>a. ot_hash (ef_heap ef ! a)"])
      (use assms in \<open>auto simp: registrable_def fe_ok_def\<close>)
  then show ?thesis using assms(2) by (auto simp: RegisterBlock_def registrable_def Let_def split: prod.splits)
qed

subsection \<open>Properties of registering and rolling back\<close>

text \<open>Claim C23 (invariant): observing a transaction and registering a block, whatever the visiting
  order and the random choices and whether it succeeds or fails, keep the estimator in good
  order: 25 bins within their size, holding mined transactions in the bin of the number of blocks
  they took to confirm.\<close>

theorem RegisterBlock_keeps_bins:
  assumes "fe_ok ef" and "- (2 ^ 31) \<le> height" "height < UnminedHeight"
  shows "fe_ok (ObserveTransaction ef h sz fee oh) \<and>
    (case RegisterBlock rnd ef height bhash txs of None \<Rightarrow> True | Some (e, ef') \<Rightarrow> fe_ok ef')"
proof (cases "RegisterBlock rnd ef height bhash txs")
  case None
  then show ?thesis using fe_ok_Observe [OF assms(1)] by simp
next
  case (Some q)
  obtain e ef' where q: "q = (e, ef')" by (cases q)
  have "fe_ok ef'"
  proof (cases "e = Some IntermediateBlock")
    case True
    have "fe_ok (ef\<lparr>cached := None\<rparr>)" using assms(1) by (simp add: fe_ok_def)
    then show ?thesis using Some q True
      by (auto simp: RegisterBlock_def Let_def split: if_splits res.splits)
  next
    case False
    note I = RegisterBlock_inv [OF assms Some [unfolded q] False]
    obtain added ef2 counts drops where inv: "reg_inv (ef\<lparr>cached := None, lastKnownHeight := height,
        numBlocksRegistered := numBlocksRegistered ef + 1\<rparr>) height added ef2 counts drops"
      and e: "case e of Some _ \<Rightarrow> ef' = ef2
       | None \<Rightarrow> ef' = (let ef3 = ef2\<lparr>ef_observed := purge_observed height ef2\<rparr> in
           if maxRollback ef = 0 then ef3
           else ef3\<lparr>dropped := (if of_nat (length (dropped ef)) = maxRollback ef then tl (dropped ef) else dropped ef)
                 @ [\<lparr>rb_hash = bhash, rb_transactions = drops\<rparr>]\<rparr>)" using I(3) by blast
    have "fe_ok ef2" using reg_inv_fe_ok [OF inv I(1)] assms(3) by simp
    then show ?thesis using e fe_ok_purge by (auto simp: Let_def split: option.splits if_splits)
  qed
  then show ?thesis using Some q fe_ok_Observe [OF assms(1)] by simp
qed

text \<open>Claim C19 (functional): registering the next block and then rolling it back undoes the registration as
  far as the estimator can. If the observed transactions of the block are unmined, of different hashes and observed
  below its height, the bins are larger than the number of replacements and the history is not
  disabled (\<open>maxRollback\<close> is not 0), neither call panics or fails; then every observed transaction has
  its state back, every bin holds the same transactions (in some order), the block count is restored and the
  history loses the block. What is not restored: the oldest entry of a full history is lost, and, as
  the comment on \<open>Rollback\<close> says, observations that the block made too old are gone.\<close>

theorem Rollback_undoes_RegisterBlock:
  assumes "fe_ok ef" and "- (2 ^ 31) \<le> height" "height < UnminedHeight" and "maxRollback ef \<noteq> 0"
    and "registrable ef height txs"
  shows "\<exists>ef' ef''. RegisterBlock rnd ef height bhash txs = Some (None, ef') \<and>
    Rollback ef' bhash = Some (None, ef'') \<and> ef_heap ef'' = ef_heap ef \<and>
    (\<forall>i < estimateFeeDepth. mset (ef_bin ef'' ! i) = mset (ef_bin ef ! i)) \<and>
    numBlocksRegistered ef'' = numBlocksRegistered ef \<and> lastKnownHeight ef'' = wrap32 (height - 1) \<and>
    dropped ef'' = (if of_nat (length (dropped ef)) = maxRollback ef then tl (dropped ef) else dropped ef) \<and>
    (\<forall>h. ef_observed ef'' h = ef_observed ef h \<or> ef_observed ef'' h = None \<and>
       (\<exists>a. ef_observed ef h = Some a \<and> int estimateFeeDepth \<le> wrap32 (height - ot_observed (ef_heap ef ! a))))"
proof -
  let ?ef0 = "ef\<lparr>cached := None, lastKnownHeight := height, numBlocksRegistered := numBlocksRegistered ef + 1\<rparr>"
  let ?dr = "if of_nat (length (dropped ef)) = maxRollback ef then tl (dropped ef) else dropped ef"
  obtain ef' where reg: "RegisterBlock rnd ef height bhash txs = Some (None, ef')"
    using RegisterBlock_succeeds [OF assms(1,5)] by blast
  note I = RegisterBlock_inv [OF assms(1-3) reg, simplified]
  from I(3) assms(4) obtain added ef2 counts drops where inv: "reg_inv ?ef0 height added ef2 counts drops"
    and e: "ef' = ef2\<lparr>ef_observed := purge_observed height ef2,
      dropped := ?dr @ [\<lparr>rb_hash = bhash, rb_transactions = drops\<rparr>]\<rparr>"
    by (auto simp: Let_def)
  note P = same_paramsD [OF reg_invD(1) [OF inv]]
  have old: "\<forall>i < estimateFeeDepth. \<forall>a \<in> set (ef_bin ?ef0 ! i). ot_mined (ef_heap ?ef0 ! a) \<noteq> height"
    using I(2) by force
  obtain Nw heap bins ctrs where r: "rollback_dropped height drops (ef_heap ef2, ef_bin ef2, replicate estimateFeeDepth 0)
      = Some (heap, bins, ctrs)" "rb_inv ?ef0 height Nw [] heap bins ctrs"
    using rb_inv_loop [OF I(1) old rb_inv_start [OF inv I(1)]] by blast
  obtain bins' where b: "rollback_bins height heap bins ctrs = (ef_heap ef, bins')"
    "\<forall>i < estimateFeeDepth. mset (bins' ! i) = mset (ef_bin ef ! i)"
    using rollback_bins_restores [OF r(2) I(1) old] assms(3) by auto
  have "find_block bhash (rev (dropped ef')) 1 = Some 1" by (simp add: e)
  moreover have "rollback ef' = Some (ef'\<lparr>cached := None, ef_heap := ef_heap ef, ef_bin := bins',
      dropped := ?dr, numBlocksRegistered := numBlocksRegistered ef, lastKnownHeight := wrap32 (height - 1)\<rparr>)"
    using r(1) b(1) P(4,7) by (simp add: rollback_def e)
  moreover have "ef_observed ef' h = ef_observed ef h \<or> ef_observed ef' h = None \<and>
      (\<exists>a. ef_observed ef h = Some a \<and> int estimateFeeDepth \<le> wrap32 (height - ot_observed (ef_heap ef ! a)))" for h
  proof (cases "ef_observed ef h")
    case (Some a)
    have "a < length (ef_heap ef)" using assms(1) Some by (auto simp: fe_ok_def)
    then have "ot_observed (ef_heap ef2 ! a) = ot_observed (ef_heap ef ! a)" using reg_invD(7) [OF inv, of a] by auto
    then show ?thesis using Some P(3) by (simp add: e purge_observed_def)
  qed (simp add: e purge_observed_def P(3))
  ultimately show ?thesis using b(2)
    by (intro exI [of _ ef'] exI [of _ "ef'\<lparr>cached := None, ef_heap := ef_heap ef, ef_bin := bins',
      dropped := ?dr, numBlocksRegistered := numBlocksRegistered ef, lastKnownHeight := wrap32 (height - 1)\<rparr>"] conjI reg)
      (simp_all add: Rollback_def numeral_eq_Suc)
qed

text \<open>An estimator that has seen block 5 and observed two transactions at height 5.\<close>

definition example_ef :: FeeEstimator where
  "example_ef = ObserveTransaction (ObserveTransaction
     ((NewFeeEstimator 2 1)\<lparr>lastKnownHeight := 5, numBlocksRegistered := 1\<rparr>) [1] 10 50 5) [2] 10 70 5"

theorem Rollback_undoes_RegisterBlock_witness:
  "\<exists>ef' ef''. RegisterBlock (\<lambda>_. 0) example_ef 6 [9] [[1], [2], [3]] = Some (None, ef') \<and> ef_bin ef' ! 0 = [0, 1] \<and>
    Rollback ef' [9] = Some (None, ef'') \<and> ef_heap ef'' = ef_heap example_ef \<and>
    (\<forall>i < estimateFeeDepth. mset (ef_bin ef'' ! i) = mset (ef_bin example_ef ! i)) \<and>
    numBlocksRegistered ef'' = numBlocksRegistered example_ef"
proof -
  have ok: "fe_ok example_ef"
    unfolding example_ef_def
    by (intro fe_ok_Observe) (simp add: fe_ok_def NewFeeEstimator_def estimateFeeBinSize_def UnminedHeight_def)
  have r: "\<exists>ef'. RegisterBlock (\<lambda>_. 0) example_ef 6 [9] [[1], [2], [3]] = Some (None, ef') \<and> ef_bin ef' ! 0 = [0, 1]"
    by (simp add: RegisterBlock_def example_ef_def ObserveTransaction_def NewFeeEstimator_def Let_def
        reg_step_def UnminedHeight_def estimateFeeDepth_def wrap32_def estimateFeeMaxReplacements_def
        estimateFeeBinSize_def nth_append)
  have m: "maxRollback example_ef \<noteq> 0" "registrable example_ef 6 [[1], [2], [3]]"
    by (simp_all add: registrable_def example_ef_def ObserveTransaction_def NewFeeEstimator_def UnminedHeight_def
        estimateFeeMaxReplacements_def estimateFeeBinSize_def wrap32_def btc_at_def nth_append)
  show ?thesis
    using Rollback_undoes_RegisterBlock [OF ok _ _ m, of "\<lambda>_. 0" "[9]"] r by (auto simp: UnminedHeight_def)
qed

theorem RegisterBlock_keeps_bins_witness:
  "fe_ok (NewFeeEstimator 2 1) \<and> fe_ok (ObserveTransaction (NewFeeEstimator 2 1) [1] 10 50 5) \<and>
    (case RegisterBlock (\<lambda>_. 0) (NewFeeEstimator 2 1) 6 [9] [[1]] of None \<Rightarrow> True | Some (e, ef') \<Rightarrow> fe_ok ef')"
  using RegisterBlock_keeps_bins [of "NewFeeEstimator 2 1" 6 "[1]" 10 50 5 "\<lambda>_. 0" "[9]" "[[1]]"]
    fe_ok_New [of 2 1] by (simp add: UnminedHeight_def)

subsection \<open>Properties of the estimates\<close>

definition cache_ok :: "FeeEstimator \<Rightarrow> bool" where
  "cache_ok ef \<longleftrightarrow> cached ef = None \<or> cached ef = Some (estimates ef)"

text \<open>Claim C24 (functional): with an up-to-date or empty cache, \<open>EstimateFee\<close> fails exactly when
  too few blocks are registered or the number of blocks is 0 or above 25; otherwise the estimate
  is the fee rate of a confirmed transaction (0 when there is none), waiting longer never costs
  more, and the cache stays valid.\<close>

theorem EstimateFee_monotone:
  assumes "cache_ok ef" and "minRegisteredBlocks ef \<le> numBlocksRegistered ef"
    and "1 \<le> n" "n \<le> m" "m \<le> of_nat estimateFeeDepth"
  shows "\<exists>feeN feeM. fst (EstimateFee ef n) = Ok feeN \<and> fst (EstimateFee ef m) = Ok feeM \<and>
    feeM \<le> feeN \<and> cache_ok (snd (EstimateFee ef n)) \<and>
    feeN \<in> {0} \<union> (\<lambda>a. ot_feeRate (ef_heap ef ! a)) ` set (concat (ef_bin ef))"
proof -
  have nm: "1 \<le> unat n" "unat n \<le> unat m" "unat m \<le> estimateFeeDepth"
    using assms(3-5) by (simp_all add: word_le_nat_alt unat_of_nat estimateFeeDepth_def)
  have val: "fst (EstimateFee ef k) = Ok (estimateFee (newEstimateFeeSet ef) (int (unat k)))"
    if "1 \<le> unat k" "unat k \<le> estimateFeeDepth" for k
  proof -
    have "k \<noteq> 0" "\<not> of_nat estimateFeeDepth < k"
      using that by (auto simp: word_less_nat_alt unat_of_nat estimateFeeDepth_def)
    moreover have "estimates ef ! (unat k - 1) = estimateFee (newEstimateFeeSet ef) (int (unat k))"
      using that estimates_nth [of "unat k - 1" ef] by simp
    ultimately show ?thesis using assms(1,2) by (auto simp: EstimateFee_def cache_ok_def Let_def)
  qed
  have "cache_ok (snd (EstimateFee ef n))"
    using assms(1) by (auto simp: EstimateFee_def cache_ok_def Let_def estimates_def newEstimateFeeSet_def)
  then show ?thesis
    using nm val [of n] val [of m] estimateFee_antimono [of "unat n" "unat m" ef]
      estimateFee_observed [of "unat n" ef] by auto
qed

theorem EstimateFee_monotone_witness:
  "\<exists>feeN feeM. fst (EstimateFee (NewFeeEstimator 2 0) 1) = Ok feeN \<and> fst (EstimateFee (NewFeeEstimator 2 0) 3) = Ok feeM \<and>
    feeM \<le> feeN \<and> cache_ok (snd (EstimateFee (NewFeeEstimator 2 0) 1)) \<and>
    feeN \<in> {0} \<union> (\<lambda>a. ot_feeRate (ef_heap (NewFeeEstimator 2 0) ! a)) ` set (concat (ef_bin (NewFeeEstimator 2 0)))"
  by (rule EstimateFee_monotone) (simp_all add: cache_ok_def NewFeeEstimator_def estimateFeeDepth_def)

end
