(* ===== verification/GoStrings.thy ===== *)
theory GoStrings
  imports Prelude
begin

text \<open>
  What the repository uses of Go's \<open>strconv\<close>, \<open>strings\<close> and \<open>encoding/binary\<close>: decimal printing
  and parsing, splitting at a separator, and little-endian integers.
\<close>

subsection \<open>Decimal numbers\<close>

definition digit_char :: "nat \<Rightarrow> char" where
  "digit_char d = char_of (48 + d)"

fun digits_of :: "nat \<Rightarrow> string" where
  "digits_of n = (if n < 10 then [digit_char n] else digits_of (n div 10) @ [digit_char (n mod 10)])"

declare digits_of.simps [simp del]

definition Itoa :: "int \<Rightarrow> string" where
  "Itoa i = (if i < 0 then CHR ''-'' # digits_of (nat (- i)) else digits_of (nat i))"

definition is_digit :: "char \<Rightarrow> bool" where
  "is_digit c \<longleftrightarrow> 48 \<le> (of_char c :: nat) \<and> (of_char c :: nat) \<le> 57"

definition digits_value :: "string \<Rightarrow> nat" where
  "digits_value s = foldl (\<lambda>acc c. acc * 10 + (of_char c - 48)) 0 s"

text \<open>\<open>strconv.Atoi\<close>: an optional sign and at least one digit, within the range of \<open>int\<close>.\<close>

definition Atoi :: "string \<Rightarrow> int option" where
  "Atoi s =
     (let (neg, ds) = (case s of
             [] \<Rightarrow> (False, [])
           | c # r \<Rightarrow> if c = CHR ''-'' then (True, r) else if c = CHR ''+'' then (False, r) else (False, s));
          v = (if neg then - int (digits_value ds) else int (digits_value ds))
      in if ds \<noteq> [] \<and> list_all is_digit ds \<and> - (2 ^ 63) \<le> v \<and> v < 2 ^ 63 then Some v else None)"

lemma of_char_digit [simp]: "d < 10 \<Longrightarrow> of_char (digit_char d) = 48 + d"
  by (simp add: digit_char_def)

lemma is_digit_char [simp]: "d < 10 \<Longrightarrow> is_digit (digit_char d)"
  by (simp add: is_digit_def)

lemma digits_of_nonempty [simp]: "digits_of n \<noteq> []"
  by (subst digits_of.simps) simp

lemma digits_of_digits: "list_all is_digit (digits_of n)"
proof (induction n rule: digits_of.induct)
  case (1 n)
  then show ?case by (subst digits_of.simps) auto
qed

lemma digits_value_snoc: "digits_value (s @ [c]) = digits_value s * 10 + (of_char c - 48)"
  by (simp add: digits_value_def)

lemma digits_value_of: "digits_value (digits_of n) = n"
proof (induction n rule: digits_of.induct)
  case (1 n)
  show ?case
  proof (cases "n < 10")
    case True
    then show ?thesis using digits_value_snoc [of "[]"] by (simp add: digits_of.simps [of n] digits_value_def)
  next
    case False
    then have "digits_value (digits_of n) = n div 10 * 10 + n mod 10"
      using 1 by (simp add: digits_of.simps [of n] digits_value_snoc)
    then show ?thesis by simp
  qed
qed

lemma digit_not_sign:
  assumes "is_digit c"
  shows "c \<noteq> CHR ''-'' \<and> c \<noteq> CHR ''+''"
  using assms by (auto simp: is_digit_def)

lemma Atoi_Itoa:
  assumes "0 \<le> i" "i < 2 ^ 63"
  shows "Atoi (Itoa i) = Some i"
proof -
  obtain c r where d: "digits_of (nat i) = c # r" by (cases "digits_of (nat i)") auto
  have "is_digit c" "list_all is_digit (c # r)" using digits_of_digits [of "nat i"] d by auto
  moreover from this(1) have "c \<noteq> CHR ''-''" "c \<noteq> CHR ''+''" using digit_not_sign by auto
  moreover have "int (digits_value (c # r)) = i" using digits_value_of [of "nat i"] d assms by simp
  ultimately show ?thesis using assms d by (simp add: Itoa_def Atoi_def)
qed

lemma Itoa_no_dash: "0 \<le> i \<Longrightarrow> CHR ''-'' \<notin> set (Itoa i)"
  using digits_of_digits [of "nat i"] digit_not_sign by (auto simp: Itoa_def list_all_iff)

subsection \<open>\<open>strings.Split\<close>\<close>

fun has_prefix :: "'a list \<Rightarrow> 'a list \<Rightarrow> bool" where
  "has_prefix [] s = True"
| "has_prefix (p # ps) [] = False"
| "has_prefix (p # ps) (c # s) = (p = c \<and> has_prefix ps s)"

text \<open>For a non-empty separator; \<open>acc\<close> is the current field.\<close>

function split_acc :: "string \<Rightarrow> string \<Rightarrow> string \<Rightarrow> string list" where
  "split_acc sep acc s =
     (if s = [] \<or> sep = [] then [acc @ s]
      else if has_prefix sep s then acc # split_acc sep [] (drop (length sep) s)
      else split_acc sep (acc @ [hd s]) (tl s))"
  by pat_completeness auto
termination
  by (relation "measure (\<lambda>(sep, acc, s). length s)")
    (auto simp flip: length_greater_0_conv simp: length_tl)

declare split_acc.simps [simp del]

definition strings_Split :: "string \<Rightarrow> string \<Rightarrow> string list" where
  "strings_Split s sep = split_acc sep [] s"

lemma has_prefix_append [simp]: "has_prefix p (p @ s)"
  by (induction p) auto

lemma has_prefix_iff: "has_prefix p s \<longleftrightarrow> (\<exists>t. s = p @ t)"
  by (induction p s rule: has_prefix.induct) auto

lemma split_acc_field:
  "sep = c # sep' \<Longrightarrow> c \<notin> set a \<Longrightarrow> split_acc sep acc (a @ sep @ s) = (acc @ a) # split_acc sep [] s"
proof (induction a arbitrary: acc)
  case Nil
  then show ?case by (subst split_acc.simps) simp
next
  case (Cons x a)
  then have "\<not> has_prefix sep (x # a @ sep @ s)" by auto
  then show ?case using Cons by (subst split_acc.simps) auto
qed

lemma split_acc_last: "sep = c # sep' \<Longrightarrow> c \<notin> set a \<Longrightarrow> split_acc sep acc a = [acc @ a]"
proof (induction a arbitrary: acc)
  case Nil
  then show ?case by (subst split_acc.simps) simp
next
  case (Cons x a)
  then have "\<not> has_prefix sep (x # a)" by auto
  then show ?case using Cons by (subst split_acc.simps) auto
qed

lemma strings_Split_1:
  "sep = c # sep' \<Longrightarrow> c \<notin> set a \<Longrightarrow> strings_Split a sep = [a]"
  using split_acc_last [of sep c sep' a "[]"] by (simp add: strings_Split_def)

lemma strings_Split_field:
  "sep = c # sep' \<Longrightarrow> c \<notin> set a \<Longrightarrow> strings_Split (a @ sep @ b) sep = a # strings_Split b sep"
  using split_acc_field [of sep c sep' a "[]" b] by (simp add: strings_Split_def)

text \<open>\<open>strings.Join\<close>.\<close>

fun Join :: "string \<Rightarrow> string list \<Rightarrow> string" where
  "Join sep [] = []"
| "Join sep [w] = w"
| "Join sep (w # v # ws) = w @ sep @ Join sep (v # ws)"

subsection \<open>Little-endian integers\<close>

definition PutUint32 :: "u32 \<Rightarrow> bytes" where
  "PutUint32 w = map (\<lambda>i. ucast (drop_bit (8 * i) w)) [0, 1, 2, 3]"

definition Uint32 :: "bytes \<Rightarrow> u32" where
  "Uint32 b = foldr (\<lambda>d acc. acc * 256 + ucast d) b 0"

lemma length_PutUint32 [simp]: "length (PutUint32 w) = 4"
  by (simp add: PutUint32_def)

lemma nested_digits:
  "u = d1 * 256 + m0 \<Longrightarrow> d1 = d2 * 256 + m1 \<Longrightarrow> d2 = d3 * 256 + m2 \<Longrightarrow>
   u = m0 + 256 * (m1 + 256 * (m2 + 256 * d3))" for u :: nat
  by simp

lemma Uint32_PutUint32: "Uint32 (PutUint32 w) = w"
proof -
  let ?u = "unat w"
  have bb: "unat (ucast x :: byte) = unat x mod 256" for x :: u32
    by (simp add: unsigned_ucast_eq take_bit_eq_mod)
  have b: "unat (ucast (drop_bit n w) :: byte) = ?u div 2 ^ n mod 256" for n
  proof -
    have "unat (drop_bit n w) = drop_bit n ?u" by (rule unat_drop_bit_eq)
    then show ?thesis by (simp only: bb drop_bit_eq_div [where ?'a = nat])
  qed
  have "unat w < 2 ^ 32" using unsigned_less [of w, where ?'a = nat] by simp
  then have t: "?u div 16777216 mod 256 = ?u div 16777216" by simp
  have e0: "?u div 256 * 256 + ?u mod 256 = ?u" by simp
  have e1: "?u div 65536 * 256 + ?u div 256 mod 256 = ?u div 256"
    using div_mult_mod_eq [of "?u div 256" 256] by (simp flip: div_mult2_eq)
  have e2: "?u div 16777216 * 256 + ?u div 65536 mod 256 = ?u div 65536"
    using div_mult_mod_eq [of "?u div 65536" 256] by (simp flip: div_mult2_eq)
  have e: "?u = ?u mod 256 + 256 * (?u div 256 mod 256 + 256 * (?u div 65536 mod 256 + 256 * (?u div 16777216 mod 256)))"
    unfolding t by (rule nested_digits [OF e0 [symmetric] e1 [symmetric] e2 [symmetric]])
  have c: "(ucast d :: u32) = of_nat (unat d)" for d :: byte by simp
  let ?o = "of_nat :: nat \<Rightarrow> u32"
  have "Uint32 (PutUint32 w) = ?o (?u mod 256 + 256 * (?u div 256 mod 256 + 256 * (?u div 65536 mod 256 + 256 * (?u div 16777216 mod 256))))"
    unfolding PutUint32_def Uint32_def list.map foldr.simps comp_def id_def c b of_nat_add of_nat_mult
    by (simp add: mult.commute add.commute)
  also have "\<dots> = ?o ?u" using e by (rule arg_cong [OF sym])
  finally show ?thesis by simp
qed

lemma PutUint32_inject [simp]: "PutUint32 v = PutUint32 w \<longleftrightarrow> v = w"
  by (metis Uint32_PutUint32)

subsection \<open>JSON of byte slices (\<open>encoding/json\<close>, \<open>encoding/base64\<close>)\<close>

definition b64_table :: string where
  "b64_table = ''ABCDEFGHIJKLMNOPQRSTUVWXYZabcdefghijklmnopqrstuvwxyz0123456789+/''"

definition b64_char :: "nat \<Rightarrow> char" where
  "b64_char n = b64_table ! n"

definition b64_val :: "char \<Rightarrow> nat option" where
  "b64_val c = map_of (zip b64_table [0..<64]) c"

definition b64_quad :: "nat \<Rightarrow> string" where
  "b64_quad n = [b64_char (n div 262144), b64_char (n div 4096 mod 64), b64_char (n div 64 mod 64), b64_char (n mod 64)]"

fun base64_Encode :: "bytes \<Rightarrow> string" where
  "base64_Encode [] = []"
| "base64_Encode [a] = take 2 (b64_quad (unat a * 65536)) @ ''==''"
| "base64_Encode [a, b] = take 3 (b64_quad (unat a * 65536 + unat b * 256)) @ ''=''"
| "base64_Encode (a # b # c # r) = b64_quad (unat a * 65536 + unat b * 256 + unat c) @ base64_Encode r"

fun b64_sextets :: "string \<Rightarrow> nat option" where
  "b64_sextets [] = Some 0"
| "b64_sextets (c # cs) =
     (case (b64_val c, b64_sextets cs) of
        (Some v, Some m) \<Rightarrow> Some (v * 64 ^ length cs + m)
      | _ \<Rightarrow> None)"

fun base64_Decode :: "string \<Rightarrow> bytes option" where
  "base64_Decode [] = Some []"
| "base64_Decode (p # q # r # s # rest) =
     (if s = CHR ''='' then
        if rest \<noteq> [] then None
        else if r = CHR ''='' then map_option (\<lambda>n. [of_nat (n div 16)]) (b64_sextets [p, q])
        else map_option (\<lambda>n. [of_nat (n div 1024), of_nat (n div 4)]) (b64_sextets [p, q, r])
      else case (b64_sextets [p, q, r, s], base64_Decode rest) of
             (Some n, Some bs) \<Rightarrow> Some (of_nat (n div 65536) # of_nat (n div 256) # of_nat n # bs)
           | _ \<Rightarrow> None)"
| "base64_Decode _ = None"

text \<open>\<open>json.Marshal\<close> of a \<open>[][]byte\<close>: an array of base64 strings, without white space.\<close>

fun json_join :: "string list \<Rightarrow> string" where
  "json_join [] = []"
| "json_join [x] = x"
| "json_join (x # y # zs) = x @ '','' @ json_join (y # zs)"

definition json_quote :: "bytes \<Rightarrow> string" where
  "json_quote b = CHR 0x22 # base64_Encode b @ [CHR 0x22]"

definition json_Marshal_slices :: "bytes list \<Rightarrow> bytes" where
  "json_Marshal_slices bs = bytes_of_string (''['' @ json_join (map json_quote bs) @ '']'')"

text \<open>\<open>json.Unmarshal\<close> into a \<open>[][]byte\<close>, on the compact form \<open>json.Marshal\<close> writes, which is
  all that is ever stored under the keys it is applied to.\<close>

definition json_unquote :: "string \<Rightarrow> bytes option" where
  "json_unquote s =
     (if 2 \<le> length s \<and> hd s = CHR 0x22 \<and> last s = CHR 0x22 then base64_Decode (butlast (tl s)) else None)"

definition json_Unmarshal_slices :: "bytes \<Rightarrow> bytes list option" where
  "json_Unmarshal_slices b =
     (let s = string_of_bytes b in
      if 2 \<le> length s \<and> hd s = CHR ''['' \<and> last s = CHR '']'' then
        let inner = butlast (tl s) in
        if inner = [] then Some []
        else those (map json_unquote (strings_Split inner '',''))
      else None)"

lemma b64_val_char: "n < 64 \<Longrightarrow> b64_val (b64_char n) = Some n"
proof -
  have "list_all (\<lambda>n. b64_val (b64_char n) = Some n) [0..<64]" by code_simp
  then show "n < 64 \<Longrightarrow> ?thesis" by (simp add: list_all_iff)
qed

lemma b64_char_plain: "n < 64 \<Longrightarrow> b64_char n \<notin> {CHR ''='', CHR '','', CHR 0x22}"
proof -
  have "list_all (\<lambda>n. b64_char n \<noteq> CHR ''='' \<and> b64_char n \<noteq> CHR '','' \<and> b64_char n \<noteq> CHR 0x22) [0..<64]"
    by code_simp
  then show "n < 64 \<Longrightarrow> ?thesis" by (simp add: list_all_iff)
qed

lemma b64_quad_parts:
  "n < 16777216 \<Longrightarrow> n div 262144 < 64 \<and> n div 4096 mod 64 < 64 \<and> n div 64 mod 64 < 64 \<and> n mod 64 < 64"
  for n :: nat by auto

lemma b64_sextets_quad:
  "n < 16777216 \<Longrightarrow> b64_sextets (b64_quad n) = Some n"
  "n < 16777216 \<Longrightarrow> b64_sextets (take 3 (b64_quad n)) = Some (n div 64)"
  "n < 16777216 \<Longrightarrow> b64_sextets (take 2 (b64_quad n)) = Some (n div 4096)"
proof -
  assume n: "n < 16777216"
  note p = b64_quad_parts [OF n]
  have a: "n div 64 * 64 + n mod 64 = n" by simp
  have b: "n div 4096 * 64 + n div 64 mod 64 = n div 64"
    using div_mult_mod_eq [of "n div 64" 64] by (simp flip: div_mult2_eq)
  have c: "n div 262144 * 64 + n div 4096 mod 64 = n div 4096"
    using div_mult_mod_eq [of "n div 4096" 64] by (simp flip: div_mult2_eq)
  have "n div 262144 * 262144 + (n div 4096 mod 64 * 4096 + (n div 64 mod 64 * 64 + n mod 64)) = n"
    "n div 262144 * 4096 + (n div 4096 mod 64 * 64 + n div 64 mod 64) = n div 64"
    "n div 262144 * 64 + n div 4096 mod 64 = n div 4096"
    using a b c by linarith+
  then show "b64_sextets (b64_quad n) = Some n"
    "b64_sextets (take 3 (b64_quad n)) = Some (n div 64)"
    "b64_sextets (take 2 (b64_quad n)) = Some (n div 4096)"
    using p by (simp_all add: b64_quad_def b64_val_char)
qed

lemma byte_of_low: "(of_nat (m * 256 + unat b) :: byte) = b"
proof -
  have "unat (of_nat (m * 256 + unat b) :: byte) = (m * 256 + unat b) mod 256" by (simp only: unat_of_nat) simp
  also have "\<dots> = unat b" by simp
  finally show ?thesis by (simp only: word_unat_eq_iff)
qed

lemma byte_of_low2:
  assumes "n = unat a * 65536 + unat b * 256 + unat c"
  shows "(of_nat (n div 65536) :: byte) = a" "(of_nat (n div 256) :: byte) = b" "(of_nat n :: byte) = c"
    "n < 16777216"
proof -
  have n: "n = (unat a * 256 + unat b) * 256 + unat c" using assms by simp
  have "(x * 256 + unat c) div 256 = x" for x by simp
  then have d: "n div 256 = unat a * 256 + unat b" unfolding n .
  then have "n div 65536 = unat a" using div_mult2_eq [of n 256 256] by simp
  then show "(of_nat (n div 65536) :: byte) = a" by simp
  show "(of_nat (n div 256) :: byte) = b" unfolding d by (rule byte_of_low)
  show "(of_nat n :: byte) = c" unfolding n by (rule byte_of_low)
  show "n < 16777216" using assms byte_lt [of a] byte_lt [of b] byte_lt [of c] by linarith
qed

lemma b64_group:
  assumes "n < 16777216"
  shows "base64_Decode (b64_quad n @ r) =
      (case base64_Decode r of None \<Rightarrow> None | Some bs \<Rightarrow> Some (of_nat (n div 65536) # of_nat (n div 256) # of_nat n # bs))"
    "base64_Decode (take 3 (b64_quad n) @ ''='') = Some [of_nat (n div 65536), of_nat (n div 256)]"
    "base64_Decode (take 2 (b64_quad n) @ ''=='') = Some [of_nat (n div 65536)]"
proof -
  obtain p q r' s where q: "b64_quad n = [p, q, r', s]" by (simp add: b64_quad_def)
  have ne: "r' \<noteq> CHR ''=''" "s \<noteq> CHR ''=''"
    using q b64_quad_parts [OF assms] b64_char_plain by (auto simp: b64_quad_def)
  have "n div 64 div 1024 = n div 65536" "n div 64 div 4 = n div 256" "n div 4096 div 16 = n div 65536"
    by (simp_all flip: div_mult2_eq)
  with b64_sextets_quad [OF assms] ne show "base64_Decode (b64_quad n @ r) =
      (case base64_Decode r of None \<Rightarrow> None | Some bs \<Rightarrow> Some (of_nat (n div 65536) # of_nat (n div 256) # of_nat n # bs))"
    "base64_Decode (take 3 (b64_quad n) @ ''='') = Some [of_nat (n div 65536), of_nat (n div 256)]"
    "base64_Decode (take 2 (b64_quad n) @ ''=='') = Some [of_nat (n div 65536)]"
    by (simp_all add: q del: b64_sextets.simps)
qed

lemma base64_Decode_Encode: "base64_Decode (base64_Encode b) = Some b"
proof (induction b rule: base64_Encode.induct)
  case (2 a)
  obtain n where n: "n = unat a * 65536 + unat (0 :: byte) * 256 + unat (0 :: byte)" by simp
  then have "base64_Encode [a] = take 2 (b64_quad n) @ ''==''" by simp
  then show ?case using b64_group(3) byte_of_low2 [OF n] by metis
next
  case (3 a b)
  obtain n where n: "n = unat a * 65536 + unat b * 256 + unat (0 :: byte)" by simp
  then have "base64_Encode [a, b] = take 3 (b64_quad n) @ ''=''" by simp
  then show ?case using b64_group(2) byte_of_low2 [OF n] by metis
next
  case (4 a b c r)
  obtain n where n: "n = unat a * 65536 + unat b * 256 + unat c" by simp
  then have "base64_Encode (a # b # c # r) = b64_quad n @ base64_Encode r" by simp
  then show ?case using b64_group(1) [of n "base64_Encode r"] byte_of_low2 [OF n] 4 by simp
qed simp

lemma base64_plain: "set (base64_Encode b) \<inter> {CHR '','', CHR 0x22} = {}"
proof (induction b rule: base64_Encode.induct)
  case (2 a)
  have n: "unat a * 65536 < 16777216" using byte_lt [of a] by linarith
  then show ?case using b64_char_plain b64_quad_parts [OF n] by (auto simp: b64_quad_def)
next
  case (3 a b)
  have n: "unat a * 65536 + unat b * 256 < 16777216" using byte_lt [of a] byte_lt [of b] by linarith
  then show ?case using b64_char_plain b64_quad_parts [OF n] by (auto simp: b64_quad_def)
next
  case (4 a b c r)
  have n: "unat a * 65536 + unat b * 256 + unat c < 16777216"
    using byte_lt [of a] byte_lt [of b] byte_lt [of c] by linarith
  then show ?case using 4 b64_char_plain b64_quad_parts [OF n] by (auto simp: b64_quad_def)
qed simp

lemma json_unquote_quote [simp]: "json_unquote (json_quote b) = Some b"
  by (simp add: json_unquote_def json_quote_def base64_Decode_Encode)

lemma json_quote_no_comma: "CHR '','' \<notin> set (json_quote b)"
  using base64_plain [of b] by (auto simp: json_quote_def)

lemma split_join:
  "xs \<noteq> [] \<Longrightarrow> \<forall>x \<in> set xs. CHR '','' \<notin> set x \<Longrightarrow> strings_Split (json_join xs) '','' = xs"
proof (induction xs rule: json_join.induct)
  case (2 x)
  then show ?case by (simp add: strings_Split_1 [where c = "CHR '',''"])
next
  case (3 x y zs)
  then have "strings_Split (x @ '','' @ json_join (y # zs)) '','' = x # strings_Split (json_join (y # zs)) '',''"
    by (intro strings_Split_field) auto
  then show ?case using 3 by simp
qed simp

lemma those_map_Some: "(\<And>x. f (g x) = Some x) \<Longrightarrow> those (map f (map g xs)) = Some xs"
  by (induction xs) auto

lemma json_join_nonempty: "json_join (map json_quote (b # bs)) \<noteq> []"
  by (cases bs) (simp_all add: json_quote_def)

lemma json_slices_roundtrip: "json_Unmarshal_slices (json_Marshal_slices bs) = Some bs"
proof (cases bs)
  case Nil
  then show ?thesis by (simp add: json_Unmarshal_slices_def json_Marshal_slices_def)
next
  case (Cons b cs)
  have "strings_Split (json_join (map json_quote bs)) '','' = map json_quote bs"
    using Cons json_quote_no_comma by (intro split_join) auto
  moreover have "those (map json_unquote (map json_quote bs)) = Some bs" by (rule those_map_Some) simp
  ultimately show ?thesis
    using json_join_nonempty [of b cs] Cons
    by (simp add: json_Unmarshal_slices_def json_Marshal_slices_def Let_def comp_def)
qed

lemma json_Marshal_nonempty [simp]: "json_Marshal_slices bs \<noteq> []"
  by (simp add: json_Marshal_slices_def bytes_of_string_def)

subsection \<open>Conversions of integers to strings\<close>

definition FormatUint :: "u64 \<Rightarrow> string" where
  "FormatUint w = Itoa (uint w)"

text \<open>\<open>int(w)\<close> of a \<open>uint64\<close> reads the same bits as a signed number.\<close>

definition int_of_u64 :: "u64 \<Rightarrow> int" where
  "int_of_u64 w = wrap64 (uint w)"

text \<open>The conversion \<open>string(n)\<close> of an integer is the UTF-8 encoding of the code point \<open>n\<close>; every
  value that is not a code point gives U+FFFD.\<close>

definition utf8_error :: string where
  "utf8_error = map char_of [0xEF, 0xBF, 0xBD :: nat]"

definition string_of_int :: "int \<Rightarrow> string" where
  "string_of_int x =
     (let n = nat x in
      if x < 0 \<or> 0x10FFFF < x \<or> (0xD800 \<le> x \<and> x \<le> 0xDFFF) then utf8_error
      else if n < 0x80 then [char_of n]
      else if n < 0x800 then map char_of [0xC0 + n div 64, 0x80 + n mod 64]
      else if n < 0x10000 then map char_of [0xE0 + n div 4096, 0x80 + n div 64 mod 64, 0x80 + n mod 64]
      else map char_of [0xF0 + n div 262144, 0x80 + n div 4096 mod 64, 0x80 + n div 64 mod 64, 0x80 + n mod 64])"

text \<open>\<open>math.Ceil(float64(n) / 1024)\<close>; a \<open>float64\<close> holds the sizes it is applied to (below \<open>2 ^ 53\<close>)
  exactly.\<close>

definition ceil_kb :: "u64 \<Rightarrow> u64" where
  "ceil_kb n = of_nat ((unat n + 1023) div 1024)"

text \<open>\<open>json.Encoder.Encode\<close> of a \<open>*Hash\<close>, an array of numbers followed by a new line.\<close>

definition json_bytes :: "bytes option \<Rightarrow> string" where
  "json_bytes h =
     (case h of None \<Rightarrow> ''null'' | Some b \<Rightarrow> ''['' @ json_join (map (\<lambda>d. Itoa (uint d)) b) @ '']'')"

definition ToBytes_hash :: "bytes option \<Rightarrow> string" where
  "ToBytes_hash h = json_bytes h @ [CHR 0x0A]"

end
