(* ===== verification/Transaction.thy ===== *)
theory Transaction
  imports IncMerkle GoStrings Base58
begin

text \<open>
  Package \<open>transaction\<close>: the coin transaction \<open>Tx\<close> with its join-split descriptions, the custom
  token transaction, the loan, dividend, bond, crowdsale and voting transactions that embed one of
  them, their hashes, validation and sizes (\<open>src/transaction/*.go\<close>), and the signature bytes of
  \<open>src/privacy-protocol/signature.go\<close> and \<open>src/cashec/keyset.go\<close>.

  A slice the code compares with \<open>nil\<close> is an option of a list. \<open>PS\<close> stands for the protobuf text of
  a proof, which a generated file outside the repository's own code prints.
\<close>

type_synonym 'a slice = "'a list option"

definition elems :: "'a slice \<Rightarrow> 'a list" where
  "elems s = (case s of None \<Rightarrow> [] | Some xs \<Rightarrow> xs)"

lemma elems_simps [simp]: "elems None = []" "elems (Some xs) = xs"
  by (simp_all add: elems_def)

subsection \<open>Constants\<close>

definition TxVersion :: int where "TxVersion = 1"
definition NumDescInputs :: nat where "NumDescInputs = 2"
definition NumDescOutputs :: nat where "NumDescOutputs = 2"
definition LoanKeyDigestLen :: nat where "LoanKeyDigestLen = 32"
definition LoanKeyLen :: nat where "LoanKeyLen = 32"
definition CustomTokenInit :: int where "CustomTokenInit = 0"
definition CustomTokenTransfer :: int where "CustomTokenTransfer = 1"

definition TxNormalType :: string where "TxNormalType = ''n''"
definition TxSalaryType :: string where "TxSalaryType = ''s''"
definition TxCustomTokenType :: string where "TxCustomTokenType = ''t''"
definition TxLoanRequestType :: string where "TxLoanRequestType = ''lr''"
definition TxLoanResponseType :: string where "TxLoanResponseType = ''ls''"
definition TxLoanPaymentType :: string where "TxLoanPaymentType = ''lp''"
definition TxLoanWithdrawType :: string where "TxLoanWithdrawType = ''lw''"
definition TxDividendPayoutType :: string where "TxDividendPayoutType = ''td''"
definition TxBuyFromGOVRequestType :: string where "TxBuyFromGOVRequestType = ''bgr''"
definition TxBuyBackRequestType :: string where "TxBuyBackRequestType = ''bbr''"

lemmas tx_type_defs =
  TxNormalType_def TxSalaryType_def TxCustomTokenType_def TxLoanRequestType_def TxLoanResponseType_def
  TxLoanPaymentType_def TxLoanWithdrawType_def TxDividendPayoutType_def TxBuyFromGOVRequestType_def
  TxBuyBackRequestType_def

subsection \<open>Payment addresses and signatures\<close>

record PaymentAddress =
  Pk :: bytes
  Tk :: bytes

record PaymentInfo =
  pi_PaymentAddress :: PaymentAddress
  pi_Amount :: u64

text \<open>\<open>addr.Pk[:33]\<close> of a shorter key panics.\<close>

definition PaymentAddress_ToBytes :: "PaymentAddress \<Rightarrow> bytes option" where
  "PaymentAddress_ToBytes addr =
     (if length (Pk addr) < 33 \<or> length (Tk addr) < 33 then None
      else Some (take 33 (Pk addr) @ take 33 (Tk addr)))"

definition PaymentAddress_Size :: "PaymentAddress \<Rightarrow> nat" where
  "PaymentAddress_Size addr = length (Pk addr) + length (Tk addr)"

text \<open>\<open>copy\<close> into a fresh 33-byte slice: a short source leaves zeros, a long one is cut.\<close>

definition copy33 :: "bytes \<Rightarrow> bytes" where
  "copy33 b = take 33 b @ replicate (33 - length b) 0"

definition PaymentAddress_FromBytes :: "bytes \<Rightarrow> PaymentAddress option" where
  "PaymentAddress_FromBytes b =
     (if length b < 33 then None
      else Some \<lparr>Pk = copy33 (take 33 b), Tk = copy33 (drop 33 b)\<rparr>)"

definition SigToByteArray :: "nat \<Rightarrow> nat \<Rightarrow> bytes" where
  "SigToByteArray r s = big_Bytes r @ big_Bytes s"

text \<open>A slice expression is bounded by the capacity of the slice, not by its length: \<open>spare\<close> is what the
  underlying array holds after the last byte of the signature.\<close>

definition FromByteArrayToSig :: "bytes \<Rightarrow> bytes \<Rightarrow> (nat \<times> nat) option" where
  "FromByteArrayToSig spare sig =
     (let arr = sig @ spare
      in if length arr < 64 then None
         else Some (big_SetBytes (take 32 arr), big_SetBytes (take 32 (drop 32 arr))))"

text \<open>\<open>Verify\<close> of \<open>signature.go\<close>. \<open>ec_Verify E address hash r s\<close> stands for decompressing the key and
  checking the ECDSA equation on the curve (\<open>None\<close>: nil point dereferenced), \<open>ec_spare E\<close> for what the
  allocator leaves between the length and the capacity of a slice with the given bytes.\<close>

record ecdsa =
  ec_Verify :: "bytes \<Rightarrow> bytes \<Rightarrow> nat \<Rightarrow> nat \<Rightarrow> bool option"
  ec_spare :: "bytes \<Rightarrow> bytes"

definition privacy_Verify :: "ecdsa \<Rightarrow> bytes \<Rightarrow> bytes \<Rightarrow> bytes \<Rightarrow> bool option" where
  "privacy_Verify E signature hash address =
     (case FromByteArrayToSig (ec_spare E signature) signature of
        None \<Rightarrow> None
      | Some (r, s) \<Rightarrow> ec_Verify E address hash r s)"

definition KeySet_Verify :: "ecdsa \<Rightarrow> bytes \<Rightarrow> bytes \<Rightarrow> bytes \<Rightarrow> bool option" where
  "KeySet_Verify E pk data signature = privacy_Verify E signature (HashB data) pk"

datatype keyset_error = BadPublicKey | BadSignatureEncoding | InvalidSignature

text \<open>The public key is copied into the nil slice of a fresh \<open>KeySet\<close>, which copies nothing: the
  signature is checked against an empty key.\<close>

definition ValidateDataB58 :: "ecdsa \<Rightarrow> string \<Rightarrow> string \<Rightarrow> bytes \<Rightarrow> (keyset_error, unit) res" where
  "ValidateDataB58 E pubkey sig data =
     (case Base58Check_Decode pubkey of
        Err e \<Rightarrow> Err BadPublicKey
      | Panic \<Rightarrow> Panic
      | Ok _ \<Rightarrow>
         (case Base58Check_Decode sig of
            Err e \<Rightarrow> Err BadSignatureEncoding
          | Panic \<Rightarrow> Panic
          | Ok (decSig, _) \<Rightarrow>
             (case KeySet_Verify E [] data decSig of
                None \<Rightarrow> Panic
              | Some isValid \<Rightarrow> if isValid then Ok () else Err InvalidSignature)))"

subsection \<open>Join-split descriptions\<close>

record PHGRProof =
  G_A :: bytes
  G_APrime :: bytes
  G_B :: bytes
  G_BPrime :: bytes
  G_C :: bytes
  G_CPrime :: bytes
  G_K :: bytes
  G_H :: bytes

record JoinSplitDesc =
  Anchor :: "bytes list"
  Nullifiers :: "bytes list"
  Commitments :: "bytes list"
  Proof :: "PHGRProof option"
  EncryptedData :: "bytes list"
  EphemeralPubKey :: bytes
  HSigSeed :: bytes
  Reward :: u64
  Vmacs :: "bytes list"
  desc_Note :: "Note slice"

type_synonym proof_string = "PHGRProof option \<Rightarrow> string"

definition EphemeralKeyLength :: u64 where "EphemeralKeyLength = 32"

definition EstimateJSDescSize :: u64 where
  "EstimateJSDescSize =
     (let sizeAnchor = 32; sizeNullifiers = 64; sizeCommitments = 64; sizeProof = 33 * 7 + 65;
          sizeEncryptedData = 2 * (8 + 32 + 32); sizeEphemeralPubKey = EphemeralKeyLength;
          sizeHSigSeed = 32; sizeType = 8; sizeReward = 8; sizeVmacs = 64
      in sizeAnchor + sizeNullifiers + sizeCommitments + sizeProof +
         sizeEncryptedData + sizeEphemeralPubKey + sizeHSigSeed + sizeType + sizeReward + sizeVmacs)"

definition desc_toString :: "proof_string \<Rightarrow> JoinSplitDesc \<Rightarrow> string" where
  "desc_toString PS desc =
     concat (map string_of_bytes (Anchor desc)) @
     concat (map string_of_bytes (Nullifiers desc)) @
     concat (map string_of_bytes (Commitments desc)) @
     PS (Proof desc) @
     concat (map string_of_bytes (EncryptedData desc))"

definition AppendNote :: "JoinSplitDesc \<Rightarrow> Note \<Rightarrow> JoinSplitDesc" where
  "AppendNote self n = self\<lparr>desc_Note := Some (elems (desc_Note self) @ [n])\<rparr>"

definition GetNote :: "JoinSplitDesc \<Rightarrow> Note slice" where
  "GetNote self = desc_Note self"

subsection \<open>\<open>Tx\<close>\<close>

record Tx =
  Version :: int
  tx_Type :: string
  LockTime :: int
  Fee :: u64
  Descs :: "JoinSplitDesc list"
  JSPubKey :: "bytes option"
  JSSig :: "bytes option"
  AddressLastByte :: byte
  txId :: "hash option"
  RequestedTxID :: "hash option"

definition SetTxID :: "Tx \<Rightarrow> hash option \<Rightarrow> Tx" where
  "SetTxID tx h = tx\<lparr>txId := h\<rparr>"

definition GetTxID :: "Tx \<Rightarrow> hash option" where
  "GetTxID tx = txId tx"

definition Tx_record :: "proof_string \<Rightarrow> Tx \<Rightarrow> string" where
  "Tx_record PS tx =
     Itoa (Version tx) @ tx_Type tx @ Itoa (LockTime tx) @ FormatUint (Fee tx) @
     Itoa (int (length (Descs tx))) @
     concat (map (desc_toString PS) (Descs tx)) @
     string_of_bytes (elems (JSPubKey tx)) @
     string_of_int (uint (AddressLastByte tx))"

definition Tx_Hash :: "proof_string \<Rightarrow> Tx \<Rightarrow> hash" where
  "Tx_Hash PS tx = DoubleHashH (bytes_of_string (Tx_record PS tx))"

text \<open>The method returns before any check; what follows the \<open>return\<close> is unreachable.\<close>

definition Tx_ValidateTransaction :: "Tx \<Rightarrow> bool" where
  "Tx_ValidateTransaction tx = True"

definition Tx_GetType :: "Tx \<Rightarrow> string" where
  "Tx_GetType tx = tx_Type tx"

definition Tx_GetTxVirtualSize :: "Tx \<Rightarrow> u64" where
  "Tx_GetTxVirtualSize tx =
     (let sizeVersion = 1; sizeType = 8; sizeLockTime = 8; sizeFee = 8;
          sizeDescs = of_int (Max_int 1 (int (length (Descs tx)))) * EstimateJSDescSize;
          sizejSPubKey = 64; sizejSSig = 64;
          estimateTxSizeInByte =
            sizeVersion + sizeType + sizeLockTime + sizeFee + sizeDescs + sizejSPubKey + sizejSSig
      in ceil_kb estimateTxSizeInByte)"

definition Tx_GetTxFee :: "Tx \<Rightarrow> u64" where
  "Tx_GetTxFee tx = Fee tx"

definition Tx_GetSenderAddrLastByte :: "Tx \<Rightarrow> byte" where
  "Tx_GetSenderAddrLastByte tx = AddressLastByte tx"

definition Tx_ListNullifiers :: "Tx \<Rightarrow> bytes list" where
  "Tx_ListNullifiers tx = concat (map Nullifiers (Descs tx))"

definition EstimateTxSize :: "Tx list \<Rightarrow> PaymentInfo slice \<Rightarrow> u64" where
  "EstimateTxSize usableTx payments =
     (let sizeDescs = (case payments of
             Some ps \<Rightarrow> of_int (Max_int 1 (int (length usableTx) + int (length ps) - 3)) * EstimateJSDescSize
           | None \<Rightarrow> of_int (Max_int 1 (int (length usableTx) - 3)) * EstimateJSDescSize);
          estimateTxSizeInByte = 1 + 8 + 8 + 8 + sizeDescs + 64 + 64
      in ceil_kb estimateTxSizeInByte)"

definition PubKeyToByteArray :: "nat \<Rightarrow> nat \<Rightarrow> bytes" where
  "PubKeyToByteArray x y = big_Bytes x @ big_Bytes y"

definition JSSigToByteArray :: "nat \<Rightarrow> nat \<Rightarrow> bytes" where
  "JSSigToByteArray r s = big_Bytes r @ big_Bytes s"

text \<open>\<open>CreateEmptyTx\<close> draws a key pair and reads the clock; the public key and the time are
  arguments. The private key, which only \<open>SignTx\<close> uses, is left out of the record.\<close>

definition CreateEmptyTx :: "int \<Rightarrow> nat \<times> nat \<Rightarrow> string \<Rightarrow> Tx" where
  "CreateEmptyTx now sigPubKey txType =
     \<lparr>Version = TxVersion, tx_Type = txType, LockTime = now, Fee = 0, Descs = [],
      JSPubKey = Some (PubKeyToByteArray (fst sigPubKey) (snd sigPubKey)), JSSig = None,
      AddressLastByte = 0, txId = None, RequestedTxID = None\<rparr>"

datatype sign_error = NotUnsigned | NotSigned | SignFailed

text \<open>\<open>sign\<close> stands for \<open>client.Sign\<close> with the transaction's private key.\<close>

definition SignTx :: "proof_string \<Rightarrow> (bytes \<Rightarrow> (nat \<times> nat) option) \<Rightarrow> Tx \<Rightarrow> (sign_error, Tx) res" where
  "SignTx PS sign tx =
     (if JSSig tx \<noteq> None then Err NotUnsigned
      else let tx1 = SetTxID tx (Some (Tx_Hash PS tx))
           in case sign (Tx_Hash PS tx) of
                None \<Rightarrow> Err SignFailed
              | Some (r, s) \<Rightarrow> Ok (tx1\<lparr>JSSig := Some (JSSigToByteArray r s)\<rparr>))"

text \<open>\<open>verify x y data r s\<close> stands for \<open>client.VerifySign\<close>. A nil transaction id is dereferenced,
  and a key or signature is sliced up to its capacity as in \<open>FromByteArrayToSig\<close>.\<close>

definition VerifySign :: "(nat \<Rightarrow> nat \<Rightarrow> bytes \<Rightarrow> nat \<Rightarrow> nat \<Rightarrow> bool) \<Rightarrow> (bytes \<Rightarrow> bytes) \<Rightarrow> Tx \<Rightarrow> (sign_error, bool) res" where
  "VerifySign verify spare tx =
     (case (JSSig tx, JSPubKey tx) of
        (Some sig, Some pub) \<Rightarrow>
          (case (FromByteArrayToSig (spare pub) pub, FromByteArrayToSig (spare sig) sig, GetTxID tx) of
             (Some (x, y), Some (r, s), Some h) \<Rightarrow> Ok (verify x y h r s)
           | _ \<Rightarrow> Panic)
      | _ \<Rightarrow> Err NotSigned)"

text \<open>\<open>CalculateTxValue\<close>: what a transaction without privacy sends to others than its initiator,
  and the address of the last receiver.\<close>

fun tx_value_notes :: "bytes \<Rightarrow> Note list \<Rightarrow> PaymentAddress option \<times> u64 \<Rightarrow> PaymentAddress option \<times> u64" where
  "tx_value_notes initiator [] acc = acc"
| "tx_value_notes initiator (n # ns) (addr, txValue) =
     (if Apk n = initiator then tx_value_notes initiator ns (addr, txValue)
      else tx_value_notes initiator ns (Some \<lparr>Pk = Apk n, Tk = []\<rparr>, txValue + Value n))"

definition CalculateTxValue :: "Tx \<Rightarrow> PaymentAddress option \<times> u64" where
  "CalculateTxValue tx =
     tx_value_notes (elems (JSPubKey tx)) (concat (map (\<lambda>d. elems (desc_Note d)) (Descs tx))) (None, 0)"

subsection \<open>Custom tokens\<close>

record BuyBackInfo =
  bb_StartSellingAt :: u32
  bb_Maturity :: u32
  bb_BuyBackPrice :: u64

record BuySellResponse =
  bs_BuyBackInfo :: "BuyBackInfo option"
  AssetID :: string

record TxTokenVin =
  vin_TxCustomTokenID :: hash
  VoutIndex :: int
  Signature :: string
  vin_PaymentAddress :: PaymentAddress

definition TxTokenVin_Hash :: "TxTokenVin \<Rightarrow> hash" where
  "TxTokenVin_Hash self =
     DoubleHashH (bytes_of_string
       (hash_String (vin_TxCustomTokenID self) @ Itoa (VoutIndex self) @ Signature self @
        Base58Check_Encode (Pk (vin_PaymentAddress self)) 0))"

record TxTokenVout =
  vout_Value :: u64
  vout_PaymentAddress :: PaymentAddress
  BondID :: string
  vout_index :: int
  vout_txCustomTokenID :: hash
  vout_BuySellResponse :: "BuySellResponse option"

definition TxTokenVout_Hash :: "TxTokenVout \<Rightarrow> hash" where
  "TxTokenVout_Hash self =
     DoubleHashH (bytes_of_string
       (FormatUint (vout_Value self) @ Base58Check_Encode (Pk (vout_PaymentAddress self)) 0))"

definition SetIndex :: "TxTokenVout \<Rightarrow> int \<Rightarrow> TxTokenVout" where
  "SetIndex self index = self\<lparr>vout_index := index\<rparr>"

definition GetIndex :: "TxTokenVout \<Rightarrow> int" where
  "GetIndex self = vout_index self"

definition SetTxCustomTokenID :: "TxTokenVout \<Rightarrow> hash \<Rightarrow> TxTokenVout" where
  "SetTxCustomTokenID self h = self\<lparr>vout_txCustomTokenID := h\<rparr>"

definition GetTxCustomTokenID :: "TxTokenVout \<Rightarrow> hash" where
  "GetTxCustomTokenID self = vout_txCustomTokenID self"

record TxTokenData =
  PropertyID :: hash
  PropertyName :: string
  PropertySymbol :: string
  td_Type :: int
  td_Amount :: u64
  Vins :: "TxTokenVin list"
  Vouts :: "TxTokenVout slice"

datatype token_error = VoutIsEmpty | TokenExists | BadTokenTxType | CreateTxFailed

definition TxTokenData_Hash :: "TxTokenData \<Rightarrow> (token_error, hash) res" where
  "TxTokenData_Hash self =
     (case Vouts self of
        None \<Rightarrow> Err VoutIsEmpty
      | Some vs \<Rightarrow>
          Ok (DoubleHashH (bytes_of_string
                (PropertyName self @ PropertySymbol self @ FormatUint (td_Amount self) @
                 concat (map (\<lambda>out. string_of_bytes (Pk (vout_PaymentAddress out))) vs)))))"

text \<open>Of the unexported cache \<open>listUtxo\<close> the code only looks up a transaction's outputs.\<close>

record TxCustomToken =
  ct_Tx :: Tx
  ct_TxTokenData :: TxTokenData
  BoardType :: byte
  BoardSigns :: "(string \<times> bytes) list"
  listUtxo :: "(hash \<times> TxTokenVout list) list"

definition SetListUtxo :: "TxCustomToken \<Rightarrow> (hash \<times> TxTokenVout list) list \<Rightarrow> TxCustomToken" where
  "SetListUtxo tx data = tx\<lparr>listUtxo := data\<rparr>"

definition TxCustomToken_record :: "proof_string \<Rightarrow> Tx \<Rightarrow> TxTokenData \<Rightarrow> string" where
  "TxCustomToken_record PS tx d =
     hash_String (Tx_Hash PS tx) @ PropertyName d @ PropertySymbol d @ Itoa (td_Type d) @
     Itoa (int_of_u64 (td_Amount d))"

definition TxCustomToken_Hash :: "proof_string \<Rightarrow> TxCustomToken \<Rightarrow> hash" where
  "TxCustomToken_Hash PS tx =
     DoubleHashH (bytes_of_string (TxCustomToken_record PS (ct_Tx tx) (ct_TxTokenData tx)))"

text \<open>The loop over the inputs returns in its first round. An unknown output is indexed in the
  empty slice of a zero \<open>TxCustomToken\<close>.\<close>

definition TxCustomToken_ValidateTransaction :: "ecdsa \<Rightarrow> TxCustomToken \<Rightarrow> bool option" where
  "TxCustomToken_ValidateTransaction E tx =
     (if Tx_ValidateTransaction (ct_Tx tx) then
        if listUtxo tx = [] then Some False
        else (case Vins (ct_TxTokenData tx) of
                [] \<Rightarrow> Some True
              | vin # _ \<Rightarrow>
                  let vouts = (case map_of (listUtxo tx) (vin_TxCustomTokenID vin) of None \<Rightarrow> [] | Some vs \<Rightarrow> vs)
                  in if VoutIndex vin < 0 \<or> int (length vouts) \<le> VoutIndex vin then None
                     else KeySet_Verify E (Pk (vin_PaymentAddress vin))
                            (TxTokenVout_Hash (vouts ! nat (VoutIndex vin)))
                            (bytes_of_string (Signature vin)))
      else Some False)"

definition TxCustomToken_GetTxVirtualSize :: "TxCustomToken \<Rightarrow> u64" where
  "TxCustomToken_GetTxVirtualSize tx =
     (let d = ct_TxTokenData tx;
          normalTxSize = Tx_GetTxVirtualSize (ct_Tx tx);
          fixedPart = of_nat (length (PropertyName d)) + of_nat (length (PropertyName d)) +
                      of_nat (length (PropertyID d)) + 4;
          vinPart = sum_list (map (\<lambda>vin. of_nat (length (Signature vin)) + of_nat (length (vin_TxCustomTokenID vin))
                      + 4 + of_nat (PaymentAddress_Size (vin_PaymentAddress vin))) (Vins d));
          voutPart = sum_list (map (\<lambda>vout. of_nat (length (BondID vout)) + 8 +
                      of_nat (PaymentAddress_Size (vout_PaymentAddress vout))) (elems (Vouts d)))
      in normalTxSize + (fixedPart + vinPart + voutPart))"

record CustomTokenParamTx =
  cp_PropertyID :: string
  cp_PropertyName :: string
  cp_PropertySymbol :: string
  cp_Amount :: u64
  TokenTxType :: int
  Receiver :: "TxTokenVout list"
  cp_vins :: "TxTokenVin list"
  cp_vinsAmount :: u64

definition SetVins :: "CustomTokenParamTx \<Rightarrow> TxTokenVin list \<Rightarrow> CustomTokenParamTx" where
  "SetVins self vins = self\<lparr>cp_vins := vins\<rparr>"

definition SetVinsAmount :: "CustomTokenParamTx \<Rightarrow> u64 \<Rightarrow> CustomTokenParamTx" where
  "SetVinsAmount self vinsAmount = self\<lparr>cp_vinsAmount := vinsAmount\<rparr>"

definition new_vout :: "PaymentAddress \<Rightarrow> u64 \<Rightarrow> TxTokenVout" where
  "new_vout addr v = \<lparr>vout_Value = v, vout_PaymentAddress = addr, BondID = [], vout_index = 0,
     vout_txCustomTokenID = zero_hash, vout_BuySellResponse = None\<rparr>"

definition new_token_data :: "CustomTokenParamTx \<Rightarrow> TxTokenData" where
  "new_token_data tokenParams =
     \<lparr>PropertyID = zero_hash, PropertyName = cp_PropertyName tokenParams,
      PropertySymbol = cp_PropertySymbol tokenParams, td_Type = TokenTxType tokenParams,
      td_Amount = 0, Vins = [], Vouts = None\<rparr>"

definition new_token_tx :: "Tx \<Rightarrow> TxTokenData \<Rightarrow> TxCustomToken" where
  "new_token_tx ntx d =
     \<lparr>ct_Tx = ntx\<lparr>tx_Type := TxCustomTokenType\<rparr>, ct_TxTokenData = d, BoardType = 0, BoardSigns = [],
      listUtxo = []\<rparr>"

text \<open>The two cases of \<open>CreateTxCustomToken\<close>. \<open>Receiver[0]\<close> and \<open>vins[0]\<close> of an empty slice are
  out of range, and \<open>*propertyID\<close> of an undecodable token id dereferences nil. The existing tokens
  are the keys of \<open>listCustomTokens\<close>.\<close>

definition token_init :: "CustomTokenParamTx \<Rightarrow> hash list \<Rightarrow> (token_error, TxTokenData) res" where
  "token_init tokenParams listCustomTokens =
     (case Receiver tokenParams of
        [] \<Rightarrow> Panic
      | receiver # _ \<Rightarrow>
          let d = (new_token_data tokenParams)\<lparr>td_Amount := cp_Amount tokenParams,
                     Vouts := Some [new_vout (vout_PaymentAddress receiver) (vout_Value receiver)]\<rparr>
          in case TxTokenData_Hash d of
               Err e \<Rightarrow> Err BadTokenTxType
             | Panic \<Rightarrow> Panic
             | Ok hashInitToken \<Rightarrow>
                 if list_ex (\<lambda>h. hash_String hashInitToken = hash_String h) listCustomTokens
                 then Err TokenExists
                 else Ok (d\<lparr>PropertyID := hashInitToken\<rparr>))"

definition token_transfer :: "CustomTokenParamTx \<Rightarrow> (token_error, TxTokenData) res" where
  "token_transfer tokenParams =
     (let paymentTokenAmount = sum_list (map vout_Value (Receiver tokenParams));
          refundTokenAmount = cp_vinsAmount tokenParams - paymentTokenAmount
      in case NewHashFromStr (cp_PropertyID tokenParams) of
           Ok propertyID \<Rightarrow>
             (case cp_vins tokenParams of
                [] \<Rightarrow> Panic
              | vin # _ \<Rightarrow>
                  Ok ((new_token_data tokenParams)\<lparr>PropertyID := propertyID, Vins := cp_vins tokenParams,
                        Vouts := Some (map (\<lambda>r. new_vout (vout_PaymentAddress r) (vout_Value r)) (Receiver tokenParams)
                                       @ [new_vout (vin_PaymentAddress vin) refundTokenAmount])\<rparr>))
         | _ \<Rightarrow> Panic)"

text \<open>\<open>CreateTxCustomToken\<close>, given the result of the \<open>CreateTx\<close> call that pays the fee.\<close>

definition CreateTxCustomToken ::
  "Tx option \<Rightarrow> CustomTokenParamTx \<Rightarrow> hash list \<Rightarrow> (token_error, TxCustomToken) res" where
  "CreateTxCustomToken normalTx tokenParams listCustomTokens =
     (case normalTx of
        None \<Rightarrow> Err CreateTxFailed
      | Some ntx \<Rightarrow>
          and_then
            (if TokenTxType tokenParams = CustomTokenInit then token_init tokenParams listCustomTokens
             else if TokenTxType tokenParams = CustomTokenTransfer then token_transfer tokenParams
             else Err BadTokenTxType)
            (\<lambda>d. Ok (new_token_tx ntx d)))"

subsection \<open>Loans\<close>

text \<open>The embedded pointers (\<open>*LoanRequest\<close> and its siblings) are non-nil.\<close>

record LoanParams =
  InterestRate :: u64
  lp_Maturity :: u64
  LiquidationStart :: u64

record LoanRequest =
  lr_Params :: LoanParams
  lr_LoanID :: bytes
  CollateralType :: string
  CollateralTx :: bytes
  CollateralAmount :: "int option"
  LoanAmount :: u64
  ReceiveAddress :: "PaymentAddress option"
  KeyDigest :: bytes

record TxLoanRequest =
  lreq_Tx :: Tx
  lreq_LoanRequest :: LoanRequest

text \<open>\<open>String\<close> of a nil \<open>*big.Int\<close> is \<open><nil>\<close>; a nil receive address is dereferenced.\<close>

definition big_String :: "int option \<Rightarrow> string" where
  "big_String n = (case n of None \<Rightarrow> ''<nil>'' | Some i \<Rightarrow> Itoa i)"

definition TxLoanRequest_Hash :: "proof_string \<Rightarrow> TxLoanRequest \<Rightarrow> hash option" where
  "TxLoanRequest_Hash PS tx =
     (let lr = lreq_LoanRequest tx in
      case Option.bind (ReceiveAddress lr) PaymentAddress_ToBytes of
        None \<Rightarrow> None
      | Some addr \<Rightarrow>
          Some (DoubleHashH (bytes_of_string
            (hash_String (Tx_Hash PS (lreq_Tx tx)) @ string_of_bytes (lr_LoanID lr) @ CollateralType lr @
             string_of_bytes (CollateralTx lr) @ big_String (CollateralAmount lr) @
             string_of_bytes (lr_LoanID lr) @ string_of_bytes addr))))"

definition TxLoanRequest_ValidateTransaction :: "TxLoanRequest \<Rightarrow> bool" where
  "TxLoanRequest_ValidateTransaction tx =
     (if \<not> Tx_ValidateTransaction (lreq_Tx tx) then False
      else if CollateralType (lreq_LoanRequest tx) \<noteq> ''ETH'' then False
      else if length (KeyDigest (lreq_LoanRequest tx)) \<noteq> LoanKeyDigestLen then False
      else True)"

definition TxLoanRequest_GetType :: "TxLoanRequest \<Rightarrow> string" where
  "TxLoanRequest_GetType tx = TxLoanRequestType"

text \<open>\<open>ValidLoanResponse\<close> is an \<open>int\<close> with two named values.\<close>

definition Accept :: int where "Accept = 0"
definition Reject :: int where "Reject = 1"

record LoanResponse =
  ls_LoanID :: bytes
  Response :: int
  ValidUntil :: u64

record TxLoanResponse =
  lres_Tx :: Tx
  lres_LoanResponse :: LoanResponse

definition TxLoanResponse_Hash :: "proof_string \<Rightarrow> TxLoanResponse \<Rightarrow> hash" where
  "TxLoanResponse_Hash PS tx =
     DoubleHashH (bytes_of_string
       (hash_String (Tx_Hash PS (lres_Tx tx)) @ string_of_bytes (ls_LoanID (lres_LoanResponse tx)) @
        Itoa (int_of_u64 (ValidUntil (lres_LoanResponse tx)))))"

definition TxLoanResponse_ValidateTransaction :: "TxLoanResponse \<Rightarrow> bool" where
  "TxLoanResponse_ValidateTransaction tx =
     (if \<not> Tx_ValidateTransaction (lres_Tx tx) then False
      else if Response (lres_LoanResponse tx) \<noteq> Accept \<or> Response (lres_LoanResponse tx) \<noteq> Reject then False
      else True)"

definition TxLoanResponse_GetType :: "TxLoanResponse \<Rightarrow> string" where
  "TxLoanResponse_GetType tx = TxLoanResponseType"

record LoanPayment =
  lpay_LoanID :: bytes

record TxLoanPayment =
  lpay_Tx :: Tx
  lpay_LoanPayment :: LoanPayment

definition TxLoanPayment_Hash :: "proof_string \<Rightarrow> TxLoanPayment \<Rightarrow> hash" where
  "TxLoanPayment_Hash PS tx =
     DoubleHashH (bytes_of_string
       (hash_String (Tx_Hash PS (lpay_Tx tx)) @ string_of_bytes (lpay_LoanID (lpay_LoanPayment tx))))"

definition TxLoanPayment_ValidateTransaction :: "TxLoanPayment \<Rightarrow> bool" where
  "TxLoanPayment_ValidateTransaction tx =
     (if \<not> Tx_ValidateTransaction (lpay_Tx tx) then False
      else if list_ex (\<lambda>desc. desc_Note desc = None) (Descs (lpay_Tx tx)) then False
      else True)"

definition TxLoanPayment_GetType :: "TxLoanPayment \<Rightarrow> string" where
  "TxLoanPayment_GetType tx = TxLoanPaymentType"

record LoanWithdraw =
  lw_LoanID :: bytes
  lw_Key :: bytes

record TxLoanWithdraw =
  lwd_Tx :: Tx
  lwd_LoanWithdraw :: LoanWithdraw

definition TxLoanWithdraw_Hash :: "proof_string \<Rightarrow> TxLoanWithdraw \<Rightarrow> hash" where
  "TxLoanWithdraw_Hash PS tx =
     DoubleHashH (bytes_of_string
       (hash_String (Tx_Hash PS (lwd_Tx tx)) @ string_of_bytes (lw_LoanID (lwd_LoanWithdraw tx)) @
        string_of_bytes (lw_Key (lwd_LoanWithdraw tx))))"

definition TxLoanWithdraw_ValidateTransaction :: "TxLoanWithdraw \<Rightarrow> bool" where
  "TxLoanWithdraw_ValidateTransaction tx =
     (if \<not> Tx_ValidateTransaction (lwd_Tx tx) then False
      else if length (lw_Key (lwd_LoanWithdraw tx)) \<noteq> LoanKeyLen then False
      else True)"

definition TxLoanWithdraw_GetType :: "TxLoanWithdraw \<Rightarrow> string" where
  "TxLoanWithdraw_GetType tx = TxLoanWithdrawType"

text \<open>\<open>CreateTxLoanRequest\<close>, \<open>-Response\<close>, \<open>-Payment\<close> and \<open>-Withdraw\<close>, given the result of the
  \<open>CreateTx\<close> call with the fee arguments: the data is attached and the type of the embedded
  transaction stays the normal one.\<close>

definition CreateTxLoanRequest :: "('e, Tx) res \<Rightarrow> LoanRequest \<Rightarrow> ('e, TxLoanRequest) res" where
  "CreateTxLoanRequest feeTx loanRequest =
     and_then feeTx (\<lambda>tx. Ok \<lparr>lreq_Tx = tx, lreq_LoanRequest = loanRequest\<rparr>)"

definition CreateTxLoanResponse :: "('e, Tx) res \<Rightarrow> LoanResponse \<Rightarrow> ('e, TxLoanResponse) res" where
  "CreateTxLoanResponse feeTx loanResponse =
     and_then feeTx (\<lambda>tx. Ok \<lparr>lres_Tx = tx, lres_LoanResponse = loanResponse\<rparr>)"

definition CreateTxLoanPayment :: "('e, Tx) res \<Rightarrow> LoanPayment \<Rightarrow> ('e, TxLoanPayment) res" where
  "CreateTxLoanPayment feeTx loanPayment =
     and_then feeTx (\<lambda>tx. Ok \<lparr>lpay_Tx = tx, lpay_LoanPayment = loanPayment\<rparr>)"

definition CreateTxLoanWithdraw :: "('e, Tx) res \<Rightarrow> LoanWithdraw \<Rightarrow> ('e, TxLoanWithdraw) res" where
  "CreateTxLoanWithdraw feeTx loanWithdraw =
     and_then feeTx (\<lambda>tx. Ok \<lparr>lwd_Tx = tx, lwd_LoanWithdraw = loanWithdraw\<rparr>)"

subsection \<open>Dividends, bonds and crowdsales\<close>

record DividendPayout =
  PayoutID :: u64
  TokenID :: "hash option"

record TxDividendPayout =
  div_Tx :: Tx
  div_DividendPayout :: DividendPayout

text \<open>A nil token id is dereferenced.\<close>

definition TxDividendPayout_Hash :: "proof_string \<Rightarrow> TxDividendPayout \<Rightarrow> hash option" where
  "TxDividendPayout_Hash PS tx =
     map_option (\<lambda>t. DoubleHashH (bytes_of_string
       (hash_String (Tx_Hash PS (div_Tx tx)) @ FormatUint (PayoutID (div_DividendPayout tx)) @ string_of_bytes t)))
       (TokenID (div_DividendPayout tx))"

definition TxDividendPayout_ValidateTransaction :: "TxDividendPayout \<Rightarrow> bool" where
  "TxDividendPayout_ValidateTransaction tx = (if \<not> Tx_ValidateTransaction (div_Tx tx) then False else True)"

definition TxDividendPayout_GetType :: "TxDividendPayout \<Rightarrow> string" where
  "TxDividendPayout_GetType tx = TxDividendPayoutType"

record BuyBackRequestInfo =
  BuyBackFromTxID :: hash
  bbr_VoutIndex :: int

record TxBuyBackRequest =
  bbr_Info :: BuyBackRequestInfo
  bbr_Tx :: Tx

definition CreateTxBuyBackRequest :: "('e, Tx) res \<Rightarrow> BuyBackRequestInfo \<Rightarrow> ('e, TxBuyBackRequest) res" where
  "CreateTxBuyBackRequest feeTx info =
     and_then feeTx (\<lambda>tx. Ok \<lparr>bbr_Info = info, bbr_Tx = tx\<lparr>tx_Type := TxBuyBackRequestType\<rparr>\<rparr>)"

definition TxBuyBackRequest_Hash :: "proof_string \<Rightarrow> TxBuyBackRequest \<Rightarrow> hash" where
  "TxBuyBackRequest_Hash PS tx =
     DoubleHashH (bytes_of_string
       (hash_String (Tx_Hash PS (bbr_Tx tx)) @ hash_String (BuyBackFromTxID (bbr_Info tx)) @
        string_of_int (bbr_VoutIndex (bbr_Info tx))))"

definition TxBuyBackRequest_ValidateTransaction :: "TxBuyBackRequest \<Rightarrow> bool" where
  "TxBuyBackRequest_ValidateTransaction tx = (if \<not> Tx_ValidateTransaction (bbr_Tx tx) then False else True)"

definition TxBuyBackRequest_GetTxVirtualSize :: "TxBuyBackRequest \<Rightarrow> u64" where
  "TxBuyBackRequest_GetTxVirtualSize tx = 0"

record RequestInfo =
  ri_PaymentAddress :: PaymentAddress
  AssetType :: hash
  ri_Amount :: u64
  BuyPrice :: u64

record TxBuySellRequest =
  bsr_Info :: RequestInfo
  bsr_Tx :: Tx

definition TxCreateBuySellRequest :: "('e, Tx) res \<Rightarrow> RequestInfo \<Rightarrow> ('e, TxBuySellRequest) res" where
  "TxCreateBuySellRequest feeTx info =
     and_then feeTx (\<lambda>tx. Ok \<lparr>bsr_Info = info, bsr_Tx = tx\<lparr>tx_Type := TxBuyFromGOVRequestType\<rparr>\<rparr>)"

definition TxBuySellRequest_Hash :: "proof_string \<Rightarrow> TxBuySellRequest \<Rightarrow> hash" where
  "TxBuySellRequest_Hash PS tx =
     DoubleHashH (bytes_of_string
       (hash_String (Tx_Hash PS (bsr_Tx tx)) @ hash_String (AssetType (bsr_Info tx)) @
        string_of_int (uint (ri_Amount (bsr_Info tx))) @ string_of_int (uint (BuyPrice (bsr_Info tx)))))"

definition TxBuySellRequest_ValidateTransaction :: "TxBuySellRequest \<Rightarrow> bool" where
  "TxBuySellRequest_ValidateTransaction tx = (if \<not> Tx_ValidateTransaction (bsr_Tx tx) then False else True)"

definition TxBuySellRequest_GetTxVirtualSize :: "TxBuySellRequest \<Rightarrow> u64" where
  "TxBuySellRequest_GetTxVirtualSize tx = 0"

record SaleData =
  SaleID :: bytes
  sd_BondID :: bytes
  BaseAsset :: string
  QuoteAsset :: string
  Price :: u64
  EscrowAccount :: PaymentAddress

record TxCrowdsale =
  cs_TxCustomToken :: TxCustomToken
  cs_SaleData :: SaleData

definition TxCrowdsale_Hash :: "proof_string \<Rightarrow> TxCrowdsale \<Rightarrow> hash" where
  "TxCrowdsale_Hash PS tx =
     (let ct = cs_TxCustomToken tx; sd = cs_SaleData tx
      in DoubleHashH (bytes_of_string
           (TxCustomToken_record PS (ct_Tx ct) (ct_TxTokenData ct) @ string_of_bytes (SaleID sd) @
            BaseAsset sd @ QuoteAsset sd @ FormatUint (Price sd) @
            string_of_bytes (Pk (EscrowAccount sd)))))"

definition TxCrowdsale_ValidateTransaction :: "TxCrowdsale \<Rightarrow> bool" where
  "TxCrowdsale_ValidateTransaction tx =
     (if Tx_ValidateTransaction (ct_Tx (cs_TxCustomToken tx)) then
        let vouts = elems (Vouts (ct_TxTokenData (cs_TxCustomToken tx)));
            bondID = (case vouts of [] \<Rightarrow> [] | v # _ \<Rightarrow> BondID v)
        in if list_ex (\<lambda>vout. BondID vout \<noteq> bondID) vouts then False else True
      else False)"

datatype crowdsale_error = CustomTokenErr token_error | CreatedTxInvalid

definition CreateTxCrowdsale :: "(token_error, TxCustomToken) res \<Rightarrow> SaleData \<Rightarrow> (crowdsale_error, TxCrowdsale) res" where
  "CreateTxCrowdsale txCustom saleData =
     and_then (map_err CustomTokenErr txCustom)
       (\<lambda>ct. let tx = \<lparr>cs_TxCustomToken = ct, cs_SaleData = saleData\<rparr>
             in if \<not> TxCrowdsale_ValidateTransaction tx then Err CreatedTxInvalid else Ok tx)"

record TxDivTokenVout =
  dv_TxTokenVout :: TxTokenVout
  LastPayout :: u64

definition TxDivTokenVout_Hash :: "TxDivTokenVout \<Rightarrow> hash" where
  "TxDivTokenVout_Hash tx =
     DoubleHashH (bytes_of_string
       (FormatUint (vout_Value (dv_TxTokenVout tx)) @
        Base58Check_Encode (Pk (vout_PaymentAddress (dv_TxTokenVout tx))) 0 @ FormatUint (LastPayout tx)))"

record TxDivTokenData =
  dd_PropertyID :: hash
  dd_PropertyName :: string
  dd_PropertySymbol :: string
  dd_Type :: int
  dd_Amount :: u64
  dd_Vins :: "TxTokenVin list"
  dd_Vouts :: "TxDivTokenVout slice"

definition TxDivTokenData_Hash :: "TxDivTokenData \<Rightarrow> (token_error, hash) res" where
  "TxDivTokenData_Hash tx =
     (case dd_Vouts tx of
        None \<Rightarrow> Err VoutIsEmpty
      | Some vs \<Rightarrow>
          Ok (DoubleHashH (bytes_of_string
                (dd_PropertyName tx @ dd_PropertySymbol tx @ FormatUint (dd_Amount tx) @
                 concat (map (\<lambda>out. string_of_bytes (Pk (vout_PaymentAddress (dv_TxTokenVout out)))) vs)))))"

subsection \<open>Voting\<close>

record SellingBonds =
  BondsToSell :: u64
  BondPrice :: u64
  sb_Maturity :: u32
  sb_BuyBackPrice :: u64
  sb_StartSellingAt :: u32
  SellingWithin :: u32

record RefundInfo =
  ThresholdToLargeTx :: u64
  RefundAmount :: u64

record GOVVotingParams =
  SalaryPerTx :: u64
  BasicSalary :: u64
  gov_SellingBonds :: "SellingBonds option"
  gov_RefundInfo :: "RefundInfo option"

definition SellingBonds_Hash :: "SellingBonds \<Rightarrow> hash" where
  "SellingBonds_Hash sb =
     DoubleHashH (bytes_of_string
       (string_of_int (uint (BondsToSell sb)) @ string_of_int (uint (BondPrice sb)) @
        string_of_int (uint (sb_Maturity sb)) @ string_of_int (uint (sb_BuyBackPrice sb)) @
        string_of_int (uint (sb_StartSellingAt sb)) @ string_of_int (uint (SellingWithin sb))))"

definition DCBVotingParams_Hash :: hash where
  "DCBVotingParams_Hash = DoubleHashH (bytes_of_string [])"

text \<open>\<open>SellingBonds.Hash\<close> has a value receiver: nil selling bonds are dereferenced.\<close>

definition GOVVotingParams_Hash :: "GOVVotingParams \<Rightarrow> hash option" where
  "GOVVotingParams_Hash p =
     map_option (\<lambda>sb. DoubleHashH (bytes_of_string
       (string_of_int (uint (SalaryPerTx p)) @ string_of_int (uint (BasicSalary p)) @
        ToBytes_hash (Some (SellingBonds_Hash sb))))) (gov_SellingBonds p)"

record GOVProposalData =
  GOVParams :: GOVVotingParams
  gp_ExecuteDuration :: int
  gp_Explaination :: string

record DCBProposalData =
  dp_ExecuteDuration :: int
  dp_Explaination :: string

definition DCBProposalData_Hash :: "DCBProposalData \<Rightarrow> hash" where
  "DCBProposalData_Hash d =
     DoubleHashH (bytes_of_string (ToBytes_hash (Some DCBVotingParams_Hash) @ dp_Explaination d))"

definition GOVProposalData_Hash :: "GOVProposalData \<Rightarrow> hash option" where
  "GOVProposalData_Hash d =
     map_option (\<lambda>h. DoubleHashH (bytes_of_string (ToBytes_hash (Some h) @ gp_Explaination d)))
       (GOVVotingParams_Hash (GOVParams d))"

record TxVoteBoard =
  vb_TxCustomToken :: TxCustomToken
  CandidatePubKey :: string

definition VoteBoardData_Hash :: "string \<Rightarrow> hash" where
  "VoteBoardData_Hash candidate = DoubleHashH (bytes_of_string candidate)"

definition TxVoteDCBBoard_Hash :: "proof_string \<Rightarrow> TxVoteBoard \<Rightarrow> hash" where
  "TxVoteDCBBoard_Hash PS tx =
     DoubleHashH (bytes_of_string
       (ToBytes_hash (Some (TxCustomToken_Hash PS (vb_TxCustomToken tx))) @
        ToBytes_hash (Some (VoteBoardData_Hash (CandidatePubKey tx)))))"

definition TxVoteGOVBoard_Hash :: "proof_string \<Rightarrow> TxVoteBoard \<Rightarrow> hash" where
  "TxVoteGOVBoard_Hash PS tx =
     DoubleHashH (bytes_of_string
       (ToBytes_hash (Some (TxCustomToken_Hash PS (vb_TxCustomToken tx))) @
        ToBytes_hash (Some (VoteBoardData_Hash (CandidatePubKey tx)))))"

record VoteProposalData =
  ProposalTXID :: "hash option"
  AmountVoteToken :: u32

record TxVoteProposal =
  vp_Tx :: Tx
  vp_Data :: VoteProposalData

definition VoteDCBProposalData_Hash :: "VoteProposalData \<Rightarrow> hash" where
  "VoteDCBProposalData_Hash d =
     DoubleHashH (bytes_of_string
       (CHR 0x7B # [CHR 0x22] @ ''DCBProposalTXID'' @ [CHR 0x22] @ '':'' @ json_bytes (ProposalTXID d) @ '','' @
        [CHR 0x22] @ ''AmountVoteToken'' @ [CHR 0x22] @ '':'' @ Itoa (uint (AmountVoteToken d)) @ [CHR 0x7D, CHR 0x0A] @
        string_of_int (uint (AmountVoteToken d))))"

definition VoteGOVProposalData_Hash :: "VoteProposalData \<Rightarrow> hash" where
  "VoteGOVProposalData_Hash d =
     DoubleHashH (bytes_of_string
       (CHR 0x7B # [CHR 0x22] @ ''GOVProposalTXID'' @ [CHR 0x22] @ '':'' @ json_bytes (ProposalTXID d) @ '','' @
        [CHR 0x22] @ ''AmountVoteToken'' @ [CHR 0x22] @ '':'' @ Itoa (uint (AmountVoteToken d)) @ [CHR 0x7D, CHR 0x0A] @
        string_of_int (uint (AmountVoteToken d))))"

definition TxVoteDCBProposal_Hash :: "proof_string \<Rightarrow> TxVoteProposal \<Rightarrow> hash" where
  "TxVoteDCBProposal_Hash PS tx =
     DoubleHashH (bytes_of_string
       (ToBytes_hash (Some (Tx_Hash PS (vp_Tx tx))) @ ToBytes_hash (Some (VoteDCBProposalData_Hash (vp_Data tx)))))"

definition TxVoteGOVProposal_Hash :: "proof_string \<Rightarrow> TxVoteProposal \<Rightarrow> hash" where
  "TxVoteGOVProposal_Hash PS tx =
     DoubleHashH (bytes_of_string
       (ToBytes_hash (Some (Tx_Hash PS (vp_Tx tx))) @ ToBytes_hash (Some (VoteGOVProposalData_Hash (vp_Data tx)))))"

record TxAcceptProposal =
  ap_Tx :: Tx
  ap_ProposalTXID :: "hash option"

definition TxAcceptDCBProposal_Hash :: "proof_string \<Rightarrow> TxAcceptProposal \<Rightarrow> hash" where
  "TxAcceptDCBProposal_Hash PS tx =
     DoubleHashH (bytes_of_string (ToBytes_hash (Some (Tx_Hash PS (ap_Tx tx))) @ ToBytes_hash (ap_ProposalTXID tx)))"

definition TxAcceptGOVProposal_Hash :: "proof_string \<Rightarrow> TxAcceptProposal \<Rightarrow> hash" where
  "TxAcceptGOVProposal_Hash PS tx =
     DoubleHashH (bytes_of_string (ToBytes_hash (Some (Tx_Hash PS (ap_Tx tx))) @ ToBytes_hash (ap_ProposalTXID tx)))"

record TxSubmitDCBProposal =
  sdcb_Tx :: Tx
  sdcb_Data :: DCBProposalData

record TxSubmitGOVProposal =
  sgov_Tx :: Tx
  sgov_Data :: GOVProposalData

definition TxSubmitDCBProposal_Hash :: "proof_string \<Rightarrow> TxSubmitDCBProposal \<Rightarrow> hash" where
  "TxSubmitDCBProposal_Hash PS tx =
     DoubleHashH (bytes_of_string
       (ToBytes_hash (Some (Tx_Hash PS (sdcb_Tx tx))) @ ToBytes_hash (Some (DCBProposalData_Hash (sdcb_Data tx)))))"

definition TxSubmitGOVProposal_Hash :: "proof_string \<Rightarrow> TxSubmitGOVProposal \<Rightarrow> hash option" where
  "TxSubmitGOVProposal_Hash PS tx =
     map_option (\<lambda>h. DoubleHashH (bytes_of_string (ToBytes_hash (Some (Tx_Hash PS (sgov_Tx tx))) @ ToBytes_hash (Some h))))
       (GOVProposalData_Hash (sgov_Data tx))"

subsection \<open>The interface \<open>Transaction\<close>\<close>

text \<open>The dynamic types a block or the pool can hold. The methods a type does not define are
  promoted from the transaction it embeds.\<close>

datatype transaction =
    NormalTx Tx
  | CustomTokenTx TxCustomToken
  | LoanRequestTx TxLoanRequest
  | LoanResponseTx TxLoanResponse
  | LoanPaymentTx TxLoanPayment
  | LoanWithdrawTx TxLoanWithdraw
  | DividendPayoutTx TxDividendPayout
  | BuyBackRequestTx TxBuyBackRequest
  | BuySellRequestTx TxBuySellRequest
  | VoteDCBBoardTx TxVoteBoard
  | VoteGOVBoardTx TxVoteBoard
  | SubmitDCBProposalTx TxSubmitDCBProposal
  | SubmitGOVProposalTx TxSubmitGOVProposal
  | VoteDCBProposalTx TxVoteProposal
  | VoteGOVProposalTx TxVoteProposal
  | AcceptDCBProposalTx TxAcceptProposal
  | AcceptGOVProposalTx TxAcceptProposal
  | CrowdsaleTx TxCrowdsale

fun base_Tx :: "transaction \<Rightarrow> Tx" where
  "base_Tx (NormalTx t) = t"
| "base_Tx (CustomTokenTx t) = ct_Tx t"
| "base_Tx (LoanRequestTx t) = lreq_Tx t"
| "base_Tx (LoanResponseTx t) = lres_Tx t"
| "base_Tx (LoanPaymentTx t) = lpay_Tx t"
| "base_Tx (LoanWithdrawTx t) = lwd_Tx t"
| "base_Tx (DividendPayoutTx t) = div_Tx t"
| "base_Tx (BuyBackRequestTx t) = bbr_Tx t"
| "base_Tx (BuySellRequestTx t) = bsr_Tx t"
| "base_Tx (VoteDCBBoardTx t) = ct_Tx (vb_TxCustomToken t)"
| "base_Tx (VoteGOVBoardTx t) = ct_Tx (vb_TxCustomToken t)"
| "base_Tx (SubmitDCBProposalTx t) = sdcb_Tx t"
| "base_Tx (SubmitGOVProposalTx t) = sgov_Tx t"
| "base_Tx (VoteDCBProposalTx t) = vp_Tx t"
| "base_Tx (VoteGOVProposalTx t) = vp_Tx t"
| "base_Tx (AcceptDCBProposalTx t) = ap_Tx t"
| "base_Tx (AcceptGOVProposalTx t) = ap_Tx t"
| "base_Tx (CrowdsaleTx t) = ct_Tx (cs_TxCustomToken t)"

fun GetType :: "transaction \<Rightarrow> string" where
  "GetType (LoanRequestTx t) = TxLoanRequest_GetType t"
| "GetType (LoanResponseTx t) = TxLoanResponse_GetType t"
| "GetType (LoanPaymentTx t) = TxLoanPayment_GetType t"
| "GetType (LoanWithdrawTx t) = TxLoanWithdraw_GetType t"
| "GetType (DividendPayoutTx t) = TxDividendPayout_GetType t"
| "GetType t = Tx_GetType (base_Tx t)"

fun tx_Hash :: "proof_string \<Rightarrow> transaction \<Rightarrow> hash option" where
  "tx_Hash PS (NormalTx t) = Some (Tx_Hash PS t)"
| "tx_Hash PS (CustomTokenTx t) = Some (TxCustomToken_Hash PS t)"
| "tx_Hash PS (LoanRequestTx t) = TxLoanRequest_Hash PS t"
| "tx_Hash PS (LoanResponseTx t) = Some (TxLoanResponse_Hash PS t)"
| "tx_Hash PS (LoanPaymentTx t) = Some (TxLoanPayment_Hash PS t)"
| "tx_Hash PS (LoanWithdrawTx t) = Some (TxLoanWithdraw_Hash PS t)"
| "tx_Hash PS (DividendPayoutTx t) = TxDividendPayout_Hash PS t"
| "tx_Hash PS (BuyBackRequestTx t) = Some (TxBuyBackRequest_Hash PS t)"
| "tx_Hash PS (BuySellRequestTx t) = Some (TxBuySellRequest_Hash PS t)"
| "tx_Hash PS (VoteDCBBoardTx t) = Some (TxVoteDCBBoard_Hash PS t)"
| "tx_Hash PS (VoteGOVBoardTx t) = Some (TxVoteGOVBoard_Hash PS t)"
| "tx_Hash PS (SubmitDCBProposalTx t) = Some (TxSubmitDCBProposal_Hash PS t)"
| "tx_Hash PS (SubmitGOVProposalTx t) = TxSubmitGOVProposal_Hash PS t"
| "tx_Hash PS (VoteDCBProposalTx t) = Some (TxVoteDCBProposal_Hash PS t)"
| "tx_Hash PS (VoteGOVProposalTx t) = Some (TxVoteGOVProposal_Hash PS t)"
| "tx_Hash PS (AcceptDCBProposalTx t) = Some (TxAcceptDCBProposal_Hash PS t)"
| "tx_Hash PS (AcceptGOVProposalTx t) = Some (TxAcceptGOVProposal_Hash PS t)"
| "tx_Hash PS (CrowdsaleTx t) = Some (TxCrowdsale_Hash PS t)"

text \<open>The board votes declare \<open>Validate\<close>, not \<open>ValidateTransaction\<close>, so the token transaction's
  method is promoted; the proposals' extra checks are constantly true.\<close>

fun ValidateTransaction :: "ecdsa \<Rightarrow> transaction \<Rightarrow> bool option" where
  "ValidateTransaction E (CustomTokenTx t) = TxCustomToken_ValidateTransaction E t"
| "ValidateTransaction E (VoteDCBBoardTx t) = TxCustomToken_ValidateTransaction E (vb_TxCustomToken t)"
| "ValidateTransaction E (VoteGOVBoardTx t) = TxCustomToken_ValidateTransaction E (vb_TxCustomToken t)"
| "ValidateTransaction E (LoanRequestTx t) = Some (TxLoanRequest_ValidateTransaction t)"
| "ValidateTransaction E (LoanResponseTx t) = Some (TxLoanResponse_ValidateTransaction t)"
| "ValidateTransaction E (LoanPaymentTx t) = Some (TxLoanPayment_ValidateTransaction t)"
| "ValidateTransaction E (LoanWithdrawTx t) = Some (TxLoanWithdraw_ValidateTransaction t)"
| "ValidateTransaction E (DividendPayoutTx t) = Some (TxDividendPayout_ValidateTransaction t)"
| "ValidateTransaction E (BuyBackRequestTx t) = Some (TxBuyBackRequest_ValidateTransaction t)"
| "ValidateTransaction E (BuySellRequestTx t) = Some (TxBuySellRequest_ValidateTransaction t)"
| "ValidateTransaction E (CrowdsaleTx t) = Some (TxCrowdsale_ValidateTransaction t)"
| "ValidateTransaction E t = Some (Tx_ValidateTransaction (base_Tx t))"

fun GetTxVirtualSize :: "transaction \<Rightarrow> u64" where
  "GetTxVirtualSize (CustomTokenTx t) = TxCustomToken_GetTxVirtualSize t"
| "GetTxVirtualSize (VoteDCBBoardTx t) = TxCustomToken_GetTxVirtualSize (vb_TxCustomToken t)"
| "GetTxVirtualSize (VoteGOVBoardTx t) = TxCustomToken_GetTxVirtualSize (vb_TxCustomToken t)"
| "GetTxVirtualSize (CrowdsaleTx t) = TxCustomToken_GetTxVirtualSize (cs_TxCustomToken t)"
| "GetTxVirtualSize (BuyBackRequestTx t) = TxBuyBackRequest_GetTxVirtualSize t"
| "GetTxVirtualSize (BuySellRequestTx t) = TxBuySellRequest_GetTxVirtualSize t"
| "GetTxVirtualSize t = Tx_GetTxVirtualSize (base_Tx t)"

definition GetSenderAddrLastByte :: "transaction \<Rightarrow> byte" where
  "GetSenderAddrLastByte t = Tx_GetSenderAddrLastByte (base_Tx t)"

definition GetTxFee :: "transaction \<Rightarrow> u64" where
  "GetTxFee t = Tx_GetTxFee (base_Tx t)"

definition ListNullifiers :: "transaction \<Rightarrow> bytes list" where
  "ListNullifiers t = Tx_ListNullifiers (base_Tx t)"

record TxDesc =
  td_Tx :: transaction
  Added :: int
  td_Height :: int
  td_Fee :: u64
  td_FeePerKB :: int

subsection \<open>Lemmas\<close>

lemma is_hash_Tx_Hash [simp]: "is_hash (Tx_Hash PS tx)"
  by (simp add: Tx_Hash_def)

lemma is_hash_tx_Hash: "tx_Hash PS t = Some h \<Longrightarrow> is_hash h"
  by (cases t)
    (auto simp: TxCustomToken_Hash_def TxLoanRequest_Hash_def TxLoanResponse_Hash_def TxLoanPayment_Hash_def
      TxLoanWithdraw_Hash_def TxDividendPayout_Hash_def TxBuyBackRequest_Hash_def TxBuySellRequest_Hash_def
      TxVoteDCBBoard_Hash_def TxVoteGOVBoard_Hash_def TxSubmitDCBProposal_Hash_def TxSubmitGOVProposal_Hash_def
      TxVoteDCBProposal_Hash_def TxVoteGOVProposal_Hash_def TxAcceptDCBProposal_Hash_def
      TxAcceptGOVProposal_Hash_def TxCrowdsale_Hash_def Let_def split: option.splits)

lemma length_big_Bytes_32:
  assumes "n < 2 ^ 256"
  shows "length (big_Bytes n) \<le> 32" "length (big_Bytes n) = 32 \<longleftrightarrow> 2 ^ 248 \<le> n"
proof -
  have p: "(256 :: nat) ^ 32 = 2 ^ 256" "(256 :: nat) ^ 31 = 2 ^ 248" by simp_all
  show le: "length (big_Bytes n) \<le> 32" using length_big_Bytes_less [of n 32] assms p by simp
  show "length (big_Bytes n) = 32 \<longleftrightarrow> 2 ^ 248 \<le> n"
    using length_big_Bytes_less [of n 31] length_big_Bytes_ge [of 31 n] le p by force
qed

lemma big_SetBytes_ge:
  assumes "b \<noteq> []" "hd b \<noteq> 0"
  shows "256 ^ (length b - 1) \<le> big_SetBytes b"
proof -
  have "big_Bytes (big_SetBytes b) = b"
    using assms big_Bytes_SetBytes [of b] by (cases b) auto
  then show ?thesis
    using length_big_Bytes_less [of "big_SetBytes b" "length b - 1"] assms(1) by (cases b) force+
qed

text \<open>A positive number of fewer than 32 bytes is read together with what follows it.\<close>

lemma short_read:
  assumes "0 < n" "n < 2 ^ 248" "32 \<le> length (big_Bytes n @ rest)"
  shows "big_SetBytes (take 32 (big_Bytes n @ rest)) \<noteq> n"
proof -
  have ne: "big_Bytes n \<noteq> []" using assms(1) big_SetBytes_Bytes [of n] by (cases "big_Bytes n") (auto simp: big_SetBytes_def)
  have "hd (big_Bytes n) \<noteq> 0"
    using takeWhile_big_Bytes [of n] ne by (cases "big_Bytes n") (auto split: if_splits)
  then have "256 ^ (length (take 32 (big_Bytes n @ rest)) - 1) \<le> big_SetBytes (take 32 (big_Bytes n @ rest))"
    using ne by (intro big_SetBytes_ge) auto
  moreover have "length (take 32 (big_Bytes n @ rest)) - 1 = 31" using assms(3) by simp
  moreover have "(256 :: nat) ^ 31 = 2 ^ 248" by simp
  ultimately show ?thesis using assms(2) by (metis leD)
qed

lemma sig_roundtrip_iff:
  assumes "r < 2 ^ 256" "s < 2 ^ 256" "0 < r" "0 < s"
  shows "FromByteArrayToSig spare (SigToByteArray r s) = Some (r, s) \<longleftrightarrow> 2 ^ 248 \<le> r \<and> 2 ^ 248 \<le> s"
proof (cases "2 ^ 248 \<le> r")
  case True
  then have r: "length (big_Bytes r) = 32" using length_big_Bytes_32 [OF assms(1)] by simp
  show ?thesis
  proof (cases "2 ^ 248 \<le> s")
    case True
    then have "length (big_Bytes s) = 32" using length_big_Bytes_32 [OF assms(2)] by simp
    then show ?thesis using r \<open>2 ^ 248 \<le> r\<close> True
      by (simp add: FromByteArrayToSig_def SigToByteArray_def big_SetBytes_Bytes Let_def)
  next
    case False
    then show ?thesis using r short_read [OF assms(4), of spare]
      by (auto simp: FromByteArrayToSig_def SigToByteArray_def Let_def)
  qed
next
  case False
  then show ?thesis using short_read [OF assms(3), of "big_Bytes s @ spare"]
    by (auto simp: FromByteArrayToSig_def SigToByteArray_def Let_def)
qed

lemma unat_sum_list:
  "sum_list (map unat xs) < 2 ^ 64 \<Longrightarrow> unat (sum_list xs) = sum_list (map unat xs)" for xs :: "u64 list"
proof (induction xs)
  case (Cons x xs)
  then have "unat (sum_list xs) = sum_list (map unat xs)" by simp
  then show ?case using Cons.prems by (simp add: unat_add_lem [THEN iffD1])
qed simp

lemma token_transfer_cases:
  assumes "token_transfer p = Ok d"
  obtains vin vs h where "cp_vins p = vin # vs" "NewHashFromStr (cp_PropertyID p) = Ok h"
    "d = (new_token_data p)\<lparr>PropertyID := h, Vins := cp_vins p,
       Vouts := Some (map (\<lambda>r. new_vout (vout_PaymentAddress r) (vout_Value r)) (Receiver p)
         @ [new_vout (vin_PaymentAddress vin) (cp_vinsAmount p - sum_list (map vout_Value (Receiver p)))])\<rparr>"
  using assms by (auto simp: token_transfer_def Let_def split: res.splits list.splits)

lemma token_transfer_sum:
  assumes "token_transfer p = Ok d"
  shows "sum_list (map vout_Value (elems (Vouts d))) = cp_vinsAmount p"
  using assms by (cases rule: token_transfer_cases) (simp add: new_vout_def comp_def)

lemma Tx_Hash_cong:
  "Itoa l @ FormatUint f = Itoa l' @ FormatUint f' \<Longrightarrow>
   Tx_Hash PS (tx\<lparr>LockTime := l, Fee := f\<rparr>) = Tx_Hash PS (tx\<lparr>LockTime := l', Fee := f'\<rparr>)"
  by (simp add: Tx_Hash_def Tx_record_def flip: append_assoc)

lemma string_of_large: "0x10FFFF < x \<Longrightarrow> string_of_int x = utf8_error"
  by (simp add: string_of_int_def)

subsection \<open>Properties\<close>

text \<open>The signature bytes are two numbers written without padding. For positive \<open>r\<close> and
  \<open>s\<close> below \<open>2 ^ 256\<close>, splitting the bytes gives the numbers back exactly when both need all 32
  bytes, whatever follows the bytes in memory; otherwise the slice expression panics or reads other numbers.\<close>

theorem signature_roundtrip:
  assumes "r < 2 ^ 256" and "s < 2 ^ 256" and "0 < r" and "0 < s"
  shows "FromByteArrayToSig spare (SigToByteArray r s) = Some (r, s) \<longleftrightarrow> 2 ^ 248 \<le> r \<and> 2 ^ 248 \<le> s"
  by (rule sig_roundtrip_iff [OF assms])

theorem signature_roundtrip_witness:
  "FromByteArrayToSig [] (SigToByteArray (2 ^ 255) (2 ^ 250)) = Some (2 ^ 255, 2 ^ 250) \<and>
   FromByteArrayToSig [0] (SigToByteArray 7 (2 ^ 250)) \<noteq> Some (7, 2 ^ 250)"
  using signature_roundtrip [of "2 ^ 255" "2 ^ 250" "[]"] signature_roundtrip [of 7 "2 ^ 250" "[0]"] by simp

text \<open>Claim C29 (bounds): a token transfer pays out exactly what its inputs hold, in \<open>uint64\<close>
  arithmetic: whenever \<open>CreateTxCustomToken\<close> builds one, the values of its outputs add up to the
  amount of the inputs modulo \<open>2 ^ 64\<close>, and without wrap-around when the outputs' sum is below
  \<open>2 ^ 64\<close>. The payments are not checked against the inputs: a larger payment makes the refund
  wrap, so that the outputs are worth more than the inputs.\<close>

theorem CreateTxCustomToken_conserves:
  assumes "TokenTxType p = CustomTokenTransfer" and "CreateTxCustomToken (Some tx) p known = Ok ct"
  shows "sum_list (map vout_Value (elems (Vouts (ct_TxTokenData ct)))) = cp_vinsAmount p \<and>
    tx_Type (ct_Tx ct) = TxCustomTokenType \<and> Vins (ct_TxTokenData ct) = cp_vins p \<and>
    (sum_list (map (unat \<circ> vout_Value) (elems (Vouts (ct_TxTokenData ct)))) < 2 ^ 64 \<longrightarrow>
      sum_list (map (unat \<circ> vout_Value) (elems (Vouts (ct_TxTokenData ct)))) = unat (cp_vinsAmount p))"
proof -
  from assms obtain d where d: "token_transfer p = Ok d" and ct: "ct = new_token_tx tx d"
    by (auto simp: CreateTxCustomToken_def CustomTokenInit_def CustomTokenTransfer_def go_simps)
  have "Vins d = cp_vins p" using d by (cases rule: token_transfer_cases) simp
  moreover have s: "sum_list (map vout_Value (elems (Vouts d))) = cp_vinsAmount p" by (rule token_transfer_sum [OF d])
  moreover have "sum_list (map (unat \<circ> vout_Value) (elems (Vouts d))) < 2 ^ 64 \<longrightarrow>
      sum_list (map (unat \<circ> vout_Value) (elems (Vouts d))) = unat (cp_vinsAmount p)"
    using unat_sum_list [of "map vout_Value (elems (Vouts d))"] s by (simp add: comp_def)
  ultimately show ?thesis by (simp add: ct new_token_tx_def)
qed

definition example_address :: PaymentAddress where
  "example_address = \<lparr>Pk = replicate 33 2, Tk = replicate 33 3\<rparr>"

definition example_Tx :: Tx where
  "example_Tx = CreateEmptyTx 1543000000 (5, 6) TxNormalType"

definition example_vin :: TxTokenVin where
  "example_vin = \<lparr>vin_TxCustomTokenID = zero_hash, VoutIndex = 0, Signature = [], vin_PaymentAddress = example_address\<rparr>"

definition example_params :: "u64 \<Rightarrow> u64 \<Rightarrow> CustomTokenParamTx" where
  "example_params pay held =
     \<lparr>cp_PropertyID = [], cp_PropertyName = ''T'', cp_PropertySymbol = ''T'', cp_Amount = 0,
      TokenTxType = CustomTokenTransfer, Receiver = [new_vout example_address pay], cp_vins = [example_vin],
      cp_vinsAmount = held\<rparr>"

lemma NewHashFromStr_Nil: "NewHashFromStr [] = Ok zero_hash"
  by (simp add: NewHashFromStr_def hash_Decode_def zero_hash_def)

lemma example_transfer:
  "\<exists>ct. CreateTxCustomToken (Some example_Tx) (example_params pay held) [] = Ok ct \<and>
     map vout_Value (elems (Vouts (ct_TxTokenData ct))) = [pay, held - pay]"
proof -
  define d where "d = (new_token_data (example_params pay held))\<lparr>PropertyID := zero_hash, Vins := [example_vin],
    Vouts := Some [new_vout example_address pay, new_vout example_address (held - pay)]\<rparr>"
  have "token_transfer (example_params pay held) = Ok d"
    by (simp add: token_transfer_def NewHashFromStr_Nil example_params_def new_vout_def example_vin_def d_def)
  moreover have "TokenTxType (example_params pay held) = 1" by (simp add: example_params_def CustomTokenTransfer_def)
  ultimately have "CreateTxCustomToken (Some example_Tx) (example_params pay held) [] = Ok (new_token_tx example_Tx d)"
    by (simp add: CreateTxCustomToken_def CustomTokenInit_def CustomTokenTransfer_def)
  moreover have "map vout_Value (elems (Vouts (ct_TxTokenData (new_token_tx example_Tx d)))) = [pay, held - pay]"
    by (simp add: new_token_tx_def d_def new_vout_def)
  ultimately show ?thesis by (intro exI conjI)
qed

theorem CreateTxCustomToken_conserves_witness:
  "\<exists>ct. CreateTxCustomToken (Some example_Tx) (example_params 10 3) [] = Ok ct \<and>
     map vout_Value (elems (Vouts (ct_TxTokenData ct))) = [10, - 7] \<and>
     sum_list (map vout_Value (elems (Vouts (ct_TxTokenData ct)))) = 3"
proof -
  obtain ct where ct: "CreateTxCustomToken (Some example_Tx) (example_params 10 3) [] = Ok ct"
    "map vout_Value (elems (Vouts (ct_TxTokenData ct))) = [10, - 7]"
    using example_transfer [of 10 3] by auto
  have "TokenTxType (example_params 10 3) = CustomTokenTransfer" by (simp add: example_params_def)
  from CreateTxCustomToken_conserves [OF this ct(1)]
  have "sum_list (map vout_Value (elems (Vouts (ct_TxTokenData ct)))) = 3" by (simp add: example_params_def)
  with ct show ?thesis by (intro exI conjI)
qed

text \<open>What a transaction hash does not commit to. The signature and the bookkeeping
  fields are not hashed, lock time and fee are hashed as adjacent digit strings, so that moving a
  digit from one to the other keeps the hash, and a bond request's amount and price are hashed as
  code points, so that all values above \<open>0x10FFFF\<close> are hashed alike.\<close>

theorem tx_hash_not_binding:
  "Tx_Hash PS (tx\<lparr>JSSig := sig, txId := i, RequestedTxID := q\<rparr>) = Tx_Hash PS tx \<and>
   Tx_Hash PS (tx\<lparr>LockTime := 1, Fee := 23\<rparr>) = Tx_Hash PS (tx\<lparr>LockTime := 12, Fee := 3\<rparr>) \<and>
   (0x10FFFF < uint a \<longrightarrow> 0x10FFFF < uint a' \<longrightarrow>
     TxBuySellRequest_Hash PS (t\<lparr>bsr_Info := (bsr_Info t)\<lparr>ri_Amount := a\<rparr>\<rparr>) =
     TxBuySellRequest_Hash PS (t\<lparr>bsr_Info := (bsr_Info t)\<lparr>ri_Amount := a'\<rparr>\<rparr>))"
proof -
  have d: "Itoa 1 @ FormatUint 23 = Itoa 12 @ FormatUint 3"
    by (simp add: Itoa_def FormatUint_def digits_of.simps)
  have "Tx_Hash PS (tx\<lparr>JSSig := sig, txId := i, RequestedTxID := q\<rparr>) = Tx_Hash PS tx"
    by (simp add: Tx_Hash_def Tx_record_def)
  then show ?thesis using Tx_Hash_cong [OF d]
    by (auto simp: TxBuySellRequest_Hash_def string_of_large)
qed

definition example_buy :: "u64 \<Rightarrow> TxBuySellRequest" where
  "example_buy a =
     \<lparr>bsr_Info = \<lparr>ri_PaymentAddress = example_address, AssetType = zero_hash, ri_Amount = a, BuyPrice = 1\<rparr>,
      bsr_Tx = example_Tx\<rparr>"

theorem tx_hash_not_binding_witness:
  "Tx_Hash (\<lambda>_. []) (example_Tx\<lparr>LockTime := 1, Fee := 23\<rparr>) = Tx_Hash (\<lambda>_. []) (example_Tx\<lparr>LockTime := 12, Fee := 3\<rparr>) \<and>
   TxBuySellRequest_Hash (\<lambda>_. []) (example_buy 2000000) = TxBuySellRequest_Hash (\<lambda>_. []) (example_buy 3000000)"
  using tx_hash_not_binding [where PS = "\<lambda>_. []" and tx = example_Tx and a = 2000000 and a' = 3000000 and t = "example_buy 0"]
  by (simp add: example_buy_def)

text \<open>What the validation methods decide. A loan response never passes, whatever it
  answers; a loan request passes exactly with ETH collateral and a 32-byte key digest, a withdrawal
  with a 32-byte key, a payment when every description carries plain notes. A token transaction
  is judged by its first input alone, and \<open>ValidateDataB58\<close> ignores the public key it is given
  beyond decoding it.\<close>

theorem validation_verdicts:
  "\<not> TxLoanResponse_ValidateTransaction ls \<and>
   (TxLoanRequest_ValidateTransaction lr \<longleftrightarrow>
     CollateralType (lreq_LoanRequest lr) = ''ETH'' \<and> length (KeyDigest (lreq_LoanRequest lr)) = 32) \<and>
   (TxLoanWithdraw_ValidateTransaction lw \<longleftrightarrow> length (lw_Key (lwd_LoanWithdraw lw)) = 32) \<and>
   (TxLoanPayment_ValidateTransaction lp \<longleftrightarrow> (\<forall>d. d \<in> set (Descs (lpay_Tx lp)) \<longrightarrow> desc_Note d \<noteq> None)) \<and>
   TxCustomToken_ValidateTransaction E (ct\<lparr>ct_TxTokenData := (ct_TxTokenData ct)\<lparr>Vins := vin # vs\<rparr>\<rparr>) =
   TxCustomToken_ValidateTransaction E (ct\<lparr>ct_TxTokenData := (ct_TxTokenData ct)\<lparr>Vins := [vin]\<rparr>\<rparr>) \<and>
   (Base58Check_Decode pk = Ok x \<longrightarrow> Base58Check_Decode pk' = Ok x' \<longrightarrow>
     ValidateDataB58 E pk sig data = ValidateDataB58 E pk' sig data)"
  by (auto simp: TxLoanResponse_ValidateTransaction_def Accept_def Reject_def Tx_ValidateTransaction_def
      TxLoanRequest_ValidateTransaction_def LoanKeyDigestLen_def TxLoanWithdraw_ValidateTransaction_def
      LoanKeyLen_def TxLoanPayment_ValidateTransaction_def list_ex_iff TxCustomToken_ValidateTransaction_def
      ValidateDataB58_def)

definition example_ecdsa :: ecdsa where
  "example_ecdsa = \<lparr>ec_Verify = \<lambda>_ _ _ _. Some True, ec_spare = \<lambda>_. []\<rparr>"

theorem validation_verdicts_witness:
  "ValidateDataB58 example_ecdsa (Base58Check_Encode [1] 0) [] [] =
   ValidateDataB58 example_ecdsa (Base58Check_Encode [2] 0) [] [] \<and>
   (\<forall>ls. \<not> TxLoanResponse_ValidateTransaction ls)"
  using validation_verdicts [where E = example_ecdsa and pk = "Base58Check_Encode [1] 0" and
      x = "([1], 0)" and pk' = "Base58Check_Encode [2] 0" and x' = "([2], 0)" and sig = "[]" and data = "[]"]
    Base58Check_Decode_Encode [of "[1]" 0] Base58Check_Decode_Encode [of "[2]" 0]
  by auto

end
