(* ===== verification/Database.thy ===== *)
theory Database
  imports Transaction "HOL-Library.List_Lexorder"
begin

text \<open>
  Package \<open>database/lvdb\<close>, first part: the key layout and the primitive accesses (\<open>db.go\<close>), blocks,
  block indices and best states (\<open>block.go\<close>), nullifiers, commitments, fee estimators and
  transaction indices (\<open>tx.go\<close>) and loans (\<open>loan.go\<close>). The error codes are those of
  \<open>database/error.go\<close>.

  LevelDB itself is a parameter: the record \<open>leveldb\<close> has the five operations the code calls, every
  definition takes it as \<open>lv\<close>, and every error LevelDB may return is a branch of the model. An
  operation maps the database to its result and the database afterwards, also when it fails. The
  locale \<open>kv_store\<close> states LevelDB's documented behaviour when the disk does not fail: a byte-ordered
  map. It is interpreted by sorted association lists.
\<close>

subsection \<open>LevelDB\<close>

datatype lv_error = ErrNotFound | LvFailure

record 'd leveldb =
  lv_Get :: "'d \<Rightarrow> bytes \<Rightarrow> (lv_error, bytes) res"
  lv_Has :: "'d \<Rightarrow> bytes \<Rightarrow> (lv_error, bool) res"
  lv_Put :: "'d \<Rightarrow> bytes \<Rightarrow> bytes \<Rightarrow> lv_error option \<times> 'd"
  lv_Delete :: "'d \<Rightarrow> bytes \<Rightarrow> lv_error option \<times> 'd"
  lv_Iter :: "'d \<Rightarrow> bytes \<Rightarrow> (bytes \<times> bytes) list \<times> lv_error option"

text \<open>\<open>lv_Iter d p\<close> is \<open>NewIterator(util.BytesPrefix(p))\<close> run to its end on a snapshot of \<open>d\<close>: the
  entries in key order and what \<open>iter.Error()\<close> returns then.\<close>

datatype db_code =
  DriverExistErr | DriverNotRegisterErr | OpenDbErr | NotExistValue | NotImplHashMethod | BlockExisted
  | UnexpectedError | KeyExisted

datatype db_error =
  DatabaseError db_code | LvErr lv_error | HashErr hash_error | AtoiErr | JsonErr | DoubleSpendDetected
  | UTXOAlreadyExist

fun ErrCode :: "db_code \<Rightarrow> int" where
  "ErrCode DriverExistErr = -1000"
| "ErrCode DriverNotRegisterErr = -1001"
| "ErrCode OpenDbErr = -2000"
| "ErrCode NotExistValue = -2001"
| "ErrCode NotImplHashMethod = -3000"
| "ErrCode BlockExisted = -3001"
| "ErrCode UnexpectedError = -3002"
| "ErrCode KeyExisted = -3003"

type_synonym ('d, 'a) dbm = "'d \<Rightarrow> (db_error, 'a) res \<times> 'd"

definition dret :: "'a \<Rightarrow> ('d, 'a) dbm" where
  "dret a = (\<lambda>d. (Ok a, d))"

definition dfail :: "db_error \<Rightarrow> ('d, 'a) dbm" where
  "dfail e = (\<lambda>d. (Err e, d))"

definition dpanic :: "('d, 'a) dbm" where
  "dpanic = (\<lambda>d. (Panic, d))"

definition dbind :: "('d, 'a) dbm \<Rightarrow> ('a \<Rightarrow> ('d, 'b) dbm) \<Rightarrow> ('d, 'b) dbm" where
  "dbind m f = (\<lambda>d. case m d of (Ok a, d') \<Rightarrow> f a d' | (Err e, d') \<Rightarrow> (Err e, d') | (Panic, d') \<Rightarrow> (Panic, d'))"

text \<open>\<open>dwrap\<close> wraps the error of a call as the code does before returning it.\<close>

definition dwrap :: "(db_error \<Rightarrow> db_error) \<Rightarrow> ('d, 'a) dbm \<Rightarrow> ('d, 'a) dbm" where
  "dwrap g m = (\<lambda>d. case m d of (r, d') \<Rightarrow> (map_err g r, d'))"

abbreviation unexpected :: "db_error \<Rightarrow> db_error" where
  "unexpected \<equiv> (\<lambda>_. DatabaseError UnexpectedError)"

definition lv_get :: "'d leveldb \<Rightarrow> bytes \<Rightarrow> ('d, bytes) dbm" where
  "lv_get lv k = (\<lambda>d. (map_err LvErr (lv_Get lv d k), d))"

definition lv_has :: "'d leveldb \<Rightarrow> bytes \<Rightarrow> ('d, bool) dbm" where
  "lv_has lv k = (\<lambda>d. (map_err LvErr (lv_Has lv d k), d))"

definition lv_put :: "'d leveldb \<Rightarrow> bytes \<Rightarrow> bytes \<Rightarrow> ('d, unit) dbm" where
  "lv_put lv k v = (\<lambda>d. case lv_Put lv d k v of (None, d') \<Rightarrow> (Ok (), d') | (Some e, d') \<Rightarrow> (Err (LvErr e), d'))"

definition lv_delete :: "'d leveldb \<Rightarrow> bytes \<Rightarrow> ('d, unit) dbm" where
  "lv_delete lv k = (\<lambda>d. case lv_Delete lv d k of (None, d') \<Rightarrow> (Ok (), d') | (Some e, d') \<Rightarrow> (Err (LvErr e), d'))"

definition lv_iter :: "'d leveldb \<Rightarrow> bytes \<Rightarrow> ('d, (bytes \<times> bytes) list \<times> lv_error option) dbm" where
  "lv_iter lv p = (\<lambda>d. (Ok (lv_Iter lv d p), d))"

subsection \<open>Keys and primitive accesses (\<open>db.go\<close>)\<close>

definition chainIDPrefix :: bytes where "chainIDPrefix = bytes_of_string ''c''"
definition blockKeyPrefix :: bytes where "blockKeyPrefix = bytes_of_string ''b-''"
definition blockKeyIdxPrefix :: bytes where "blockKeyIdxPrefix = bytes_of_string ''i-''"
definition transactionKeyPrefix :: bytes where "transactionKeyPrefix = bytes_of_string ''tx-''"
definition privateKeyPrefix :: bytes where "privateKeyPrefix = bytes_of_string ''prk-''"
definition nullifiersPrefix :: bytes where "nullifiersPrefix = bytes_of_string ''nullifiers-''"
definition commitmentsPrefix :: bytes where "commitmentsPrefix = bytes_of_string ''commitments-''"
definition bestBlockKey :: bytes where "bestBlockKey = bytes_of_string ''bestBlock''"
definition feeEstimator :: bytes where "feeEstimator = bytes_of_string ''feeEstimator''"
definition splitter :: string where "splitter = ''-[-]-''"
definition tokenPrefix :: bytes where "tokenPrefix = bytes_of_string ''token-''"
definition tokenPaymentAddressPrefix :: bytes where "tokenPaymentAddressPrefix = bytes_of_string ''token-paymentaddress-''"
definition tokenInitPrefix :: bytes where "tokenInitPrefix = bytes_of_string ''token-init-''"
definition loanIDKeyPrefix :: bytes where "loanIDKeyPrefix = bytes_of_string ''loanID-''"
definition loanTxKeyPrefix :: bytes where "loanTxKeyPrefix = bytes_of_string ''loanTx-''"
definition loanRequestPostfix :: bytes where "loanRequestPostfix = bytes_of_string ''-req''"
definition loanResponsePostfix :: bytes where "loanResponsePostfix = bytes_of_string ''-res''"
definition rewared :: string where "rewared = ''reward''"
definition unreward :: string where "unreward = ''unreward''"
definition spent :: string where "spent = ''spent''"
definition unspent :: string where "unspent = ''unspent''"

lemmas prefix_defs =
  chainIDPrefix_def blockKeyPrefix_def blockKeyIdxPrefix_def transactionKeyPrefix_def privateKeyPrefix_def
  nullifiersPrefix_def commitmentsPrefix_def bestBlockKey_def feeEstimator_def tokenPrefix_def
  tokenPaymentAddressPrefix_def tokenInitPrefix_def loanIDKeyPrefix_def loanTxKeyPrefix_def
  loanRequestPostfix_def loanResponsePostfix_def

definition hasValue :: "'d leveldb \<Rightarrow> bytes \<Rightarrow> ('d, bool) dbm" where
  "hasValue lv key = dwrap (\<lambda>_. DatabaseError NotExistValue) (lv_has lv key)"

definition put :: "'d leveldb \<Rightarrow> bytes \<Rightarrow> bytes \<Rightarrow> ('d, unit) dbm" where
  "put lv key val = dwrap unexpected (lv_put lv key val)"

text \<open>\<open>if ok, _ := db.hasValue(key); ok\<close>: an error reads as absent.\<close>

definition exists_key :: "'d leveldb \<Rightarrow> bytes \<Rightarrow> ('d, bool) dbm" where
  "exists_key lv key = (\<lambda>d. (Ok (fst (hasValue lv key d) = Ok True), d))"

text \<open>\<open>getKey\<close>: the key argument is the bytes of the hash or string; an unknown type gives nil.\<close>

definition getKey :: "bytes \<Rightarrow> bytes \<Rightarrow> bytes" where
  "getKey keyType key =
     (if keyType \<in> {blockKeyPrefix, blockKeyIdxPrefix, nullifiersPrefix, commitmentsPrefix, tokenPrefix, tokenInitPrefix}
      then keyType @ key else [])"

fun delete_all :: "'d leveldb \<Rightarrow> bytes list \<Rightarrow> ('d, unit) dbm" where
  "delete_all lv [] = dret ()"
| "delete_all lv (k # ks) = dbind (dwrap unexpected (lv_delete lv k)) (\<lambda>_. delete_all lv ks)"

text \<open>The loop of the \<open>Clean\<close> methods over all entries with a prefix.\<close>

definition clean_prefix :: "'d leveldb \<Rightarrow> bytes \<Rightarrow> ('d, unit) dbm" where
  "clean_prefix lv p =
     dbind (lv_iter lv p) (\<lambda>(kvs, err).
       dbind (delete_all lv (map fst kvs)) (\<lambda>_.
         case err of None \<Rightarrow> dret () | Some e \<Rightarrow> dfail (DatabaseError UnexpectedError)))"

subsection \<open>Blocks (\<open>block.go\<close>)\<close>

text \<open>Of the value to store the code uses its hash, when it has the method, and its JSON.\<close>

record stored_value =
  sv_Hash :: "hash option"
  sv_json :: "bytes option"

definition chain_block_key :: "byte \<Rightarrow> hash \<Rightarrow> bytes" where
  "chain_block_key chainID h = chainIDPrefix @ [chainID] @ blockKeyPrefix @ h"

definition store_block_at :: "'d leveldb \<Rightarrow> bytes option \<Rightarrow> hash \<Rightarrow> byte \<Rightarrow> ('d, unit) dbm" where
  "store_block_at lv json h chainID =
     (let key = chain_block_key chainID h; keyB = blockKeyPrefix @ h in
      dbind (exists_key lv key) (\<lambda>ok.
        if ok then dfail (DatabaseError BlockExisted)
        else case json of
               None \<Rightarrow> dfail (DatabaseError UnexpectedError)
             | Some val \<Rightarrow>
                 dbind (dwrap unexpected (put lv key keyB)) (\<lambda>_. dwrap unexpected (put lv keyB val))))"

definition StoreBlock :: "'d leveldb \<Rightarrow> stored_value \<Rightarrow> byte \<Rightarrow> ('d, unit) dbm" where
  "StoreBlock lv v chainID =
     (case sv_Hash v of
        None \<Rightarrow> dfail (DatabaseError NotImplHashMethod)
      | Some h \<Rightarrow> store_block_at lv (sv_json v) h chainID)"

definition StoreBlockHeader :: "'d leveldb \<Rightarrow> stored_value \<Rightarrow> hash \<Rightarrow> byte \<Rightarrow> ('d, unit) dbm" where
  "StoreBlockHeader lv v h chainID = store_block_at lv (sv_json v) h chainID"

definition HasBlock :: "'d leveldb \<Rightarrow> hash \<Rightarrow> ('d, bool) dbm" where
  "HasBlock lv h = hasValue lv (getKey blockKeyPrefix h)"

definition FetchBlock :: "'d leveldb \<Rightarrow> hash \<Rightarrow> ('d, bytes) dbm" where
  "FetchBlock lv h = dwrap unexpected (lv_get lv (getKey blockKeyPrefix h))"

definition index_key :: "int \<Rightarrow> byte \<Rightarrow> bytes" where
  "index_key idx chainID = PutUint32 (of_int idx) @ [chainID]"

definition DeleteBlock :: "'d leveldb \<Rightarrow> hash \<Rightarrow> int \<Rightarrow> byte \<Rightarrow> ('d, unit) dbm" where
  "DeleteBlock lv h idx chainID =
     dbind (dwrap unexpected (lv_delete lv (getKey blockKeyPrefix h))) (\<lambda>_.
     dbind (dwrap unexpected (lv_delete lv (getKey blockKeyIdxPrefix h))) (\<lambda>_.
       dwrap unexpected (lv_delete lv (index_key idx chainID))))"

definition StoreBestState :: "'d leveldb \<Rightarrow> bytes option \<Rightarrow> byte \<Rightarrow> ('d, unit) dbm" where
  "StoreBestState lv json chainID =
     (case json of
        None \<Rightarrow> dfail (DatabaseError UnexpectedError)
      | Some val \<Rightarrow> dwrap unexpected (put lv (bestBlockKey @ [chainID]) val))"

definition FetchBestState :: "'d leveldb \<Rightarrow> byte \<Rightarrow> ('d, bytes) dbm" where
  "FetchBestState lv chainID = dwrap unexpected (lv_get lv (bestBlockKey @ [chainID]))"

definition TotalValidators :: nat where "TotalValidators = 20"
definition ChainCount :: nat where "ChainCount = 20"

definition CleanBestState :: "'d leveldb \<Rightarrow> ('d, unit) dbm" where
  "CleanBestState lv = delete_all lv (map (\<lambda>c. bestBlockKey @ [of_nat c]) [0..<TotalValidators])"

definition StoreBlockIndex :: "'d leveldb \<Rightarrow> hash \<Rightarrow> int \<Rightarrow> byte \<Rightarrow> ('d, unit) dbm" where
  "StoreBlockIndex lv h idx chainID =
     (let buf = index_key idx chainID in
      dbind (dwrap unexpected (lv_put lv (getKey blockKeyIdxPrefix h) buf)) (\<lambda>_.
        dwrap unexpected (lv_put lv buf h)))"

text \<open>\<open>b[:4]\<close> of a shorter value panics; nothing left for the chain byte is a read error.\<close>

definition GetIndexOfBlock :: "'d leveldb \<Rightarrow> hash \<Rightarrow> ('d, int \<times> byte) dbm" where
  "GetIndexOfBlock lv h =
     dbind (dwrap unexpected (lv_get lv (getKey blockKeyIdxPrefix h))) (\<lambda>b.
       if length b < 4 then dpanic
       else case drop 4 b of
              [] \<Rightarrow> dfail (DatabaseError UnexpectedError)
            | chainID # _ \<Rightarrow> dret (wrap32 (uint (Uint32 (take 4 b))), chainID))"

text \<open>\<open>SetBytes\<close> leaves the zero hash when the value does not have 32 bytes.\<close>

definition hash_of_value :: "bytes \<Rightarrow> hash" where
  "hash_of_value b = (case SetBytes zero_hash b of Ok h \<Rightarrow> h | _ \<Rightarrow> zero_hash)"

definition GetBlockByIndex :: "'d leveldb \<Rightarrow> int \<Rightarrow> byte \<Rightarrow> ('d, hash) dbm" where
  "GetBlockByIndex lv idx chainID =
     dbind (dwrap unexpected (lv_get lv (index_key idx chainID))) (\<lambda>b. dret (hash_of_value b))"

definition chain_prefix :: "byte \<Rightarrow> bytes" where
  "chain_prefix chainID = chainIDPrefix @ [chainID] @ blockKeyPrefix"

definition FetchChainBlocks :: "'d leveldb \<Rightarrow> byte \<Rightarrow> ('d, hash list) dbm" where
  "FetchChainBlocks lv chainID =
     dbind (lv_iter lv (chain_prefix chainID)) (\<lambda>(kvs, err).
       case err of
         Some e \<Rightarrow> dfail (DatabaseError UnexpectedError)
       | None \<Rightarrow> dret (map (\<lambda>(k, v). hash_of_value (drop (length (chain_prefix chainID)) k)) kvs))"

text \<open>\<open>FetchAllBlocks\<close> assigns into a map that was never made: the first block of any chain panics,
  and without blocks the nil map is returned.\<close>

fun fetch_all_loop :: "'d leveldb \<Rightarrow> byte list \<Rightarrow> ('d, (byte \<times> hash list) list) dbm" where
  "fetch_all_loop lv [] = dret []"
| "fetch_all_loop lv (c # cs) =
     dbind (lv_iter lv (chain_prefix c)) (\<lambda>(kvs, err).
       if kvs \<noteq> [] then dpanic
       else case err of
              Some e \<Rightarrow> dfail (DatabaseError UnexpectedError)
            | None \<Rightarrow> fetch_all_loop lv cs)"

definition FetchAllBlocks :: "'d leveldb \<Rightarrow> ('d, (byte \<times> hash list) list) dbm" where
  "FetchAllBlocks lv = fetch_all_loop lv (map of_nat [0..<ChainCount])"

subsection \<open>Nullifiers and commitments (\<open>tx.go\<close>)\<close>

text \<open>\<open>err != nil && err != ErrNotFound\<close>: an absent list reads as empty bytes.\<close>

definition get_or_empty :: "'d leveldb \<Rightarrow> bytes \<Rightarrow> ('d, bytes) dbm" where
  "get_or_empty lv key = (\<lambda>d.
     case lv_Get lv d key of
       Ok v \<Rightarrow> (Ok v, d)
     | Err ErrNotFound \<Rightarrow> (Ok [], d)
     | Err LvFailure \<Rightarrow> (Err (DatabaseError UnexpectedError), d)
     | Panic \<Rightarrow> (Panic, d))"

definition decode_slices :: "db_error \<Rightarrow> bytes \<Rightarrow> ('d, bytes list) dbm" where
  "decode_slices e res =
     (if length res > 0
      then case json_Unmarshal_slices res of None \<Rightarrow> dfail e | Some txs \<Rightarrow> dret txs
      else dret [])"

definition list_key :: "bytes \<Rightarrow> byte \<Rightarrow> bytes" where
  "list_key p chainID = getKey p [] @ [chainID]"

definition StoreNullifiers :: "'d leveldb \<Rightarrow> bytes \<Rightarrow> byte \<Rightarrow> ('d, unit) dbm" where
  "StoreNullifiers lv nullifier chainId =
     (let key = list_key nullifiersPrefix chainId in
      dbind (get_or_empty lv key) (\<lambda>res.
      dbind (decode_slices (DatabaseError UnexpectedError) res) (\<lambda>txs.
        lv_put lv key (json_Marshal_slices (txs @ [nullifier])))))"

definition FetchNullifiers :: "'d leveldb \<Rightarrow> byte \<Rightarrow> ('d, bytes list) dbm" where
  "FetchNullifiers lv chainID =
     dbind (get_or_empty lv (list_key nullifiersPrefix chainID)) (decode_slices JsonErr)"

definition HasNullifier :: "'d leveldb \<Rightarrow> bytes \<Rightarrow> byte \<Rightarrow> ('d, bool) dbm" where
  "HasNullifier lv nullifier chainID =
     dbind (dwrap unexpected (FetchNullifiers lv chainID)) (\<lambda>listNullifiers.
       dret (list_ex (\<lambda>item. item = nullifier) listNullifiers))"

definition CleanNullifiers :: "'d leveldb \<Rightarrow> ('d, unit) dbm" where
  "CleanNullifiers lv = clean_prefix lv nullifiersPrefix"

definition StoreCommitments :: "'d leveldb \<Rightarrow> bytes \<Rightarrow> byte \<Rightarrow> ('d, unit) dbm" where
  "StoreCommitments lv commitments chainId =
     (let key = list_key commitmentsPrefix chainId in
      dbind (get_or_empty lv key) (\<lambda>res.
      dbind (decode_slices (DatabaseError UnexpectedError) res) (\<lambda>txs.
        lv_put lv key (json_Marshal_slices (txs @ [commitments])))))"

definition FetchCommitments :: "'d leveldb \<Rightarrow> byte \<Rightarrow> ('d, bytes list) dbm" where
  "FetchCommitments lv chainId =
     dbind (get_or_empty lv (list_key commitmentsPrefix chainId)) (decode_slices (DatabaseError UnexpectedError))"

definition HasCommitment :: "'d leveldb \<Rightarrow> bytes \<Rightarrow> byte \<Rightarrow> ('d, bool) dbm" where
  "HasCommitment lv commitment chainId =
     dbind (dwrap unexpected (FetchCommitments lv chainId)) (\<lambda>listCommitments.
       dret (list_ex (\<lambda>item. item = commitment) listCommitments))"

definition CleanCommitments :: "'d leveldb \<Rightarrow> ('d, unit) dbm" where
  "CleanCommitments lv = clean_prefix lv commitmentsPrefix"

subsection \<open>Fee estimators and transaction indices (\<open>tx.go\<close>)\<close>

definition StoreFeeEstimator :: "'d leveldb \<Rightarrow> bytes \<Rightarrow> byte \<Rightarrow> ('d, unit) dbm" where
  "StoreFeeEstimator lv val chainId = dwrap unexpected (put lv (feeEstimator @ [chainId]) val)"

definition GetFeeEstimator :: "'d leveldb \<Rightarrow> byte \<Rightarrow> ('d, bytes) dbm" where
  "GetFeeEstimator lv chainId = dwrap unexpected (lv_get lv (feeEstimator @ [chainId]))"

definition CleanFeeEstimator :: "'d leveldb \<Rightarrow> ('d, unit) dbm" where
  "CleanFeeEstimator lv = clean_prefix lv feeEstimator"

definition tx_key :: "hash \<Rightarrow> bytes" where
  "tx_key h = transactionKeyPrefix @ bytes_of_string (hash_String h)"

definition StoreTransactionIndex :: "'d leveldb \<Rightarrow> hash \<Rightarrow> hash \<Rightarrow> int \<Rightarrow> ('d, unit) dbm" where
  "StoreTransactionIndex lv tid blockHash index =
     lv_put lv (tx_key tid) (bytes_of_string (hash_String blockHash @ splitter @ Itoa index))"

definition GetTransactionIndexById :: "'d leveldb \<Rightarrow> hash \<Rightarrow> ('d, hash \<times> int) dbm" where
  "GetTransactionIndexById lv tid =
     (let key = tx_key tid in
      dbind (hasValue lv key) (\<lambda>_.
      dbind (lv_get lv key) (\<lambda>res.
        case strings_Split (string_of_bytes res) splitter of
          [] \<Rightarrow> dpanic
        | h # rest \<Rightarrow>
           (case NewHashFromStr h of
              Err e \<Rightarrow> dfail (HashErr e)
            | Panic \<Rightarrow> dpanic
            | Ok hash \<Rightarrow>
               (case rest of
                  [] \<Rightarrow> dpanic
                | i # _ \<Rightarrow> (case Atoi i of None \<Rightarrow> dfail AtoiErr | Some index \<Rightarrow> dret (hash, index)))))))"

subsection \<open>Loans (\<open>loan.go\<close>)\<close>

definition store_loan :: "'d leveldb \<Rightarrow> bytes \<Rightarrow> bytes \<Rightarrow> bytes \<Rightarrow> ('d, unit) dbm" where
  "store_loan lv postfix loanID txHash =
     (let keyLoanID = loanIDKeyPrefix @ loanID @ postfix; keyTxHash = loanTxKeyPrefix @ txHash in
      dbind (exists_key lv keyLoanID) (\<lambda>ok.
      if ok then dfail (DatabaseError KeyExisted)
      else dbind (dwrap unexpected (put lv keyLoanID txHash)) (\<lambda>_.
           dbind (exists_key lv keyTxHash) (\<lambda>ok2.
           if ok2 then dfail (DatabaseError KeyExisted)
           else dwrap unexpected (put lv keyTxHash (loanID @ postfix))))))"

definition StoreLoanRequest :: "'d leveldb \<Rightarrow> bytes \<Rightarrow> bytes \<Rightarrow> ('d, unit) dbm" where
  "StoreLoanRequest lv loanID txHash = store_loan lv loanRequestPostfix loanID txHash"

definition StoreLoanResponse :: "'d leveldb \<Rightarrow> bytes \<Rightarrow> bytes \<Rightarrow> ('d, unit) dbm" where
  "StoreLoanResponse lv loanID txHash = store_loan lv loanResponsePostfix loanID txHash"

definition GetLoanTxs :: "'d leveldb \<Rightarrow> bytes \<Rightarrow> ('d, bytes list) dbm" where
  "GetLoanTxs lv loanID = dbind (lv_iter lv (loanIDKeyPrefix @ loanID)) (\<lambda>(kvs, err). dret (map snd kvs))"

subsection \<open>Light mode (\<open>tx.go\<close>)\<close>

definition bigNumber :: int where "bigNumber = 999999999"
definition bigNumberTx :: int where "bigNumberTx = 999999999"

text \<open>\<open>SpendingKey.String\<close> reverses the first 32 bytes of the slice in place, in the caller's array,
  and prints it; a shorter key panics. The result is the string and the changed key.\<close>

definition reverse32 :: "bytes \<Rightarrow> bytes" where
  "reverse32 k = rev (take 32 k) @ drop 32 k"

definition SpendingKey_String :: "bytes \<Rightarrow> (string \<times> bytes) option" where
  "SpendingKey_String spendingKey =
     (if length spendingKey < 32 then None
      else Some (hex_EncodeToString (reverse32 spendingKey), reverse32 spendingKey))"

text \<open>\<open>fmt.Println\<close> of a \<open>*SpendingKey\<close> calls its \<open>String\<close> method (and recovers from its panic).\<close>

definition Println_key :: "bytes \<Rightarrow> bytes" where
  "Println_key k = (case SpendingKey_String k of None \<Rightarrow> k | Some (s, k') \<Rightarrow> k')"

definition reversed_height :: "int \<Rightarrow> bytes" where
  "reversed_height blockHeight = PutUint32 (of_int (wrap32 (bigNumber - blockHeight)))"

definition reversed_index :: "int \<Rightarrow> bytes" where
  "reversed_index txIndex = PutUint32 (of_int (wrap32 (bigNumberTx - wrap32 txIndex)))"

definition light_key :: "string \<Rightarrow> byte \<Rightarrow> int \<Rightarrow> int \<Rightarrow> bytes" where
  "light_key pk chainId blockHeight txIndex =
     privateKeyPrefix @ bytes_of_string (pk @ splitter @ string_of_int (uint chainId) @ splitter) @
     reversed_height blockHeight @ bytes_of_string splitter @ reversed_index txIndex"

text \<open>The private key is returned with the result: the caller's slice is changed. Of the transaction
  the code uses its hash and its JSON.\<close>

definition StoreTransactionLightMode ::
  "'d leveldb \<Rightarrow> bytes \<Rightarrow> byte \<Rightarrow> int \<Rightarrow> int \<Rightarrow> hash \<Rightarrow> bytes option \<Rightarrow> 'd \<Rightarrow> ((db_error, unit) res \<times> 'd) \<times> bytes" where
  "StoreTransactionLightMode lv privateKey chainId blockHeight txIndex txHash json d =
     (case SpendingKey_String (Println_key privateKey) of
        None \<Rightarrow> ((Panic, d), Println_key privateKey)
      | Some (s, privateKey') \<Rightarrow>
          let key1 = light_key s chainId blockHeight txIndex; key2 = tx_key txHash in
          (dbind (exists_key lv key1) (\<lambda>ok1.
           if ok1 then dfail (DatabaseError BlockExisted)
           else dbind (exists_key lv key2) (\<lambda>ok2.
             if ok2 then dfail (DatabaseError BlockExisted)
             else case json of
                    None \<Rightarrow> dfail (DatabaseError UnexpectedError)
                  | Some val \<Rightarrow>
                      dbind (dwrap unexpected (put lv key1 val)) (\<lambda>_. dwrap unexpected (put lv key2 key1)))) d,
           privateKey'))"

text \<open>\<open>strconv.Atoi\<close> with its error dropped: 0 for a string that is no number, the nearest \<open>int\<close> for
  a number out of range.\<close>

definition Atoi_or_zero :: "string \<Rightarrow> int" where
  "Atoi_or_zero s =
     (case Atoi s of
        Some v \<Rightarrow> v
      | None \<Rightarrow>
          let ds = (case s of [] \<Rightarrow> [] | c # r \<Rightarrow> if c = CHR ''-'' \<or> c = CHR ''+'' then r else s)
          in if ds \<noteq> [] \<and> list_all is_digit ds then if hd s = CHR ''-'' then - (2 ^ 63) else 2 ^ 63 - 1 else 0)"

text \<open>\<open>unm\<close> is \<open>json.Unmarshal\<close> into a \<open>Tx\<close>; the result maps a chain to its transactions. The third
  field of the key, which the loop reads as the chain, is the reversed block height.\<close>

fun light_loop ::
  "(bytes \<Rightarrow> 't option) \<Rightarrow> (bytes \<times> bytes) list \<Rightarrow> (byte \<Rightarrow> 't list) \<Rightarrow> (db_error, byte \<Rightarrow> 't list) res" where
  "light_loop unm [] results = Ok results"
| "light_loop unm ((key, val) # kvs) results =
     (case drop 2 (strings_Split (string_of_bytes key) splitter) of
        [] \<Rightarrow> Panic
      | f # _ \<Rightarrow>
          let chainId = of_int (Atoi_or_zero f) in
          case unm val of
            None \<Rightarrow> Err (DatabaseError UnexpectedError)
          | Some tx \<Rightarrow> light_loop unm kvs (results(chainId := results chainId @ [tx])))"

definition GetTransactionLightModeByPrivateKey ::
  "'d leveldb \<Rightarrow> (bytes \<Rightarrow> 't option) \<Rightarrow> bytes \<Rightarrow> 'd \<Rightarrow> ((db_error, byte \<Rightarrow> 't list) res \<times> 'd) \<times> bytes" where
  "GetTransactionLightModeByPrivateKey lv unm privateKey d =
     (case SpendingKey_String privateKey of
        None \<Rightarrow> ((Panic, d), privateKey)
      | Some (s, privateKey') \<Rightarrow>
          (dbind (lv_iter lv (privateKeyPrefix @ bytes_of_string s))
             (\<lambda>(kvs, err) d. (light_loop unm kvs (\<lambda>_. []), d)) d, privateKey'))"

definition GetTransactionLightModeByHash :: "'d leveldb \<Rightarrow> hash \<Rightarrow> ('d, bytes \<times> bytes) dbm" where
  "GetTransactionLightModeByHash lv tid =
     (let key = tx_key tid in
      dbind (hasValue lv key) (\<lambda>_.
      dbind (lv_get lv key) (\<lambda>val.
      dbind (\<lambda>d. case hasValue lv val d of
                   (Err e, d') \<Rightarrow> (Ok False, d') \<comment> \<open>the nil error of the previous call is returned\<close>
                 | (Ok b, d') \<Rightarrow> (Ok True, d')
                 | (Panic, d') \<Rightarrow> (Panic, d')) (\<lambda>go.
        if \<not> go then dret ([], [])
        else dbind (lv_get lv val) (\<lambda>tx. dret (val, tx))))))"

subsection \<open>The contract of LevelDB\<close>

locale kv_store =
  fixes lv :: "'d leveldb"
    and view :: "'d \<Rightarrow> (bytes \<rightharpoonup> bytes)"
    and invar :: "'d \<Rightarrow> bool"
  assumes get: "invar d \<Longrightarrow> lv_Get lv d k = (case view d k of None \<Rightarrow> Err ErrNotFound | Some v \<Rightarrow> Ok v)"
    and has: "invar d \<Longrightarrow> lv_Has lv d k = Ok (view d k \<noteq> None)"
    and put_ok: "invar d \<Longrightarrow> fst (lv_Put lv d k v) = None"
    and put_view: "invar d \<Longrightarrow> view (snd (lv_Put lv d k v)) = (view d)(k \<mapsto> v)"
    and put_invar: "invar d \<Longrightarrow> invar (snd (lv_Put lv d k v))"
    and del_ok: "invar d \<Longrightarrow> fst (lv_Delete lv d k) = None"
    and del_view: "invar d \<Longrightarrow> view (snd (lv_Delete lv d k)) = (view d)(k := None)"
    and del_invar: "invar d \<Longrightarrow> invar (snd (lv_Delete lv d k))"
    and iter_ok: "invar d \<Longrightarrow> snd (lv_Iter lv d p) = None"
    and iter_sorted: "invar d \<Longrightarrow> sorted_wrt (<) (map fst (fst (lv_Iter lv d p)))"
    and iter_set: "invar d \<Longrightarrow> set (fst (lv_Iter lv d p)) = {(k, v). view d k = Some v \<and> has_prefix p k}"
begin

text \<open>The primitive accesses in terms of the view.\<close>

lemma lv_get_eq:
  "invar d \<Longrightarrow> lv_get lv k d = (case view d k of None \<Rightarrow> (Err (LvErr ErrNotFound), d) | Some v \<Rightarrow> (Ok v, d))"
  by (simp add: lv_get_def get split: option.split)

lemma hasValue_eq: "invar d \<Longrightarrow> hasValue lv k d = (Ok (view d k \<noteq> None), d)"
  by (simp add: hasValue_def dwrap_def lv_has_def has)

lemma exists_key_eq: "invar d \<Longrightarrow> exists_key lv k d = (Ok (view d k \<noteq> None), d)"
  by (simp add: exists_key_def hasValue_eq)

lemma lv_put_eq: "invar d \<Longrightarrow> lv_put lv k v d = (Ok (), snd (lv_Put lv d k v))"
  using put_ok [of d k v] by (cases "lv_Put lv d k v") (simp add: lv_put_def)

lemma put_eq: "invar d \<Longrightarrow> put lv k v d = (Ok (), snd (lv_Put lv d k v))"
  by (simp add: put_def dwrap_def lv_put_eq)

lemma lv_delete_eq: "invar d \<Longrightarrow> lv_delete lv k d = (Ok (), snd (lv_Delete lv d k))"
  using del_ok [of d k] by (cases "lv_Delete lv d k") (simp add: lv_delete_def)

lemma get_or_empty_eq: "invar d \<Longrightarrow> get_or_empty lv k d = (Ok (case view d k of None \<Rightarrow> [] | Some v \<Rightarrow> v), d)"
  by (simp add: get_or_empty_def get split: option.split)

lemma lv_iter_eq: "invar d \<Longrightarrow> lv_iter lv p d = (Ok (fst (lv_Iter lv d p), None), d)"
  using iter_ok [of d p] by (cases "lv_Iter lv d p") (simp add: lv_iter_def)

lemmas access_simps =
  lv_get_eq hasValue_eq exists_key_eq lv_put_eq put_eq lv_delete_eq get_or_empty_eq lv_iter_eq

lemmas state_simps = put_view put_invar del_view del_invar

end

subsection \<open>Sorted association lists as a LevelDB\<close>

fun al_put :: "bytes \<Rightarrow> bytes \<Rightarrow> (bytes \<times> bytes) list \<Rightarrow> (bytes \<times> bytes) list" where
  "al_put k v [] = [(k, v)]"
| "al_put k v ((a, b) # kvs) =
     (if k < a then (k, v) # (a, b) # kvs else if k = a then (k, v) # kvs else (a, b) # al_put k v kvs)"

definition al_db :: "(bytes \<times> bytes) list leveldb" where
  "al_db =
     \<lparr>lv_Get = (\<lambda>d k. case map_of d k of None \<Rightarrow> Err ErrNotFound | Some v \<Rightarrow> Ok v),
      lv_Has = (\<lambda>d k. Ok (map_of d k \<noteq> None)),
      lv_Put = (\<lambda>d k v. (None, al_put k v d)),
      lv_Delete = (\<lambda>d k. (None, filter (\<lambda>e. fst e \<noteq> k) d)),
      lv_Iter = (\<lambda>d p. (filter (\<lambda>e. has_prefix p (fst e)) d, None))\<rparr>"

abbreviation al_sorted :: "(bytes \<times> bytes) list \<Rightarrow> bool" where
  "al_sorted d \<equiv> sorted_wrt (<) (map fst d)"

lemma set_al_put: "fst ` set (al_put k v d) = insert k (fst ` set d)"
  by (induction k v d rule: al_put.induct) auto

lemma al_put_sorted: "al_sorted d \<Longrightarrow> al_sorted (al_put k v d)"
proof (induction k v d rule: al_put.induct)
  case (2 k v a b kvs)
  have "\<not> k < a \<Longrightarrow> k \<noteq> a \<Longrightarrow> a < k" by simp
  moreover have "\<forall>x \<in> fst ` set (al_put k v kvs). x = k \<or> x \<in> fst ` set kvs" by (simp add: set_al_put)
  ultimately show ?case using 2 by (fastforce dest: less_trans)
qed simp

lemma map_of_al_put: "map_of (al_put k v d) = (map_of d)(k \<mapsto> v)"
  by (induction k v d rule: al_put.induct) (auto simp: fun_eq_iff)

lemma map_of_filter_key: "map_of (filter (\<lambda>e. fst e \<noteq> k) d) = (map_of d)(k := None)"
  by (induction d) (auto simp: fun_eq_iff)

lemma al_sorted_filter: "al_sorted d \<Longrightarrow> al_sorted (filter P d)"
  by (induction d) auto

lemma al_sorted_distinct: "al_sorted d \<Longrightarrow> distinct (map fst d)"
  using strict_sorted_iff by blast

interpretation adb: kv_store al_db map_of al_sorted
proof (unfold_locales, goal_cases)
  case (11 d p)
  then have "distinct (map fst d)" by (rule al_sorted_distinct)
  then show ?case by (auto simp: al_db_def)
qed (auto simp: al_db_def al_put_sorted map_of_al_put map_of_filter_key al_sorted_filter)

lemma sorted_assoc_unique:
  fixes xs ys :: "('a :: linorder \<times> 'b) list"
  assumes "sorted_wrt (<) (map fst xs)" "sorted_wrt (<) (map fst ys)" "set xs = set ys"
  shows "xs = ys"
  using assms
proof (induction xs arbitrary: ys)
  case (Cons x xs)
  then obtain y ys' where ys: "ys = y # ys'" by (cases ys) auto
  have lt: "\<And>z. z \<in> set xs \<Longrightarrow> fst x < fst z" "\<And>z. z \<in> set ys' \<Longrightarrow> fst y < fst z"
    using Cons.prems ys by auto
  have "x = y"
  proof (rule ccontr)
    assume "x \<noteq> y"
    then have "x \<in> set ys'" "y \<in> set xs" using Cons.prems(3) ys by auto
    then show False using lt by fastforce
  qed
  moreover have "x \<notin> set xs" "y \<notin> set ys'" using lt [of x] lt(2) [of y] by blast+
  ultimately have "set xs = set ys'" using Cons.prems(3) ys by auto
  then show ?case using Cons ys \<open>x = y\<close> by auto
qed simp

subsection \<open>Lists of byte slices per chain\<close>

text \<open>What the nullifier and the commitment list have in common: a list per chain that \<open>store\<close>
  extends, \<open>fetch\<close> reads and \<open>has\<close> searches.\<close>

locale slice_store =
  fixes store :: "bytes \<Rightarrow> byte \<Rightarrow> ('d, unit) dbm"
    and fetch :: "byte \<Rightarrow> ('d, bytes list) dbm"
    and has_item :: "bytes \<Rightarrow> byte \<Rightarrow> ('d, bool) dbm"
    and contents :: "'d \<Rightarrow> byte \<Rightarrow> bytes list"
    and good :: "'d \<Rightarrow> bool"
  assumes fetch_contents: "good d \<Longrightarrow> fetch c d = (Ok (contents d c), d)"
    and has_contents: "good d \<Longrightarrow> has_item x c d = (Ok (x \<in> set (contents d c)), d)"
    and store_ok: "good d \<Longrightarrow> fst (store x c d) = Ok ()"
    and store_good: "good d \<Longrightarrow> good (snd (store x c d))"
    and store_contents: "good d \<Longrightarrow> contents (snd (store x c d)) = (contents d)(c := contents d c @ [x])"
begin

fun store_all :: "bytes list \<Rightarrow> byte \<Rightarrow> 'd \<Rightarrow> 'd" where
  "store_all [] c d = d"
| "store_all (x # xs) c d = store_all xs c (snd (store x c d))"

lemma store_all_contents:
  "good d \<Longrightarrow> good (store_all xs c d) \<and> contents (store_all xs c d) = (contents d)(c := contents d c @ xs)"
proof (induction xs arbitrary: d)
  case (Cons x xs)
  from Cons.IH [OF store_good [OF Cons.prems]] show ?case by (auto simp: store_contents [OF Cons.prems] fun_eq_iff)
qed simp

lemma has_after_store:
  "good d \<Longrightarrow> has_item y c' (snd (store x c d)) =
     (Ok (y = x \<and> c' = c \<or> y \<in> set (contents d c')), snd (store x c d))"
  by (auto simp: has_contents store_good store_contents)

end

definition slices_ok :: "(bytes \<rightharpoonup> bytes) \<Rightarrow> bytes \<Rightarrow> bool" where
  "slices_ok m p \<longleftrightarrow> (\<forall>c v. m (list_key p c) = Some v \<longrightarrow> (\<exists>xs. v = json_Marshal_slices xs))"

definition slices_at :: "(bytes \<rightharpoonup> bytes) \<Rightarrow> bytes \<Rightarrow> byte \<Rightarrow> bytes list" where
  "slices_at m p c = (case m (list_key p c) of None \<Rightarrow> [] | Some v \<Rightarrow> the (json_Unmarshal_slices v))"

lemma list_key_inject:
  "p \<in> {nullifiersPrefix, commitmentsPrefix} \<Longrightarrow> list_key p c = list_key p c' \<longleftrightarrow> c = c'"
  by (auto simp: list_key_def getKey_def)

lemma slices_ok_upd:
  "slices_ok m p \<Longrightarrow> slices_ok (m(list_key p c \<mapsto> json_Marshal_slices xs)) p"
  by (auto simp: slices_ok_def)

lemma slices_at_upd:
  "p \<in> {nullifiersPrefix, commitmentsPrefix} \<Longrightarrow>
   slices_at (m(list_key p c \<mapsto> json_Marshal_slices xs)) p = (slices_at m p)(c := xs)"
  by (auto simp: slices_at_def list_key_inject json_slices_roundtrip fun_eq_iff)

lemma dbind_Ok: "m d = (Ok a, d') \<Longrightarrow> dbind m f d = f a d'"
  by (simp add: dbind_def)

lemma dbind_Err: "m d = (Err e, d') \<Longrightarrow> dbind m f d = (Err e, d')"
  by (simp add: dbind_def)

context kv_store
begin

abbreviation slices_good :: "bytes \<Rightarrow> 'd \<Rightarrow> bool" where
  "slices_good p d \<equiv> invar d \<and> slices_ok (view d) p"

lemma decode_contents:
  assumes "slices_good p d"
  shows "dbind (get_or_empty lv (list_key p c)) (decode_slices e) d = (Ok (slices_at (view d) p c), d)"
proof (cases "view d (list_key p c)")
  case None
  then show ?thesis using assms
    by (simp add: dbind_def get_or_empty_eq decode_slices_def dret_def slices_at_def)
next
  case (Some v)
  then obtain xs where "v = json_Marshal_slices xs" using assms by (auto simp: slices_ok_def)
  then show ?thesis using assms Some
    by (simp add: dbind_def get_or_empty_eq decode_slices_def dret_def slices_at_def json_slices_roundtrip)
qed

lemma append_slice:
  assumes "slices_good p d"
  shows "dbind (get_or_empty lv (list_key p c)) (\<lambda>res. dbind (decode_slices e res)
      (\<lambda>txs. lv_put lv (list_key p c) (json_Marshal_slices (txs @ [x])))) d
    = (Ok (), snd (lv_Put lv d (list_key p c) (json_Marshal_slices (slices_at (view d) p c @ [x]))))"
proof (cases "view d (list_key p c)")
  case None
  then show ?thesis using assms
    by (simp add: dbind_def get_or_empty_eq decode_slices_def dret_def slices_at_def lv_put_eq)
next
  case (Some v)
  then obtain xs where "v = json_Marshal_slices xs" using assms by (auto simp: slices_ok_def)
  then show ?thesis using assms Some
    by (simp add: dbind_def get_or_empty_eq decode_slices_def dret_def slices_at_def json_slices_roundtrip lv_put_eq)
qed

lemma StoreNullifiers_eq:
  "slices_good nullifiersPrefix d \<Longrightarrow> StoreNullifiers lv x c d =
     (Ok (), snd (lv_Put lv d (list_key nullifiersPrefix c)
        (json_Marshal_slices (slices_at (view d) nullifiersPrefix c @ [x]))))"
  by (simp add: StoreNullifiers_def Let_def append_slice)

lemma StoreCommitments_eq:
  "slices_good commitmentsPrefix d \<Longrightarrow> StoreCommitments lv x c d =
     (Ok (), snd (lv_Put lv d (list_key commitmentsPrefix c)
        (json_Marshal_slices (slices_at (view d) commitmentsPrefix c @ [x]))))"
  by (simp add: StoreCommitments_def Let_def append_slice)

lemma has_from_fetch:
  "fetch d = (Ok xs, d) \<Longrightarrow>
   dbind (dwrap g fetch) (\<lambda>l. dret (list_ex (\<lambda>i. i = x) l)) d = (Ok (x \<in> set xs), d)"
  by (auto simp: dbind_def dwrap_def dret_def list_ex_iff)

end

sublocale kv_store \<subseteq> nf: slice_store "StoreNullifiers lv" "FetchNullifiers lv" "HasNullifier lv"
  "\<lambda>d. slices_at (view d) nullifiersPrefix" "slices_good nullifiersPrefix"
proof (unfold_locales, goal_cases)
  case (2 d x c)
  then show ?case
    unfolding HasNullifier_def by (intro has_from_fetch) (simp add: FetchNullifiers_def decode_contents)
qed (simp_all add: FetchNullifiers_def decode_contents StoreNullifiers_eq put_invar put_view slices_ok_upd slices_at_upd)

sublocale kv_store \<subseteq> cm: slice_store "StoreCommitments lv" "FetchCommitments lv" "HasCommitment lv"
  "\<lambda>d. slices_at (view d) commitmentsPrefix" "slices_good commitmentsPrefix"
proof (unfold_locales, goal_cases)
  case (2 d x c)
  then show ?case
    unfolding HasCommitment_def by (intro has_from_fetch) (simp add: FetchCommitments_def decode_contents)
qed (simp_all add: FetchCommitments_def decode_contents StoreCommitments_eq put_invar put_view slices_ok_upd slices_at_upd)

subsection \<open>Keys do not collide\<close>

lemma length_keys [simp]:
  "length (chain_block_key c h) = 4 + length h" "length (index_key i c) = 5"
  "length (getKey blockKeyPrefix h) = 2 + length h" "length (getKey blockKeyIdxPrefix h) = 2 + length h"
  by (simp_all add: chain_block_key_def index_key_def getKey_def prefix_defs)

lemma getKey_block: "getKey blockKeyPrefix h = blockKeyPrefix @ h" "getKey blockKeyIdxPrefix h = blockKeyIdxPrefix @ h"
  by (simp_all add: getKey_def)

lemma length_block_key [simp]: "length (blockKeyPrefix @ h) = 2 + length h" "length (blockKeyIdxPrefix @ h) = 2 + length h"
  by (simp_all add: prefix_defs)

lemma length_neq: "length xs \<noteq> length ys \<Longrightarrow> xs \<noteq> ys"
  by auto

lemma key_neqs:
  "is_hash h \<Longrightarrow> chain_block_key c h \<noteq> blockKeyPrefix @ h"
  "is_hash h \<Longrightarrow> chain_block_key c h \<noteq> blockKeyIdxPrefix @ h"
  "is_hash h \<Longrightarrow> chain_block_key c h \<noteq> index_key i c'"
  "is_hash h \<Longrightarrow> blockKeyPrefix @ h \<noteq> index_key i c'"
  "is_hash h \<Longrightarrow> blockKeyIdxPrefix @ h \<noteq> index_key i c'"
  "blockKeyPrefix @ h \<noteq> blockKeyIdxPrefix @ h"
proof -
  show "blockKeyPrefix @ h \<noteq> blockKeyIdxPrefix @ h"
    by (simp add: prefix_defs bytes_of_string_def byte_of_char_def)
qed (rule length_neq; simp add: is_hash_def prefix_defs)+

lemma has_prefix_same: "has_prefix p (p @ s)"
  by simp

lemma hash_String_no_dash: "CHR ''-'' \<notin> set (hash_String h)"
proof -
  have t: "list_all (\<lambda>n. hextable ! n \<noteq> CHR ''-'') [0..<16]" by code_simp
  have "hextable ! (unat v div 16) \<noteq> CHR ''-'' \<and> hextable ! (unat v mod 16) \<noteq> CHR ''-''" for v :: byte
    using t byte_lt [of v] by (auto simp: list_all_iff div_less_iff_less_mult)
  then show ?thesis by (force simp: hash_String_def hex_EncodeToString_def)
qed

lemma split_index:
  "0 \<le> i \<Longrightarrow> strings_Split (hash_String h @ splitter @ Itoa i) splitter = [hash_String h, Itoa i]"
proof -
  assume i: "0 \<le> i"
  have s: "splitter = CHR ''-'' # ''[-]-''" by (simp add: splitter_def)
  show ?thesis
    using strings_Split_field [OF s hash_String_no_dash] strings_Split_1 [OF s Itoa_no_dash [OF i]] by simp
qed

lemmas run_defs = dbind_def dwrap_def dret_def dfail_def dpanic_def

context kv_store
begin

lemma StoreBlock_new:
  assumes "invar d" "sv_Hash v = Some h" "sv_json v = Some j" "view d (chain_block_key c h) = None"
  obtains d' where "StoreBlock lv v c d = (Ok (), d')" "invar d'"
    "view d' = (view d)(chain_block_key c h \<mapsto> blockKeyPrefix @ h, blockKeyPrefix @ h \<mapsto> j)"
  using assms that
  by (simp add: StoreBlock_def store_block_at_def Let_def run_defs access_simps state_simps)

lemma StoreBlock_again:
  assumes "invar d" "sv_Hash v = Some h" "view d (chain_block_key c h) \<noteq> None"
  shows "StoreBlock lv v c d = (Err (DatabaseError BlockExisted), d)"
  using assms by (simp add: StoreBlock_def store_block_at_def Let_def run_defs access_simps)

lemma HasBlock_eq: "invar d \<Longrightarrow> HasBlock lv h d = (Ok (view d (blockKeyPrefix @ h) \<noteq> None), d)"
  by (simp add: HasBlock_def access_simps getKey_block)

lemma FetchBlock_eq: "invar d \<Longrightarrow> view d (blockKeyPrefix @ h) = Some j \<Longrightarrow> FetchBlock lv h d = (Ok j, d)"
  by (simp add: FetchBlock_def access_simps getKey_block run_defs)

lemma DeleteBlock_eq:
  assumes "invar d"
  obtains d' where "DeleteBlock lv h i c d = (Ok (), d')" "invar d'"
    "view d' = (view d)(blockKeyPrefix @ h := None, blockKeyIdxPrefix @ h := None, index_key i c := None)"
  using assms that
  by (simp add: DeleteBlock_def run_defs access_simps state_simps getKey_block)

lemma FetchChainBlocks_mem:
  assumes "invar d" "is_hash h" "view d (chain_block_key c h) = Some v"
  shows "\<exists>hs. FetchChainBlocks lv c d = (Ok hs, d) \<and> h \<in> set hs"
proof -
  have k: "chain_block_key c h = chain_prefix c @ h" by (simp add: chain_block_key_def chain_prefix_def)
  then have "(chain_prefix c @ h, v) \<in> set (fst (lv_Iter lv d (chain_prefix c)))"
    using assms by (simp add: iter_set)
  moreover have "hash_of_value h = h" using assms by (simp add: hash_of_value_def SetBytes_def is_hash_def)
  ultimately have "h \<in> set (map (\<lambda>(k, v). hash_of_value (drop (length (chain_prefix c)) k)) (fst (lv_Iter lv d (chain_prefix c))))"
    by force
  then show ?thesis using assms by (simp add: FetchChainBlocks_def run_defs access_simps)
qed

lemma block_life_cycle:
  assumes d: "invar d" and v: "sv_Hash v = Some h" "sv_json v = Some j" and h: "is_hash h"
    and new: "view d (chain_block_key c h) = None"
  shows "\<exists>d1 d2 hs. StoreBlock lv v c d = (Ok (), d1) \<and> FetchBlock lv h d1 = (Ok j, d1) \<and>
    StoreBlock lv v c d1 = (Err (DatabaseError BlockExisted), d1) \<and>
    DeleteBlock lv h i c d1 = (Ok (), d2) \<and> HasBlock lv h d2 = (Ok False, d2) \<and>
    FetchChainBlocks lv c d2 = (Ok hs, d2) \<and> h \<in> set hs \<and>
    StoreBlock lv v c d2 = (Err (DatabaseError BlockExisted), d2)"
proof -
  note n = key_neqs(1-3) [OF h]
  obtain d1 where d1: "StoreBlock lv v c d = (Ok (), d1)" "invar d1"
    "view d1 = (view d)(chain_block_key c h \<mapsto> blockKeyPrefix @ h, blockKeyPrefix @ h \<mapsto> j)"
    using StoreBlock_new [OF d v new] .
  obtain d2 where d2: "DeleteBlock lv h i c d1 = (Ok (), d2)" "invar d2"
    "view d2 = (view d1)(blockKeyPrefix @ h := None, blockKeyIdxPrefix @ h := None, index_key i c := None)"
    using DeleteBlock_eq [OF d1(2)] .
  have k: "view d1 (chain_block_key c h) = Some (blockKeyPrefix @ h)"
    "view d2 (chain_block_key c h) = Some (blockKeyPrefix @ h)" "view d1 (blockKeyPrefix @ h) = Some j"
    using n by (simp_all add: d1(3) d2(3))
  have "HasBlock lv h d2 = (Ok False, d2)" using d2 by (simp add: HasBlock_eq)
  moreover obtain hs where "FetchChainBlocks lv c d2 = (Ok hs, d2)" "h \<in> set hs"
    using FetchChainBlocks_mem [OF d2(2) h k(2)] by auto
  ultimately show ?thesis
    using d1 d2 k StoreBlock_again [OF d1(2) v(1)] StoreBlock_again [OF d2(2) v(1)] FetchBlock_eq [OF d1(2) k(3)]
    by auto
qed

lemma index_roundtrip:
  assumes d: "invar d" and h: "is_hash h" and i: "- (2 ^ 31) \<le> i" "i < 2 ^ 31"
  shows "\<exists>d'. StoreBlockIndex lv h i c d = (Ok (), d') \<and> invar d' \<and>
    GetIndexOfBlock lv h d' = (Ok (i, c), d') \<and> GetBlockByIndex lv i c d' = (Ok h, d')"
proof -
  have u: "wrap32 (uint (of_int i :: u32)) = i"
    using i by (simp add: wrap32_def uint_word_of_int_eq take_bit_eq_mod mod_add_left_eq)
  have hv: "hash_of_value h = h" using h by (simp add: hash_of_value_def SetBytes_def is_hash_def)
  show ?thesis using d u hv key_neqs(5) [OF h, of i c] Uint32_PutUint32
    by (auto simp: StoreBlockIndex_def Let_def run_defs access_simps state_simps GetIndexOfBlock_def
        GetBlockByIndex_def getKey_block index_key_def)
qed

lemma tx_index_roundtrip:
  assumes d: "invar d" and h: "is_hash b" and i: "0 \<le> i" "i < 2 ^ 63"
  shows "\<exists>d'. StoreTransactionIndex lv t b i d = (Ok (), d') \<and> invar d' \<and>
    GetTransactionIndexById lv t d' = (Ok (b, i), d')"
  using d hash_str.dec_enc [OF h] Atoi_Itoa [OF i] split_index [OF i(1)]
  by (simp add: StoreTransactionIndex_def GetTransactionIndexById_def Let_def run_defs access_simps state_simps)

lemma GetLoanTxs_set:
  "invar d \<Longrightarrow> \<exists>txs. GetLoanTxs lv l d = (Ok txs, d) \<and>
     set txs = {v. \<exists>s. view d (loanIDKeyPrefix @ l @ s) = Some v}"
  by (force simp: GetLoanTxs_def run_defs access_simps iter_set has_prefix_iff image_iff)

lemma store_loan_cases:
  assumes d: "invar d" and ne: "loanIDKeyPrefix @ l @ p \<noteq> loanTxKeyPrefix @ t"
  shows "store_loan lv p l t d =
      (if view d (loanIDKeyPrefix @ l @ p) \<noteq> None then (Err (DatabaseError KeyExisted), d)
       else let d1 = snd (lv_Put lv d (loanIDKeyPrefix @ l @ p) t) in
            if view d (loanTxKeyPrefix @ t) \<noteq> None then (Err (DatabaseError KeyExisted), d1)
            else (Ok (), snd (lv_Put lv d1 (loanTxKeyPrefix @ t) (l @ p))))"
  using assms by (simp add: store_loan_def Let_def run_defs access_simps state_simps)

end

lemma loan_keys_neq: "loanIDKeyPrefix @ l \<noteq> loanTxKeyPrefix @ t"
  by (simp add: prefix_defs bytes_of_string_def byte_of_char_def)

subsection \<open>Light mode\<close>

lemma reverse32_reverse32 [simp]: "32 \<le> length k \<Longrightarrow> reverse32 (reverse32 k) = k"
  by (simp add: reverse32_def)

lemma length_reverse32 [simp]: "length (reverse32 k) = length k"
  by (simp add: reverse32_def)

lemma hex_inject: "hex_EncodeToString a = hex_EncodeToString b \<longleftrightarrow> a = b"
  using hex_Decode_Encode by (metis res.inject(1))

lemma light_key_prefix:
  assumes "length a = length b" "a \<noteq> b"
  shows "\<not> has_prefix (privateKeyPrefix @ bytes_of_string (hex_EncodeToString a))
    (light_key (hex_EncodeToString b) c i j)"
proof
  assume "has_prefix (privateKeyPrefix @ bytes_of_string (hex_EncodeToString a)) (light_key (hex_EncodeToString b) c i j)"
  then obtain r where "bytes_of_string (hex_EncodeToString a) @ r =
      bytes_of_string (hex_EncodeToString b) @ drop (length (hex_EncodeToString b) + length privateKeyPrefix) (light_key (hex_EncodeToString b) c i j)"
    by (auto simp: has_prefix_iff light_key_def bytes_of_string_def)
  then have "bytes_of_string (hex_EncodeToString a) = bytes_of_string (hex_EncodeToString b)"
    using assms by simp
  then show False using assms hex_inject by (metis string_of_bytes_of_string)
qed

lemma tx_key_not_light: "\<not> has_prefix (privateKeyPrefix @ s) (tx_key t)"
  by (auto simp: has_prefix_iff tx_key_def prefix_defs bytes_of_string_def byte_of_char_def)

lemma light_key_own: "has_prefix (privateKeyPrefix @ bytes_of_string s) (light_key s c i j)"
  by (auto simp: has_prefix_iff light_key_def bytes_of_string_def)

context kv_store
begin

lemma iter_unchanged:
  assumes "invar d" "invar d'" "\<And>k. has_prefix p k \<Longrightarrow> view d' k = view d k"
  shows "fst (lv_Iter lv d' p) = fst (lv_Iter lv d p)"
  using assms by (intro sorted_assoc_unique iter_sorted) (auto simp: iter_set)

lemma StoreTransactionLightMode_new:
  assumes d: "invar d" and k: "length k = 32"
    and new: "view d (light_key (hex_EncodeToString k) c i j) = None" "view d (tx_key t) = None"
  obtains d' where "StoreTransactionLightMode lv k c i j t (Some b) d = ((Ok (), d'), k)" "invar d'"
    "view d' = (view d)(light_key (hex_EncodeToString k) c i j \<mapsto> b, tx_key t \<mapsto> light_key (hex_EncodeToString k) c i j)"
proof -
  have s: "SpendingKey_String (Println_key k) = Some (hex_EncodeToString k, k)"
    using k by (simp add: Println_key_def SpendingKey_String_def)
  show ?thesis using d new that
    by (simp add: StoreTransactionLightMode_def s Let_def run_defs access_simps state_simps)
qed

lemma Get_light_eq:
  "invar d \<Longrightarrow> 32 \<le> length k \<Longrightarrow> GetTransactionLightModeByPrivateKey lv unm k d =
     ((light_loop unm (fst (lv_Iter lv d (privateKeyPrefix @ bytes_of_string (hex_EncodeToString (reverse32 k))))) (\<lambda>_. []), d),
      reverse32 k)"
  by (simp add: GetTransactionLightModeByPrivateKey_def SpendingKey_String_def run_defs access_simps)

lemma light_mode_lost:
  assumes d: "invar d" and k: "length k = 32" "rev k \<noteq> k"
    and new: "view d (light_key (hex_EncodeToString k) c i j) = None" "view d (tx_key t) = None"
  shows "\<exists>d'. StoreTransactionLightMode lv k c i j t (Some b) d = ((Ok (), d'), k) \<and>
    GetTransactionLightModeByHash lv t d' = (Ok (light_key (hex_EncodeToString k) c i j, b), d') \<and>
    fst (fst (GetTransactionLightModeByPrivateKey lv unm k d')) = fst (fst (GetTransactionLightModeByPrivateKey lv unm k d))"
proof -
  let ?key = "light_key (hex_EncodeToString k) c i j"
  obtain d' where d': "StoreTransactionLightMode lv k c i j t (Some b) d = ((Ok (), d'), k)" "invar d'"
    "view d' = (view d)(?key \<mapsto> b, tx_key t \<mapsto> ?key)"
    using StoreTransactionLightMode_new [OF d k(1) new] .
  have r: "reverse32 k \<noteq> k" using k by (simp add: reverse32_def)
  have "?key \<noteq> tx_key t" using light_key_own tx_key_not_light by metis
  then have h: "GetTransactionLightModeByHash lv t d' = (Ok (?key, b), d')"
    using d' by (simp add: GetTransactionLightModeByHash_def Let_def run_defs access_simps)
  have "fst (lv_Iter lv d' (privateKeyPrefix @ bytes_of_string (hex_EncodeToString (reverse32 k)))) =
      fst (lv_Iter lv d (privateKeyPrefix @ bytes_of_string (hex_EncodeToString (reverse32 k))))"
    using light_key_prefix [of "reverse32 k" k c i j] r tx_key_not_light
    by (intro iter_unchanged d d'(2)) (auto simp: d'(3))
  then show ?thesis using d d' h k by (auto simp: Get_light_eq)
qed

lemma nullifiers_spec:
  assumes "invar d" and "slices_ok (view d) nullifiersPrefix"
  shows "\<exists>d'. StoreNullifiers lv n c d = (Ok (), d') \<and> invar d' \<and> slices_ok (view d') nullifiersPrefix \<and>
    FetchNullifiers lv c' d' = (Ok (slices_at (view d) nullifiersPrefix c' @ (if c' = c then [n] else [])), d') \<and>
    HasNullifier lv m c' d' = (Ok (m = n \<and> c' = c \<or> m \<in> set (slices_at (view d) nullifiersPrefix c')), d') \<and>
    (\<forall>k. k \<noteq> list_key nullifiersPrefix c \<longrightarrow> view d' k = view d k)"
proof -
  let ?d = "snd (StoreNullifiers lv n c d)"
  have g: "slices_good nullifiersPrefix d" using assms by simp
  have "StoreNullifiers lv n c d = (Ok (), ?d)" using nf.store_ok [OF g, of n c] by (metis prod.collapse)
  moreover have s: "slices_good nullifiersPrefix ?d" by (rule nf.store_good [OF g])
  moreover have "view ?d k = view d k" if "k \<noteq> list_key nullifiersPrefix c" for k
    using that StoreNullifiers_eq [OF g, of n c] put_view [OF assms(1)] by simp
  ultimately show ?thesis
    using nf.fetch_contents [OF s, of c'] nf.has_after_store [OF g, of m c' n c]
    by (auto simp: nf.store_contents [OF g])
qed

end

subsection \<open>Properties\<close>

text \<open>Claim C26 (refinement): over any byte-ordered map, the nullifiers are a list per chain:
  \<open>StoreNullifiers\<close> succeeds and appends to its chain's list, \<open>FetchNullifiers\<close> returns the list and
  \<open>HasNullifier\<close> searches it; no other key of the database changes, in particular no other
  chain's nullifiers and no commitment. The base64 and JSON coding in between is computed.\<close>

theorem nullifiers_refine_lists:
  assumes "kv_store lv view invar" and "invar d" and "slices_ok (view d) nullifiersPrefix"
  shows "\<exists>d'. StoreNullifiers lv n c d = (Ok (), d') \<and> invar d' \<and> slices_ok (view d') nullifiersPrefix \<and>
    FetchNullifiers lv c' d' = (Ok (slices_at (view d) nullifiersPrefix c' @ (if c' = c then [n] else [])), d') \<and>
    HasNullifier lv m c' d' = (Ok (m = n \<and> c' = c \<or> m \<in> set (slices_at (view d) nullifiersPrefix c')), d') \<and>
    (\<forall>k. k \<noteq> list_key nullifiersPrefix c \<longrightarrow> view d' k = view d k)"
  by (rule kv_store.nullifiers_spec [OF assms])

theorem nullifiers_refine_lists_witness:
  "\<exists>d'. StoreNullifiers al_db [7] 3 [] = (Ok (), d') \<and> HasNullifier al_db [7] 3 d' = (Ok True, d') \<and>
     FetchNullifiers al_db 3 d' = (Ok [[7]], d')"
  using nullifiers_refine_lists [OF adb.kv_store_axioms, of "[]" "[7]" 3 3 "[7]"]
  by (auto simp: slices_ok_def slices_at_def)

text \<open>The life of a stored block. A new block is stored, can be fetched and
  cannot be stored twice. \<open>DeleteBlock\<close> removes the block and its index but not the entry that
  lists it under its chain: afterwards the block is absent, is still listed by
  \<open>FetchChainBlocks\<close>, and can never be stored again.\<close>

theorem block_life_cycle_deleted:
  assumes "kv_store lv view invar" and "invar d" and "sv_Hash v = Some h" and "sv_json v = Some j"
    and "is_hash h" and "view d (chain_block_key c h) = None"
  shows "\<exists>d1 d2 hs. StoreBlock lv v c d = (Ok (), d1) \<and> FetchBlock lv h d1 = (Ok j, d1) \<and>
    StoreBlock lv v c d1 = (Err (DatabaseError BlockExisted), d1) \<and>
    DeleteBlock lv h i c d1 = (Ok (), d2) \<and> HasBlock lv h d2 = (Ok False, d2) \<and>
    FetchChainBlocks lv c d2 = (Ok hs, d2) \<and> h \<in> set hs \<and>
    StoreBlock lv v c d2 = (Err (DatabaseError BlockExisted), d2)"
  by (rule kv_store.block_life_cycle [OF assms])

theorem block_life_cycle_deleted_witness:
  "\<exists>d1 d2. StoreBlock al_db \<lparr>sv_Hash = Some zero_hash, sv_json = Some [1]\<rparr> 4 [] = (Ok (), d1) \<and>
     DeleteBlock al_db zero_hash 9 4 d1 = (Ok (), d2) \<and> HasBlock al_db zero_hash d2 = (Ok False, d2)"
proof -
  have z: "is_hash zero_hash" by (simp add: is_hash_def zero_hash_def)
  show ?thesis
    using block_life_cycle_deleted [OF adb.kv_store_axioms, of "[]" "\<lparr>sv_Hash = Some zero_hash, sv_json = Some [1]\<rparr>"
        zero_hash "[1]" 4 9] z by auto
qed

text \<open>Block and transaction indices. For every \<open>int32\<close> height, also a negative
  one, \<open>GetIndexOfBlock\<close> and \<open>GetBlockByIndex\<close> invert \<open>StoreBlockIndex\<close>, and for every
  non-negative position \<open>GetTransactionIndexById\<close> inverts \<open>StoreTransactionIndex\<close>: the hash and
  the decimal position are found again on both sides of the separator.\<close>

theorem index_roundtrips:
  assumes "kv_store lv view invar" and "invar d" and "is_hash h"
    and "- (2 ^ 31) \<le> i" and "i < 2 ^ 31" and "0 \<le> p" and "p < 2 ^ 63"
  shows "(\<exists>d'. StoreBlockIndex lv h i c d = (Ok (), d') \<and>
      GetIndexOfBlock lv h d' = (Ok (i, c), d') \<and> GetBlockByIndex lv i c d' = (Ok h, d')) \<and>
    (\<exists>d'. StoreTransactionIndex lv t h p d = (Ok (), d') \<and> GetTransactionIndexById lv t d' = (Ok (h, p), d'))"
  using kv_store.index_roundtrip [OF assms(1-5)] kv_store.tx_index_roundtrip [OF assms(1-3,6,7)] by blast

theorem index_roundtrips_witness:
  "\<exists>d'. StoreBlockIndex al_db zero_hash (- 5) 2 [] = (Ok (), d') \<and> GetIndexOfBlock al_db zero_hash d' = (Ok (- 5, 2), d')"
proof -
  have z: "is_hash zero_hash" by (simp add: is_hash_def zero_hash_def)
  show ?thesis using index_roundtrips [OF adb.kv_store_axioms _ z, of "[]" "- 5" 0 2] by auto
qed

text \<open>Storing a loan. A loan identifier is stored once; when the transaction hash
  is already recorded the operation fails after the identifier was written, so that the failed
  request occupies it. \<open>GetLoanTxs\<close> returns the hashes of every loan whose identifier starts with
  the given one, not of that loan alone.\<close>

theorem loan_store_errors:
  assumes "kv_store lv view invar" and "invar d" and "view d (loanIDKeyPrefix @ l @ loanRequestPostfix) = None"
    and "view d (loanTxKeyPrefix @ t) \<noteq> None"
  shows "\<exists>d' txs txs'. StoreLoanRequest lv l t d = (Err (DatabaseError KeyExisted), d') \<and>
    view d' = (view d)(loanIDKeyPrefix @ l @ loanRequestPostfix \<mapsto> t) \<and>
    StoreLoanRequest lv l t' d' = (Err (DatabaseError KeyExisted), d') \<and>
    GetLoanTxs lv l d' = (Ok txs, d') \<and> t \<in> set txs \<and>
    GetLoanTxs lv (take n l) d' = (Ok txs', d') \<and> t \<in> set txs'"
proof -
  note kv = assms(1)
  let ?k = "loanIDKeyPrefix @ l @ loanRequestPostfix" and ?d = "snd (lv_Put lv d (loanIDKeyPrefix @ l @ loanRequestPostfix) t)"
  have ne: "loanIDKeyPrefix @ l @ loanRequestPostfix \<noteq> loanTxKeyPrefix @ u" for u by (rule loan_keys_neq)
  have v: "view ?d = (view d)(?k \<mapsto> t)" "invar ?d"
    using kv_store.put_view [OF kv assms(2)] kv_store.put_invar [OF kv assms(2)] by simp_all
  have r: "StoreLoanRequest lv l t d = (Err (DatabaseError KeyExisted), ?d)"
    "StoreLoanRequest lv l t' ?d = (Err (DatabaseError KeyExisted), ?d)"
    using assms v kv_store.store_loan_cases [OF kv assms(2) ne] kv_store.store_loan_cases [OF kv v(2) ne]
    by (simp_all add: StoreLoanRequest_def)
  have s: "\<exists>txs. GetLoanTxs lv m ?d = (Ok txs, ?d) \<and> t \<in> set txs" if "l = m @ q" for m q
    using kv_store.GetLoanTxs_set [OF kv v(2), of m] v(1) that by fastforce
  from s [of l "[]"] s [of "take n l" "drop n l"] r v show ?thesis by auto
qed

theorem loan_store_errors_witness:
  "\<exists>d'. StoreLoanRequest al_db [1, 2] [9] [(loanTxKeyPrefix @ [9], [])] = (Err (DatabaseError KeyExisted), d') \<and>
     (\<exists>txs. GetLoanTxs al_db [1] d' = (Ok txs, d') \<and> [9] \<in> set txs)"
  using loan_store_errors [OF adb.kv_store_axioms, of "[(loanTxKeyPrefix @ [9], [])]" "[1, 2]" "[9]" "[]" 1]
    loan_keys_neq [of "[1, 2] @ loanRequestPostfix" "[9]"] by auto

text \<open>A transaction stored in light mode is lost to its owner. The key is stored
  under the 32 bytes in order, because printing the key for the log reverses it first; the lookup
  reverses it once. Unless the key is a palindrome, the stored transaction is found by its hash but
  \<open>GetTransactionLightModeByPrivateKey\<close> with the same key returns what it returned before.\<close>

theorem light_mode_not_found_by_key:
  assumes "kv_store lv view invar" and "invar d" and "length k = 32" and "rev k \<noteq> k"
    and "view d (light_key (hex_EncodeToString k) c i j) = None" and "view d (tx_key t) = None"
  shows "\<exists>d'. StoreTransactionLightMode lv k c i j t (Some b) d = ((Ok (), d'), k) \<and>
    GetTransactionLightModeByHash lv t d' = (Ok (light_key (hex_EncodeToString k) c i j, b), d') \<and>
    fst (fst (GetTransactionLightModeByPrivateKey lv unm k d')) = fst (fst (GetTransactionLightModeByPrivateKey lv unm k d))"
  by (rule kv_store.light_mode_lost [OF assms])

theorem light_mode_not_found_by_key_witness:
  "\<exists>d'. StoreTransactionLightMode al_db (1 # replicate 31 0) 0 5 0 zero_hash (Some [8]) [] = ((Ok (), d'), 1 # replicate 31 0) \<and>
     fst (fst (GetTransactionLightModeByPrivateKey al_db Some (1 # replicate 31 0) d')) = Ok (\<lambda>_. [])"
proof -
  let ?k = "1 # replicate 31 0 :: bytes"
  have "rev ?k ! 0 \<noteq> ?k ! 0" by (simp add: nth_append)
  then have r: "rev ?k \<noteq> ?k" by auto
  have "fst (fst (GetTransactionLightModeByPrivateKey al_db Some ?k [])) = Ok (\<lambda>_. [])"
    by (simp add: adb.Get_light_eq) (simp add: al_db_def)
  then show ?thesis
    using light_mode_not_found_by_key [OF adb.kv_store_axioms _ _ r, of "[]" 0 5 0 zero_hash "[8]" Some] by auto
qed

end
