(* ===== verification/TokenDb.thy ===== *)
theory TokenDb
  imports Database
begin

text \<open>
  Package \<open>database/lvdb\<close>, second part (\<open>customtoken.go\<close>): the transactions of a custom token and
  the record of its unspent outputs. An output is an entry whose key joins the token, the payment
  address, the transaction and the output index with the separator, and whose value joins the
  amount, the spent flag and the reward flag. The abstract ledger at the end of the theory is what
  the entries mean; the operation that applies a token transaction refines it.
\<close>

subsection \<open>Token transactions\<close>

definition StoreCustomToken :: "'d leveldb \<Rightarrow> hash \<Rightarrow> bytes \<Rightarrow> ('d, unit) dbm" where
  "StoreCustomToken lv tokenID txHash = lv_put lv (getKey tokenInitPrefix tokenID) txHash"

definition token_tx_key :: "hash \<Rightarrow> byte \<Rightarrow> int \<Rightarrow> int \<Rightarrow> bytes" where
  "token_tx_key tokenID chainID blockHeight txIndex =
     getKey tokenPrefix tokenID @ [chainID] @ PutUint32 (of_int (wrap32 (bigNumber - blockHeight))) @
     PutUint32 (of_int (wrap32 (bigNumber - txIndex)))"

definition StoreCustomTokenTx :: "'d leveldb \<Rightarrow> hash \<Rightarrow> byte \<Rightarrow> int \<Rightarrow> int \<Rightarrow> bytes \<Rightarrow> ('d, unit) dbm" where
  "StoreCustomTokenTx lv tokenID chainID blockHeight txIndex txHash =
     lv_put lv (token_tx_key tokenID chainID blockHeight txIndex) txHash"

definition ListCustomToken :: "'d leveldb \<Rightarrow> ('d, bytes list) dbm" where
  "ListCustomToken lv = dbind (lv_iter lv tokenInitPrefix) (\<lambda>(kvs, err). dret (map snd kvs))"

definition CustomTokenTxs :: "'d leveldb \<Rightarrow> hash \<Rightarrow> ('d, hash list) dbm" where
  "CustomTokenTxs lv tokenID =
     dbind (lv_iter lv (getKey tokenPrefix tokenID)) (\<lambda>(kvs, err). dret (map (\<lambda>(k, v). hash_of_value v) kvs))"

subsection \<open>Outputs per payment address\<close>

abbreviation sep :: bytes where
  "sep \<equiv> bytes_of_string splitter"

definition token_key :: "hash \<Rightarrow> bytes" where
  "token_key tokenID = tokenPaymentAddressPrefix @ sep @ tokenID"

definition utxo_key :: "hash \<Rightarrow> bytes \<Rightarrow> hash \<Rightarrow> int \<Rightarrow> bytes" where
  "utxo_key tokenID paymentAddress utxoHash voutIndex =
     token_key tokenID @ sep @ paymentAddress @ sep @ utxoHash @ sep @ [of_int voutIndex]"

fun spend_vins :: "'d leveldb \<Rightarrow> hash \<Rightarrow> TxTokenVin list \<Rightarrow> ('d, unit) dbm" where
  "spend_vins lv tokenID [] = dret ()"
| "spend_vins lv tokenID (vin # vins) =
     (let key = utxo_key tokenID (Pk (vin_PaymentAddress vin)) (vin_TxCustomTokenID vin) (VoutIndex vin) in
      dbind (hasValue lv key) (\<lambda>ok.
      dbind (lv_get lv key) (\<lambda>val.
        let values = strings_Split (string_of_bytes val) splitter in
        if length values < 2 then dpanic
        else if values ! 1 \<noteq> unspent then dfail DoubleSpendDetected
        else if length values < 3 then dpanic
        else dbind (lv_put lv key (bytes_of_string (values ! 0 @ splitter @ spent @ splitter @ values ! 2)))
               (\<lambda>_. spend_vins lv tokenID vins))))"

fun add_vouts :: "'d leveldb \<Rightarrow> hash \<Rightarrow> hash \<Rightarrow> TxTokenVout list \<Rightarrow> ('d, unit) dbm" where
  "add_vouts lv tokenID utxoHash [] = dret ()"
| "add_vouts lv tokenID utxoHash (vout # vouts) =
     (let key = utxo_key tokenID (Pk (vout_PaymentAddress vout)) utxoHash (GetIndex vout) in
      dbind (hasValue lv key) (\<lambda>ok.
        if ok then dfail UTXOAlreadyExist
        else dbind (lv_put lv key (bytes_of_string
                 (Itoa (int_of_u64 (vout_Value vout)) @ splitter @ unspent @ splitter @ unreward)))
               (\<lambda>_. add_vouts lv tokenID utxoHash vouts)))"

text \<open>The hash of the transaction is passed with its token data.\<close>

definition StoreCustomTokenPaymentAddresstHistory ::
  "'d leveldb \<Rightarrow> hash \<Rightarrow> hash \<Rightarrow> TxTokenData \<Rightarrow> ('d, unit) dbm" where
  "StoreCustomTokenPaymentAddresstHistory lv tokenID txHash txd =
     dbind (spend_vins lv tokenID (Vins txd)) (\<lambda>_. add_vouts lv tokenID txHash (elems (Vouts txd)))"

text \<open>The loops over a token's entries. \<open>keys[2]\<close> and the other fields are read only for unspent
  outputs. The addresses are collected in a map, whose order \<open>perm\<close> stands for.\<close>

fun addresses_loop :: "(bytes \<times> bytes) list \<Rightarrow> string list \<Rightarrow> (db_error, string list) res" where
  "addresses_loop [] acc = Ok acc"
| "addresses_loop ((k, v) # kvs) acc =
     (let keys = strings_Split (string_of_bytes k) splitter; values = strings_Split (string_of_bytes v) splitter in
      if length values < 2 then Panic
      else if values ! 1 = unspent then
        if length keys < 3 then Panic
        else addresses_loop kvs (if keys ! 2 \<in> set acc then acc else acc @ [keys ! 2])
      else addresses_loop kvs acc)"

definition GetCustomTokenListPaymentAddress ::
  "'d leveldb \<Rightarrow> (string list \<Rightarrow> string list) \<Rightarrow> hash \<Rightarrow> ('d, bytes list) dbm" where
  "GetCustomTokenListPaymentAddress lv perm tokenID =
     dbind (lv_iter lv (token_key tokenID)) (\<lambda>(kvs, err) d.
       (and_then (addresses_loop kvs []) (\<lambda>as. Ok (map bytes_of_string (perm as))), d))"

fun balances_loop :: "(bytes \<times> bytes) list \<Rightarrow> (string \<rightharpoonup> u64) \<Rightarrow> (db_error, string \<rightharpoonup> u64) res" where
  "balances_loop [] results = Ok results"
| "balances_loop ((k, v) # kvs) results =
     (let keys = strings_Split (string_of_bytes k) splitter; values = strings_Split (string_of_bytes v) splitter in
      if length values < 2 then Panic
      else if values ! 1 = unspent then
        if length keys < 3 then Panic
        else (case PaymentAddress_FromBytes (bytes_of_string (keys ! 2)) of
                None \<Rightarrow> Panic
              | Some paymentAddress \<Rightarrow>
                  let a = hex_EncodeToString (Pk paymentAddress);
                      i = (case results a of None \<Rightarrow> 0 | Some x \<Rightarrow> x)
                  in balances_loop kvs (results(a \<mapsto> i + of_int (Atoi_or_zero (values ! 0)))))
      else balances_loop kvs results)"

definition GetCustomTokenListPaymentAddressesBalance :: "'d leveldb \<Rightarrow> hash \<Rightarrow> ('d, string \<rightharpoonup> u64) dbm" where
  "GetCustomTokenListPaymentAddressesBalance lv tokenID =
     dbind (lv_iter lv (token_key tokenID)) (\<lambda>(kvs, err) d. (balances_loop kvs (\<lambda>_. None), d))"

fun utxos_loop :: "PaymentAddress \<Rightarrow> (bytes \<times> bytes) list \<Rightarrow> TxTokenVout list \<Rightarrow> (db_error, TxTokenVout list) res" where
  "utxos_loop addr [] results = Ok results"
| "utxos_loop addr ((k, v) # kvs) results =
     (let keys = strings_Split (string_of_bytes k) splitter; values = strings_Split (string_of_bytes v) splitter in
      if length values < 2 then Panic
      else if values ! 1 = unspent then
        if length keys < 4 then Panic
        else (case NewHash zero_hash (bytes_of_string (keys ! 3)) of
                Err e \<Rightarrow> Err (HashErr e)
              | Panic \<Rightarrow> Panic
              | Ok txHash \<Rightarrow>
                  if length keys < 5 \<or> keys ! 4 = [] then Panic
                  else (case Atoi (values ! 0) of
                          None \<Rightarrow> Err AtoiErr
                        | Some val \<Rightarrow>
                            utxos_loop addr kvs (results @
                              [SetIndex (SetTxCustomTokenID (new_vout addr (of_int val)) txHash)
                                 (int (of_char (hd (keys ! 4))))])))
      else utxos_loop addr kvs results)"

definition GetCustomTokenPaymentAddressUTXO :: "'d leveldb \<Rightarrow> hash \<Rightarrow> PaymentAddress \<Rightarrow> ('d, TxTokenVout list) dbm" where
  "GetCustomTokenPaymentAddressUTXO lv tokenID paymentAddress =
     dbind (lv_iter lv (token_key tokenID @ sep @ Pk paymentAddress)) (\<lambda>(kvs, err) d.
       (utxos_loop paymentAddress kvs [], d))"

text \<open>The new value is written without separators.\<close>

definition UpdateRewardAccountUTXO :: "'d leveldb \<Rightarrow> hash \<Rightarrow> PaymentAddress \<Rightarrow> hash \<Rightarrow> int \<Rightarrow> ('d, unit) dbm" where
  "UpdateRewardAccountUTXO lv tokenID paymentAddress txHash voutIndex =
     (let key = utxo_key tokenID (Pk paymentAddress) txHash voutIndex in
      dbind (hasValue lv key) (\<lambda>_.
      dbind (lv_get lv key) (\<lambda>res.
        let reses = strings_Split (string_of_bytes res) splitter in
        if length reses < 2 then dpanic
        else lv_put lv key (bytes_of_string (reses ! 0 @ reses ! 1 @ rewared)))))"

definition SaveCrowdsaleData :: "bytes \<Rightarrow> bytes \<Rightarrow> string \<Rightarrow> string \<Rightarrow> u64 \<Rightarrow> PaymentAddress \<Rightarrow> ('d, unit) dbm" where
  "SaveCrowdsaleData saleID bondID baseAsset quoteAsset price escrowAccount = dret ()"

subsection \<open>The ledger the entries stand for\<close>

text \<open>An output is its amount and whether it was spent. Spending marks it, once; adding creates it,
  once; a failing transaction keeps what it did before it failed.\<close>

type_synonym ledger = "bytes \<rightharpoonup> int \<times> bool"

fun l_spend :: "bytes list \<Rightarrow> ledger \<Rightarrow> (db_error, unit) res \<times> ledger" where
  "l_spend [] L = (Ok (), L)"
| "l_spend (k # ks) L =
     (case L k of
        None \<Rightarrow> (Err (LvErr ErrNotFound), L)
      | Some (a, True) \<Rightarrow> (Err DoubleSpendDetected, L)
      | Some (a, False) \<Rightarrow> l_spend ks (L(k \<mapsto> (a, True))))"

fun l_add :: "(bytes \<times> int) list \<Rightarrow> ledger \<Rightarrow> (db_error, unit) res \<times> ledger" where
  "l_add [] L = (Ok (), L)"
| "l_add ((k, a) # kas) L =
     (if L k \<noteq> None then (Err UTXOAlreadyExist, L) else l_add kas (L(k \<mapsto> (a, False))))"

definition l_apply :: "bytes list \<Rightarrow> (bytes \<times> int) list \<Rightarrow> ledger \<Rightarrow> (db_error, unit) res \<times> ledger" where
  "l_apply ks kas L = (case l_spend ks L of (Ok _, L') \<Rightarrow> l_add kas L' | (r, L') \<Rightarrow> (r, L'))"

definition vin_keys :: "hash \<Rightarrow> TxTokenData \<Rightarrow> bytes list" where
  "vin_keys tokenID txd =
     map (\<lambda>vin. utxo_key tokenID (Pk (vin_PaymentAddress vin)) (vin_TxCustomTokenID vin) (VoutIndex vin)) (Vins txd)"

definition vout_keys :: "hash \<Rightarrow> hash \<Rightarrow> TxTokenData \<Rightarrow> (bytes \<times> int) list" where
  "vout_keys tokenID txHash txd =
     map (\<lambda>vout. (utxo_key tokenID (Pk (vout_PaymentAddress vout)) txHash (GetIndex vout), int_of_u64 (vout_Value vout)))
       (elems (Vouts txd))"

definition utxo_value :: "int \<times> bool \<Rightarrow> bytes" where
  "utxo_value u = bytes_of_string
     (Itoa (fst u) @ splitter @ (if snd u then spent else unspent) @ splitter @ unreward)"

text \<open>The entries with the payment address prefix are exactly the outputs of the ledger.\<close>

definition ledger_rel :: "(bytes \<rightharpoonup> bytes) \<Rightarrow> ledger \<Rightarrow> bool" where
  "ledger_rel m L \<longleftrightarrow> (\<forall>k. has_prefix tokenPaymentAddressPrefix k \<longrightarrow> m k = map_option utxo_value (L k))"

lemma utxo_key_prefix [simp]: "has_prefix tokenPaymentAddressPrefix (utxo_key t p h i)"
  by (simp add: utxo_key_def token_key_def)

lemma splitter_Cons: "splitter = CHR ''-'' # ''[-]-''"
  by (simp add: splitter_def)

lemma split_Itoa: "strings_Split (Itoa a @ splitter @ r) splitter = Itoa a # strings_Split r splitter"
proof (cases "a < 0")
  case False
  then show ?thesis using strings_Split_field [OF splitter_Cons Itoa_no_dash [of a]] by simp
next
  case True
  define ds where "ds = digits_of (nat (- a))"
  obtain c cs where d: "ds = c # cs" by (cases ds) (auto simp: ds_def)
  have dig: "list_all is_digit ds" unfolding ds_def by (rule digits_of_digits)
  then have nd: "CHR ''-'' \<notin> set ds" using digit_not_sign by (auto simp: list_all_iff)
  have "c \<noteq> CHR ''[''" using dig d by (auto simp: is_digit_def)
  then have "\<not> has_prefix splitter (CHR ''-'' # ds @ splitter @ r)" by (simp add: splitter_def d)
  then have "split_acc splitter [] (CHR ''-'' # ds @ splitter @ r) = split_acc splitter ''-'' (ds @ splitter @ r)"
    by (subst split_acc.simps) (simp add: splitter_def)
  also have "\<dots> = (''-'' @ ds) # split_acc splitter [] r" by (rule split_acc_field [OF splitter_Cons nd])
  finally show ?thesis using True by (simp add: strings_Split_def Itoa_def ds_def)
qed

lemma split_value:
  "strings_Split (string_of_bytes (utxo_value (a, s))) splitter = [Itoa a, if s then spent else unspent, unreward]"
proof -
  have nd: "CHR ''-'' \<notin> set spent" "CHR ''-'' \<notin> set unspent" "CHR ''-'' \<notin> set unreward"
    by (simp_all add: spent_def unspent_def unreward_def)
  then show ?thesis
    using strings_Split_field [OF splitter_Cons] strings_Split_1 [OF splitter_Cons]
    by (simp add: utxo_value_def split_Itoa)
qed

lemma utxo_value_spent: "utxo_value (a, True) = bytes_of_string (Itoa a @ splitter @ spent @ splitter @ unreward)"
  by (simp add: utxo_value_def)

lemma ledger_rel_at: "ledger_rel m L \<Longrightarrow> m (utxo_key t p h i) = map_option utxo_value (L (utxo_key t p h i))"
  by (simp add: ledger_rel_def)

lemma ledger_rel_upd: "ledger_rel m L \<Longrightarrow> ledger_rel (m(k \<mapsto> utxo_value u)) (L(k \<mapsto> u))"
  by (auto simp: ledger_rel_def)

lemma spent_neq: "spent \<noteq> unspent"
  by (simp add: spent_def unspent_def)
context kv_store
begin

lemma spend_vins_refines:
  assumes "invar d" "ledger_rel (view d) L"
  shows "\<exists>d'. spend_vins lv t vins d =
      (fst (l_spend (map (\<lambda>vin. utxo_key t (Pk (vin_PaymentAddress vin)) (vin_TxCustomTokenID vin) (VoutIndex vin)) vins) L), d') \<and>
    invar d' \<and>
    ledger_rel (view d') (snd (l_spend (map (\<lambda>vin. utxo_key t (Pk (vin_PaymentAddress vin)) (vin_TxCustomTokenID vin) (VoutIndex vin)) vins) L))"
  using assms
proof (induction vins arbitrary: d L)
  case Nil
  then show ?case by (simp add: dret_def)
next
  case (Cons vin vins)
  let ?k = "utxo_key t (Pk (vin_PaymentAddress vin)) (vin_TxCustomTokenID vin) (VoutIndex vin)"
  have v: "view d ?k = map_option utxo_value (L ?k)" by (rule ledger_rel_at [OF Cons.prems(2)])
  show ?case
  proof (cases "L ?k")
    case None
    then show ?thesis using Cons.prems v by (simp add: Let_def run_defs access_simps)
  next
    case (Some u)
    then obtain a s where u: "L ?k = Some (a, s)" by (cases u) auto
    show ?thesis
    proof (cases s)
      case True
      then show ?thesis using Cons.prems v u spent_neq by (simp add: Let_def run_defs access_simps split_value)
    next
      case False
      define d1 where "d1 = snd (lv_Put lv d ?k (utxo_value (a, True)))"
      have d1: "invar d1" "ledger_rel (view d1) (L(?k \<mapsto> (a, True)))"
        using Cons.prems by (simp_all add: d1_def state_simps ledger_rel_upd)
      have "spend_vins lv t (vin # vins) d = spend_vins lv t vins d1"
        using Cons.prems v u False
        by (simp add: Let_def run_defs access_simps split_value d1_def utxo_value_spent)
      then show ?thesis using Cons.IH [OF d1] u False by (simp del: fun_upd_apply)
    qed
  qed
qed

lemma add_vouts_refines:
  assumes "invar d" "ledger_rel (view d) L"
  shows "\<exists>d'. add_vouts lv t h vouts d =
      (fst (l_add (map (\<lambda>vout. (utxo_key t (Pk (vout_PaymentAddress vout)) h (GetIndex vout), int_of_u64 (vout_Value vout))) vouts) L), d') \<and>
    invar d' \<and>
    ledger_rel (view d') (snd (l_add (map (\<lambda>vout. (utxo_key t (Pk (vout_PaymentAddress vout)) h (GetIndex vout), int_of_u64 (vout_Value vout))) vouts) L))"
  using assms
proof (induction vouts arbitrary: d L)
  case Nil
  then show ?case by (simp add: dret_def)
next
  case (Cons vout vouts)
  let ?k = "utxo_key t (Pk (vout_PaymentAddress vout)) h (GetIndex vout)"
  have v: "view d ?k = map_option utxo_value (L ?k)" by (rule ledger_rel_at [OF Cons.prems(2)])
  show ?case
  proof (cases "L ?k")
    case None
    define d1 where "d1 = snd (lv_Put lv d ?k (utxo_value (int_of_u64 (vout_Value vout), False)))"
    have d1: "invar d1" "ledger_rel (view d1) (L(?k \<mapsto> (int_of_u64 (vout_Value vout), False)))"
      using Cons.prems by (simp_all add: d1_def state_simps ledger_rel_upd)
    have "add_vouts lv t h (vout # vouts) d = add_vouts lv t h vouts d1"
      using Cons.prems v None by (simp add: Let_def run_defs access_simps d1_def utxo_value_def)
    then show ?thesis using Cons.IH [OF d1] None by (simp del: fun_upd_apply)
  next
    case (Some u)
    then show ?thesis using Cons.prems v by (auto simp: Let_def run_defs access_simps)
  qed
qed

lemma token_tx_refines:
  assumes "invar d" "ledger_rel (view d) L" "l_apply (vin_keys t txd) (vout_keys t h txd) L = (r, L')"
  shows "\<exists>d'. StoreCustomTokenPaymentAddresstHistory lv t h txd d = (r, d') \<and> invar d' \<and> ledger_rel (view d') L'"
proof -
  obtain r1 L1 where s: "l_spend (vin_keys t txd) L = (r1, L1)" by fastforce
  then obtain d1 where d1: "spend_vins lv t (Vins txd) d = (r1, d1)" "invar d1" "ledger_rel (view d1) L1"
    using spend_vins_refines [OF assms(1,2), of t "Vins txd"] unfolding vin_keys_def by auto
  show ?thesis
  proof (cases r1)
    case (Ok x)
    then have "l_add (vout_keys t h txd) L1 = (r, L')" using assms(3) s by (simp add: l_apply_def)
    then show ?thesis
      using add_vouts_refines [OF d1(2,3), of t h "elems (Vouts txd)"] d1 Ok
      unfolding StoreCustomTokenPaymentAddresstHistory_def vout_keys_def by (simp add: dbind_def)
  qed (use assms(3) s d1 in \<open>auto simp: l_apply_def StoreCustomTokenPaymentAddresstHistory_def dbind_def\<close>)
qed

end

subsection \<open>Lemmas on the ledger\<close>

lemma l_spend_Ok:
  "l_spend ks L = (Ok (), L') \<Longrightarrow>
   distinct ks \<and> (\<forall>k \<in> set ks. \<exists>a. L k = Some (a, False) \<and> L' k = Some (a, True)) \<and> (\<forall>k. k \<notin> set ks \<longrightarrow> L' k = L k)"
proof (induction ks arbitrary: L)
  case (Cons k ks)
  then obtain a where k: "L k = Some (a, False)" and s: "l_spend ks (L(k \<mapsto> (a, True))) = (Ok (), L')"
    by (auto split: option.splits bool.splits)
  from Cons.IH [OF s] have ih: "distinct ks" "\<forall>k' \<in> set ks. \<exists>b. (L(k \<mapsto> (a, True))) k' = Some (b, False) \<and> L' k' = Some (b, True)"
    "\<forall>k'. k' \<notin> set ks \<longrightarrow> L' k' = (L(k \<mapsto> (a, True))) k'" by blast+
  have "k \<notin> set ks" using ih(2) by auto
  with ih k show ?case by (auto split: if_splits)
qed simp

lemma l_add_Ok:
  "l_add kas L = (Ok (), L') \<Longrightarrow>
   distinct (map fst kas) \<and> (\<forall>(k, a) \<in> set kas. L k = None \<and> L' k = Some (a, False)) \<and>
   (\<forall>k. k \<notin> fst ` set kas \<longrightarrow> L' k = L k)"
proof (induction kas arbitrary: L)
  case (Cons ka kas)
  obtain k a where ka: "ka = (k, a)" by fastforce
  then have k: "L k = None" and s: "l_add kas (L(k \<mapsto> (a, False))) = (Ok (), L')"
    using Cons.prems by (cases "L k"; simp)+
  from Cons.IH [OF s] have ih: "distinct (map fst kas)"
    "\<forall>(k', b) \<in> set kas. (L(k \<mapsto> (a, False))) k' = None \<and> L' k' = Some (b, False)"
    "\<forall>k'. k' \<notin> fst ` set kas \<longrightarrow> L' k' = (L(k \<mapsto> (a, False))) k'" by blast+
  have "k \<notin> fst ` set kas" using ih(2) by fastforce
  with ih k ka show ?case by (fastforce split: if_splits)
qed simp

lemma l_spend_spent: "k \<in> set ks \<Longrightarrow> L k = Some (a, True) \<Longrightarrow> fst (l_spend ks L) \<noteq> Ok ()"
  using l_spend_Ok [of ks L] by (cases "l_spend ks L") (auto dest!: bspec)

lemma l_apply_Ok:
  assumes "l_apply ks kas L = (Ok (), L')"
  shows "distinct ks" "\<And>k. k \<in> set ks \<Longrightarrow> \<exists>a. L k = Some (a, False) \<and> L' k = Some (a, True)"
    "\<And>k a. (k, a) \<in> set kas \<Longrightarrow> L k = None \<and> L' k = Some (a, False)"
    "\<And>k. k \<notin> set ks \<Longrightarrow> k \<notin> fst ` set kas \<Longrightarrow> L' k = L k"
proof -
  obtain L1 where s: "l_spend ks L = (Ok (), L1)" and a: "l_add kas L1 = (Ok (), L')"
    using assms by (auto simp: l_apply_def split: prod.splits res.splits)
  note s' = l_spend_Ok [OF s] and a' = l_add_Ok [OF a]
  show "distinct ks" using s' by blast
  show "L k = None \<and> L' k = Some (b, False)" if "(k, b) \<in> set kas" for k b
  proof -
    have k: "L1 k = None" "L' k = Some (b, False)" using that a' by blast+
    then have "k \<notin> set ks" using s' by fastforce
    then show ?thesis using k s' by auto
  qed
  show "\<exists>a. L k = Some (a, False) \<and> L' k = Some (a, True)" if "k \<in> set ks" for k
  proof -
    obtain b where b: "L k = Some (b, False)" "L1 k = Some (b, True)" using s' \<open>k \<in> set ks\<close> by blast
    then have "k \<notin> fst ` set kas" using a' by fastforce
    then have "L' k = L1 k" using a' by blast
    then show ?thesis using b by simp
  qed
  show "L' k = L k" if "k \<notin> set ks" "k \<notin> fst ` set kas" for k
  proof -
    have "L' k = L1 k" "L1 k = L k" using that s' a' by blast+
    then show ?thesis by simp
  qed
qed

subsection \<open>Properties\<close>

text \<open>Claim C25 (refinement): over any byte-ordered map whose entries represent a ledger,
  \<open>StoreCustomTokenPaymentAddresstHistory\<close> never panics, ends with the result of applying the
  transaction to the ledger, whichever error that is, and leaves entries that represent the new
  ledger, also when it fails half way.\<close>

theorem token_history_refines_ledger:
  assumes "kv_store lv view invar" and "invar d" and "ledger_rel (view d) L"
    and "l_apply (vin_keys t txd) (vout_keys t h txd) L = (r, L')"
  shows "\<exists>d'. StoreCustomTokenPaymentAddresstHistory lv t h txd d = (r, d') \<and> invar d' \<and> ledger_rel (view d') L'"
  by (rule kv_store.token_tx_refines [OF assms])

definition example_txd :: "TxTokenVin list \<Rightarrow> TxTokenVout list \<Rightarrow> TxTokenData" where
  "example_txd vins vouts =
     \<lparr>PropertyID = zero_hash, PropertyName = ''T'', PropertySymbol = ''T'', td_Type = 1, td_Amount = 0,
      Vins = vins, Vouts = Some vouts\<rparr>"

lemma ledger_rel_empty: "ledger_rel (map_of []) (\<lambda>_. None)"
  by (simp add: ledger_rel_def)

theorem token_history_refines_ledger_witness:
  "\<exists>d'. StoreCustomTokenPaymentAddresstHistory al_db zero_hash zero_hash
       (example_txd [] [new_vout example_address 5]) [] = (Ok (), d')"
  using token_history_refines_ledger [OF adb.kv_store_axioms _ ledger_rel_empty, of zero_hash
      "example_txd [] [new_vout example_address 5]" zero_hash "Ok ()"]
  by (auto simp: l_apply_def vin_keys_def vout_keys_def example_txd_def)

text \<open>Claim C18 (safety): an output of a token is spent at most once. When a token transaction is
  applied, its inputs name pairwise different entries that were unspent and are marked spent, its
  outputs are new and unspent, no other entry of the token changes, and every transaction applied
  next that names one of the same entries fails.\<close>

theorem token_no_double_spend:
  assumes "kv_store lv view invar" and "invar d" and "ledger_rel (view d) L"
    and "StoreCustomTokenPaymentAddresstHistory lv t h txd d = (Ok (), d')"
  shows "distinct (vin_keys t txd) \<and>
    (\<exists>L'. ledger_rel (view d') L' \<and>
      (\<forall>k \<in> set (vin_keys t txd). \<exists>a. L k = Some (a, False) \<and> L' k = Some (a, True)) \<and>
      (\<forall>(k, a) \<in> set (vout_keys t h txd). L k = None \<and> L' k = Some (a, False)) \<and>
      (\<forall>k. k \<notin> set (vin_keys t txd) \<longrightarrow> k \<notin> fst ` set (vout_keys t h txd) \<longrightarrow> L' k = L k)) \<and>
    (set (vin_keys t txd) \<inter> set (vin_keys t txd2) \<noteq> {} \<longrightarrow>
      fst (StoreCustomTokenPaymentAddresstHistory lv t h2 txd2 d') \<noteq> Ok ())"
proof -
  obtain r L' where a: "l_apply (vin_keys t txd) (vout_keys t h txd) L = (r, L')" by fastforce
  from kv_store.token_tx_refines [OF assms(1-3) a] assms(4)
  have r: "r = Ok ()" and d': "invar d'" "ledger_rel (view d') L'" by auto
  note ok = l_apply_Ok [OF a [unfolded r]]
  have "fst (StoreCustomTokenPaymentAddresstHistory lv t h2 txd2 d') \<noteq> Ok ()"
    if int: "set (vin_keys t txd) \<inter> set (vin_keys t txd2) \<noteq> {}"
  proof -
    obtain k where k: "k \<in> set (vin_keys t txd)" "k \<in> set (vin_keys t txd2)" using int by blast
    obtain r2 L2 where a2: "l_apply (vin_keys t txd2) (vout_keys t h2 txd2) L' = (r2, L2)" by fastforce
    obtain b where "L' k = Some (b, True)" using ok(2) [OF k(1)] by blast
    then have "fst (l_spend (vin_keys t txd2) L') \<noteq> Ok ()" by (rule l_spend_spent [OF k(2)])
    then have "r2 \<noteq> Ok ()" using a2 by (auto simp: l_apply_def split: prod.splits res.splits)
    then show ?thesis using kv_store.token_tx_refines [OF assms(1) d' a2] by auto
  qed
  then show ?thesis using ok d' by (intro conjI exI [of _ L'] impI) auto
qed

definition example_utxo :: bytes where
  "example_utxo = utxo_key zero_hash (Pk example_address) zero_hash 0"

definition example_token_db :: "(bytes \<times> bytes) list" where
  "example_token_db = [(example_utxo, utxo_value (5, False))]"

lemma example_ledger: "ledger_rel (map_of example_token_db) [example_utxo \<mapsto> (5, False)]"
  by (auto simp: ledger_rel_def example_token_db_def)

lemma example_spend: "vin_keys zero_hash (example_txd [example_vin] []) = [example_utxo]"
  by (simp add: vin_keys_def example_txd_def example_vin_def example_utxo_def)

lemma example_spend_Ok:
  "\<exists>d'. StoreCustomTokenPaymentAddresstHistory al_db zero_hash h (example_txd [example_vin] []) example_token_db = (Ok (), d')"
proof -
  have "al_sorted example_token_db" by (simp add: example_token_db_def)
  moreover have "vout_keys zero_hash h (example_txd [example_vin] []) = []" by (simp add: vout_keys_def example_txd_def)
  then have "l_apply (vin_keys zero_hash (example_txd [example_vin] [])) (vout_keys zero_hash h (example_txd [example_vin] []))
      [example_utxo \<mapsto> (5, False)] = (Ok (), [example_utxo \<mapsto> (5, True)])"
    by (simp add: l_apply_def example_spend)
  ultimately show ?thesis using adb.token_tx_refines [OF _ example_ledger] by blast
qed

theorem token_no_double_spend_witness:
  "\<exists>d'. StoreCustomTokenPaymentAddresstHistory al_db zero_hash zero_hash (example_txd [example_vin] []) example_token_db = (Ok (), d') \<and>
     fst (StoreCustomTokenPaymentAddresstHistory al_db zero_hash zero_hash (example_txd [example_vin] []) d') \<noteq> Ok ()"
proof -
  obtain d' where d': "StoreCustomTokenPaymentAddresstHistory al_db zero_hash zero_hash (example_txd [example_vin] []) example_token_db = (Ok (), d')"
    using example_spend_Ok by blast
  have "al_sorted example_token_db" by (simp add: example_token_db_def)
  from token_no_double_spend [OF adb.kv_store_axioms this example_ledger d', of "example_txd [example_vin] []" zero_hash] d'
  show ?thesis by (auto simp: example_spend)
qed

lemma reward_value_split:
  "0 \<le> a \<Longrightarrow> strings_Split (Itoa a @ unspent @ rewared) splitter = [Itoa a @ unspent @ rewared]"
  using Itoa_no_dash [of a]
  by (intro strings_Split_1 [OF splitter_Cons]) (auto simp: unspent_def rewared_def)

text \<open>Rewarding an output destroys its entry. \<open>UpdateRewardAccountUTXO\<close> of an
  unspent output joins the parts without separators; the transaction that spends the output
  afterwards, as its first input, panics on the missing second field instead of returning an
  error.\<close>

theorem reward_corrupts_utxo:
  assumes "kv_store lv view invar" and "invar d" and "ledger_rel (view d) L"
    and "L (utxo_key t (Pk addr) h i) = Some (a, False)" and "0 \<le> a"
    and "Vins txd = \<lparr>vin_TxCustomTokenID = h, VoutIndex = i, Signature = sg, vin_PaymentAddress = addr\<rparr> # vins"
  shows "\<exists>d'. UpdateRewardAccountUTXO lv t addr h i d = (Ok (), d') \<and>
    StoreCustomTokenPaymentAddresstHistory lv t h2 txd d' = (Panic, d')"
proof -
  note kv = assms(1)
  let ?k = "utxo_key t (Pk addr) h i" and ?v = "bytes_of_string (Itoa a @ unspent @ rewared)"
  define d' where "d' = snd (lv_Put lv d ?k ?v)"
  have v: "view d ?k = Some (utxo_value (a, False))" using ledger_rel_at [OF assms(3)] assms(4) by simp
  have u: "UpdateRewardAccountUTXO lv t addr h i d = (Ok (), d')"
    using assms(2) v kv_store.access_simps [OF kv]
    by (simp add: UpdateRewardAccountUTXO_def Let_def run_defs split_value d'_def)
  have "invar d'" "view d' ?k = Some ?v"
    using kv_store.state_simps [OF kv] assms(2) by (simp_all add: d'_def)
  then have "spend_vins lv t (Vins txd) d' = (Panic, d')"
    using kv_store.access_simps [OF kv] reward_value_split [OF assms(5)]
    by (simp add: assms(6) Let_def run_defs)
  then show ?thesis using u by (simp add: StoreCustomTokenPaymentAddresstHistory_def dbind_def)
qed

theorem reward_corrupts_utxo_witness:
  "\<exists>d'. UpdateRewardAccountUTXO al_db zero_hash example_address zero_hash 0 example_token_db = (Ok (), d') \<and>
     StoreCustomTokenPaymentAddresstHistory al_db zero_hash zero_hash (example_txd [example_vin] []) d' = (Panic, d')"
proof -
  have "al_sorted example_token_db" by (simp add: example_token_db_def)
  from reward_corrupts_utxo [OF adb.kv_store_axioms this example_ledger, of zero_hash example_address zero_hash 0 5
      "example_txd [example_vin] []" "[]" "[]" zero_hash]
  show ?thesis by (auto simp: example_utxo_def example_txd_def example_vin_def)
qed

end
