(* ===== verification/Notes.thy ===== *)
theory Notes
  imports IncMerkle
begin

text \<open>
  Notes of package \<open>privacy-protocol/client\<close>: the commitment and the nullifier of a note
  (\<open>note.go\<close>), the pseudo-random functions they use (\<open>prf.go\<close>) and the part of \<open>Prove\<close>
  (\<open>joinsplit.go\<close>) that runs without privacy, which is the only way the repository calls it.
  BLAKE2b is a parameter \<open>blake\<close>; random bits are arguments.
\<close>

unbundle bit_operations_syntax

text \<open>\<open>copy(data[i:], src)\<close> on an array.\<close>

definition copy_at :: "nat \<Rightarrow> bytes \<Rightarrow> bytes \<Rightarrow> bytes" where
  "copy_at i src data = take i data @ take (length data - i) src @ drop (i + length src) data"

definition CMPreImageLength :: nat where
  "CMPreImageLength = 105"

fun put_value :: "nat \<Rightarrow> u64 \<Rightarrow> bytes \<Rightarrow> bytes" where
  "put_value 0 v data = data"
| "put_value (Suc i) v data = (put_value i v data)[i + 33 := ucast (drop_bit (i * 8) v)]"

definition commitment_data :: "Note \<Rightarrow> bytes" where
  "commitment_data note =
     (let data0 = (replicate CMPreImageLength 0)[0 := 0xB0];
          data1 = copy_at 1 (Apk note) data0;
          data2 = put_value 8 (Value note) data1;
          data3 = copy_at 41 (Rho note) data2
      in copy_at 73 (R_rand note) data3)"

definition GetCommitment :: "Note \<Rightarrow> bytes" where
  "GetCommitment note = the (Sum256 (commitment_data note))"

subsection \<open>Pseudo-random functions\<close>

text \<open>An empty \<open>x\<close> is indexed out of range; a message that is not a whole number of chunks makes
  \<open>Sum256NoPad\<close> panic.\<close>

definition PRF :: "bool \<Rightarrow> bool \<Rightarrow> bool \<Rightarrow> bool \<Rightarrow> bytes \<Rightarrow> bytes \<Rightarrow> bytes option" where
  "PRF a b c d x y =
     (let h = (if a then push_bit 7 1 else 0) OR (if b then push_bit 6 1 else 0) OR
              (if c then push_bit 5 1 else 0) OR (if d then push_bit 4 1 else 0)
      in case x of
           [] \<Rightarrow> None
         | x0 # xs \<Rightarrow> Sum256NoPad (((x0 AND 0x0F) OR h) # xs @ y))"

definition PRF_addr_x :: "bytes \<Rightarrow> byte \<Rightarrow> bytes option" where
  "PRF_addr_x x t = PRF True True False False x (t # replicate 31 0)"

definition PRF_nf :: "bytes \<Rightarrow> bytes \<Rightarrow> bytes option" where
  "PRF_nf x y = PRF True True True False x y"

definition PRF_rho :: "nat \<Rightarrow> bytes \<Rightarrow> bytes \<Rightarrow> bytes option" where
  "PRF_rho index phi hsig = PRF False (index > 0) True False phi hsig"

definition PRF_pk :: "nat \<Rightarrow> bytes \<Rightarrow> bytes \<Rightarrow> bytes option" where
  "PRF_pk index ask hsig = PRF False (index > 0) False False ask hsig"

definition HSigCRH :: "(bytes \<Rightarrow> bytes) \<Rightarrow> bytes \<Rightarrow> bytes \<Rightarrow> bytes \<Rightarrow> bytes \<Rightarrow> bytes" where
  "HSigCRH blake seed nf1 nf2 pubKey = blake (seed @ nf1 @ nf2 @ pubKey)"

definition GetNullifier :: "bytes \<Rightarrow> bytes \<Rightarrow> bytes option" where
  "GetNullifier ask rho = PRF_nf ask rho"

text \<open>\<open>GenSpendingAddress\<close> of \<open>address.go\<close>.\<close>

definition GenSpendingAddress :: "bytes \<Rightarrow> bytes option" where
  "GenSpendingAddress ask = map_option copy32 (PRF_addr_x ask 0)"

subsection \<open>Join-splits\<close>

record JSOutput =
  EncKey :: bytes
  OutputNote :: Note

datatype js_error = BadDescSize nat nat | RootNotFound byte

text \<open>The updates of the input and output notes in \<open>Prove\<close>; \<open>rs\<close> are the random \<open>R\<close> of the new
  notes.\<close>

fun prove_inputs :: "JSInput list \<Rightarrow> JSInput list option" where
  "prove_inputs [] = Some []"
| "prove_inputs (inp # inps) =
     (case Key inp of
        None \<Rightarrow> None
      | Some key \<Rightarrow>
         (case (GetNullifier key (copy32 (Rho (InputNote inp))), prove_inputs inps) of
            (Some nf, Some inps') \<Rightarrow>
              let n1 = (InputNote inp)\<lparr>Nf := nf\<rparr> in
              Some (inp\<lparr>InputNote := n1\<lparr>Cm := GetCommitment n1\<rparr>\<rparr> # inps')
          | _ \<Rightarrow> None))"

fun prove_outputs :: "nat \<Rightarrow> bytes \<Rightarrow> bytes \<Rightarrow> (nat \<Rightarrow> bytes) \<Rightarrow> JSOutput list \<Rightarrow> JSOutput list option" where
  "prove_outputs i phi hSig rs [] = Some []"
| "prove_outputs i phi hSig rs (out # outs) =
     (case (PRF_rho i phi hSig, prove_outputs (Suc i) phi hSig rs outs) of
        (Some rho, Some outs') \<Rightarrow>
          let n1 = (OutputNote out)\<lparr>Rho := rho, R_rand := copy32 (rs i)\<rparr> in
          Some (out\<lparr>OutputNote := n1\<lparr>Cm := GetCommitment n1\<rparr>\<rparr> # outs')
      | _ \<Rightarrow> None)"

definition total_input :: "u64 \<Rightarrow> JSInput list \<Rightarrow> u64" where
  "total_input reward inputs = reward + sum_list (map (Value \<circ> InputNote) inputs)"

definition total_output :: "u64 \<Rightarrow> JSOutput list \<Rightarrow> u64" where
  "total_output fee outputs = fee + sum_list (map (Value \<circ> OutputNote) outputs)"

text \<open>\<open>Prove\<close> with \<open>noPrivacy\<close>: it panics when the values do not balance, and otherwise returns no
  proof, the signature hash and the updated notes. The seed and \<open>phi\<close> are drawn when nil.\<close>

definition Prove :: "(bytes \<Rightarrow> bytes) \<Rightarrow> (nat \<Rightarrow> bytes) \<Rightarrow> JSInput list \<Rightarrow> JSOutput list \<Rightarrow> bytes \<Rightarrow> u64 \<Rightarrow> u64 \<Rightarrow>
    bytes \<Rightarrow> bytes \<Rightarrow> (bytes \<times> JSInput list \<times> JSOutput list) option" where
  "Prove blake rs inputs outputs pubKey reward fee seed phi =
     (if total_input reward inputs \<noteq> total_output fee outputs then None
      else case prove_inputs inputs of
             None \<Rightarrow> None
           | Some inputs' \<Rightarrow>
              (case inputs' of
                 i0 # i1 # _ \<Rightarrow>
                   let hSig = HSigCRH blake seed (Nf (InputNote i0)) (Nf (InputNote i1)) pubKey
                   in map_option (\<lambda>outputs'. (hSig, inputs', outputs')) (prove_outputs 0 phi hSig rs outputs)
               | _ \<Rightarrow> None))"

subsection \<open>Lemmas\<close>

lemma length_copy_at [simp]: "i \<le> length data \<Longrightarrow> length (copy_at i src data) = length data"
  by (auto simp: copy_at_def)

lemma length_put_value [simp]: "length (put_value n v data) = length data"
  by (induction n) auto

lemma nth_copy_at:
  "i \<le> length data \<Longrightarrow> j < length data \<Longrightarrow>
   copy_at i src data ! j = (if j < i then data ! j else if j < i + length src then src ! (j - i) else data ! j)"
  by (auto simp: copy_at_def nth_append not_less min_def)

lemma nth_put_value:
  "n + 33 \<le> length data \<Longrightarrow> j < length data \<Longrightarrow>
   put_value n v data ! j = (if 33 \<le> j \<and> j < n + 33 then ucast (drop_bit ((j - 33) * 8) v) else data ! j)"
proof (induction n)
  case (Suc n)
  then show ?case by (auto simp: nth_list_update less_Suc_eq)
qed auto

lemma length_commitment_data [simp]: "length (commitment_data n) = 105"
  by (simp add: commitment_data_def Let_def CMPreImageLength_def)

lemma nth_commitment_data:
  assumes "length (Apk n) = 33" "length (Rho n) = 32" "length (R_rand n) = 32" "j < 105"
  shows "commitment_data n ! j =
    (if j = 0 then 0xB0 else if j < 33 then Apk n ! (j - 1)
     else if j < 41 then ucast (drop_bit ((j - 33) * 8) (Value n))
     else if j < 73 then Rho n ! (j - 41) else R_rand n ! (j - 73))"
  using assms by (auto simp: commitment_data_def Let_def CMPreImageLength_def nth_copy_at nth_put_value nth_list_update)

lemma commitment_data_blind:
  assumes "length (Apk n) = 33" "length (Rho n) = 32" "length (R_rand n) = 32"
  shows "commitment_data (n\<lparr>Apk := take 32 (Apk n) @ [b]\<rparr>) = commitment_data n"
proof (rule nth_equalityI)
  fix j assume "j < length (commitment_data (n\<lparr>Apk := take 32 (Apk n) @ [b]\<rparr>))"
  then have j: "j < 105" by simp
  show "commitment_data (n\<lparr>Apk := take 32 (Apk n) @ [b]\<rparr>) ! j = commitment_data n ! j"
    using assms j by (auto simp: nth_commitment_data nth_append)
qed simp

lemma commitment_data_inject:
  assumes n: "length (Apk n) = 33" "length (Rho n) = 32" "length (R_rand n) = 32"
    and m: "length (Apk m) = 33" "length (Rho m) = 32" "length (R_rand m) = 32"
    and eq: "commitment_data n = commitment_data m"
  shows "take 32 (Apk n) = take 32 (Apk m)" "Rho n = Rho m" "R_rand n = R_rand m" "Value n = Value m"
proof -
  have e: "commitment_data n ! j = commitment_data m ! j" for j using eq by simp
  show "take 32 (Apk n) = take 32 (Apk m)"
  proof (rule nth_equalityI)
    fix i assume "i < length (take 32 (Apk n))"
    then show "take 32 (Apk n) ! i = take 32 (Apk m) ! i"
      using e [of "i + 1"] n m by (simp add: nth_commitment_data)
  qed (use n m in simp)
  show "Rho n = Rho m"
  proof (rule nth_equalityI)
    fix i assume "i < length (Rho n)"
    then show "Rho n ! i = Rho m ! i" using e [of "i + 41"] n m by (simp add: nth_commitment_data)
  qed (use n m in simp)
  show "R_rand n = R_rand m"
  proof (rule nth_equalityI)
    fix i assume "i < length (R_rand n)"
    then show "R_rand n ! i = R_rand m ! i" using e [of "i + 73"] n m by (simp add: nth_commitment_data)
  qed (use n m in simp)
  have u: "(ucast (drop_bit (k * 8) (Value n)) :: byte) = ucast (drop_bit (k * 8) (Value m))" if "k < 8" for k
    using e [of "k + 33"] n m that by (simp add: nth_commitment_data)
  show "Value n = Value m"
  proof (rule bit_eqI)
    fix i assume "possible_bit TYPE(u64) i"
    then have i: "i < 64" by simp
    then have "bit (ucast (drop_bit (i div 8 * 8) (Value n)) :: byte) (i mod 8) =
        bit (ucast (drop_bit (i div 8 * 8) (Value m)) :: byte) (i mod 8)"
      using u [of "i div 8"] by simp
    then show "bit (Value n) i = bit (Value m) i"
      by (simp add: bit_ucast_iff bit_drop_bit_eq)
  qed
qed

subsection \<open>Properties\<close>

text \<open>Claim C31 (safety): what a commitment commits to. For keys of 33 bytes and \<open>Rho\<close> and \<open>R\<close> of 32
  bytes, two notes with the same commitment have the same value, the same \<open>Rho\<close> and \<open>R\<close> and the
  same first 32 key bytes, or their preimages collide in SHA-256. The last byte of the key is
  overwritten by the value: changing it keeps the commitment.\<close>

theorem commitment_binding:
  assumes "length (Apk n) = 33" and "length (Rho n) = 32" and "length (R_rand n) = 32"
    and "length (Apk m) = 33" and "length (Rho m) = 32" and "length (R_rand m) = 32"
  shows "(GetCommitment n = GetCommitment m \<longrightarrow>
      (Value n = Value m \<and> Rho n = Rho m \<and> R_rand n = R_rand m \<and> take 32 (Apk n) = take 32 (Apk m)) \<or>
      (commitment_data n \<noteq> commitment_data m \<and>
       sha256_spec (commitment_data n) = sha256_spec (commitment_data m))) \<and>
    GetCommitment (n\<lparr>Apk := take 32 (Apk n) @ [b]\<rparr>) = GetCommitment n"
proof -
  have s: "GetCommitment k = sha256_spec (commitment_data k)" for k
    by (simp add: GetCommitment_def Sum256_spec)
  show ?thesis
  proof (cases "commitment_data n = commitment_data m")
    case True
    then show ?thesis using commitment_data_inject [OF assms True] commitment_data_blind [OF assms(1-3)]
      by (simp add: GetCommitment_def)
  next
    case False
    then show ?thesis using s commitment_data_blind [OF assms(1-3)] by (simp add: GetCommitment_def)
  qed
qed

definition example_note :: "u64 \<Rightarrow> Note" where
  "example_note v = \<lparr>Value = v, Apk = replicate 33 2, Rho = replicate 32 4, R_rand = replicate 32 5, Nf = [], Cm = [], Memo = []\<rparr>"

theorem commitment_binding_witness:
  "GetCommitment ((example_note 7)\<lparr>Apk := replicate 32 2 @ [9]\<rparr>) = GetCommitment (example_note 7)"
  using commitment_binding [of "example_note 7" "example_note 7" 9] by (simp add: example_note_def)

end
