(* ===== verification/Keys.thy ===== *)
theory Keys
  imports Transaction
begin

text \<open>
  Keys: compressed points of \<open>privacy-protocol/ecc.go\<close>, spending, viewing and payment keys of
  \<open>privacy-protocol/key.go\<close> and the key sets of \<open>cashec/keysetprivacy.go\<close>. The curve of \<open>crypto/elliptic\<close>
  is a parameter: its constants, its group operations and its membership test.
\<close>

unbundle bit_operations_syntax

record curve =
  cP :: int
  cN :: int
  cB :: int
  ScalarBaseMult :: "bytes \<Rightarrow> int \<times> int"
  ScalarMult :: "int \<times> int \<Rightarrow> bytes \<Rightarrow> int \<times> int"
  IsOnCurve :: "int \<times> int \<Rightarrow> bool"

datatype point_error = BadFormat | BadModulus | InvalidRoot | BadParity | NotOnCurve | BadKeyLength | CoordTooLarge

definition PointCompressed :: byte where
  "PointCompressed = 0"

definition isOdd :: "int \<Rightarrow> bool" where
  "isOdd a = bit a 0"

definition paddedAppend :: "nat \<Rightarrow> bytes \<Rightarrow> bytes \<Rightarrow> bytes" where
  "paddedAppend n dst src = dst @ replicate (n - length src) 0 @ src"

definition PAdd1Div4 :: "int \<Rightarrow> int" where
  "PAdd1Div4 p = (p + 1) div 4"

text \<open>\<open>big.Int.Exp\<close> with a modulus and a non-negative exponent.\<close>

definition big_Exp :: "int \<Rightarrow> int \<Rightarrow> int \<Rightarrow> int" where
  "big_Exp x y m = x ^ nat y mod m"

definition cubic :: "curve \<Rightarrow> int \<Rightarrow> int" where
  "cubic C x = (x * x * x + cB C - x * 3) mod cP C"

definition ComputeYCoord :: "curve \<Rightarrow> int \<Rightarrow> (point_error, int) res" where
  "ComputeYCoord C x =
     (let x3 = cubic C x;
          y = big_Exp x3 (PAdd1Div4 (cP C)) (cP C)
      in if y * y mod cP C \<noteq> x3 then Err InvalidRoot else Ok y)"

definition InversePoint :: "curve \<Rightarrow> int \<times> int \<Rightarrow> (point_error, int \<times> int) res" where
  "InversePoint C p =
     (if \<not> IsOnCurve C p then Err NotOnCurve else Ok (fst p, (cP C - snd p) mod cP C))"

definition CompressPoint :: "curve \<Rightarrow> int \<times> int \<Rightarrow> bytes" where
  "CompressPoint C p =
     (if IsOnCurve C p
      then let format = (if isOdd (snd p) then PointCompressed OR 1 else PointCompressed)
           in paddedAppend 32 [format] (big_Bytes (nat \<bar>fst p\<bar>))
      else [])"

text \<open>The function \<open>DecompressPoint\<close>: the second coordinate of a point from the first.\<close>

definition DecompressY :: "curve \<Rightarrow> int \<Rightarrow> bool \<Rightarrow> (point_error, int) res" where
  "DecompressY C x ybit =
     (let xCube = cubic C x in
      if cP C mod 4 \<noteq> 3 then Err BadModulus
      else let y0 = big_Exp xCube (PAdd1Div4 (cP C)) (cP C);
               y = (if ybit \<noteq> isOdd y0 then cP C - y0 else y0)
           in if y * y mod cP C \<noteq> xCube then Err InvalidRoot
              else if ybit \<noteq> isOdd y then Err BadParity
              else Ok y)"

text \<open>The method \<open>DecompressPoint\<close>: the parity bit is read after it has been cleared.\<close>

definition DecompressPoint :: "curve \<Rightarrow> bytes \<Rightarrow> (point_error, int \<times> int) res" where
  "DecompressPoint C b =
     (if b = [] then Panic
      else let format = b ! 0 AND NOT 1 in
           if format \<noteq> PointCompressed then Err BadFormat
           else let ybit = (format AND 1 = 1) in
                if length b < 33 then Panic
                else let x = int (big_SetBytes (take 32 (drop 1 b)))
                     in and_then (DecompressY C x ybit) (\<lambda>y. Ok (x, y)))"

definition DecompressKey :: "curve \<Rightarrow> bytes \<Rightarrow> (point_error, int \<times> int) res" where
  "DecompressKey C pubKeyStr =
     (if length pubKeyStr = 0 \<or> length pubKeyStr \<noteq> 33 then Err BadKeyLength
      else and_then (DecompressPoint C pubKeyStr) (\<lambda>p.
             if cP C \<le> fst p \<or> cP C \<le> snd p then Err CoordTooLarge
             else if \<not> IsOnCurve C p then Err NotOnCurve
             else Ok p))"

definition CompressCommitment :: "curve \<Rightarrow> int \<times> int \<Rightarrow> byte \<Rightarrow> bytes" where
  "CompressCommitment C p typeCommitment = typeCommitment # CompressPoint C p"

definition DecompressCommitment :: "curve \<Rightarrow> bytes \<Rightarrow> (point_error, int \<times> int) res" where
  "DecompressCommitment C commitment =
     (if length commitment < 67 then Panic else DecompressKey C (take 33 (drop 34 commitment)))"

subsection \<open>Keys\<close>

text \<open>The seed is hashed until the number is not above the order of the group.\<close>

partial_function (option) spending_loop :: "curve \<Rightarrow> bytes \<Rightarrow> bytes option" where
  "spending_loop C spendingKey =
     (if int (big_SetBytes spendingKey) > cN C then spending_loop C (HashB spendingKey) else Some spendingKey)"

definition GenerateSpendingKey :: "curve \<Rightarrow> bytes \<Rightarrow> bytes option" where
  "GenerateSpendingKey C seed = spending_loop C (HashB seed)"

definition GeneratePublicKey :: "curve \<Rightarrow> bytes \<Rightarrow> bytes" where
  "GeneratePublicKey C spendingKey = CompressPoint C (ScalarBaseMult C spendingKey)"

definition GenerateReceivingKey :: "bytes \<Rightarrow> bytes" where
  "GenerateReceivingKey spendingKey = sha256_spec spendingKey"

definition GenerateTransmissionKey :: "curve \<Rightarrow> bytes \<Rightarrow> bytes" where
  "GenerateTransmissionKey C receivingKey =
     (let generator = ScalarBaseMult C (2 # replicate 31 0)
      in CompressPoint C (ScalarMult C generator receivingKey))"

record ViewingKey =
  vk_Pk :: bytes
  vk_Rk :: bytes

definition GenerateViewingKey :: "curve \<Rightarrow> bytes \<Rightarrow> ViewingKey" where
  "GenerateViewingKey C spendingKey =
     \<lparr>vk_Pk = GeneratePublicKey C spendingKey, vk_Rk = GenerateReceivingKey spendingKey\<rparr>"

definition GeneratePaymentAddress :: "curve \<Rightarrow> bytes \<Rightarrow> PaymentAddress" where
  "GeneratePaymentAddress C spendingKey =
     \<lparr>Pk = GeneratePublicKey C spendingKey, Tk = GenerateTransmissionKey C (GenerateReceivingKey spendingKey)\<rparr>"

subsection \<open>Key sets\<close>

record KeySet =
  PrivateKey :: bytes
  ks_PaymentAddress :: PaymentAddress
  ReadonlyKey :: ViewingKey

definition empty_KeySet :: KeySet where
  "empty_KeySet = \<lparr>PrivateKey = [], ks_PaymentAddress = \<lparr>Pk = [], Tk = []\<rparr>, ReadonlyKey = \<lparr>vk_Pk = [], vk_Rk = []\<rparr>\<rparr>"

definition keyset_of :: "curve \<Rightarrow> bytes \<Rightarrow> KeySet" where
  "keyset_of C k =
     \<lparr>PrivateKey = k, ks_PaymentAddress = GeneratePaymentAddress C k, ReadonlyKey = GenerateViewingKey C k\<rparr>"

definition GenerateKey :: "curve \<Rightarrow> bytes \<Rightarrow> KeySet option" where
  "GenerateKey C seed = map_option (keyset_of C) (GenerateSpendingKey C seed)"

text \<open>\<open>copy\<close> fills the slice that is there; in a fresh key set it is nil.\<close>

definition ImportFromPrivateKeyByte :: "curve \<Rightarrow> KeySet \<Rightarrow> bytes \<Rightarrow> KeySet" where
  "ImportFromPrivateKeyByte C self privateKey =
     (let n = length (PrivateKey self)
      in keyset_of C (take n privateKey @ drop (length privateKey) (PrivateKey self)))"

definition ImportFromPrivateKey :: "curve \<Rightarrow> bytes \<Rightarrow> KeySet" where
  "ImportFromPrivateKey C privateKey = keyset_of C privateKey"

subsection \<open>Lemmas\<close>

lemma isOdd_iff: "isOdd a = odd a"
  by (simp add: isOdd_def bit_0)

lemma DecompressY_parity: "DecompressY C x ybit = Ok y \<Longrightarrow> odd y = ybit"
  by (auto simp: DecompressY_def Let_def isOdd_iff split: if_splits)

lemma ImportFromPrivateKeyByte_fresh: "ImportFromPrivateKeyByte C empty_KeySet k = keyset_of C []"
  by (simp add: ImportFromPrivateKeyByte_def empty_KeySet_def)

text \<open>The laws of the curve: a modulus that is 3 modulo 4 and behaves as a prime (no zero divisors,
  Fermat's theorem), and the membership test.\<close>

definition curve_ok :: "curve \<Rightarrow> bool" where
  "curve_ok C \<longleftrightarrow> 3 \<le> cP C \<and> cP C < 2 ^ 256 \<and> cP C mod 4 = 3 \<and>
     (\<forall>a b. cP C dvd a * b \<longrightarrow> cP C dvd a \<or> cP C dvd b) \<and>
     (\<forall>a. \<not> cP C dvd a \<longrightarrow> a ^ nat (cP C - 1) mod cP C = 1) \<and>
     (\<forall>x y. IsOnCurve C (x, y) \<longleftrightarrow> y * y mod cP C = cubic C x)"

lemma square_power: "((y * y) ^ (m + 1)) * ((y * y) ^ (m + 1)) = y * y * y ^ (4 * m + 2)" for y :: int
proof -
  have e: "(y * y) ^ n = y ^ (2 * n)" for n by (simp only: power_mult power2_eq_square)
  have "y * y = y ^ 2" by (simp only: power2_eq_square)
  then have "y * y * y ^ (4 * m + 2) = y ^ (2 + (4 * m + 2))" by (simp only: power_add)
  moreover have "(y * y) ^ (m + 1) * (y * y) ^ (m + 1) = y ^ (2 * (m + 1) + 2 * (m + 1))"
    unfolding e by (rule power_add [symmetric])
  moreover have "2 * (m + 1) + 2 * (m + 1) = 2 + (4 * m + 2)" by simp
  ultimately show ?thesis by (simp only:)
qed

lemma dvd_small:
  fixes r y P :: int
  assumes "0 \<le> r" "r < P" "0 \<le> y" "y < P" "P dvd r - y \<or> P dvd r + y"
  shows "r = y \<or> r = P - y"
  using assms(5)
proof
  assume "P dvd r - y"
  then obtain q where "r - y = P * q" by (auto simp: dvd_def)
  moreover have "q = 0"
  proof (rule ccontr)
    assume "q \<noteq> 0"
    then have "P \<le> \<bar>P * q\<bar>" using assms by (simp add: abs_mult)
    then show False using assms calculation by linarith
  qed
  ultimately show ?thesis by simp
next
  assume "P dvd r + y"
  then obtain q where q: "r + y = P * q" by (auto simp: dvd_def)
  have P: "0 < P" using assms by linarith
  have "P * q < P * 2" using q assms by linarith
  then have "q < 2" using P by simp
  moreover have "0 \<le> P * q" using q assms by linarith
  then have "0 \<le> q" using P by (simp add: zero_le_mult_iff)
  ultimately have "q = 0 \<or> q = 1" by linarith
  then show ?thesis using q assms by auto
qed

lemma sqrt_square:
  assumes C: "curve_ok C" and y: "0 \<le> y" "y < cP C"
  shows "big_Exp (y * y mod cP C) (PAdd1Div4 (cP C)) (cP C) \<in> {y, cP C - y}"
proof -
  let ?P = "cP C"
  define k where "k = nat (?P div 4)"
  have P: "3 \<le> ?P" "?P mod 4 = 3" using C by (auto simp: curve_ok_def)
  have "0 \<le> ?P div 4" using P(1) by (simp add: pos_imp_zdiv_nonneg_iff)
  then have k: "?P = 4 * int k + 3" using P(2) mult_div_mod_eq [of 4 ?P] by (simp add: k_def)
  have "?P + 1 = 4 * (int k + 1)" using k by simp
  then have "(?P + 1) div 4 = int k + 1" by simp
  then have e: "nat (PAdd1Div4 ?P) = k + 1" by (simp add: PAdd1Div4_def)
  define r where "r = (y * y) ^ (k + 1) mod ?P"
  have r: "big_Exp (y * y mod ?P) (PAdd1Div4 ?P) ?P = r" unfolding r_def big_Exp_def e by (rule power_mod)
  have "r = y \<or> r = ?P - y"
  proof (cases "?P dvd y")
    case True
    then have "y = 0" using y by (auto dest: zdvd_imp_le)
    then show ?thesis by (simp add: r_def)
  next
    case False
    then have fermat: "y ^ nat (?P - 1) mod ?P = 1" using C by (simp add: curve_ok_def)
    have "nat (?P - 1) = 4 * k + 2" using k by linarith
    then have f: "y ^ (4 * k + 2) mod ?P = 1" using fermat by simp
    have "r * r mod ?P = (y * y) ^ (k + 1) * (y * y) ^ (k + 1) mod ?P" unfolding r_def by (rule mod_mult_eq)
    also have "\<dots> = y * y * y ^ (4 * k + 2) mod ?P" unfolding square_power ..
    also have "\<dots> = y * y * (y ^ (4 * k + 2) mod ?P) mod ?P" by (rule mod_mult_right_eq [symmetric])
    also have "\<dots> = y * y mod ?P" unfolding f by simp
    finally have "?P dvd r * r - y * y" by (rule mod_eq_dvd_iff [THEN iffD1])
    moreover have "r * r - y * y = (r - y) * (r + y)" by (simp add: algebra_simps)
    ultimately have "?P dvd (r - y) * (r + y)" by simp
    then have "?P dvd r - y \<or> ?P dvd r + y" using C unfolding curve_ok_def by blast
    moreover have "0 \<le> r" "r < ?P" using P by (simp_all add: r_def)
    ultimately show ?thesis using dvd_small [of r ?P y] y by blast
  qed
  then show ?thesis unfolding r by blast
qed

lemma square_neg: "(P - y) * (P - y) mod P = y * y mod (P :: int)"
proof -
  have "(P - y) * (P - y) = y * y + P * (P - 2 * y)" by (simp add: algebra_simps)
  then show ?thesis by simp
qed

lemma DecompressY_root:
  assumes C: "curve_ok C" and y: "0 \<le> y" "y < cP C" and on: "IsOnCurve C (x, y)"
  shows "DecompressY C x False = Ok (if even y then y else cP C - y)"
proof -
  let ?P = "cP C"
  let ?r = "big_Exp (cubic C x) (PAdd1Div4 ?P) ?P"
  have P: "3 \<le> ?P" "?P mod 4 = 3" and c: "cubic C x = y * y mod ?P" using C on by (auto simp: curve_ok_def)
  have odd: "odd ?P" using P(2) by presburger
  have r: "?r = y \<or> ?r = ?P - y" unfolding c using sqrt_square [OF C y] by simp
  have sq: "(?P - y) * (?P - y) mod ?P = y * y mod ?P" by (rule square_neg)
  have "DecompressY C x False = (let z = (if odd ?r then ?P - ?r else ?r)
      in if z * z mod ?P \<noteq> cubic C x then Err InvalidRoot else if odd z then Err BadParity else Ok z)"
    using P by (auto simp: DecompressY_def isOdd_iff Let_def)
  then show ?thesis using r odd sq y by (auto simp: c Let_def)
qed

lemma compressed_bytes:
  assumes C: "curve_ok C" and x: "0 \<le> x" "x < cP C" and on: "IsOnCurve C (x, y)"
  shows "\<exists>f. CompressPoint C (x, y) = f # drop 1 (CompressPoint C (x, y)) \<and> f AND NOT 1 = PointCompressed \<and>
    length (CompressPoint C (x, y)) = 33 \<and> int (big_SetBytes (take 32 (drop 1 (CompressPoint C (x, y))))) = x"
proof -
  have "x < 2 ^ 256" using C x by (auto simp: curve_ok_def)
  then have "nat x < 256 ^ 32" by (simp add: nat_less_iff x)
  then have l: "length (big_Bytes (nat x)) \<le> 32" by (rule length_big_Bytes_less)
  have z: "big_SetBytes (replicate n 0 @ b) = big_SetBytes b" for n b
    by (induction n) (simp_all add: big_SetBytes_def)
  show ?thesis
    using l on x by (auto simp: CompressPoint_def paddedAppend_def PointCompressed_def z big_SetBytes_Bytes Let_def)
qed

lemma decompress_compress:
  assumes "curve_ok C" and "0 \<le> x" and "x < cP C" and "0 \<le> y" and "y < cP C" and "IsOnCurve C (x, y)"
  shows "DecompressPoint C (CompressPoint C (x, y)) = Ok (x, if even y then y else cP C - y) \<and>
    DecompressKey C (CompressPoint C (x, y)) = Ok (x, if even y then y else cP C - y)"
proof -
  obtain f where f: "CompressPoint C (x, y) = f # drop 1 (CompressPoint C (x, y))" "f AND NOT 1 = PointCompressed"
    "length (CompressPoint C (x, y)) = 33" "int (big_SetBytes (take 32 (drop 1 (CompressPoint C (x, y))))) = x"
    using compressed_bytes [OF assms(1-3,6)] by blast
  have f0: "CompressPoint C (x, y) \<noteq> []" "CompressPoint C (x, y) ! 0 = f" using f(1) by (metis list.distinct(1), metis nth_Cons_0)
  let ?y = "if even y then y else cP C - y"
  have D: "DecompressPoint C (CompressPoint C (x, y)) = Ok (x, ?y)"
    using f(2-4) f0 DecompressY_root [OF assms(1,4-6)]
    by (simp add: DecompressPoint_def Let_def PointCompressed_def)
  have on: "IsOnCurve C (x, ?y)"
  proof -
    have "(cP C - y) * (cP C - y) mod cP C = y * y mod cP C" by (rule square_neg)
    then show ?thesis using assms(1,6) by (simp add: curve_ok_def)
  qed
  have "0 < y" if "odd y" using that assms(4) by (cases "y = 0") auto
  then have "?y < cP C" using assms(5) by auto
  then have "DecompressKey C (CompressPoint C (x, y)) = Ok (x, ?y)"
    using D f(3) on assms(3) by (simp add: DecompressKey_def)
  with D show ?thesis by blast
qed

subsection \<open>Properties\<close>

text \<open>Claim C40 (roundtrip): decompressing a compressed point of the curve gives the point back exactly when its second
  coordinate is even; for an odd one it gives the inverse point, because the parity bit is cleared before
  it is read. Key decompression returns the same point.\<close>

theorem compress_roundtrip:
  assumes "curve_ok C" and "0 \<le> x" and "x < cP C" and "0 \<le> y" and "y < cP C" and "IsOnCurve C (x, y)"
  shows "DecompressPoint C (CompressPoint C (x, y)) = Ok (x, if even y then y else cP C - y) \<and>
    DecompressKey C (CompressPoint C (x, y)) = Ok (x, if even y then y else cP C - y)"
  by (rule decompress_compress [OF assms])

text \<open>The curve \<open>y\<^sup>2 = x\<^sup>3 - 3 x + 1\<close> modulo 3.\<close>

definition example_curve :: curve where
  "example_curve = \<lparr>cP = 3, cN = 3, cB = 1, ScalarBaseMult = (\<lambda>k. (0, 1)), ScalarMult = (\<lambda>p k. p),
     IsOnCurve = (\<lambda>(x, y). y * y mod 3 = (x * x * x + 1 - x * 3) mod 3)\<rparr>"

lemma not_dvd_3: "\<not> 3 dvd a \<Longrightarrow> a mod 3 \<in> {1, 2 :: int}"
proof -
  assume "\<not> 3 dvd a"
  then have "a mod 3 = 1 \<or> a mod 3 = 2" by presburger
  then show ?thesis by blast
qed

lemma example_curve_ok: "curve_ok example_curve"
proof -
  have nz: "u * v mod 3 \<noteq> 0" "u ^ 2 mod 3 = 1" if "u \<in> {1, 2}" "v \<in> {1, 2}" for u v :: int
    using that by auto
  have prime: "3 dvd a \<or> 3 dvd b" if "3 dvd a * b" for a b :: int
  proof (rule ccontr)
    assume n: "\<not> (3 dvd a \<or> 3 dvd b)"
    have "(a mod 3) * (b mod 3) mod 3 = 0" unfolding mod_mult_eq using that by (rule dvd_imp_mod_0)
    moreover have "(a mod 3) * (b mod 3) mod 3 \<noteq> 0" by (rule nz; rule not_dvd_3) (use n in simp_all)
    ultimately show False by contradiction
  qed
  have fermat: "a ^ 2 mod 3 = 1" if "\<not> 3 dvd a" for a :: int
    using nz(2) [OF not_dvd_3 [OF that] not_dvd_3 [OF that]] unfolding power_mod .
  have P: "cP example_curve = 3" by (simp add: example_curve_def)
  have e: "nat (3 - 1) = 2" by simp
  have on: "IsOnCurve example_curve (x, y) \<longleftrightarrow> y * y mod 3 = cubic example_curve x" for x y
    by (simp add: example_curve_def cubic_def)
  show ?thesis
    unfolding curve_ok_def P e using prime fermat on by (intro conjI allI impI) (assumption | simp | blast)+
qed

theorem compress_roundtrip_witness:
  "DecompressPoint example_curve (CompressPoint example_curve (0, 1)) = Ok (0, 2) \<and>
   DecompressKey example_curve (CompressPoint example_curve (0, 2)) = Ok (0, 2)"
  using compress_roundtrip [OF example_curve_ok, of 0 1] compress_roundtrip [OF example_curve_ok, of 0 2]
  by (simp add: example_curve_def)

end
