(* ===== verification/CreateTx.thy ===== *)
theory CreateTx
  imports Keys Notes "HOL-Library.Multiset"
begin

text \<open>
  \<open>CreateTx\<close> of \<open>transaction/txnormal.go\<close>: a payment is split into join-splits of two inputs and two
  outputs, the largest notes and payments first, until notes and payments are used up. The model
  has the whole loop: choosing notes, the fee, dummy notes, the check of the commitments, witness
  paths and anchors, output and change notes, \<open>BuildNewJSDesc\<close> and \<open>buildJSDescAndEncrypt\<close>.

  The elliptic curve, BLAKE2b, random bits and Go's map order are the fields of \<open>env\<close>.
  \<open>sort.Slice\<close> leaves the order of equal values open; the model takes the stable one. The loop may
  run forever, so it is a partial function, and so may the search of a key that dummy notes need.
  In a result of type \<open>res option\<close>, \<open>None\<close> means that the call does not return and \<open>Some Panic\<close> that it
  panics.
\<close>

record env =
  blake :: "bytes \<Rightarrow> bytes"
  ec :: curve
  rand_in :: "nat \<Rightarrow> nat \<Rightarrow> bytes \<times> bytes"
  rand_out :: "nat \<Rightarrow> nat \<Rightarrow> bytes \<times> bytes"
  rand_seed :: "nat \<Rightarrow> bytes"
  rand_phi :: "nat \<Rightarrow> bytes"
  rand_R :: "nat \<Rightarrow> nat \<Rightarrow> bytes"
  rand_epk :: "nat \<Rightarrow> bytes"
  map_order :: "byte list \<Rightarrow> byte list"

record ChainNote =
  cn_note :: Note
  cn_chainID :: byte

datatype create_error =
    InputLessThanOutput
  | TooSmallToPayFee
  | CommitmentNotFound bytes byte
  | WitnessErr path_error
  | AnchorMismatch byte
  | JSErr js_error
  | SignErr sign_error

subsection \<open>Calls that may not return\<close>

definition run_then :: "('e, 'a) res option \<Rightarrow> ('a \<Rightarrow> ('e, 'b) res option) \<Rightarrow> ('e, 'b) res option" where
  "run_then m f =
     (case m of
        None \<Rightarrow> None
      | Some (Ok a) \<Rightarrow> f a
      | Some (Err er) \<Rightarrow> Some (Err er)
      | Some Panic \<Rightarrow> Some Panic)"

lemma run_then_simps [simp]:
  "run_then None f = None" "run_then (Some (Ok a)) f = f a" "run_then (Some (Err er)) f = Some (Err er)"
  "run_then (Some Panic) f = Some Panic"
  by (simp_all add: run_then_def)

lemma run_then_Ok_iff: "run_then m f = Some (Ok b) \<longleftrightarrow> (\<exists>a. m = Some (Ok a) \<and> f a = Some (Ok b))"
  by (auto simp: run_then_def split: option.splits res.splits)

subsection \<open>Notes\<close>

text \<open>\<open>None\<close> is the panic of the hash.\<close>

definition createDummyNote :: "env \<Rightarrow> bytes \<Rightarrow> bytes \<Rightarrow> bytes \<Rightarrow> Note option" where
  "createDummyNote e spendingKey rho r =
     map_option (\<lambda>nf. \<lparr>Value = 0, Apk = GeneratePublicKey (ec e) spendingKey, Rho = copy32 rho, R_rand = copy32 r, Nf = nf,
                        Cm = [], Memo = []\<rparr>)
       (GetNullifier spendingKey (copy32 rho))"

text \<open>The key of dummy notes is made from an empty seed, so it is always the same. \<open>None\<close> stands
  for a search for a key that does not end.\<close>

definition CreateRandomJSOutput :: "env \<Rightarrow> bytes \<times> bytes \<Rightarrow> (create_error, JSOutput) res option" where
  "CreateRandomJSOutput e rnd =
     map_option (\<lambda>randomKey.
       case createDummyNote e randomKey (fst rnd) (snd rnd) of
         None \<Rightarrow> Panic
       | Some n \<Rightarrow> Ok \<lparr>EncKey = Tk (GeneratePaymentAddress (ec e) randomKey), OutputNote = n\<rparr>)
       (GenerateSpendingKey (ec e) [])"

definition CreateRandomJSInput :: "env \<Rightarrow> bytes option \<Rightarrow> bytes \<times> bytes \<Rightarrow> (create_error, JSInput) res option" where
  "CreateRandomJSInput e spendingKey rnd =
     map_option (\<lambda>sk.
       case createDummyNote e sk (fst rnd) (snd rnd) of
         None \<Rightarrow> Panic
       | Some n \<Rightarrow> Ok \<lparr>WitnessPath = Some CreateDummyPath, Key = Some sk, InputNote = n\<rparr>)
       (case spendingKey of None \<Rightarrow> GenerateSpendingKey (ec e) [] | Some k \<Rightarrow> Some k)"

text \<open>The notes of all usable transactions, chain by chain in map order.\<close>

definition usable_notes :: "(byte \<times> Tx list) list \<Rightarrow> ChainNote list" where
  "usable_notes usableTx =
     concat (map (\<lambda>(chainID, txs). map (\<lambda>n. \<lparr>cn_note = n, cn_chainID = chainID\<rparr>)
       (concat (map (\<lambda>tx. concat (map (\<lambda>d. elems (desc_Note d)) (Descs tx))) txs))) usableTx)"

subsection \<open>Choosing inputs\<close>

type_synonym chain_inputs = "(byte \<times> JSInput list) list"

fun add_input :: "byte \<Rightarrow> JSInput \<Rightarrow> chain_inputs \<Rightarrow> chain_inputs" where
  "add_input c inp [] = [(c, [inp])]"
| "add_input c inp ((c', l) # m) = (if c = c' then (c', l @ [inp]) # m else (c', l) # add_input c inp m)"

text \<open>The loop over the notes, largest first; the bound compares the number of chains.\<close>

fun choose_inputs :: "bytes \<Rightarrow> ChainNote list \<Rightarrow> chain_inputs \<Rightarrow> chain_inputs \<times> ChainNote list" where
  "choose_inputs key [] m = (m, [])"
| "choose_inputs key (cn # cns) m =
     (if length m < NumDescInputs
      then choose_inputs key cns
             (add_input (cn_chainID cn) \<lparr>WitnessPath = None, Key = Some key, InputNote = cn_note cn\<rparr> m)
      else (m, cn # cns))"

definition input_value :: "chain_inputs \<Rightarrow> u64" where
  "input_value m = sum_list (map (Value \<circ> InputNote) (concat (map snd m)))"

definition num_inputs :: "chain_inputs \<Rightarrow> nat" where
  "num_inputs m = length (concat (map snd m))"

fun add_dummies :: "env \<Rightarrow> bytes \<Rightarrow> byte \<Rightarrow> nat \<Rightarrow> nat \<Rightarrow> chain_inputs \<Rightarrow> chain_inputs option" where
  "add_dummies e key c k 0 m = Some m"
| "add_dummies e key c k (Suc n) m =
     (case createDummyNote e key (fst (rand_in e k n)) (snd (rand_in e k n)) of
        None \<Rightarrow> None
      | Some d \<Rightarrow>
          add_dummies e key c k n
            (add_input c \<lparr>WitnessPath = Some CreateDummyPath, Key = Some key, InputNote = d\<rparr> m))"

fun check_chain :: "byte \<Rightarrow> bytes list \<Rightarrow> JSInput list \<Rightarrow> (create_error, JSInput list) res" where
  "check_chain c cms [] = Ok []"
| "check_chain c cms (inp # inps) =
     (let cm = GetCommitment (InputNote inp) in
      if cm \<in> set cms
      then and_then (check_chain c cms inps) (\<lambda>inps'. Ok (inp\<lparr>InputNote := (InputNote inp)\<lparr>Cm := cm\<rparr>\<rparr> # inps'))
      else Err (CommitmentNotFound cm c))"

fun check_commitments :: "(byte \<Rightarrow> bytes list) \<Rightarrow> chain_inputs \<Rightarrow> (create_error, chain_inputs) res" where
  "check_commitments commitments [] = Ok []"
| "check_commitments commitments ((c, l) # m) =
     and_then (check_chain c (commitments c) l) (\<lambda>l'.
       and_then (check_commitments commitments m) (\<lambda>m'. Ok ((c, l') # m')))"

fun check_anchors :: "(byte \<rightharpoonup> hash) \<Rightarrow> (byte \<rightharpoonup> hash) \<Rightarrow> byte list \<Rightarrow> (create_error, unit) res" where
  "check_anchors rts newRts [] = Ok ()"
| "check_anchors rts newRts (c # cs) =
     (case newRts c of
        None \<Rightarrow> check_anchors rts newRts cs
      | Some rt \<Rightarrow>
         (case rts c of
            None \<Rightarrow> Panic
          | Some h \<Rightarrow> if rt \<noteq> h then Err (AnchorMismatch c) else check_anchors rts newRts cs))"

definition order_inputs :: "env \<Rightarrow> chain_inputs \<Rightarrow> chain_inputs" where
  "order_inputs e m = map (\<lambda>c. (c, case map_of m c of None \<Rightarrow> [] | Some l \<Rightarrow> l)) (map_order e (map fst m))"

subsection \<open>Choosing outputs\<close>

definition out_to :: "PaymentAddress \<Rightarrow> u64 \<Rightarrow> JSOutput" where
  "out_to addr v =
     \<lparr>EncKey = Tk addr, OutputNote = \<lparr>Value = v, Apk = Pk addr, Rho = [], R_rand = [], Nf = [], Cm = [], Memo = []\<rparr>\<rparr>"

text \<open>The loop that leaves one output for the change runs at most once.\<close>

definition pay_largest :: "PaymentInfo list \<Rightarrow> u64 \<Rightarrow> JSOutput list \<times> PaymentInfo list \<times> u64" where
  "pay_largest paymentInfo inputValue =
     (if paymentInfo \<noteq> [] \<and> inputValue > 0 then
        let p = last paymentInfo in
        if pi_Amount p \<le> inputValue
        then ([out_to (pi_PaymentAddress p) (pi_Amount p)], butlast paymentInfo, inputValue - pi_Amount p)
        else ([out_to (pi_PaymentAddress p) inputValue],
              butlast paymentInfo @ [p\<lparr>pi_Amount := pi_Amount p - inputValue\<rparr>], 0)
      else ([], paymentInfo, inputValue))"

text \<open>What is left pays one more receiver exactly or becomes a change note; the last result says
  whether the change note is used again.\<close>

definition pay_rest ::
  "PaymentAddress \<Rightarrow> PaymentInfo list \<Rightarrow> u64 \<Rightarrow> JSOutput list \<Rightarrow> JSOutput list \<times> PaymentInfo list \<times> bool" where
  "pay_rest sender paymentInfo inputValue outputs =
     (if inputValue > 0 then
        if paymentInfo \<noteq> [] \<and> pi_Amount (last paymentInfo) = inputValue
        then (outputs @ [out_to (pi_PaymentAddress (last paymentInfo)) inputValue], butlast paymentInfo, False)
        else (outputs @ [out_to sender inputValue], paymentInfo, paymentInfo \<noteq> [])
      else (outputs, paymentInfo, False))"

fun pad_outputs :: "env \<Rightarrow> nat \<Rightarrow> nat \<Rightarrow> (create_error, JSOutput list) res option" where
  "pad_outputs e k 0 = Some (Ok [])"
| "pad_outputs e k (Suc n) =
     run_then (CreateRandomJSOutput e (rand_out e k n)) (\<lambda>d.
       run_then (pad_outputs e k n) (\<lambda>ds. Some (Ok (d # ds))))"

subsection \<open>Building a description\<close>

fun gather :: "(byte \<rightharpoonup> bytes) \<Rightarrow> chain_inputs \<Rightarrow> (js_error, JSInput list \<times> bytes list) res" where
  "gather rtMap [] = Ok ([], [])"
| "gather rtMap ((c, []) # m) = gather rtMap m"
| "gather rtMap ((c, inp # inps) # m) =
     (case rtMap c of
        None \<Rightarrow> Err (RootNotFound c)
      | Some rt \<Rightarrow> and_then (gather rtMap ((c, inps) # m)) (\<lambda>(is, rts). Ok (inp # is, rt # rts)))"

fun vmacs :: "nat \<Rightarrow> bytes \<Rightarrow> JSInput list \<Rightarrow> bytes list option" where
  "vmacs i hSig [] = Some []"
| "vmacs i hSig (inp # inps) =
     (case Key inp of
        None \<Rightarrow> None
      | Some key \<Rightarrow>
         (case (PRF_pk i (copy32 key) hSig, vmacs (Suc i) hSig inps) of
            (Some v, Some vs) \<Rightarrow> Some (v # vs)
          | _ \<Rightarrow> None))"

text \<open>\<open>buildJSDescAndEncrypt\<close> without a proof: nothing is encrypted and the description keeps the
  notes in the clear.\<close>

definition buildJSDescAndEncrypt ::
  "JSInput list \<Rightarrow> JSOutput list \<Rightarrow> bytes list \<Rightarrow> u64 \<Rightarrow> bytes \<Rightarrow> bytes \<Rightarrow> bytes \<Rightarrow> JoinSplitDesc option" where
  "buildJSDescAndEncrypt inputs outputs rts reward hSig seed epk =
     map_option (\<lambda>ms.
       \<lparr>Anchor = rts, Nullifiers = map (Nf \<circ> InputNote) inputs, Commitments = map (Cm \<circ> OutputNote) outputs,
        Proof = None, EncryptedData = [], EphemeralPubKey = epk, HSigSeed = seed, Reward = reward, Vmacs = ms,
        desc_Note = Some (map OutputNote outputs)\<rparr>) (vmacs 0 hSig inputs)"

definition BuildNewJSDesc ::
  "env \<Rightarrow> nat \<Rightarrow> Tx \<Rightarrow> chain_inputs \<Rightarrow> JSOutput list \<Rightarrow> (byte \<rightharpoonup> bytes) \<Rightarrow> u64 \<Rightarrow> u64 \<Rightarrow> (js_error, Tx \<times> JSOutput list) res" where
  "BuildNewJSDesc e k tx inputMap outputs rtMap reward fee =
     and_then (gather rtMap (order_inputs e inputMap)) (\<lambda>(inputs, rts).
       if length inputs \<noteq> NumDescInputs \<or> length outputs \<noteq> NumDescOutputs
       then Err (BadDescSize (length inputs) (length outputs))
       else case Prove (blake e) (rand_R e k) inputs outputs (elems (JSPubKey tx)) reward fee (rand_seed e k) (rand_phi e k) of
              None \<Rightarrow> Panic
            | Some (hSig, inputs', outputs') \<Rightarrow>
               (case buildJSDescAndEncrypt inputs' outputs' rts reward hSig (rand_seed e k) (rand_epk e k) of
                  None \<Rightarrow> Panic
                | Some desc \<Rightarrow> Ok (tx\<lparr>Descs := Descs tx @ [desc]\<rparr>, outputs')))"

subsection \<open>The loop\<close>

record cstate =
  st_notes :: "ChainNote list"
  st_pays :: "PaymentInfo list"
  st_cms :: "byte \<Rightarrow> bytes list"
  st_tx :: Tx

text \<open>What does not change during the loop: the spending key, the anchors and the chain of the
  sender, the fee and the address of the change. \<open>senderFullKey.ImportFromPrivateKeyByte\<close> copies the
  key into a nil slice, so the change address is made from an empty key.\<close>

record cparams =
  cp_key :: bytes
  cp_rts :: "byte \<rightharpoonup> hash"
  cp_chain :: byte
  cp_fee :: u64

abbreviation change_addr :: "env \<Rightarrow> cparams \<Rightarrow> PaymentAddress" where
  "change_addr e p \<equiv> ks_PaymentAddress (ImportFromPrivateKeyByte (ec e) empty_KeySet (cp_key p))"

abbreviation sender_addr :: "env \<Rightarrow> cparams \<Rightarrow> PaymentAddress" where
  "sender_addr e p \<equiv> ks_PaymentAddress (ImportFromPrivateKey (ec e) (cp_key p))"

text \<open>First half of a round: the inputs with their witness paths and anchors, the value they bring,
  the remaining notes and the fee applied.\<close>

definition round_inputs ::
  "env \<Rightarrow> cparams \<Rightarrow> cstate \<Rightarrow> (create_error, chain_inputs \<times> (byte \<rightharpoonup> bytes) \<times> u64 \<times> ChainNote list \<times> u64) res" where
  "round_inputs e p st =
     (let k = length (Descs (st_tx st));
          (chosen, rest) = choose_inputs (cp_key p) (rev (sort_key (Value \<circ> cn_note) (st_notes st))) [];
          v = input_value chosen;
          feeApply = (if k = 0 then cp_fee p else 0)
      in if k = 0 \<and> v < feeApply then Err TooSmallToPayFee
         else case add_dummies e (cp_key p) (cp_chain p) k (NumDescInputs - num_inputs chosen) [] of
                None \<Rightarrow> Panic
              | Some dummies \<Rightarrow>
                  and_then (check_commitments (st_cms st) chosen) (\<lambda>checked.
                  and_then (map_err WitnessErr
                      (BuildWitnessPathMultiChain (map_order e (map fst checked)) (map_of checked) (st_cms st)))
                    (\<lambda>(newRts, built).
                  and_then (if k = 0 then check_anchors (cp_rts p) newRts (map_order e (map fst checked)) else Ok ()) (\<lambda>_.
                    let withPaths = map (\<lambda>(c, l). (c, case built c of None \<Rightarrow> l | Some l' \<Rightarrow> l')) checked;
                        inputs = fold (\<lambda>(c, l) m. fold (add_input c) l m) dummies withPaths;
                        anchor = (case newRts (cp_chain p) of None \<Rightarrow> newRts(cp_chain p \<mapsto> replicate 32 0)
                                  | Some rt \<Rightarrow> if rt = [] then newRts(cp_chain p \<mapsto> replicate 32 0) else newRts)
                    in Ok (inputs, anchor, v - feeApply, rev rest, feeApply)))))"

text \<open>A whole round. A change note that is used again is added to the notes after \<open>Prove\<close> has filled
  it in; in the code its pointer is added before.\<close>

definition create_round :: "env \<Rightarrow> cparams \<Rightarrow> cstate \<Rightarrow> (create_error, cstate) res option" where
  "create_round e p st =
     run_then (Some (round_inputs e p st)) (\<lambda>(inputs, anchor, v, notes, feeApply).
       let k = length (Descs (st_tx st));
           tx = (if k = 0 then (st_tx st)\<lparr>Fee := cp_fee p\<rparr> else st_tx st);
           (outs1, pays1, v1) = pay_largest (sort_key pi_Amount (st_pays st)) v;
           (outs2, pays2, reuse) = pay_rest (change_addr e p) pays1 v1 outs1
       in run_then (pad_outputs e k (NumDescOutputs - length outs2)) (\<lambda>dummies.
            Some (and_then (map_err JSErr (BuildNewJSDesc e k tx inputs (outs2 @ dummies) anchor 0 feeApply)) (\<lambda>(tx', outs').
              Ok \<lparr>st_notes = notes @ (if reuse
                     then [\<lparr>cn_note = OutputNote (outs' ! (length outs2 - 1)), cn_chainID = cp_chain p\<rparr>] else []),
                  st_pays = pays2,
                  st_cms = (st_cms st)(cp_chain p := st_cms st (cp_chain p) @ map (Cm \<circ> OutputNote) outs'),
                  st_tx = tx'\<rparr>))))"

definition create_done :: "cstate \<Rightarrow> bool" where
  "create_done st \<longleftrightarrow> st_notes st = [] \<and> st_pays st = []"

partial_function (option) create_loop :: "env \<Rightarrow> cparams \<Rightarrow> cstate \<Rightarrow> (create_error, cstate) res option" where
  "create_loop e p st =
     (if create_done st then Some (Ok st)
      else case create_round e p st of
             None \<Rightarrow> None
           | Some (Ok st') \<Rightarrow> create_loop e p st'
           | Some (Err er) \<Rightarrow> Some (Err er)
           | Some Panic \<Rightarrow> Some Panic)"

text \<open>\<open>CreateTx\<close>; \<open>noPrivacy\<close> is ignored by \<open>BuildNewJSDesc\<close>. \<open>sign\<close> signs with the fresh key pair whose
  public part is \<open>sigPubKey\<close>; the last byte of an empty public key is out of range.\<close>

definition CreateTx ::
  "proof_string \<Rightarrow> (bytes \<Rightarrow> (nat \<times> nat) option) \<Rightarrow> env \<Rightarrow> int \<Rightarrow> nat \<times> nat \<Rightarrow> cparams \<Rightarrow> PaymentInfo list \<Rightarrow>
   (byte \<times> Tx list) list \<Rightarrow> (byte \<Rightarrow> bytes list) \<Rightarrow> (create_error, Tx) res option" where
  "CreateTx PS sign e now sigPubKey p paymentInfo usableTx commitments =
     (let val = sum_list (map pi_Amount paymentInfo);
          inputNotes = usable_notes usableTx;
          sumInputValue = sum_list (map (Value \<circ> cn_note) inputNotes)
      in if sumInputValue < val + cp_fee p then Some (Err InputLessThanOutput)
         else let tx = CreateEmptyTx now sigPubKey TxNormalType;
                  pk = Pk (sender_addr e p)
              in if pk = [] then Some Panic
                 else map_option (\<lambda>r. and_then r (\<lambda>st. map_err SignErr (SignTx PS sign (st_tx st))))
                        (create_loop e p \<lparr>st_notes = inputNotes, st_pays = paymentInfo, st_cms = commitments,
                           st_tx = tx\<lparr>AddressLastByte := last pk\<rparr>\<rparr>))"

subsection \<open>Salaries and dividends\<close>

text \<open>The last byte of the dummy address of \<open>client.GenPaymentAddress\<close>, whose transmission key is not used.\<close>

definition CreateTxSalary ::
  "proof_string \<Rightarrow> (bytes \<Rightarrow> (nat \<times> nat) option) \<Rightarrow> env \<Rightarrow> int \<Rightarrow> nat \<times> nat \<Rightarrow> u64 \<Rightarrow> PaymentAddress \<Rightarrow>
   bytes \<Rightarrow> byte \<Rightarrow> (create_error, Tx) res option" where
  "CreateTxSalary PS sign e now sigPubKey salary receiverAddr rt chainID =
     run_then (CreateRandomJSInput e None (rand_in e 0 0)) (\<lambda>i0.
     run_then (CreateRandomJSInput e (Key i0) (rand_in e 0 1)) (\<lambda>i1.
       Some (case GenSpendingAddress (the (Key i0)) of
               None \<Rightarrow> Panic
             | Some apk \<Rightarrow>
                 let outputs = [out_to receiverAddr salary, out_to receiverAddr 0];
                     tx = (CreateEmptyTx now sigPubKey TxSalaryType)\<lparr>AddressLastByte := last apk\<rparr>
                 in and_then (map_err JSErr (BuildNewJSDesc e 0 tx [(chainID, [i0, i1])] outputs [chainID \<mapsto> rt] salary 0))
                      (\<lambda>(tx', outs'). map_err SignErr (SignTx PS sign tx')))))"

record DividendInfo =
  TokenHolder :: PaymentAddress
  di_Amount :: u64

record PayoutProposal =
  TotalAmount :: u64
  pp_PayoutID :: u64
  pp_TokenID :: "hash option"

text \<open>One transaction pays two holders; \<open>es\<close> gives the random values of each round.\<close>

fun dividend_loop ::
  "proof_string \<Rightarrow> (bytes \<Rightarrow> (nat \<times> nat) option) \<Rightarrow> (nat \<Rightarrow> env) \<Rightarrow> int \<Rightarrow> nat \<times> nat \<Rightarrow>
   nat \<Rightarrow> DividendInfo list \<Rightarrow> bytes \<Rightarrow> byte \<Rightarrow> PayoutProposal \<Rightarrow> (create_error, TxDividendPayout list) res option" where
  "dividend_loop PS sign es now spk r (i1 # i2 # infos) rt chainID proposal =
     (let e = es r in
      run_then (CreateRandomJSInput e None (rand_in e 0 0)) (\<lambda>in0.
      run_then (CreateRandomJSInput e (Key in0) (rand_in e 0 1)) (\<lambda>in1.
        let pk = Pk (GeneratePaymentAddress (ec e) (the (Key in0)));
            outputs = [out_to (TokenHolder i1) (di_Amount i1), out_to (TokenHolder i2) (di_Amount i2)];
            totalAmount = di_Amount i1 + di_Amount i2;
            tx = (CreateEmptyTx now spk TxDividendPayoutType)\<lparr>AddressLastByte := last pk\<rparr>
        in if pk = [] then Some Panic
           else run_then (Some (map_err JSErr (BuildNewJSDesc e 0 tx [(chainID, [in0, in1])] outputs [chainID \<mapsto> rt] totalAmount 0)))
             (\<lambda>(tx', outs'). run_then (Some (map_err SignErr (SignTx PS sign tx'))) (\<lambda>tx''.
               run_then (dividend_loop PS sign es now spk (Suc r) infos rt chainID proposal) (\<lambda>txs.
                 Some (Ok (\<lparr>div_Tx = tx'',
                   div_DividendPayout = \<lparr>PayoutID = pp_PayoutID proposal, TokenID = pp_TokenID proposal\<rparr>\<rparr> # txs))))))))"
| "dividend_loop PS sign es now spk r infos rt chainID proposal = Some (Ok [])"

definition BuildDividendTxs ::
  "proof_string \<Rightarrow> (bytes \<Rightarrow> (nat \<times> nat) option) \<Rightarrow> (nat \<Rightarrow> env) \<Rightarrow> int \<Rightarrow> nat \<times> nat \<Rightarrow>
   DividendInfo list \<Rightarrow> bytes \<Rightarrow> byte \<Rightarrow> PayoutProposal \<Rightarrow> (create_error, TxDividendPayout list) res option" where
  "BuildDividendTxs PS sign es now spk infos rt chainID proposal =
     (if length infos mod 2 \<noteq> 0
      then case GenerateSpendingKey (ec (es 0)) [] of
             None \<Rightarrow> None
           | Some k \<Rightarrow> dividend_loop PS sign es now spk 0
               (infos @ [\<lparr>TokenHolder = GeneratePaymentAddress (ec (es 0)) k, di_Amount = 0\<rparr>]) rt chainID proposal
      else dividend_loop PS sign es now spk 0 infos rt chainID proposal)"

subsection \<open>Values\<close>

abbreviation note_val :: "Note \<Rightarrow> nat" where
  "note_val n \<equiv> unat (Value n)"

definition notes_val :: "ChainNote list \<Rightarrow> nat" where
  "notes_val ns = sum_list (map (note_val \<circ> cn_note) ns)"

definition pays_val :: "PaymentInfo list \<Rightarrow> nat" where
  "pays_val ps = sum_list (map (unat \<circ> pi_Amount) ps)"

text \<open>What is paid to and due to a public key.\<close>

definition paid_to :: "bytes \<Rightarrow> Note list \<Rightarrow> nat" where
  "paid_to a ns = sum_list (map note_val (filter (\<lambda>n. Apk n = a) ns))"

definition due_to :: "bytes \<Rightarrow> PaymentInfo list \<Rightarrow> nat" where
  "due_to a ps = sum_list (map (unat \<circ> pi_Amount) (filter (\<lambda>p. Pk (pi_PaymentAddress p) = a) ps))"

definition tx_notes :: "Tx \<Rightarrow> Note list" where
  "tx_notes tx = concat (map (\<lambda>d. elems (desc_Note d)) (Descs tx))"

lemma paid_to_append [simp]: "paid_to a (ns @ ms) = paid_to a ns + paid_to a ms"
  by (simp add: paid_to_def)

lemma paid_to_Nil [simp]: "paid_to a [] = 0"
  by (simp add: paid_to_def)

lemma due_to_append [simp]: "due_to a (ps @ qs) = due_to a ps + due_to a qs"
  by (simp add: due_to_def)

lemma due_to_Nil [simp]: "due_to a [] = 0"
  by (simp add: due_to_def)

lemma pays_val_append [simp]: "pays_val (ps @ qs) = pays_val ps + pays_val qs"
  by (simp add: pays_val_def)

lemma pays_val_Nil [simp]: "pays_val [] = 0"
  by (simp add: pays_val_def)

lemma notes_val_append [simp]: "notes_val (ns @ ms) = notes_val ns + notes_val ms"
  by (simp add: notes_val_def)

lemma notes_val_Nil [simp]: "notes_val [] = 0"
  by (simp add: notes_val_def)

lemma sort_key_sums:
  "due_to a (sort_key f ps) = due_to a ps" "pays_val (sort_key f ps) = pays_val ps" "length (sort_key f ps) = length ps"
proof -
  have "mset (filter P (sort_key f ps)) = mset (filter P ps)" for P by simp
  then have m: "mset (map g (filter P (sort_key f ps))) = mset (map g (filter P ps))" for P and g :: "PaymentInfo \<Rightarrow> nat"
    by (metis mset_map)
  show "due_to a (sort_key f ps) = due_to a ps" unfolding due_to_def by (metis m sum_mset_sum_list)
  show "pays_val (sort_key f ps) = pays_val ps"
    unfolding pays_val_def using m [of "unat \<circ> pi_Amount" "\<lambda>_. True"] by (metis filter_True sum_mset_sum_list)
qed simp

lemma notes_val_sort: "notes_val (rev (sort_key f ns)) = notes_val ns"
proof -
  have "mset (map (note_val \<circ> cn_note) (rev (sort_key f ns))) = mset (map (note_val \<circ> cn_note) ns)"
    by (simp add: image_mset.compositionality)
  then show ?thesis unfolding notes_val_def by (metis sum_mset_sum_list)
qed

text \<open>The outputs of a round: the first receiver, a second one or the change, and what is still due.\<close>

abbreviation onotes :: "JSOutput list \<Rightarrow> Note list" where
  "onotes outs \<equiv> map OutputNote outs"

lemma last_butlast: "ps \<noteq> [] \<Longrightarrow> ps = butlast ps @ [last ps]"
  by simp

lemma due_to_single: "due_to a [p] = (if Pk (pi_PaymentAddress p) = a then unat (pi_Amount p) else 0)"
  by (simp add: due_to_def)

lemma pays_val_single: "pays_val [p] = unat (pi_Amount p)"
  by (simp add: pays_val_def)

lemma paid_to_out: "paid_to a [OutputNote (out_to addr v)] = (if Pk addr = a then unat v else 0)"
  by (simp add: paid_to_def out_to_def)

lemma pay_largest_cases:
  assumes "pay_largest ps v = (outs, ps', v')"
  obtains (none) "ps = [] \<or> v = 0" "outs = []" "ps' = ps" "v' = v"
  | (full) qs p where "ps = qs @ [p]" "0 < v" "pi_Amount p \<le> v" "outs = [out_to (pi_PaymentAddress p) (pi_Amount p)]"
      "ps' = qs" "v' = v - pi_Amount p"
  | (part) qs p where "ps = qs @ [p]" "0 < v" "v < pi_Amount p" "outs = [out_to (pi_PaymentAddress p) v]"
      "ps' = qs @ [p\<lparr>pi_Amount := pi_Amount p - v\<rparr>]" "v' = 0"
proof (cases "ps \<noteq> [] \<and> v > 0")
  case True
  then obtain qs p where ps: "ps = qs @ [p]" by (metis last_butlast)
  show ?thesis
  proof (cases "pi_Amount p \<le> v")
    case le: True
    show ?thesis by (rule full [OF ps _ le]) (use assms True le ps in \<open>auto simp: pay_largest_def\<close>)
  next
    case nle: False
    then have lt: "v < pi_Amount p" by simp
    show ?thesis by (rule part [OF ps _ lt]) (use assms True nle ps in \<open>auto simp: pay_largest_def\<close>)
  qed
next
  case False
  show ?thesis by (rule none) (use assms False in \<open>auto simp: pay_largest_def word_gt_0\<close>)
qed

lemma unat_diff: "a \<le> b \<Longrightarrow> unat (b - a) = unat b - unat (a :: u64)"
  by (simp add: unat_sub)

lemma pay_largest_facts:
  assumes "pay_largest ps v = (outs, ps', v')"
  shows pay_largest_due: "paid_to a (onotes outs) + due_to a ps' = due_to a ps"
    and pay_largest_val: "pays_val ps' + unat v = pays_val ps + unat v'"
    and pay_largest_len: "length ps' \<le> length ps" "0 < v' \<Longrightarrow> ps \<noteq> [] \<Longrightarrow> length ps' < length ps" "length outs \<le> 1"
    and pay_largest_pos: "\<forall>p \<in> set ps. 0 < pi_Amount p \<Longrightarrow> \<forall>p \<in> set ps'. 0 < pi_Amount p"
proof -
  show "paid_to a (onotes outs) + due_to a ps' = due_to a ps"
    using assms by (cases rule: pay_largest_cases)
      (auto simp: paid_to_out due_to_single unat_diff order_less_imp_le word_less_nat_alt)
  show "pays_val ps' + unat v = pays_val ps + unat v'"
    using assms by (cases rule: pay_largest_cases)
      (auto simp: pays_val_single unat_diff order_less_imp_le word_less_nat_alt word_le_nat_alt)
  show "length ps' \<le> length ps" "0 < v' \<Longrightarrow> ps \<noteq> [] \<Longrightarrow> length ps' < length ps" "length outs \<le> 1"
    using assms by (cases rule: pay_largest_cases; auto)+
  assume pos: "\<forall>p \<in> set ps. 0 < pi_Amount p"
  show "\<forall>p \<in> set ps'. 0 < pi_Amount p"
    using assms
  proof (cases rule: pay_largest_cases)
    case (part qs p)
    then have "0 < pi_Amount p - v" by (auto simp: word_gt_0)
    then show ?thesis using part pos by auto
  qed (use pos in auto)
qed

lemma pay_rest_facts:
  assumes "pay_rest s ps v outs = (outs', ps', reuse)"
  obtains new where "outs' = outs @ new" "length new \<le> 1"
    and "\<And>a. a \<noteq> Pk s \<Longrightarrow> paid_to a (onotes new) + due_to a ps' = due_to a ps"
    and "length ps' \<le> length ps" "\<forall>p \<in> set ps. 0 < pi_Amount p \<Longrightarrow> \<forall>p \<in> set ps'. 0 < pi_Amount p"
    and "reuse \<Longrightarrow> ps' = ps \<and> ps \<noteq> [] \<and> 0 < v \<and> outs' \<noteq> [] \<and> Value (OutputNote (last outs')) = v"
    and "\<not> reuse \<Longrightarrow> ps' = [] \<or> unat v + pays_val ps' = pays_val ps"
proof (cases "0 < v")
  case v: True
  show ?thesis
  proof (cases "ps \<noteq> [] \<and> pi_Amount (last ps) = v")
    case True
    then obtain qs p where ps: "ps = qs @ [p]" by (metis last_butlast)
    show ?thesis
      by (rule that [of "[out_to (pi_PaymentAddress p) v]"])
        (use assms v True ps in \<open>auto simp: pay_rest_def paid_to_out due_to_single pays_val_single\<close>)
  next
    case False
    show ?thesis
      by (rule that [of "[out_to s v]"])
        (use assms v False in \<open>auto simp: pay_rest_def paid_to_out out_to_def paid_to_def\<close>)
  qed
next
  case False
  show ?thesis by (rule that [of "[]"]) (use assms False in \<open>auto simp: pay_rest_def word_gt_0\<close>)
qed

text \<open>Dummy outputs pay nothing, and \<open>Prove\<close> keeps the value and the receiver of every output.\<close>

lemma pad_outputs_facts:
  "pad_outputs e k n = Some (Ok ds) \<Longrightarrow> length ds = n \<and> paid_to a (onotes ds) = 0"
proof (induction n arbitrary: ds)
  case (Suc n)
  then show ?case
    by (auto simp: CreateRandomJSOutput_def createDummyNote_def paid_to_def run_then_Ok_iff
        split: option.splits prod.splits)
qed (auto simp: paid_to_def)

abbreviation pays_of :: "JSOutput \<Rightarrow> bytes \<times> u64" where
  "pays_of out \<equiv> (Apk (OutputNote out), Value (OutputNote out))"

lemma paid_to_pays_of: "paid_to a (onotes outs) = sum_list (map (\<lambda>(k, v). if k = a then unat v else 0) (map pays_of outs))"
  by (induction outs) (auto simp: paid_to_def)

lemma prove_outputs_keeps: "prove_outputs i phi hSig rs outs = Some outs' \<Longrightarrow> map pays_of outs' = map pays_of outs"
proof (induction outs arbitrary: i outs')
  case (Cons o1 outs)
  then show ?case by (auto simp: Let_def split: option.splits)
qed auto

lemma Prove_keeps:
  "Prove bl rs inputs outs pubKey reward fee seed phi = Some (hSig, inputs', outs') \<Longrightarrow> map pays_of outs' = map pays_of outs"
  by (auto simp: Prove_def Let_def prove_outputs_keeps split: if_splits option.splits list.splits)

lemma BuildNewJSDesc_Ok:
  assumes "BuildNewJSDesc e k tx inputMap outs rtMap reward fee = Ok (tx', outs')"
  shows "map pays_of outs' = map pays_of outs" "length outs' = length outs"
    "length (Descs tx') = Suc (length (Descs tx))" "tx_notes tx' = tx_notes tx @ onotes outs'" "JSSig tx' = JSSig tx"
proof -
  obtain ins rts where g: "gather rtMap (order_inputs e inputMap) = Ok (ins, rts)"
    using assms by (auto simp: BuildNewJSDesc_def and_then_Ok_iff)
  obtain hSig ins' desc where P: "Prove (blake e) (rand_R e k) ins outs (elems (JSPubKey tx)) reward fee (rand_seed e k) (rand_phi e k)
        = Some (hSig, ins', outs')"
    and d: "buildJSDescAndEncrypt ins' outs' rts reward hSig (rand_seed e k) (rand_epk e k) = Some desc"
    and tx': "tx' = tx\<lparr>Descs := Descs tx @ [desc]\<rparr>"
    using assms g by (auto simp: BuildNewJSDesc_def split: if_splits option.splits)
  show m: "map pays_of outs' = map pays_of outs" by (rule Prove_keeps [OF P])
  show "length outs' = length outs" using m by (rule map_eq_imp_length_eq)
  show "length (Descs tx') = Suc (length (Descs tx))" "JSSig tx' = JSSig tx" by (simp_all add: tx')
  show "tx_notes tx' = tx_notes tx @ onotes outs'"
    using d by (auto simp: tx' tx_notes_def buildJSDescAndEncrypt_def)
qed

text \<open>Inputs: what is chosen and what is left add up.\<close>

definition inputs_val :: "chain_inputs \<Rightarrow> nat" where
  "inputs_val m = sum_list (map (note_val \<circ> InputNote) (concat (map snd m)))"

lemma inputs_val_add: "inputs_val (add_input c inp m) = inputs_val m + note_val (InputNote inp)"
  by (induction c inp m rule: add_input.induct) (auto simp: inputs_val_def)

lemma choose_inputs_val:
  "choose_inputs key ns m = (m', rest) \<Longrightarrow> inputs_val m' + notes_val rest = inputs_val m + notes_val ns \<and> length rest \<le> length ns"
proof (induction key ns m rule: choose_inputs.induct)
  case (2 key cn cns m)
  show ?case
  proof (cases "length m < NumDescInputs")
    case True
    then show ?thesis using 2 by (auto simp: inputs_val_add notes_val_def)
  qed (use 2 in auto)
qed auto

lemma choose_inputs_takes: "choose_inputs key ns [] = (m, rest) \<Longrightarrow> ns \<noteq> [] \<Longrightarrow> length rest < length ns"
  by (cases ns) (auto simp: NumDescInputs_def dest: choose_inputs_val)

lemma unat_sum_list_u64: "sum_list (map unat xs) < 2 ^ 64 \<Longrightarrow> unat (sum_list (xs :: u64 list)) = sum_list (map unat xs)"
  by (induction xs) (auto simp: unat_word_ariths)

lemma input_value_val: "inputs_val m < 2 ^ 64 \<Longrightarrow> unat (input_value m) = inputs_val m"
  unfolding inputs_val_def input_value_def
  using unat_sum_list_u64 [of "map (Value \<circ> InputNote) (concat (map snd m))"] by (simp add: comp_def)

subsection \<open>One round\<close>

abbreviation fee_due :: "cparams \<Rightarrow> cstate \<Rightarrow> u64" where
  "fee_due p st \<equiv> (if Descs (st_tx st) = [] then cp_fee p else 0)"

lemma round_inputs_Ok:
  assumes "round_inputs e p st = Ok (inputs, anchor, v, ns, feeApply)"
  obtains chosen rest where
    "choose_inputs (cp_key p) (rev (sort_key (Value \<circ> cn_note) (st_notes st))) [] = (chosen, rest)"
    "feeApply = fee_due p st" "fee_due p st \<le> input_value chosen" "v = input_value chosen - fee_due p st" "ns = rev rest"
proof -
  obtain chosen rest where
    c: "choose_inputs (cp_key p) (rev (sort_key (Value \<circ> cn_note) (st_notes st))) [] = (chosen, rest)"
    by fastforce
  show ?thesis
    by (rule that [OF c]) (use assms c in \<open>auto simp: round_inputs_def Let_def and_then_Ok_iff split: if_splits option.splits\<close>)
qed

text \<open>What a successful round does to the state.\<close>

lemma create_round_Ok:
  assumes "create_round e p st = Some (Ok st')"
  obtains chosen rest outs1 pays1 v1 outs2 pays2 reuse dummies outs' where
    "choose_inputs (cp_key p) (rev (sort_key (Value \<circ> cn_note) (st_notes st))) [] = (chosen, rest)"
    "fee_due p st \<le> input_value chosen"
    "pay_largest (sort_key pi_Amount (st_pays st)) (input_value chosen - fee_due p st) = (outs1, pays1, v1)"
    "pay_rest (change_addr e p) pays1 v1 outs1 = (outs2, pays2, reuse)"
    "pad_outputs e (length (Descs (st_tx st))) (NumDescOutputs - length outs2) = Some (Ok dummies)"
    "map pays_of outs' = map pays_of (outs2 @ dummies)"
    "st_notes st' = rev rest @ (if reuse
        then [\<lparr>cn_note = OutputNote (outs' ! (length outs2 - 1)), cn_chainID = cp_chain p\<rparr>] else [])"
    "st_pays st' = pays2" "Descs (st_tx st') \<noteq> []" "tx_notes (st_tx st') = tx_notes (st_tx st) @ onotes outs'"
    "st_cms st' = (st_cms st)(cp_chain p := st_cms st (cp_chain p) @ map (Cm \<circ> OutputNote) outs')"
    "length outs' = NumDescOutputs"
proof -
  let ?k = "length (Descs (st_tx st))"
  let ?tx = "if ?k = 0 then (st_tx st)\<lparr>Fee := cp_fee p\<rparr> else st_tx st"
  obtain inputs anchor v ns f where r: "round_inputs e p st = Ok (inputs, anchor, v, ns, f)"
    using assms by (auto simp: create_round_def run_then_Ok_iff)
  then obtain chosen rest where
    c: "choose_inputs (cp_key p) (rev (sort_key (Value \<circ> cn_note) (st_notes st))) [] = (chosen, rest)"
    "fee_due p st \<le> input_value chosen" and v: "v = input_value chosen - fee_due p st" and ns: "ns = rev rest"
    by (rule round_inputs_Ok) blast
  obtain outs1 pays1 v1 where l: "pay_largest (sort_key pi_Amount (st_pays st)) v = (outs1, pays1, v1)"
    by (cases "pay_largest (sort_key pi_Amount (st_pays st)) v") auto
  obtain outs2 pays2 reuse where s: "pay_rest (change_addr e p) pays1 v1 outs1 = (outs2, pays2, reuse)"
    by (cases "pay_rest (change_addr e p) pays1 v1 outs1") auto
  obtain ds where ds: "pad_outputs e ?k (NumDescOutputs - length outs2) = Some (Ok ds)"
    using assms r l s by (auto simp: create_round_def Let_def run_then_Ok_iff)
  obtain tx' outs' where B: "BuildNewJSDesc e ?k ?tx inputs (outs2 @ ds) anchor 0 f = Ok (tx', outs')"
    using assms r l s ds
    by (cases "BuildNewJSDesc e ?k ?tx inputs (outs2 @ ds) anchor 0 f") (auto simp: create_round_def Let_def)
  have st': "st_notes st' = ns @ (if reuse
       then [\<lparr>cn_note = OutputNote (outs' ! (length outs2 - 1)), cn_chainID = cp_chain p\<rparr>] else [])"
    "st_pays st' = pays2" "st_tx st' = tx'"
    "st_cms st' = (st_cms st)(cp_chain p := st_cms st (cp_chain p) @ map (Cm \<circ> OutputNote) outs')"
    using assms r l s ds B by (auto simp: create_round_def Let_def)
  note b = BuildNewJSDesc_Ok [OF B]
  have t: "Descs tx' \<noteq> []" "tx_notes tx' = tx_notes (st_tx st) @ onotes outs'"
    using b(3,4) by (auto simp: tx_notes_def)
  have "length (outs2 @ ds) = NumDescOutputs" using B by (auto simp: BuildNewJSDesc_def and_then_Ok_iff split: if_splits)
  then have o: "length outs' = NumDescOutputs" using b(2) by simp
  show ?thesis
    by (rule that [OF c l [unfolded v] s ds b(1)]) (use st' ns t o in auto)
qed

lemma create_round_pays:
  assumes "create_round e p st = Some (Ok st')" and a: "a \<noteq> Pk (change_addr e p)"
  shows "paid_to a (tx_notes (st_tx st')) + due_to a (st_pays st') = paid_to a (tx_notes (st_tx st)) + due_to a (st_pays st)"
  using assms(1)
proof (rule create_round_Ok)
  fix chosen rest outs1 pays1 v1 outs2 pays2 reuse dummies outs'
  assume l: "pay_largest (sort_key pi_Amount (st_pays st)) (input_value chosen - fee_due p st) = (outs1, pays1, v1)"
    and r: "pay_rest (change_addr e p) pays1 v1 outs1 = (outs2, pays2, reuse)"
    and ds: "pad_outputs e (length (Descs (st_tx st))) (NumDescOutputs - length outs2) = Some (Ok dummies)"
    and m: "map pays_of outs' = map pays_of (outs2 @ dummies)"
    and st': "st_pays st' = pays2" "tx_notes (st_tx st') = tx_notes (st_tx st) @ onotes outs'"
  obtain new where outs2: "outs2 = outs1 @ new" and new: "paid_to a (onotes new) + due_to a pays2 = due_to a pays1"
    using pay_rest_facts [OF r] a by metis
  have "paid_to a (onotes outs') = paid_to a (onotes (outs2 @ dummies))"
    unfolding paid_to_pays_of m ..
  also have "\<dots> = paid_to a (onotes outs1) + paid_to a (onotes new)"
    using pad_outputs_facts [OF ds] by (simp add: outs2)
  finally show ?thesis
    using new pay_largest_due [OF l, of a] by (simp add: st' sort_key_sums)
qed

text \<open>The notes cover what is due and the fee, every amount is positive and the notes do not
  overflow: then every round uses up notes or payments.\<close>

definition funded :: "cparams \<Rightarrow> cstate \<Rightarrow> bool" where
  "funded p st \<longleftrightarrow> pays_val (st_pays st) + unat (fee_due p st) \<le> notes_val (st_notes st) \<and>
     notes_val (st_notes st) < 2 ^ 64 \<and> (\<forall>q \<in> set (st_pays st). 0 < pi_Amount q)"

lemma funded_no_notes: "funded p st \<Longrightarrow> st_notes st = [] \<Longrightarrow> st_pays st = []"
  by (cases "st_pays st") (auto simp: funded_def pays_val_def word_gt_0 unat_eq_0)

abbreviation work :: "cstate \<Rightarrow> nat" where
  "work st \<equiv> length (st_notes st) + length (st_pays st)"

lemma pay_round:
  assumes l: "pay_largest ps v = (outs1, pays1, v1)" and r: "pay_rest s pays1 v1 outs1 = (outs2, pays2, reuse)"
    and pos: "\<forall>q \<in> set ps. 0 < pi_Amount q"
  shows "\<forall>q \<in> set pays2. 0 < pi_Amount q"
    and "reuse \<Longrightarrow> pays_val pays2 + unat v = pays_val ps + unat v1 \<and> length pays2 < length ps \<and> outs2 \<noteq> [] \<and>
           Value (OutputNote (last outs2)) = v1 \<and> v1 \<le> v"
    and "\<not> reuse \<Longrightarrow> pays2 = [] \<or> pays_val pays2 + unat v = pays_val ps"
    and "length pays2 \<le> length ps"
proof -
  note L = pay_largest_facts [OF l]
  have R: "length pays2 \<le> length pays1"
      "\<forall>p \<in> set pays1. 0 < pi_Amount p \<Longrightarrow> \<forall>p \<in> set pays2. 0 < pi_Amount p"
      "reuse \<Longrightarrow> pays2 = pays1 \<and> pays1 \<noteq> [] \<and> 0 < v1 \<and> outs2 \<noteq> [] \<and> Value (OutputNote (last outs2)) = v1"
      "\<not> reuse \<Longrightarrow> pays2 = [] \<or> unat v1 + pays_val pays2 = pays_val pays1"
    using pay_rest_facts [OF r] by metis+
  show "\<forall>q \<in> set pays2. 0 < pi_Amount q" by (rule R(2) [OF L(6) [OF pos]])
  show "length pays2 \<le> length ps" using R(1) L(3) by simp
  show "\<not> reuse \<Longrightarrow> pays2 = [] \<or> pays_val pays2 + unat v = pays_val ps" using R(4) L(2) by auto
  have le: "v1 \<le> v" using l by (cases rule: pay_largest_cases) (auto simp: word_sub_le)
  assume reuse
  with R(3) have p: "pays2 = pays1" "pays1 \<noteq> []" "0 < v1" "outs2 \<noteq> []" "Value (OutputNote (last outs2)) = v1" by auto
  have "ps \<noteq> []" using p(2) L(3) by auto
  then show "pays_val pays2 + unat v = pays_val ps + unat v1 \<and> length pays2 < length ps \<and> outs2 \<noteq> [] \<and>
      Value (OutputNote (last outs2)) = v1 \<and> v1 \<le> v"
    using p L(2) L(4) le by simp
qed

lemma create_round_progress:
  assumes "create_round e p st = Some (Ok st')" and f: "funded p st" and nd: "\<not> create_done st"
  shows "funded p st' \<and> work st' < work st"
  using assms(1)
proof (rule create_round_Ok)
  fix chosen rest outs1 pays1 v1 outs2 pays2 reuse dummies outs'
  let ?ps = "sort_key pi_Amount (st_pays st)" and ?v = "input_value chosen - fee_due p st"
  assume c: "choose_inputs (cp_key p) (rev (sort_key (Value \<circ> cn_note) (st_notes st))) [] = (chosen, rest)"
    and fee: "fee_due p st \<le> input_value chosen"
    and l: "pay_largest ?ps ?v = (outs1, pays1, v1)"
    and r: "pay_rest (change_addr e p) pays1 v1 outs1 = (outs2, pays2, reuse)"
    and m: "map pays_of outs' = map pays_of (outs2 @ dummies)"
    and st': "st_notes st' = rev rest @ (if reuse
        then [\<lparr>cn_note = OutputNote (outs' ! (length outs2 - 1)), cn_chainID = cp_chain p\<rparr>] else [])"
      "st_pays st' = pays2" and d: "Descs (st_tx st') \<noteq> []"
  have n0: "st_notes st \<noteq> []" using nd funded_no_notes [OF f] by (auto simp: create_done_def)
  have pos: "\<forall>q \<in> set ?ps. 0 < pi_Amount q" using f by (simp add: funded_def)
  note R = pay_round [OF l r pos]
  have "rev (sort_key (Value \<circ> cn_note) (st_notes st)) \<noteq> []"
    using n0 by (metis length_0_conv length_rev length_sort)
  then have sum: "inputs_val chosen + notes_val rest = notes_val (st_notes st)" and rl: "length rest < length (st_notes st)"
    using choose_inputs_val [OF c] choose_inputs_takes [OF c] by (simp_all add: notes_val_sort inputs_val_def)
  have iv: "unat (input_value chosen) = inputs_val chosen"
    by (rule input_value_val) (use f sum in \<open>simp add: funded_def\<close>)
  have uv: "unat ?v + unat (fee_due p st) = inputs_val chosen"
    using fee iv by (simp add: unat_diff word_le_nat_alt)
  have change: "note_val (OutputNote (outs' ! (length outs2 - 1))) = unat v1" if reuse
  proof -
    have o: "outs2 \<noteq> []" "Value (OutputNote (last outs2)) = v1" using R(2) that by auto
    have "length outs' = length (outs2 @ dummies)" using m by (rule map_eq_imp_length_eq)
    then have lt: "length outs2 - 1 < length outs'" using o(1) by (cases outs2) auto
    then have "pays_of (outs' ! (length outs2 - 1)) = map pays_of (outs2 @ dummies) ! (length outs2 - 1)"
      unfolding m [symmetric] by simp
    with o show ?thesis by (simp add: nth_append last_conv_nth)
  qed
  have nv: "notes_val (st_notes st') = notes_val rest + (if reuse then unat v1 else 0)"
    using change by (auto simp: st' notes_val_def rev_map [symmetric])
  have "unat v1 \<le> unat ?v" if reuse using R(2) that by (simp add: word_le_nat_alt)
  then have fu: "funded p st'"
    using f R(1) R(2) R(3) uv sum d unfolding funded_def nv st'(2) by (cases reuse) (auto simp: sort_key_sums)
  have "work st' < work st" using R(2) R(4) rl by (cases reuse) (auto simp: st')
  with fu show ?thesis by simp
qed

subsection \<open>The loop\<close>

lemma create_loop_pays:
  assumes ret: "create_loop e p st = Some (Ok st')" and a: "a \<noteq> Pk (change_addr e p)"
  shows "st_pays st' = [] \<and> paid_to a (tx_notes (st_tx st')) = paid_to a (tx_notes (st_tx st)) + due_to a (st_pays st)"
proof -
  let ?P = "\<lambda>(e :: env) (p :: cparams) (st :: cstate) (y :: (create_error, cstate) res). \<forall>st'. y = Ok st' \<longrightarrow> a \<noteq> Pk (change_addr e p) \<longrightarrow> st_pays st' = [] \<and>
      paid_to a (tx_notes (st_tx st')) = paid_to a (tx_notes (st_tx st)) + due_to a (st_pays st)"
  have "?P e p st (Ok st')"
  proof (rule create_loop.raw_induct [where P = ?P, OF _ ret])
    fix f e p st y
    assume IH: "\<And>e p st y. f e p st = Some y \<Longrightarrow> ?P e p st y"
      and eq: "(if create_done st then Some (Ok st)
        else case create_round e p st of None \<Rightarrow> None | Some (Ok st') \<Rightarrow> f e p st'
          | Some (Err er) \<Rightarrow> Some (Err er) | Some Panic \<Rightarrow> Some Panic) = Some y"
    show "?P e p st y"
    proof (cases "create_done st")
      case True
      then show ?thesis using eq by (auto simp: create_done_def)
    next
      case nd: False
      show ?thesis
      proof (cases "\<exists>st1. create_round e p st = Some (Ok st1)")
        case True
        then obtain st1 where Ok: "create_round e p st = Some (Ok st1)" by blast
        then have "?P e p st1 y" using eq nd IH by simp
        then show ?thesis using create_round_pays [OF Ok] by fastforce
      qed (use eq nd in \<open>auto split: option.splits res.splits\<close>)
    qed
  qed
  then show ?thesis using a by simp
qed

text \<open>Without notes and with payments left a round only adds an empty description: the loop never
  ends.\<close>

lemma create_loop_stuck:
  assumes "st_notes st = []" and "st_pays st \<noteq> []"
    and round: "\<And>s. st_notes s = [] \<Longrightarrow> st_pays s \<noteq> [] \<Longrightarrow>
      \<exists>s'. create_round e p s = Some (Ok s') \<and> st_notes s' = [] \<and> st_pays s' \<noteq> []"
  shows "create_loop e p st = None"
proof (rule ccontr)
  let ?P = "\<lambda>e' p' (s :: cstate) (y :: (create_error, cstate) res). e' = e \<longrightarrow> p' = p \<longrightarrow> \<not> (st_notes s = [] \<and> st_pays s \<noteq> [])"
  assume "create_loop e p st \<noteq> None"
  then obtain y where ret: "create_loop e p st = Some y" by blast
  have "?P e p st y"
  proof (rule create_loop.raw_induct [where P = ?P, OF _ ret])
    fix f e' p' s y
    assume IH: "\<And>e p st y. f e p st = Some y \<Longrightarrow> ?P e p st y"
      and eq: "(if create_done s then Some (Ok s)
        else case create_round e' p' s of None \<Rightarrow> None | Some (Ok st') \<Rightarrow> f e' p' st'
          | Some (Err er) \<Rightarrow> Some (Err er) | Some Panic \<Rightarrow> Some Panic) = Some y"
    show "?P e' p' s y"
    proof (intro impI notI)
      assume s: "e' = e" "p' = p" "st_notes s = [] \<and> st_pays s \<noteq> []"
      then obtain s' where "create_round e p s = Some (Ok s')" "st_notes s' = [] \<and> st_pays s' \<noteq> []"
        using round by blast
      then show False using eq s IH by (auto simp: create_done_def)
    qed
  qed
  then show False using assms by simp
qed

subsection \<open>Rounds that succeed\<close>

lemma PRF_Some: "length x = 32 \<Longrightarrow> length y = 32 \<Longrightarrow> \<exists>w. PRF a b c d x y = Some w"
  by (cases x) (auto simp: PRF_def Let_def Sum256NoPad_eq)

lemma PRFs_Some:
  assumes "length x = 32" "length y = 32"
  shows "\<exists>w. GetNullifier x y = Some w" "\<exists>w. PRF_rho i x y = Some w" "\<exists>w. PRF_pk i x y = Some w"
  using PRF_Some [OF assms] by (simp_all add: GetNullifier_def PRF_nf_def PRF_rho_def PRF_pk_def)

text \<open>What the libraries behind \<open>env\<close> give: BLAKE2b digests and \<open>phi\<close> have 32 bytes, the hash of the empty
  seed is not above the order of the curve, and Go visits every key of a map once.\<close>

definition env_ok :: "env \<Rightarrow> bool" where
  "env_ok e \<longleftrightarrow> (\<forall>x. length (blake e x) = 32) \<and> int (big_SetBytes (HashB [])) \<le> cN (ec e) \<and>
     (\<forall>k. length (rand_phi e k) = 32) \<and> (\<forall>cs. mset (map_order e cs) = mset cs)"

lemma env_ok_order: "env_ok e \<Longrightarrow> map_order e [] = [] \<and> map_order e [c] = [c]"
  unfolding env_ok_def by (metis mset_single_iff_right mset.simps(1) mset_zero_iff mset.simps(2) add_mset_add_single add_0)

lemma createDummyNote_Some:
  "length key = 32 \<Longrightarrow> \<exists>d. createDummyNote e key rho r = Some d \<and> Value d = 0"
  using PRFs_Some(1) [of key "copy32 rho"] by (auto simp: createDummyNote_def)

lemma prove_inputs_Some:
  assumes "\<forall>i \<in> set inps. \<exists>k. Key i = Some k \<and> length k = 32"
  shows "\<exists>inps'. prove_inputs inps = Some inps' \<and> map Key inps' = map Key inps"
  using assms
proof (induction inps)
  case (Cons i inps)
  then obtain k inps' where "Key i = Some k" "length k = 32" "prove_inputs inps = Some inps'" "map Key inps' = map Key inps"
    by auto
  then show ?case using PRFs_Some(1) [of k "copy32 (Rho (InputNote i))"] by (auto simp: Let_def)
qed simp

lemma prove_outputs_Some:
  assumes "length phi = 32" "length hSig = 32"
  shows "\<exists>outs'. prove_outputs i phi hSig rs outs = Some outs'"
proof (induction outs arbitrary: i)
  case (Cons o1 outs)
  then obtain outs' where "prove_outputs (Suc i) phi hSig rs outs = Some outs'" by blast
  then show ?case using PRFs_Some(2) [OF assms, of i] by (auto simp: Let_def)
qed simp

lemma vmacs_Some:
  assumes "length hSig = 32"
  shows "\<forall>i \<in> set inps. \<exists>k. Key i = Some k \<Longrightarrow> \<exists>ms. vmacs n hSig inps = Some ms"
proof (induction inps arbitrary: n)
  case (Cons i inps)
  then obtain k ms where "Key i = Some k" "vmacs (Suc n) hSig inps = Some ms" by (meson list.set_intros)
  then show ?case using PRFs_Some(3) [OF _ assms, of "copy32 k" n] by auto
qed simp

lemma BuildNewJSDesc_succeeds:
  assumes e: "env_ok e" and g: "gather rtMap (order_inputs e inputMap) = Ok ([i0, i1], rts)"
    and k: "\<forall>i \<in> {i0, i1}. \<exists>k. Key i = Some k \<and> length k = 32" and o: "length outs = NumDescOutputs"
    and bal: "total_input reward [i0, i1] = total_output fee outs"
  shows "\<exists>tx' outs'. BuildNewJSDesc e n tx inputMap outs rtMap reward fee = Ok (tx', outs')"
proof -
  have b: "length (blake e x) = 32" and ph: "length (rand_phi e n) = 32" for x using e by (auto simp: env_ok_def)
  obtain ins where ins: "prove_inputs [i0, i1] = Some ins" "map Key ins = map Key [i0, i1]"
    using prove_inputs_Some [of "[i0, i1]"] k by auto
  then obtain j0 j1 where j: "ins = [j0, j1]" "Key j0 = Key i0" "Key j1 = Key i1" by auto
  define hSig where "hSig = HSigCRH (blake e) (rand_seed e n) (Nf (InputNote j0)) (Nf (InputNote j1)) (elems (JSPubKey tx))"
  have h: "length hSig = 32" by (simp add: hSig_def HSigCRH_def b)
  obtain outs' where o': "prove_outputs 0 (rand_phi e n) hSig (rand_R e n) outs = Some outs'"
    using prove_outputs_Some [OF ph h] by blast
  obtain ms where ms: "vmacs 0 hSig [j0, j1] = Some ms"
    using vmacs_Some [OF h, of "[j0, j1]" 0] j k by auto
  have "Prove (blake e) (rand_R e n) [i0, i1] outs (elems (JSPubKey tx)) reward fee (rand_seed e n) (rand_phi e n)
      = Some (hSig, [j0, j1], outs')"
    using bal ins(1) j o' by (simp add: Prove_def hSig_def [symmetric] del: prove_inputs.simps prove_outputs.simps)
  then show ?thesis
    using g o ms by (simp add: BuildNewJSDesc_def NumDescInputs_def buildJSDescAndEncrypt_def del: vmacs.simps)
qed

lemma order_inputs_single: "env_ok e \<Longrightarrow> order_inputs e [(c, l)] = [(c, l)]"
  by (simp add: order_inputs_def env_ok_order)

lemma pad_outputs_Some:
  assumes "env_ok e"
  shows "\<exists>ds. pad_outputs e k n = Some (Ok ds) \<and> length ds = n \<and> (\<forall>d \<in> set ds. Value (OutputNote d) = 0)"
proof (induction n)
  case (Suc n)
  have k: "GenerateSpendingKey (ec e) [] = Some (HashB [])"
    using assms by (auto simp: env_ok_def GenerateSpendingKey_def spending_loop.simps)
  obtain d where "createDummyNote e (HashB []) (fst (rand_out e k n)) (snd (rand_out e k n)) = Some d" "Value d = 0"
    using createDummyNote_Some [of "HashB []" e] by fastforce
  with Suc k show ?case by (auto simp: CreateRandomJSOutput_def)
qed simp

text \<open>A round without notes: two dummy inputs, two dummy outputs, and the same payments again.\<close>

lemma create_round_no_notes:
  assumes e: "env_ok e" and key: "length (cp_key p) = 32" and fee: "fee_due p st = 0" and n: "st_notes st = []"
  shows "\<exists>st'. create_round e p st = Some (Ok st') \<and> st_notes st' = [] \<and> st_pays st' = sort_key pi_Amount (st_pays st)"
proof -
  let ?k = "length (Descs (st_tx st))" and ?c = "cp_chain p"
  let ?in = "\<lambda>d. \<lparr>WitnessPath = Some CreateDummyPath, Key = Some (cp_key p), InputNote = d\<rparr>"
  obtain d1 where d1: "createDummyNote e (cp_key p) (fst (rand_in e ?k 1)) (snd (rand_in e ?k 1)) = Some d1" "Value d1 = 0"
    using createDummyNote_Some [OF key] by blast
  obtain d0 where d0: "createDummyNote e (cp_key p) (fst (rand_in e ?k 0)) (snd (rand_in e ?k 0)) = Some d0" "Value d0 = 0"
    using createDummyNote_Some [OF key] by blast
  have "add_dummies e (cp_key p) ?c ?k 2 [] = Some [(?c, [?in d1, ?in d0])]"
    using d0 d1 by (simp add: numeral_2_eq_2)
  then have r: "round_inputs e p st = Ok ([(?c, [?in d1, ?in d0])], [?c \<mapsto> replicate 32 0], 0, [], 0)"
    using n fee env_ok_order [OF e] by (simp add: round_inputs_def input_value_def num_inputs_def NumDescInputs_def)
  obtain ds where ds: "pad_outputs e ?k NumDescOutputs = Some (Ok ds)" "length ds = NumDescOutputs"
      "\<forall>d \<in> set ds. Value (OutputNote d) = 0"
    using pad_outputs_Some [OF e] by blast
  have g: "gather [?c \<mapsto> replicate 32 0] (order_inputs e [(?c, [?in d1, ?in d0])])
      = Ok ([?in d1, ?in d0], [replicate 32 0, replicate 32 0])"
    by (simp add: order_inputs_single [OF e])
  have bal: "total_input 0 [?in d1, ?in d0] = total_output 0 ds"
    using d0 d1 ds(3) by (simp add: total_input_def total_output_def cong: map_cong)
  let ?tx = "if ?k = 0 then (st_tx st)\<lparr>Fee := cp_fee p\<rparr> else st_tx st"
  obtain tx' outs' where
    "BuildNewJSDesc e ?k ?tx [(?c, [?in d1, ?in d0])] ds [?c \<mapsto> replicate 32 0] 0 0 = Ok (tx', outs')"
    using BuildNewJSDesc_succeeds [OF e g _ ds(2) bal, of ?k ?tx] key by auto
  then show ?thesis
    using r ds(1) by (auto simp: create_round_def Let_def pay_largest_def pay_rest_def)
qed

lemma create_loop_hangs:
  assumes e: "env_ok e" "length (cp_key p) = 32" "cp_fee p = 0" and st: "st_notes st = []" "st_pays st \<noteq> []"
  shows "create_loop e p st = None"
proof (rule create_loop_stuck [OF st])
  fix s :: cstate
  assume s: "st_notes s = []" "st_pays s \<noteq> []"
  have "sort_key pi_Amount (st_pays s) \<noteq> []" using s(2) by (metis length_0_conv length_sort)
  then show "\<exists>s'. create_round e p s = Some (Ok s') \<and> st_notes s' = [] \<and> st_pays s' \<noteq> []"
    using create_round_no_notes [OF e(1,2) _ s(1)] e(3) by metis
qed

subsection \<open>Rounds do not panic\<close>

text \<open>What a call for the inputs keeps of them: the key and the value of every input, chain by chain.\<close>

abbreviation ins :: "chain_inputs \<Rightarrow> JSInput list" where
  "ins m \<equiv> concat (map snd m)"

abbreviation kv :: "JSInput list \<Rightarrow> (bytes option \<times> u64) list" where
  "kv \<equiv> map (\<lambda>i. (Key i, Value (InputNote i)))"

abbreviation kvm :: "chain_inputs \<Rightarrow> (byte \<times> (bytes option \<times> u64) list) list" where
  "kvm \<equiv> map (\<lambda>(c, l). (c, kv l))"

definition inputs_ok :: "bytes \<Rightarrow> chain_inputs \<Rightarrow> bool" where
  "inputs_ok key m \<longleftrightarrow> distinct (map fst m) \<and> (\<forall>(c, l) \<in> set m. l \<noteq> []) \<and> (\<forall>i \<in> set (ins m). Key i = Some key)"

lemma add_input_ins: "set (ins (add_input c inp m)) = insert inp (set (ins m))"
  by (induction c inp m rule: add_input.induct) auto

lemma add_input_chains: "fst ` set (add_input c inp m) = insert c (fst ` set m)"
  by (induction c inp m rule: add_input.induct) auto

lemma add_input_nonempty: "\<forall>(c, l) \<in> set m. l \<noteq> [] \<Longrightarrow> \<forall>(c, l) \<in> set (add_input c' inp m). l \<noteq> []"
  by (induction c' inp m rule: add_input.induct) auto

lemma add_input_distinct: "distinct (map fst m) \<Longrightarrow> distinct (map fst (add_input c inp m))"
  by (induction c inp m rule: add_input.induct) (auto simp: add_input_chains)

lemma add_input_ok: "inputs_ok key m \<Longrightarrow> Key inp = Some key \<Longrightarrow> inputs_ok key (add_input c inp m)"
  unfolding inputs_ok_def using add_input_distinct add_input_nonempty add_input_ins by (metis insertE)

lemma input_value_add: "input_value (add_input c inp m) = input_value m + Value (InputNote inp)"
  by (induction c inp m rule: add_input.induct) (auto simp: input_value_def)

lemma inputs_ok_Nil [simp]: "inputs_ok key []"
  by (simp add: inputs_ok_def)

lemma choose_inputs_ok:
  "choose_inputs key ns m = (m', rest) \<Longrightarrow> inputs_ok key m \<Longrightarrow>
   inputs_ok key m' \<and> fst ` set m' \<subseteq> fst ` set m \<union> cn_chainID ` set ns"
proof (induction key ns m rule: choose_inputs.induct)
  case (2 key cn cns m)
  show ?case
  proof (cases "length m < NumDescInputs")
    case True
    let ?m = "add_input (cn_chainID cn) \<lparr>WitnessPath = None, Key = Some key, InputNote = cn_note cn\<rparr> m"
    have "inputs_ok key ?m" by (rule add_input_ok [OF 2(3)]) simp
    from 2(1) [OF True _ this] show ?thesis using 2(2) True by (simp add: add_input_chains)
  qed (use 2 in auto)
qed auto

lemma add_dummies_facts:
  "length key = 32 \<Longrightarrow> \<forall>i \<in> set (ins m). Key i = Some key \<and> Value (InputNote i) = 0 \<Longrightarrow>
   \<exists>ds. add_dummies e key c k n m = Some ds \<and> (\<forall>i \<in> set (ins ds). Key i = Some key \<and> Value (InputNote i) = 0)"
proof (induction n arbitrary: m)
  case (Suc n)
  obtain d where d: "createDummyNote e key (fst (rand_in e k n)) (snd (rand_in e k n)) = Some d" "Value d = 0"
    using createDummyNote_Some [OF Suc.prems(1)] by blast
  have "\<forall>i \<in> set (ins (add_input c \<lparr>WitnessPath = Some CreateDummyPath, Key = Some key, InputNote = d\<rparr> m)).
      Key i = Some key \<and> Value (InputNote i) = 0"
    unfolding add_input_ins using Suc.prems(2) d(2) by simp
  from Suc.IH [OF Suc.prems(1) this] show ?case by (simp add: d(1))
qed simp

lemma fold_add_input_ok:
  "inputs_ok key m \<Longrightarrow> \<forall>i \<in> set l. Key i = Some key \<and> Value (InputNote i) = 0 \<Longrightarrow>
   inputs_ok key (fold (add_input c) l m) \<and> input_value (fold (add_input c) l m) = input_value m"
  by (induction l arbitrary: m) (auto simp: add_input_ok input_value_add)

lemma merge_inputs_ok:
  "inputs_ok key m \<Longrightarrow> \<forall>i \<in> set (ins ds). Key i = Some key \<and> Value (InputNote i) = 0 \<Longrightarrow>
   inputs_ok key (fold (\<lambda>(c, l) m. fold (add_input c) l m) ds m) \<and>
   input_value (fold (\<lambda>(c, l) m. fold (add_input c) l m) ds m) = input_value m"
proof (induction ds arbitrary: m)
  case (Cons d ds)
  obtain c l where d: "d = (c, l)" by fastforce
  have m1: "inputs_ok key (fold (add_input c) l m)" "input_value (fold (add_input c) l m) = input_value m"
    using fold_add_input_ok [OF Cons.prems(1)] Cons.prems(2) by (auto simp: d)
  show ?case using Cons.IH [OF m1(1)] Cons.prems(2) m1(2) by (simp add: d)
qed simp

lemma check_chain_keeps:
  "check_chain c cms l \<noteq> Panic" "check_chain c cms l = Ok l' \<Longrightarrow> kv l' = kv l"
  by (induction l arbitrary: l') (auto simp: Let_def and_then_Ok_iff and_then_Panic_iff split: if_splits)

lemma check_commitments_keeps:
  "check_commitments cms m \<noteq> Panic" "check_commitments cms m = Ok m' \<Longrightarrow> kvm m' = kvm m"
  by (induction m arbitrary: m')
    (auto simp: and_then_Ok_iff and_then_Panic_iff check_chain_keeps dest: check_chain_keeps(2))

lemma kvm_facts:
  assumes "kvm m' = kvm m"
  shows "map fst m' = map fst m" "input_value m' = input_value m" "inputs_ok key m' = inputs_ok key m"
proof -
  have f: "map fst m = map fst (kvm m)" and k: "map (map fst \<circ> snd) (kvm m) = map (map Key \<circ> snd) m"
    and v: "map (map snd \<circ> snd) (kvm m) = map (map (Value \<circ> InputNote) \<circ> snd) m" for m :: chain_inputs
    by (auto simp: comp_def)
  show d: "map fst m' = map fst m" unfolding f assms ..
  have c: "map h (ins m) = concat (map (map h \<circ> snd) m)" for h :: "JSInput \<Rightarrow> 'z" and m
    by (simp add: map_concat comp_def)
  have "map (Value \<circ> InputNote) (ins m') = map (Value \<circ> InputNote) (ins m)"
    unfolding c v [symmetric] assms ..
  then show "input_value m' = input_value m" by (simp add: input_value_def)
  have keys: "map Key (ins m') = map Key (ins m)" unfolding c k [symmetric] assms ..
  have key: "(\<forall>i \<in> set (ins m). Key i = Some key) \<longleftrightarrow> set (map Key (ins m)) \<subseteq> {Some key}" for m
    by auto
  have ne: "(\<forall>(c, l) \<in> set m. l \<noteq> []) \<longleftrightarrow> [] \<notin> snd ` set (kvm m)" for m :: chain_inputs
    by (force simp: image_iff)
  show "inputs_ok key m' = inputs_ok key m"
    unfolding inputs_ok_def d key keys ne assms ..
qed

lemma set_paths_keeps:
  "set_paths ns ws = Ok ns' \<Longrightarrow> length ns = length ws \<Longrightarrow> kv ns' = kv ns"
  by (induction ns ws arbitrary: ns' rule: set_paths.induct) (auto simp: and_then_Ok_iff)

lemma BuildWitnessPath_keeps:
  assumes "length cms \<le> 2 ^ IncMerkleTreeHeight"
  shows "inps \<noteq> [] \<Longrightarrow> BuildWitnessPath inps cms \<noteq> Panic"
    and "BuildWitnessPath inps cms = Ok (rt, inps') \<Longrightarrow> kv inps' = kv inps"
proof -
  show "inps \<noteq> [] \<Longrightarrow> BuildWitnessPath inps cms \<noteq> Panic"
    using BuildWitnessPath_errors [OF assms, of inps] by (auto split: if_splits)
  assume ok: "BuildWitnessPath inps cms = Ok (rt, inps')"
  then obtain ws where "list_all2 (tracks 0 cms) inps ws"
    "BuildWitnessPath inps cms = and_then (set_paths inps ws)
        (\<lambda>inps'. if inps' = [] then Panic else Ok (troot IncMerkleTreeHeight (map copy32 cms), inps'))"
    using BuildWitnessPath_loop [OF assms, of inps] by (auto split: if_splits)
  then have "set_paths inps ws = Ok inps'" "length inps = length ws"
    using ok by (cases "set_paths inps ws", auto dest: list_all2_lengthD split: if_splits)+
  then show "kv inps' = kv inps" by (rule set_paths_keeps)
qed

lemma BuildWitnessPathMultiChain_keeps:
  assumes "\<forall>c. length (cms c) \<le> 2 ^ IncMerkleTreeHeight" and "\<forall>c l. inputs c = Some l \<longrightarrow> l \<noteq> []"
  shows "BuildWitnessPathMultiChain cs inputs cms \<noteq> Panic"
    and "BuildWitnessPathMultiChain cs inputs cms = Ok (rts, built) \<Longrightarrow> map_option kv (built c) = map_option kv (inputs c)"
proof (induction cs arbitrary: rts built)
  case (Cons c' cs)
  note keeps = BuildWitnessPath_keeps [OF assms(1) [rule_format]]
  {
    case 1
    show ?case using Cons.IH(1) keeps(1) assms(2) by (auto simp: and_then_Panic_iff split: option.splits)
  next
    case 2
    then show ?case using Cons.IH(2) keeps(2)
      by (fastforce simp: and_then_Ok_iff split: option.splits)
  }
qed simp_all

lemma with_paths_keeps:
  assumes "distinct (map fst m)" and "\<And>c. map_option kv (built c) = map_option kv (map_of m c)"
  shows "kvm (map (\<lambda>(c, l). (c, case built c of None \<Rightarrow> l | Some l' \<Rightarrow> l')) m) = kvm m"
proof -
  have "kv (case built c of None \<Rightarrow> l | Some l' \<Rightarrow> l') = kv l" if "(c, l) \<in> set m" for c l
  proof -
    have "map_of m c = Some l" using assms(1) that by simp
    then show ?thesis using assms(2) [of c] by auto
  qed
  then show ?thesis by (auto simp: comp_def)
qed

lemma check_anchors_no_panic: "\<forall>c \<in> set cs. rts c \<noteq> None \<Longrightarrow> check_anchors rts newRts cs \<noteq> Panic"
  by (induction cs) (auto split: option.splits)

text \<open>The inputs of a round: the chosen notes and dummies, all with the key of the sender, and their
  values add up to what the round has to spend and the fee.\<close>

lemma round_inputs_no_panic:
  assumes e: "env_ok e" and key: "length (cp_key p) = 32"
    and cms: "\<forall>c. length (st_cms st c) \<le> 2 ^ IncMerkleTreeHeight"
    and rts: "Descs (st_tx st) = [] \<Longrightarrow> \<forall>n \<in> set (st_notes st). cp_rts p (cn_chainID n) \<noteq> None"
  shows "round_inputs e p st \<noteq> Panic"
    and "round_inputs e p st = Ok (inputs, anchor, v, ns, feeApply) \<Longrightarrow>
      inputs_ok (cp_key p) inputs \<and> input_value inputs = v + feeApply"
proof -
  let ?ns = "rev (sort_key (Value \<circ> cn_note) (st_notes st))" and ?k = "length (Descs (st_tx st))"
  obtain chosen rest where c: "choose_inputs (cp_key p) ?ns [] = (chosen, rest)" by fastforce
  note ok = choose_inputs_ok [OF c inputs_ok_Nil]
  obtain ds where ds: "add_dummies e (cp_key p) (cp_chain p) ?k (NumDescInputs - num_inputs chosen) [] = Some ds"
    and z: "\<forall>i \<in> set (ins ds). Key i = Some (cp_key p) \<and> Value (InputNote i) = 0"
    using add_dummies_facts [OF key, of "[]" e "cp_chain p" ?k "NumDescInputs - num_inputs chosen"] by auto
  have chk: "inputs_ok (cp_key p) m" "map fst m = map fst chosen" "input_value m = input_value chosen"
      "\<forall>c l. map_of m c = Some l \<longrightarrow> l \<noteq> []" "distinct (map fst m)"
    if "check_commitments (st_cms st) chosen = Ok m" for m
  proof -
    note f = kvm_facts [OF check_commitments_keeps(2) [OF that]]
    show "map fst m = map fst chosen" "input_value m = input_value chosen" by (rule f)+
    show m: "inputs_ok (cp_key p) m" using f(3) ok by blast
    show "\<forall>c l. map_of m c = Some l \<longrightarrow> l \<noteq> []" "distinct (map fst m)"
      using m by (auto simp: inputs_ok_def dest: map_of_SomeD)
  qed
  have an: "check_anchors (cp_rts p) newRts (map_order e (map fst chosen)) \<noteq> Panic" if "Descs (st_tx st) = []" for newRts
  proof (rule check_anchors_no_panic)
    have "set (map_order e (map fst chosen)) = set (map fst chosen)"
      using e unfolding env_ok_def by (metis mset_eq_setD)
    then show "\<forall>c \<in> set (map_order e (map fst chosen)). cp_rts p c \<noteq> None"
      using ok rts [OF that] by auto
  qed
  show "round_inputs e p st \<noteq> Panic"
    using check_commitments_keeps(1) [of "st_cms st" chosen] chk(2,4) an BuildWitnessPathMultiChain_keeps(1) [OF cms]
    by (auto simp: round_inputs_def Let_def c ds and_then_Panic_iff map_err_Panic_iff)
  assume "round_inputs e p st = Ok (inputs, anchor, v, ns, feeApply)"
  then obtain m newRts built where m: "check_commitments (st_cms st) chosen = Ok m"
    and b: "BuildWitnessPathMultiChain (map_order e (map fst m)) (map_of m) (st_cms st) = Ok (newRts, built)"
    and i: "inputs = fold (\<lambda>(c, l) m. fold (add_input c) l m) ds
       (map (\<lambda>(c, l). (c, case built c of None \<Rightarrow> l | Some l' \<Rightarrow> l')) m)"
    and v: "v = input_value chosen - feeApply"
    by (auto simp: round_inputs_def Let_def c ds and_then_Ok_iff map_err_Ok_iff split: if_splits)
  have kvm: "kvm (map (\<lambda>(c, l). (c, case built c of None \<Rightarrow> l | Some l' \<Rightarrow> l')) m) = kvm m"
    by (rule with_paths_keeps [OF chk(5) [OF m] BuildWitnessPathMultiChain_keeps(2) [OF cms chk(4) [OF m] b]])
  show "inputs_ok (cp_key p) inputs \<and> input_value inputs = v + feeApply"
    using merge_inputs_ok [OF _ z] kvm_facts [OF kvm] chk(1,3) [OF m] unfolding i v by simp
qed

lemma gather_facts:
  "gather rtMap m \<noteq> Panic" "gather rtMap m = Ok (is, rts) \<Longrightarrow> is = ins m"
  by (induction rtMap m arbitrary: "is" rts rule: gather.induct)
    (auto simp: and_then_Ok_iff and_then_Panic_iff split: option.splits)

lemma order_inputs_mset:
  assumes "env_ok e" and "distinct (map fst m)"
  shows "mset (ins (order_inputs e m)) = mset (ins m)"
proof -
  let ?f = "\<lambda>c. case map_of m c of None \<Rightarrow> [] | Some l \<Rightarrow> l"
  have mset: "mset (concat (map h xs)) = sum_mset (image_mset (mset \<circ> h) (mset xs))" for h :: "byte \<Rightarrow> JSInput list" and xs
    by (induction xs) auto
  have "ins (order_inputs e m) = concat (map ?f (map_order e (map fst m)))"
    by (simp add: order_inputs_def comp_def)
  moreover have "mset (map_order e (map fst m)) = mset (map fst m)" using assms(1) by (simp add: env_ok_def)
  moreover have "map ?f (map fst m) = map snd m" using assms(2) by (auto simp: comp_def)
  ultimately show ?thesis by (metis mset)
qed

lemma BuildNewJSDesc_no_panic:
  assumes e: "env_ok e" and i: "inputs_ok key m" "length key = 32"
    and bal: "reward + input_value m = total_output fee outs"
  shows "BuildNewJSDesc e k tx m outs rtMap reward fee \<noteq> Panic"
proof (cases "gather rtMap (order_inputs e m)")
  case (Ok g)
  obtain "is" rts where g: "gather rtMap (order_inputs e m) = Ok (is, rts)" using Ok by (cases g) simp
  have ms: "mset is = mset (ins m)"
    using gather_facts(2) [OF g] order_inputs_mset [OF e] i(1) by (simp add: inputs_ok_def)
  show ?thesis
  proof (cases "length is = NumDescInputs \<and> length outs = NumDescOutputs")
    case True
    then obtain i0 i1 where "is": "is = [i0, i1]"
      by (auto simp: NumDescInputs_def length_Suc_conv numeral_2_eq_2)
    have keys: "\<forall>i \<in> {i0, i1}. \<exists>k. Key i = Some k \<and> length k = 32"
      using mset_eq_setD [OF ms] i unfolding inputs_ok_def "is" by auto
    have "sum_list (map (Value \<circ> InputNote) is) = input_value m"
      unfolding input_value_def using ms by (metis mset_map sum_mset_sum_list)
    then have "total_input reward [i0, i1] = total_output fee outs"
      using bal by (simp add: total_input_def "is")
    then have "\<exists>tx' outs'. BuildNewJSDesc e k tx m outs rtMap reward fee = Ok (tx', outs')"
      by (rule BuildNewJSDesc_succeeds [OF e g [unfolded "is"] keys True [THEN conjunct2]])
    then show ?thesis by auto
  qed (auto simp: BuildNewJSDesc_def g)
qed (simp_all add: BuildNewJSDesc_def gather_facts(1))

text \<open>The outputs of a round pay out what it has to spend.\<close>

lemma pay_outputs_sum:
  assumes "pay_largest ps v = (outs1, pays1, v1)" and "pay_rest s pays1 v1 outs1 = (outs2, pays2, reuse)"
  shows "sum_list (map (Value \<circ> OutputNote) outs2) = v"
proof -
  have "sum_list (map (Value \<circ> OutputNote) outs1) + v1 = v"
    using assms(1) by (auto simp: pay_largest_def Let_def out_to_def split: if_splits)
  moreover have "sum_list (map (Value \<circ> OutputNote) outs2) = sum_list (map (Value \<circ> OutputNote) outs1) + v1"
    using assms(2) by (auto simp: pay_rest_def out_to_def word_gt_0 split: if_splits)
  ultimately show ?thesis by simp
qed

text \<open>A state from which a round cannot panic: there is room in the commitment trees for the
  commitments of all further rounds, and the anchors of the chains of all notes are known.\<close>

definition roomy :: "cparams \<Rightarrow> cstate \<Rightarrow> bool" where
  "roomy p st \<longleftrightarrow> (\<forall>c. length (st_cms st c) + 2 * work st \<le> 2 ^ IncMerkleTreeHeight) \<and>
     (Descs (st_tx st) = [] \<longrightarrow> (\<forall>n \<in> set (st_notes st). cp_rts p (cn_chainID n) \<noteq> None))"

lemma create_round_no_panic:
  assumes e: "env_ok e" and key: "length (cp_key p) = 32" and r: "roomy p st"
  shows "\<exists>r. create_round e p st = Some r \<and> r \<noteq> Panic"
proof -
  have cms: "\<forall>c. length (st_cms st c) \<le> 2 ^ IncMerkleTreeHeight"
    using r unfolding roomy_def by (meson add_leD1)
  note ri = round_inputs_no_panic [OF e key cms]
  have rts: "Descs (st_tx st) = [] \<Longrightarrow> \<forall>n \<in> set (st_notes st). cp_rts p (cn_chainID n) \<noteq> None"
    using r by (simp add: roomy_def)
  show ?thesis
  proof (cases "round_inputs e p st")
    case (Ok g)
    obtain inputs anchor v ns f where g: "round_inputs e p st = Ok (inputs, anchor, v, ns, f)" using Ok by (cases g) auto
    note i = ri(2) [OF rts g]
    let ?k = "length (Descs (st_tx st))"
    let ?tx = "if ?k = 0 then (st_tx st)\<lparr>Fee := cp_fee p\<rparr> else st_tx st"
    obtain outs1 pays1 v1 where l: "pay_largest (sort_key pi_Amount (st_pays st)) v = (outs1, pays1, v1)"
      by (cases "pay_largest (sort_key pi_Amount (st_pays st)) v") auto
    obtain outs2 pays2 reuse where s: "pay_rest (change_addr e p) pays1 v1 outs1 = (outs2, pays2, reuse)"
      by (cases "pay_rest (change_addr e p) pays1 v1 outs1") auto
    obtain ds where ds: "pad_outputs e ?k (NumDescOutputs - length outs2) = Some (Ok ds)"
        "\<forall>d \<in> set ds. Value (OutputNote d) = 0"
      using pad_outputs_Some [OF e] by blast
    have "sum_list (map (Value \<circ> OutputNote) ds) = 0" using ds(2) by (simp cong: map_cong)
    then have "0 + input_value inputs = total_output f (outs2 @ ds)"
      using i pay_outputs_sum [OF l s] by (simp add: total_output_def add.commute)
    then have "BuildNewJSDesc e ?k ?tx inputs (outs2 @ ds) anchor 0 f \<noteq> Panic"
      using BuildNewJSDesc_no_panic [OF e] i key by blast
    then show ?thesis
      by (auto simp: create_round_def Let_def g l s ds(1) and_then_Panic_iff map_err_Panic_iff)
  qed (use ri(1) [OF rts] in \<open>auto simp: create_round_def\<close>)
qed

lemma create_round_roomy:
  assumes "create_round e p st = Some (Ok st')" and r: "roomy p st" and w: "work st' < work st"
  shows "roomy p st'"
  using assms(1)
proof (rule create_round_Ok)
  fix outs' :: "JSOutput list"
  assume d: "Descs (st_tx st') \<noteq> []" and o: "length outs' = NumDescOutputs"
    and st': "st_cms st' = (st_cms st)(cp_chain p := st_cms st (cp_chain p) @ map (Cm \<circ> OutputNote) outs')"
  have "length (st_cms st' c) + 2 * work st' \<le> length (st_cms st c) + 2 * work st" for c
    using w o by (simp add: st' NumDescOutputs_def)
  then show ?thesis using r d unfolding roomy_def by (meson le_trans)
qed

lemma create_loop_returns:
  assumes e: "env_ok e" "length (cp_key p) = 32"
  shows "funded p st \<Longrightarrow> roomy p st \<Longrightarrow> \<exists>r. create_loop e p st = Some r \<and> r \<noteq> Panic"
proof (induction "work st" arbitrary: st rule: less_induct)
  case less
  show ?case
  proof (cases "create_done st")
    case False
    obtain r where r: "create_round e p st = Some r" "r \<noteq> Panic"
      using create_round_no_panic [OF e less.prems(2)] by blast
    show ?thesis
    proof (cases r)
      case (Ok st1)
      then have round: "create_round e p st = Some (Ok st1)" using r by simp
      then have f: "funded p st1" "work st1 < work st"
        using create_round_progress less.prems(1) False by blast+
      have "roomy p st1" by (rule create_round_roomy [OF round less.prems(2) f(2)])
      then show ?thesis using less.hyps [OF f(2,1)] round False by (simp add: create_loop.simps [of e p st])
    qed (use r False in \<open>simp_all add: create_loop.simps\<close>)
  qed (simp add: create_loop.simps)
qed

lemma SignTx_no_panic: "SignTx PS sign tx \<noteq> Panic"
  by (auto simp: SignTx_def Let_def split: option.splits)

subsection \<open>Properties\<close>

text \<open>Claim C16 (functional): a payment that is made is made exactly. If \<open>CreateTx\<close> returns a transaction,
  its notes give every public key other than that of the change address precisely the sum of the
  payments asked for it, however they were cut into join-splits.\<close>

theorem CreateTx_pays_exactly:
  assumes "CreateTx PS sign e now spk p paymentInfo usableTx commitments = Some (Ok tx)"
    and "a \<noteq> Pk (change_addr e p)"
  shows "paid_to a (tx_notes tx) = due_to a paymentInfo"
proof -
  let ?st = "\<lparr>st_notes = usable_notes usableTx, st_pays = paymentInfo, st_cms = commitments,
    st_tx = (CreateEmptyTx now spk TxNormalType)\<lparr>AddressLastByte := last (Pk (sender_addr e p))\<rparr>\<rparr>"
  obtain st where l: "create_loop e p ?st = Some (Ok st)" and s: "SignTx PS sign (st_tx st) = Ok tx"
    using assms(1) by (auto simp: CreateTx_def Let_def and_then_Ok_iff map_err_Ok_iff split: if_splits)
  have "tx_notes tx = tx_notes (st_tx st)"
    using s by (auto simp: SignTx_def SetTxID_def tx_notes_def Let_def and_then_Ok_iff split: if_splits option.splits)
  moreover have "tx_notes (st_tx ?st) = []" by (simp add: CreateEmptyTx_def tx_notes_def)
  ultimately show ?thesis using create_loop_pays [OF l assms(2)] by simp
qed

text \<open>Claim C17 (termination): \<open>CreateTx\<close> returns, with a transaction or an error and without a panic.
  The spending key has 32 bytes and a public key on the curve, every amount is positive, neither the
  notes nor the payments with the fee add up to \<open>2 ^ 64\<close>, the anchor of the chain of every note is
  given, the commitment trees have room for two commitments per note and payment, and the
  libraries behave as \<open>env_ok\<close> says; without the bounds on the amounts the loop need not end.\<close>

theorem CreateTx_returns:
  assumes "env_ok e" and "length (cp_key p) = 32" and "Pk (sender_addr e p) \<noteq> []"
    and "\<forall>q \<in> set paymentInfo. 0 < pi_Amount q"
    and "notes_val (usable_notes usableTx) < 2 ^ 64" and "pays_val paymentInfo + unat (cp_fee p) < 2 ^ 64"
    and "\<forall>n \<in> set (usable_notes usableTx). cp_rts p (cn_chainID n) \<noteq> None"
    and "\<forall>c. length (commitments c) + 2 * (length (usable_notes usableTx) + length paymentInfo) \<le> 2 ^ IncMerkleTreeHeight"
  shows "\<exists>r. CreateTx PS sign e now spk p paymentInfo usableTx commitments = Some r \<and>
    ((\<exists>tx. r = Ok tx) \<or> (\<exists>er. r = Err er))"
proof (cases "sum_list (map (Value \<circ> cn_note) (usable_notes usableTx)) < sum_list (map pi_Amount paymentInfo) + cp_fee p")
  case False
  let ?st = "\<lparr>st_notes = usable_notes usableTx, st_pays = paymentInfo, st_cms = commitments,
    st_tx = (CreateEmptyTx now spk TxNormalType)\<lparr>AddressLastByte := last (Pk (sender_addr e p))\<rparr>\<rparr>"
  have u: "unat (sum_list (map (Value \<circ> cn_note) (usable_notes usableTx))) = notes_val (usable_notes usableTx)"
    "unat (sum_list (map pi_Amount paymentInfo)) = pays_val paymentInfo"
    using assms(5,6) unat_sum_list_u64 [of "map (Value \<circ> cn_note) (usable_notes usableTx)"]
      unat_sum_list_u64 [of "map pi_Amount paymentInfo"] by (auto simp: notes_val_def pays_val_def comp_def)
  have "pays_val paymentInfo + unat (cp_fee p) \<le> notes_val (usable_notes usableTx)"
    using False assms(6) u by (simp add: word_less_nat_alt not_less unat_word_ariths)
  then have "funded p ?st" using assms(4,5) by (simp add: funded_def CreateEmptyTx_def)
  moreover have "roomy p ?st" using assms(7,8) by (simp add: roomy_def CreateEmptyTx_def)
  ultimately obtain r where r: "create_loop e p ?st = Some r" "r \<noteq> Panic"
    using create_loop_returns [OF assms(1,2)] by blast
  have np: "and_then r (\<lambda>st. map_err SignErr (SignTx PS sign (st_tx st))) \<noteq> Panic"
    using r(2) by (auto simp: and_then_Panic_iff map_err_Panic_iff SignTx_no_panic)
  then show ?thesis
    using r(1) False assms(3) by (cases "and_then r (\<lambda>st. map_err SignErr (SignTx PS sign (st_tx st)))") (simp_all add: CreateTx_def Let_def)
qed (simp add: CreateTx_def)

text \<open>\<open>CreateTx\<close> may never return. Without usable notes and without a fee, payments
  that add up to zero in 64 bits, such as one of amount zero or two of \<open>2 ^ 63\<close>, pass the check of the
  sums, and then every round adds two dummy inputs and two dummy outputs and pays nothing.\<close>

theorem CreateTx_hangs:
  assumes "env_ok e" and "length (cp_key p) = 32" and "Pk (sender_addr e p) \<noteq> []" and "cp_fee p = 0"
    and "usable_notes usableTx = []" and "paymentInfo \<noteq> []" and "sum_list (map pi_Amount paymentInfo) = 0"
  shows "CreateTx PS sign e now spk p paymentInfo usableTx commitments = None"
  using assms create_loop_hangs [OF assms(1,2,4)] by (simp add: CreateTx_def Let_def)

definition example_env :: env where
  "example_env = \<lparr>blake = \<lambda>_. replicate 32 1, ec = example_curve\<lparr>cN := 2 ^ 256\<rparr>, rand_in = \<lambda>_ _. (replicate 32 6, replicate 32 7),
     rand_out = \<lambda>_ _. (replicate 32 9, replicate 32 10), rand_seed = \<lambda>_. replicate 32 11,
     rand_phi = \<lambda>_. replicate 32 12, rand_R = \<lambda>_ _. replicate 32 13, rand_epk = \<lambda>_. replicate 32 14,
     map_order = \<lambda>cs. cs\<rparr>"

lemma example_pk: "GeneratePublicKey (ec example_env) k = 1 # replicate 32 0"
  by (simp add: example_env_def GeneratePublicKey_def CompressPoint_def example_curve_def paddedAppend_def isOdd_def
      PointCompressed_def bit_0)

lemma example_addrs:
  "Pk (ks_PaymentAddress (ImportFromPrivateKey (ec example_env) k)) = 1 # replicate 32 0"
  "Pk (change_addr example_env p) = 1 # replicate 32 0"
  by (simp_all add: ImportFromPrivateKey_def ImportFromPrivateKeyByte_def Let_def keyset_of_def
      GeneratePaymentAddress_def example_pk)

lemma example_env_ok: "env_ok example_env"
proof -
  have "big_SetBytes (HashB []) < 2 ^ 256" using big_SetBytes_less [of "HashB []"] by simp
  then have "int (big_SetBytes (HashB [])) \<le> 2 ^ 256" by (metis less_imp_le of_nat_le_iff of_nat_numeral of_nat_power)
  then show ?thesis by (simp add: env_ok_def example_env_def)
qed

definition example_payment :: "u64 \<Rightarrow> PaymentInfo" where
  "example_payment v = \<lparr>pi_PaymentAddress = example_address, pi_Amount = v\<rparr>"

definition example_cparams :: "(byte \<rightharpoonup> hash) \<Rightarrow> u64 \<Rightarrow> cparams" where
  "example_cparams rts fee = \<lparr>cp_key = replicate 32 1, cp_rts = rts, cp_chain = 0, cp_fee = fee\<rparr>"

theorem CreateTx_hangs_witness:
  "CreateTx (\<lambda>_. []) (\<lambda>_. Some (1, 1)) example_env 0 (5, 6) (example_cparams Map.empty 0)
     [example_payment (2 ^ 63), example_payment (2 ^ 63)] [] (\<lambda>_. []) = None"
  by (rule CreateTx_hangs [OF example_env_ok])
    (simp_all add: example_cparams_def example_payment_def example_addrs usable_notes_def)

text \<open>A whole run: one note of value 5 pays 3 and a fee of 1, and the change is 1.\<close>

definition example_usable :: "(byte \<times> Tx list) list" where
  "example_usable = [(0, [example_Tx\<lparr>Descs := [\<lparr>Anchor = [], Nullifiers = [], Commitments = [], Proof = None, EncryptedData = [],
     EphemeralPubKey = [], HSigSeed = [], Reward = 0, Vmacs = [], desc_Note = Some [example_note 5]\<rparr>]\<rparr>])]"

definition example_cms :: "byte \<Rightarrow> bytes list" where
  "example_cms c = [GetCommitment (example_note 5)]"

lemma BuildWitnessPath_single:
  "\<exists>rt path. BuildWitnessPath [i] [Cm (InputNote i)] = Ok (rt, [i\<lparr>WitnessPath := Some path\<rparr>])"
  by (simp add: BuildWitnessPath_def AddNewNode_def empty_tree_def Let_def) blast

lemma example_round:
  assumes "st_notes st = [\<lparr>cn_note = example_note 5, cn_chainID = 0\<rparr>]" "st_pays st = [example_payment 3]"
    "st_cms st = example_cms" "Descs (st_tx st) = []"
  shows "\<exists>rt st'. create_round example_env (example_cparams [0 \<mapsto> rt] 1) st = Some (Ok st') \<and> create_done st' \<and> JSSig (st_tx st') = JSSig (st_tx st)"
proof -
  note e = example_env_ok
  define n where "n = (example_note 5)\<lparr>Cm := GetCommitment (example_note 5)\<rparr>"
  define i where "i = \<lparr>WitnessPath = None, Key = Some (replicate 32 1), InputNote = n\<rparr>"
  obtain rt path where b: "BuildWitnessPath [i] [GetCommitment (example_note 5)] = Ok (rt, [i\<lparr>WitnessPath := Some path\<rparr>])"
    using BuildWitnessPath_single [of i] by (auto simp: i_def n_def)
  define p where "p = example_cparams [0 \<mapsto> rt] 1"
  obtain d where d: "createDummyNote example_env (replicate 32 1) (replicate 32 6) (replicate 32 7) = Some d" "Value d = 0"
    using createDummyNote_Some [of "replicate 32 1"] by (metis length_replicate)
  define j where "j = \<lparr>WitnessPath = Some CreateDummyPath, Key = Some (replicate 32 1), InputNote = d\<rparr>"
  let ?rt = "if rt = [] then replicate 32 0 else rt"
  have p: "cp_key p = replicate 32 1" "cp_rts p = [0 \<mapsto> rt]" "cp_chain p = 0" "cp_fee p = 1"
    by (simp_all add: p_def example_cparams_def)
  have ch: "choose_inputs (cp_key p) (rev (sort_key (Value \<circ> cn_note) (st_notes st))) [] =
      ([(0, [i\<lparr>InputNote := example_note 5\<rparr>])], [])"
    using assms(1) by (simp add: NumDescInputs_def p i_def)
  have cm: "check_commitments (st_cms st) [(0, [i\<lparr>InputNote := example_note 5\<rparr>])] = Ok [(0, [i])]"
    by (simp add: assms(3) example_cms_def i_def n_def)
  have w: "BuildWitnessPathMultiChain [0] (map_of [(0, [i])]) (st_cms st)
      = Ok ([0 \<mapsto> rt], [0 \<mapsto> [i\<lparr>WitnessPath := Some path\<rparr>]])"
    using b by (simp add: assms(3) example_cms_def)
  have dm: "add_dummies example_env (cp_key p) (cp_chain p) 0 1 [] = Some [(0, [j])]"
    using d by (simp add: p j_def example_env_def)
  have iv: "input_value [(0, [i\<lparr>InputNote := example_note 5\<rparr>])] = 5" "num_inputs [(0, [i\<lparr>InputNote := example_note 5\<rparr>])] = 1"
    by (simp_all add: input_value_def num_inputs_def example_note_def)
  have r: "round_inputs example_env p st = Ok ([(0, [i\<lparr>WitnessPath := Some path\<rparr>, j])], [0 \<mapsto> ?rt], 4, [], 1)"
    unfolding round_inputs_def Let_def ch using cm w dm iv env_ok_order [OF e, of 0]
    by (simp add: assms(4) p(2,3,4) NumDescInputs_def del: check_commitments.simps BuildWitnessPathMultiChain.simps
        add_dummies.simps)
  let ?outs = "[out_to example_address 3, out_to (change_addr example_env p) 1]"
  have g: "gather [0 \<mapsto> ?rt] (order_inputs example_env [(0, [i\<lparr>WitnessPath := Some path\<rparr>, j])])
      = Ok ([i\<lparr>WitnessPath := Some path\<rparr>, j], [?rt, ?rt])"
    by (simp add: order_inputs_single [OF e])
  have bal: "total_input 0 [i\<lparr>WitnessPath := Some path\<rparr>, j] = total_output 1 ?outs"
    using d(2) by (simp add: total_input_def total_output_def i_def j_def n_def example_note_def out_to_def)
  obtain tx' outs' where B: "BuildNewJSDesc example_env 0 ((st_tx st)\<lparr>Fee := cp_fee p\<rparr>) [(0, [i\<lparr>WitnessPath := Some path\<rparr>, j])]
      ?outs [0 \<mapsto> ?rt] 0 1 = Ok (tx', outs')"
    using BuildNewJSDesc_succeeds [OF e g _ _ bal, of 0 "(st_tx st)\<lparr>Fee := cp_fee p\<rparr>"]
    by (auto simp: i_def j_def NumDescOutputs_def)
  have "pay_largest [example_payment 3] 4 = ([out_to example_address 3], [], 1)"
    "pay_rest (change_addr example_env p) [] 1 [out_to example_address 3] = (?outs, [], False)"
    by (simp_all add: pay_largest_def pay_rest_def example_payment_def)
  then have "create_round example_env p st = Some (Ok \<lparr>st_notes = [], st_pays = [],
      st_cms = (st_cms st)(cp_chain p := st_cms st (cp_chain p) @ map (Cm \<circ> OutputNote) outs'), st_tx = tx'\<rparr>)"
    using r B assms by (simp add: create_round_def Let_def NumDescOutputs_def)
  then show ?thesis
    unfolding p_def
    apply (rule_tac x = rt in exI)
    apply (rule exI)
    apply (erule conjI)
    apply (simp add: create_done_def BuildNewJSDesc_Ok(5) [OF B])
    done
qed

lemma example_usable_notes: "usable_notes example_usable = [\<lparr>cn_note = example_note 5, cn_chainID = 0\<rparr>]"
  by (simp add: usable_notes_def example_usable_def)

lemma example_run:
  "\<exists>rt tx. CreateTx (\<lambda>_. []) (\<lambda>_. Some (1, 1)) example_env 0 (5, 6) (example_cparams [0 \<mapsto> rt] 1)
     [example_payment 3] example_usable example_cms = Some (Ok tx)"
proof -
  let ?tx = "(CreateEmptyTx 0 (5, 6) TxNormalType)\<lparr>AddressLastByte := last (Pk (ks_PaymentAddress (ImportFromPrivateKey (ec example_env) (replicate 32 1))))\<rparr>"
  let ?st = "\<lparr>st_notes = usable_notes example_usable, st_pays = [example_payment 3], st_cms = example_cms, st_tx = ?tx\<rparr>"
  note u = example_usable_notes
  obtain rt st' where r: "create_round example_env (example_cparams [0 \<mapsto> rt] 1) ?st = Some (Ok st')" and d: "create_done st'"
    and js: "JSSig (st_tx st') = None"
    using example_round [of ?st] by (auto simp: u CreateEmptyTx_def)
  have l: "create_loop example_env (example_cparams [0 \<mapsto> rt] 1) ?st = Some (Ok st')"
    using r d by (simp add: create_loop.simps create_done_def)
  have s: "\<exists>tx. SignTx (\<lambda>_. []) (\<lambda>_. Some (1, 1)) (st_tx st') = Ok tx"
    using js by (simp add: SignTx_def)
  have v: "sum_list (map (Value \<circ> cn_note) (usable_notes example_usable)) = 5" "sum_list (map pi_Amount [example_payment 3]) = 3"
    by (simp_all add: u example_note_def example_payment_def)
  have k: "cp_key (example_cparams rts f) = replicate 32 1" "cp_fee (example_cparams rts f) = f" for rts f
    by (simp_all add: example_cparams_def)
  have pk: "Pk (ks_PaymentAddress (ImportFromPrivateKey (ec example_env) (replicate 32 1))) \<noteq> []"
    by (simp add: example_addrs)
  have "CreateTx (\<lambda>_. []) (\<lambda>_. Some (1, 1)) example_env 0 (5, 6) (example_cparams [0 \<mapsto> rt] 1)
      [example_payment 3] example_usable example_cms = Some (map_err SignErr (SignTx (\<lambda>_. []) (\<lambda>_. Some (1, 1)) (st_tx st')))"
    unfolding CreateTx_def Let_def v k using pk l by simp
  then show ?thesis using s by fastforce
qed

theorem CreateTx_returns_witness:
  "\<exists>r. CreateTx (\<lambda>_. []) (\<lambda>_. Some (1, 1)) example_env 0 (5, 6) (example_cparams [0 \<mapsto> replicate 32 7] 1)
     [example_payment 3] example_usable example_cms = Some r \<and> ((\<exists>tx. r = Ok tx) \<or> (\<exists>er. r = Err er))"
  by (rule CreateTx_returns [OF example_env_ok])
    (simp_all add: example_cparams_def example_payment_def example_usable_notes notes_val_def pays_val_def example_addrs
       example_cms_def example_note_def IncMerkleTreeHeight_def)

theorem CreateTx_pays_exactly_witness:
  "\<exists>rt tx. CreateTx (\<lambda>_. []) (\<lambda>_. Some (1, 1)) example_env 0 (5, 6) (example_cparams [0 \<mapsto> rt] 1)
     [example_payment 3] example_usable example_cms = Some (Ok tx) \<and> paid_to (Pk example_address) (tx_notes tx) = 3"
proof -
  obtain rt tx where run: "CreateTx (\<lambda>_. []) (\<lambda>_. Some (1, 1)) example_env 0 (5, 6) (example_cparams [0 \<mapsto> rt] 1)
     [example_payment 3] example_usable example_cms = Some (Ok tx)" using example_run by blast
  moreover have "Pk example_address \<noteq> Pk (change_addr example_env (example_cparams [0 \<mapsto> rt] 1))"
    by (simp add: example_address_def example_addrs numeral_eq_Suc)
  ultimately have "paid_to (Pk example_address) (tx_notes tx) = due_to (Pk example_address) [example_payment 3]"
    by (rule CreateTx_pays_exactly)
  then show ?thesis using run by (auto simp: due_to_def example_payment_def)
qed

end
