(* ===== verification/WordList.thy ===== *)
theory WordList
  imports GoStrings Sha256
begin

text \<open>
  The English word list of \<open>wallet/wordlist.go\<close>: the string \<open>english\<close>, line by line, in parts of at most
  147 words, as the source has it: three words are capitalised and one line starts with a tab. The
  words are pairwise different.
\<close>

definition english_1 :: "string list" where
  "english_1 = [
    ''abandon'', ''ability'', ''able'', ''about'', ''above'', ''absent'', ''absorb'', ''abstract'', ''absurd'',
    ''abuse'', ''access'', ''accident'', ''account'', ''accuse'', ''achieve'', ''acid'', ''acoustic'',
    ''acquire'', ''across'', ''act'', ''action'', ''actor'', ''actress'', ''actual'', ''adapt'', ''add'',
    ''addict'', ''address'', ''adjust'', ''admit'', ''adult'', ''advance'', ''advice'', ''aerobic'',
    ''affair'', ''afford'', ''afraid'', ''again'', ''age'', ''agent'', ''agree'', ''ahead'', ''aim'', ''air'',
    ''airport'', ''aisle'', ''alarm'', ''album'', ''alcohol'', ''alert'', ''alien'', ''all'', ''alley'',
    ''allow'', ''almost'', ''alone'', ''alpha'', ''already'', ''also'', ''alter'', ''always'', ''amateur'',
    ''amazing'', ''among'', ''amount'', ''amused'', ''analyst'', ''anchor'', ''ancient'', ''anger'', ''angle'',
    ''angry'', ''animal'', ''ankle'', ''announce'', ''annual'', ''another'', ''answer'', ''antenna'',
    ''antique'', ''anxiety'', ''any'', ''apart'', ''apology'', ''appear'', ''apple'', ''approve'', ''april'',
    ''arch'', ''arctic'', ''area'', ''arena'', ''argue'', ''arm'', ''armed'', ''armor'', ''army'', ''around'',
    ''arrange'', ''arrest'', ''arrive'', ''arrow'', ''art'', ''artefact'', ''artist'', ''artwork'', ''ask'',
    ''aspect'', ''assault'', ''asset'', ''assist'', ''assume'', ''asthma'', ''athlete'', ''atom'', ''attack'',
    ''attend'', ''attitude'', ''attract'', ''auction'', ''audit'', ''august'', ''aunt'', ''author'', ''auto'',
    ''autumn'', ''average'', ''avocado'', ''avoid'', ''awake'', ''aware'', ''away'', ''awesome'', ''awful'',
    ''awkward'', ''axis'', ''baby'', ''bachelor'', ''bacon'', ''badge'', ''bag'', ''balance'', ''balcony'',
    ''ball'', ''bamboo'', ''banana'', ''banner'']"

definition english_2 :: "string list" where
  "english_2 = [
    ''bar'', ''barely'', ''bargain'', ''barrel'', ''base'', ''basic'', ''basket'', ''battle'', ''beach'',
    ''bean'', ''beauty'', ''because'', ''become'', ''beef'', ''before'', ''begin'', ''behave'', ''behind'',
    ''believe'', ''below'', ''belt'', ''bench'', ''benefit'', ''best'', ''betray'', ''better'', ''between'',
    ''beyond'', ''bicycle'', ''bid'', ''bike'', ''bind'', ''biology'', ''bird'', ''birth'', ''bitter'',
    ''black'', ''blade'', ''blame'', ''blanket'', ''blast'', ''bleak'', ''bless'', ''blind'', ''blood'',
    ''blossom'', ''blouse'', ''blue'', ''blur'', ''blush'', ''board'', ''boat'', ''body'', ''boil'', ''bomb'',
    ''bone'', ''bonus'', ''book'', ''boost'', ''border'', ''boring'', ''borrow'', ''boss'', ''bottom'',
    ''bounce'', ''box'', ''boy'', ''bracket'', ''brain'', ''brand'', ''brass'', ''brave'', ''bread'',
    ''breeze'', ''brick'', ''bridge'', ''brief'', ''bright'', ''bring'', ''brisk'', ''broccoli'', ''broken'',
    ''bronze'', ''broom'', ''brother'', ''brown'', ''brush'', ''bubble'', ''buddy'', ''budget'', ''buffalo'',
    ''build'', ''bulb'', ''bulk'', ''bullet'', ''bundle'', ''bunker'', ''burden'', ''burger'', ''burst'',
    ''bus'', ''business'', ''busy'', ''butter'', ''buyer'', ''buzz'', ''cabbage'', ''cabin'', ''cable'',
    ''cactus'', ''cage'', ''cake'', ''call'', ''calm'', ''camera'', ''camp'', ''can'', ''canal'', ''cancel'',
    ''candy'', ''cannon'', ''canoe'', ''canvas'', ''canyon'', ''capable'', ''capital'', ''captain'', ''car'',
    ''carbon'', ''card'', ''cargo'', ''carpet'', ''carry'', ''cart'', ''case'', ''cash'', ''casino'',
    ''castle'', ''casual'', ''cat'', ''catalog'', ''catch'', ''category'', ''cattle'', ''caught'', ''cause'',
    ''caution'']"

definition english_3 :: "string list" where
  "english_3 = [
    ''cave'', ''ceiling'', ''celery'', ''cement'', ''census'', ''century'', ''cereal'', ''certain'', ''chair'',
    ''chalk'', ''champion'', ''change'', ''chaos'', ''chapter'', ''charge'', ''chase'', ''chat'', ''cheap'',
    ''check'', ''cheese'', ''chef'', ''cherry'', ''chest'', ''chicken'', ''chief'', ''Child'', ''chimney'',
    ''choice'', ''choose'', ''chronic'', ''chuckle'', ''chunk'', ''churn'', ''cigar'', ''cinnamon'',
    ''circle'', ''citizen'', ''city'', ''civil'', ''claim'', ''clap'', ''clarify'', ''claw'', ''clay'',
    ''clean'', ''clerk'', ''clever'', ''click'', ''client'', ''cliff'', ''climb'', ''clinic'', ''clip'',
    ''clock'', ''clog'', ''close'', ''cloth'', ''cloud'', ''clown'', ''club'', ''clump'', ''cluster'',
    ''clutch'', ''coach'', ''coast'', ''coconut'', ''code'', ''coffee'', ''coil'', ''coin'', ''collect'',
    ''color'', ''column'', ''combine'', ''come'', ''comfort'', ''comic'', ''common'', ''company'', ''concert'',
    ''conduct'', ''confirm'', ''congress'', ''connect'', ''consider'', ''control'', ''convince'', ''cook'',
    ''cool'', ''copper'', ''copy'', ''coral'', ''core'', ''corn'', ''correct'', ''cost'', ''cotton'',
    ''couch'', ''country'', ''couple'', ''course'', ''cousin'', ''cover'', ''coyote'', ''crack'', ''cradle'',
    ''craft'', ''cram'', ''crane'', ''crash'', ''crater'', ''crawl'', ''crazy'', ''cream'', ''credit'',
    ''creek'', ''crew'', ''cricket'', ''crime'', ''crisp'', ''critic'', ''crop'', ''cross'', ''crouch'',
    ''crowd'', ''crucial'', ''cruel'', ''cruise'', ''crumble'', ''crunch'', ''crush'', ''cry'', ''crystal'',
    ''cube'', ''culture'', ''cup'', ''cupboard'', ''curious'', ''current'', ''curtain'', ''curve'',
    ''cushion'', ''custom'', ''cute'', ''cycle'', ''dad'', ''damage'']"

definition english_4 :: "string list" where
  "english_4 = [
    ''damp'', ''dance'', ''danger'', ''daring'', ''dash'', ''daughter'', ''dawn'', ''day'', ''deal'',
    ''debate'', ''debris'', ''decade'', ''december'', ''decide'', ''decline'', ''decorate'', ''decrease'',
    ''deer'', ''defense'', ''define'', ''defy'', ''degree'', ''delay'', ''deliver'', ''demand'', ''demise'',
    ''denial'', ''dentist'', ''deny'', ''depart'', ''depend'', ''deposit'', ''depth'', ''deputy'', ''derive'',
    ''describe'', ''desert'', ''design'', ''desk'', ''despair'', ''destroy'', ''detail'', ''detect'',
    ''develop'', ''device'', ''devote'', ''diagram'', ''dial'', ''diamond'', ''diary'', ''dice'', ''diesel'',
    ''diet'', ''differ'', ''digital'', ''dignity'', ''dilemma'', ''dinner'', ''dinosaur'', ''direct'',
    ''dirt'', ''disagree'', ''discover'', ''disease'', ''dish'', ''dismiss'', ''disorder'', ''display'',
    ''distance'', ''divert'', ''divide'', ''divorce'', ''dizzy'', ''doctor'', ''document'', ''dog'', ''doll'',
    ''dolphin'', ''domain'', ''donate'', ''donkey'', ''donor'', ''door'', ''dose'', ''double'', ''dove'',
    ''draft'', ''dragon'', ''drama'', ''drastic'', ''draw'', ''dream'', ''dress'', ''drift'', ''drill'',
    ''drink'', ''drip'', ''drive'', ''drop'', ''drum'', ''dry'', ''duck'', ''dumb'', ''dune'', ''during'',
    ''dust'', ''dutch'', ''duty'', ''dwarf'', ''dynamic'', ''eager'', ''eagle'', ''early'', ''earn'',
    ''earth'', ''easily'', ''east'', ''easy'', ''echo'', ''ecology'', ''economy'', ''edge'', ''edit'',
    ''educate'', ''effort'', ''egg'', ''eight'', ''either'', ''elbow'', ''elder'', ''electric'', ''elegant'',
    ''element'', ''elephant'', ''elevator'', ''elite'', ''else'', ''embark'', ''embody'', ''embrace'',
    ''emerge'', ''emotion'', ''employ'', ''empower'', ''empty'', ''enable'', ''enact'']"

definition english_5 :: "string list" where
  "english_5 = [
    ''end'', ''endless'', ''endorse'', ''enemy'', ''energy'', ''enforce'', ''engage'', ''engine'', ''enhance'',
    ''enjoy'', ''enlist'', ''enough'', ''enrich'', ''enroll'', ''ensure'', ''enter'', ''entire'', ''entry'',
    ''envelope'', ''episode'', ''equal'', ''equip'', ''era'', ''erase'', ''erode'', ''erosion'', ''error'',
    ''erupt'', ''escape'', ''essay'', ''essence'', ''estate'', ''eternal'', ''ethics'', ''evidence'', ''evil'',
    ''evoke'', ''evolve'', ''exact'', ''example'', ''excess'', ''exchange'', ''excite'', ''exclude'',
    ''excuse'', ''execute'', ''exercise'', ''exhaust'', ''exhibit'', ''exile'', ''exist'', ''exit'',
    ''exotic'', ''expand'', ''expect'', ''expire'', ''explain'', ''expose'', ''express'', ''extend'',
    ''extra'', ''eye'', ''eyebrow'', ''fabric'', ''face'', ''faculty'', ''fade'', ''faint'', ''faith'',
    ''fall'', ''false'', ''fame'', ''family'', ''famous'', ''fan'', ''fancy'', ''fantasy'', ''farm'',
    ''fashion'', ''fat'', ''fatal'', ''father'', ''fatigue'', ''fault'', ''favorite'', ''feature'',
    ''february'', ''federal'', ''fee'', ''feed'', ''feel'', ''female'', ''fence'', ''festival'', ''fetch'',
    ''fever'', ''few'', ''fiber'', ''fiction'', ''field'', ''figure'', ''file'', ''film'', ''filter'',
    ''final'', ''find'', ''fine'', ''finger'', ''finish'', ''fire'', ''firm'', ''first'', ''fiscal'', ''fish'',
    ''fit'', ''fitness'', ''fix'', ''flag'', ''flame'', ''flash'', ''flat'', ''flavor'', ''flee'', ''flight'',
    ''flip'', ''float'', ''flock'', ''floor'', ''flower'', ''fluid'', ''flush'', ''fly'', ''foam'', ''focus'',
    ''fog'', ''foil'', ''fold'', ''follow'', ''food'', ''foot'', ''force'', ''forest'', ''forget'', ''fork'',
    ''fortune'', ''forum'', ''forward'']"

definition english_6 :: "string list" where
  "english_6 = [
    ''fossil'', ''foster'', ''found'', ''fox'', ''fragile'', ''frame'', ''frequent'', ''fresh'', ''friend'',
    ''fringe'', ''frog'', ''front'', ''frost'', ''frown'', ''frozen'', ''fruit'', ''fuel'', ''fun'', ''funny'',
    ''furnace'', ''fury'', ''future'', ''gadget'', ''gain'', ''galaxy'', ''gallery'', ''game'', ''gap'',
    ''garage'', ''garbage'', ''garden'', ''garlic'', ''garment'', ''gas'', ''gasp'', ''gate'', ''gather'',
    ''gauge'', ''gaze'', ''general'', ''genius'', ''genre'', ''gentle'', ''genuine'', ''gesture'', ''ghost'',
    ''giant'', ''gift'', ''giggle'', ''ginger'', ''giraffe'', ''girl'', ''give'', ''glad'', ''glance'',
    ''glare'', ''glass'', ''glide'', ''glimpse'', ''globe'', ''gloom'', ''glory'', ''glove'', ''glow'',
    ''glue'', ''goat'', ''goddess'', ''gold'', ''good'', ''goose'', ''gorilla'', ''gospel'', ''gossip'',
    ''govern'', ''gown'', ''grab'', ''grace'', ''grain'', ''grant'', ''grape'', ''grass'', ''gravity'',
    ''great'', ''green'', ''grid'', ''grief'', ''grit'', ''grocery'', ''group'', ''grow'', ''grunt'',
    ''guard'', ''guess'', ''guide'', ''guilt'', ''guitar'', ''gun'', ''gym'', ''habit'', ''hair'', ''half'',
    ''hammer'', ''hamster'', ''hand'', ''happy'', ''harbor'', ''hard'', ''harsh'', ''harvest'', ''hat'',
    ''have'', ''hawk'', ''hazard'', ''head'', ''health'', ''heart'', ''heavy'', ''hedgehog'', ''height'',
    ''hello'', ''helmet'', ''help'', ''hen'', ''hero'', ''hidden'', ''high'', ''hill'', ''hint'', ''hip'',
    ''hire'', ''history'', ''hobby'', ''hockey'', ''hold'', ''hole'', ''holiday'', ''hollow'', ''home'',
    ''honey'', ''hood'', ''hope'', ''horn'', ''horror'', ''horse'', ''hospital'', ''host'', ''hotel'']"

definition english_7 :: "string list" where
  "english_7 = [
    ''hour'', ''hover'', ''hub'', ''huge'', ''human'', ''humble'', ''humor'', ''hundred'', ''hungry'',
    ''hunt'', ''hurdle'', ''hurry'', ''hurt'', ''husband'', ''hybrid'', ''ice'', ''icon'', ''idea'',
    ''identify'', ''idle'', ''ignore'', ''ill'', ''illegal'', ''illness'', ''image'', ''imitate'', ''immense'',
    ''immune'', ''impact'', ''impose'', ''improve'', ''impulse'', ''inch'', ''include'', ''income'',
    ''increase'', ''index'', ''indicate'', ''indoor'', ''industry'', ''infant'', ''inflict'', ''inform'',
    ''inhale'', ''inherit'', ''initial'', ''inject'', ''injury'', ''inmate'', ''inner'', ''innocent'',
    ''input'', ''inquiry'', ''insane'', ''insect'', ''inside'', ''inspire'', ''install'', ''intact'',
    ''interest'', ''into'', ''invest'', ''invite'', ''involve'', ''iron'', ''island'', ''isolate'', ''issue'',
    ''item'', ''ivory'', ''jacket'', ''jaguar'', ''jar'', ''jazz'', ''jealous'', ''jeans'', ''jelly'',
    ''jewel'', ''job'', ''join'', ''joke'', ''journey'', ''joy'', ''judge'', ''juice'', ''jump'', ''jungle'',
    ''junior'', ''junk'', ''just'', ''kangaroo'', ''keen'', ''keep'', ''ketchup'', ''Key'', ''kick'', ''kid'',
    ''kidney'', ''kind'', ''kingdom'', ''kiss'', ''kit'', ''kitchen'', ''kite'', ''kitten'', ''kiwi'',
    ''knee'', ''knife'', ''knock'', ''know'', ''lab'', ''label'', ''labor'', ''ladder'', ''lady'', ''lake'',
    ''lamp'', ''language'', ''laptop'', ''large'', ''later'', ''latin'', ''laugh'', ''laundry'', ''lava'',
    ''law'', ''lawn'', ''lawsuit'', ''layer'', ''lazy'', ''leader'', ''leaf'', ''learn'', ''leave'',
    ''lecture'', ''left'', ''leg'', ''legal'', ''legend'', ''leisure'', ''lemon'', ''lend'', ''length'',
    ''lens'', ''leopard'', ''lesson'', ''letter'']"

definition english_8 :: "string list" where
  "english_8 = [
    ''level'', ''liar'', ''liberty'', ''library'', ''license'', ''life'', ''lift'', ''light'', ''like'',
    ''limb'', ''limit'', ''link'', ''lion'', ''liquid'', ''list'', ''little'', ''live'', ''lizard'', ''load'',
    ''loan'', ''lobster'', ''local'', ''lock'', ''logic'', ''lonely'', ''long'', ''loop'', ''lottery'',
    ''loud'', ''lounge'', ''love'', ''loyal'', ''lucky'', ''luggage'', ''lumber'', ''lunar'', ''lunch'',
    ''luxury'', ''lyrics'', ''machine'', ''mad'', ''magic'', ''magnet'', ''maid'', ''mail'', ''main'',
    ''major'', ''make'', ''mammal'', ''man'', ''manage'', ''mandate'', ''mango'', ''mansion'', ''manual'',
    ''maple'', ''marble'', ''march'', ''margin'', ''marine'', ''market'', ''marriage'', ''mask'', ''mass'',
    ''master'', ''match'', ''material'', ''math'', ''matrix'', ''matter'', ''maximum'', ''maze'', ''meadow'',
    ''mean'', ''measure'', ''meat'', ''mechanic'', ''medal'', ''media'', ''melody'', ''melt'', ''member'',
    ''memory'', ''mention'', ''menu'', ''mercy'', ''merge'', ''merit'', ''merry'', ''mesh'', ''message'',
    ''metal'', ''method'', ''middle'', ''midnight'', ''milk'', ''million'', ''mimic'', ''mind'', ''minimum'',
    ''minor'', ''minute'', ''miracle'', ''mirror'', ''misery'', ''miss'', ''mistake'', ''mix'', ''mixed'',
    ''mixture'', ''mobile'', ''model'', ''modify'', ''mom'', ''moment'', ''monitor'', ''monkey'', ''monster'',
    ''month'', ''moon'', ''moral'', ''more'', ''morning'', ''mosquito'', ''mother'', ''motion'', ''motor'',
    ''mountain'', ''mouse'', ''move'', ''movie'', ''much'', ''muffin'', ''mule'', ''multiply'', ''muscle'',
    ''museum'', ''mushroom'', ''music'', ''must'', ''mutual'', ''myself'', ''mystery'', ''myth'', ''naive'',
    ''name'', ''napkin'']"

definition english_9 :: "string list" where
  "english_9 = [
    ''narrow'', ''nasty'', ''nation'', ''nature'', ''near'', ''neck'', ''need'', ''negative'', ''neglect'',
    ''neither'', ''nephew'', ''nerve'', ''nest'', ''net'', ''network'', ''neutral'', ''never'', ''news'',
    ''next'', ''nice'', ''night'', ''noble'', ''noise'', ''nominee'', ''noodle'', ''normal'', ''north'',
    ''nose'', ''notable'', ''note'', ''nothing'', ''notice'', ''novel'', ''now'', ''nuclear'', ''number'',
    ''nurse'', ''nut'', ''oak'', ''obey'', ''object'', ''oblige'', ''obscure'', ''observe'', ''obtain'',
    ''obvious'', ''occur'', ''ocean'', ''october'', ''odor'', ''off'', ''offer'', ''office'', ''often'',
    ''oil'', ''okay'', ''old'', ''olive'', ''olympic'', ''omit'', ''once'', ''one'', ''onion'', ''online'',
    ''only'', ''open'', ''opera'', ''opinion'', ''oppose'', ''option'', ''orange'', ''orbit'', ''orchard'',
    ''order'', ''ordinary'', ''organ'', ''orient'', ''original'', ''orphan'', ''ostrich'', ''other'',
    ''outdoor'', ''outer'', ''output'', ''outside'', ''oval'', ''oven'', ''over'', ''own'', ''owner'',
    ''oxygen'', ''oyster'', ''ozone'', ''pact'', ''paddle'', ''page'', ''pair'', ''palace'', ''palm'',
    ''panda'', ''panel'', ''panic'', ''panther'', ''paper'', ''parade'', ''parent'', ''park'', ''parrot'',
    ''party'', ''pass'', ''patch'', ''path'', ''patient'', ''patrol'', ''pattern'', ''pause'', ''pave'',
    ''payment'', ''peace'', ''peanut'', ''pear'', ''peasant'', ''pelican'', ''pen'', ''penalty'', ''pencil'',
    ''people'', ''pepper'', ''perfect'', ''permit'', ''person'', ''pet'', ''phone'', ''photo'', ''phrase'',
    ''physical'', ''piano'', ''picnic'', ''picture'', ''piece'', ''pig'', ''pigeon'', ''pill'', ''pilot'',
    ''pink'', ''pioneer'', ''pipe'']"

definition english_10 :: "string list" where
  "english_10 = [
    ''pistol'', ''pitch'', ''pizza'', ''place'', ''planet'', ''plastic'', ''plate'', ''play'', ''please'',
    ''pledge'', ''pluck'', ''plug'', ''plunge'', ''poem'', ''poet'', ''point'', ''polar'', ''pole'',
    ''police'', ''pond'', ''pony'', ''pool'', ''popular'', ''portion'', ''position'', ''possible'', ''post'',
    ''potato'', ''pottery'', ''poverty'', ''powder'', ''power'', ''practice'', ''praise'', ''predict'',
    ''prefer'', ''prepare'', ''present'', ''pretty'', ''prevent'', ''price'', ''pride'', ''primary'',
    ''print'', ''priority'', ''prison'', ''private'', ''prize'', ''problem'', ''process'', ''produce'',
    ''profit'', ''program'', ''project'', ''promote'', ''proof'', ''property'', ''prosper'', ''protect'',
    ''proud'', ''provide'', ''public'', ''pudding'', ''pull'', ''pulp'', ''pulse'', ''pumpkin'', ''punch'',
    ''pupil'', ''puppy'', ''purchase'', ''purity'', ''purpose'', ''purse'', ''push'', ''put'', ''puzzle'',
    ''pyramid'', ''quality'', ''quantum'', ''quarter'', ''question'', ''quick'', ''quit'', ''quiz'', ''quote'',
    ''rabbit'', ''raccoon'', ''race'', ''rack'', ''radar'', ''radio'', ''rail'', ''rain'', ''raise'',
    ''rally'', ''ramp'', ''ranch'', ''random'', ''range'', ''rapid'', ''rare'', ''rate'', ''rather'',
    ''raven'', ''raw'', ''razor'', ''ready'', ''real'', ''reason'', ''rebel'', ''rebuild'', ''recall'',
    ''receive'', ''recipe'', ''record'', ''recycle'', ''reduce'', ''reflect'', ''reform'', ''refuse'',
    ''region'', ''regret'', ''regular'', ''reject'', ''relax'', ''release'', ''relief'', ''rely'', ''remain'',
    ''remember'', ''remind'', ''remove'', ''render'', ''renew'', ''rent'', ''reopen'', ''repair'', ''repeat'',
    ''replace'', ''report'', ''require'', ''rescue'', ''resemble'', ''resist'', ''resource'', ''response'']"

definition english_11 :: "string list" where
  "english_11 = [
    ''result'', ''retire'', ''retreat'', ''return'', ''reunion'', ''reveal'', ''review'', ''reward'',
    ''rhythm'', ''rib'', ''ribbon'', ''rice'', ''rich'', ''ride'', ''ridge'', ''rifle'', ''right'', ''rigid'',
    ''ring'', ''riot'', ''ripple'', ''risk'', ''ritual'', ''rival'', ''river'', ''road'', ''roast'', ''robot'',
    ''robust'', ''rocket'', ''romance'', ''roof'', ''rookie'', ''room'', ''rose'', ''rotate'', ''rough'',
    ''round'', ''route'', ''royal'', ''rubber'', ''rude'', ''rug'', ''rule'', ''run'', ''runway'', ''rural'',
    ''sad'', ''saddle'', ''sadness'', ''safe'', ''sail'', ''salad'', ''salmon'', ''salon'', ''salt'',
    ''salute'', ''same'', ''sample'', ''sand'', ''satisfy'', ''satoshi'', ''sauce'', ''sausage'', ''save'',
    ''say'', ''scale'', ''scan'', ''scare'', ''scatter'', ''scene'', ''scheme'', ''school'', ''science'',
    ''scissors'', ''scorpion'', ''scout'', ''scrap'', ''screen'', ''script'', ''scrub'', ''sea'', ''search'',
    ''season'', ''seat'', ''second'', ''secret'', ''section'', ''security'', ''Seed'', ''seek'', ''segment'',
    ''select'', ''sell'', ''seminar'', ''senior'', ''sense'', ''sentence'', ''series'', ''service'',
    ''session'', ''settle'', ''setup'', ''seven'', ''shadow'', ''shaft'', ''shallow'', ''share'', ''shed'',
    ''shell'', ''sheriff'', ''shield'', ''shift'', ''shine'', ''ship'', ''shiver'', ''shock'', ''shoe'',
    ''shoot'', ''shop'', ''short'', ''shoulder'', ''shove'', ''shrimp'', ''shrug'', ''shuffle'', ''shy'',
    ''sibling'', ''sick'', ''side'', ''siege'', ''sight'', ''sign'', ''silent'', ''silk'', ''silly'',
    ''silver'', ''similar'', ''simple'', ''since'', ''sing'', ''siren'', ''sister'', ''situate'', ''six'',
    ''size'', ''skate'']"

definition english_12 :: "string list" where
  "english_12 = [
    ''sketch'', ''ski'', ''skill'', ''skin'', ''skirt'', ''skull'', ''slab'', ''slam'', ''sleep'', ''slender'',
    ''slice'', ''slide'', ''slight'', ''slim'', ''slogan'', ''slot'', ''slow'', ''slush'', ''small'',
    ''smart'', ''smile'', ''smoke'', ''smooth'', ''snack'', ''snake'', ''snap'', ''sniff'', ''snow'', ''soap'',
    ''soccer'', ''social'', ''sock'', ''soda'', ''soft'', ''solar'', ''soldier'', ''solid'', ''solution'',
    ''solve'', ''someone'', ''song'', ''soon'', ''sorry'', ''sort'', ''soul'', ''sound'', ''soup'', ''source'',
    ''south'', ''space'', ''spare'', ''spatial'', ''spawn'', ''speak'', ''special'', ''speed'', ''spell'',
    ''spend'', ''sphere'', ''spice'', ''spider'', ''spike'', ''spin'', ''spirit'', ''split'', ''spoil'',
    ''sponsor'', ''spoon'', ''sport'', ''spot'', ''spray'', ''spread'', ''spring'', ''spy'', ''square'',
    ''squeeze'', ''squirrel'', ''stable'', ''stadium'', ''staff'', ''stage'', ''stairs'', ''stamp'', ''stand'',
    ''start'', ''state'', ''stay'', ''steak'', ''steel'', ''stem'', ''step'', ''stereo'', ''stick'', ''still'',
    ''sting'', ''stock'', ''stomach'', ''stone'', ''stool'', ''story'', ''stove'', ''strategy'', ''street'',
    ''strike'', ''strong'', ''struggle'', ''student'', ''stuff'', ''stumble'', ''style'', ''subject'',
    ''submit'', ''subway'', ''success'', ''such'', ''sudden'', ''suffer'', ''sugar'', ''suggest'', ''suit'',
    ''summer'', ''sun'', ''sunny'', ''sunset'', ''super'', ''supply'', ''supreme'', ''sure'', ''surface'',
    ''surge'', ''surprise'', ''surround'', ''survey'', ''suspect'', ''sustain'', ''swallow'', ''swamp'',
    ''swap'', ''swarm'', ''swear'', ''sweet'', ''swift'', ''swim'', ''swing'', ''switch'', ''sword'', ''symbol'']"

definition english_13 :: "string list" where
  "english_13 = [
    ''symptom'', ''syrup'', ''system'', ''table'', ''tackle'', ''tag'', ''tail'', ''talent'', ''talk'',
    ''tank'', ''tape'', ''target'', ''task'', ''taste'', ''tattoo'', ''taxi'', ''teach'', ''team'', ''tell'',
    ''ten'', ''tenant'', ''tennis'', ''tent'', ''term'', ''test'', ''text'', ''thank'', ''that'', ''theme'',
    ''then'', ''theory'', ''there'', ''they'', ''thing'', ''this'', ''thought'', ''three'', ''thrive'',
    ''throw'', ''thumb'', ''thunder'', ''ticket'', ''tide'', ''tiger'', ''tilt'', ''timber'', ''time'',
    ''tiny'', ''tip'', ''tired'', ''tissue'', ''title'', ''toast'', ''tobacco'', ''today'', ''toddler'',
    ''toe'', ''together'', ''toilet'', ''token'', ''tomato'', ''tomorrow'', ''tone'', ''tongue'', ''tonight'',
    ''tool'', ''tooth'', ''top'', ''topic'', ''topple'', ''torch'', ''tornado'', ''tortoise'', ''toss'',
    ''total'', ''tourist'', ''toward'', ''tower'', ''town'', ''toy'', ''track'', ''trade'', ''traffic'',
    ''tragic'', ''train'', ''transfer'', ''trap'', ''trash'', ''travel'', ''tray'', ''treat'', ''tree'',
    ''trend'', ''trial'', ''tribe'', ''trick'', ''trigger'', ''trim'', ''trip'', ''trophy'', ''trouble'',
    ''truck'', ''true'', ''truly'', ''trumpet'', ''trust'', ''truth'', ''try'', ''tube'', ''tuition'',
    ''tumble'', ''tuna'', ''tunnel'', ''turkey'', ''turn'', ''turtle'', ''twelve'', ''twenty'', ''twice'',
    ''twin'', ''twist'', ''two'', ''type'', CHR 0x09 # ''typical'', ''ugly'', ''umbrella'', ''unable'',
    ''unaware'', ''uncle'', ''uncover'', ''under'', ''undo'', ''unfair'', ''unfold'', ''unhappy'', ''uniform'',
    ''unique'', ''unit'', ''universe'', ''unknown'', ''unlock'', ''until'', ''unusual'', ''unveil'',
    ''update'', ''upgrade'', ''uphold'']"

definition english_14 :: "string list" where
  "english_14 = [
    ''upon'', ''upper'', ''upset'', ''urban'', ''urge'', ''usage'', ''use'', ''used'', ''useful'', ''useless'',
    ''usual'', ''utility'', ''vacant'', ''vacuum'', ''vague'', ''valid'', ''valley'', ''valve'', ''van'',
    ''vanish'', ''vapor'', ''various'', ''vast'', ''vault'', ''vehicle'', ''velvet'', ''vendor'', ''venture'',
    ''venue'', ''verb'', ''verify'', ''version'', ''very'', ''vessel'', ''veteran'', ''viable'', ''vibrant'',
    ''vicious'', ''victory'', ''video'', ''view'', ''village'', ''vintage'', ''violin'', ''virtual'',
    ''virus'', ''visa'', ''visit'', ''visual'', ''vital'', ''vivid'', ''vocal'', ''voice'', ''void'',
    ''volcano'', ''volume'', ''vote'', ''voyage'', ''wage'', ''wagon'', ''wait'', ''walk'', ''wall'',
    ''walnut'', ''want'', ''warfare'', ''warm'', ''warrior'', ''wash'', ''wasp'', ''waste'', ''water'',
    ''wave'', ''way'', ''wealth'', ''weapon'', ''wear'', ''weasel'', ''weather'', ''web'', ''wedding'',
    ''weekend'', ''weird'', ''welcome'', ''west'', ''wet'', ''whale'', ''what'', ''wheat'', ''wheel'',
    ''when'', ''where'', ''whip'', ''whisper'', ''wide'', ''width'', ''wife'', ''wild'', ''will'', ''win'',
    ''window'', ''wine'', ''wing'', ''wink'', ''winner'', ''winter'', ''wire'', ''wisdom'', ''wise'', ''wish'',
    ''witness'', ''wolf'', ''woman'', ''wonder'', ''wood'', ''wool'', ''word'', ''work'', ''world'', ''worry'',
    ''worth'', ''wrap'', ''wreck'', ''wrestle'', ''wrist'', ''write'', ''wrong'', ''yard'', ''year'',
    ''yellow'', ''you'', ''young'', ''youth'', ''zebra'', ''zero'', ''zone'', ''zoo'']"

definition english :: "string list" where
  "english = english_1 @ english_2 @ english_3 @ english_4 @ english_5 @ english_6 @ english_7 @ english_8 @ english_9 @ english_10 @ english_11 @ english_12 @ english_13 @ english_14"

text \<open>\<open>NewWordList\<close> splits the string at its line breaks; the language is ignored.\<close>

definition NewWordList :: "string \<Rightarrow> string list" where
  "NewWordList language = english"

subsection \<open>Order and characters\<close>

definition is_space :: "char \<Rightarrow> bool" where
  "is_space c \<longleftrightarrow> c \<in> {CHR '' '', CHR 0x09, CHR 0x0A, CHR 0x0B, CHR 0x0C, CHR 0x0D}"

text \<open>The words as they should be: without the tab and with a small first letter.\<close>

definition untab :: "string \<Rightarrow> string" where
  "untab w = (case w of [] \<Rightarrow> [] | c # cs \<Rightarrow> if c = CHR 0x09 then cs else w)"

definition lower :: "char \<Rightarrow> char" where
  "lower c = (if c = CHR ''C'' then CHR ''c'' else if c = CHR ''K'' then CHR ''k'' else if c = CHR ''S'' then CHR ''s'' else c)"

definition canon :: "string \<Rightarrow> string" where
  "canon w = (case untab w of [] \<Rightarrow> [] | c # cs \<Rightarrow> lower c # cs)"

fun word_less :: "string \<Rightarrow> string \<Rightarrow> bool" where
  "word_less s [] = False"
| "word_less [] (c # t) = True"
| "word_less (a # s) (b # t) = (if a = b then word_less s t else of_char a < (of_char b :: nat))"

text \<open>The order of the canonical words, computed without building them.\<close>

definition rise :: "string \<Rightarrow> string \<Rightarrow> bool" where
  "rise s t = (case untab s of
       [] \<Rightarrow> untab t \<noteq> []
     | a # x \<Rightarrow> (case untab t of
          [] \<Rightarrow> False
        | b # y \<Rightarrow> if a = b then word_less x y
                   else if lower a = lower b then word_less x y else of_char (lower a) < (of_char (lower b) :: nat)))"

lemma rise_iff: "rise s t = word_less (canon s) (canon t)"
  by (auto simp: rise_def canon_def split: list.splits)

fun increasing :: "string list \<Rightarrow> bool" where
  "increasing (s # t # ws) = (rise s t \<and> increasing (t # ws))"
| "increasing ws = True"

lemma word_less_trans: "word_less s t \<Longrightarrow> word_less t u \<Longrightarrow> word_less s u"
proof (induction s t arbitrary: u rule: word_less.induct)
  case (2 c t)
  then show ?case by (cases u) auto
next
  case (3 a s b t)
  then show ?case by (cases u) (auto split: if_splits)
qed simp

lemma word_less_irrefl: "\<not> word_less s s"
  by (induction s) auto

lemma increasing_less: "increasing (s # ws) \<Longrightarrow> t \<in> set ws \<Longrightarrow> rise s t"
proof (induction ws arbitrary: s)
  case (Cons w ws)
  then show ?case using word_less_trans unfolding rise_iff by (cases "t = w") (auto simp: rise_iff)
qed simp

lemma increasing_distinct: "increasing ws \<Longrightarrow> distinct (map canon ws)"
proof (induction ws)
  case (Cons w ws)
  have "increasing ws" using Cons.prems by (cases ws) auto
  moreover have "canon w \<notin> canon ` set ws"
    using increasing_less [OF Cons.prems] word_less_irrefl by (metis imageE rise_iff)
  ultimately show ?case using Cons.IH by simp
qed simp

lemma increasing_append:
  "increasing xs \<Longrightarrow> increasing ys \<Longrightarrow> xs \<noteq> [] \<Longrightarrow> ys \<noteq> [] \<Longrightarrow> rise (last xs) (hd ys) \<Longrightarrow> increasing (xs @ ys)"
proof (induction xs)
  case (Cons x xs)
  then show ?case by (cases xs; cases ys) auto
qed simp

definition clean :: "string \<Rightarrow> bool" where
  "clean w \<longleftrightarrow> w \<noteq> [] \<and> list_all (\<lambda>c. \<not> is_space c) w"

lemma clean_simps [simp]:
  "clean [] = False" "clean [c] = (\<not> is_space c)" "clean (c # d # w) = (\<not> is_space c \<and> clean (d # w))"
  by (simp_all add: clean_def)

text \<open>Each part: its length, its first and last word, its order and its characters.\<close>

definition part_ok :: "string list \<Rightarrow> nat \<Rightarrow> string \<Rightarrow> string \<Rightarrow> bool" where
  "part_ok ws n a b \<longleftrightarrow> length ws = n \<and> ws \<noteq> [] \<and> hd ws = a \<and> last ws = b \<and>
     increasing ws \<and> list_all (clean \<circ> canon) ws \<and>
     list_all (\<lambda>w. hd w = CHR 0x09 \<longrightarrow> w = CHR 0x09 # ''typical'') ws"

lemma part_ok_append:
  assumes "part_ok xs n a b" "part_ok ys m c d" "rise b c"
  shows "part_ok (xs @ ys) (n + m) a d"
  using assms increasing_append [of xs ys] by (simp add: part_ok_def)

lemma part_1: "part_ok english_1 147 ''abandon'' ''banner''"
  unfolding part_ok_def english_1_def by (simp add: rise_def untab_def lower_def canon_def is_space_def)

lemma part_2: "part_ok english_2 147 ''bar'' ''caution''"
  unfolding part_ok_def english_2_def by (simp add: rise_def untab_def lower_def canon_def is_space_def)

lemma part_3: "part_ok english_3 147 ''cave'' ''damage''"
  unfolding part_ok_def english_3_def by (simp add: rise_def untab_def lower_def canon_def is_space_def)

lemma part_4: "part_ok english_4 147 ''damp'' ''enact''"
  unfolding part_ok_def english_4_def by (simp add: rise_def untab_def lower_def canon_def is_space_def)

lemma part_5: "part_ok english_5 147 ''end'' ''forward''"
  unfolding part_ok_def english_5_def by (simp add: rise_def untab_def lower_def canon_def is_space_def)

lemma part_6: "part_ok english_6 147 ''fossil'' ''hotel''"
  unfolding part_ok_def english_6_def by (simp add: rise_def untab_def lower_def canon_def is_space_def)

lemma part_7: "part_ok english_7 147 ''hour'' ''letter''"
  unfolding part_ok_def english_7_def by (simp add: rise_def untab_def lower_def canon_def is_space_def)

lemma part_8: "part_ok english_8 147 ''level'' ''napkin''"
  unfolding part_ok_def english_8_def by (simp add: rise_def untab_def lower_def canon_def is_space_def)

lemma part_9: "part_ok english_9 147 ''narrow'' ''pipe''"
  unfolding part_ok_def english_9_def by (simp add: rise_def untab_def lower_def canon_def is_space_def)

lemma part_10: "part_ok english_10 147 ''pistol'' ''response''"
  unfolding part_ok_def english_10_def by (simp add: rise_def untab_def lower_def canon_def is_space_def)

lemma part_11: "part_ok english_11 147 ''result'' ''skate''"
  unfolding part_ok_def english_11_def by (simp add: rise_def untab_def lower_def canon_def is_space_def)

lemma part_12: "part_ok english_12 147 ''sketch'' ''symbol''"
  unfolding part_ok_def english_12_def by (simp add: rise_def untab_def lower_def canon_def is_space_def)

lemma part_13: "part_ok english_13 147 ''symptom'' ''uphold''"
  unfolding part_ok_def english_13_def by (simp add: rise_def untab_def lower_def canon_def is_space_def)

lemma part_14: "part_ok english_14 137 ''upon'' ''zoo''"
  unfolding part_ok_def english_14_def by (simp add: rise_def untab_def lower_def canon_def is_space_def)

lemma english_ok: "part_ok english 2048 ''abandon'' ''zoo''"
proof -
  note p2 = part_ok_append [OF part_1 part_2, simplified rise_def untab_def lower_def, simplified]
  note p3 = part_ok_append [OF p2 part_3, simplified rise_def untab_def lower_def, simplified]
  note p4 = part_ok_append [OF p3 part_4, simplified rise_def untab_def lower_def, simplified]
  note p5 = part_ok_append [OF p4 part_5, simplified rise_def untab_def lower_def, simplified]
  note p6 = part_ok_append [OF p5 part_6, simplified rise_def untab_def lower_def, simplified]
  note p7 = part_ok_append [OF p6 part_7, simplified rise_def untab_def lower_def, simplified]
  note p8 = part_ok_append [OF p7 part_8, simplified rise_def untab_def lower_def, simplified]
  note p9 = part_ok_append [OF p8 part_9, simplified rise_def untab_def lower_def, simplified]
  note p10 = part_ok_append [OF p9 part_10, simplified rise_def untab_def lower_def, simplified]
  note p11 = part_ok_append [OF p10 part_11, simplified rise_def untab_def lower_def, simplified]
  note p12 = part_ok_append [OF p11 part_12, simplified rise_def untab_def lower_def, simplified]
  note p13 = part_ok_append [OF p12 part_13, simplified rise_def untab_def lower_def, simplified]
  note p14 = part_ok_append [OF p13 part_14, simplified rise_def untab_def lower_def, simplified]
  show ?thesis using p14 by (simp add: english_def)
qed

lemma english_facts:
  "length english = 2048" "distinct english" "w \<in> set english \<Longrightarrow> clean (untab w)"
  "w \<in> set english \<Longrightarrow> untab w = w \<or> w = CHR 0x09 # ''typical''"
  "CHR 0x09 # ''typical'' \<in> set english" "''typical'' \<notin> set english"
proof -
  note ok = english_ok [unfolded part_ok_def]
  show "length english = 2048" using ok by simp
  have d: "distinct (map canon english)" using ok increasing_distinct by blast
  then show "distinct english" by (simp add: distinct_map)
  show t: "CHR 0x09 # ''typical'' \<in> set english" by (simp add: english_def english_13_def)
  have "canon ''typical'' = canon (CHR 0x09 # ''typical'')" by (simp add: canon_def untab_def)
  then show "''typical'' \<notin> set english" using d t by (auto simp: distinct_map inj_on_def)
  assume w: "w \<in> set english"
  then have "clean (canon w)" and tab: "hd w = CHR 0x09 \<longrightarrow> w = CHR 0x09 # ''typical''"
    using ok by (auto simp: list_all_iff)
  then show "clean (untab w)"
    by (cases "untab w") (auto simp: canon_def clean_def lower_def is_space_def split: if_splits)
  show "untab w = w \<or> w = CHR 0x09 # ''typical''" using tab by (auto simp: untab_def split: list.splits)
qed

end
