(* ===== verification/Mnemonic.thy ===== *)
theory Mnemonic
  imports WordList Base58
begin

text \<open>
  \<open>wallet/mnemonic.go\<close>: entropy of 128 to 256 bits as 12 to 24 words of the word list, with a checksum of
  4 to 8 bits. Big integers are natural numbers. \<open>crypto/sha256\<close> is the reference function of theory
  \<open>Sha256\<close>; PBKDF2 is a parameter. Mnemonic strings are taken as ASCII text: \<open>strings.Fields\<close> splits at
  ASCII white space.
\<close>

unbundle bit_operations_syntax

datatype mnemonic_error =
  ErrInvalidMnemonic | ErrEntropyLengthInvalid | ErrChecksumIncorrect | InvalidMnemonic | WordNotFound string
  | ChecksumMismatch

definition wordList :: "string list" where
  "wordList = NewWordList ''english''"

text \<open>\<open>init\<close> fills \<open>wordMap\<close> in order; a later word would overwrite an equal one.\<close>

definition wordMap :: "string \<Rightarrow> nat option" where
  "wordMap v = map_of (rev (zip wordList [0..<length wordList])) v"

fun checksumMask :: "nat \<Rightarrow> nat option" where
  "checksumMask n = map_of [(12, 15), (15, 31), (18, 63), (21, 127), (24, 255)] n"

fun checksumShift :: "nat \<Rightarrow> nat option" where
  "checksumShift n = map_of [(12, 16), (15, 8), (18, 4), (21, 2)] n"

subsection \<open>Strings\<close>

fun Fields_acc :: "string \<Rightarrow> string \<Rightarrow> string list" where
  "Fields_acc w [] = (if w = [] then [] else [w])"
| "Fields_acc w (c # s) =
     (if is_space c then (if w = [] then Fields_acc [] s else w # Fields_acc [] s) else Fields_acc (w @ [c]) s)"

definition Fields :: "string \<Rightarrow> string list" where
  "Fields s = Fields_acc [] s"

subsection \<open>Checksums\<close>

definition validateEntropyBitSize :: "nat \<Rightarrow> bool" where
  "validateEntropyBitSize bitSize \<longleftrightarrow> \<not> (bitSize mod 32 \<noteq> 0 \<or> bitSize < 128 \<or> bitSize > 256)"

definition computeChecksum :: "bytes \<Rightarrow> bytes" where
  "computeChecksum data = sha256_spec data"

definition padByteSlice :: "bytes \<Rightarrow> nat \<Rightarrow> bytes" where
  "padByteSlice b len = (if len \<le> length b then b else replicate (len - length b) 0 @ b)"

text \<open>The loop of \<open>addChecksum\<close> appends the leading bits of the first checksum byte.\<close>

fun checksum_loop :: "byte \<Rightarrow> nat \<Rightarrow> nat \<Rightarrow> nat \<Rightarrow> nat" where
  "checksum_loop firstChecksumByte i 0 dataBigInt = dataBigInt"
| "checksum_loop firstChecksumByte i (Suc n) dataBigInt =
     checksum_loop firstChecksumByte (Suc i) n
       (let d = dataBigInt * 2 in if firstChecksumByte AND push_bit (7 - i) 1 > 0 then d OR 1 else d)"

definition addChecksum :: "bytes \<Rightarrow> bytes" where
  "addChecksum data =
     (let firstChecksumByte = computeChecksum data ! 0;
          checksumBitLength = length data div 4
      in big_Bytes (checksum_loop firstChecksumByte 0 checksumBitLength (big_SetBytes data)))"

subsection \<open>Mnemonics\<close>

text \<open>The words are filled in from the last to the first, eleven bits at a time.\<close>

fun words_loop :: "nat \<Rightarrow> nat \<Rightarrow> string list \<Rightarrow> string list" where
  "words_loop 0 entropyInt acc = acc"
| "words_loop (Suc n) entropyInt acc =
     (let word = entropyInt AND 2047;
          wordBytes = padByteSlice (big_Bytes word) 2
      in words_loop n (entropyInt div 2048) (wordList ! (unat (wordBytes ! 0) * 256 + unat (wordBytes ! 1)) # acc))"

definition NewMnemonic :: "bytes \<Rightarrow> (mnemonic_error, string) res" where
  "NewMnemonic entropy =
     (let entropyBitLength = length entropy * 8;
          checksumBitLength = entropyBitLength div 32;
          sentenceLength = (entropyBitLength + checksumBitLength) div 11
      in if \<not> validateEntropyBitSize entropyBitLength then Err ErrEntropyLengthInvalid
         else Ok (Join '' '' (words_loop sentenceLength (big_SetBytes (addChecksum entropy)) [])))"

definition splitMnemonicWords :: "string \<Rightarrow> string list option" where
  "splitMnemonicWords mnemonic =
     (let words = Fields mnemonic; n = length words
      in if n mod 3 \<noteq> 0 \<or> n < 12 \<or> n > 24 then None else Some words)"

fun indices_loop :: "string list \<Rightarrow> nat \<Rightarrow> (mnemonic_error, nat) res" where
  "indices_loop [] b = Ok b"
| "indices_loop (v # vs) b =
     (case wordMap v of
        None \<Rightarrow> Err (WordNotFound v)
      | Some index \<Rightarrow> indices_loop vs (b * 2048 OR index mod 65536))"

definition EntropyFromMnemonic :: "string \<Rightarrow> (mnemonic_error, bytes) res" where
  "EntropyFromMnemonic mnemonic =
     (case splitMnemonicWords mnemonic of
        None \<Rightarrow> Err InvalidMnemonic
      | Some mnemonicSlice \<Rightarrow>
          and_then (indices_loop mnemonicSlice 0) (\<lambda>b.
            let l = length mnemonicSlice in
            case checksumMask l of
              None \<Rightarrow> Panic
            | Some cmask \<Rightarrow>
                let checksum = b AND cmask;
                    entropy = padByteSlice (big_Bytes (b div (cmask + 1))) (l div 3 * 4);
                    c0 = unat (computeChecksum entropy ! 0);
                    entropyChecksum = (if l \<noteq> 24 then (case checksumShift l of None \<Rightarrow> 0 | Some d \<Rightarrow> c0 div d) else c0)
                in if checksum \<noteq> entropyChecksum then Err ChecksumMismatch else Ok entropy))"

definition IsMnemonicValid :: "string \<Rightarrow> bool" where
  "IsMnemonicValid mnemonic \<longleftrightarrow>
     (let words = Fields mnemonic; n = length words
      in \<not> (n mod 3 \<noteq> 0 \<or> n < 12 \<or> n > 24) \<and> list_all (\<lambda>w. wordMap w \<noteq> None) words)"

definition compareByteSlices :: "bytes \<Rightarrow> bytes \<Rightarrow> bool" where
  "compareByteSlices a b \<longleftrightarrow> length a = length b \<and> list_all (\<lambda>i. a ! i = b ! i) [0..<length a]"

text \<open>\<open>raw\<close> is the optional argument: absent, or its first value.\<close>

definition MnemonicToByteArray :: "string \<Rightarrow> bool option \<Rightarrow> (mnemonic_error, bytes) res" where
  "MnemonicToByteArray mnemonic raw =
     (let mnemonicSlice = strings_Split mnemonic '' '';
          entropyBitSize = length mnemonicSlice * 11;
          checksumBitSize = entropyBitSize mod 32;
          fullByteSize = (entropyBitSize - checksumBitSize) div 8 + 1;
          checksumByteSize = fullByteSize - fullByteSize mod 4
      in if \<not> IsMnemonicValid mnemonic then Err ErrInvalidMnemonic
         else let checksummedEntropy =
                    foldl (\<lambda>e v. e * 2048 + (case wordMap v of None \<Rightarrow> 0 | Some i \<Rightarrow> i)) 0 mnemonicSlice;
                  rawEntropy = checksummedEntropy div 2 ^ checksumBitSize;
                  rawEntropyBytes = padByteSlice (big_Bytes rawEntropy) checksumByteSize;
                  checksummedEntropyBytes = padByteSlice (big_Bytes checksummedEntropy) fullByteSize;
                  new = padByteSlice (addChecksum rawEntropyBytes) fullByteSize
              in if \<not> compareByteSlices checksummedEntropyBytes new then Err ErrChecksumIncorrect
                 else if raw = Some True then Ok rawEntropyBytes else Ok checksummedEntropyBytes)"

text \<open>PBKDF2 with 2048 rounds and 64 bytes is the argument \<open>pbkdf2\<close>.\<close>

definition NewSeed :: "(bytes \<Rightarrow> bytes \<Rightarrow> bytes) \<Rightarrow> string \<Rightarrow> string \<Rightarrow> bytes" where
  "NewSeed pbkdf2 mnemonic password = pbkdf2 (bytes_of_string mnemonic) (bytes_of_string (''Mnemonic'' @ password))"

definition NewSeedWithErrorChecking ::
  "(bytes \<Rightarrow> bytes \<Rightarrow> bytes) \<Rightarrow> string \<Rightarrow> string \<Rightarrow> (mnemonic_error, bytes) res" where
  "NewSeedWithErrorChecking pbkdf2 mnemonic password =
     and_then (MnemonicToByteArray mnemonic None) (\<lambda>_. Ok (NewSeed pbkdf2 mnemonic password))"

text \<open>\<open>NewEntropy\<close>: \<open>random\<close> is what \<open>rand.Read\<close> delivers.\<close>

definition NewEntropy :: "(nat \<Rightarrow> bytes) \<Rightarrow> nat \<Rightarrow> (mnemonic_error, bytes) res" where
  "NewEntropy random bitSize =
     (if \<not> validateEntropyBitSize bitSize then Err ErrEntropyLengthInvalid else Ok (random (bitSize div 8)))"

subsection \<open>Numbers\<close>

lemma and_mask_mod: "n AND 15 = n mod 16" "n AND 31 = n mod 32" "n AND 63 = n mod 64" "n AND 127 = n mod 128"
    "n AND 255 = n mod 256" "n AND 2047 = n mod 2048" for n :: nat
  using take_bit_eq_mask [of 4 n] take_bit_eq_mask [of 5 n] take_bit_eq_mask [of 6 n] take_bit_eq_mask [of 7 n]
    take_bit_eq_mask [of 8 n] take_bit_eq_mask [of 11 n]
  by (simp_all add: take_bit_eq_mod mask_eq_exp_minus_1)

lemma or_add: "y < 2 ^ k \<Longrightarrow> x * 2 ^ k OR y = x * 2 ^ k + y" for x y :: nat
proof -
  assume y: "y < 2 ^ k"
  have "push_bit k x AND y = 0"
  proof (rule bit_eqI)
    fix n
    have "\<not> bit y n" if "k \<le> n"
    proof -
      have "y < 2 ^ n" using y that by (metis less_le_trans one_le_numeral power_increasing)
      then show ?thesis by (simp add: bit_nat_def)
    qed
    then show "bit (push_bit k x AND y) n = bit 0 n"
      by (auto simp: bit_and_iff bit_push_bit_iff)
  qed
  then have "push_bit k x + y = push_bit k x OR y" by (rule disjunctive_add_eq_or)
  then show ?thesis by (simp add: push_bit_eq_mult)
qed

lemma length_padByteSlice: "length b \<le> n \<Longrightarrow> length (padByteSlice b n) = n"
  by (simp add: padByteSlice_def)

lemma big_SetBytes_pad: "big_SetBytes (padByteSlice b n) = big_SetBytes b"
  by (simp add: padByteSlice_def big_SetBytes_replicate)

lemma padByteSlice_Bytes: "padByteSlice (big_Bytes (big_SetBytes b)) (length b) = b"
proof -
  have "b = takeWhile (\<lambda>d. d = 0) b @ dropWhile (\<lambda>d. d = 0) b" by simp
  moreover have "takeWhile (\<lambda>d. d = 0) b = replicate (length (takeWhile (\<lambda>d. d = 0) b)) 0"
    by (metis (full_types) replicate_length_same set_takeWhileD)
  moreover have "length b = length (takeWhile (\<lambda>d. d = 0) b) + length (dropWhile (\<lambda>d. d = 0) b)"
    by (metis length_append takeWhile_dropWhile_id)
  ultimately have "padByteSlice (dropWhile (\<lambda>d. d = 0) b) (length b) = takeWhile (\<lambda>d. d = 0) b @ dropWhile (\<lambda>d. d = 0) b"
    by (cases "takeWhile (\<lambda>d. d = 0) b = []") (auto simp: padByteSlice_def simp del: takeWhile_dropWhile_id)
  then show ?thesis by (simp add: big_Bytes_SetBytes)
qed

lemma word_index: "w < 2048 \<Longrightarrow> unat (padByteSlice (big_Bytes w) 2 ! 0) * 256 + unat (padByteSlice (big_Bytes w) 2 ! 1) = w"
proof -
  assume "w < 2048"
  then have "length (big_Bytes w) \<le> 2" by (intro length_big_Bytes_less) simp
  then have "length (padByteSlice (big_Bytes w) 2) = 2" by (rule length_padByteSlice)
  then obtain x y where xy: "padByteSlice (big_Bytes w) 2 = [x, y]"
    by (auto simp: numeral_2_eq_2 length_Suc_conv)
  have "big_SetBytes (padByteSlice (big_Bytes w) 2) = w" by (simp add: big_SetBytes_pad big_SetBytes_Bytes)
  then show ?thesis by (simp add: xy big_SetBytes_def)
qed

lemma checksum_bit: "i < 8 \<Longrightarrow> (c AND push_bit (7 - i) 1 > 0) = odd (unat c div 2 ^ (7 - i))" for c :: byte
proof -
  assume i: "i < 8"
  have "(c AND push_bit (7 - i) 1 > 0) = bit c (7 - i)"
  proof
    assume "c AND push_bit (7 - i) 1 > 0"
    then have "c AND push_bit (7 - i) 1 \<noteq> 0" by (simp add: word_gt_0)
    then obtain n where "bit (c AND push_bit (7 - i) 1) n" by (auto simp: bit_eq_iff)
    then show "bit c (7 - i)" by (auto simp: bit_and_iff bit_exp_iff push_bit_of_1)
  next
    assume b: "bit c (7 - i)"
    then have "bit (c AND push_bit (7 - i) 1) (7 - i)" using i by (simp add: bit_and_iff bit_exp_iff push_bit_of_1)
    then have "c AND push_bit (7 - i) 1 \<noteq> 0" by auto
    then show "c AND push_bit (7 - i) 1 > 0" by (simp add: word_gt_0)
  qed
  also have "\<dots> = bit (unat c) (7 - i)" using i by (simp add: bit_unsigned_iff)
  finally show ?thesis by (simp add: bit_nat_def)
qed

lemma checksum_loop_eq:
  "i + n \<le> 8 \<Longrightarrow> checksum_loop c i n d = d * 2 ^ n + unat c div 2 ^ (8 - i - n) mod 2 ^ n"
proof (induction n arbitrary: i d)
  case (Suc n)
  let ?c = "unat c"
  let ?b = "?c div 2 ^ (7 - i) mod 2"
  have step: "(let e = d * 2 in if c AND push_bit (7 - i) 1 > 0 then e OR 1 else e) = d * 2 + ?b"
    using or_add [of 1 1 d] checksum_bit [of i c] Suc.prems by (auto simp: Let_def odd_iff_mod_2_eq_one even_iff_mod_2_eq_zero)
  have e: "7 - i = 8 - i - Suc n + n" using Suc.prems by simp
  have "?c div 2 ^ (7 - i) = ?c div 2 ^ (8 - i - Suc n) div 2 ^ n"
    unfolding e by (simp add: power_add div_mult2_eq)
  then have "?b * 2 ^ n + ?c div 2 ^ (8 - i - Suc n) mod 2 ^ n = ?c div 2 ^ (8 - i - Suc n) mod 2 ^ Suc n"
    using mod_mult2_eq [of "?c div 2 ^ (8 - i - Suc n)" "2 ^ n" 2] by (simp add: mult.commute)
  moreover have "checksum_loop c i (Suc n) d = (d * 2 + ?b) * 2 ^ n + ?c div 2 ^ (8 - i - Suc n) mod 2 ^ n"
    using Suc.IH [of "Suc i" "d * 2 + ?b"] Suc.prems step by (simp del: checksum_loop.simps add: checksum_loop.simps(2))
  ultimately show ?case by (simp add: algebra_simps)
qed simp

subsection \<open>Words\<close>

fun digits :: "nat \<Rightarrow> nat \<Rightarrow> nat list" where
  "digits 0 e = []"
| "digits (Suc n) e = digits n (e div 2048) @ [e mod 2048]"

abbreviation value_of :: "nat \<Rightarrow> nat list \<Rightarrow> nat" where
  "value_of \<equiv> foldl (\<lambda>b i. b * 2048 + i)"

lemma length_digits [simp]: "length (digits n e) = n"
  by (induction n arbitrary: e) auto

lemma digits_less: "d \<in> set (digits n e) \<Longrightarrow> d < 2048"
  by (induction n arbitrary: e) auto

lemma value_of_digits: "value_of b (digits n e) = b * 2048 ^ n + e mod 2048 ^ n"
proof (induction n arbitrary: e)
  case (Suc n)
  have "e mod 2048 ^ Suc n = 2048 * (e div 2048 mod 2048 ^ n) + e mod 2048"
    using mod_mult2_eq [of e 2048 "2048 ^ n"] by simp
  then show ?case using Suc [of "e div 2048"] by (simp add: algebra_simps)
qed simp

lemma words_loop_digits: "words_loop n e acc = map ((!) wordList) (digits n e) @ acc"
proof (induction n arbitrary: e acc)
  case (Suc n)
  then show ?case using word_index [of "e mod 2048"] by (simp add: Let_def and_mask_mod(6))
qed simp

lemma wordList_facts: "length wordList = 2048" "distinct wordList" "set wordList = set english"
  by (simp_all add: wordList_def NewWordList_def english_facts)

lemma wordMap_nth: "i < 2048 \<Longrightarrow> wordMap (wordList ! i) = Some i"
proof -
  assume i: "i < 2048"
  have z: "distinct (map fst (rev (zip wordList [0..<length wordList])))"
    using wordList_facts(2) by (simp add: rev_map [symmetric])
  have "(wordList ! i, i) \<in> set (rev (zip wordList [0..<length wordList]))"
    using i by (auto simp: set_zip wordList_facts(1))
  then show ?thesis unfolding wordMap_def using z by (rule map_of_is_SomeI [rotated])
qed

lemma wordMap_typical: "wordMap ''typical'' = None"
proof -
  have "map_of (rev (zip wordList [0..<length wordList])) ''typical'' = None"
    using english_facts(6) wordList_facts(3) by (auto simp: map_of_eq_None_iff dest: set_zip_leftD)
  then show ?thesis by (simp add: wordMap_def)
qed

lemma Fields_acc_word: "list_all (\<lambda>c. \<not> is_space c) w \<Longrightarrow> Fields_acc v (w @ s) = Fields_acc (v @ w) s"
  by (induction w arbitrary: v) auto

lemma Fields_word:
  assumes "clean (untab w)"
  shows "Fields (w @ '' '' @ s) = untab w # Fields s" "Fields w = [untab w]"
proof -
  have u: "list_all (\<lambda>c. \<not> is_space c) (untab w)" "untab w \<noteq> []" using assms by (auto simp: clean_def)
  have "Fields (w @ r) = Fields_acc (untab w) r" for r
    using Fields_acc_word [OF u(1), of "[]" r]
    by (auto simp: untab_def Fields_def is_space_def split: list.splits if_splits)
  from this [of "'' '' @ s"] this [of "[]"] u(2)
  show "Fields (w @ '' '' @ s) = untab w # Fields s" "Fields w = [untab w]" by (simp_all add: is_space_def Fields_def)
qed

lemma Fields_Join: "\<forall>w \<in> set ws. clean (untab w) \<Longrightarrow> Fields (Join '' '' ws) = map untab ws"
proof (induction "'' ''" ws rule: Join.induct)
  case (2 w)
  then show ?case by (simp add: Fields_word(2))
next
  case (3 w v ws)
  then show ?case using Fields_word(1) [of w] by simp
qed (simp add: Fields_def)

lemma indices_loop_ok:
  "\<forall>i \<in> set ds. i < 2048 \<Longrightarrow> \<forall>i \<in> set ds. untab (wordList ! i) = wordList ! i \<Longrightarrow>
   indices_loop (map (untab \<circ> (!) wordList) ds) b = Ok (value_of b ds)"
proof (induction ds arbitrary: b)
  case (Cons i ds)
  then show ?case using or_add [of i 11 b] by (simp add: wordMap_nth)
qed simp

lemma indices_loop_typical:
  "\<forall>i \<in> set ds. i < 2048 \<Longrightarrow> \<exists>i \<in> set ds. wordList ! i = CHR 0x09 # ''typical'' \<Longrightarrow>
   indices_loop (map (untab \<circ> (!) wordList) ds) b = Err (WordNotFound ''typical'')"
proof (induction ds arbitrary: b)
  case (Cons i ds)
  then have m: "wordList ! i \<in> set english" using wordList_facts nth_mem [of i wordList] by auto
  show ?case
  proof (cases "wordList ! i = CHR 0x09 # ''typical''")
    case True
    then show ?thesis by (simp add: untab_def wordMap_typical)
  next
    case False
    then have "untab (wordList ! i) = wordList ! i" using english_facts(4) [OF m] by simp
    then show ?thesis using Cons False by (simp add: wordMap_nth)
  qed
qed simp

subsection \<open>Encoding entropy\<close>

text \<open>The number the words stand for: the entropy followed by the leading bits of the checksum.\<close>

definition sentence_number :: "bytes \<Rightarrow> nat" where
  "sentence_number e = big_SetBytes e * 2 ^ (length e div 4) + unat (computeChecksum e ! 0) div 2 ^ (8 - length e div 4)"

definition sentence :: "bytes \<Rightarrow> string list" where
  "sentence e = map ((!) wordList) (digits (length e div 4 * 3) (sentence_number e))"

lemma valid_size: "validateEntropyBitSize (length e * 8) \<longleftrightarrow> length e \<in> {16, 20, 24, 28, 32}"
proof -
  have "length e * 8 mod 32 = 0 \<longleftrightarrow> length e mod 4 = 0" by presburger
  then show ?thesis unfolding validateEntropyBitSize_def by auto
qed

lemma checksum_part: "k \<le> 8 \<Longrightarrow> unat c div 2 ^ (8 - k) < 2 ^ k" for c :: byte
proof -
  assume "k \<le> 8"
  then have "2 ^ k * 2 ^ (8 - k) = (2 ^ 8 :: nat)" by (simp flip: power_add)
  then show ?thesis using unsigned_less [of c] by (simp add: less_mult_imp_div_less)
qed

lemma pow_sizes: "256 ^ (n * 4) * 2 ^ n = (2048 ^ (n * 3) :: nat)"
proof -
  have "(256 :: nat) ^ (n * 4) * 2 ^ n = (256 ^ 4 * 2) ^ n"
    by (simp only: mult.commute [of n 4] power_mult power_mult_distrib)
  also have "(256 ^ 4 * 2 :: nat) = 2048 ^ 3" by simp
  also have "((2048 :: nat) ^ 3) ^ n = 2048 ^ (n * 3)" by (simp only: mult.commute [of n 3] power_mult)
  finally show ?thesis .
qed

text \<open>The tables, for \<open>k\<close> checksum bits and \<open>3 k\<close> words.\<close>

lemma checksum_tables:
  assumes "k \<in> {4, 5, 6, 7, 8}"
  shows "\<exists>m. checksumMask (k * 3) = Some m \<and> m + 1 = 2 ^ k \<and> (\<forall>n. n AND m = n mod 2 ^ k)"
    "(if k * 3 \<noteq> 24 then (case checksumShift (k * 3) of None \<Rightarrow> 0 | Some d \<Rightarrow> c div d) else c) = c div 2 ^ (8 - k)"
  using assms by (auto simp: and_mask_mod)

lemma sentence_number_less:
  assumes "length e \<in> {16, 20, 24, 28, 32}"
  shows "sentence_number e < 2048 ^ (length e div 4 * 3)"
proof -
  let ?k = "length e div 4"
  have k: "?k \<le> 8" "length e = ?k * 4" using assms by auto
  have "sentence_number e < (big_SetBytes e + 1) * 2 ^ ?k"
    unfolding sentence_number_def using checksum_part [OF k(1)] by (simp add: algebra_simps)
  also have "\<dots> \<le> 256 ^ length e * 2 ^ ?k" using big_SetBytes_less [of e] by (intro mult_right_mono) simp_all
  also have "\<dots> = 2048 ^ (?k * 3)" using pow_sizes [of ?k] k(2) by simp
  finally show ?thesis .
qed

lemma NewMnemonic_sentence:
  assumes "length e \<in> {16, 20, 24, 28, 32}"
  shows "NewMnemonic e = Ok (Join '' '' (sentence e))"
proof -
  have k: "length e div 4 \<le> 8" using assms by auto
  have "big_SetBytes (addChecksum e) = sentence_number e"
    using checksum_loop_eq [of 0 "length e div 4"] k checksum_part [OF k]
    by (simp add: addChecksum_def sentence_number_def big_SetBytes_Bytes Let_def)
  moreover have "(length e * 8 + length e * 8 div 32) div 11 = length e div 4 * 3" using assms by auto
  ultimately show ?thesis
    using valid_size [of e] assms by (simp add: NewMnemonic_def Let_def words_loop_digits sentence_def)
qed

lemma sentence_words: "w \<in> set (sentence e) \<Longrightarrow> w \<in> set english"
  using digits_less wordList_facts by (fastforce simp: sentence_def)

lemma EntropyFromMnemonic_sentence:
  assumes "length e \<in> {16, 20, 24, 28, 32}"
  shows "EntropyFromMnemonic (Join '' '' (sentence e)) =
    (if CHR 0x09 # ''typical'' \<in> set (sentence e) then Err (WordNotFound ''typical'') else Ok e)"
proof -
  let ?k = "length e div 4" and ?N = "sentence_number e"
  let ?ds = "digits (?k * 3) ?N"
  have k: "?k \<in> {4, 5, 6, 7, 8}" "length e = ?k * 4" using assms by auto
  have f: "Fields (Join '' '' (sentence e)) = map (untab \<circ> (!) wordList) ?ds"
    using Fields_Join [of "sentence e"] sentence_words english_facts(3) by (simp add: sentence_def)
  have sp: "splitMnemonicWords (Join '' '' (sentence e)) = Some (map (untab \<circ> (!) wordList) ?ds)"
    using k by (auto simp: splitMnemonicWords_def f)
  have ds: "\<forall>i \<in> set ?ds. i < 2048" using digits_less by blast
  show ?thesis
  proof (cases "CHR 0x09 # ''typical'' \<in> set (sentence e)")
    case True
    then have "\<exists>i \<in> set ?ds. wordList ! i = CHR 0x09 # ''typical''" by (auto simp: sentence_def)
    then show ?thesis using True indices_loop_typical [OF ds] sp by (simp add: EntropyFromMnemonic_def)
  next
    case False
    have "\<forall>i \<in> set ?ds. untab (wordList ! i) = wordList ! i"
    proof
      fix i assume "i \<in> set ?ds"
      then have w: "wordList ! i \<in> set (sentence e)" by (simp add: sentence_def)
      then have "wordList ! i \<noteq> CHR 0x09 # ''typical''" using False by metis
      with english_facts(4) [OF sentence_words [OF w]] show "untab (wordList ! i) = wordList ! i" by blast
    qed
    then have il: "indices_loop (map (untab \<circ> (!) wordList) ?ds) 0 = Ok ?N"
      using indices_loop_ok [OF ds] sentence_number_less [OF assms] by (simp add: value_of_digits)
    let ?c = "unat (computeChecksum e ! 0)"
    have c: "?c div 2 ^ (8 - ?k) < 2 ^ ?k" using k checksum_part [of ?k] by auto
    have m: "?N mod 2 ^ ?k = ?c div 2 ^ (8 - ?k)" and d: "?N div 2 ^ ?k = big_SetBytes e"
      using c by (simp_all add: sentence_number_def)
    have p: "padByteSlice (big_Bytes (big_SetBytes e)) (length e) = e" by (rule padByteSlice_Bytes)
    obtain msk where t: "checksumMask (?k * 3) = Some msk" "msk + 1 = 2 ^ ?k" "\<And>n. n AND msk = n mod 2 ^ ?k"
      using checksum_tables(1) [OF k(1)] by blast
    have l: "?k * 3 div 3 * 4 = length e" using k(2) by simp
    show ?thesis
      unfolding EntropyFromMnemonic_def sp il option.case and_then.simps Let_def length_map length_digits t m d l p
        checksum_tables(2) [OF k(1)] by (simp only: simp_thms if_False if_not_P [OF False])
  qed
qed

subsection \<open>Properties\<close>

text \<open>Claim C32 (roundtrip): for every valid size of entropy \<open>NewMnemonic\<close> returns a sentence of the word list, and
  \<open>EntropyFromMnemonic\<close> recovers the entropy from it unless the sentence contains the word that the
  list writes with a leading tab: reading drops the tab and the word is not found.\<close>

theorem mnemonic_roundtrip:
  assumes "length e \<in> {16, 20, 24, 28, 32}"
  shows "NewMnemonic e = Ok (Join '' '' (sentence e)) \<and> set (sentence e) \<subseteq> set wordList \<and>
    length (sentence e) = length e div 4 * 3 \<and>
    EntropyFromMnemonic (Join '' '' (sentence e)) =
      (if CHR 0x09 # ''typical'' \<in> set (sentence e) then Err (WordNotFound ''typical'') else Ok e)"
  using NewMnemonic_sentence [OF assms] EntropyFromMnemonic_sentence [OF assms] sentence_words wordList_facts(3)
  by (auto simp: sentence_def)

text \<open>Entropy that starts with the eleven bits of that word.\<close>

definition example_entropy :: bytes where
  "example_entropy = 0xEB # 0xE0 # replicate 14 0"

lemma hd_digits: "digits (Suc n) e ! 0 = e div 2048 ^ n mod 2048"
proof (induction n arbitrary: e)
  case (Suc n)
  have "digits (Suc (Suc n)) e ! 0 = digits (Suc n) (e div 2048) ! 0"
    by (simp only: digits.simps(2) [of "Suc n"] nth_append length_digits) simp
  then show ?case using Suc [of "e div 2048"] by (simp add: div_mult2_eq)
qed simp

lemma word_1887: "wordList ! 1887 = CHR 0x09 # ''typical''"
proof -
  have l: "length english_1 = 147" "length english_2 = 147" "length english_3 = 147" "length english_4 = 147"
    "length english_5 = 147" "length english_6 = 147" "length english_7 = 147" "length english_8 = 147"
    "length english_9 = 147" "length english_10 = 147" "length english_11 = 147" "length english_12 = 147"
    "length english_13 = 147"
    using part_1 part_2 part_3 part_4 part_5 part_6 part_7 part_8 part_9 part_10 part_11 part_12 part_13
    by (simp_all add: part_ok_def)
  have "wordList ! 1887 = english_13 ! 123"
    by (simp add: wordList_def NewWordList_def english_def nth_append l)
  then show ?thesis by (simp add: english_13_def)
qed

lemma example_sentence: "CHR 0x09 # ''typical'' \<in> set (sentence example_entropy)"
proof -
  let ?N = "sentence_number example_entropy"
  have l: "length example_entropy = 16" by (simp add: example_entropy_def)
  have z: "big_SetBytes (xs @ replicate n 0) = big_SetBytes xs * 256 ^ n" for xs n
    by (induction n) (simp_all add: replicate_append_same [symmetric] flip: append_assoc)
  have b: "big_SetBytes example_entropy = 0xEBE0 * 2 ^ 112"
    using z [of "[0xEB, 0xE0]" 14] by (simp add: example_entropy_def big_SetBytes_def)
  have c: "unat (computeChecksum example_entropy ! 0) div 2 ^ 4 < 2 ^ 4"
    using checksum_part [of 4 "computeChecksum example_entropy ! 0"] by simp
  have "?N = 0xEBE0 * 2 ^ 112 * 2 ^ 4 + unat (computeChecksum example_entropy ! 0) div 2 ^ 4"
    by (simp add: sentence_number_def b l)
  then have "?N div 2048 ^ 11 mod 2048 = 1887" using c by simp
  then have "digits 12 ?N ! 0 = 1887" using hd_digits [of 11 ?N] by simp
  then have "1887 \<in> set (digits 12 ?N)" by (metis length_digits nth_mem zero_less_numeral)
  then show ?thesis unfolding sentence_def l using word_1887 by force
qed

theorem mnemonic_roundtrip_witness:
  "NewMnemonic example_entropy = Ok (Join '' '' (sentence example_entropy)) \<and>
   EntropyFromMnemonic (Join '' '' (sentence example_entropy)) = Err (WordNotFound ''typical'')"
proof -
  have "length example_entropy \<in> {16, 20, 24, 28, 32}" by (simp add: example_entropy_def)
  from mnemonic_roundtrip [OF this] example_sentence show ?thesis by simp
qed

end
