(* ===== verification/Wallet.thy ===== *)
theory Wallet
  imports Keys Mnemonic Database
begin

text \<open>
  The wallet (\<open>wallet/hdwallet.go\<close>, \<open>utils.go\<close>, \<open>error.go\<close>, \<open>aes.go\<close>, \<open>wallet.go\<close>): extended keys and
  their serialized form, key derivation, the encryption of the wallet file, and the operations on
  accounts.

  HMAC-SHA512, PBKDF2, AES-GCM, the JSON form of a wallet and the file system are the fields of an
  environment record; random bytes are arguments. \<open>None\<close> as the result of an operation that derives
  a key means that the loop of \<open>GenerateSpendingKey\<close> does not end.
\<close>

subsection \<open>Errors and constants\<close>

datatype wallet_code = InvalidChecksumErr | WrongPassphraseErr | ExistedAccountErr | ExistedAccountNameErr | UnexpectedErr

definition wallet_ErrCodeMessage :: "wallet_code \<Rightarrow> int \<times> string" where
  "wallet_ErrCodeMessage k = (case k of
       UnexpectedErr \<Rightarrow> (-1, ''Unexpected error'')
     | InvalidChecksumErr \<Rightarrow> (-1000, ''Checksum does not match'')
     | WrongPassphraseErr \<Rightarrow> (-1001, ''Wrong passphrase'')
     | ExistedAccountErr \<Rightarrow> (-1002, ''Existed account'')
     | ExistedAccountNameErr \<Rightarrow> (-1002, ''Existed account name''))"

datatype wallet_error = WalletError wallet_code | Base58Error base58_error

definition PriKeyType :: byte where
  "PriKeyType = 0"

definition PaymentAddressType :: byte where
  "PaymentAddressType = 1"

definition ReadonlyKeyType :: byte where
  "ReadonlyKeyType = 2"

subsection \<open>Extended keys\<close>

record Key =
  Depth :: byte
  ChildNumber :: bytes
  ChainCode :: bytes
  key_KeySet :: KeySet

definition empty_Key :: Key where
  "empty_Key = \<lparr>Depth = 0, ChildNumber = [], ChainCode = [], key_KeySet = empty_KeySet\<rparr>"

definition addChecksumToBytes :: "bytes \<Rightarrow> bytes" where
  "addChecksumToBytes data = data @ ChecksumFirst4Bytes data"

definition uint32Bytes :: "u32 \<Rightarrow> bytes" where
  "uint32Bytes i = [ucast (drop_bit 24 i), ucast (drop_bit 16 i), ucast (drop_bit 8 i), ucast i]"

text \<open>A byte slice behind its length byte; the length is converted to a byte.\<close>

definition with_length :: "bytes \<Rightarrow> bytes" where
  "with_length b = of_nat (length b) # b"

definition Serialize :: "Key \<Rightarrow> byte \<Rightarrow> bytes" where
  "Serialize key keyType =
     (let ks = key_KeySet key;
          body = (if keyType = PriKeyType
                  then [Depth key] @ ChildNumber key @ ChainCode key @ with_length (PrivateKey ks)
                  else if keyType = PaymentAddressType
                  then with_length (Pk (ks_PaymentAddress ks)) @ with_length (Tk (ks_PaymentAddress ks))
                  else if keyType = ReadonlyKeyType
                  then with_length (vk_Pk (ReadonlyKey ks)) @ with_length (vk_Rk (ReadonlyKey ks))
                  else [])
      in addChecksumToBytes (keyType # body))"

definition Base58CheckSerialize :: "Key \<Rightarrow> byte \<Rightarrow> string" where
  "Base58CheckSerialize key keyType = Base58Check_Encode (Serialize key keyType) 0"

text \<open>
  Indexing \<open>data[i]\<close> is checked against the length, slicing \<open>data[lo:hi]\<close> against the capacity: the
  decoded slice may have spare bytes behind its length, which are zero.
\<close>

definition index_at :: "bytes \<Rightarrow> nat \<Rightarrow> (wallet_error, byte) res" where
  "index_at data i = (if i < length data then Ok (data ! i) else Panic)"

definition slice_to :: "nat \<Rightarrow> bytes \<Rightarrow> nat \<Rightarrow> nat \<Rightarrow> (wallet_error, bytes) res" where
  "slice_to spare data lo hi =
     (if lo \<le> hi \<and> hi \<le> length data + spare
      then Ok (take (hi - lo) (drop lo (data @ replicate spare 0))) else Panic)"

text \<open>The two length-prefixed slices of an address or a read-only key, from index 1 on.\<close>

definition two_slices :: "nat \<Rightarrow> bytes \<Rightarrow> (wallet_error, bytes \<times> bytes) res" where
  "two_slices spare data =
     and_then (index_at data 1) (\<lambda>a.
     and_then (index_at data (unat a + 2)) (\<lambda>b.
     and_then (slice_to spare data 2 (2 + unat a)) (\<lambda>x.
     and_then (slice_to spare data (3 + unat a) (3 + unat a + unat b)) (\<lambda>y. Ok (x, y)))))"

definition Deserialize_key :: "nat \<Rightarrow> bytes \<Rightarrow> (wallet_error, Key) res" where
  "Deserialize_key spare data =
     and_then (index_at data 0) (\<lambda>keyType.
       if keyType = PriKeyType then
         and_then (index_at data 1) (\<lambda>d.
         and_then (slice_to spare data 2 6) (\<lambda>n.
         and_then (slice_to spare data 6 38) (\<lambda>c.
         and_then (index_at data 38) (\<lambda>l.
         and_then (slice_to spare data 39 (39 + unat l)) (\<lambda>k.
           Ok \<lparr>Depth = d, ChildNumber = n, ChainCode = c, key_KeySet = empty_KeySet\<lparr>PrivateKey := k\<rparr>\<rparr>)))))
       else if keyType = PaymentAddressType then
         and_then (two_slices spare data) (\<lambda>(p, t).
           Ok (empty_Key\<lparr>key_KeySet := empty_KeySet\<lparr>ks_PaymentAddress := \<lparr>Pk = p, Tk = t\<rparr>\<rparr>\<rparr>))
       else if keyType = ReadonlyKeyType then
         and_then (two_slices spare data) (\<lambda>(p, r).
           Ok (empty_Key\<lparr>key_KeySet := empty_KeySet\<lparr>ReadonlyKey := \<lparr>vk_Pk = p, vk_Rk = r\<rparr>\<rparr>\<rparr>))
       else Ok empty_Key)"

definition Deserialize :: "nat \<Rightarrow> bytes \<Rightarrow> (wallet_error, Key) res" where
  "Deserialize spare data =
     and_then (Deserialize_key spare data) (\<lambda>key.
       if length data < 4 then Panic
       else let n = length data - 4 in
            if ChecksumFirst4Bytes (take n data) \<noteq> drop n data then Err (WalletError InvalidChecksumErr)
            else Ok key)"

definition Base58CheckDeserialize :: "nat \<Rightarrow> string \<Rightarrow> (wallet_error, Key) res" where
  "Base58CheckDeserialize spare data =
     and_then (map_err Base58Error (Base58Check_Decode data)) (\<lambda>(b, _). Deserialize spare b)"

subsection \<open>Accounts and wallets\<close>

datatype Account = Account (acc_Name: string) (acc_Key: Key) (acc_Child: "Account list") (IsImported: bool)

record WalletConfig =
  wc_DataDir :: string
  wc_DataFile :: string
  DataPath :: string
  IncrementalFee :: u64

record Wallet =
  Seed :: bytes
  Entropy :: bytes
  PassPhrase :: string
  wal_Mnemonic :: string
  MasterAccount :: Account
  wal_Name :: string
  Config :: "WalletConfig option"

record KeySerializedData =
  kd_PrivateKey :: string
  kd_PaymentAddress :: string
  kd_ReadonlyKey :: string

definition empty_kd :: KeySerializedData where
  "empty_kd = \<lparr>kd_PrivateKey = [], kd_PaymentAddress = [], kd_ReadonlyKey = []\<rparr>"

text \<open>What the wallet uses of libraries and the operating system.\<close>

record wallet_env =
  we_curve :: curve
  HmacSha512 :: "bytes \<Rightarrow> bytes \<Rightarrow> bytes"
  SeedKdf :: "bytes \<Rightarrow> bytes \<Rightarrow> bytes"
  FileKdf :: "bytes \<Rightarrow> bytes \<Rightarrow> bytes"
  GcmSeal :: "bytes \<Rightarrow> bytes \<Rightarrow> bytes \<Rightarrow> bytes"
  GcmOpen :: "bytes \<Rightarrow> bytes \<Rightarrow> bytes \<Rightarrow> bytes option"
  MarshalWallet :: "Wallet \<Rightarrow> bytes option"
  UnmarshalWallet :: "bytes \<Rightarrow> Wallet \<Rightarrow> Wallet option"
  writable :: "string \<Rightarrow> bool"

type_synonym files = "string \<Rightarrow> bytes option"


subsection \<open>Key derivation\<close>

text \<open>An HMAC-SHA512 sum has 64 bytes: the key and the chain code.\<close>

definition NewMasterKey :: "wallet_env \<Rightarrow> bytes \<Rightarrow> Key option" where
  "NewMasterKey E seed =
     (let intermediary = HmacSha512 E (bytes_of_string ''Constant Seed'') seed
      in map_option (\<lambda>ks. \<lparr>Depth = 0, ChildNumber = [0, 0, 0, 0], ChainCode = drop 32 intermediary, key_KeySet = ks\<rparr>)
           (GenerateKey (we_curve E) (take 32 intermediary)))"

definition getIntermediary :: "wallet_env \<Rightarrow> Key \<Rightarrow> u32 \<Rightarrow> bytes" where
  "getIntermediary E key childIdx = HmacSha512 E (ChainCode key) (uint32Bytes childIdx)"

definition NewChildKey :: "wallet_env \<Rightarrow> Key \<Rightarrow> u32 \<Rightarrow> Key option" where
  "NewChildKey E key childIdx =
     (let intermediary = getIntermediary E key childIdx
      in map_option (\<lambda>ks. \<lparr>Depth = Depth key + 1, ChildNumber = uint32Bytes childIdx,
                           ChainCode = drop 32 intermediary, key_KeySet = ks\<rparr>)
           (GenerateKey (we_curve E) (take 32 intermediary)))"

subsection \<open>Encryption of the wallet file\<close>

text \<open>
  \<open>deriveKey\<close> draws a salt when it has none. \<open>hex.DecodeString\<close> returns the bytes decoded before an
  error, and \<open>Decrypt\<close> ignores the error.
\<close>

definition deriveKey :: "wallet_env \<Rightarrow> string \<Rightarrow> bytes option \<Rightarrow> bytes \<Rightarrow> bytes \<times> bytes" where
  "deriveKey E passPhrase salt random =
     (let s = (case salt of None \<Rightarrow> random | Some s \<Rightarrow> s) in (FileKdf E (bytes_of_string passPhrase) s, s))"

definition AES_Encrypt :: "wallet_env \<Rightarrow> bytes \<Rightarrow> bytes \<Rightarrow> string \<Rightarrow> bytes \<Rightarrow> string" where
  "AES_Encrypt E rnd_salt iv passphrase plaintext =
     (let (key, salt) = deriveKey E passphrase None rnd_salt;
          data = GcmSeal E key iv plaintext
      in hex_EncodeToString salt @ ''-'' @ hex_EncodeToString iv @ ''-'' @ hex_EncodeToString data)"

fun hex_prefix :: "string \<Rightarrow> bytes" where
  "hex_prefix (p # q # s) =
     (case (fromHexChar p, fromHexChar q) of
        (Some a, Some b) \<Rightarrow> of_nat (a * 16 + b) # hex_prefix s
      | _ \<Rightarrow> [])"
| "hex_prefix s = []"

text \<open>\<open>Open\<close> panics on an initial vector that has not 12 bytes.\<close>

definition AES_Decrypt :: "wallet_env \<Rightarrow> string \<Rightarrow> string \<Rightarrow> (wallet_error, bytes) res" where
  "AES_Decrypt E passPhrase cipherText =
     (let arr = strings_Split cipherText ''-'' in
      if length arr < 3 then Panic
      else let salt = hex_prefix (arr ! 0); iv = hex_prefix (arr ! 1); data = hex_prefix (arr ! 2);
               (key, _) = deriveKey E passPhrase (Some salt) []
           in if length iv \<noteq> 12 then Panic
              else case GcmOpen E key iv data of None \<Rightarrow> Err (WalletError UnexpectedErr) | Some d \<Rightarrow> Ok d)"

definition Save :: "wallet_env \<Rightarrow> bytes \<Rightarrow> bytes \<Rightarrow> files \<Rightarrow> Wallet \<Rightarrow> string \<Rightarrow> (wallet_error, unit) res \<times> files" where
  "Save E rnd_salt iv fs self password =
     (let pw = (if password = '''' then PassPhrase self else password) in
      case MarshalWallet E self of
        None \<Rightarrow> (Err (WalletError UnexpectedErr), fs)
      | Some data \<Rightarrow>
          (let cipherText = AES_Encrypt E rnd_salt iv pw data in
           case Config self of
             None \<Rightarrow> (Panic, fs)
           | Some c \<Rightarrow> if \<not> writable E (DataPath c) then (Err (WalletError UnexpectedErr), fs)
                       else (Ok (), fs(DataPath c \<mapsto> bytes_of_string cipherText))))"

definition LoadWallet :: "wallet_env \<Rightarrow> files \<Rightarrow> Wallet \<Rightarrow> string \<Rightarrow> (wallet_error, Wallet) res" where
  "LoadWallet E fs self password =
     (case Config self of
        None \<Rightarrow> Panic
      | Some c \<Rightarrow> (case fs (DataPath c) of
            None \<Rightarrow> Err (WalletError UnexpectedErr)
          | Some bytesData \<Rightarrow>
              and_then (AES_Decrypt E password (string_of_bytes bytesData)) (\<lambda>bufBytes.
                case UnmarshalWallet E bufBytes self of
                  None \<Rightarrow> Err (WalletError UnexpectedErr) | Some w \<Rightarrow> Ok w)))"

subsection \<open>Operations on accounts\<close>

definition Child :: "Wallet \<Rightarrow> Account list" where
  "Child self = acc_Child (MasterAccount self)"

definition master_key :: "Wallet \<Rightarrow> Key" where
  "master_key self = acc_Key (MasterAccount self)"

definition set_Child :: "Wallet \<Rightarrow> Account list \<Rightarrow> Wallet" where
  "set_Child self cs =
     self\<lparr>MasterAccount := (case MasterAccount self of Account n k _ i \<Rightarrow> Account n k cs i)\<rparr>"

definition account_name :: "nat \<Rightarrow> string" where
  "account_name i = ''Account '' @ Itoa (int i)"

fun children_loop :: "wallet_env \<Rightarrow> Key \<Rightarrow> nat \<Rightarrow> nat \<Rightarrow> Account list option" where
  "children_loop E key 0 i = Some []"
| "children_loop E key (Suc n) i =
     (case NewChildKey E key (of_nat i) of
        None \<Rightarrow> None
      | Some childKey \<Rightarrow> map_option (Cons (Account (account_name i) childKey [] False)) (children_loop E key n (Suc i)))"

definition ignore_err :: "'a \<Rightarrow> ('e, 'a) res \<Rightarrow> ('f, 'a) res" where
  "ignore_err d r = (case r of Ok a \<Rightarrow> Ok a | Err _ \<Rightarrow> Ok d | Panic \<Rightarrow> Panic)"

text \<open>\<open>random\<close> is what \<open>rand.Read\<close> delivers for the entropy.\<close>

definition Wallet_Init :: "wallet_env \<Rightarrow> (nat \<Rightarrow> bytes) \<Rightarrow> Wallet \<Rightarrow> string \<Rightarrow> u32 \<Rightarrow> string \<Rightarrow>
    (wallet_error, Wallet) res option" where
  "Wallet_Init E random self passPhrase numOfAccount name =
     (case and_then (ignore_err [] (NewEntropy random 128)) (\<lambda>entropy.
             and_then (ignore_err [] (NewMnemonic entropy)) (\<lambda>mnemonic. Ok (entropy, mnemonic))) of
        Err e \<Rightarrow> Some (Err e)
      | Panic \<Rightarrow> Some Panic
      | Ok (entropy, mnemonic) \<Rightarrow>
          (let seed = NewSeed (SeedKdf E) mnemonic passPhrase;
               n = (if numOfAccount = 0 then 1 else numOfAccount)
           in case NewMasterKey E seed of
                None \<Rightarrow> None
              | Some masterKey \<Rightarrow>
                  map_option (\<lambda>cs. Ok (self\<lparr>wal_Name := name, Entropy := entropy, wal_Mnemonic := mnemonic, Seed := seed,
                      PassPhrase := passPhrase, MasterAccount := Account ''master'' masterKey cs False\<rparr>))
                    (children_loop E masterKey (unat n) 0)))"

text \<open>\<open>CreateNewAccount\<close> drops the error of \<open>Save\<close>, but not a panic.\<close>

definition CreateNewAccount :: "wallet_env \<Rightarrow> bytes \<Rightarrow> bytes \<Rightarrow> files \<Rightarrow> Wallet \<Rightarrow> string \<Rightarrow>
    ((wallet_error, Account) res \<times> Wallet \<times> files) option" where
  "CreateNewAccount E rnd_salt iv fs self accountName =
     (let newIndex = of_nat (length (Child self)) in
      case NewChildKey E (master_key self) newIndex of
        None \<Rightarrow> None
      | Some childKey \<Rightarrow>
          (let nm = (if accountName = '''' then account_name (length (Child self)) else accountName);
               account = Account nm childKey [] False;
               self' = set_Child self (Child self @ [account])
           in case Save E rnd_salt iv fs self' (PassPhrase self') of
                (Panic, fs') \<Rightarrow> Some (Panic, self', fs')
              | (_, fs') \<Rightarrow> Some (Ok account, self', fs')))"

definition ExportAccount :: "Wallet \<Rightarrow> u32 \<Rightarrow> (wallet_error, string) res" where
  "ExportAccount self childIndex =
     (if unat childIndex < length (Child self)
      then Ok (Base58CheckSerialize (acc_Key (Child self ! unat childIndex)) PriKeyType) else Panic)"

fun remove_loop :: "string \<Rightarrow> Account list \<Rightarrow> Account list option" where
  "remove_loop privateKeyStr [] = None"
| "remove_loop privateKeyStr (a # as) =
     (if Base58CheckSerialize (acc_Key a) PriKeyType = privateKeyStr then Some as
      else map_option (Cons a) (remove_loop privateKeyStr as))"

definition RemoveAccount :: "Wallet \<Rightarrow> string \<Rightarrow> string \<Rightarrow> string \<Rightarrow> (wallet_error, unit) res \<times> Wallet" where
  "RemoveAccount self privateKeyStr accountName passPhrase =
     (if passPhrase \<noteq> PassPhrase self then (Err (WalletError WrongPassphraseErr), self)
      else case remove_loop privateKeyStr (Child self) of
             None \<Rightarrow> (Err (WalletError UnexpectedErr), self)
           | Some cs \<Rightarrow> (Ok (), set_Child self cs))"

fun import_check :: "string \<Rightarrow> string \<Rightarrow> Account list \<Rightarrow> (wallet_error, unit) res" where
  "import_check privateKeyStr accountName [] = Ok ()"
| "import_check privateKeyStr accountName (a # as) =
     (if Base58CheckSerialize (acc_Key a) PriKeyType = privateKeyStr then Err (WalletError ExistedAccountErr)
      else if acc_Name a = accountName then Err (WalletError ExistedAccountNameErr)
      else import_check privateKeyStr accountName as)"

definition ImportAccount :: "wallet_env \<Rightarrow> nat \<Rightarrow> bytes \<Rightarrow> bytes \<Rightarrow> files \<Rightarrow> Wallet \<Rightarrow> string \<Rightarrow> string \<Rightarrow> string \<Rightarrow>
    (wallet_error, Account) res \<times> Wallet \<times> files" where
  "ImportAccount E spare rnd_salt iv fs self privateKeyStr accountName passPhrase =
     (if passPhrase \<noteq> PassPhrase self then (Err (WalletError WrongPassphraseErr), self, fs)
      else case and_then (import_check privateKeyStr accountName (Child self))
                  (\<lambda>_. Base58CheckDeserialize spare privateKeyStr) of
             Err e \<Rightarrow> (Err e, self, fs)
           | Panic \<Rightarrow> (Panic, self, fs)
           | Ok priKey \<Rightarrow>
               (let key = priKey\<lparr>key_KeySet := ImportFromPrivateKey (we_curve E) (PrivateKey (key_KeySet priKey))\<rparr>;
                    account = Account accountName key [] True;
                    self' = set_Child self (Child self @ [account])
                in case Save E rnd_salt iv fs self' (PassPhrase self') of
                     (Ok _, fs') \<Rightarrow> (Ok account, self', fs')
                   | (Err e, fs') \<Rightarrow> (Err e, self', fs')
                   | (Panic, fs') \<Rightarrow> (Panic, self', fs')))"

definition address_data :: "Key \<Rightarrow> KeySerializedData" where
  "address_data key = empty_kd\<lparr>kd_PaymentAddress := Base58CheckSerialize key PaymentAddressType,
                               kd_ReadonlyKey := Base58CheckSerialize key ReadonlyKeyType\<rparr>"

definition DumpPrivkey :: "Wallet \<Rightarrow> string \<Rightarrow> KeySerializedData" where
  "DumpPrivkey self addressP =
     (case find (\<lambda>a. Base58CheckSerialize (acc_Key a) PaymentAddressType = addressP) (Child self) of
        None \<Rightarrow> empty_kd
      | Some a \<Rightarrow> empty_kd\<lparr>kd_PrivateKey := Base58CheckSerialize (acc_Key a) PriKeyType\<rparr>)"

definition GetAccountAddress :: "wallet_env \<Rightarrow> bytes \<Rightarrow> bytes \<Rightarrow> files \<Rightarrow> Wallet \<Rightarrow> string \<Rightarrow>
    ((wallet_error, KeySerializedData) res \<times> Wallet \<times> files) option" where
  "GetAccountAddress E rnd_salt iv fs self accountParam =
     (case find (\<lambda>a. acc_Name a = accountParam) (Child self) of
        Some a \<Rightarrow> Some (Ok (address_data (acc_Key a)), self, fs)
      | None \<Rightarrow> map_option (\<lambda>(r, self', fs'). (and_then r (\<lambda>a. Ok (address_data (acc_Key a))), self', fs'))
                  (CreateNewAccount E rnd_salt iv fs self accountParam))"

definition GetAddressesByAccount :: "Wallet \<Rightarrow> string \<Rightarrow> KeySerializedData list" where
  "GetAddressesByAccount self accountParam =
     map (\<lambda>a. address_data (acc_Key a)) (filter (\<lambda>a. acc_Name a = accountParam) (Child self))"

definition ListAccounts :: "Wallet \<Rightarrow> string \<Rightarrow> Account option" where
  "ListAccounts self = foldl (\<lambda>m a. m(acc_Name a \<mapsto> a)) Map.empty (Child self)"


subsection \<open>Reading back what was written\<close>

lemma slice_to_middle: "slice_to spare (a @ b @ c) (length a) (length a + length b) = Ok b"
  by (simp add: slice_to_def)

lemma index_at_middle: "index_at (a @ x # c) (length a) = Ok x"
  by (simp add: index_at_def)

lemma unat_length_byte: "length b < 256 \<Longrightarrow> unat (of_nat (length b) :: byte) = length b"
  by (simp add: unat_of_nat take_bit_nat_eq_self)

lemma two_slices_written:
  assumes p: "length p < 256" and t: "length t < 256"
  shows "two_slices spare (ty # with_length p @ with_length t @ ck) = Ok (p, t)"
proof -
  let ?d = "ty # with_length p @ with_length t @ ck"
  have 1: "index_at ?d 1 = Ok (of_nat (length p))"
    using index_at_middle [of "[ty]"] by (simp add: with_length_def)
  have 2: "index_at ?d (length p + 2) = Ok (of_nat (length t))"
    using index_at_middle [of "ty # with_length p"] by (simp add: with_length_def)
  have 3: "slice_to spare ?d 2 (2 + length p) = Ok p"
    using slice_to_middle [of spare "[ty, of_nat (length p)]" p] by (simp add: with_length_def numeral_2_eq_2)
  have 4: "slice_to spare ?d (3 + length p) (3 + length p + length t) = Ok t"
    using slice_to_middle [of spare "ty # with_length p @ [of_nat (length t)]" t ck]
    by (simp add: with_length_def numeral_3_eq_3)
  show ?thesis
    unfolding two_slices_def 1 by (simp add: unat_length_byte p t 2 3 4 del: add_2_eq_Suc' add_2_eq_Suc)
qed

lemma private_key_written:
  assumes n: "length n = 4" and c: "length c = 32" and k: "length k < 256"
  shows "Deserialize_key spare ((PriKeyType # d # n @ c @ with_length k) @ ck)
    = Ok \<lparr>Depth = d, ChildNumber = n, ChainCode = c, key_KeySet = empty_KeySet\<lparr>PrivateKey := k\<rparr>\<rparr>"
proof -
  let ?d = "PriKeyType # d # n @ c @ with_length k @ ck"
  have 0: "index_at ?d 0 = Ok PriKeyType" "index_at ?d 1 = Ok d"
    using index_at_middle [of "[]"] index_at_middle [of "[PriKeyType]"] by simp_all
  have 1: "slice_to spare ?d 2 6 = Ok n" "slice_to spare ?d 6 38 = Ok c"
    using slice_to_middle [of spare "[PriKeyType, d]" n] slice_to_middle [of spare "PriKeyType # d # n" c] n c
    by (simp_all add: numeral_2_eq_2)
  have 2: "index_at ?d 38 = Ok (of_nat (length k))" "slice_to spare ?d 39 (39 + length k) = Ok k"
    using index_at_middle [of "PriKeyType # d # n @ c"]
      slice_to_middle [of spare "PriKeyType # d # n @ c @ [of_nat (length k)]" k ck] n c
    by (simp_all add: with_length_def)
  show ?thesis
    unfolding Deserialize_key_def by (simp add: 0 1 2 unat_length_byte [OF k] del: One_nat_def)
qed

lemma Deserialize_checksummed:
  "Deserialize_key spare (addChecksumToBytes b) = Ok key \<Longrightarrow> Deserialize spare (addChecksumToBytes b) = Ok key"
  by (simp add: Deserialize_def addChecksumToBytes_def Let_def)

lemma Base58CheckDeserialize_serialized:
  "Base58CheckDeserialize spare (Base58CheckSerialize key t) = Deserialize spare (Serialize key t)"
  by (simp add: Base58CheckDeserialize_def Base58CheckSerialize_def Base58Check_Decode_Encode)

definition key_sizes :: "Key \<Rightarrow> bool" where
  "key_sizes k \<longleftrightarrow> length (ChildNumber k) = 4 \<and> length (ChainCode k) = 32 \<and> length (PrivateKey (key_KeySet k)) < 256 \<and>
     length (Pk (ks_PaymentAddress (key_KeySet k))) < 256 \<and> length (Tk (ks_PaymentAddress (key_KeySet k))) < 256 \<and>
     length (vk_Pk (ReadonlyKey (key_KeySet k))) < 256 \<and> length (vk_Rk (ReadonlyKey (key_KeySet k))) < 256"

definition private_part :: "Key \<Rightarrow> Key" where
  "private_part k = k\<lparr>key_KeySet := empty_KeySet\<lparr>PrivateKey := PrivateKey (key_KeySet k)\<rparr>\<rparr>"

lemmas key_type_defs = PriKeyType_def PaymentAddressType_def ReadonlyKeyType_def

lemma read_serialized:
  assumes "Serialize k t = addChecksumToBytes b" and "Deserialize_key spare (addChecksumToBytes b) = Ok key"
  shows "Base58CheckDeserialize spare (Base58CheckSerialize k t) = Ok key"
  using assms Deserialize_checksummed by (simp add: Base58CheckDeserialize_serialized)

lemma read_private_key:
  assumes "key_sizes k"
  shows "Base58CheckDeserialize spare (Base58CheckSerialize k PriKeyType) = Ok (private_part k)"
proof (rule read_serialized)
  let ?b = "PriKeyType # Depth k # ChildNumber k @ ChainCode k @ with_length (PrivateKey (key_KeySet k))"
  show "Serialize k PriKeyType = addChecksumToBytes ?b"
    by (simp add: Serialize_def Let_def)
  show "Deserialize_key spare (addChecksumToBytes ?b) = Ok (private_part k)"
    unfolding addChecksumToBytes_def using assms
    by (subst private_key_written) (simp_all add: key_sizes_def private_part_def)
qed

lemma read_payment_address:
  assumes "key_sizes k"
  shows "Base58CheckDeserialize spare (Base58CheckSerialize k PaymentAddressType)
     = Ok (empty_Key\<lparr>key_KeySet := empty_KeySet\<lparr>ks_PaymentAddress := ks_PaymentAddress (key_KeySet k)\<rparr>\<rparr>)"
proof (rule read_serialized)
  let ?a = "ks_PaymentAddress (key_KeySet k)"
  let ?b = "PaymentAddressType # with_length (Pk ?a) @ with_length (Tk ?a)"
  show "Serialize k PaymentAddressType = addChecksumToBytes ?b"
    by (simp add: Serialize_def Let_def key_type_defs)
  show "Deserialize_key spare (addChecksumToBytes ?b)
      = Ok (empty_Key\<lparr>key_KeySet := empty_KeySet\<lparr>ks_PaymentAddress := ?a\<rparr>\<rparr>)"
    using assms two_slices_written [of "Pk ?a" "Tk ?a" spare PaymentAddressType]
    by (simp add: key_sizes_def addChecksumToBytes_def Deserialize_key_def key_type_defs index_at_def)
qed

lemma read_readonly_key:
  assumes "key_sizes k"
  shows "Base58CheckDeserialize spare (Base58CheckSerialize k ReadonlyKeyType)
     = Ok (empty_Key\<lparr>key_KeySet := empty_KeySet\<lparr>ReadonlyKey := ReadonlyKey (key_KeySet k)\<rparr>\<rparr>)"
proof (rule read_serialized)
  let ?a = "ReadonlyKey (key_KeySet k)"
  let ?b = "ReadonlyKeyType # with_length (vk_Pk ?a) @ with_length (vk_Rk ?a)"
  show "Serialize k ReadonlyKeyType = addChecksumToBytes ?b"
    by (simp add: Serialize_def Let_def key_type_defs)
  show "Deserialize_key spare (addChecksumToBytes ?b)
      = Ok (empty_Key\<lparr>key_KeySet := empty_KeySet\<lparr>ReadonlyKey := ?a\<rparr>\<rparr>)"
    using assms two_slices_written [of "vk_Pk ?a" "vk_Rk ?a" spare ReadonlyKeyType]
    by (simp add: key_sizes_def addChecksumToBytes_def Deserialize_key_def key_type_defs index_at_def)
qed

lemma read_unknown_type:
  assumes "t \<notin> {PriKeyType, PaymentAddressType, ReadonlyKeyType}"
  shows "Base58CheckDeserialize spare (Base58CheckSerialize k t) = Ok empty_Key"
proof (rule read_serialized)
  show "Serialize k t = addChecksumToBytes [t]"
    using assms by (simp add: Serialize_def Let_def)
  show "Deserialize_key spare (addChecksumToBytes [t]) = Ok empty_Key"
    using assms by (simp add: addChecksumToBytes_def Deserialize_key_def index_at_def)
qed


subsection \<open>The encrypted file\<close>

lemma hex_no_dash: "CHR ''-'' \<notin> set (hex_EncodeToString b)"
  using hash_String_no_dash [of "rev b"] by (simp add: hash_String_def)

lemma hex_prefix_Decode: "hex_Decode s = Ok b \<Longrightarrow> hex_prefix s = b"
  by (induction s arbitrary: b rule: hex_prefix.induct) (auto simp: go_simps split: option.splits)

lemma hex_prefix_Encode [simp]: "hex_prefix (hex_EncodeToString b) = b"
  using hex_prefix_Decode hex_Decode_Encode by blast

lemma split_cipher_text:
  "strings_Split (hex_EncodeToString a @ ''-'' @ hex_EncodeToString b @ ''-'' @ hex_EncodeToString c) ''-''
     = [hex_EncodeToString a, hex_EncodeToString b, hex_EncodeToString c]"
  by (simp only: strings_Split_field [OF refl hex_no_dash] strings_Split_1 [OF refl hex_no_dash])

lemma Decrypt_Encrypt:
  assumes "length iv = 12"
  shows "AES_Decrypt E pw (AES_Encrypt E rnd_salt iv pw' d) =
    (let key = FileKdf E (bytes_of_string pw) rnd_salt;
         data = GcmSeal E (FileKdf E (bytes_of_string pw') rnd_salt) iv d
     in case GcmOpen E key iv data of None \<Rightarrow> Err (WalletError UnexpectedErr) | Some d' \<Rightarrow> Ok d')"
  using assms by (simp add: AES_Decrypt_def AES_Encrypt_def deriveKey_def split_cipher_text [simplified] Let_def)

definition can_save :: "wallet_env \<Rightarrow> Wallet \<Rightarrow> bool" where
  "can_save E w \<longleftrightarrow> MarshalWallet E w \<noteq> None \<and> (\<exists>c. Config w = Some c \<and> writable E (DataPath c))"

lemma Save_Ok:
  "can_save E w \<Longrightarrow> \<exists>fs'. Save E rnd_salt iv fs w pw = (Ok (), fs')"
  by (auto simp: can_save_def Save_def Let_def)

subsection \<open>Lists of accounts\<close>

lemma Child_set_Child [simp]: "Child (set_Child w cs) = cs"
  by (cases "MasterAccount w") (simp add: Child_def set_Child_def)

lemma set_Child_frame [simp]:
  "PassPhrase (set_Child w cs) = PassPhrase w" "Config (set_Child w cs) = Config w"
  "master_key (set_Child w cs) = master_key w"
  by (cases "MasterAccount w"; simp add: set_Child_def master_key_def)+

lemma children_loop_keys:
  "children_loop E key n i = Some cs \<Longrightarrow>
     length cs = n \<and> (\<forall>j < n. NewChildKey E key (of_nat (i + j)) = Some (acc_Key (cs ! j)))"
proof (induction n arbitrary: i cs)
  case (Suc n)
  then obtain k cs' where k: "NewChildKey E key (of_nat i) = Some k" "children_loop E key n (Suc i) = Some cs'"
    and cs: "cs = Account (account_name i) k [] False # cs'"
    by (auto split: option.splits)
  have "NewChildKey E key (of_nat (i + j)) = Some (acc_Key (cs ! j))" if "j < Suc n" for j
  proof (cases j)
    case 0
    then show ?thesis using k cs by simp
  next
    case (Suc m)
    then have "NewChildKey E key (of_nat (Suc i + m)) = Some (acc_Key (cs' ! m))"
      using Suc.IH [OF k(2)] that by blast
    then show ?thesis using cs Suc by (simp add: add.assoc)
  qed
  then show ?case using Suc.IH [OF k(2)] cs by simp
qed simp

lemma remove_keeps_last:
  assumes "Suc j < length as"
  obtains as' where "remove_loop (Base58CheckSerialize (acc_Key (as ! j)) PriKeyType) as = Some as'"
    and "Suc (length as') = length as" and "last as \<in> set as'"
proof -
  let ?s = "\<lambda>a. Base58CheckSerialize (acc_Key a) PriKeyType"
  have "\<exists>as'. remove_loop (?s (as ! j)) as = Some as' \<and> Suc (length as') = length as \<and> last as \<in> set as'"
    using assms
  proof (induction as arbitrary: j)
    case (Cons a as)
    show ?case
    proof (cases "?s a = ?s ((a # as) ! j)")
      case True
      then show ?thesis using Cons.prems by (cases as) auto
    next
      case False
      then obtain i where i: "j = Suc i" by (cases j) auto
      then have "Suc i < length as" using Cons.prems by simp
      then show ?thesis using Cons.IH [of i] False i by auto
    qed
  qed simp
  then show thesis using that by blast
qed

lemma CreateNewAccount_key:
  assumes "NewChildKey E (master_key w) (of_nat (length (Child w))) = Some k"
  shows "\<exists>r w' fs' nm. CreateNewAccount E rnd_salt iv fs w name = Some (r, w', fs') \<and>
    Child w' = Child w @ [Account nm k [] False]"
  using assms by (auto simp: CreateNewAccount_def Let_def split: prod.splits res.splits)

lemma Wallet_Init_children:
  assumes "Wallet_Init E random w0 pw num name = Some (Ok w)" and "num \<noteq> 0"
  shows "PassPhrase w = pw" and "length (Child w) = unat num"
    and "j < unat num \<Longrightarrow> NewChildKey E (master_key w) (of_nat j) = Some (acc_Key (Child w ! j))"
  using assms children_loop_keys [of E _ "unat num" 0]
  by (auto simp: Wallet_Init_def Let_def Child_def master_key_def split: res.splits option.splits if_splits)


subsection \<open>Properties\<close>

interpretation key_text: codec "\<lambda>k. Base58CheckSerialize k PriKeyType" "Base58CheckDeserialize spare" Ok
  "\<lambda>k. key_sizes k \<and> private_part k = k"
  by unfold_locales (simp_all add: read_private_key)

text \<open>Claim C33 (roundtrip): an extended key written with \<open>Base58CheckSerialize\<close> is read back by \<open>Base58CheckDeserialize\<close>: as a
  private key it gives the depth, number, chain code and private key, as a payment address or a read-only
  key only the address or the read-only key; any other key type writes nothing and is read as an empty key.\<close>

theorem wallet_key_roundtrip:
  assumes "key_sizes k"
  shows "Base58CheckDeserialize spare (Base58CheckSerialize k PriKeyType) = Ok (private_part k) \<and>
    Base58CheckDeserialize spare (Base58CheckSerialize k PaymentAddressType)
      = Ok (empty_Key\<lparr>key_KeySet := empty_KeySet\<lparr>ks_PaymentAddress := ks_PaymentAddress (key_KeySet k)\<rparr>\<rparr>) \<and>
    Base58CheckDeserialize spare (Base58CheckSerialize k ReadonlyKeyType)
      = Ok (empty_Key\<lparr>key_KeySet := empty_KeySet\<lparr>ReadonlyKey := ReadonlyKey (key_KeySet k)\<rparr>\<rparr>) \<and>
    (\<forall>t. t \<notin> {PriKeyType, PaymentAddressType, ReadonlyKeyType} \<longrightarrow>
       Base58CheckDeserialize spare (Base58CheckSerialize k t) = Ok empty_Key)"
  using read_private_key [OF assms] read_payment_address [OF assms] read_readonly_key [OF assms] read_unknown_type
  by blast

text \<open>An account exported from one wallet and imported into another keeps its whole key, when the key was
  made by the wallet (its addresses belong to its private key), the other wallet has neither the key nor
  the name, the passphrase is right and the file can be written.\<close>

theorem export_import_account:
  assumes i: "unat i < length (Child w)" and k: "k = acc_Key (Child w ! unat i)"
    and sizes: "key_sizes k" and made: "key_KeySet k = keyset_of (we_curve E) (PrivateKey (key_KeySet k))"
    and free: "import_check (Base58CheckSerialize k PriKeyType) name (Child w') = Ok ()"
    and save: "can_save E (set_Child w' (Child w' @ [Account name k [] True]))"
  shows "\<exists>s w'' fs'. ExportAccount w i = Ok s \<and>
    ImportAccount E spare rnd_salt iv fs w' s name (PassPhrase w') = (Ok (Account name k [] True), w'', fs') \<and>
    Child w'' = Child w' @ [Account name k [] True]"
proof -
  have "(private_part k)\<lparr>key_KeySet := ImportFromPrivateKey (we_curve E) (PrivateKey (key_KeySet (private_part k)))\<rparr> = k"
    using made by (simp add: private_part_def ImportFromPrivateKey_def)
  moreover obtain fs' where "Save E rnd_salt iv fs (set_Child w' (Child w' @ [Account name k [] True])) (PassPhrase w')
      = (Ok (), fs')"
    using Save_Ok [OF save] by blast
  ultimately show ?thesis
    using i free by (simp add: ExportAccount_def ImportAccount_def read_private_key [OF sizes] Let_def flip: k)
qed

text \<open>A wallet that was saved is restored by \<open>LoadWallet\<close> with the same password (the passphrase when
  it was saved with the empty password), whatever wallet it is loaded into, given that AES-GCM and the JSON
  form invert; with a password whose key does not open the file the wallet is not loaded.\<close>

theorem wallet_save_load:
  assumes gcm: "\<And>key iv d. GcmOpen E key iv (GcmSeal E key iv d) = Some d" and iv: "length iv = 12"
    and json: "MarshalWallet E w = Some d" "UnmarshalWallet E d v = Some w"
    and cfg: "Config w = Some c" "writable E (DataPath c)" "Config v = Some c'" "DataPath c' = DataPath c"
    and pw: "pw = (if password = '''' then PassPhrase w else password)"
  shows "\<exists>fs'. Save E rnd_salt iv fs w password = (Ok (), fs') \<and> LoadWallet E fs' v pw = Ok w \<and>
    (\<forall>bad. GcmOpen E (FileKdf E (bytes_of_string bad) rnd_salt) iv
             (GcmSeal E (FileKdf E (bytes_of_string pw) rnd_salt) iv d) = None
       \<longrightarrow> LoadWallet E fs' v bad = Err (WalletError UnexpectedErr))"
  using cfg json gcm
  by (simp add: Save_def LoadWallet_def Decrypt_Encrypt [OF iv] Let_def flip: pw)

text \<open>Account keys repeat. After removing any account but the last of a fresh wallet, the next account
  created gets the key of the last account, which is still in the wallet: the index of a new key is the
  number of accounts.\<close>

theorem account_key_reused:
  assumes init: "Wallet_Init E random w0 pw num name = Some (Ok w)" and j: "Suc (unat j) < unat num"
  shows "\<exists>s w1 r w2 fs' a. ExportAccount w j = Ok s \<and> RemoveAccount w s nm pw = (Ok (), w1) \<and>
    last (Child w) \<in> set (Child w1) \<and>
    CreateNewAccount E rnd_salt iv fs w1 nm' = Some (r, w2, fs') \<and>
    Child w2 = Child w1 @ [a] \<and> acc_Key a = acc_Key (last (Child w))"
proof -
  have "num \<noteq> 0" using j by auto
  note w = Wallet_Init_children [OF init this]
  obtain cs where cs: "remove_loop (Base58CheckSerialize (acc_Key (Child w ! unat j)) PriKeyType) (Child w) = Some cs"
    "Suc (length cs) = unat num" "last (Child w) \<in> set cs"
    using remove_keeps_last [of "unat j" "Child w"] j w(2) by metis
  have "last (Child w) = Child w ! length cs"
    using cs(2) w(2) by (metis diff_Suc_1 last_conv_nth length_0_conv nat.distinct(1))
  then have "NewChildKey E (master_key (set_Child w cs)) (of_nat (length (Child (set_Child w cs))))
      = Some (acc_Key (last (Child w)))"
    using w(3) [of "length cs"] cs(2) by simp
  then obtain r w2 fs' nm2 where "CreateNewAccount E rnd_salt iv fs (set_Child w cs) nm' = Some (r, w2, fs')"
    "Child w2 = cs @ [Account nm2 (acc_Key (last (Child w))) [] False]"
    using CreateNewAccount_key by fastforce
  then show ?thesis
    using j w(1,2) cs by (simp add: ExportAccount_def RemoveAccount_def)
qed

subsection \<open>Witnesses\<close>

text \<open>An environment with a group order above every hash, so that one hash makes a key.\<close>

definition example_key_curve :: curve where
  "example_key_curve = example_curve\<lparr>cN := 2 ^ 256\<rparr>"

definition example_key :: Key where
  "example_key = \<lparr>Depth = 1, ChildNumber = [0, 0, 0, 1], ChainCode = replicate 32 2,
     key_KeySet = keyset_of example_key_curve (replicate 32 3)\<rparr>"

definition example_wallet :: Wallet where
  "example_wallet = \<lparr>Seed = [], Entropy = [], PassPhrase = ''pass'', wal_Mnemonic = '''',
     MasterAccount = Account ''master'' example_key [Account ''Account 0'' example_key [] False] False, wal_Name = ''w'',
     Config = Some \<lparr>wc_DataDir = ''d'', wc_DataFile = ''f'', DataPath = ''d/f'', IncrementalFee = 0\<rparr>\<rparr>"

definition example_wallet_env :: wallet_env where
  "example_wallet_env = \<lparr>we_curve = example_key_curve, HmacSha512 = \<lambda>k d. replicate 64 1, SeedKdf = \<lambda>p s. p,
     FileKdf = \<lambda>p s. p, GcmSeal = \<lambda>k iv d. k @ d,
     GcmOpen = \<lambda>k iv d. if take (length k) d = k then Some (drop (length k) d) else None,
     MarshalWallet = \<lambda>w. Some [], UnmarshalWallet = \<lambda>d v. Some example_wallet, writable = \<lambda>p. True\<rparr>"

lemma example_point: "CompressPoint example_key_curve (0, 1) = 1 # replicate 32 0"
  by (simp add: CompressPoint_def example_key_curve_def example_curve_def paddedAppend_def isOdd_def PointCompressed_def bit_0)

lemma example_key_sizes: "key_sizes example_key"
proof -
  have p: "ScalarBaseMult example_key_curve k = (0, 1)" "ScalarMult example_key_curve q k = q" for k q
    by (simp_all add: example_key_curve_def example_curve_def)
  show ?thesis
    by (simp add: key_sizes_def example_key_def keyset_of_def GeneratePaymentAddress_def GenerateViewingKey_def
        GeneratePublicKey_def GenerateTransmissionKey_def GenerateReceivingKey_def Let_def p example_point)
qed

theorem wallet_key_roundtrip_witness:
  "Base58CheckDeserialize 5 (Base58CheckSerialize example_key PriKeyType) = Ok (private_part example_key) \<and>
   Base58CheckDeserialize 5 (Base58CheckSerialize example_key 7) = Ok empty_Key"
  using wallet_key_roundtrip [OF example_key_sizes, of 5] by (simp add: key_type_defs)

lemma example_wallet_parts:
  "Child example_wallet = [Account ''Account 0'' example_key [] False]" "PassPhrase example_wallet = ''pass''"
  "key_KeySet example_key = keyset_of example_key_curve (PrivateKey (key_KeySet example_key))"
  "can_save example_wallet_env (set_Child example_wallet cs)"
  by (simp_all add: example_wallet_def Child_def example_key_def keyset_of_def can_save_def example_wallet_env_def)

theorem export_import_account_witness:
  "\<exists>s w'' fs'. ExportAccount example_wallet 0 = Ok s \<and>
     ImportAccount example_wallet_env 0 [] [] Map.empty (set_Child example_wallet []) s ''new'' ''pass''
       = (Ok (Account ''new'' example_key [] True), w'', fs') \<and>
     Child w'' = [Account ''new'' example_key [] True]"
proof -
  have "set_Child (set_Child example_wallet []) cs = set_Child example_wallet cs" for cs
    by (simp add: example_wallet_def set_Child_def)
  then show ?thesis
    using export_import_account [of 0 example_wallet example_key example_wallet_env "''new''" "set_Child example_wallet []" 0 "[]" "[]" Map.empty]
      example_key_sizes example_wallet_parts
    by (simp add: example_wallet_env_def)
qed

theorem wallet_save_load_witness:
  "\<exists>fs'. Save example_wallet_env [] (replicate 12 0) Map.empty example_wallet '''' = (Ok (), fs') \<and>
     LoadWallet example_wallet_env fs' example_wallet ''pass'' = Ok example_wallet \<and>
     LoadWallet example_wallet_env fs' example_wallet ''word'' = Err (WalletError UnexpectedErr)"
proof -
  obtain c where c: "Config example_wallet = Some c" by (simp add: example_wallet_def)
  have e: "GcmOpen example_wallet_env k iv (GcmSeal example_wallet_env k iv d) = Some d"
    "MarshalWallet example_wallet_env w = Some []" "UnmarshalWallet example_wallet_env d w = Some example_wallet"
    "writable example_wallet_env p" for k iv d w p
    by (simp_all add: example_wallet_env_def)
  have ne: "bytes_of_string ''pass'' \<noteq> bytes_of_string ''word''" by code_simp
  have "GcmOpen example_wallet_env (FileKdf example_wallet_env (bytes_of_string ''word'') []) (replicate 12 0)
      (GcmSeal example_wallet_env (FileKdf example_wallet_env (bytes_of_string ''pass'') []) (replicate 12 0) []) = None"
    using ne by (simp add: example_wallet_env_def)
  then show ?thesis
    using wallet_save_load [OF e(1) _ e(2) e(3) c e(4) c refl, of "replicate 12 0" "''pass''" "''''" "[]" Map.empty]
      example_wallet_parts(2) by auto
qed

lemma example_keys: "\<exists>ks. GenerateKey example_key_curve s = Some ks"
proof -
  have "big_SetBytes (HashB s) < 2 ^ 256" using big_SetBytes_less [of "HashB s"] by simp
  then have "int (big_SetBytes (HashB s)) \<le> 2 ^ 256" by (metis less_imp_le of_nat_le_iff of_nat_numeral of_nat_power)
  then show ?thesis
    by (simp add: GenerateKey_def GenerateSpendingKey_def spending_loop.simps example_key_curve_def)
qed

lemma example_child: "\<exists>k. NewChildKey example_wallet_env key i = Some k"
  using example_keys [of "take 32 (replicate 64 1)"] by (auto simp: NewChildKey_def getIntermediary_def example_wallet_env_def)

lemma example_init:
  "\<exists>w. Wallet_Init example_wallet_env (\<lambda>n. replicate n 0) example_wallet ''pass'' 2 ''w'' = Some (Ok w)"
proof -
  have n: "NewEntropy (\<lambda>n. replicate n 0) 128 = Ok (replicate 16 0)"
    by (simp add: NewEntropy_def validateEntropyBitSize_def)
  have m: "NewMnemonic (replicate 16 0) = Ok (Join '' '' (sentence (replicate 16 0)))"
    by (rule NewMnemonic_sentence) simp
  have "\<exists>k. NewMasterKey example_wallet_env seed = Some k" for seed
    using example_keys by (fastforce simp: NewMasterKey_def example_wallet_env_def)
  then obtain k where k: "NewMasterKey example_wallet_env seed = Some (k seed)" for seed by metis
  obtain f where f: "NewChildKey example_wallet_env key i = Some (f key i)" for key i
    using example_child by metis
  have "children_loop example_wallet_env key (Suc (Suc 0)) 0 \<noteq> None" for key by (simp add: f)
  then have "\<exists>cs. children_loop example_wallet_env key 2 0 = Some cs" for key by (simp add: numeral_2_eq_2)
  then show ?thesis
    by (simp add: Wallet_Init_def n m k ignore_err_def Let_def)
qed

theorem account_key_reused_witness:
  "\<exists>w s w1 r w2 fs' a. Wallet_Init example_wallet_env (\<lambda>n. replicate n 0) example_wallet ''pass'' 2 ''w'' = Some (Ok w) \<and>
     ExportAccount w 0 = Ok s \<and> RemoveAccount w s ''Account 0'' ''pass'' = (Ok (), w1) \<and>
     CreateNewAccount example_wallet_env [] [] Map.empty w1 ''new'' = Some (r, w2, fs') \<and>
     Child w2 = Child w1 @ [a] \<and> acc_Key a = acc_Key (last (Child w))"
proof -
  obtain w where w: "Wallet_Init example_wallet_env (\<lambda>n. replicate n 0) example_wallet ''pass'' 2 ''w'' = Some (Ok w)"
    using example_init by blast
  have "Suc (unat (0 :: u32)) < unat (2 :: u32)" by simp
  from account_key_reused [OF w this, of "''Account 0''" "[]" "[]" Map.empty "''new''"] w show ?thesis by blast
qed

end
