(* ===== verification/NoteCrypto.thy ===== *)
theory NoteCrypto
  imports Notes GoStrings
begin

text \<open>
  The encryption of notes (\<open>privacy-protocol/client/note.go\<close>): AES in CFB mode with padding and URL-safe
  base64, the key agreement and key derivation, and \<open>EncryptNote\<close> with \<open>DecryptNote\<close>.

  Notes are encrypted to the keys of \<open>key.go\<close>, whose transmission key is no curve25519 key of the receiving
  key; so nothing is claimed of \<open>DecryptNote\<close> after \<open>EncryptNote\<close>, only of the cipher both use.

  The AES block function, BLAKE2b, the multiplication of curve25519 and the JSON decoder are fields of a
  record; the bytes of a random initial vector are arguments.
\<close>

record note_crypto =
  aes_block :: "bytes \<Rightarrow> bytes \<Rightarrow> bytes"
  nc_blake :: "bytes \<Rightarrow> bytes"
  x25519 :: "bytes \<Rightarrow> bytes \<Rightarrow> bytes"
  parse_note :: "bytes \<Rightarrow> Note option"

datatype crypt_error = KeySizeError | Base64Error | UnpadError | NoteJsonError

subsection \<open>Padding and base64\<close>

definition BlockSize :: nat where
  "BlockSize = 16"

definition addBase64Padding :: "string \<Rightarrow> string" where
  "addBase64Padding val =
     (let m = length val mod 4 in if m \<noteq> 0 then val @ replicate (4 - m) (CHR ''='') else val)"

definition removeBase64Padding :: "string \<Rightarrow> string" where
  "removeBase64Padding val = filter (\<lambda>c. c \<noteq> CHR ''='') val"

text \<open>The URL alphabet of \<open>encoding/base64\<close> has minus and underscore for plus and slash; the decoder
  skips line ends.\<close>

definition url_char :: "char \<Rightarrow> char" where
  "url_char c = (if c = CHR ''+'' then CHR ''-'' else if c = CHR ''/'' then CHR ''_'' else c)"

definition std_char :: "char \<Rightarrow> char" where
  "std_char c = (if c = CHR ''-'' then CHR ''+'' else if c = CHR ''_'' then CHR ''/''
     else if c = CHR ''+'' \<or> c = CHR ''/'' then CHR ''-'' else c)"

definition base64url_Encode :: "bytes \<Rightarrow> string" where
  "base64url_Encode b = map url_char (base64_Encode b)"

definition base64url_Decode :: "string \<Rightarrow> bytes option" where
  "base64url_Decode s = base64_Decode (map std_char (filter (\<lambda>c. c \<noteq> CHR 0x0A \<and> c \<noteq> CHR 0x0D) s))"

definition Pad :: "bytes \<Rightarrow> bytes" where
  "Pad src = (let padding = BlockSize - length src mod BlockSize in src @ replicate padding (of_nat padding))"

definition Unpad :: "bytes \<Rightarrow> (crypt_error, bytes) res" where
  "Unpad src =
     (if src = [] then Panic
      else let unpadding = unat (last src) in
           if length src < unpadding then Err UnpadError else Ok (take (length src - unpadding) src))"

subsection \<open>AES in CFB mode\<close>

function cfb_encrypt :: "(bytes \<Rightarrow> bytes) \<Rightarrow> bytes \<Rightarrow> bytes \<Rightarrow> bytes" where
  "cfb_encrypt blk iv msg =
     (if msg = [] then []
      else let c = map2 (XOR) (take BlockSize msg) (blk iv) in c @ cfb_encrypt blk c (drop BlockSize msg))"
  by pat_completeness auto
termination
  by (relation "measure (\<lambda>(blk, iv, msg). length msg)") (auto simp: BlockSize_def)

function cfb_decrypt :: "(bytes \<Rightarrow> bytes) \<Rightarrow> bytes \<Rightarrow> bytes \<Rightarrow> bytes" where
  "cfb_decrypt blk iv c =
     (if c = [] then []
      else map2 (XOR) (take BlockSize c) (blk iv) @ cfb_decrypt blk (take BlockSize c) (drop BlockSize c))"
  by pat_completeness auto
termination
  by (relation "measure (\<lambda>(blk, iv, c). length c)") (auto simp: BlockSize_def)

declare cfb_encrypt.simps [simp del] cfb_decrypt.simps [simp del]

definition key_size_ok :: "bytes \<Rightarrow> bool" where
  "key_size_ok key \<longleftrightarrow> length key \<in> {16, 24, 32}"

text \<open>\<open>Encrypt\<close> panics on a key of another size; \<open>iv\<close> is the random initial vector of 16 bytes.\<close>

definition Encrypt :: "note_crypto \<Rightarrow> bytes \<Rightarrow> bytes \<Rightarrow> bytes \<Rightarrow> bytes option" where
  "Encrypt C iv key pt =
     (if \<not> key_size_ok key then None
      else let msg = Pad pt; ciphertext = iv @ cfb_encrypt (aes_block C key) iv msg
           in Some (bytes_of_string (removeBase64Padding (base64url_Encode ciphertext))))"

definition Decrypt :: "note_crypto \<Rightarrow> bytes \<Rightarrow> bytes \<Rightarrow> (crypt_error, bytes) res" where
  "Decrypt C key ct =
     (if \<not> key_size_ok key then Err KeySizeError
      else case base64url_Decode (addBase64Padding (string_of_bytes ct)) of
             None \<Rightarrow> Err Base64Error
           | Some decodedMsg \<Rightarrow>
               if length decodedMsg mod BlockSize \<noteq> 0 then Panic
               else if length decodedMsg < BlockSize then Panic
               else let iv = take BlockSize decodedMsg; msg = drop BlockSize decodedMsg
                    in Unpad (cfb_decrypt (aes_block C key) iv msg))"

subsection \<open>Notes\<close>

definition KeyAgree :: "note_crypto \<Rightarrow> bytes \<Rightarrow> bytes \<Rightarrow> bytes" where
  "KeyAgree C pk sk = x25519 C sk pk"

definition KDF :: "note_crypto \<Rightarrow> bytes \<Rightarrow> bytes \<Rightarrow> bytes \<Rightarrow> bytes \<Rightarrow> bytes" where
  "KDF C sharedSecret epk pkenc hSig = nc_blake C (sharedSecret @ epk @ pkenc @ hSig)"

definition json_field :: "string \<Rightarrow> string \<Rightarrow> string" where
  "json_field nm v = [CHR 0x22] @ nm @ [CHR 0x22] @ '':'' @ v"

definition ParseNoteToJson :: "Note \<Rightarrow> bytes" where
  "ParseNoteToJson n = bytes_of_string
     ([CHR 0x7B] @ json_field ''Value'' (FormatUint (Value n)) @ '','' @ json_field ''Rho'' (json_quote (Rho n)) @ '','' @
      json_field ''R'' (json_quote (R_rand n)) @ '','' @ json_field ''Memo'' (json_quote (Memo n)) @ [CHR 0x7D])"

definition ParseJsonToNote :: "note_crypto \<Rightarrow> bytes \<Rightarrow> (crypt_error, Note) res" where
  "ParseJsonToNote C jsonnote = (case parse_note C jsonnote of None \<Rightarrow> Err NoteJsonError | Some n \<Rightarrow> Ok n)"

definition encrypt_one :: "note_crypto \<Rightarrow> bytes \<Rightarrow> bytes \<Rightarrow> bytes \<Rightarrow> bytes \<Rightarrow> Note \<Rightarrow> bytes \<Rightarrow> bytes option" where
  "encrypt_one C iv esk epk hSig n pkenc =
     (let pk = copy32 pkenc; sharedSecret = KeyAgree C pk (copy32 esk); symKey = KDF C sharedSecret epk pk hSig
      in Encrypt C iv symKey (ParseNoteToJson n))"

text \<open>Two notes for two receivers; \<open>None\<close> is the panic of \<open>Encrypt\<close>.\<close>

definition EncryptNote :: "note_crypto \<Rightarrow> bytes \<times> bytes \<Rightarrow> Note \<times> Note \<Rightarrow> bytes \<times> bytes \<Rightarrow> bytes \<Rightarrow> bytes \<Rightarrow> bytes \<Rightarrow>
    bytes list option" where
  "EncryptNote C ivs ns pkenc esk epk hSig =
     those [encrypt_one C (fst ivs) esk epk hSig (fst ns) (fst pkenc), encrypt_one C (snd ivs) esk epk hSig (snd ns) (snd pkenc)]"

definition DecryptNote :: "note_crypto \<Rightarrow> bytes \<Rightarrow> bytes \<Rightarrow> bytes \<Rightarrow> bytes \<Rightarrow> bytes \<Rightarrow> (crypt_error, Note) res" where
  "DecryptNote C ciphernote skenc pkenc epk hSig =
     (let sk = copy32 skenc; pk = copy32 pkenc; sharedSecret = KeyAgree C (copy32 epk) sk;
          symKey = KDF C sharedSecret epk pk hSig
      in and_then (Decrypt C symKey ciphernote) (ParseJsonToNote C))"

subsection \<open>Lemmas\<close>

lemma Unpad_Pad: "Unpad (Pad src) = Ok src"
proof -
  let ?p = "BlockSize - length src mod BlockSize"
  have p: "0 < ?p" "?p \<le> 16" by (simp_all add: BlockSize_def)
  have "unat (of_nat ?p :: byte) = ?p" using p(2) by (simp add: unat_of_nat take_bit_nat_eq_self)
  moreover have "last (Pad src) = of_nat ?p" using p(1) by (simp add: Pad_def Let_def)
  moreover have "Pad src \<noteq> []" "length (Pad src) = length src + ?p" using p(1) by (simp_all add: Pad_def Let_def)
  ultimately show ?thesis by (simp add: Unpad_def Let_def) (simp add: Pad_def Let_def)
qed

lemma length_Pad: "length (Pad src) mod BlockSize = 0"
proof -
  have "length (Pad src) = length src + (16 - length src mod 16)" by (simp add: Pad_def Let_def BlockSize_def)
  also have "\<dots> mod 16 = 0" by presburger
  finally show ?thesis by (simp add: BlockSize_def)
qed

lemma map2_xor_twice: "length a \<le> length k \<Longrightarrow> map2 (XOR) (map2 (XOR) a k) k = (a :: bytes)"
  by (induction a k rule: list_induct2') (auto simp: xor.assoc)

lemma length_cfb_encrypt:
  assumes "\<And>b. length (blk b) = BlockSize"
  shows "length (cfb_encrypt blk iv msg) = length msg"
  using assms
proof (induction blk iv msg rule: cfb_encrypt.induct)
  case (1 blk iv msg)
  then show ?case by (subst cfb_encrypt.simps) (auto simp: Let_def)
qed

lemma cfb_roundtrip:
  assumes blk: "\<And>b. length (blk b) = BlockSize"
  shows "cfb_decrypt blk iv (cfb_encrypt blk iv msg) = msg"
proof (induction "length msg" arbitrary: iv msg rule: less_induct)
  case less
  show ?case
  proof (cases "msg = []")
    case True
    then show ?thesis by (simp add: cfb_encrypt.simps cfb_decrypt.simps)
  next
    case False
    let ?c = "map2 (XOR) (take BlockSize msg) (blk iv)"
    let ?r = "cfb_encrypt blk ?c (drop BlockSize msg)"
    have e: "cfb_encrypt blk iv msg = ?c @ ?r"
      using False by (subst cfb_encrypt.simps) (simp add: Let_def)
    have len: "length ?c = min (length msg) BlockSize" by (simp add: blk)
    have "?r = []" if "length msg < BlockSize" using that by (simp add: cfb_encrypt.simps)
    then have t: "take BlockSize (?c @ ?r) = ?c" "drop BlockSize (?c @ ?r) = ?r"
      using len by (cases "length msg < BlockSize"; simp)+
    have "?c \<noteq> []" using False len by (auto simp: BlockSize_def simp flip: length_greater_0_conv)
    then have "cfb_decrypt blk iv (?c @ ?r) = map2 (XOR) ?c (blk iv) @ cfb_decrypt blk ?c ?r"
      by (subst cfb_decrypt.simps) (simp only: t, simp)
    moreover have "map2 (XOR) ?c (blk iv) = take BlockSize msg" by (rule map2_xor_twice) (simp add: blk)
    moreover have "cfb_decrypt blk ?c ?r = drop BlockSize msg"
      using less [of "drop BlockSize msg"] False by (simp add: BlockSize_def)
    ultimately show ?thesis unfolding e by simp
  qed
qed

lemma b64_table_url:
  "c \<in> set b64_table \<Longrightarrow> std_char (url_char c) = c \<and> url_char c \<noteq> CHR ''='' \<and> url_char c \<noteq> CHR 0x0A \<and> url_char c \<noteq> CHR 0x0D"
proof -
  have "list_all (\<lambda>c. std_char (url_char c) = c \<and> url_char c \<noteq> CHR ''='' \<and> url_char c \<noteq> CHR 0x0A \<and> url_char c \<noteq> CHR 0x0D) b64_table"
    by code_simp
  then show "c \<in> set b64_table \<Longrightarrow> ?thesis" by (simp add: list_all_iff)
qed

lemma b64_char_table: "n < 64 \<Longrightarrow> b64_char n \<in> set b64_table"
proof -
  have "length b64_table = 64" by (simp add: b64_table_def)
  then show "n < 64 \<Longrightarrow> ?thesis" unfolding b64_char_def by (metis nth_mem)
qed

lemma b64_quad_table: "n < 16777216 \<Longrightarrow> set (b64_quad n) \<subseteq> set b64_table"
  by (auto simp: b64_quad_def b64_char_table less_mult_imp_div_less)

lemma quad_less:
  "unat (a :: byte) * 65536 + unat (b :: byte) * 256 + unat (c :: byte) < 16777216" "unat a * 65536 < 16777216"
  "unat a * 65536 + unat b * 256 < 16777216"
  using byte_lt [of a] byte_lt [of b] byte_lt [of c] by linarith+

lemma set_base64: "set (base64_Encode b) \<subseteq> insert (CHR ''='') (set b64_table)"
proof (induction b rule: base64_Encode.induct)
  case (2 a)
  have "set (take 2 (b64_quad (unat a * 65536))) \<subseteq> set b64_table"
    using b64_quad_table quad_less(2) set_take_subset by fast
  then show ?case by (simp del: take_Suc) blast
next
  case (3 a b)
  have "set (take 3 (b64_quad (unat a * 65536 + unat b * 256))) \<subseteq> set b64_table"
    using b64_quad_table quad_less(3) set_take_subset by fast
  then show ?case by simp blast
next
  case (4 a b c r)
  have "set (b64_quad (unat a * 65536 + unat b * 256 + unat c)) \<subseteq> set b64_table"
    using b64_quad_table quad_less(1) by fast
  then show ?case using 4 by simp blast
qed simp

lemma addBase64Padding_append: "length q = 4 \<Longrightarrow> addBase64Padding (q @ s) = q @ addBase64Padding s"
  by (simp add: addBase64Padding_def Let_def)

lemma removeBase64Padding_plain: "CHR ''='' \<notin> set q \<Longrightarrow> removeBase64Padding (q @ s) = q @ removeBase64Padding s"
  by (induction q) (auto simp: removeBase64Padding_def)

lemma url_quad:
  assumes "n < 16777216"
  shows "CHR ''='' \<notin> set (map url_char (b64_quad n))"
  using b64_table_url b64_quad_table [OF assms] by fastforce

lemma padding_restored: "addBase64Padding (removeBase64Padding (base64url_Encode b)) = base64url_Encode b"
proof (induction b rule: base64_Encode.induct)
  case 1
  then show ?case by (simp add: base64url_Encode_def removeBase64Padding_def addBase64Padding_def)
next
  case (2 a)
  let ?q = "map url_char (take 2 (b64_quad (unat a * 65536)))"
  have "CHR ''='' \<notin> set ?q" "length ?q = 2"
    using url_quad [OF quad_less(2)] by (auto dest: in_set_takeD simp: b64_quad_def)
  then have "removeBase64Padding (base64url_Encode [a]) = ?q"
    using removeBase64Padding_plain [of ?q "''==''"]
    by (simp add: base64url_Encode_def url_char_def removeBase64Padding_def)
  then show ?case using \<open>length ?q = 2\<close>
    by (simp add: addBase64Padding_def base64url_Encode_def url_char_def numeral_2_eq_2)
next
  case (3 a b)
  let ?q = "map url_char (take 3 (b64_quad (unat a * 65536 + unat b * 256)))"
  have "CHR ''='' \<notin> set ?q" "length ?q = 3"
    using url_quad [OF quad_less(3)] by (auto dest: in_set_takeD simp: b64_quad_def)
  then have "removeBase64Padding (base64url_Encode [a, b]) = ?q"
    using removeBase64Padding_plain [of ?q "''=''"]
    by (simp add: base64url_Encode_def url_char_def removeBase64Padding_def)
  then show ?case using \<open>length ?q = 3\<close>
    by (simp add: addBase64Padding_def base64url_Encode_def url_char_def)
next
  case (4 a b c r)
  let ?q = "map url_char (b64_quad (unat a * 65536 + unat b * 256 + unat c))"
  have e: "base64url_Encode (a # b # c # r) = ?q @ base64url_Encode r" by (simp add: base64url_Encode_def)
  have "length ?q = 4" by (simp add: b64_quad_def)
  then show ?case
    unfolding e removeBase64Padding_plain [OF url_quad [OF quad_less(1)]] by (simp add: addBase64Padding_append 4)
qed

lemma base64url_roundtrip: "base64url_Decode (base64url_Encode b) = Some b"
proof -
  have c: "std_char (url_char c) = c \<and> url_char c \<noteq> CHR 0x0A \<and> url_char c \<noteq> CHR 0x0D" if "c \<in> set (base64_Encode b)" for c
    
  proof (cases "c = CHR ''=''")
    case True
    then show ?thesis by (simp add: url_char_def std_char_def)
  next
    case False
    then show ?thesis using that set_base64 [of b] b64_table_url by blast
  qed
  then have "filter (\<lambda>c. c \<noteq> CHR 0x0A \<and> c \<noteq> CHR 0x0D) (base64url_Encode b) = base64url_Encode b"
    by (auto simp: base64url_Encode_def filter_id_conv)
  moreover have "map std_char (base64url_Encode b) = base64_Encode b"
    using c by (simp add: base64url_Encode_def map_idI)
  ultimately show ?thesis by (simp add: base64url_Decode_def base64_Decode_Encode)
qed

lemma Decrypt_Encrypt_text:
  assumes blk: "\<And>b. length (aes_block C key b) = BlockSize" and iv: "length iv = BlockSize" and "key_size_ok key"
  shows "\<exists>c. Encrypt C iv key pt = Some c \<and> Decrypt C key c = Ok pt"
proof -
  let ?ct = "iv @ cfb_encrypt (aes_block C key) iv (Pad pt)"
  have "length ?ct mod BlockSize = 0"
    using iv length_Pad [of pt] by (simp add: length_cfb_encrypt [OF blk])
  then show ?thesis
    using assms(3) iv
    by (simp add: Encrypt_def Decrypt_def Let_def padding_restored base64url_roundtrip cfb_roundtrip [OF blk] Unpad_Pad)
qed


subsection \<open>Properties\<close>

text \<open>Claim C27 (roundtrip): \<open>Decrypt\<close> recovers every text \<open>Encrypt\<close> has encrypted under a key of 16, 24 or 32 bytes,
  whatever the initial vector: the padding to whole blocks, the CFB mode and the URL-safe base64 text without
  padding characters invert. Under a key of another size \<open>Encrypt\<close> panics and \<open>Decrypt\<close> returns
  the error of the cipher.\<close>

theorem note_cipher_roundtrip:
  assumes "\<And>b. length (aes_block C key b) = BlockSize" and "length iv = BlockSize"
  shows "if key_size_ok key then \<exists>c. Encrypt C iv key pt = Some c \<and> Decrypt C key c = Ok pt
    else Encrypt C iv key pt = None \<and> Decrypt C key ct = Err KeySizeError"
  using Decrypt_Encrypt_text [OF assms] by (simp add: Encrypt_def Decrypt_def)

definition example_plain_note :: Note where
  "example_plain_note = \<lparr>Value = 5, Apk = [], Rho = replicate 32 1, R_rand = replicate 32 2, Nf = [], Cm = [], Memo = []\<rparr>"

definition example_crypto :: note_crypto where
  "example_crypto = \<lparr>aes_block = \<lambda>k b. replicate 16 7, nc_blake = \<lambda>d. replicate 32 3, x25519 = \<lambda>s p. replicate 32 4,
     parse_note = \<lambda>j. Some example_plain_note\<rparr>"

theorem note_cipher_roundtrip_witness:
  "\<exists>c. Encrypt (example_crypto\<lparr>aes_block := \<lambda>k b. take 16 (map2 (XOR) k b @ replicate 16 7)\<rparr>) (replicate 16 1) (replicate 32 5) [1, 2, 3] = Some c \<and>
     Decrypt (example_crypto\<lparr>aes_block := \<lambda>k b. take 16 (map2 (XOR) k b @ replicate 16 7)\<rparr>) (replicate 32 5) c = Ok [1, 2, 3]"
  using note_cipher_roundtrip [of "example_crypto\<lparr>aes_block := \<lambda>k b. take 16 (map2 (XOR) k b @ replicate 16 7)\<rparr>" "replicate 32 5"
      "replicate 16 1" "[1, 2, 3]" "[]"]
  by (simp add: BlockSize_def key_size_ok_def)

end
