(* ===== verification/Block.thy ===== *)
theory Block
  imports Database
begin

text \<open>
  Blocks of package \<open>blockchain\<close>: headers (\<open>blockheader.go\<close>, \<open>constitution.go\<close>, \<open>governor.go\<close>), blocks with their
  hash and their JSON form (\<open>block.go\<close>), the update of the commitment tree (\<open>merkle.go\<close>), the state
  of a chain at its best block (\<open>beststate.go\<close>) and the package's errors (\<open>error.go\<close>).

  The encoder and decoder of \<open>encoding/json\<close> are parameters; what \<open>UnmarshalJSON\<close> does with the decoded
  data is modelled.
\<close>

subsection \<open>Errors and transaction types\<close>

datatype bc_code = UnExpectedError | UpdateMerkleTreeForBlockError | UnmashallJsonBlockError | CanNotCheckDoubleSpendError

fun bc_ErrCode :: "bc_code \<Rightarrow> int" where
  "bc_ErrCode UnExpectedError = -1"
| "bc_ErrCode UpdateMerkleTreeForBlockError = -2"
| "bc_ErrCode UnmashallJsonBlockError = -3"
| "bc_ErrCode CanNotCheckDoubleSpendError = -4"

datatype bc_error = BlockChainError bc_code "bc_error option" | DbError db_error | Message string | JsonError

abbreviation unexpected_error :: "bc_error \<Rightarrow> bc_error" where
  "unexpected_error e \<equiv> BlockChainError UnExpectedError (Some e)"

definition TxSubmitDCBProposalType :: string where "TxSubmitDCBProposalType = ''pd''"
definition TxSubmitGOVProposalType :: string where "TxSubmitGOVProposalType = ''pg''"
definition TxVoteDCBProposalType :: string where "TxVoteDCBProposalType = ''vd''"
definition TxVoteGOVProposalType :: string where "TxVoteGOVProposalType = ''vg''"
definition TxVoteDCBBoardType :: string where "TxVoteDCBBoardType = ''vbd''"
definition TxVoteGOVBoardType :: string where "TxVoteGOVBoardType = ''vbg''"
definition TxAcceptDCBProposalType :: string where "TxAcceptDCBProposalType = ''ad''"
definition TxAcceptGOVProposalType :: string where "TxAcceptGOVProposalType = ''ag''"
definition TxCrowdsaleType :: string where "TxCrowdsaleType = ''cs''"
definition TxBuySellDCBRequestType :: string where "TxBuySellDCBRequestType = ''bsdr''"
definition TxBuySellDCBResponseType :: string where "TxBuySellDCBResponseType = ''bsdrs''"
definition TxBuyFromGOVResponseType :: string where "TxBuyFromGOVResponseType = ''bgrs''"
definition TxBuyBackResponseType :: string where "TxBuyBackResponseType = ''bbrs''"

lemmas block_type_defs = tx_type_defs
  TxSubmitDCBProposalType_def TxSubmitGOVProposalType_def TxVoteDCBProposalType_def TxVoteGOVProposalType_def
  TxVoteDCBBoardType_def TxVoteGOVBoardType_def TxAcceptDCBProposalType_def TxAcceptGOVProposalType_def
  TxCrowdsaleType_def TxBuySellDCBRequestType_def TxBuySellDCBResponseType_def TxBuyFromGOVResponseType_def
  TxBuyBackResponseType_def

subsection \<open>Headers\<close>

text \<open>
  \<open>SellingBonds\<close> and \<open>RefundInfo\<close> of this package have the fields of the records of the same name of
  package \<open>voting\<close>, and \<open>GOVParams\<close> those of \<open>GOVVotingParams\<close>; the records are shared.
\<close>

record ConstitutionInfo =
  StartedBlockHeight :: int
  ci_ExecuteDuration :: int
  ci_ProposalTXID :: "hash option"

record GOVConstitution = ConstitutionInfo +
  CurrentGOVNationalWelfare :: int
  gc_GOVParams :: GOVVotingParams

record DCBConstitution = ConstitutionInfo +
  CurrentDCBNationalWelfare :: int

record Governor =
  StartedBlock :: u32
  EndBlock :: u32
  BoardPubKeys :: "string list"

record BlockHeader =
  hd_Version :: int
  PrevBlockHash :: hash
  MerkleRoot :: hash
  MerkleRootCommitments :: hash
  Timestamp :: int
  BlockCommitteeSigs :: "string list"
  Committee :: "string list"
  ChainID :: byte
  ChainsHeight :: "int list"
  CandidateHash :: hash
  SalaryFund :: u64
  BankFund :: u64
  hd_GOVConstitution :: GOVConstitution
  hd_DCBConstitution :: DCBConstitution
  DCBGovernor :: Governor
  GOVGovernor :: Governor
  CBBoardPubKeys :: "string list"
  hd_LoanParams :: LoanParams
  hd_Height :: int
  hd_Oracle :: "(string \<times> u64) list option"

record Block =
  Header :: BlockHeader
  Transactions :: "transaction slice"
  BlockProducer :: string
  BlockProducerSig :: string

abbreviation txs_of :: "Block \<Rightarrow> transaction list" where
  "txs_of b \<equiv> elems (Transactions b)"

subsection \<open>Hash and transactions of a block\<close>

text \<open>
  The cached \<open>blockHash\<close> is set in a copy of the block (\<open>Hash\<close> has a value receiver), so that it is
  never found. A transaction whose hash panics makes the hash of the block panic.
\<close>

definition header_record :: "BlockHeader \<Rightarrow> string" where
  "header_record h =
     Itoa (Timestamp h) @ string_of_int (uint (ChainID h)) @ hash_String (MerkleRoot h) @
     hash_String (MerkleRootCommitments h) @ hash_String (PrevBlockHash h) @ Itoa (int_of_u64 (SalaryFund h)) @
     Itoa (int_of_u64 (SalaryPerTx (gc_GOVParams (hd_GOVConstitution h)))) @
     Itoa (int_of_u64 (BasicSalary (gc_GOVParams (hd_GOVConstitution h)))) @ Join '','' (Committee h)"

definition Block_Hash :: "proof_string \<Rightarrow> Block \<Rightarrow> hash option" where
  "Block_Hash PS self =
     map_option (\<lambda>hs. DoubleHashH (bytes_of_string
         (header_record (Header self) @ Itoa (hd_Version (Header self)) @ BlockProducer self @ BlockProducerSig self @
          Itoa (int (length (txs_of self))) @ Itoa (hd_Height (Header self)) @ concat (map hash_String hs))))
       (those (map (tx_Hash PS) (txs_of self)))"

definition AddTransaction :: "Block \<Rightarrow> transaction \<Rightarrow> (bc_error, Block) res" where
  "AddTransaction self tx =
     (case Transactions self of
        None \<Rightarrow> Err (unexpected_error (Message ''Not init tx arrays''))
      | Some txs \<Rightarrow> Ok (self\<lparr>Transactions := Some (txs @ [tx])\<rparr>))"

subsection \<open>Reading a block\<close>

text \<open>
  A decoded transaction object: its \<open>Type\<close> (\<open>None\<close> when it is not a string) and what \<open>json.Unmarshal\<close>
  makes of it in each of the types the code chooses from; its errors are ignored. The object was a
  \<open>map[string]interface{}\<close> first, in which a number is a \<open>float64\<close>: the fields hold the numbers after that.
\<close>

record json_tx =
  jx_Type :: "string option"
  jx_Tx :: Tx
  jx_CustomToken :: TxCustomToken
  jx_SubmitDCB :: TxSubmitDCBProposal
  jx_SubmitGOV :: TxSubmitGOVProposal
  jx_VoteDCB :: TxVoteProposal
  jx_VoteGOV :: TxVoteProposal
  jx_AcceptDCB :: TxAcceptProposal
  jx_AcceptGOV :: TxAcceptProposal

definition tx_of_json :: "json_tx \<Rightarrow> (bc_error, transaction) res" where
  "tx_of_json j =
     (case jx_Type j of
        None \<Rightarrow> Panic
      | Some t \<Rightarrow>
          if t = TxNormalType then Ok (NormalTx (jx_Tx j))
          else if t = TxSalaryType then Ok (NormalTx (jx_Tx j))
          else if t = TxCustomTokenType then Ok (CustomTokenTx (jx_CustomToken j))
          else if t = TxBuyFromGOVResponseType then Ok (CustomTokenTx (jx_CustomToken j))
          else if t = TxSubmitDCBProposalType then Ok (SubmitDCBProposalTx (jx_SubmitDCB j))
          else if t = TxSubmitGOVProposalType then Ok (SubmitGOVProposalTx (jx_SubmitGOV j))
          else if t = TxVoteDCBProposalType then Ok (VoteDCBProposalTx (jx_VoteDCB j))
          else if t = TxVoteGOVProposalType then Ok (VoteGOVProposalTx (jx_VoteGOV j))
          else if t = TxAcceptDCBProposalType then Ok (AcceptDCBProposalTx (jx_AcceptDCB j))
          else if t = TxAcceptGOVProposalType then Ok (AcceptGOVProposalTx (jx_AcceptGOV j))
          else Err (BlockChainError UnmashallJsonBlockError (Some (Message ''Can not parse a wrong tx''))))"

fun txs_of_json :: "json_tx list \<Rightarrow> (bc_error, transaction list) res" where
  "txs_of_json [] = Ok []"
| "txs_of_json (j # js) = and_then (tx_of_json j) (\<lambda>t. and_then (txs_of_json js) (\<lambda>ts. Ok (t # ts)))"

text \<open>\<open>parse\<close> decodes the fields of a block but its transactions, which it gives as objects. The
  transactions are appended to the nil slice of a fresh block.\<close>

type_synonym block_parser = "bytes \<Rightarrow> (Block \<times> json_tx list) option"

definition Block_UnmarshalJSON :: "block_parser \<Rightarrow> bytes \<Rightarrow> (bc_error, Block) res" where
  "Block_UnmarshalJSON parse data =
     (case parse data of
        None \<Rightarrow> Err (BlockChainError UnmashallJsonBlockError (Some JsonError))
      | Some (b, js) \<Rightarrow>
          and_then (txs_of_json js) (\<lambda>ts. Ok (b\<lparr>Transactions := (if ts = [] then None else Some ts)\<rparr>)))"

subsection \<open>The commitment tree of a chain\<close>

definition tx_commitments :: "Tx \<Rightarrow> bytes list" where
  "tx_commitments tx = concat (map Commitments (Descs tx))"

text \<open>The tree is changed in place, also by the transactions before one that fails.\<close>

fun update_tree :: "transaction list \<Rightarrow> IncMerkleTree \<Rightarrow> (bc_error, unit) res \<times> IncMerkleTree" where
  "update_tree [] tree = (Ok (), tree)"
| "update_tree (blockTx # txs) tree =
     (if GetType blockTx = TxNormalType \<or> GetType blockTx = TxSalaryType then
        (case blockTx of
           NormalTx tx \<Rightarrow>
             (case add_all tree (tx_commitments tx) of
                None \<Rightarrow> (Panic, tree)
              | Some tree' \<Rightarrow> update_tree txs tree')
         | _ \<Rightarrow> (Err (unexpected_error (Message ''Transaction in block not valid'')), tree))
      else update_tree txs tree)"

definition UpdateMerkleTreeForBlock :: "IncMerkleTree \<Rightarrow> Block \<Rightarrow> (bc_error, unit) res \<times> IncMerkleTree" where
  "UpdateMerkleTreeForBlock tree block = update_tree (txs_of block) tree"

subsection \<open>Best states\<close>

record CommitteeCandidateInfo =
  cci_Value :: u64
  cci_Timestamp :: int
  cci_ChainID :: byte

text \<open>The map of candidates and the list of loan identifiers may be nil.\<close>

record BestState =
  BestBlockHash :: "hash option"
  BestBlock :: "Block option"
  CmTree :: IncMerkleTree
  bs_Height :: int
  NumTxns :: u64
  TotalTxns :: u64
  Candidates :: "(string \<rightharpoonup> CommitteeCandidateInfo) option"
  LoanIDs :: "bytes slice"

definition empty_BestState :: BestState where
  "empty_BestState = \<lparr>BestBlockHash = None, BestBlock = None, CmTree = empty_tree, bs_Height = 0, NumTxns = 0,
     TotalTxns = 0, Candidates = None, LoanIDs = None\<rparr>"

definition set_best_block :: "hash \<Rightarrow> Block \<Rightarrow> IncMerkleTree \<Rightarrow> BestState \<Rightarrow> BestState" where
  "set_best_block h block tree self =
     self\<lparr>BestBlock := Some block, BestBlockHash := Some h, CmTree := tree,
          TotalTxns := TotalTxns self + of_nat (length (txs_of block)),
          NumTxns := of_nat (length (txs_of block)), bs_Height := hd_Height (Header block),
          Candidates := (case Candidates self of None \<Rightarrow> Some Map.empty | Some c \<Rightarrow> Some c)\<rparr>"

definition BestState_Init :: "proof_string \<Rightarrow> BestState \<Rightarrow> Block \<Rightarrow> IncMerkleTree \<Rightarrow> BestState option" where
  "BestState_Init PS self block tree =
     map_option (\<lambda>h. (set_best_block h block tree self)
         \<lparr>LoanIDs := (case LoanIDs self of None \<Rightarrow> Some [] | Some l \<Rightarrow> Some l)\<rparr>)
       (Block_Hash PS block)"

fun loan_ids_loop :: "transaction list \<Rightarrow> BestState \<Rightarrow> (bc_error, unit) res \<times> BestState" where
  "loan_ids_loop [] self = (Ok (), self)"
| "loan_ids_loop (blockTx # txs) self =
     (if GetType blockTx = TxLoanRequestType then
        (case blockTx of
           LoanRequestTx tx \<Rightarrow>
             loan_ids_loop txs (self\<lparr>LoanIDs := Some (elems (LoanIDs self) @ [lr_LoanID (lreq_LoanRequest tx)])\<rparr>)
         | _ \<Rightarrow> (Err (unexpected_error (Message ''Transaction in block not valid, expected TxLoanRequest'')), self))
      else loan_ids_loop txs self)"

definition UpdateLoanIDs :: "BestState \<Rightarrow> Block \<Rightarrow> (bc_error, unit) res \<times> BestState" where
  "UpdateLoanIDs self block = loan_ids_loop (txs_of block) self"

definition BestState_Update :: "proof_string \<Rightarrow> BestState \<Rightarrow> Block \<Rightarrow> (bc_error, unit) res \<times> BestState" where
  "BestState_Update PS self block =
     (case UpdateMerkleTreeForBlock (CmTree self) block of
        (Panic, tree) \<Rightarrow> (Panic, self\<lparr>CmTree := tree\<rparr>)
      | (Err e, tree) \<Rightarrow> (Err (unexpected_error e), self\<lparr>CmTree := tree\<rparr>)
      | (Ok _, tree) \<Rightarrow>
          (case Block_Hash PS block of
             None \<Rightarrow> (Panic, self\<lparr>CmTree := tree\<rparr>)
           | Some h \<Rightarrow>
               (case UpdateLoanIDs (set_best_block h block tree self) block of
                  (r, self') \<Rightarrow> (map_err unexpected_error r, self'))))"

definition RemoveCandidate :: "BestState \<Rightarrow> string \<Rightarrow> BestState" where
  "RemoveCandidate self producerPbk =
     self\<lparr>Candidates := map_option (\<lambda>c. c(producerPbk := None)) (Candidates self)\<rparr>"

end
