(* ===== verification/BlockChain.thy ===== *)
theory BlockChain
  imports Block TokenDb Keys NoteCrypto
begin

text \<open>
  The block chain (\<open>blockchain/blockchain.go\<close>, \<open>process.go\<close>, \<open>txviewpoint.go\<close>): connecting a block, the view
  of the nullifiers and commitments a block adds, chain initialisation and the look-ups of blocks and
  transactions.

  The state is the record \<open>chain\<close>: the best states of the chains, the database, the snapshot of token
  balances and the private keys of the wallet a light node serves. An operation maps the state to a
  result and the state afterwards, also when it fails. The environment \<open>chain_env\<close> has what the code
  takes from elsewhere: LevelDB, JSON, the elliptic curve, BLAKE2b, and the order in which Go ranges over
  the map of token transactions. Locks are left out: every operation runs alone.
\<close>

subsection \<open>State and results\<close>

record 'd chain_env =
  ce_lv :: "'d leveldb"
  ce_PS :: proof_string
  ce_Light :: bool
  ce_curve :: curve
  ce_crypto :: note_crypto
  block_json :: "Block \<Rightarrow> bytes option"
  header_json :: "BlockHeader \<Rightarrow> bytes option"
  tx_json :: "Tx \<Rightarrow> bytes option"
  best_json :: "BestState \<Rightarrow> bytes option"
  parse_block :: block_parser
  parse_header :: "bytes \<Rightarrow> BlockHeader option"
  parse_tx :: "bytes \<Rightarrow> Tx option"
  parse_best :: "bytes \<Rightarrow> BestState option"
  token_order :: "(int \<times> TxCustomToken) list \<Rightarrow> (int \<times> TxCustomToken) list"

record 'd chain =
  BestStates :: "BestState list"
  ch_db :: 'd
  rewardSnapshot :: "string \<rightharpoonup> u64"
  walletKeys :: "bytes list"

type_synonym ('d, 'a) bcm = "'d chain \<Rightarrow> (bc_error, 'a) res \<times> 'd chain"

definition bret :: "'a \<Rightarrow> ('d, 'a) bcm" where
  "bret a = (\<lambda>s. (Ok a, s))"

definition bfail :: "bc_error \<Rightarrow> ('d, 'a) bcm" where
  "bfail e = (\<lambda>s. (Err e, s))"

definition bpanic :: "('d, 'a) bcm" where
  "bpanic = (\<lambda>s. (Panic, s))"

definition bbind :: "('d, 'a) bcm \<Rightarrow> ('a \<Rightarrow> ('d, 'b) bcm) \<Rightarrow> ('d, 'b) bcm" where
  "bbind m f = (\<lambda>s. case m s of (Ok a, s') \<Rightarrow> f a s' | (Err e, s') \<Rightarrow> (Err e, s') | (Panic, s') \<Rightarrow> (Panic, s'))"

text \<open>\<open>bwrap\<close> wraps an error, \<open>btry\<close> hands it to the caller as a value.\<close>

definition bwrap :: "(bc_error \<Rightarrow> bc_error) \<Rightarrow> ('d, 'a) bcm \<Rightarrow> ('d, 'a) bcm" where
  "bwrap g m = (\<lambda>s. case m s of (r, s') \<Rightarrow> (map_err g r, s'))"

definition btry :: "('d, 'a) bcm \<Rightarrow> ('d, bc_error + 'a) bcm" where
  "btry m = (\<lambda>s. case m s of (Ok a, s') \<Rightarrow> (Ok (Inr a), s') | (Err e, s') \<Rightarrow> (Ok (Inl e), s') | (Panic, s') \<Rightarrow> (Panic, s'))"

definition db_op :: "('d, 'a) dbm \<Rightarrow> ('d, 'a) bcm" where
  "db_op m = (\<lambda>s. case m (ch_db s) of (r, d') \<Rightarrow> (map_err DbError r, s\<lparr>ch_db := d'\<rparr>))"

definition or_panic :: "'a option \<Rightarrow> ('d, 'a) bcm" where
  "or_panic x = (case x of None \<Rightarrow> bpanic | Some a \<Rightarrow> bret a)"

definition of_res :: "(bc_error, 'a) res \<Rightarrow> ('d, 'a) bcm" where
  "of_res r = (\<lambda>s. (r, s))"

fun bforall :: "('a \<Rightarrow> ('d, unit) bcm) \<Rightarrow> 'a list \<Rightarrow> ('d, unit) bcm" where
  "bforall f [] = bret ()"
| "bforall f (x # xs) = bbind (f x) (\<lambda>_. bforall f xs)"

subsection \<open>Accesses to the database\<close>

definition bc_StoreBlock :: "'d chain_env \<Rightarrow> Block \<Rightarrow> ('d, unit) bcm" where
  "bc_StoreBlock E block =
     bbind (or_panic (Block_Hash (ce_PS E) block)) (\<lambda>h.
       db_op (StoreBlock (ce_lv E) \<lparr>sv_Hash = Some h, sv_json = block_json E block\<rparr> (ChainID (Header block))))"

definition bc_StoreBlockHeader :: "'d chain_env \<Rightarrow> Block \<Rightarrow> ('d, unit) bcm" where
  "bc_StoreBlockHeader E block =
     bbind (or_panic (Block_Hash (ce_PS E) block)) (\<lambda>h.
       db_op (StoreBlockHeader (ce_lv E) \<lparr>sv_Hash = None, sv_json = header_json E (Header block)\<rparr> h (ChainID (Header block))))"

definition bc_StoreBlockIndex :: "'d chain_env \<Rightarrow> Block \<Rightarrow> ('d, unit) bcm" where
  "bc_StoreBlockIndex E block =
     bbind (or_panic (Block_Hash (ce_PS E) block)) (\<lambda>h.
       db_op (StoreBlockIndex (ce_lv E) h (hd_Height (Header block)) (ChainID (Header block))))"

definition bc_StoreTransactionIndex :: "'d chain_env \<Rightarrow> hash \<Rightarrow> hash \<Rightarrow> int \<Rightarrow> ('d, unit) bcm" where
  "bc_StoreTransactionIndex E txHash blockHash index = db_op (StoreTransactionIndex (ce_lv E) txHash blockHash index)"

definition bc_StoreBestState :: "'d chain_env \<Rightarrow> byte \<Rightarrow> ('d, unit) bcm" where
  "bc_StoreBestState E chainId = (\<lambda>s.
     if unat chainId < length (BestStates s)
     then db_op (StoreBestState (ce_lv E) (best_json E (BestStates s ! unat chainId)) chainId) s
     else (Panic, s))"

definition GetBestState :: "'d chain_env \<Rightarrow> byte \<Rightarrow> ('d, BestState) bcm" where
  "GetBestState E chainId =
     bbind (db_op (FetchBestState (ce_lv E) chainId)) (\<lambda>b.
       case parse_best E b of None \<Rightarrow> bfail JsonError | Some bs \<Rightarrow> bret bs)"

definition GetBlockHeightByBlockHash :: "'d chain_env \<Rightarrow> hash \<Rightarrow> ('d, int \<times> byte) bcm" where
  "GetBlockHeightByBlockHash E h = db_op (GetIndexOfBlock (ce_lv E) h)"

definition GetBlockHashByBlockHeight :: "'d chain_env \<Rightarrow> int \<Rightarrow> byte \<Rightarrow> ('d, hash) bcm" where
  "GetBlockHashByBlockHeight E height chainId = db_op (GetBlockByIndex (ce_lv E) height chainId)"

text \<open>The block from its stored bytes: a light node has only the header.\<close>

definition empty_block :: "BlockHeader \<Rightarrow> Block" where
  "empty_block h = \<lparr>Header = h, Transactions = None, BlockProducer = [], BlockProducerSig = []\<rparr>"

definition decode_block :: "'d chain_env \<Rightarrow> bytes \<Rightarrow> ('d, Block) bcm" where
  "decode_block E blockBytes =
     (if ce_Light E
      then case parse_header E blockBytes of None \<Rightarrow> bfail JsonError | Some h \<Rightarrow> bret (empty_block h)
      else of_res (Block_UnmarshalJSON (parse_block E) blockBytes))"

definition GetBlockByBlockHash :: "'d chain_env \<Rightarrow> hash \<Rightarrow> ('d, Block) bcm" where
  "GetBlockByBlockHash E h = bbind (db_op (FetchBlock (ce_lv E) h)) (decode_block E)"

definition GetBlockByBlockHeight :: "'d chain_env \<Rightarrow> int \<Rightarrow> byte \<Rightarrow> ('d, Block) bcm" where
  "GetBlockByBlockHeight E height chainId =
     bbind (db_op (GetBlockByIndex (ce_lv E) height chainId)) (\<lambda>h. GetBlockByBlockHash E h)"

text \<open>\<open>GetAllBlocks\<close> indexes the empty result slice, and \<open>FetchAllBlocks\<close> has panicked before when there is
  any block.\<close>

definition GetAllBlocks :: "'d chain_env \<Rightarrow> ('d, Block list list) bcm" where
  "GetAllBlocks E =
     bbind (db_op (FetchAllBlocks (ce_lv E))) (\<lambda>data.
       case concat (map snd data) of
         [] \<Rightarrow> bret []
       | h # _ \<Rightarrow> bbind (GetBlockByBlockHash E h) (\<lambda>_. bpanic))"

fun blocks_loop :: "'d chain_env \<Rightarrow> hash list \<Rightarrow> ('d, Block list) bcm" where
  "blocks_loop E [] = bret []"
| "blocks_loop E (h # hs) =
     bbind (GetBlockByBlockHash E h) (\<lambda>b. bbind (blocks_loop E hs) (\<lambda>bs. bret (b # bs)))"

definition GetChainBlocks :: "'d chain_env \<Rightarrow> byte \<Rightarrow> ('d, Block list) bcm" where
  "GetChainBlocks E chainID = bbind (db_op (FetchChainBlocks (ce_lv E) chainID)) (blocks_loop E)"

definition GetAllHashBlocks :: "'d chain_env \<Rightarrow> ('d, (byte \<times> hash list) list) bcm" where
  "GetAllHashBlocks E = db_op (FetchAllBlocks (ce_lv E))"

definition BlockExists :: "'d chain_env \<Rightarrow> hash \<Rightarrow> ('d, bool) bcm" where
  "BlockExists E h = bwrap unexpected_error (db_op (HasBlock (ce_lv E) h))"


subsection \<open>The view of a block (\<open>txviewpoint.go\<close>)\<close>

record TxViewPoint =
  tv_chainID :: byte
  listNullifiers :: "bytes list"
  listCommitments :: "bytes list"
  customTokenTxs :: "(int \<times> TxCustomToken) list"
  currentBestBlockHash :: hash

definition NewTxViewPoint :: "byte \<Rightarrow> TxViewPoint" where
  "NewTxViewPoint chainId =
     \<lparr>tv_chainID = chainId, listNullifiers = [], listCommitments = [], customTokenTxs = [], currentBestBlockHash = zero_hash\<rparr>"

text \<open>The items the database does not have yet.\<close>

fun new_items :: "(bytes \<Rightarrow> ('d, bool) dbm) \<Rightarrow> bytes list \<Rightarrow> ('d, bytes list) dbm" where
  "new_items has [] = dret []"
| "new_items has (item # items) =
     dbind (has item) (\<lambda>temp. dbind (new_items has items) (\<lambda>rest. dret (if temp then rest else item # rest)))"

definition processFetchTxViewPoint :: "'d leveldb \<Rightarrow> byte \<Rightarrow> JoinSplitDesc \<Rightarrow> ('d, bytes list \<times> bytes list) dbm" where
  "processFetchTxViewPoint lv chainID desc =
     dbind (new_items (\<lambda>item. HasNullifier lv item chainID) (Nullifiers desc)) (\<lambda>ns.
     dbind (new_items (\<lambda>item. HasCommitment lv item chainID) (Commitments desc)) (\<lambda>cs. dret (ns, cs)))"

fun fetch_descs :: "'d chain_env \<Rightarrow> byte \<Rightarrow> JoinSplitDesc list \<Rightarrow> bytes list \<times> bytes list \<Rightarrow> ('d, bytes list \<times> bytes list) bcm" where
  "fetch_descs E chainID [] acc = bret acc"
| "fetch_descs E chainID (desc # descs) acc =
     bbind (bwrap unexpected_error (db_op (processFetchTxViewPoint (ce_lv E) chainID desc))) (\<lambda>(temp1, temp2).
       fetch_descs E chainID descs (fst acc @ temp1, snd acc @ temp2))"

definition map_put :: "'k \<Rightarrow> 'v \<Rightarrow> ('k \<times> 'v) list \<Rightarrow> ('k \<times> 'v) list" where
  "map_put k v m = filter (\<lambda>e. fst e \<noteq> k) m @ [(k, v)]"

text \<open>A transaction whose type does not fit its dynamic type panics in the type assertion.\<close>

fun fetch_txs :: "'d chain_env \<Rightarrow> byte \<Rightarrow> nat \<Rightarrow> transaction list \<Rightarrow> TxViewPoint \<Rightarrow> bytes list \<times> bytes list \<Rightarrow>
    ('d, TxViewPoint \<times> bytes list \<times> bytes list) bcm" where
  "fetch_txs E chainID indexTx [] view acc = bret (view, acc)"
| "fetch_txs E chainID indexTx (tx # txs) view acc =
     (if GetType tx = TxNormalType \<or> GetType tx = TxSalaryType then
        (case tx of
           NormalTx t \<Rightarrow> bbind (fetch_descs E chainID (Descs t) acc) (\<lambda>acc'. fetch_txs E chainID (Suc indexTx) txs view acc')
         | _ \<Rightarrow> bpanic)
      else if GetType tx = TxCustomTokenType then
        (case tx of
           CustomTokenTx t \<Rightarrow>
             bbind (fetch_descs E chainID (Descs (ct_Tx t)) acc) (\<lambda>acc'.
               fetch_txs E chainID (Suc indexTx) txs
                 (view\<lparr>customTokenTxs := map_put (wrap32 (int indexTx)) t (customTokenTxs view)\<rparr>) acc')
         | _ \<Rightarrow> bpanic)
      else bfail (unexpected_error (Message ''Tx type is invalid'')))"

definition fetchTxViewPoint :: "'d chain_env \<Rightarrow> TxViewPoint \<Rightarrow> Block \<Rightarrow> ('d, TxViewPoint) bcm" where
  "fetchTxViewPoint E view block =
     bbind (fetch_txs E (ChainID (Header block)) 0 (txs_of block) view ([], [])) (\<lambda>(view, acceptedNullifiers, acceptedCommitments).
       bret (if length acceptedNullifiers > 0
             then view\<lparr>listNullifiers := listNullifiers view @ acceptedNullifiers,
                       listCommitments := listCommitments view @ acceptedCommitments\<rparr>
             else view))"

definition FetchTxViewPoint :: "'d chain_env \<Rightarrow> byte \<Rightarrow> ('d, TxViewPoint) bcm" where
  "FetchTxViewPoint E chainId =
     bbind (db_op (FetchCommitments (ce_lv E) chainId)) (\<lambda>commitments.
     bbind (db_op (FetchNullifiers (ce_lv E) chainId)) (\<lambda>nullifiers.
       bret ((NewTxViewPoint chainId)\<lparr>listCommitments := commitments, listNullifiers := nullifiers\<rparr>)))"

subsection \<open>Storing what a block brings\<close>

definition StoreNullifiersFromListNullifier :: "'d chain_env \<Rightarrow> bytes list \<Rightarrow> byte \<Rightarrow> ('d, unit) bcm" where
  "StoreNullifiersFromListNullifier E nullifiers chainId = bforall (\<lambda>n. db_op (StoreNullifiers (ce_lv E) n chainId)) nullifiers"

definition StoreCommitmentsFromListCommitment :: "'d chain_env \<Rightarrow> bytes list \<Rightarrow> byte \<Rightarrow> ('d, unit) bcm" where
  "StoreCommitmentsFromListCommitment E commitments chainId =
     bforall (\<lambda>c. db_op (StoreCommitments (ce_lv E) c chainId)) commitments"

definition StoreNullifiersFromTxViewPoint :: "'d chain_env \<Rightarrow> TxViewPoint \<Rightarrow> ('d, unit) bcm" where
  "StoreNullifiersFromTxViewPoint E view =
     bforall (\<lambda>item1. db_op (StoreNullifiers (ce_lv E) item1 (tv_chainID view))) (listNullifiers view)"

definition StoreCommitmentsFromTxViewPoint :: "'d chain_env \<Rightarrow> TxViewPoint \<Rightarrow> ('d, unit) bcm" where
  "StoreCommitmentsFromTxViewPoint E view =
     bforall (\<lambda>item1. db_op (StoreCommitments (ce_lv E) item1 (tv_chainID view))) (listCommitments view)"

text \<open>\<open>GetTxSenderChain\<close> of the address byte has an error result the model of package \<open>common\<close> passes on.\<close>

definition sender_chain :: "Tx \<Rightarrow> ('d, byte) bcm" where
  "sender_chain tx = (case GetTxSenderChain (AddressLastByte tx) of
      Ok c \<Rightarrow> bret c | Err _ \<Rightarrow> bfail (Message ''Get sender addr byte'') | Panic \<Rightarrow> bpanic)"

definition StoreNullifiersFromTx :: "'d chain_env \<Rightarrow> Tx \<Rightarrow> ('d, unit) bcm" where
  "StoreNullifiersFromTx E tx =
     bforall (\<lambda>n. bbind (sender_chain tx) (\<lambda>c. db_op (StoreNullifiers (ce_lv E) n c))) (concat (map Nullifiers (Descs tx)))"

definition StoreCommitmentsFromTx :: "'d chain_env \<Rightarrow> Tx \<Rightarrow> ('d, unit) bcm" where
  "StoreCommitmentsFromTx E tx =
     bforall (\<lambda>c. bbind (sender_chain tx) (\<lambda>i. db_op (StoreCommitments (ce_lv E) c i))) (tx_commitments tx)"

text \<open>
  One token transaction: a failing history entry skips the rest; in every thousandth block the error of
  \<open>StoreCustomTokenTx\<close> is overwritten by that of the snapshot, which is assigned in any case.
\<close>

definition save_token_tx :: "'d chain_env \<Rightarrow> Block \<Rightarrow> int \<times> TxCustomToken \<Rightarrow> ('d, unit) bcm" where
  "save_token_tx E block itx =
     (let (indexTx, tx) = itx; tokenID = PropertyID (ct_TxTokenData tx); h = TxCustomToken_Hash (ce_PS E) tx in
      bbind (if td_Type (ct_TxTokenData tx) = CustomTokenInit then db_op (StoreCustomToken (ce_lv E) tokenID h) else bret ()) (\<lambda>_.
      bbind (btry (db_op (StoreCustomTokenPaymentAddresstHistory (ce_lv E) tokenID h (ct_TxTokenData tx)))) (\<lambda>r.
      case r of
        Inl _ \<Rightarrow> bret ()
      | Inr _ \<Rightarrow>
          bbind (btry (db_op (StoreCustomTokenTx (ce_lv E) tokenID (ChainID (Header block)) (hd_Height (Header block)) indexTx h)))
            (\<lambda>r2.
               if hd_Height (Header block) mod 1000 = 0 then
                 bbind (btry (db_op (GetCustomTokenListPaymentAddressesBalance (ce_lv E) tokenID))) (\<lambda>r3.
                   case r3 of
                     Inl e \<Rightarrow> (\<lambda>s. (Err e, s\<lparr>rewardSnapshot := Map.empty\<rparr>))
                   | Inr m \<Rightarrow> (\<lambda>s. (Ok (), s\<lparr>rewardSnapshot := m\<rparr>)))
               else case r2 of Inl e \<Rightarrow> bfail e | Inr _ \<Rightarrow> bret ()))))"

definition CreateAndSaveTxViewPoint :: "'d chain_env \<Rightarrow> Block \<Rightarrow> ('d, unit) bcm" where
  "CreateAndSaveTxViewPoint E block =
     bbind (fetchTxViewPoint E (NewTxViewPoint (ChainID (Header block))) block) (\<lambda>view.
     bbind (bforall (save_token_tx E block) (token_order E (customTokenTxs view))) (\<lambda>_.
     bbind (StoreNullifiersFromTxViewPoint E view) (\<lambda>_. StoreCommitmentsFromTxViewPoint E view)))"

text \<open>The errors of storing loans are dropped.\<close>

definition save_loan_tx :: "'d chain_env \<Rightarrow> transaction \<Rightarrow> ('d, unit) bcm" where
  "save_loan_tx E tx =
     (if GetType tx = TxLoanRequestType then
        (case tx of
           LoanRequestTx t \<Rightarrow>
             bbind (or_panic (tx_Hash (ce_PS E) tx)) (\<lambda>h.
             bbind (btry (db_op (StoreLoanRequest (ce_lv E) (lr_LoanID (lreq_LoanRequest t)) h))) (\<lambda>_. bret ()))
         | _ \<Rightarrow> bpanic)
      else if GetType tx = TxLoanResponseType then
        (case tx of
           LoanResponseTx t \<Rightarrow>
             bbind (or_panic (tx_Hash (ce_PS E) tx)) (\<lambda>h.
             bbind (btry (db_op (StoreLoanResponse (ce_lv E) (ls_LoanID (lres_LoanResponse t)) h))) (\<lambda>_. bret ()))
         | _ \<Rightarrow> bpanic)
      else bret ())"

definition SaveLoanTxsForBlock :: "'d chain_env \<Rightarrow> Block \<Rightarrow> ('d, unit) bcm" where
  "SaveLoanTxsForBlock E block = bforall (save_loan_tx E) (txs_of block)"

definition GetAccountUTXO :: "bytes \<Rightarrow> bytes list" where
  "GetAccountUTXO account = []"

definition GetUTXOReward :: "bytes \<Rightarrow> (bc_error, u64) res" where
  "GetUTXOReward utxo = Ok 0"

definition UpdateUTXOReward :: "bytes \<Rightarrow> u64 \<Rightarrow> ('d, unit) bcm" where
  "UpdateUTXOReward utxo reward = bret ()"

definition update_dividend_tx :: "transaction \<Rightarrow> ('d, unit) bcm" where
  "update_dividend_tx tx =
     (if GetType tx = TxDividendPayoutType then
        (case tx of
           DividendPayoutTx t \<Rightarrow>
             bforall (\<lambda>desc. bforall (\<lambda>n. bforall (\<lambda>utxo. UpdateUTXOReward utxo (PayoutID (div_DividendPayout t)))
                 (GetAccountUTXO (Apk n))) (elems (desc_Note desc))) (Descs (div_Tx t))
         | _ \<Rightarrow> bpanic)
      else bret ())"

definition UpdateDividendPayout :: "Block \<Rightarrow> ('d, unit) bcm" where
  "UpdateDividendPayout block = bforall update_dividend_tx (txs_of block)"

definition crowdsale_tx :: "transaction \<Rightarrow> ('d, unit) bcm" where
  "crowdsale_tx tx =
     (if GetType tx = TxCrowdsaleType then
        (case tx of
           CrowdsaleTx t \<Rightarrow>
             (let sd = cs_SaleData t in
              db_op (SaveCrowdsaleData (SaleID sd) (sd_BondID sd) (BaseAsset sd) (QuoteAsset sd) (Price sd) (EscrowAccount sd)))
         | _ \<Rightarrow> bpanic)
      else bret ())"

definition ProcessCrowdsaleTxs :: "Block \<Rightarrow> ('d, unit) bcm" where
  "ProcessCrowdsaleTxs block = bforall crowdsale_tx (txs_of block)"


subsection \<open>The notes of a key in a block\<close>

text \<open>\<open>DecryptTxByKey\<close> copies the descriptions with the notes of a key that are not spent. It sets the commitment
  and the public key of the notes it finds, also in the transaction it was given, because both share the
  notes; the second result is that transaction afterwards.\<close>

definition empty_desc :: JoinSplitDesc where
  "empty_desc = \<lparr>Anchor = [], Nullifiers = [], Commitments = [], Proof = None, EncryptedData = [], EphemeralPubKey = [],
     HSigSeed = [], Reward = 0, Vmacs = [], desc_Note = None\<rparr>"

definition not_spent :: "KeySet \<Rightarrow> bytes list \<Rightarrow> Note \<Rightarrow> (bc_error, bool) res" where
  "not_spent keys nullifiersInDb n =
     (if length nullifiersInDb > 0 then
        (case GetNullifier (PrivateKey keys) (copy32 (Rho n)) of
           None \<Rightarrow> Panic
         | Some candidateNullifier \<Rightarrow> Ok (candidateNullifier \<noteq> [] \<and> \<not> SliceBytesExists nullifiersInDb candidateNullifier))
      else Ok True)"

definition found_note :: "'d chain_env \<Rightarrow> KeySet \<Rightarrow> bytes \<Rightarrow> Note \<Rightarrow> Note" where
  "found_note E keys cm n = n\<lparr>Cm := cm, Apk := GeneratePublicKey (ce_curve E) (PrivateKey keys)\<rparr>"

fun decrypt_encs :: "'d chain_env \<Rightarrow> bytes list \<Rightarrow> KeySet \<Rightarrow> Tx \<Rightarrow> JoinSplitDesc \<Rightarrow> nat \<Rightarrow> bytes list \<Rightarrow> JoinSplitDesc \<Rightarrow>
    (bc_error, JoinSplitDesc) res" where
  "decrypt_encs E nfs keys tx desc i [] copyDesc = Ok copyDesc"
| "decrypt_encs E nfs keys tx desc i (encData # encs) copyDesc =
     (if length (Nullifiers desc) < 2 then Panic
      else let hSig = HSigCRH (nc_blake (ce_crypto E)) (HSigSeed desc) (Nullifiers desc ! 0) (Nullifiers desc ! 1) (elems (JSPubKey tx)) in
           case DecryptNote (ce_crypto E) encData (vk_Rk (ReadonlyKey keys)) (Tk (ks_PaymentAddress keys))
                  (copy32 (EphemeralPubKey desc)) hSig of
             Panic \<Rightarrow> Panic
           | Err _ \<Rightarrow> decrypt_encs E nfs keys tx desc (Suc i) encs copyDesc
           | Ok n \<Rightarrow>
               if Value n > 0 then
                 if length (Commitments desc) \<le> i then Panic
                 else and_then (not_spent keys nfs n) (\<lambda>ok.
                        decrypt_encs E nfs keys tx desc (Suc i) encs
                          (if ok
                           then (AppendNote copyDesc (found_note E keys (Commitments desc ! i) n))
                                  \<lparr>EncryptedData := EncryptedData copyDesc @ [encData],
                                   Commitments := Commitments copyDesc @ [Commitments desc ! i]\<rparr>
                           else copyDesc))
               else decrypt_encs E nfs keys tx desc (Suc i) encs copyDesc)"

fun plain_notes :: "'d chain_env \<Rightarrow> bytes list \<Rightarrow> KeySet \<Rightarrow> JoinSplitDesc \<Rightarrow> nat \<Rightarrow> Note list \<Rightarrow> JoinSplitDesc \<Rightarrow>
    (bc_error, JoinSplitDesc \<times> Note list) res" where
  "plain_notes E nfs keys desc i [] copyDesc = Ok (copyDesc, [])"
| "plain_notes E nfs keys desc i (n # ns) copyDesc =
     (if Apk n = Pk (ks_PaymentAddress keys) \<and> Value n > 0 then
        if length (Commitments desc) \<le> i then Panic
        else and_then (not_spent keys nfs n) (\<lambda>ok.
               let n' = (if ok then found_note E keys (Commitments desc ! i) n else n);
                   copyDesc' = (if ok then (AppendNote copyDesc n')\<lparr>Commitments := Commitments copyDesc @ [Commitments desc ! i]\<rparr>
                                else copyDesc)
               in and_then (plain_notes E nfs keys desc (Suc i) ns copyDesc') (\<lambda>(c, ns'). Ok (c, n' # ns')))
      else and_then (plain_notes E nfs keys desc (Suc i) ns copyDesc) (\<lambda>(c, ns'). Ok (c, n # ns')))"

definition decrypt_desc :: "'d chain_env \<Rightarrow> bytes list \<Rightarrow> KeySet \<Rightarrow> Tx \<Rightarrow> JoinSplitDesc \<Rightarrow> (bc_error, JoinSplitDesc \<times> JoinSplitDesc) res" where
  "decrypt_desc E nfs keys tx desc =
     (let copyDesc = empty_desc\<lparr>Anchor := Anchor desc, Reward := Reward desc\<rparr> in
      if Proof desc \<noteq> None \<and> length (EncryptedData desc) > 0
      then and_then (decrypt_encs E nfs keys tx desc 0 (EncryptedData desc) copyDesc) (\<lambda>c. Ok (c, desc))
      else and_then (plain_notes E nfs keys desc 0 (elems (desc_Note desc)) copyDesc) (\<lambda>(c, ns').
             Ok (c, desc\<lparr>desc_Note := map_option (\<lambda>_. ns') (desc_Note desc)\<rparr>)))"

fun decrypt_descs :: "'d chain_env \<Rightarrow> bytes list \<Rightarrow> KeySet \<Rightarrow> Tx \<Rightarrow> JoinSplitDesc list \<Rightarrow>
    (bc_error, JoinSplitDesc list \<times> JoinSplitDesc list) res" where
  "decrypt_descs E nfs keys tx [] = Ok ([], [])"
| "decrypt_descs E nfs keys tx (desc # descs) =
     and_then (decrypt_desc E nfs keys tx desc) (\<lambda>(c, desc').
     and_then (decrypt_descs E nfs keys tx descs) (\<lambda>(cs, descs').
       Ok (if elems (desc_Note c) \<noteq> [] then c # cs else cs, desc' # descs')))"

definition DecryptTxByKey :: "'d chain_env \<Rightarrow> transaction \<Rightarrow> bytes list \<Rightarrow> KeySet \<Rightarrow> (bc_error, Tx \<times> Tx) res" where
  "DecryptTxByKey E txInBlock nullifiersInDb keys =
     (case txInBlock of
        NormalTx tx \<Rightarrow>
          and_then (decrypt_descs E nullifiersInDb keys tx (Descs tx)) (\<lambda>(listDesc, descs').
            Ok (tx\<lparr>Descs := listDesc, txId := None, RequestedTxID := None\<rparr>, tx\<lparr>Descs := descs'\<rparr>))
      | _ \<Rightarrow> Panic)"

fun unspent_loop :: "'d chain_env \<Rightarrow> bytes list \<Rightarrow> KeySet \<Rightarrow> bool \<Rightarrow> transaction list \<Rightarrow> (bc_error, Tx list \<times> transaction list) res" where
  "unspent_loop E nfs keys returnFullTx [] = Ok ([], [])"
| "unspent_loop E nfs keys returnFullTx (t # ts) =
     (if GetType t = TxNormalType \<or> GetType t = TxSalaryType then
        and_then (DecryptTxByKey E t nfs keys) (\<lambda>(copyTx, t').
        and_then (unspent_loop E nfs keys returnFullTx ts) (\<lambda>(acc, ts').
          Ok (if Descs copyTx \<noteq> [] then (if returnFullTx then t' else copyTx) # acc else acc, NormalTx t' # ts')))
      else and_then (unspent_loop E nfs keys returnFullTx ts) (\<lambda>(acc, ts'). Ok (acc, t # ts')))"

text \<open>The result is the list under the chain of the block, and the block with its notes changed.\<close>

definition GetListUnspentTxByPrivateKeyInBlock :: "'d chain_env \<Rightarrow> bytes \<Rightarrow> Block \<Rightarrow> bytes list \<Rightarrow> bool \<Rightarrow>
    (bc_error, Tx list \<times> Block) res" where
  "GetListUnspentTxByPrivateKeyInBlock E privateKey block nullifiersInDb returnFullTx =
     (let keys = ImportFromPrivateKey (ce_curve E) privateKey in
      and_then (unspent_loop E nullifiersInDb keys returnFullTx (txs_of block)) (\<lambda>(acc, ts').
        Ok (acc, block\<lparr>Transactions := map_option (\<lambda>_. ts') (Transactions block)\<rparr>)))"

subsection \<open>Connecting a block (\<open>process.go\<close>)\<close>

fun find_tx_index :: "proof_string \<Rightarrow> Tx \<Rightarrow> nat \<Rightarrow> transaction list \<Rightarrow> (bc_error, nat option) res" where
  "find_tx_index PS utx i [] = Ok None"
| "find_tx_index PS utx i (t # ts) =
     (case t of
        NormalTx b \<Rightarrow> if hash_String (Tx_Hash PS utx) = hash_String (Tx_Hash PS b) then Ok (Some i)
                      else find_tx_index PS utx (Suc i) ts
      | _ \<Rightarrow> Panic)"

text \<open>Storing a light transaction changes the bytes of the key it is given, here account \<open>a\<close> of the wallet.\<close>

definition store_light :: "'d chain_env \<Rightarrow> Block \<Rightarrow> nat \<Rightarrow> Tx \<Rightarrow> ('d, unit) bcm" where
  "store_light E block a utx =
     bbind (of_res (find_tx_index (ce_PS E) utx 0 (txs_of block))) (\<lambda>txIndex.
       case txIndex of
         None \<Rightarrow> bfail (BlockChainError UnExpectedError None)
       | Some i \<Rightarrow> (\<lambda>s.
           case StoreTransactionLightMode (ce_lv E) (walletKeys s ! a) (ChainID (Header block)) (hd_Height (Header block)) (int i)
                  (Tx_Hash (ce_PS E) utx) (tx_json E utx) (ch_db s) of
             ((r, d'), key') \<Rightarrow> (map_err (\<lambda>e. unexpected_error (DbError e)) r, s\<lparr>ch_db := d', walletKeys := (walletKeys s)[a := key']\<rparr>)))"

fun light_accounts :: "'d chain_env \<Rightarrow> bytes list \<Rightarrow> nat list \<Rightarrow> Block \<Rightarrow> ('d, Block) bcm" where
  "light_accounts E nfs [] block = bret block"
| "light_accounts E nfs (a # as) block = (\<lambda>s.
     bbind (bwrap unexpected_error (of_res (GetListUnspentTxByPrivateKeyInBlock E (walletKeys s ! a) block nfs True))) (\<lambda>(txs, block').
     bbind (bforall (store_light E block' a) txs) (\<lambda>_. light_accounts E nfs as block')) s)"

definition connect_light :: "'d chain_env \<Rightarrow> Block \<Rightarrow> ('d, Block) bcm" where
  "connect_light E block =
     bbind (bwrap unexpected_error (bc_StoreBlockHeader E block)) (\<lambda>_.
     bbind (bwrap unexpected_error (FetchTxViewPoint E (ChainID (Header block)))) (\<lambda>txViewPoint. (\<lambda>s.
       light_accounts E (listNullifiers txViewPoint) [0..<length (walletKeys s)] block s)))"

fun index_txs :: "'d chain_env \<Rightarrow> hash \<Rightarrow> nat \<Rightarrow> transaction list \<Rightarrow> ('d, unit) bcm" where
  "index_txs E bh index [] = bret ()"
| "index_txs E bh index (tx # txs) =
     bbind (or_panic (tx_Hash (ce_PS E) tx)) (\<lambda>th.
     bbind (bwrap unexpected_error (bc_StoreTransactionIndex E th bh (int index))) (\<lambda>_. index_txs E bh (Suc index) txs))"

text \<open>The error of \<open>StoreBlock\<close> is looked at after the transactions have been indexed.\<close>

definition connect_full :: "'d chain_env \<Rightarrow> Block \<Rightarrow> hash \<Rightarrow> ('d, Block) bcm" where
  "connect_full E block bh =
     bbind (btry (bc_StoreBlock E block)) (\<lambda>r.
     bbind (index_txs E bh 0 (txs_of block)) (\<lambda>_.
       case r of Inl e \<Rightarrow> bfail (unexpected_error e) | Inr _ \<Rightarrow> bret block))"

definition ConnectBlock :: "'d chain_env \<Rightarrow> Block \<Rightarrow> ('d, Block) bcm" where
  "ConnectBlock E block =
     bbind (or_panic (Block_Hash (ce_PS E) block)) (\<lambda>bh.
     bbind (if ce_Light E then connect_light E block else connect_full E block bh) (\<lambda>block.
     bbind (bwrap unexpected_error (bc_StoreBlockIndex E block)) (\<lambda>_.
     bbind (bwrap unexpected_error (CreateAndSaveTxViewPoint E block)) (\<lambda>_.
     bbind (bwrap unexpected_error (SaveLoanTxsForBlock E block)) (\<lambda>_.
     bbind (bwrap unexpected_error (UpdateDividendPayout block)) (\<lambda>_.
     bbind (bwrap unexpected_error (ProcessCrowdsaleTxs block)) (\<lambda>_. bret block)))))))"

subsection \<open>Initialisation\<close>

text \<open>The genesis block of chain 0, and its header alone for the other chains.\<close>

definition genesis_for :: "Block \<Rightarrow> byte \<Rightarrow> Block" where
  "genesis_for genesis chainId =
     (let b = (if chainId = 0 then genesis
               else empty_block ((Header genesis)\<lparr>ChainID := chainId, PrevBlockHash := zero_hash\<rparr>))
      in b\<lparr>Header := (Header b)\<lparr>hd_Height := 1\<rparr>\<rparr>)"

definition createChainState :: "'d chain_env \<Rightarrow> Block \<Rightarrow> byte \<Rightarrow> ('d, unit) bcm" where
  "createChainState E genesis chainId =
     (let initBlock = genesis_for genesis chainId in
      case UpdateMerkleTreeForBlock empty_tree initBlock of
        (Panic, _) \<Rightarrow> bpanic
      | (Err e, _) \<Rightarrow> bfail (BlockChainError UpdateMerkleTreeForBlockError (Some e))
      | (Ok _, tree) \<Rightarrow>
          bbind (or_panic (BestState_Init (ce_PS E) empty_BestState initBlock tree)) (\<lambda>bs.
          bbind (\<lambda>s. (Ok (), s\<lparr>BestStates := (BestStates s)[unat chainId := bs]\<rparr>)) (\<lambda>_.
          bbind (ConnectBlock E initBlock) (\<lambda>block'.
          bbind (\<lambda>s. (Ok (), s\<lparr>BestStates := (BestStates s)[unat chainId := bs\<lparr>BestBlock := Some block'\<rparr>]\<rparr>)) (\<lambda>_.
            bwrap unexpected_error (bc_StoreBestState E chainId))))))"

definition init_chain :: "'d chain_env \<Rightarrow> Block \<Rightarrow> byte \<Rightarrow> ('d, unit) bcm" where
  "init_chain E genesis chainId =
     bbind (btry (db_op (FetchBestState (ce_lv E) chainId))) (\<lambda>r.
       case (case r of Inl _ \<Rightarrow> None | Inr b \<Rightarrow> parse_best E b) of
         Some bs \<Rightarrow> (\<lambda>s. (Ok (), s\<lparr>BestStates := (BestStates s)[unat chainId := bs]\<rparr>))
       | None \<Rightarrow> createChainState E genesis chainId)"

text \<open>The slots of the chains hold nil until a chain is initialised.\<close>

definition initChainState :: "'d chain_env \<Rightarrow> Block \<Rightarrow> ('d, unit) bcm" where
  "initChainState E genesis = (\<lambda>s.
     bforall (init_chain E genesis) (map of_nat [0..<ChainCount])
       (s\<lparr>BestStates := replicate ChainCount empty_BestState\<rparr>))"


subsection \<open>Look-ups\<close>

text \<open>\<open>binary.Read\<close> of a little-endian \<open>uint32\<close> needs four bytes.\<close>

definition read_uint32 :: "bytes \<Rightarrow> ('d, u32) bcm" where
  "read_uint32 b = (if length b < 4 then bfail (Message ''unexpected EOF'') else bret (Uint32 (take 4 b)))"

definition field_at :: "string list \<Rightarrow> nat \<Rightarrow> ('d, bytes) bcm" where
  "field_at locations i = (if i < length locations then bret (bytes_of_string (locations ! i)) else bpanic)"

definition GetTransactionByHashInLightMode :: "'d chain_env \<Rightarrow> hash \<Rightarrow> ('d, byte \<times> hash \<times> int \<times> transaction) bcm" where
  "GetTransactionByHashInLightMode E txHash =
     bbind (db_op (GetTransactionLightModeByHash (ce_lv E) txHash)) (\<lambda>(locationByte, txByte).
     case parse_tx E txByte of
       None \<Rightarrow> bfail JsonError
     | Some tx \<Rightarrow>
         (let locations = strings_Split (string_of_bytes locationByte) ''-'' in
          bbind (field_at locations 2) (\<lambda>chainId.
          bbind (bbind (field_at locations 3) read_uint32) (\<lambda>bh.
          (let blockHeight = of_int bigNumber - bh in
          case chainId of
            [] \<Rightarrow> bpanic
          | c # _ \<Rightarrow>
              bbind (GetBlockByBlockHeight E (wrap32 (uint blockHeight)) c) (\<lambda>block.
              bbind (bbind (field_at locations 4) read_uint32) (\<lambda>ti.
              bbind (or_panic (Block_Hash (ce_PS E) block)) (\<lambda>h.
                bret (c, h, uint (of_int bigNumberTx - ti), NormalTx tx)))))))))"

text \<open>When the block cannot be read, the message of the log dereferences the nil block.\<close>

definition GetTransactionByHash :: "'d chain_env \<Rightarrow> hash \<Rightarrow> ('d, byte \<times> hash \<times> int \<times> transaction) bcm" where
  "GetTransactionByHash E txHash =
     bbind (btry (db_op (GetTransactionIndexById (ce_lv E) txHash))) (\<lambda>r.
       case r of
         Inl e \<Rightarrow> if ce_Light E then GetTransactionByHashInLightMode E txHash else bfail e
       | Inr (blockHash, index) \<Rightarrow>
           bbind (btry (GetBlockByBlockHash E blockHash)) (\<lambda>rb.
             case rb of
               Inl e \<Rightarrow> bpanic
             | Inr block \<Rightarrow>
                 if 0 \<le> index \<and> nat index < length (txs_of block)
                 then bret (ChainID (Header block), blockHash, index, txs_of block ! nat index) else bpanic))"

fun token_txs_loop :: "'d chain_env \<Rightarrow> hash list \<Rightarrow> (hash \<times> TxCustomToken) list \<Rightarrow> ('d, (hash \<times> TxCustomToken) list) bcm" where
  "token_txs_loop E [] result = bret result"
| "token_txs_loop E (h # hs) result =
     bbind (GetTransactionByHash E h) (\<lambda>(_, _, _, tx).
       case tx of
         CustomTokenTx t \<Rightarrow> token_txs_loop E hs (map_put (PropertyID (ct_TxTokenData t)) t result)
       | _ \<Rightarrow> bpanic)"

definition bc_ListCustomToken :: "'d chain_env \<Rightarrow> ('d, (hash \<times> TxCustomToken) list) bcm" where
  "bc_ListCustomToken E =
     bbind (db_op (ListCustomToken (ce_lv E))) (\<lambda>data. token_txs_loop E (map hash_of_value data) [])"

definition GetCustomTokenTxsHash :: "'d chain_env \<Rightarrow> hash \<Rightarrow> ('d, hash list) bcm" where
  "GetCustomTokenTxsHash E tokenID = db_op (CustomTokenTxs (ce_lv E) tokenID)"

fun txs_by_hash :: "'d chain_env \<Rightarrow> hash list \<Rightarrow> (hash \<times> transaction) list \<Rightarrow> ('d, (hash \<times> transaction) list) bcm" where
  "txs_by_hash E [] result = bret result"
| "txs_by_hash E (h # hs) result =
     bbind (GetTransactionByHash E h) (\<lambda>(_, _, _, tx).
     bbind (or_panic (tx_Hash (ce_PS E) tx)) (\<lambda>th. txs_by_hash E hs (map_put th tx result)))"

definition GetCustomTokenTxs :: "'d chain_env \<Rightarrow> hash \<Rightarrow> ('d, (hash \<times> transaction) list) bcm" where
  "GetCustomTokenTxs E tokenID = bbind (db_op (CustomTokenTxs (ce_lv E) tokenID)) (\<lambda>hs. txs_by_hash E hs [])"

definition GetListTokenHolders :: "'d chain_env \<Rightarrow> hash \<Rightarrow> ('d, string \<rightharpoonup> u64) bcm" where
  "GetListTokenHolders E tokenID = db_op (GetCustomTokenListPaymentAddressesBalance (ce_lv E) tokenID)"

definition GetUnspentTxCustomTokenVout :: "'d chain_env \<Rightarrow> KeySet \<Rightarrow> hash \<Rightarrow> ('d, TxTokenVout list) bcm" where
  "GetUnspentTxCustomTokenVout E receiverKeyset tokenID =
     db_op (GetCustomTokenPaymentAddressUTXO (ce_lv E) tokenID (ks_PaymentAddress receiverKeyset))"

definition GetCustomTokenRewardSnapshot :: "'d chain \<Rightarrow> string \<rightharpoonup> u64" where
  "GetCustomTokenRewardSnapshot s = rewardSnapshot s"

definition candidates_of :: "BestState \<Rightarrow> string \<rightharpoonup> CommitteeCandidateInfo" where
  "candidates_of bs = (case Candidates bs of None \<Rightarrow> Map.empty | Some c \<Rightarrow> c)"

fun GetCommitteCandidate :: "BestState list \<Rightarrow> string \<Rightarrow> CommitteeCandidateInfo option" where
  "GetCommitteCandidate [] pubkeyParam = None"
| "GetCommitteCandidate (bs # bss) pubkeyParam =
     (case candidates_of bs pubkeyParam of Some c \<Rightarrow> Some c | None \<Rightarrow> GetCommitteCandidate bss pubkeyParam)"

definition add_candidate :: "string \<Rightarrow> BestState \<Rightarrow> CommitteeCandidateInfo \<Rightarrow> CommitteeCandidateInfo" where
  "add_candidate nodeAddr bs cndVal =
     (case candidates_of bs nodeAddr of
        None \<Rightarrow> cndVal
      | Some c \<Rightarrow>
          let v = cndVal\<lparr>cci_Value := cci_Value cndVal + cci_Value c\<rparr>
          in if cci_Timestamp c > cci_Timestamp v
             then v\<lparr>cci_Timestamp := cci_Timestamp c, cci_ChainID := cci_ChainID c\<rparr> else v)"

definition GetCommitteeCandidateInfo :: "BestState list \<Rightarrow> string \<Rightarrow> CommitteeCandidateInfo" where
  "GetCommitteeCandidateInfo bss nodeAddr =
     foldl (\<lambda>v bs. add_candidate nodeAddr bs v) \<lparr>cci_Value = 0, cci_Timestamp = 0, cci_ChainID = 0\<rparr> bss"

end
