(* ===== verification/Connect.thy ===== *)
theory Connect
  imports BlockChain
begin

text \<open>
  What connecting a block does to the database, over any LevelDB: which keys every step can change, the
  lists of nullifiers and commitments after a block, that a connected block and its transactions are
  found again, and what a block leaves behind that is refused.
\<close>

named_theorems keeps_intros \<open>frame rules of the database operations\<close>

subsection \<open>Frames\<close>

text \<open>\<open>dkeeps view invar K m\<close>: \<open>m\<close> keeps the invariant and every entry whose key is in \<open>K\<close>.\<close>

definition dkeeps :: "('d \<Rightarrow> bytes \<rightharpoonup> bytes) \<Rightarrow> ('d \<Rightarrow> bool) \<Rightarrow> (bytes \<Rightarrow> bool) \<Rightarrow> ('d, 'a) dbm \<Rightarrow> bool" where
  "dkeeps view invar K m \<longleftrightarrow>
     (\<forall>d. invar d \<longrightarrow> invar (snd (m d)) \<and> (\<forall>k. K k \<longrightarrow> view (snd (m d)) k = view d k))"

definition bkeeps :: "('d \<Rightarrow> bytes \<rightharpoonup> bytes) \<Rightarrow> ('d \<Rightarrow> bool) \<Rightarrow> (bytes \<Rightarrow> bool) \<Rightarrow> ('d, 'a) bcm \<Rightarrow> bool" where
  "bkeeps view invar K m \<longleftrightarrow>
     (\<forall>s. invar (ch_db s) \<longrightarrow> invar (ch_db (snd (m s))) \<and> (\<forall>k. K k \<longrightarrow> view (ch_db (snd (m s))) k = view (ch_db s) k))"

lemma dkeeps_pure [keeps_intros]: "dkeeps V I K (dret a)" "dkeeps V I K (dfail e)" "dkeeps V I K dpanic"
  by (simp_all add: dkeeps_def run_defs)

lemma dkeeps_dbind [keeps_intros]:
  assumes "dkeeps V I K m" and "\<And>a. dkeeps V I K (f a)"
  shows "dkeeps V I K (dbind m f)"
  unfolding dkeeps_def
proof (intro allI impI)
  fix d assume "I d"
  then show "I (snd (dbind m f d)) \<and> (\<forall>k. K k \<longrightarrow> V (snd (dbind m f d)) k = V d k)"
    using assms by (cases "m d"; cases "fst (m d)") (fastforce simp: dkeeps_def dbind_def)+
qed

lemma dkeeps_dwrap [keeps_intros]: "dkeeps V I K m \<Longrightarrow> dkeeps V I K (dwrap g m)"
  by (simp add: dkeeps_def dwrap_def split_beta)

lemma bkeeps_pure [keeps_intros]: "bkeeps V I K (bret a)" "bkeeps V I K (bfail e)" "bkeeps V I K bpanic" "bkeeps V I K (of_res r)"
  by (simp_all add: bkeeps_def bret_def bfail_def bpanic_def of_res_def)

lemma bkeeps_or_panic [keeps_intros]: "bkeeps V I K (or_panic x)"
  by (cases x) (simp_all add: or_panic_def bkeeps_pure)

lemma bkeeps_bbind [keeps_intros]:
  fixes m :: "('d, 'a) bcm"
  assumes "bkeeps V I K m" and "\<And>a. bkeeps V I K (f a)"
  shows "bkeeps V I K (bbind m f)"
  unfolding bkeeps_def
proof (intro allI impI)
  fix s :: "'d chain" assume "I (ch_db s)"
  then show "I (ch_db (snd (bbind m f s))) \<and> (\<forall>k. K k \<longrightarrow> V (ch_db (snd (bbind m f s))) k = V (ch_db s) k)"
    using assms by (cases "m s"; cases "fst (m s)") (fastforce simp: bkeeps_def bbind_def)+
qed

lemma bkeeps_bwrap [keeps_intros]: "bkeeps V I K m \<Longrightarrow> bkeeps V I K (bwrap g m)"
  by (simp add: bkeeps_def bwrap_def split_beta)

lemma snd_btry: "snd (btry m s) = snd (m s)"
  by (simp add: btry_def split_beta split: res.split)

lemma bkeeps_btry [keeps_intros]: "bkeeps V I K m \<Longrightarrow> bkeeps V I K (btry m)"
  by (simp add: bkeeps_def snd_btry)

lemma bkeeps_db_op [keeps_intros]: "dkeeps V I K m \<Longrightarrow> bkeeps V I K (db_op m)"
  by (simp add: bkeeps_def dkeeps_def db_op_def split_beta)

lemma bkeeps_bforall [keeps_intros]: "(\<And>x. x \<in> set xs \<Longrightarrow> bkeeps V I K (f x)) \<Longrightarrow> bkeeps V I K (bforall f xs)"
  by (induction xs) (auto intro!: keeps_intros)

lemma bkeepsD:
  "bkeeps V I K m \<Longrightarrow> m s = (r, s') \<Longrightarrow> I (ch_db s) \<Longrightarrow> I (ch_db s') \<and> (\<forall>k. K k \<longrightarrow> V (ch_db s') k = V (ch_db s) k)"
  unfolding bkeeps_def by (metis snd_conv)

lemma has_token_prefix:
  "has_prefix tokenPrefix (getKey tokenInitPrefix t)" "has_prefix tokenPrefix (token_tx_key t c b i)"
  "has_prefix tokenPrefix (utxo_key t p h j)"
  by (simp_all add: getKey_def token_tx_key_def utxo_key_def token_key_def prefix_defs bytes_of_string_def)

context kv_store
begin

lemma dkeeps_reads [keeps_intros]:
  "dkeeps view invar K (lv_get lv k)" "dkeeps view invar K (lv_has lv k)" "dkeeps view invar K (lv_iter lv p)"
  "dkeeps view invar K (hasValue lv k)" "dkeeps view invar K (exists_key lv k)" "dkeeps view invar K (get_or_empty lv k)"
  by (auto simp: dkeeps_def lv_has_def access_simps split: option.split)

lemma dkeeps_decode [keeps_intros]: "dkeeps view invar K (decode_slices e r)"
  by (auto simp: decode_slices_def intro!: keeps_intros split: option.split)

lemma dkeeps_put [keeps_intros]:
  "\<not> K k \<Longrightarrow> dkeeps view invar K (lv_put lv k v)" "\<not> K k \<Longrightarrow> dkeeps view invar K (put lv k v)"
  by (auto simp: dkeeps_def access_simps state_simps)

lemma dkeeps_StoreNullifiers [keeps_intros]:
  "\<not> K (list_key nullifiersPrefix c) \<Longrightarrow> dkeeps view invar K (StoreNullifiers lv x c)"
  by (auto simp: StoreNullifiers_def Let_def intro!: keeps_intros)

lemma dkeeps_StoreCommitments [keeps_intros]:
  "\<not> K (list_key commitmentsPrefix c) \<Longrightarrow> dkeeps view invar K (StoreCommitments lv x c)"
  by (auto simp: StoreCommitments_def Let_def intro!: keeps_intros)

lemma dkeeps_lookups [keeps_intros]:
  "dkeeps view invar K (FetchNullifiers lv c)" "dkeeps view invar K (HasNullifier lv x c)"
  "dkeeps view invar K (FetchCommitments lv c)" "dkeeps view invar K (HasCommitment lv x c)"
  by (auto simp: FetchNullifiers_def HasNullifier_def FetchCommitments_def HasCommitment_def intro!: keeps_intros)

lemma dkeeps_StoreBlockIndex [keeps_intros]:
  "\<not> K (getKey blockKeyIdxPrefix h) \<Longrightarrow> \<not> K (index_key i c) \<Longrightarrow> dkeeps view invar K (StoreBlockIndex lv h i c)"
  by (auto simp: StoreBlockIndex_def Let_def intro!: keeps_intros)

lemma dkeeps_StoreBlock [keeps_intros]:
  "(\<And>h. sv_Hash v = Some h \<Longrightarrow> \<not> K (chain_block_key c h) \<and> \<not> K (blockKeyPrefix @ h)) \<Longrightarrow> dkeeps view invar K (StoreBlock lv v c)"
  by (auto simp: StoreBlock_def store_block_at_def Let_def intro!: keeps_intros split: option.split)

lemma dkeeps_StoreTransactionIndex [keeps_intros]:
  "\<not> K (tx_key t) \<Longrightarrow> dkeeps view invar K (StoreTransactionIndex lv t b i)"
  by (auto simp: StoreTransactionIndex_def intro!: keeps_intros)

lemma dkeeps_store_loan [keeps_intros]:
  "(\<And>k. has_prefix loanIDKeyPrefix k \<or> has_prefix loanTxKeyPrefix k \<Longrightarrow> \<not> K k) \<Longrightarrow> dkeeps view invar K (store_loan lv p l t)"
  by (auto simp: store_loan_def Let_def intro!: keeps_intros)

lemma dkeeps_spend_vins: "(\<And>k. has_prefix tokenPrefix k \<Longrightarrow> \<not> K k) \<Longrightarrow> dkeeps view invar K (spend_vins lv t vins)"
  by (induction vins) (auto simp: Let_def has_token_prefix intro!: keeps_intros)

lemma dkeeps_add_vouts: "(\<And>k. has_prefix tokenPrefix k \<Longrightarrow> \<not> K k) \<Longrightarrow> dkeeps view invar K (add_vouts lv t h vouts)"
  by (induction vouts) (auto simp: Let_def has_token_prefix intro!: keeps_intros)

lemma dkeeps_tokens [keeps_intros]:
  assumes "\<And>k. has_prefix tokenPrefix k \<Longrightarrow> \<not> K k"
  shows "dkeeps view invar K (StoreCustomToken lv t h)" "dkeeps view invar K (StoreCustomTokenTx lv t c b i h)"
    "dkeeps view invar K (StoreCustomTokenPaymentAddresstHistory lv t h txd)"
  using assms
  by (auto simp: StoreCustomToken_def StoreCustomTokenTx_def StoreCustomTokenPaymentAddresstHistory_def has_token_prefix
      intro!: keeps_intros dkeeps_spend_vins dkeeps_add_vouts)

lemma dkeeps_balances [keeps_intros]: "dkeeps view invar K (GetCustomTokenListPaymentAddressesBalance lv t)"
  by (auto simp: GetCustomTokenListPaymentAddressesBalance_def access_simps dkeeps_def dbind_def split: res.split)

end


subsection \<open>The keys of lists and blocks\<close>

definition list_keys :: "bytes \<Rightarrow> bool" where
  "list_keys k \<longleftrightarrow> (\<exists>c. k = list_key nullifiersPrefix c \<or> k = list_key commitmentsPrefix c)"

definition block_keys :: "bytes \<Rightarrow> bool" where
  "block_keys k \<longleftrightarrow> (\<exists>h. is_hash h \<and> (k = blockKeyPrefix @ h \<or> (\<exists>c. k = chain_block_key c h) \<or> k = tx_key h))"

lemma block_keysI: "is_hash h \<Longrightarrow> block_keys (blockKeyPrefix @ h)" "is_hash h \<Longrightarrow> block_keys (tx_key h)"
    "is_hash h \<Longrightarrow> block_keys (chain_block_key c h)"
  by (auto simp: block_keys_def)

text \<open>The first bytes of the keys tell them apart.\<close>

lemma prefix_heads:
  "tokenPrefix = 0x74 # 0x6F # drop 2 tokenPrefix" "transactionKeyPrefix = 0x74 # 0x78 # drop 2 transactionKeyPrefix"
  "loanIDKeyPrefix = 0x6C # drop 1 loanIDKeyPrefix" "loanTxKeyPrefix = 0x6C # drop 1 loanTxKeyPrefix"
  "nullifiersPrefix = 0x6E # drop 1 nullifiersPrefix" "commitmentsPrefix = 0x63 # drop 1 commitmentsPrefix"
  "blockKeyPrefix = 0x62 # drop 1 blockKeyPrefix" "blockKeyIdxPrefix = 0x69 # drop 1 blockKeyIdxPrefix"
  "chainIDPrefix = 0x63 # drop 1 chainIDPrefix"
  by code_simp+

lemma list_keys_head: "list_keys k \<Longrightarrow> hd k = 0x6E \<or> hd k = 0x63"
proof -
  have "hd (list_key nullifiersPrefix c) = 0x6E" "hd (list_key commitmentsPrefix c) = 0x63" for c
    by (subst list_key_def, subst getKey_def, simp, subst prefix_heads, simp)+
  then show "list_keys k \<Longrightarrow> ?thesis" by (auto simp: list_keys_def)
qed

lemma block_keys_head: "block_keys k \<Longrightarrow> hd k = 0x62 \<or> hd k = 0x63 \<or> (hd k = 0x74 \<and> k ! 1 = 0x78)"
proof -
  have "hd (blockKeyPrefix @ h) = 0x62" "hd (chain_block_key c h) = 0x63" "hd (tx_key h) = 0x74" "tx_key h ! 1 = 0x78" for c h
    by (subst prefix_heads, simp) (subst chain_block_key_def, subst prefix_heads, simp,
        (subst tx_key_def, subst prefix_heads, simp)+)
  then show "block_keys k \<Longrightarrow> ?thesis" by (auto simp: block_keys_def)
qed

lemma prefix_head: "has_prefix (p # ps) k \<Longrightarrow> hd k = p" "has_prefix (p # q # ps) k \<Longrightarrow> k ! 1 = q"
  by (auto simp: has_prefix_iff)

lemma token_head: "has_prefix tokenPrefix k \<Longrightarrow> hd k = 0x74 \<and> k ! 1 = 0x6F"
  using prefix_heads(1) prefix_head by metis

lemma loan_head: "has_prefix loanIDKeyPrefix k \<or> has_prefix loanTxKeyPrefix k \<Longrightarrow> hd k = 0x6C"
  using prefix_heads(3,4) prefix_head by metis

lemma length_list_keys: "list_keys k \<Longrightarrow> length k \<in> {12, 13}"
  by (auto simp: list_keys_def list_key_def getKey_def prefix_defs)

lemma length_block_keys: "block_keys k \<Longrightarrow> length k \<in> {34, 36, 67}"
  by (auto simp: block_keys_def is_hash_def tx_key_def prefix_defs)

lemma block_list_disjoint: "block_keys k \<Longrightarrow> \<not> list_keys k"
  using length_list_keys [of k] length_block_keys [of k] by auto

lemma token_disjoint: "has_prefix tokenPrefix k \<Longrightarrow> \<not> list_keys k" "has_prefix tokenPrefix k \<Longrightarrow> \<not> block_keys k"
  using token_head [of k] list_keys_head [of k] block_keys_head [of k] by auto

lemma loan_disjoint:
  "has_prefix loanIDKeyPrefix k \<or> has_prefix loanTxKeyPrefix k \<Longrightarrow> \<not> list_keys k"
  "has_prefix loanIDKeyPrefix k \<or> has_prefix loanTxKeyPrefix k \<Longrightarrow> \<not> block_keys k"
  using loan_head [of k] list_keys_head [of k] block_keys_head [of k] by auto

lemma index_disjoint:
  "\<not> block_keys (index_key i c)" "\<not> list_keys (index_key i c)"
  "\<not> block_keys (getKey blockKeyIdxPrefix h)" "\<not> list_keys (getKey blockKeyIdxPrefix h)"
proof -
  have "hd (getKey blockKeyIdxPrefix h) = 0x69" by (subst getKey_block, subst prefix_heads, simp)
  then show "\<not> block_keys (getKey blockKeyIdxPrefix h)" "\<not> list_keys (getKey blockKeyIdxPrefix h)"
    using list_keys_head block_keys_head by force+
qed (use length_block_keys [of "index_key i c"] length_list_keys [of "index_key i c"] in auto)


subsection \<open>Frames of the steps of \<open>ConnectBlock\<close>\<close>

lemma bkeeps_snapshot [keeps_intros]: "bkeeps V I K (\<lambda>s. (r, s\<lparr>rewardSnapshot := m\<rparr>))"
  by (simp add: bkeeps_def)

context kv_store
begin

lemma dkeeps_new_items: "(\<And>x. dkeeps view invar K (h x)) \<Longrightarrow> dkeeps view invar K (new_items h xs)"
  by (induction xs) (auto intro!: keeps_intros)

lemma bkeeps_fetch_descs:
  assumes lv: "ce_lv E = lv"
  shows "bkeeps view invar K (fetch_descs E c descs acc)"
  by (induction descs arbitrary: acc)
    (auto simp: lv processFetchTxViewPoint_def intro!: keeps_intros dkeeps_new_items split: prod.split)

lemma bkeeps_fetch_txs:
  assumes lv: "ce_lv E = lv"
  shows "bkeeps view invar K (fetch_txs E c i txs v acc)"
proof (induction txs arbitrary: i v acc)
  case (Cons t txs)
  then show ?case by (cases t) (auto intro!: keeps_intros bkeeps_fetch_descs [OF lv])
qed (simp add: keeps_intros)

lemma bkeeps_save_token_tx:
  assumes lv: "ce_lv E = lv" and K: "\<And>k. has_prefix tokenPrefix k \<Longrightarrow> \<not> K k"
  shows "bkeeps view invar K (save_token_tx E block itx)"
  using K by (auto simp: lv save_token_tx_def split_beta Let_def intro!: keeps_intros split: sum.split)

lemma bkeeps_view:
  assumes lv: "ce_lv E = lv" and K: "\<And>k. has_prefix tokenPrefix k \<Longrightarrow> \<not> K k" "\<And>k. list_keys k \<Longrightarrow> \<not> K k"
  shows "bkeeps view invar K (CreateAndSaveTxViewPoint E block)"
proof -
  have "\<not> K (list_key nullifiersPrefix c)" "\<not> K (list_key commitmentsPrefix c)" for c
    using K(2) by (auto simp: list_keys_def)
  then show ?thesis
    using K(1) by (auto simp: lv CreateAndSaveTxViewPoint_def fetchTxViewPoint_def StoreNullifiersFromTxViewPoint_def
        StoreCommitmentsFromTxViewPoint_def
        intro!: keeps_intros bkeeps_fetch_txs [OF lv] bkeeps_save_token_tx [OF lv] split: prod.split)
qed

lemma bkeeps_loans:
  assumes lv: "ce_lv E = lv" and K: "\<And>k. has_prefix loanIDKeyPrefix k \<or> has_prefix loanTxKeyPrefix k \<Longrightarrow> \<not> K k"
  shows "bkeeps view invar K (SaveLoanTxsForBlock E block)"
  using K by (auto simp: lv SaveLoanTxsForBlock_def save_loan_tx_def StoreLoanRequest_def StoreLoanResponse_def
      intro!: keeps_intros split: transaction.split)

lemma bkeeps_dividends: "bkeeps view invar K (UpdateDividendPayout block)"
  by (auto simp: UpdateDividendPayout_def update_dividend_tx_def GetAccountUTXO_def intro!: keeps_intros split: transaction.split)

lemma bkeeps_crowdsales: "bkeeps view invar K (ProcessCrowdsaleTxs block)"
  by (auto simp: ProcessCrowdsaleTxs_def crowdsale_tx_def SaveCrowdsaleData_def Let_def intro!: keeps_intros split: transaction.split)

lemma bkeeps_index:
  assumes lv: "ce_lv E = lv" and K: "\<And>h. \<not> K (getKey blockKeyIdxPrefix h)" "\<And>i c. \<not> K (index_key i c)"
  shows "bkeeps view invar K (bc_StoreBlockIndex E block)"
  by (auto simp: lv K bc_StoreBlockIndex_def intro!: keeps_intros)

end

text \<open>What \<open>ConnectBlock\<close> does after the block and its transactions are stored.\<close>

definition connect_rest :: "'d chain_env \<Rightarrow> Block \<Rightarrow> ('d, Block) bcm" where
  "connect_rest E block =
     bbind (bwrap unexpected_error (bc_StoreBlockIndex E block)) (\<lambda>_.
     bbind (bwrap unexpected_error (CreateAndSaveTxViewPoint E block)) (\<lambda>_.
     bbind (bwrap unexpected_error (SaveLoanTxsForBlock E block)) (\<lambda>_.
     bbind (bwrap unexpected_error (UpdateDividendPayout block)) (\<lambda>_.
     bbind (bwrap unexpected_error (ProcessCrowdsaleTxs block)) (\<lambda>_. bret block)))))"

lemma bbind_bret [simp]: "bbind (bret a) f = f a"
  by (simp add: bbind_def bret_def)

lemma ConnectBlock_full:
  "\<not> ce_Light E \<Longrightarrow> Block_Hash (ce_PS E) block = Some h \<Longrightarrow>
     ConnectBlock E block = bbind (connect_full E block h) (connect_rest E)"
  by (simp add: ConnectBlock_def connect_rest_def [abs_def] or_panic_def bbind_bret)

context kv_store
begin

lemma bkeeps_rest: "ce_lv E = lv \<Longrightarrow> bkeeps view invar block_keys (connect_rest E block)"
  unfolding connect_rest_def
  by (intro keeps_intros bkeeps_index bkeeps_view bkeeps_loans bkeeps_dividends bkeeps_crowdsales index_disjoint)
    (use token_disjoint(2) loan_disjoint(2) block_list_disjoint in auto)

end


subsection \<open>Storing a block\<close>

lemma tx_key_inject: "is_hash a \<Longrightarrow> is_hash b \<Longrightarrow> tx_key a = tx_key b \<longleftrightarrow> a = b"
proof -
  have "a = b" if "is_hash a" "is_hash b" "bytes_of_string (hash_String a) = bytes_of_string (hash_String b)"
    using that hash_str.enc_inj [of a b] by (metis string_of_bytes_of_string)
  then show "is_hash a \<Longrightarrow> is_hash b \<Longrightarrow> ?thesis" by (auto simp: tx_key_def)
qed

lemma tx_key_not_block: "is_hash h \<Longrightarrow> is_hash t \<Longrightarrow> tx_key t \<noteq> blockKeyPrefix @ h \<and> tx_key t \<noteq> chain_block_key c h"
  by (intro conjI length_neq) (simp_all add: is_hash_def tx_key_def prefix_defs)

definition index_value :: "hash \<Rightarrow> nat \<Rightarrow> bytes" where
  "index_value bh i = bytes_of_string (hash_String bh @ splitter @ Itoa (int i))"

lemma those_Cons: "those (x # xs) = Some ys \<longleftrightarrow> (\<exists>y ys'. x = Some y \<and> those xs = Some ys' \<and> ys = y # ys')"
  by (auto split: option.splits)

lemma those_tx_hashes: "those (map (tx_Hash PS) txs) = Some hs \<Longrightarrow>
    length hs = length txs \<and> (\<forall>h \<in> set hs. is_hash h) \<and> (\<forall>j < length txs. tx_Hash PS (txs ! j) = Some (hs ! j))"
proof (induction txs arbitrary: hs)
  case (Cons t txs)
  then show ?case by (auto simp: is_hash_tx_Hash nth_Cons split: option.splits nat.splits)
qed simp

context kv_store
begin

lemma tx_index_lookup:
  assumes d: "invar d" and h: "is_hash b" and i: "int i < 2 ^ 63" and v: "view d (tx_key t) = Some (index_value b i)"
  shows "GetTransactionIndexById lv t d = (Ok (b, int i), d)"
  using d v hash_str.dec_enc [OF h] Atoi_Itoa [of "int i"] i split_index [of "int i"]
  by (simp add: GetTransactionIndexById_def index_value_def Let_def run_defs access_simps)

lemma store_index_step:
  "ce_lv E = lv \<Longrightarrow> invar (ch_db s) \<Longrightarrow> bwrap g (bc_StoreTransactionIndex E t b (int i)) s
     = (Ok (), s\<lparr>ch_db := snd (lv_Put lv (ch_db s) (tx_key t) (index_value b i))\<rparr>)"
  by (simp add: bwrap_def bc_StoreTransactionIndex_def db_op_def StoreTransactionIndex_def lv_put_eq index_value_def)

lemma index_txs_ok:
  assumes lv: "ce_lv E = lv"
  shows "those (map (tx_Hash (ce_PS E)) txs) = Some hs \<Longrightarrow> invar (ch_db s) \<Longrightarrow>
    \<exists>d'. index_txs E bh i txs s = (Ok (), s\<lparr>ch_db := d'\<rparr>) \<and> invar d' \<and>
      (\<forall>k. (\<forall>h \<in> set hs. k \<noteq> tx_key h) \<longrightarrow> view d' k = view (ch_db s) k) \<and>
      (distinct hs \<longrightarrow> (\<forall>j < length hs. view d' (tx_key (hs ! j)) = Some (index_value bh (i + j))))"
proof (induction txs arbitrary: hs s i)
  case Nil
  then show ?case by (auto simp: bret_def intro!: exI [of _ "ch_db s"])
next
  case (Cons t txs)
  from Cons.prems(1) obtain th hs' where th: "tx_Hash (ce_PS E) t = Some th" "those (map (tx_Hash (ce_PS E)) txs) = Some hs'" "hs = th # hs'"
    by (auto split: option.splits)
  define s1 where "s1 = s\<lparr>ch_db := snd (lv_Put lv (ch_db s) (tx_key th) (index_value bh i))\<rparr>"
  have s1: "invar (ch_db s1)" "view (ch_db s1) = (view (ch_db s))(tx_key th \<mapsto> index_value bh i)"
    using Cons.prems(2) by (simp_all add: s1_def state_simps)
  have run: "index_txs E bh i (t # txs) s = index_txs E bh (Suc i) txs s1"
    using store_index_step [OF lv Cons.prems(2), of unexpected_error th bh i] th(1)
    by (simp add: or_panic_def bbind_def bret_def s1_def)
  obtain d' where d': "index_txs E bh (Suc i) txs s1 = (Ok (), s1\<lparr>ch_db := d'\<rparr>)" "invar d'"
    "\<And>k. (\<forall>h \<in> set hs'. k \<noteq> tx_key h) \<Longrightarrow> view d' k = view (ch_db s1) k"
    "distinct hs' \<Longrightarrow> (\<forall>j < length hs'. view d' (tx_key (hs' ! j)) = Some (index_value bh (Suc i + j)))"
    using Cons.IH [OF th(2) s1(1), of "Suc i"] by blast
  have frame: "view d' k = view (ch_db s) k" if "\<forall>h \<in> set hs. k \<noteq> tx_key h" for k
    using that d'(3) [of k] th(3) s1(2) by simp
  have "view d' (tx_key (hs ! j)) = Some (index_value bh (i + j))" if "distinct hs" "j < length hs" for j
  proof (cases j)
    case 0
    have "\<forall>h \<in> set hs'. tx_key th \<noteq> tx_key h"
      using that(1) th those_tx_hashes [OF Cons.prems(1)] tx_key_inject by auto
    then show ?thesis using 0 th(3) d'(3) [of "tx_key th"] s1(2) by simp
  next
    case (Suc m)
    then show ?thesis using that th(3) d'(4) by simp
  qed
  moreover have "s1\<lparr>ch_db := d'\<rparr> = s\<lparr>ch_db := d'\<rparr>" by (simp add: s1_def)
  ultimately show ?case unfolding run using d'(1,2) frame by auto
qed

lemma bc_StoreBlock_eq:
  assumes lv: "ce_lv E = lv" and h: "Block_Hash (ce_PS E) block = Some h" and s: "invar (ch_db s)"
    and j: "block_json E block = Some j" and new: "view (ch_db s) (chain_block_key (ChainID (Header block)) h) = None"
  shows "\<exists>d'. bc_StoreBlock E block s = (Ok (), s\<lparr>ch_db := d'\<rparr>) \<and> invar d' \<and>
    view d' = (view (ch_db s))(chain_block_key (ChainID (Header block)) h \<mapsto> blockKeyPrefix @ h, blockKeyPrefix @ h \<mapsto> j)"
proof -
  obtain d' where "StoreBlock lv \<lparr>sv_Hash = Some h, sv_json = Some j\<rparr> (ChainID (Header block)) (ch_db s) = (Ok (), d')" "invar d'"
    "view d' = (view (ch_db s))(chain_block_key (ChainID (Header block)) h \<mapsto> blockKeyPrefix @ h, blockKeyPrefix @ h \<mapsto> j)"
    by (rule StoreBlock_new [OF s _ _ new, of "\<lparr>sv_Hash = Some h, sv_json = Some j\<rparr>" j]) simp_all
  then show ?thesis by (intro exI [of _ d']) (simp add: bc_StoreBlock_def or_panic_def h j lv db_op_def)
qed

lemma bc_StoreBlock_existed:
  assumes "ce_lv E = lv" and "Block_Hash (ce_PS E) block = Some h" and "invar (ch_db s)"
    and "view (ch_db s) (chain_block_key (ChainID (Header block)) h) \<noteq> None"
  shows "bc_StoreBlock E block s = (Err (DbError (DatabaseError BlockExisted)), s)"
  using assms StoreBlock_again [of "ch_db s" "\<lparr>sv_Hash = Some h, sv_json = block_json E block\<rparr>" h]
  by (simp add: bc_StoreBlock_def or_panic_def db_op_def)

end


lemma Block_Hash_those: "Block_Hash PS b = Some h \<Longrightarrow> is_hash h \<and> (\<exists>hs. those (map (tx_Hash PS) (txs_of b)) = Some hs)"
  by (auto simp: Block_Hash_def)

context kv_store
begin

lemma bkeeps_StoreBlock:
  assumes lv: "ce_lv E = lv"
  shows "bkeeps view invar (\<lambda>_. False) (bc_StoreBlock E block)"
  by (auto simp: lv bc_StoreBlock_def intro!: keeps_intros)

lemma bc_StoreBlock_nojson:
  assumes "ce_lv E = lv" "Block_Hash (ce_PS E) block = Some h" "invar (ch_db s)" "block_json E block = None"
  shows "\<exists>e. fst (bc_StoreBlock E block s) = Err e"
  using assms
  by (simp add: bc_StoreBlock_def or_panic_def db_op_def StoreBlock_def store_block_at_def Let_def run_defs access_simps state_simps
      split: option.split)

lemma connect_full_new:
  assumes lv: "ce_lv E = lv" and h: "Block_Hash (ce_PS E) block = Some h" and s: "invar (ch_db s)"
    and j: "block_json E block = Some j" and new: "view (ch_db s) (chain_block_key (ChainID (Header block)) h) = None"
    and hs: "those (map (tx_Hash (ce_PS E)) (txs_of block)) = Some hs"
  shows "\<exists>d'. connect_full E block h s = (Ok block, s\<lparr>ch_db := d'\<rparr>) \<and> invar d' \<and>
    view d' (chain_block_key (ChainID (Header block)) h) = Some (blockKeyPrefix @ h) \<and> view d' (blockKeyPrefix @ h) = Some j \<and>
    (\<forall>k. \<not> block_keys k \<longrightarrow> view d' k = view (ch_db s) k) \<and>
    (distinct hs \<longrightarrow> (\<forall>i < length hs. view d' (tx_key (hs ! i)) = Some (index_value h i)))"
proof -
  let ?c = "ChainID (Header block)"
  obtain d1 where d1: "bc_StoreBlock E block s = (Ok (), s\<lparr>ch_db := d1\<rparr>)" "invar d1"
    "view d1 = (view (ch_db s))(chain_block_key ?c h \<mapsto> blockKeyPrefix @ h, blockKeyPrefix @ h \<mapsto> j)"
    using bc_StoreBlock_eq [OF lv h s j new] by blast
  obtain d2 where d2: "index_txs E h 0 (txs_of block) (s\<lparr>ch_db := d1\<rparr>) = (Ok (), s\<lparr>ch_db := d2\<rparr>)" "invar d2"
    "\<And>k. \<forall>th \<in> set hs. k \<noteq> tx_key th \<Longrightarrow> view d2 k = view d1 k"
    "distinct hs \<Longrightarrow> \<forall>i < length hs. view d2 (tx_key (hs ! i)) = Some (index_value h i)"
    using index_txs_ok [OF lv hs, of "s\<lparr>ch_db := d1\<rparr>" h 0] d1(2) by auto
  have hash: "is_hash h" "\<forall>th \<in> set hs. is_hash th" using Block_Hash_those [OF h] those_tx_hashes [OF hs] by auto
  have "\<forall>th \<in> set hs. blockKeyPrefix @ h \<noteq> tx_key th \<and> chain_block_key ?c h \<noteq> tx_key th"
    using hash tx_key_not_block [of h] by metis
  then have keys: "view d2 (chain_block_key ?c h) = Some (blockKeyPrefix @ h)" "view d2 (blockKeyPrefix @ h) = Some j"
    using d2(3) [of "chain_block_key ?c h"] d2(3) [of "blockKeyPrefix @ h"] d1(3) key_neqs(1) [OF hash(1), of ?c] by simp_all
  have frame: "view d2 k = view (ch_db s) k" if "\<not> block_keys k" for k
  proof -
    from that hash have "\<forall>th \<in> set hs. k \<noteq> tx_key th" "k \<noteq> blockKeyPrefix @ h" "k \<noteq> chain_block_key ?c h"
      by (auto simp: block_keys_def)
    then show ?thesis using d2(3) [of k] d1(3) by simp
  qed
  have "connect_full E block h s = (Ok block, s\<lparr>ch_db := d2\<rparr>)"
    by (simp add: connect_full_def bbind_def btry_def d1(1) d2(1) bret_def)
  then show ?thesis using d2(2,4) keys frame by blast
qed

lemma connect_full_refused:
  assumes lv: "ce_lv E = lv" and h: "Block_Hash (ce_PS E) block = Some h" and s: "invar (ch_db s)"
    and r: "fst (bc_StoreBlock E block s) = Err e"
  shows "fst (connect_full E block h s) = Err (unexpected_error e)"
proof -
  obtain s1 where s1: "bc_StoreBlock E block s = (Err e, s1)" using r by (metis prod.collapse)
  obtain hs where hs: "those (map (tx_Hash (ce_PS E)) (txs_of block)) = Some hs" using Block_Hash_those [OF h] by blast
  have "invar (ch_db s1)" using bkeepsD [OF bkeeps_StoreBlock [OF lv] s1 s] by simp
  then obtain d2 where "index_txs E h 0 (txs_of block) s1 = (Ok (), s1\<lparr>ch_db := d2\<rparr>)"
    using index_txs_ok [OF lv hs, of s1 h 0] by blast
  then show ?thesis by (simp add: connect_full_def bbind_def btry_def s1 bfail_def)
qed

lemma connect_full_Ok:
  assumes lv: "ce_lv E = lv" and h: "Block_Hash (ce_PS E) block = Some h" and s: "invar (ch_db s)"
    and ok: "fst (connect_full E block h s) = Ok b"
  shows "view (ch_db s) (chain_block_key (ChainID (Header block)) h) = None \<and> (\<exists>j. block_json E block = Some j)"
proof (rule ccontr)
  assume "\<not> ?thesis"
  then have "\<exists>e. fst (bc_StoreBlock E block s) = Err e"
    using bc_StoreBlock_existed [OF lv h s] bc_StoreBlock_nojson [OF lv h s] by (cases "block_json E block") auto
  then show False using connect_full_refused [OF lv h s] ok by auto
qed

end



subsection \<open>A connected block is found again\<close>

text \<open>The transactions \<open>fetchTxViewPoint\<close> accepts: the type string fits the dynamic type.\<close>

definition connectable :: "transaction \<Rightarrow> bool" where
  "connectable t \<longleftrightarrow>
     (case t of
        NormalTx _ \<Rightarrow> GetType t = TxNormalType \<or> GetType t = TxSalaryType
      | CustomTokenTx _ \<Rightarrow> GetType t = TxCustomTokenType
      | _ \<Rightarrow> False)"

lemma bbind_OkE:
  assumes "bbind m f s = (Ok b, s'')"
  obtains a s' where "m s = (Ok a, s')" "f a s' = (Ok b, s'')"
  using assms by (cases "m s"; cases "fst (m s)") (auto simp: bbind_def)

lemma bwrap_OkE:
  assumes "bwrap g m s = (Ok b, s')"
  obtains "m s = (Ok b, s')"
  using assms by (cases "m s"; cases "fst (m s)") (auto simp: bwrap_def)

lemma type_names: "TxNormalType = ''n''" "TxSalaryType = ''s''" "TxCustomTokenType = ''t''"
  by (simp_all add: TxNormalType_def TxSalaryType_def TxCustomTokenType_def)

lemma connectableE:
  assumes "connectable t"
  obtains x where "t = NormalTx x" "GetType t = TxNormalType \<or> GetType t = TxSalaryType"
    | x where "t = CustomTokenTx x" "GetType t = TxCustomTokenType"
  using assms that by (cases t) (simp_all add: connectable_def)

lemma fetch_txs_refused: "\<not> connectable t \<Longrightarrow> fst (fetch_txs E c i (t # txs) v acc s) \<noteq> Ok r"
  by (cases t) (simp_all add: connectable_def type_names bpanic_def bfail_def)

lemma fetch_txs_step:
  assumes "connectable t" and "fetch_txs E c i (t # txs) v acc s = (Ok r, s')"
  shows "\<exists>v' acc' s1. fetch_txs E c (Suc i) txs v' acc' s1 = (Ok r, s')"
  using assms(1)
proof (cases rule: connectableE)
  case (1 x)
  with assms(2) show ?thesis by (simp only: fetch_txs.simps if_True transaction.case) (erule bbind_OkE, blast)
next
  case (2 x)
  then have "\<not> (GetType t = TxNormalType \<or> GetType t = TxSalaryType)" by (simp add: type_names)
  with 2 assms(2) show ?thesis
    by (simp only: fetch_txs.simps simp_thms if_True if_False transaction.case) (erule bbind_OkE, blast)
qed

lemma fetch_txs_connectable: "fetch_txs E c i txs v acc s = (Ok r, s') \<Longrightarrow> \<forall>t \<in> set txs. connectable t"
proof (induction txs arbitrary: i v acc s)
  case (Cons t txs)
  then have "connectable t" using fetch_txs_refused [of t E c i txs v acc s r] by auto
  moreover obtain v' acc' s1 where "fetch_txs E c (Suc i) txs v' acc' s1 = (Ok r, s')"
    using fetch_txs_step [OF calculation Cons.prems] by blast
  ultimately show ?case using Cons.IH by simp
qed simp

lemma fetchTxViewPoint_connectable:
  "fetchTxViewPoint E v block s = (Ok r, s') \<Longrightarrow> \<forall>t \<in> set (txs_of block). connectable t"
  unfolding fetchTxViewPoint_def by (erule bbind_OkE) (rule fetch_txs_connectable)

lemma connect_rest_connectable: "connect_rest E block s = (Ok b, s') \<Longrightarrow> b = block \<and> (\<forall>t \<in> set (txs_of block). connectable t)"
  unfolding connect_rest_def CreateAndSaveTxViewPoint_def
  by (elim bbind_OkE bwrap_OkE) (drule fetchTxViewPoint_connectable, simp add: bret_def)

subsection \<open>Transactions through JSON\<close>

text \<open>
  \<open>UnmarshalJSON\<close> of a block decodes every transaction into a \<open>map[string]interface{}\<close>, marshals the map
  again and decodes the result into the type of the transaction. On the way a number is a \<open>float64\<close>: \<open>fu\<close> and
  \<open>fi\<close> say what becomes of a \<open>uint64\<close> and of an \<open>int\<close>. They are the identity up to \<open>2 ^ 53\<close>, and not
  above. Bytes, strings and the small numbers of a transaction come back as they are, unexported fields
  are unset, and an empty \<open>JSPubKey\<close> or \<open>JSSig\<close>, which is omitted, is nil.
\<close>

definition nonempty :: "bytes option \<Rightarrow> bytes option" where
  "nonempty x = (if x = Some [] then None else x)"

definition json_desc :: "(u64 \<Rightarrow> u64) \<Rightarrow> JoinSplitDesc \<Rightarrow> JoinSplitDesc" where
  "json_desc fu d = d\<lparr>Reward := fu (Reward d), desc_Note := map_option (map (\<lambda>n. n\<lparr>Value := fu (Value n)\<rparr>)) (desc_Note d)\<rparr>"

definition json_Tx :: "(u64 \<Rightarrow> u64) \<Rightarrow> (int \<Rightarrow> int) \<Rightarrow> Tx \<Rightarrow> Tx" where
  "json_Tx fu fi tx = tx\<lparr>LockTime := fi (LockTime tx), Fee := fu (Fee tx), Descs := map (json_desc fu) (Descs tx),
     JSPubKey := nonempty (JSPubKey tx), JSSig := nonempty (JSSig tx), txId := None\<rparr>"

definition json_vout :: "(u64 \<Rightarrow> u64) \<Rightarrow> TxTokenVout \<Rightarrow> TxTokenVout" where
  "json_vout fu v = v\<lparr>vout_Value := fu (vout_Value v), vout_index := 0, vout_txCustomTokenID := zero_hash,
     vout_BuySellResponse := map_option (\<lambda>r. r\<lparr>bs_BuyBackInfo := map_option (\<lambda>i. i\<lparr>bb_BuyBackPrice := fu (bb_BuyBackPrice i)\<rparr>)
       (bs_BuyBackInfo r)\<rparr>) (vout_BuySellResponse v)\<rparr>"

definition json_token :: "(u64 \<Rightarrow> u64) \<Rightarrow> (int \<Rightarrow> int) \<Rightarrow> TxCustomToken \<Rightarrow> TxCustomToken" where
  "json_token fu fi tx = tx\<lparr>ct_Tx := json_Tx fu fi (ct_Tx tx), ct_TxTokenData := (ct_TxTokenData tx)\<lparr>
       td_Type := fi (td_Type (ct_TxTokenData tx)), td_Amount := fu (td_Amount (ct_TxTokenData tx)),
       Vins := map (\<lambda>v. v\<lparr>VoutIndex := fi (VoutIndex v)\<rparr>) (Vins (ct_TxTokenData tx)),
       Vouts := map_option (map (json_vout fu)) (Vouts (ct_TxTokenData tx))\<rparr>, listUtxo := []\<rparr>"

definition via_json :: "(u64 \<Rightarrow> u64) \<Rightarrow> (int \<Rightarrow> int) \<Rightarrow> transaction \<Rightarrow> transaction" where
  "via_json fu fi t =
     (case t of NormalTx x \<Rightarrow> NormalTx (json_Tx fu fi x) | CustomTokenTx x \<Rightarrow> CustomTokenTx (json_token fu fi x) | _ \<Rightarrow> t)"

text \<open>The transactions that come back unchanged.\<close>

definition small_Tx :: "Tx \<Rightarrow> bool" where
  "small_Tx tx \<longleftrightarrow> \<bar>LockTime tx\<bar> \<le> 2 ^ 53 \<and> Fee tx \<le> 2 ^ 53 \<and> JSPubKey tx \<noteq> Some [] \<and> JSSig tx \<noteq> Some [] \<and> txId tx = None \<and>
     (\<forall>d \<in> set (Descs tx). Reward d \<le> 2 ^ 53 \<and> (\<forall>n \<in> set (elems (desc_Note d)). Value n \<le> 2 ^ 53))"

definition small_vout :: "TxTokenVout \<Rightarrow> bool" where
  "small_vout v \<longleftrightarrow> vout_Value v \<le> 2 ^ 53 \<and> vout_index v = 0 \<and> vout_txCustomTokenID v = zero_hash \<and>
     (case vout_BuySellResponse v of
        None \<Rightarrow> True
      | Some resp \<Rightarrow> (case bs_BuyBackInfo resp of None \<Rightarrow> True | Some i \<Rightarrow> bb_BuyBackPrice i \<le> 2 ^ 53))"

definition small_token :: "TxCustomToken \<Rightarrow> bool" where
  "small_token tx \<longleftrightarrow> small_Tx (ct_Tx tx) \<and> listUtxo tx = [] \<and> \<bar>td_Type (ct_TxTokenData tx)\<bar> \<le> 2 ^ 53 \<and>
     td_Amount (ct_TxTokenData tx) \<le> 2 ^ 53 \<and> (\<forall>v \<in> set (Vins (ct_TxTokenData tx)). \<bar>VoutIndex v\<bar> \<le> 2 ^ 53) \<and>
     (\<forall>v \<in> set (elems (Vouts (ct_TxTokenData tx))). small_vout v)"

definition small_tx :: "transaction \<Rightarrow> bool" where
  "small_tx t = (case t of NormalTx x \<Rightarrow> small_Tx x | CustomTokenTx x \<Rightarrow> small_token x | _ \<Rightarrow> True)"

lemma json_desc_small:
  assumes "\<And>x. x \<le> 2 ^ 53 \<Longrightarrow> fu x = x" and "Reward d \<le> 2 ^ 53 \<and> (\<forall>n \<in> set (elems (desc_Note d)). Value n \<le> 2 ^ 53)"
  shows "json_desc fu d = d"
proof -
  have "map_option (map (\<lambda>n. n\<lparr>Value := fu (Value n)\<rparr>)) (desc_Note d) = desc_Note d"
    using assms by (cases "desc_Note d") (auto intro!: map_idI)
  then show ?thesis using assms by (simp add: json_desc_def)
qed

lemma json_Tx_small:
  assumes "\<And>x. x \<le> 2 ^ 53 \<Longrightarrow> fu x = x" and "\<And>x. \<bar>x\<bar> \<le> 2 ^ 53 \<Longrightarrow> fi x = x" and "small_Tx tx"
  shows "json_Tx fu fi tx = tx"
proof -
  have "map (json_desc fu) (Descs tx) = Descs tx"
    using assms(3) by (auto simp: small_Tx_def intro!: map_idI json_desc_small assms(1))
  then show ?thesis using assms by (simp add: json_Tx_def small_Tx_def nonempty_def)
qed

lemma json_vout_small:
  assumes "\<And>x. x \<le> 2 ^ 53 \<Longrightarrow> fu x = x" and "small_vout v"
  shows "json_vout fu v = v"
proof -
  have "map_option (\<lambda>r. r\<lparr>bs_BuyBackInfo := map_option (\<lambda>i. i\<lparr>bb_BuyBackPrice := fu (bb_BuyBackPrice i)\<rparr>)
       (bs_BuyBackInfo r)\<rparr>) (vout_BuySellResponse v) = vout_BuySellResponse v"
  proof (cases "vout_BuySellResponse v")
    case (Some resp)
    then show ?thesis using assms by (cases "bs_BuyBackInfo resp") (simp_all add: small_vout_def)
  qed simp
  then show ?thesis using assms by (simp add: json_vout_def small_vout_def)
qed

lemma via_json_small:
  assumes "\<And>x. x \<le> 2 ^ 53 \<Longrightarrow> fu x = x" and "\<And>x. \<bar>x\<bar> \<le> 2 ^ 53 \<Longrightarrow> fi x = x" and "small_tx t"
  shows "via_json fu fi t = t"
proof (cases t)
  case (NormalTx x)
  then show ?thesis using json_Tx_small [OF assms(1,2)] assms(3) by (simp add: via_json_def small_tx_def)
next
  case (CustomTokenTx x)
  then have x: "small_token x" using assms(3) by (simp add: small_tx_def)
  have "map_option (map (json_vout fu)) (Vouts (ct_TxTokenData x)) = Vouts (ct_TxTokenData x)"
    using x json_vout_small [OF assms(1)] by (cases "Vouts (ct_TxTokenData x)") (auto simp: small_token_def intro!: map_idI)
  moreover have "map (\<lambda>v. v\<lparr>VoutIndex := fi (VoutIndex v)\<rparr>) (Vins (ct_TxTokenData x)) = Vins (ct_TxTokenData x)"
    using x assms(2) by (auto simp: small_token_def intro!: map_idI)
  ultimately show ?thesis using x json_Tx_small [OF assms(1,2)] assms(1,2)
    by (simp add: CustomTokenTx via_json_def json_token_def small_token_def)
qed (simp_all add: via_json_def)

lemma GetType_via_json [simp]: "GetType (via_json fu fi t) = GetType t"
  by (cases t) (simp_all add: via_json_def json_Tx_def json_token_def Tx_GetType_def)

lemma connectable_via_json [simp]: "connectable (via_json fu fi t) = connectable t"
  using GetType_via_json [of fu fi t] by (cases t) (simp_all add: connectable_def via_json_def)

text \<open>What a decoder of blocks has to give for a transaction, in the Go type that its type string selects.\<close>

definition json_of :: "json_tx \<Rightarrow> transaction \<Rightarrow> bool" where
  "json_of j t \<longleftrightarrow> jx_Type j = Some (GetType t) \<and>
     (case t of NormalTx x \<Rightarrow> jx_Tx j = x | CustomTokenTx x \<Rightarrow> jx_CustomToken j = x | _ \<Rightarrow> True)"

lemma tx_of_json_ok:
  assumes "connectable t" and j: "json_of j t"
  shows "tx_of_json j = Ok t"
  using assms(1)
proof (cases rule: connectableE)
  case (1 x)
  then have "jx_Type j = Some TxNormalType \<or> jx_Type j = Some TxSalaryType" "jx_Tx j = x" using j by (simp_all add: json_of_def)
  then show ?thesis unfolding 1(1) tx_of_json_def by (elim disjE) simp_all
next
  case (2 x)
  then have "jx_Type j = Some TxCustomTokenType" "jx_CustomToken j = x" using j by (simp_all add: json_of_def)
  then show ?thesis unfolding 2(1) tx_of_json_def by (simp add: type_names)
qed

lemma txs_of_json_ok: "list_all2 json_of js ts \<Longrightarrow> \<forall>t \<in> set ts. connectable t \<Longrightarrow> txs_of_json js = Ok ts"
proof (induction rule: list_all2_induct)
  case (Cons j js t ts)
  then show ?case using tx_of_json_ok [of t j] by simp
qed simp

context kv_store
begin

lemma GetBlock_eq:
  assumes "ce_lv E = lv" "\<not> ce_Light E" "invar (ch_db s)" "view (ch_db s) (blockKeyPrefix @ h) = Some j"
    "Block_UnmarshalJSON (parse_block E) j = Ok b"
  shows "GetBlockByBlockHash E h s = (Ok b, s)"
  using assms by (simp add: GetBlockByBlockHash_def bbind_def db_op_def FetchBlock_eq decode_block_def of_res_def)

lemma GetTx_eq:
  assumes lv: "ce_lv E = lv" and s: "invar (ch_db s)" and h: "is_hash h" and i: "i < length (txs_of b)" "length (txs_of b) < 2 ^ 63"
    and v: "view (ch_db s) (tx_key th) = Some (index_value h i)" and b: "GetBlockByBlockHash E h s = (Ok b, s)"
  shows "GetTransactionByHash E th s = (Ok (ChainID (Header b), h, int i, txs_of b ! i), s)"
proof -
  have "GetTransactionIndexById lv th (ch_db s) = (Ok (h, int i), ch_db s)"
    using i by (intro tx_index_lookup s h v) simp
  then show ?thesis using i b by (simp add: GetTransactionByHash_def lv bbind_def btry_def db_op_def bret_def)
qed

lemma connect_found:
  assumes lv: "ce_lv E = lv" and full: "\<not> ce_Light E" and s: "invar (ch_db s)" and h: "Block_Hash (ce_PS E) block = Some h"
    and run: "ConnectBlock E block s = (Ok b, s')"
    and json: "\<And>j. block_json E block = Some j \<Longrightarrow> \<exists>js. parse_block E j = Some (block, js) \<and> list_all2 json_of js (map (via_json fu fi) (txs_of block))"
    and hs: "those (map (tx_Hash (ce_PS E)) (txs_of block)) = Some hs" "distinct hs" "length (txs_of block) < 2 ^ 63"
  shows "\<exists>b'. GetBlockByBlockHash E h s' = (Ok b', s') \<and> Header b' = Header block \<and> txs_of b' = map (via_json fu fi) (txs_of block) \<and>
    BlockProducer b' = BlockProducer block \<and> BlockProducerSig b' = BlockProducerSig block \<and>
    (\<forall>i < length hs. GetTransactionByHash E (hs ! i) s' =
       (Ok (ChainID (Header block), h, int i, via_json fu fi (txs_of block ! i)), s'))"
proof -
  obtain s1 b1 where s1: "connect_full E block h s = (Ok b1, s1)" "connect_rest E b1 s1 = (Ok b, s')"
    using run unfolding ConnectBlock_full [OF full h] by (rule bbind_OkE)
  then obtain j where j: "block_json E block = Some j" and new: "view (ch_db s) (chain_block_key (ChainID (Header block)) h) = None"
    using connect_full_Ok [OF lv h s] by auto
  from connect_full_new [OF lv h s j new hs(1)] s1(1) hs(2) have b1: "b1 = block" and
    v: "invar (ch_db s1)" "view (ch_db s1) (blockKeyPrefix @ h) = Some j"
       "\<And>i. i < length hs \<Longrightarrow> view (ch_db s1) (tx_key (hs ! i)) = Some (index_value h i)" by auto
  note keep = bkeepsD [OF bkeeps_rest [OF lv] s1(2) v(1)]
  have hash: "is_hash h" "\<And>i. i < length hs \<Longrightarrow> is_hash (hs ! i)" "length hs = length (txs_of block)"
    using Block_Hash_those [OF h] those_tx_hashes [OF hs(1)] by auto
  have s': "invar (ch_db s')" "view (ch_db s') (blockKeyPrefix @ h) = Some j"
    "\<And>i. i < length hs \<Longrightarrow> view (ch_db s') (tx_key (hs ! i)) = Some (index_value h i)"
    using keep v(2,3) block_keysI(1) [OF hash(1)] block_keysI(2) [OF hash(2)] by simp_all
  let ?ts = "map (via_json fu fi) (txs_of block)"
  define b' where "b' = block\<lparr>Transactions := (if ?ts = [] then None else Some ?ts)\<rparr>"
  have same: "txs_of b' = ?ts" "Header b' = Header block" by (simp_all add: b'_def)
  obtain js where js: "parse_block E j = Some (block, js)" "list_all2 json_of js ?ts" using json [OF j] by blast
  then have "Block_UnmarshalJSON (parse_block E) j = Ok b'"
    using txs_of_json_ok [OF js(2)] connect_rest_connectable [OF s1(2)] b1 by (simp add: Block_UnmarshalJSON_def b'_def)
  note block = GetBlock_eq [OF lv full s'(1,2) this]
  have "GetTransactionByHash E (hs ! i) s' = (Ok (ChainID (Header block), h, int i, via_json fu fi (txs_of block ! i)), s')"
    if "i < length hs" for i
    using GetTx_eq [OF lv s'(1) hash(1), of i b'] that s'(3) block hash(3) hs(3) same by simp
  then show ?thesis using block same by (intro exI [of _ b']) (simp add: b'_def)
qed

end



subsection \<open>The lists of nullifiers and commitments\<close>

definition block_nullifiers :: "Block \<Rightarrow> bytes list" where
  "block_nullifiers b = concat (map (\<lambda>t. concat (map Nullifiers (Descs (base_Tx t)))) (txs_of b))"

definition block_commitments :: "Block \<Rightarrow> bytes list" where
  "block_commitments b = concat (map (\<lambda>t. concat (map Commitments (Descs (base_Tx t)))) (txs_of b))"

lemma slices_cong:
  assumes "\<And>c. m (list_key p c) = m' (list_key p c)"
  shows "slices_ok m p \<longleftrightarrow> slices_ok m' p" "slices_at m p = slices_at m' p"
  using assms by (simp_all add: slices_ok_def slices_at_def fun_eq_iff)

lemma lists_cong:
  assumes "\<And>k. list_keys k \<Longrightarrow> m k = m' k" and "p \<in> {nullifiersPrefix, commitmentsPrefix}"
  shows "slices_ok m p \<longleftrightarrow> slices_ok m' p" "slices_at m p = slices_at m' p"
  using assms by (auto simp: list_keys_def intro!: slices_cong)

lemma list_prefixes_differ: "list_key nullifiersPrefix c \<noteq> list_key commitmentsPrefix c'"
  by (intro length_neq) (simp add: list_key_def getKey_def prefix_defs)

context kv_store
begin

definition lists_good :: "'d \<Rightarrow> bool" where
  "lists_good d \<longleftrightarrow> slices_good nullifiersPrefix d \<and> slices_good commitmentsPrefix d"

abbreviation fresh :: "bytes \<Rightarrow> 'd \<Rightarrow> byte \<Rightarrow> bytes list \<Rightarrow> bytes list" where
  "fresh p d c xs \<equiv> filter (\<lambda>x. x \<notin> set (slices_at (view d) p c)) xs"

lemma new_items_eq: "(\<And>x. h x d = (Ok (x \<in> A), d)) \<Longrightarrow> new_items h xs d = (Ok (filter (\<lambda>x. x \<notin> A) xs), d)"
  by (induction xs) (auto simp: dret_def dbind_def)

lemma processFetch_eq:
  assumes "lists_good d"
  shows "processFetchTxViewPoint lv c desc d =
    (Ok (fresh nullifiersPrefix d c (Nullifiers desc), fresh commitmentsPrefix d c (Commitments desc)), d)"
proof -
  have g: "slices_good nullifiersPrefix d" "slices_good commitmentsPrefix d" using assms by (simp_all add: lists_good_def)
  have "new_items (\<lambda>x. HasNullifier lv x c) xs d = (Ok (fresh nullifiersPrefix d c xs), d)" for xs
    by (rule new_items_eq) (rule nf.has_contents [OF g(1)])
  moreover have "new_items (\<lambda>x. HasCommitment lv x c) xs d = (Ok (fresh commitmentsPrefix d c xs), d)" for xs
    by (rule new_items_eq) (rule cm.has_contents [OF g(2)])
  ultimately show ?thesis by (simp add: processFetchTxViewPoint_def dbind_def dret_def)
qed

lemma fetch_descs_eq:
  assumes lv: "ce_lv E = lv" and g: "lists_good (ch_db s)"
  shows "fetch_descs E c descs acc s =
    (Ok (fst acc @ fresh nullifiersPrefix (ch_db s) c (concat (map Nullifiers descs)),
         snd acc @ fresh commitmentsPrefix (ch_db s) c (concat (map Commitments descs))), s)"
proof (induction descs arbitrary: acc)
  case (Cons desc descs)
  have "bwrap unexpected_error (db_op (processFetchTxViewPoint lv c desc)) s =
      (Ok (fresh nullifiersPrefix (ch_db s) c (Nullifiers desc), fresh commitmentsPrefix (ch_db s) c (Commitments desc)), s)"
    by (simp add: bwrap_def db_op_def processFetch_eq [OF g])
  then show ?case using Cons.IH by (simp add: bbind_def lv)
qed (simp add: bret_def)

lemma fetch_txs_eq:
  assumes lv: "ce_lv E = lv" and g: "lists_good (ch_db s)"
  shows "\<forall>t \<in> set txs. connectable t \<Longrightarrow> \<exists>toks. fetch_txs E c i txs v acc s =
    (Ok (v\<lparr>customTokenTxs := toks\<rparr>,
         fst acc @ fresh nullifiersPrefix (ch_db s) c (concat (map (\<lambda>t. concat (map Nullifiers (Descs (base_Tx t)))) txs)),
         snd acc @ fresh commitmentsPrefix (ch_db s) c (concat (map (\<lambda>t. concat (map Commitments (Descs (base_Tx t)))) txs))), s) \<and>
    ((\<forall>t \<in> set txs. \<exists>x. t = NormalTx x) \<longrightarrow> toks = customTokenTxs v)"
proof (induction txs arbitrary: i v acc)
  case Nil
  then show ?case by (auto simp: bret_def intro!: exI [of _ "customTokenTxs v"])
next
  case (Cons t txs)
  then have "connectable t" by simp
  then show ?case
  proof (cases rule: connectableE)
    case (1 x)
    let ?acc = "(fst acc @ fresh nullifiersPrefix (ch_db s) c (concat (map Nullifiers (Descs x))),
                 snd acc @ fresh commitmentsPrefix (ch_db s) c (concat (map Commitments (Descs x))))"
    have "fetch_txs E c i (t # txs) v acc s = fetch_txs E c (Suc i) txs v ?acc s"
      using 1 fetch_descs_eq [OF lv g, of c "Descs x" acc] by (simp add: bbind_def del: fetch_descs.simps)
    then show ?thesis using Cons.IH [of "Suc i" v ?acc] Cons.prems 1 by simp
  next
    case (2 x)
    let ?acc = "(fst acc @ fresh nullifiersPrefix (ch_db s) c (concat (map Nullifiers (Descs (ct_Tx x)))),
                 snd acc @ fresh commitmentsPrefix (ch_db s) c (concat (map Commitments (Descs (ct_Tx x)))))"
    let ?v = "v\<lparr>customTokenTxs := map_put (wrap32 (int i)) x (customTokenTxs v)\<rparr>"
    have "\<not> (GetType t = TxNormalType \<or> GetType t = TxSalaryType)" using 2 by (simp add: type_names)
    then have "fetch_txs E c i (t # txs) v acc s = fetch_txs E c (Suc i) txs ?v ?acc s"
      using 2 fetch_descs_eq [OF lv g, of c "Descs (ct_Tx x)" acc] by (simp add: bbind_def del: fetch_descs.simps)
    then show ?thesis using Cons.IH [of "Suc i" ?v ?acc] Cons.prems 2 by auto
  qed
qed

end


lemma bforall_store:
  assumes "\<And>x d. good d \<Longrightarrow> store x d = (Ok (), nxt x d) \<and> good (nxt x d)"
  shows "good (ch_db s) \<Longrightarrow> bforall (\<lambda>x. db_op (store x)) xs s = (Ok (), s\<lparr>ch_db := fold nxt xs (ch_db s)\<rparr>)"
proof (induction xs arbitrary: s)
  case (Cons x xs)
  then show ?case using assms [OF Cons.prems, of x] Cons.IH [of "s\<lparr>ch_db := nxt x (ch_db s)\<rparr>"]
    by (simp add: bbind_def db_op_def)
qed (simp add: bret_def)

lemma pair_fst_Ok: "fst p = Ok () \<Longrightarrow> p = (Ok (), snd p)"
  by (cases p) simp

context slice_store
begin

lemma store_eq: "good d \<Longrightarrow> store x c d = (Ok (), snd (store x c d)) \<and> good (snd (store x c d))"
  using store_ok [of d x c] store_good [of d x c] by (simp add: pair_fst_Ok)

lemma store_all_fold: "store_all xs c = fold (\<lambda>x d. snd (store x c d)) xs"
  by (induction xs) (simp_all add: fun_eq_iff)

lemma bforall_store_all:
  "good (ch_db s) \<Longrightarrow> bforall (\<lambda>x. db_op (store x c)) xs s = (Ok (), s\<lparr>ch_db := store_all xs c (ch_db s)\<rparr>)"
  unfolding store_all_fold by (rule bforall_store [where good = good]) (rule store_eq)

end

context kv_store
begin

lemma fetchTxViewPoint_eq:
  assumes lv: "ce_lv E = lv" and g: "lists_good (ch_db s)" and txs: "\<forall>t \<in> set (txs_of block). connectable t"
    and c: "c = ChainID (Header block)"
    and ns: "ns = fresh nullifiersPrefix (ch_db s) c (block_nullifiers block)"
    and cs: "cs = fresh commitmentsPrefix (ch_db s) c (block_commitments block)"
  shows "\<exists>toks. fetchTxViewPoint E (NewTxViewPoint c) block s =
    (Ok ((NewTxViewPoint c)\<lparr>listNullifiers := ns, listCommitments := (if ns = [] then [] else cs), customTokenTxs := toks\<rparr>), s) \<and>
    ((\<forall>t \<in> set (txs_of block). \<exists>x. t = NormalTx x) \<longrightarrow> toks = [])"
proof -
  obtain toks where "fetch_txs E c 0 (txs_of block) (NewTxViewPoint c) ([], []) s =
      (Ok ((NewTxViewPoint c)\<lparr>customTokenTxs := toks\<rparr>, ns, cs), s)"
    "(\<forall>t \<in> set (txs_of block). \<exists>x. t = NormalTx x) \<longrightarrow> toks = []"
    using fetch_txs_eq [OF lv g txs, of c 0 "NewTxViewPoint c" "([], [])"]
    by (auto simp: ns cs block_nullifiers_def block_commitments_def NewTxViewPoint_def)
  then show ?thesis
    by (intro exI [of _ toks]) (simp add: fetchTxViewPoint_def bbind_def bret_def NewTxViewPoint_def flip: c)
qed

text \<open>Storing both lists of a view.\<close>

lemma store_view_lists:
  assumes lv: "ce_lv E = lv" and g: "lists_good (ch_db s)" and c: "c = tv_chainID v"
  shows "\<exists>d'. bbind (StoreNullifiersFromTxViewPoint E v) (\<lambda>_. StoreCommitmentsFromTxViewPoint E v) s = (Ok (), s\<lparr>ch_db := d'\<rparr>) \<and>
    lists_good d' \<and>
    slices_at (view d') nullifiersPrefix
      = (slices_at (view (ch_db s)) nullifiersPrefix)(c := slices_at (view (ch_db s)) nullifiersPrefix c @ listNullifiers v) \<and>
    slices_at (view d') commitmentsPrefix
      = (slices_at (view (ch_db s)) commitmentsPrefix)(c := slices_at (view (ch_db s)) commitmentsPrefix c @ listCommitments v)"
proof -
  have gn: "slices_good nullifiersPrefix (ch_db s)" and gc: "slices_good commitmentsPrefix (ch_db s)"
    using g by (simp_all add: lists_good_def)
  define d1 where "d1 = nf.store_all (listNullifiers v) c (ch_db s)"
  define d2 where "d2 = cm.store_all (listCommitments v) c d1"
  have run1: "StoreNullifiersFromTxViewPoint E v s = (Ok (), s\<lparr>ch_db := d1\<rparr>)"
    using nf.bforall_store_all [OF gn] by (simp add: StoreNullifiersFromTxViewPoint_def lv d1_def c)
  have "bkeeps view invar (\<lambda>k. \<exists>c. k = list_key commitmentsPrefix c) (StoreNullifiersFromTxViewPoint E v)"
    by (auto simp: StoreNullifiersFromTxViewPoint_def lv list_prefixes_differ intro!: keeps_intros)
  note k1 = bkeepsD [OF this run1]
  have n1: "slices_good nullifiersPrefix d1" "slices_at (view d1) nullifiersPrefix
      = (slices_at (view (ch_db s)) nullifiersPrefix)(c := slices_at (view (ch_db s)) nullifiersPrefix c @ listNullifiers v)"
    using nf.store_all_contents [OF gn] by (simp_all add: d1_def)
  have c1: "slices_good commitmentsPrefix d1" "slices_at (view d1) commitmentsPrefix = slices_at (view (ch_db s)) commitmentsPrefix"
    using gc k1 slices_cong [of "view d1" commitmentsPrefix "view (ch_db s)"] by auto
  have run2: "StoreCommitmentsFromTxViewPoint E v (s\<lparr>ch_db := d1\<rparr>) = (Ok (), s\<lparr>ch_db := d2\<rparr>)"
    using cm.bforall_store_all [of "s\<lparr>ch_db := d1\<rparr>"] c1(1) by (simp add: StoreCommitmentsFromTxViewPoint_def lv d2_def c)
  have "bkeeps view invar (\<lambda>k. \<exists>c. k = list_key nullifiersPrefix c) (StoreCommitmentsFromTxViewPoint E v)"
    by (auto simp: StoreCommitmentsFromTxViewPoint_def lv list_prefixes_differ [symmetric] intro!: keeps_intros)
  note k2 = bkeepsD [OF this run2]
  have c2: "slices_good commitmentsPrefix d2" "slices_at (view d2) commitmentsPrefix
      = (slices_at (view d1) commitmentsPrefix)(c := slices_at (view d1) commitmentsPrefix c @ listCommitments v)"
    using cm.store_all_contents [OF c1(1)] by (simp_all add: d2_def)
  have n2: "slices_good nullifiersPrefix d2" "slices_at (view d2) nullifiersPrefix = slices_at (view d1) nullifiersPrefix"
    using n1(1) k2 slices_cong [of "view d2" nullifiersPrefix "view d1"] by auto
  have "bbind (StoreNullifiersFromTxViewPoint E v) (\<lambda>_. StoreCommitmentsFromTxViewPoint E v) s = (Ok (), s\<lparr>ch_db := d2\<rparr>)"
    by (simp add: bbind_def run1 run2)
  then show ?thesis using n1 n2 c1 c2 by (intro exI [of _ d2]) (simp add: lists_good_def)
qed

end


lemma bforall_bret: "(\<And>x. x \<in> set xs \<Longrightarrow> f x = bret ()) \<Longrightarrow> bforall f xs = bret ()"
  by (induction xs) simp_all

text \<open>Loans, dividends and crowdsales leave connectable transactions alone.\<close>

lemma connectable_later:
  assumes "\<forall>t \<in> set (txs_of block). connectable t"
  shows "SaveLoanTxsForBlock E block = bret ()" "UpdateDividendPayout block = bret ()" "ProcessCrowdsaleTxs block = bret ()"
proof -
  have later: "GetType t \<notin> {TxLoanRequestType, TxLoanResponseType, TxDividendPayoutType, TxCrowdsaleType}" if "connectable t" for t
    using that by (cases rule: connectableE)
      (auto simp: type_names TxLoanRequestType_def TxLoanResponseType_def TxDividendPayoutType_def TxCrowdsaleType_def)
  show "SaveLoanTxsForBlock E block = bret ()" "UpdateDividendPayout block = bret ()" "ProcessCrowdsaleTxs block = bret ()"
    unfolding SaveLoanTxsForBlock_def UpdateDividendPayout_def ProcessCrowdsaleTxs_def
    using assms later
    by (intro bforall_bret; simp add: save_loan_tx_def update_dividend_tx_def crowdsale_tx_def)+
qed

lemma bwrap_bret [simp]: "bwrap g (bret a) = bret a"
  by (simp add: bwrap_def bret_def)

lemma connect_rest_connectable_eq:
  "\<forall>t \<in> set (txs_of block). connectable t \<Longrightarrow> connect_rest E block =
     bbind (bwrap unexpected_error (bc_StoreBlockIndex E block)) (\<lambda>_.
     bbind (bwrap unexpected_error (CreateAndSaveTxViewPoint E block)) (\<lambda>_. bret block))"
  by (simp add: connect_rest_def connectable_later)

context kv_store
begin

lemma lists_kept:
  assumes "bkeeps view invar list_keys m" and "m s = (r, s')" and "lists_good (ch_db s)"
  shows "lists_good (ch_db s')" "slices_at (view (ch_db s')) nullifiersPrefix = slices_at (view (ch_db s)) nullifiersPrefix"
    "slices_at (view (ch_db s')) commitmentsPrefix = slices_at (view (ch_db s)) commitmentsPrefix"
proof -
  have "invar (ch_db s)" using assms(3) by (simp add: lists_good_def)
  then have "invar (ch_db s')" "\<And>k. list_keys k \<Longrightarrow> view (ch_db s') k = view (ch_db s) k"
    using bkeepsD [OF assms(1,2)] by auto
  then show "lists_good (ch_db s')" "slices_at (view (ch_db s')) nullifiersPrefix = slices_at (view (ch_db s)) nullifiersPrefix"
    "slices_at (view (ch_db s')) commitmentsPrefix = slices_at (view (ch_db s)) commitmentsPrefix"
    using assms(3) lists_cong [of "view (ch_db s')" "view (ch_db s)"] by (auto simp: lists_good_def)
qed

lemma tokens_keep_lists: "ce_lv E = lv \<Longrightarrow> bkeeps view invar list_keys (bforall (save_token_tx E block) toks)"
  by (intro bkeeps_bforall bkeeps_save_token_tx) (auto dest: token_disjoint)

lemma index_run:
  assumes lv: "ce_lv E = lv" and h: "Block_Hash (ce_PS E) block = Some h" and g: "lists_good (ch_db s)"
  shows "\<exists>d'. bwrap g' (bc_StoreBlockIndex E block) s = (Ok (), s\<lparr>ch_db := d'\<rparr>)"
  using g by (auto simp: lists_good_def bwrap_def bc_StoreBlockIndex_def h or_panic_def lv db_op_def StoreBlockIndex_def
      Let_def run_defs access_simps state_simps)

text \<open>What the view of a block adds to the two lists of its chain, when its token transactions are stored.\<close>

definition lists_extended :: "'d \<Rightarrow> Block \<Rightarrow> 'd \<Rightarrow> bool" where
  "lists_extended d block d' \<longleftrightarrow>
    (let c = ChainID (Header block);
         ns = fresh nullifiersPrefix d c (block_nullifiers block); cs = fresh commitmentsPrefix d c (block_commitments block) in
     lists_good d' \<and>
     slices_at (view d') nullifiersPrefix = (slices_at (view d) nullifiersPrefix)(c := slices_at (view d) nullifiersPrefix c @ ns) \<and>
     slices_at (view d') commitmentsPrefix = (slices_at (view d) commitmentsPrefix)
       (c := slices_at (view d) commitmentsPrefix c @ (if ns = [] then [] else cs)))"

lemma view_run:
  assumes lv: "ce_lv E = lv" and g: "lists_good (ch_db s)" and txs: "\<forall>t \<in> set (txs_of block). connectable t"
  shows "\<exists>toks. ((\<forall>t \<in> set (txs_of block). \<exists>x. t = NormalTx x) \<longrightarrow> toks = []) \<and>
    (case bforall (save_token_tx E block) (token_order E toks) s of
       (Ok _, s1) \<Rightarrow> (\<exists>s'. CreateAndSaveTxViewPoint E block s = (Ok (), s') \<and> lists_extended (ch_db s) block (ch_db s'))
     | (Err e, s1) \<Rightarrow> CreateAndSaveTxViewPoint E block s = (Err e, s1)
     | (Panic, s1) \<Rightarrow> CreateAndSaveTxViewPoint E block s = (Panic, s1))"
proof -
  define c ns cs where "c = ChainID (Header block)" and "ns = fresh nullifiersPrefix (ch_db s) c (block_nullifiers block)"
    and "cs = fresh commitmentsPrefix (ch_db s) c (block_commitments block)"
  obtain toks where toks: "fetchTxViewPoint E (NewTxViewPoint c) block s =
    (Ok ((NewTxViewPoint c)\<lparr>listNullifiers := ns, listCommitments := (if ns = [] then [] else cs), customTokenTxs := toks\<rparr>), s)"
    "(\<forall>t \<in> set (txs_of block). \<exists>x. t = NormalTx x) \<longrightarrow> toks = []"
    using fetchTxViewPoint_eq [OF lv g txs c_def ns_def cs_def] by blast
  define v where "v = (NewTxViewPoint c)\<lparr>listNullifiers := ns, listCommitments := (if ns = [] then [] else cs), customTokenTxs := toks\<rparr>"
  have v: "tv_chainID v = c" "listNullifiers v = ns" "listCommitments v = (if ns = [] then [] else cs)" "customTokenTxs v = toks"
    by (simp_all add: v_def NewTxViewPoint_def)
  let ?store = "bbind (StoreNullifiersFromTxViewPoint E v) (\<lambda>_. StoreCommitmentsFromTxViewPoint E v)"
  have run: "CreateAndSaveTxViewPoint E block s = bbind (bforall (save_token_tx E block) (token_order E toks)) (\<lambda>_. ?store) s"
    using toks(1) v(4) by (simp add: CreateAndSaveTxViewPoint_def bbind_def flip: c_def v_def)
  obtain r s1 where r: "bforall (save_token_tx E block) (token_order E toks) s = (r, s1)" by (metis prod.exhaust)
  note kept = lists_kept [OF tokens_keep_lists [OF lv] r g]
  have "\<exists>s'. ?store s1 = (Ok (), s') \<and> lists_extended (ch_db s) block (ch_db s')"
    using store_view_lists [OF lv kept(1) v(1) [symmetric]] kept(2,3) v(2,3)
    by (auto simp: lists_extended_def Let_def simp flip: c_def ns_def cs_def)
  then show ?thesis
    using toks(2) r by (intro exI [of _ toks] conjI) (auto simp: run bbind_def split: res.split)
qed

end



subsection \<open>Results of connecting a block\<close>

context kv_store
begin

lemma connect_full_lists:
  assumes lv: "ce_lv E = lv" and h: "Block_Hash (ce_PS E) block = Some h" and g: "lists_good (ch_db s)"
    and run: "connect_full E block h s = (Ok b, s1)"
  shows "b = block" "lists_good (ch_db s1)"
    "slices_at (view (ch_db s1)) nullifiersPrefix = slices_at (view (ch_db s)) nullifiersPrefix"
    "slices_at (view (ch_db s1)) commitmentsPrefix = slices_at (view (ch_db s)) commitmentsPrefix"
proof -
  have s: "invar (ch_db s)" using g by (simp add: lists_good_def)
  obtain hs where hs: "those (map (tx_Hash (ce_PS E)) (txs_of block)) = Some hs" using Block_Hash_those [OF h] by blast
  obtain j where j: "block_json E block = Some j" "view (ch_db s) (chain_block_key (ChainID (Header block)) h) = None"
    using connect_full_Ok [OF lv h s] run by auto
  have d: "b = block" "invar (ch_db s1)" "\<And>k. \<not> block_keys k \<Longrightarrow> view (ch_db s1) k = view (ch_db s) k"
    using connect_full_new [OF lv h s j hs] run by auto
  have "list_keys k \<Longrightarrow> view (ch_db s1) k = view (ch_db s) k" for k using d(3) block_list_disjoint by blast
  note same = lists_cong [OF this]
  then show "b = block" "lists_good (ch_db s1)"
    "slices_at (view (ch_db s1)) nullifiersPrefix = slices_at (view (ch_db s)) nullifiersPrefix"
    "slices_at (view (ch_db s1)) commitmentsPrefix = slices_at (view (ch_db s)) commitmentsPrefix"
    using g d(1,2) by (simp_all add: lists_good_def)
qed

lemma rest_run:
  assumes lv: "ce_lv E = lv" and h: "Block_Hash (ce_PS E) block = Some h" and g: "lists_good (ch_db s)"
    and txs: "\<forall>t \<in> set (txs_of block). connectable t"
  shows "\<exists>s2. lists_good (ch_db s2) \<and> (lists_extended (ch_db s2) block = lists_extended (ch_db s) block) \<and>
    connect_rest E block s = bbind (bwrap unexpected_error (CreateAndSaveTxViewPoint E block)) (\<lambda>_. bret block) s2"
proof -
  obtain d2 where d2: "bwrap unexpected_error (bc_StoreBlockIndex E block) s = (Ok (), s\<lparr>ch_db := d2\<rparr>)"
    using index_run [OF lv h g] by blast
  have "bkeeps view invar list_keys (bwrap unexpected_error (bc_StoreBlockIndex E block))"
    by (intro keeps_intros bkeeps_index lv index_disjoint)
  note kept = lists_kept [OF this d2 g]
  have "lists_extended (ch_db (s\<lparr>ch_db := d2\<rparr>)) block = lists_extended (ch_db s) block"
    unfolding lists_extended_def kept(2,3) by (rule refl)
  with kept(1) d2 show ?thesis
    by (intro exI [of _ "s\<lparr>ch_db := d2\<rparr>"]) (simp add: connect_rest_connectable_eq [OF txs] bbind_def [of "bwrap _ (bc_StoreBlockIndex _ _)"])
qed

lemma connect_lists:
  assumes lv: "ce_lv E = lv" and full: "\<not> ce_Light E" and h: "Block_Hash (ce_PS E) block = Some h" and g: "lists_good (ch_db s)"
    and run: "ConnectBlock E block s = (Ok b, s')"
  shows "lists_extended (ch_db s) block (ch_db s')"
proof -
  obtain s1 b1 where s1: "connect_full E block h s = (Ok b1, s1)" "connect_rest E b1 s1 = (Ok b, s')"
    using run unfolding ConnectBlock_full [OF full h] by (rule bbind_OkE)
  note l1 = connect_full_lists [OF lv h g s1(1)]
  have txs: "\<forall>t \<in> set (txs_of block). connectable t" using connect_rest_connectable [OF s1(2)] l1(1) by simp
  obtain s2 where s2: "lists_good (ch_db s2)" "lists_extended (ch_db s2) block = lists_extended (ch_db s1) block"
    "bbind (bwrap unexpected_error (CreateAndSaveTxViewPoint E block)) (\<lambda>_. bret block) s2 = (Ok b, s')"
    using rest_run [OF lv h l1(2) txs] s1(2) l1(1) by auto
  from s2(3) have v: "CreateAndSaveTxViewPoint E block s2 = (Ok (), s')"
    by (elim bbind_OkE bwrap_OkE) (simp add: bret_def)
  have "lists_extended (ch_db s2) block (ch_db s')"
  proof -
    obtain toks r s3 where "bforall (save_token_tx E block) (token_order E toks) s2 = (r, s3)"
      "case (r, s3) of
         (Ok _, s1) \<Rightarrow> (\<exists>s'. CreateAndSaveTxViewPoint E block s2 = (Ok (), s') \<and> lists_extended (ch_db s2) block (ch_db s'))
       | (Err e, s1) \<Rightarrow> CreateAndSaveTxViewPoint E block s2 = (Err e, s1)
       | (Panic, s1) \<Rightarrow> CreateAndSaveTxViewPoint E block s2 = (Panic, s1)"
      using view_run [OF lv s2(1) txs] by (metis (mono_tags, lifting) prod.exhaust)
    then show ?thesis using v by (cases r) auto
  qed
  moreover have "lists_extended (ch_db s1) block = lists_extended (ch_db s) block"
    unfolding lists_extended_def l1(3,4) by (rule refl)
  ultimately show ?thesis using s2(2) by simp
qed

lemma connect_ok:
  assumes lv: "ce_lv E = lv" and full: "\<not> ce_Light E" and h: "Block_Hash (ce_PS E) block = Some h" and g: "lists_good (ch_db s)"
    and plain: "\<forall>t \<in> set (txs_of block). \<exists>x. t = NormalTx x" and ord: "token_order E [] = []"
  shows "(\<exists>s'. ConnectBlock E block s = (Ok block, s')) \<longleftrightarrow>
    view (ch_db s) (chain_block_key (ChainID (Header block)) h) = None \<and> block_json E block \<noteq> None \<and>
    (\<forall>t \<in> set (txs_of block). GetType t = TxNormalType \<or> GetType t = TxSalaryType)" (is "?ok \<longleftrightarrow> ?good")
proof
  have s: "invar (ch_db s)" using g by (simp add: lists_good_def)
  have conn: "connectable t \<longleftrightarrow> GetType t = TxNormalType \<or> GetType t = TxSalaryType" if "t \<in> set (txs_of block)" for t
    using plain that by (auto simp: connectable_def)
  { assume ?ok
    then obtain s' where "ConnectBlock E block s = (Ok block, s')" by blast
    then obtain s1 b1 where s1: "connect_full E block h s = (Ok b1, s1)" "connect_rest E b1 s1 = (Ok block, s')"
      unfolding ConnectBlock_full [OF full h] by (rule bbind_OkE)
    have "\<forall>t \<in> set (txs_of block). connectable t"
      using connect_rest_connectable [OF s1(2)] connect_full_lists(1) [OF lv h g s1(1)] by simp
    then have "\<forall>t \<in> set (txs_of block). GetType t = TxNormalType \<or> GetType t = TxSalaryType" using conn by blast
    moreover have "fst (connect_full E block h s) = Ok b1" using s1(1) by simp
    note connect_full_Ok [OF lv h s this]
    ultimately show ?good by blast }
  assume good: ?good
  obtain hs j where hj: "those (map (tx_Hash (ce_PS E)) (txs_of block)) = Some hs" "block_json E block = Some j"
    using Block_Hash_those [OF h] good by blast
  obtain s1 where s1: "connect_full E block h s = (Ok block, s1)" using connect_full_new [OF lv h s hj(2) conjunct1 [OF good] hj(1)] by (elim exE conjE)
  have txs: "\<forall>t \<in> set (txs_of block). connectable t" using good conn by blast
  obtain s2 where s2: "lists_good (ch_db s2)"
    "connect_rest E block s1 = bbind (bwrap unexpected_error (CreateAndSaveTxViewPoint E block)) (\<lambda>_. bret block) s2"
    using rest_run [OF lv h connect_full_lists(2) [OF lv h g s1] txs] by blast
  obtain s' where "CreateAndSaveTxViewPoint E block s2 = (Ok (), s')"
    using view_run [OF lv s2(1) txs] plain ord by (auto simp: bret_def)
  then show ?ok by (simp add: ConnectBlock_full [OF full h] bbind_def s1 s2(2) bwrap_def bret_def)
qed

text \<open>A refused block stays: its retry is refused because the block exists.\<close>

lemma connect_refused:
  assumes lv: "ce_lv E = lv" and full: "\<not> ce_Light E" and h: "Block_Hash (ce_PS E) block = Some h" and s: "invar (ch_db s)"
    and j: "block_json E block = Some j" and new: "view (ch_db s) (chain_block_key (ChainID (Header block)) h) = None"
    and bad: "\<not> (\<forall>t \<in> set (txs_of block). connectable t)"
  shows "\<exists>r s'. ConnectBlock E block s = (r, s') \<and> (\<forall>b. r \<noteq> Ok b) \<and>
     BlockExists E h s' = (Ok True, s') \<and>
     fst (ConnectBlock E block s') = Err (unexpected_error (DbError (DatabaseError BlockExisted)))"
proof -
  obtain hs where hs: "those (map (tx_Hash (ce_PS E)) (txs_of block)) = Some hs" using Block_Hash_those [OF h] by blast
  have hash: "is_hash h" using Block_Hash_those [OF h] by simp
  obtain s1 where s1: "connect_full E block h s = (Ok block, s1)" "invar (ch_db s1)"
    "view (ch_db s1) (chain_block_key (ChainID (Header block)) h) = Some (blockKeyPrefix @ h)" "view (ch_db s1) (blockKeyPrefix @ h) = Some j"
    using connect_full_new [OF lv h s j new hs] by auto
  obtain r s' where r: "connect_rest E block s1 = (r, s')" by (metis prod.exhaust)
  have run: "ConnectBlock E block s = (r, s')" by (simp add: ConnectBlock_full [OF full h] bbind_def s1(1) r)
  have no: "r \<noteq> Ok b" for b using connect_rest_connectable [of E block s1 b s'] r bad by auto
  have s': "invar (ch_db s')" "view (ch_db s') (chain_block_key (ChainID (Header block)) h) \<noteq> None" "view (ch_db s') (blockKeyPrefix @ h) \<noteq> None"
    using bkeepsD [OF bkeeps_rest [OF lv] r s1(2)] s1(3,4) block_keysI [OF hash] by simp_all
  have "BlockExists E h s' = (Ok True, s')"
    using s' by (simp add: BlockExists_def bwrap_def db_op_def lv HasBlock_eq)
  moreover have "fst (ConnectBlock E block s') = Err (unexpected_error (DbError (DatabaseError BlockExisted)))"
    using connect_full_refused [OF lv h s'(1)] bc_StoreBlock_existed [OF lv h s'(1,2)]
    by (cases "connect_full E block h s'") (simp add: ConnectBlock_full [OF full h] bbind_def)
  ultimately show ?thesis using run no by blast
qed

end



subsection \<open>Properties\<close>

text \<open>A node for the examples: sorted lists as LevelDB and a coding of blocks that knows one block.\<close>

definition example_header :: BlockHeader where
  "example_header = \<lparr>hd_Version = 1, PrevBlockHash = zero_hash, MerkleRoot = zero_hash, MerkleRootCommitments = zero_hash,
     Timestamp = 0, BlockCommitteeSigs = [], Committee = [], ChainID = 3, ChainsHeight = [], CandidateHash = zero_hash,
     SalaryFund = 0, BankFund = 0,
     hd_GOVConstitution = \<lparr>StartedBlockHeight = 0, ci_ExecuteDuration = 0, ci_ProposalTXID = None,
       CurrentGOVNationalWelfare = 0, gc_GOVParams = \<lparr>SalaryPerTx = 0, BasicSalary = 0, gov_SellingBonds = None, gov_RefundInfo = None\<rparr>\<rparr>,
     hd_DCBConstitution = \<lparr>StartedBlockHeight = 0, ci_ExecuteDuration = 0, ci_ProposalTXID = None, CurrentDCBNationalWelfare = 0\<rparr>,
     DCBGovernor = \<lparr>StartedBlock = 0, EndBlock = 0, BoardPubKeys = []\<rparr>, GOVGovernor = \<lparr>StartedBlock = 0, EndBlock = 0, BoardPubKeys = []\<rparr>,
     CBBoardPubKeys = [], hd_LoanParams = \<lparr>InterestRate = 0, lp_Maturity = 0, LiquidationStart = 0\<rparr>, hd_Height = 2, hd_Oracle = None\<rparr>"

definition example_plain_tx :: "string \<Rightarrow> Tx" where
  "example_plain_tx ty = \<lparr>Version = 1, tx_Type = ty, LockTime = 0, Fee = 0,
     Descs = [empty_desc\<lparr>Nullifiers := [[7], [7]], Commitments := [[8]]\<rparr>], JSPubKey = None, JSSig = None, AddressLastByte = 3,
     txId = None, RequestedTxID = None\<rparr>"

definition example_block :: "string \<Rightarrow> Block" where
  "example_block ty = \<lparr>Header = example_header, Transactions = Some [NormalTx (example_plain_tx ty)], BlockProducer = [], BlockProducerSig = []\<rparr>"

definition example_json :: "Tx \<Rightarrow> json_tx" where
  "example_json t = \<lparr>jx_Type = Some (tx_Type t), jx_Tx = t, jx_CustomToken = undefined, jx_SubmitDCB = undefined,
     jx_SubmitGOV = undefined, jx_VoteDCB = undefined, jx_VoteGOV = undefined, jx_AcceptDCB = undefined, jx_AcceptGOV = undefined\<rparr>"

definition example_node :: "(bytes \<times> bytes) list chain_env" where
  "example_node = \<lparr>ce_lv = al_db, ce_PS = \<lambda>_. [], ce_Light = False, ce_curve = example_curve, ce_crypto = example_crypto,
     block_json = \<lambda>b. Some [1], header_json = \<lambda>h. Some [2], tx_json = \<lambda>t. Some [3], best_json = \<lambda>b. Some [4],
     parse_block = \<lambda>b. Some (example_block TxNormalType, [example_json (example_plain_tx TxNormalType)]),
     parse_header = \<lambda>b. Some example_header, parse_tx = \<lambda>b. Some (example_plain_tx TxNormalType), parse_best = \<lambda>b. Some empty_BestState,
     token_order = id\<rparr>"

definition example_chain :: "(bytes \<times> bytes) list chain" where
  "example_chain = \<lparr>BestStates = [], ch_db = [], rewardSnapshot = Map.empty, walletKeys = []\<rparr>"

lemma example_parts:
  "ce_lv example_node = al_db" "\<not> ce_Light example_node" "al_sorted (ch_db example_chain)" "ch_db example_chain = []"
  "txs_of (example_block ty) = [NormalTx (example_plain_tx ty)]" "Tx_GetType (example_plain_tx ty) = ty"
  "block_json example_node b = Some [1]" "token_order example_node [] = []" "Header (example_block ty) = example_header"
  "slices_ok Map.empty p" "slices_at Map.empty p = (\<lambda>_. [])"
  by (simp_all add: example_node_def example_chain_def example_block_def example_plain_tx_def Tx_GetType_def slices_ok_def slices_at_def
      fun_eq_iff)

lemma example_hash: "\<exists>h. Block_Hash (ce_PS example_node) (example_block ty) = Some h"
  by (simp add: Block_Hash_def example_parts)


lemma example_connected:
  "\<exists>s'. ConnectBlock example_node (example_block TxNormalType) example_chain = (Ok (example_block TxNormalType), s')"
proof -
  obtain h where h: "Block_Hash (ce_PS example_node) (example_block TxNormalType) = Some h" using example_hash by blast
  have "adb.lists_good (ch_db example_chain)" using example_parts(3,4,10) by (simp add: adb.lists_good_def)
  then show ?thesis using adb.connect_ok [OF example_parts(1,2) h] by (simp add: example_parts)
qed

text \<open>Claim C3 (functional): a block that a full node connects is found again. After \<open>ConnectBlock\<close> has returned
  the block, \<open>GetBlockByBlockHash\<close> returns a block with its header, its producer and its transactions as they
  come back from JSON, and \<open>GetTransactionByHash\<close> returns for every transaction its chain, block hash and
  position and the same decoded transaction, when the transactions of the block have different hashes;
  the lookups change nothing. A transaction comes back unchanged when its numbers are at most \<open>2 ^ 53\<close> and its
  unexported fields are unset; a greater number has passed through a \<open>float64\<close> (\<open>fu\<close>, \<open>fi\<close>), which is
  exact only up to \<open>2 ^ 53\<close>. The hypothesis on JSON says no more than that. That every transaction of the block
  is of a type that \<open>UnmarshalJSON\<close> knows follows from its being connected.\<close>

theorem connect_block_found:
  assumes "kv_store (ce_lv E) view invar" and "\<not> ce_Light E" and "invar (ch_db s)" and "Block_Hash (ce_PS E) block = Some h"
    and "ConnectBlock E block s = (Ok b, s')"
    and "\<And>j. block_json E block = Some j \<Longrightarrow>
      \<exists>js. parse_block E j = Some (block, js) \<and> list_all2 json_of js (map (via_json fu fi) (txs_of block))"
    and "\<And>x. x \<le> 2 ^ 53 \<Longrightarrow> fu x = x" and "\<And>x. \<bar>x\<bar> \<le> 2 ^ 53 \<Longrightarrow> fi x = x"
    and "those (map (tx_Hash (ce_PS E)) (txs_of block)) = Some hs" and "distinct hs" and "length (txs_of block) < 2 ^ 63"
  shows "\<exists>b'. GetBlockByBlockHash E h s' = (Ok b', s') \<and> Header b' = Header block \<and> txs_of b' = map (via_json fu fi) (txs_of block) \<and>
    BlockProducer b' = BlockProducer block \<and> BlockProducerSig b' = BlockProducerSig block \<and>
    (\<forall>i < length hs. GetTransactionByHash E (hs ! i) s' =
       (Ok (ChainID (Header block), h, int i, via_json fu fi (txs_of block ! i)), s')) \<and>
    (\<forall>i < length hs. small_tx (txs_of block ! i) \<longrightarrow> txs_of b' ! i = txs_of block ! i)"
proof -
  have l: "length hs = length (txs_of block)" using those_tx_hashes [OF assms(9)] by simp
  obtain b' where "GetBlockByBlockHash E h s' = (Ok b', s')" "Header b' = Header block"
    "txs_of b' = map (via_json fu fi) (txs_of block)" "BlockProducer b' = BlockProducer block" "BlockProducerSig b' = BlockProducerSig block"
    "\<forall>i < length hs. GetTransactionByHash E (hs ! i) s' =
       (Ok (ChainID (Header block), h, int i, via_json fu fi (txs_of block ! i)), s')"
    using kv_store.connect_found [OF assms(1) refl assms(2-6,9-11)] by blast
  then show ?thesis using l via_json_small [OF assms(7,8)] by (intro exI [of _ b']) simp
qed

text \<open>A decoder that rounds to multiples of 2 above \<open>2 ^ 53\<close>, as \<open>float64\<close> does below \<open>2 ^ 54\<close>.\<close>

definition example_round :: "u64 \<Rightarrow> u64" where
  "example_round x = (if x \<le> 2 ^ 53 then x else 2 * (x div 2))"

theorem connect_block_found_witness:
  "\<exists>s' th. ConnectBlock example_node (example_block TxNormalType) example_chain = (Ok (example_block TxNormalType), s') \<and>
     tx_Hash (ce_PS example_node) (NormalTx (example_plain_tx TxNormalType)) = Some th \<and>
     (\<exists>h. fst (GetTransactionByHash example_node th s') = Ok (3, h, 0, NormalTx (example_plain_tx TxNormalType)))"
proof -
  let ?b = "example_block TxNormalType" and ?t = "NormalTx (example_plain_tx TxNormalType)"
  obtain h where h: "Block_Hash (ce_PS example_node) ?b = Some h" using example_hash by blast
  obtain s' where s': "ConnectBlock example_node ?b example_chain = (Ok ?b, s')" using example_connected by blast
  obtain th where th: "tx_Hash (ce_PS example_node) ?t = Some th" by simp
  have rnd: "\<And>x. x \<le> 2 ^ 53 \<Longrightarrow> example_round x = x" by (simp add: example_round_def)
  have "small_tx ?t" by (simp add: small_tx_def small_Tx_def example_plain_tx_def empty_desc_def)
  then have same: "via_json example_round id ?t = ?t" by (intro via_json_small rnd) simp_all
  have "\<exists>js. parse_block example_node j = Some (?b, js) \<and> list_all2 json_of js (map (via_json example_round id) (txs_of ?b))" for j
    by (simp add: same example_node_def example_parts json_of_def example_json_def) (simp add: example_plain_tx_def Tx_GetType_def)
  then show ?thesis
    using connect_block_found [of example_node map_of al_sorted example_chain ?b h ?b s' example_round id "[th]", OF _ _ _ _ _ _ rnd] s' h th
    by (intro exI [of _ s'] exI [of _ th]) (auto simp: same example_parts adb.kv_store_axioms example_header_def simp del: tx_Hash.simps)
qed

text \<open>Claim C4 (safety): the nullifiers and commitments of a connected block, that is of all its descriptions, those of
  salary transactions included: a comment on the loop in \<open>fetchTxViewPoint\<close> excepts the salary transaction, the
  loop does not. On a full node, \<open>ConnectBlock\<close> appends to
  the nullifiers of the block's chain those of the block that the chain does not have yet, in order, and
  leaves the lists of the other chains alone. A nullifier that occurs twice within the block is
  appended twice: only the stored list is looked at. The new commitments of the block are appended only
  when at least one nullifier is new; those of a block without a new nullifier are not stored.\<close>

theorem connect_block_lists:
  assumes "kv_store (ce_lv E) view invar" and "\<not> ce_Light E" and "invar (ch_db s)" and "Block_Hash (ce_PS E) block = Some h"
    and "slices_ok (view (ch_db s)) nullifiersPrefix" and "slices_ok (view (ch_db s)) commitmentsPrefix"
    and "ConnectBlock E block s = (Ok b, s')"
    and "nfs = slices_at (view (ch_db s)) nullifiersPrefix" and "cms = slices_at (view (ch_db s)) commitmentsPrefix"
    and "c = ChainID (Header block)" and "ns = filter (\<lambda>n. n \<notin> set (nfs c)) (block_nullifiers block)"
  shows "slices_at (view (ch_db s')) nullifiersPrefix = nfs(c := nfs c @ ns) \<and>
    slices_at (view (ch_db s')) commitmentsPrefix =
      cms(c := cms c @ (if ns = [] then [] else filter (\<lambda>x. x \<notin> set (cms c)) (block_commitments block)))"
  using kv_store.connect_lists [OF assms(1) refl assms(2,4) _ assms(7)] assms
  by (simp add: kv_store.lists_good_def [OF assms(1)] kv_store.lists_extended_def [OF assms(1)] Let_def)

theorem connect_block_lists_witness:
  "\<exists>s'. ConnectBlock example_node (example_block TxNormalType) example_chain = (Ok (example_block TxNormalType), s') \<and>
     slices_at (map_of (ch_db s')) nullifiersPrefix = (\<lambda>_. [])(3 := [[7], [7]]) \<and>
     slices_at (map_of (ch_db s')) commitmentsPrefix = (\<lambda>_. [])(3 := [[8]])"
proof -
  let ?b = "example_block TxNormalType"
  obtain h where h: "Block_Hash (ce_PS example_node) ?b = Some h" using example_hash by blast
  obtain s' where s': "ConnectBlock example_node ?b example_chain = (Ok ?b, s')" using example_connected by blast
  have "block_nullifiers ?b = [[7], [7]]" "block_commitments ?b = [[8]]"
    by (simp_all add: block_nullifiers_def block_commitments_def example_parts) (simp_all add: example_plain_tx_def)
  then show ?thesis
    using connect_block_lists [of example_node map_of al_sorted example_chain ?b h ?b s', OF _ _ _ h _ _ s' refl refl refl refl]
    by (intro exI [of _ s']) (simp add: s' example_parts adb.kv_store_axioms example_header_def)
qed

text \<open>Claim C5 (liveness): when a full node connects a block of plain transactions. \<open>ConnectBlock\<close> returns the block
  if and only if its chain does not have the block yet, the block can be encoded, and the type of every
  transaction is that of a normal or a salary transaction. Nothing else is checked: the comment on \<open>ConnectBlock\<close>
  promises that blocks follow all rules and that orphans are handled, but neither the previous block nor the height,
  signatures or values are looked at.\<close>

theorem connect_block_succeeds_iff:
  assumes "kv_store (ce_lv E) view invar" and "\<not> ce_Light E" and "invar (ch_db s)" and "Block_Hash (ce_PS E) block = Some h"
    and "slices_ok (view (ch_db s)) nullifiersPrefix" and "slices_ok (view (ch_db s)) commitmentsPrefix"
    and "\<forall>t \<in> set (txs_of block). \<exists>x. t = NormalTx x" and "token_order E [] = []"
  shows "(\<exists>s'. ConnectBlock E block s = (Ok block, s')) \<longleftrightarrow>
    view (ch_db s) (chain_block_key (ChainID (Header block)) h) = None \<and> block_json E block \<noteq> None \<and>
    (\<forall>t \<in> set (txs_of block). GetType t = TxNormalType \<or> GetType t = TxSalaryType)"
  using assms by (intro kv_store.connect_ok [OF assms(1) refl]) (simp_all add: kv_store.lists_good_def [OF assms(1)])

theorem connect_block_succeeds_iff_witness:
  "(\<exists>s'. ConnectBlock example_node (example_block TxSalaryType) example_chain = (Ok (example_block TxSalaryType), s')) \<and>
   \<not> (\<exists>s'. ConnectBlock example_node (example_block ''x'') example_chain = (Ok (example_block ''x''), s'))"
proof -
  have iff: "(\<exists>s'. ConnectBlock example_node (example_block ty) example_chain = (Ok (example_block ty), s')) \<longleftrightarrow>
      ty = TxNormalType \<or> ty = TxSalaryType" for ty
  proof -
    obtain h where h: "Block_Hash (ce_PS example_node) (example_block ty) = Some h" using example_hash by blast
    show ?thesis
      by (subst connect_block_succeeds_iff [OF _ _ _ h, where view = map_of and invar = al_sorted])
        (simp_all add: example_parts adb.kv_store_axioms)
  qed
  show ?thesis unfolding iff by (simp add: type_names)
qed

text \<open>A refused block stays. When a transaction of a new block is of a type the view does not accept,
  \<open>ConnectBlock\<close> does not return the block, but the block has been stored and \<open>BlockExists\<close> says so from
  then on, and connecting it again fails because the block exists.\<close>

theorem connect_block_not_undone:
  assumes "kv_store (ce_lv E) view invar" and "\<not> ce_Light E" and "invar (ch_db s)" and "Block_Hash (ce_PS E) block = Some h"
    and "block_json E block = Some j" and "view (ch_db s) (chain_block_key (ChainID (Header block)) h) = None"
    and "\<not> (\<forall>t \<in> set (txs_of block). connectable t)"
  shows "\<exists>r s'. ConnectBlock E block s = (r, s') \<and> (\<forall>b. r \<noteq> Ok b) \<and> BlockExists E h s' = (Ok True, s') \<and>
     fst (ConnectBlock E block s') = Err (unexpected_error (DbError (DatabaseError BlockExisted)))"
  using assms by (intro kv_store.connect_refused [OF assms(1) refl]) simp_all

theorem connect_block_not_undone_witness:
  "\<exists>r s'. ConnectBlock example_node (example_block ''x'') example_chain = (r, s') \<and> (\<forall>b. r \<noteq> Ok b) \<and>
     fst (ConnectBlock example_node (example_block ''x'') s') = Err (unexpected_error (DbError (DatabaseError BlockExisted)))"
proof -
  obtain h where h: "Block_Hash (ce_PS example_node) (example_block ''x'') = Some h" using example_hash by blast
  have "\<not> connectable (NormalTx (example_plain_tx ''x''))" by (simp add: connectable_def example_plain_tx_def Tx_GetType_def type_names)
  then show ?thesis
    using connect_block_not_undone [OF _ _ _ h, where view = map_of and invar = al_sorted and j = "[1]" and s = example_chain]
    by (simp add: example_parts adb.kv_store_axioms) blast
qed

end
