(* ===== verification/ChainValidation.thy ===== *)
theory ChainValidation
  imports Connect CreateTx Wallet
begin

text \<open>
  Validation of transactions against the chain (\<open>blockchain/validation.go\<close>): double spends of coins and
  tokens, loans, dividends and the signatures of a board. What the code takes from elsewhere besides the
  environment of the chain is in \<open>valid_env\<close>: ECDSA, the JSON form of a token transaction, SHAKE256, the
  capacity a decoded key has to spare, and the order in which Go ranges over the maps of token holders
  and of token transactions.
\<close>

record 'd valid_env =
  ve_chain :: "'d chain_env"
  ve_ecdsa :: ecdsa
  token_json :: "TxCustomToken \<Rightarrow> bytes"
  ShakeSum256 :: "bytes \<Rightarrow> bytes"
  key_spare :: nat
  holder_order :: "(string \<rightharpoonup> u64) \<Rightarrow> string list"
  tx_order :: "(hash \<times> transaction) list \<Rightarrow> transaction list"

subsection \<open>Coins\<close>

definition IsSalaryTx :: "transaction \<Rightarrow> bool" where
  "IsSalaryTx tx =
     (if GetType tx \<noteq> TxSalaryType then
        (case tx of
           NormalTx normalTx \<Rightarrow>
             (case Descs normalTx of
                [desc] \<Rightarrow> if Reward desc > 0 then True else False
              | _ \<Rightarrow> False)
         | _ \<Rightarrow> False)
      else False)"

definition can_not_check :: "string \<Rightarrow> bc_error" where
  "can_not_check str = BlockChainError CanNotCheckDoubleSpendError (Some (Message str))"

text \<open>The descriptions of the tested transaction are looked at only when its type is that of a normal
  transaction.\<close>

definition ValidateDoubleSpend :: "'d chain_env \<Rightarrow> transaction \<Rightarrow> byte \<Rightarrow> ('d, unit) bcm" where
  "ValidateDoubleSpend E tx chainID =
     bbind (or_panic (tx_Hash (ce_PS E) tx)) (\<lambda>txHash.
     bbind (bwrap (\<lambda>_. can_not_check ''Can not check double spend for tx'') (FetchTxViewPoint E chainID)) (\<lambda>txViewPoint.
     bbind (if GetType tx = TxNormalType then (case tx of NormalTx t \<Rightarrow> bret (Descs t) | _ \<Rightarrow> bpanic) else bret []) (\<lambda>descs.
       if list_ex (\<lambda>desc. list_ex (\<lambda>nullifier. SliceBytesExists (listNullifiers txViewPoint) nullifier) (Nullifiers desc)) descs
       then bfail (can_not_check (''Nullifiers of transaction '' @ hash_String txHash @ '' already existed''))
       else bret ())))"

subsection \<open>Loans\<close>

definition best_block :: "'d chain \<Rightarrow> nat \<Rightarrow> Block option" where
  "best_block s i = (if i < length (BestStates s) then BestBlock (BestStates s ! i) else None)"

fun loan_id_used :: "bytes \<Rightarrow> nat \<Rightarrow> BestState list \<Rightarrow> nat option" where
  "loan_id_used loanID i [] = None"
| "loan_id_used loanID i (bs # bss) =
     (if list_ex (\<lambda>x. loanID = x) (elems (LoanIDs bs)) then Some i else loan_id_used loanID (Suc i) bss)"

definition ValidateTxLoanRequest :: "transaction \<Rightarrow> byte \<Rightarrow> ('d, unit) bcm" where
  "ValidateTxLoanRequest tx chainID =
     (case tx of
        LoanRequestTx txLoan \<Rightarrow> (\<lambda>s.
          (case best_block s (unat chainID) of
             None \<Rightarrow> (Panic, s)
           | Some b \<Rightarrow>
               if lr_Params (lreq_LoanRequest txLoan) \<noteq> hd_LoanParams (Header b)
               then (Err (Message ''LoanRequest transaction has incorrect params''), s)
               else (case loan_id_used (lr_LoanID (lreq_LoanRequest txLoan)) 0 (BestStates s) of
                       Some i \<Rightarrow> (Err (Message (''LoanID already existed on chain '' @ Itoa (int i))), s)
                     | None \<Rightarrow> (Ok (), s))))
      | _ \<Rightarrow> bfail (Message ''Fail parsing LoanRequest transaction''))"

definition find_loan_tx :: "'d chain_env \<Rightarrow> bytes \<Rightarrow> ('d, transaction) bcm" where
  "find_loan_tx E txHash =
     bbind (bwrap (\<lambda>_. Message ''Error finding corresponding loan request'') (GetTransactionByHash E (copy32 txHash)))
       (\<lambda>(_, _, _, txOld). bret txOld)"

fun loan_response_loop :: "'d chain_env \<Rightarrow> bytes list \<Rightarrow> bool \<Rightarrow> ('d, bool) bcm" where
  "loan_response_loop E [] found = bret found"
| "loan_response_loop E (txHash # txHashes) found =
     bbind (find_loan_tx E txHash) (\<lambda>txOld.
       if GetType txOld = TxLoanResponseType then bfail (Message ''Loan already had response'')
       else if GetType txOld = TxLoanRequestType then
         (case txOld of
            LoanRequestTx _ \<Rightarrow> loan_response_loop E txHashes True
          | _ \<Rightarrow> bfail (Message ''Error parsing loan request tx''))
       else loan_response_loop E txHashes found)"

definition ValidateTxLoanResponse :: "'d chain_env \<Rightarrow> transaction \<Rightarrow> byte \<Rightarrow> ('d, unit) bcm" where
  "ValidateTxLoanResponse E tx chainID =
     (case tx of
        LoanResponseTx txResponse \<Rightarrow>
          bbind (db_op (GetLoanTxs (ce_lv E) (ls_LoanID (lres_LoanResponse txResponse)))) (\<lambda>txHashes.
          bbind (loan_response_loop E txHashes False) (\<lambda>found.
            if found then bret () else bfail (Message ''Corresponding loan request not found'')))
      | _ \<Rightarrow> bfail (Message ''Fail parsing LoanResponse transaction''))"

fun loan_payment_loop :: "'d chain_env \<Rightarrow> bytes list \<Rightarrow> bool \<Rightarrow> ('d, bool) bcm" where
  "loan_payment_loop E [] found = bret found"
| "loan_payment_loop E (txHash # txHashes) found =
     bbind (find_loan_tx E txHash) (\<lambda>txOld. loan_payment_loop E txHashes (if GetType txOld = TxLoanResponseType then True else found))"

definition ValidateTxLoanPayment :: "'d chain_env \<Rightarrow> transaction \<Rightarrow> byte \<Rightarrow> ('d, unit) bcm" where
  "ValidateTxLoanPayment E tx chainID =
     (case tx of
        LoanPaymentTx txPayment \<Rightarrow>
          bbind (db_op (GetLoanTxs (ce_lv E) (lpay_LoanID (lpay_LoanPayment txPayment)))) (\<lambda>txHashes.
          bbind (loan_payment_loop E txHashes False) (\<lambda>found.
            if found then bret () else bfail (Message ''Corresponding loan response not found'')))
      | _ \<Rightarrow> bfail (Message ''Fail parsing LoanPayment transaction''))"

text \<open>The type assertions are on the transaction being validated, not on the one found.\<close>

fun loan_withdraw_loop :: "'d valid_env \<Rightarrow> transaction \<Rightarrow> bytes \<Rightarrow> bytes list \<Rightarrow> bool \<times> bool \<Rightarrow> ('d, bool \<times> bool) bcm" where
  "loan_withdraw_loop V tx key [] (foundResponse, keyCorrect) = bret (foundResponse, keyCorrect)"
| "loan_withdraw_loop V tx key (txHash # txHashes) (foundResponse, keyCorrect) =
     bbind (find_loan_tx (ve_chain V) txHash) (\<lambda>txOld.
       if GetType txOld = TxLoanRequestType then
         (case tx of
            LoanRequestTx txRequest \<Rightarrow>
              loan_withdraw_loop V tx key txHashes
                (foundResponse, keyCorrect \<or> ShakeSum256 V key = KeyDigest (lreq_LoanRequest txRequest))
          | _ \<Rightarrow> bfail (Message ''Error parsing corresponding loan request''))
       else if GetType txOld = TxLoanResponseType then
         (case tx of
            LoanResponseTx txResponse \<Rightarrow>
              loan_withdraw_loop V tx key txHashes
                (foundResponse \<or> Response (lres_LoanResponse txResponse) \<noteq> Accept, keyCorrect)
          | _ \<Rightarrow> bfail (Message ''Error parsing corresponding loan response''))
       else loan_withdraw_loop V tx key txHashes (foundResponse, keyCorrect))"

definition ValidateTxLoanWithdraw :: "'d valid_env \<Rightarrow> transaction \<Rightarrow> byte \<Rightarrow> ('d, unit) bcm" where
  "ValidateTxLoanWithdraw V tx chainID =
     (case tx of
        LoanWithdrawTx txWithdraw \<Rightarrow>
          bbind (db_op (GetLoanTxs (ce_lv (ve_chain V)) (lw_LoanID (lwd_LoanWithdraw txWithdraw)))) (\<lambda>txHashes.
          bbind (loan_withdraw_loop V tx (lw_Key (lwd_LoanWithdraw txWithdraw)) txHashes (False, False)) (\<lambda>(foundResponse, keyCorrect).
            if \<not> foundResponse then bfail (Message ''Corresponding loan response not found'')
            else if \<not> keyCorrect then bfail (Message ''Provided key is incorrect'')
            else bret ()))
      | _ \<Rightarrow> bfail (Message ''Fail parsing LoanResponse transaction''))"


subsection \<open>Dividends\<close>

text \<open>\<open>hex.DecodeString\<close> with its error ignored: the bytes decoded before the first bad pair.\<close>

fun hex_pairs :: "string \<Rightarrow> bytes" where
  "hex_pairs (p # q # s) =
     (case (fromHexChar p, fromHexChar q) of
        (Some a, Some b) \<Rightarrow> of_nat (a * 16 + b) # hex_pairs s
      | _ \<Rightarrow> [])"
| "hex_pairs s = []"

fun supply_loop :: "string list \<Rightarrow> u64 \<Rightarrow> (bc_error, u64) res" where
  "supply_loop [] totalTokenSupply = Ok totalTokenSupply"
| "supply_loop (holder # holders) totalTokenSupply =
     (case PaymentAddress_FromBytes (hex_pairs holder) of
        None \<Rightarrow> Panic
      | Some paymentAddress \<Rightarrow>
          supply_loop holders (foldl (\<lambda>t _. t + 0) totalTokenSupply (GetAccountUTXO (Pk paymentAddress))))"

text \<open>The value of an output is a constant zero in the source, as long as outputs are not looked up.\<close>

fun account_amount :: "u64 \<Rightarrow> bytes list \<Rightarrow> u64 \<Rightarrow> (bc_error, u64) res" where
  "account_amount payoutID [] amount = Ok amount"
| "account_amount payoutID (utxo # utxos) amount =
     and_then (GetUTXOReward utxo) (\<lambda>reward.
       account_amount payoutID utxos (if reward < payoutID then amount + 0 else amount))"

fun amounts_loop :: "u64 \<Rightarrow> string list \<Rightarrow> bytes list \<times> u64 list \<Rightarrow> (bc_error, bytes list \<times> u64 list) res" where
  "amounts_loop payoutID [] acc = Ok acc"
| "amounts_loop payoutID (holder # holders) (rewardHolders, amounts) =
     (case PaymentAddress_FromBytes (hex_pairs holder) of
        None \<Rightarrow> Panic
      | Some paymentAddress \<Rightarrow>
          and_then (account_amount payoutID (GetAccountUTXO (Pk paymentAddress)) 0) (\<lambda>amount.
            amounts_loop payoutID holders
              (if amount > 0 then (rewardHolders @ [Pk paymentAddress], amounts @ [amount]) else (rewardHolders, amounts))))"

text \<open>A proposal without a token makes the database dereference nil.\<close>

definition GetAmountPerAccount :: "'d valid_env \<Rightarrow> PayoutProposal \<Rightarrow> ('d, u64 \<times> bytes list \<times> u64 list) bcm" where
  "GetAmountPerAccount V proposal =
     bbind (or_panic (pp_TokenID proposal)) (\<lambda>tokenID.
     bbind (GetListTokenHolders (ve_chain V) tokenID) (\<lambda>tokenHolders.
     bbind (of_res (supply_loop (holder_order V tokenHolders) 0)) (\<lambda>totalTokenSupply.
     bbind (of_res (amounts_loop (pp_PayoutID proposal) (holder_order V tokenHolders) ([], []))) (\<lambda>(rewardHolders, amounts).
       bret (totalTokenSupply, rewardHolders, amounts)))))"

fun already_paid :: "u64 \<Rightarrow> bytes list \<Rightarrow> (bc_error, unit) res" where
  "already_paid payoutID [] = Ok ()"
| "already_paid payoutID (utxo # utxos) =
     and_then (GetUTXOReward utxo) (\<lambda>reward.
       if reward \<ge> payoutID then Err (Message (''UTXO '' @ string_of_bytes utxo @ '' has already received dividend payment''))
       else already_paid payoutID utxos)"

fun count_holder :: "bytes \<Rightarrow> u64 \<Rightarrow> (bytes \<times> u64) list \<Rightarrow> nat \<Rightarrow> (bc_error, nat) res" where
  "count_holder apk val [] found = Ok found"
| "count_holder apk val ((holder, amount) # hs) found =
     (if holder = apk then
        if amount \<noteq> val then Err (Message ''Payment amount for user incorrect'') else count_holder apk val hs (Suc found)
      else count_holder apk val hs found)"

definition check_dividend_note :: "u64 \<Rightarrow> (bytes \<times> u64) list \<Rightarrow> Note \<Rightarrow> (bc_error, unit) res" where
  "check_dividend_note payoutID holders n =
     and_then (already_paid payoutID (GetAccountUTXO (Apk n))) (\<lambda>_.
     and_then (count_holder (Apk n) (Value n) holders 0) (\<lambda>found.
       if found = 0 then Err (Message ''User is not eligible for receiving dividend'')
       else if found > 1 then Err (Message ''Multiple dividend payments found for user'')
       else Ok ()))"

fun check_dividend_notes :: "u64 \<Rightarrow> (bytes \<times> u64) list \<Rightarrow> Note list \<Rightarrow> (bc_error, unit) res" where
  "check_dividend_notes payoutID holders [] = Ok ()"
| "check_dividend_notes payoutID holders (n # ns) =
     and_then (check_dividend_note payoutID holders n) (\<lambda>_. check_dividend_notes payoutID holders ns)"

text \<open>The proposal is a fresh \<open>PayoutProposal\<close>.\<close>

definition ValidateTxDividendPayout :: "'d valid_env \<Rightarrow> transaction \<Rightarrow> byte \<Rightarrow> ('d, unit) bcm" where
  "ValidateTxDividendPayout V tx chainID =
     (case tx of
        DividendPayoutTx txPayout \<Rightarrow>
          (let proposal = \<lparr>TotalAmount = 0, pp_PayoutID = 0, pp_TokenID = None\<rparr> in
           bbind (GetAmountPerAccount V proposal) (\<lambda>(_, tokenHolders, amounts).
             of_res (check_dividend_notes (pp_PayoutID proposal) (zip tokenHolders amounts)
                       (concat (map (\<lambda>desc. elems (desc_Note desc)) (Descs (div_Tx txPayout)))))))
      | _ \<Rightarrow> bfail (Message ''Fail parsing DividendPayout transaction''))"

subsection \<open>Board signatures\<close>

definition DCBAddress :: bytes where "DCBAddress = []"
definition GOVAddress :: bytes where "GOVAddress = []"
definition DCB :: byte where "DCB = 1"
definition GOV :: byte where "GOV = 2"

definition isAnyBoardAddressInVins :: "TxCustomToken \<Rightarrow> bool" where
  "isAnyBoardAddressInVins customToken =
     list_ex (\<lambda>vin. Pk (vin_PaymentAddress vin) = GOVAddress \<or> Pk (vin_PaymentAddress vin) = DCBAddress)
       (Vins (ct_TxTokenData customToken))"

definition isAllBoardAddressesInVins :: "TxCustomToken \<Rightarrow> bytes \<Rightarrow> bool" where
  "isAllBoardAddressesInVins customToken boardAddr =
     list_all (\<lambda>vin. Pk (vin_PaymentAddress vin) = boardAddr) (Vins (ct_TxTokenData customToken))"

text \<open>\<open>common.ToBytes\<close> of a signature: the JSON string of its base64 text, and a newline.\<close>

definition ToBytes_sign :: "bytes \<Rightarrow> bytes" where
  "ToBytes_sign sign = bytes_of_string ([CHR 0x22] @ base64_Encode sign @ [CHR 0x22, CHR 0x0A])"

fun count_signs :: "'d valid_env \<Rightarrow> TxCustomToken \<Rightarrow> (string \<times> bytes) list \<Rightarrow> string list \<Rightarrow> nat \<Rightarrow> nat option" where
  "count_signs V tx signs [] n = Some n"
| "count_signs V tx signs (pubKey # pubKeys) n =
     (case map_of signs pubKey of
        None \<Rightarrow> count_signs V tx signs pubKeys n
      | Some sign \<Rightarrow>
          (case Base58CheckDeserialize (key_spare V) pubKey of
             Panic \<Rightarrow> None
           | Err e \<Rightarrow> count_signs V tx signs pubKeys n
           | Ok keyObj \<Rightarrow>
               (case KeySet_Verify (ve_ecdsa V) (Pk (ks_PaymentAddress (key_KeySet keyObj))) (token_json V tx) (ToBytes_sign sign) of
                  None \<Rightarrow> None
                | Some isValid \<Rightarrow> count_signs V tx signs pubKeys (if isValid then Suc n else n))))"

text \<open>The signatures are taken out of the transaction, also for the caller. The second result is the
  transaction afterwards, the first is \<open>None\<close> when the code panics.\<close>

definition verifySignatures :: "'d valid_env \<Rightarrow> TxCustomToken \<Rightarrow> string list \<Rightarrow> bool option \<times> TxCustomToken" where
  "verifySignatures V tx boardPubKeys =
     (let boardLen = length boardPubKeys in
      if boardLen = 0 then (Some False, tx)
      else let tx' = tx\<lparr>BoardSigns := []\<rparr>
           in (map_option (\<lambda>n. n \<ge> boardLen div 2 + 1) (count_signs V tx' (BoardSigns tx) boardPubKeys 0), tx'))"

definition verifyByBoard :: "'d valid_env \<Rightarrow> 'd chain \<Rightarrow> byte \<Rightarrow> TxCustomToken \<Rightarrow> bool option \<times> TxCustomToken" where
  "verifyByBoard V s boardType customToken =
     (if boardType = DCB \<or> boardType = GOV then
        (case best_block s 0 of
           None \<Rightarrow> (None, customToken)
         | Some b \<Rightarrow>
             let address = (if boardType = DCB then DCBAddress else GOVAddress);
                 pubKeys = (if boardType = DCB then BoardPubKeys (DCBGovernor (Header b)) else BoardPubKeys (GOVGovernor (Header b)))
             in if \<not> isAllBoardAddressesInVins customToken address then (Some False, customToken)
                else verifySignatures V customToken pubKeys)
      else (Some False, customToken))"

definition VerifyCustomTokenSigns :: "'d valid_env \<Rightarrow> 'd chain \<Rightarrow> transaction \<Rightarrow> bool option \<times> transaction" where
  "VerifyCustomTokenSigns V s tx =
     (case tx of
        CustomTokenTx customToken \<Rightarrow>
          if BoardType customToken = 0 then (Some (\<not> isAnyBoardAddressInVins customToken), tx)
          else (case verifyByBoard V s (BoardType customToken) customToken of (r, t) \<Rightarrow> (r, CustomTokenTx t))
      | _ \<Rightarrow> (Some False, tx))"

text \<open>Not yet implemented in the source: bond requests and proposals are accepted.\<close>

definition ValidateTxBuyRequest :: "transaction \<Rightarrow> byte \<Rightarrow> ('d, unit) bcm" where
  "ValidateTxBuyRequest tx chainID = bret ()"

definition ValidateTxProposal :: "transaction \<Rightarrow> byte \<Rightarrow> ('d, unit) bcm" where
  "ValidateTxProposal tx chainID = bret ()"

subsection \<open>Tokens\<close>

definition ValidateDoubleSpendCustomTokenOnTx :: "TxCustomToken \<Rightarrow> transaction \<Rightarrow> (bc_error, unit) res" where
  "ValidateDoubleSpendCustomTokenOnTx tx txInBlock =
     (case txInBlock of
        CustomTokenTx temp \<Rightarrow>
          if list_ex (\<lambda>vin. list_ex (\<lambda>item.
               hash_String (vin_TxCustomTokenID vin) = hash_String (vin_TxCustomTokenID item) \<and> VoutIndex vin = VoutIndex item)
               (Vins (ct_TxTokenData tx))) (Vins (ct_TxTokenData temp))
          then Err (Message ''Double spend'') else Ok ()
      | _ \<Rightarrow> Panic)"

definition ValidateDoubleSpendCustomToken :: "'d valid_env \<Rightarrow> TxCustomToken \<Rightarrow> ('d, unit) bcm" where
  "ValidateDoubleSpendCustomToken V tx =
     bbind (GetCustomTokenTxs (ve_chain V) (PropertyID (ct_TxTokenData tx))) (\<lambda>listTxs.
       if listTxs = [] \<and> td_Type (ct_TxTokenData tx) \<noteq> CustomTokenInit then bfail (Message ''Not exist tx for this '')
       else bforall (\<lambda>txInBlocks. of_res (ValidateDoubleSpendCustomTokenOnTx tx txInBlocks)) (tx_order V listTxs))"


subsection \<open>What validation decides\<close>

context kv_store
begin

lemma FetchTxViewPoint_eq:
  assumes lv: "ce_lv E = lv" and g: "lists_good (ch_db s)"
  shows "FetchTxViewPoint E c s =
    (Ok ((NewTxViewPoint c)\<lparr>listCommitments := slices_at (view (ch_db s)) commitmentsPrefix c,
                            listNullifiers := slices_at (view (ch_db s)) nullifiersPrefix c\<rparr>), s)"
proof -
  have g: "slices_good nullifiersPrefix (ch_db s)" "slices_good commitmentsPrefix (ch_db s)" using g by (simp_all add: lists_good_def)
  show ?thesis
    by (simp add: FetchTxViewPoint_def lv bbind_def db_op_def nf.fetch_contents [OF g(1)] cm.fetch_contents [OF g(2)] bret_def)
qed

lemma double_spend_verdict:
  assumes lv: "ce_lv E = lv" and g: "lists_good (ch_db s)"
  shows "GetType (NormalTx t) = TxNormalType \<Longrightarrow>
      fst (ValidateDoubleSpend E (NormalTx t) c s) = Ok () \<longleftrightarrow>
        (\<forall>n \<in> set (Tx_ListNullifiers t). n \<notin> set (slices_at (view (ch_db s)) nullifiersPrefix c))"
    and "GetType (CustomTokenTx u) = TxCustomTokenType \<Longrightarrow> fst (ValidateDoubleSpend E (CustomTokenTx u) c s) = Ok ()"
  by (auto simp: ValidateDoubleSpend_def or_panic_def bbind_def bwrap_def FetchTxViewPoint_eq [OF lv g] bret_def bfail_def
      list_ex_iff Tx_ListNullifiers_def type_names)

end

text \<open>The loop of \<open>ValidateTxLoanWithdraw\<close> finds nothing: each branch that would needs a transaction of another type.\<close>

lemma loan_withdraw_loop_False:
  "loan_withdraw_loop V (LoanWithdrawTx w) key hs (False, False) s = (Ok r, s') \<Longrightarrow> r = (False, False)"
  by (induction hs arbitrary: s) (auto simp: bret_def bfail_def elim!: bbind_OkE split: if_splits)

lemma loan_withdraw_refused: "fst (ValidateTxLoanWithdraw V tx c s) \<noteq> Ok u"
proof
  assume "fst (ValidateTxLoanWithdraw V tx c s) = Ok u"
  then obtain s' where run: "ValidateTxLoanWithdraw V tx c s = (Ok u, s')" by (metis prod.collapse)
  show False
  proof (cases tx)
    case (LoanWithdrawTx w)
    with run show False
      by (auto simp: ValidateTxLoanWithdraw_def bfail_def elim!: bbind_OkE split: if_splits dest!: loan_withdraw_loop_False)
  qed (use run in \<open>simp_all add: ValidateTxLoanWithdraw_def bfail_def\<close>)
qed

lemma dividend_panics: "ValidateTxDividendPayout V (DividendPayoutTx t) c s = (Panic, s)"
  by (simp add: ValidateTxDividendPayout_def GetAmountPerAccount_def or_panic_def bbind_def bpanic_def)



subsection \<open>Properties\<close>

text \<open>Claim C6 (safety): after a full node has connected a block, \<open>ValidateDoubleSpend\<close> accepts a normal
  transaction on the block's chain if and only if none of its nullifiers is in the list the chain had
  before or in the block. A custom token transaction is accepted whatever it spends, because only the
  descriptions of normal transactions are looked at.\<close>

theorem connected_nullifiers_refused:
  assumes "kv_store (ce_lv E) view invar" and "\<not> ce_Light E" and "invar (ch_db s)" and "Block_Hash (ce_PS E) block = Some h"
    and "slices_ok (view (ch_db s)) nullifiersPrefix" and "slices_ok (view (ch_db s)) commitmentsPrefix"
    and "ConnectBlock E block s = (Ok b, s')" and "c = ChainID (Header block)"
    and "tx_Type t = TxNormalType" and "tx_Type (ct_Tx u) = TxCustomTokenType"
  shows "(fst (ValidateDoubleSpend E (NormalTx t) c s') = Ok () \<longleftrightarrow>
      (\<forall>n \<in> set (Tx_ListNullifiers t). n \<notin> set (slices_at (view (ch_db s)) nullifiersPrefix c) \<and> n \<notin> set (block_nullifiers block))) \<and>
    fst (ValidateDoubleSpend E (CustomTokenTx u) c s') = Ok ()"
proof -
  have g: "kv_store.lists_good view invar (ch_db s)" using assms(1,3,5,6) by (simp add: kv_store.lists_good_def)
  note ext = kv_store.connect_lists [OF assms(1) refl assms(2,4) g assms(7)]
  then have g': "kv_store.lists_good view invar (ch_db s')" by (simp add: kv_store.lists_extended_def [OF assms(1)] Let_def)
  have "slices_at (view (ch_db s')) nullifiersPrefix c = slices_at (view (ch_db s)) nullifiersPrefix c @
      filter (\<lambda>n. n \<notin> set (slices_at (view (ch_db s)) nullifiersPrefix c)) (block_nullifiers block)"
    using ext by (simp add: kv_store.lists_extended_def [OF assms(1)] Let_def assms(8))
  then show ?thesis
    using kv_store.double_spend_verdict [OF assms(1) refl g'] assms(9,10) by (auto simp: Tx_GetType_def)
qed

theorem connected_nullifiers_refused_witness:
  "\<exists>s'. ConnectBlock example_node (example_block TxNormalType) example_chain = (Ok (example_block TxNormalType), s') \<and>
     fst (ValidateDoubleSpend example_node (NormalTx (example_plain_tx TxNormalType)) 3 s') \<noteq> Ok () \<and>
     fst (ValidateDoubleSpend example_node (CustomTokenTx (new_token_tx (example_plain_tx TxCustomTokenType)
       (new_token_data (example_params 0 0)))) 3 s') = Ok ()"
proof -
  let ?b = "example_block TxNormalType" and ?u = "new_token_tx (example_plain_tx TxCustomTokenType) (new_token_data (example_params 0 0))"
  obtain h where h: "Block_Hash (ce_PS example_node) ?b = Some h" using example_hash by blast
  obtain s' where s': "ConnectBlock example_node ?b example_chain = (Ok ?b, s')" using example_connected by blast
  have n: "[7] \<in> set (Tx_ListNullifiers (example_plain_tx TxNormalType))" "[7] \<in> set (block_nullifiers ?b)"
    by (simp_all add: block_nullifiers_def example_parts Tx_ListNullifiers_def) (simp_all add: example_plain_tx_def)
  have t: "tx_Type (example_plain_tx ty) = ty" "ct_Tx ?u = example_plain_tx TxCustomTokenType" for ty
    by (simp_all add: example_plain_tx_def new_token_tx_def)
  have "(fst (ValidateDoubleSpend example_node (NormalTx (example_plain_tx TxNormalType)) 3 s') = Ok () \<longleftrightarrow>
      (\<forall>n \<in> set (Tx_ListNullifiers (example_plain_tx TxNormalType)). n \<notin> set (slices_at (map_of (ch_db example_chain)) nullifiersPrefix 3) \<and>
        n \<notin> set (block_nullifiers ?b))) \<and> fst (ValidateDoubleSpend example_node (CustomTokenTx ?u) 3 s') = Ok ()"
    by (rule connected_nullifiers_refused [OF _ _ _ h _ _ s', where view = map_of and invar = al_sorted])
      (simp_all add: example_parts adb.kv_store_axioms t, simp add: example_header_def)
  then show ?thesis using s' n by blast
qed

text \<open>No loan withdrawal is ever valid, because the request and the response found for the
  loan are not looked at: the withdrawal itself is asserted to be a request or a response. No dividend
  payout is valid either: its proposal has no token, and the node panics.\<close>

theorem withdrawals_and_dividends_refused:
  "fst (ValidateTxLoanWithdraw V tx c s) \<noteq> Ok () \<and> fst (ValidateTxDividendPayout V tx c s) \<noteq> Ok () \<and>
   ValidateTxDividendPayout V (DividendPayoutTx d) c s = (Panic, s)"
proof -
  have "fst (ValidateTxDividendPayout V tx c s) \<noteq> Ok ()"
    by (cases tx) (simp_all add: dividend_panics, simp_all add: ValidateTxDividendPayout_def bfail_def)
  then show ?thesis using loan_withdraw_refused dividend_panics by blast
qed

end
