(* ===== verification/Mempool.thy ===== *)
theory Mempool
  imports ChainValidation FeeEstimator
begin

text \<open>
  The pool of pending transactions (\<open>mempool/mempool.go\<close>, \<open>policy.go\<close>, \<open>error.go\<close>). The state is the
  record \<open>TxPool\<close>; its maps are association lists, and the order in which Go ranges over the pool is an
  argument, as are the readings of the clock. An operation that reads the chain is a function of the
  chain's state. Every public operation holds the lock of the pool, so that each is one step.
\<close>

subsection \<open>Errors and state\<close>

datatype mempool_code = RejectDuplicateTx | RejectInvalidTx | RejectSansityTx | RejectSalaryTx | RejectVersion
  | RejectInvalidFee | CanNotCheckDoubleSpend

fun mempool_ErrCode :: "mempool_code \<Rightarrow> int" where
  "mempool_ErrCode RejectDuplicateTx = -1000"
| "mempool_ErrCode RejectInvalidTx = -1001"
| "mempool_ErrCode RejectSansityTx = -1002"
| "mempool_ErrCode RejectSalaryTx = -1003"
| "mempool_ErrCode RejectInvalidFee = -1004"
| "mempool_ErrCode RejectVersion = -1005"
| "mempool_ErrCode CanNotCheckDoubleSpend = -1006"

text \<open>The error wrapped in a \<open>MempoolTxError\<close> is not visible to its users and left out.\<close>

datatype mp_error = MempoolTxError mempool_code | Plain string | ChainErr bc_error

record pool_TxDesc =
  pd_Desc :: TxDesc
  StartingPriority :: int

record TxPool =
  lastUpdated :: int
  pool :: "(hash \<times> pool_TxDesc) list"
  poolNullifiers :: "(hash \<times> bytes list) list"
  FeeEstimators :: "(byte \<rightharpoonup> FeeEstimator) option"

record 'd pool_env =
  pl_valid :: "'d valid_env"
  MaxTxVersion :: int
  pool_order :: "(hash \<times> pool_TxDesc) list \<Rightarrow> pool_TxDesc list"

abbreviation pl_chain :: "'d pool_env \<Rightarrow> 'd chain_env" where
  "pl_chain P \<equiv> ve_chain (pl_valid P)"

record clock =
  now_sanity :: int
  now_added :: int
  now_updated :: int

type_synonym ('d, 'a) mpm = "'d chain \<Rightarrow> (mp_error, 'a) res \<times> 'd chain"

definition mret :: "'a \<Rightarrow> ('d, 'a) mpm" where
  "mret a = (\<lambda>s. (Ok a, s))"

definition mfail :: "mp_error \<Rightarrow> ('d, 'a) mpm" where
  "mfail e = (\<lambda>s. (Err e, s))"

definition mpanic :: "('d, 'a) mpm" where
  "mpanic = (\<lambda>s. (Panic, s))"

definition mbind :: "('d, 'a) mpm \<Rightarrow> ('a \<Rightarrow> ('d, 'b) mpm) \<Rightarrow> ('d, 'b) mpm" where
  "mbind m f = (\<lambda>s. case m s of (Ok a, s') \<Rightarrow> f a s' | (Err e, s') \<Rightarrow> (Err e, s') | (Panic, s') \<Rightarrow> (Panic, s'))"

definition of_chain :: "('d, 'a) bcm \<Rightarrow> ('d, 'a) mpm" where
  "of_chain m = (\<lambda>s. case m s of (r, s') \<Rightarrow> (map_err ChainErr r, s'))"

definition of_option :: "'a option \<Rightarrow> ('d, 'a) mpm" where
  "of_option x = (case x of None \<Rightarrow> mpanic | Some a \<Rightarrow> mret a)"

definition TxPool_Init :: "(byte \<rightharpoonup> FeeEstimator) option \<Rightarrow> int \<Rightarrow> TxPool" where
  "TxPool_Init estimators updated = \<lparr>lastUpdated = updated, pool = [], poolNullifiers = [], FeeEstimators = estimators\<rparr>"

definition isTxInPool :: "TxPool \<Rightarrow> hash \<Rightarrow> bool" where
  "isTxInPool tp h = (map_of (pool tp) h \<noteq> None)"

text \<open>A normal transaction is shown to the estimator of its chain; a chain without one is a nil pointer.\<close>

definition observe_fee :: "(byte \<rightharpoonup> FeeEstimator) \<Rightarrow> hash \<Rightarrow> TxDesc \<Rightarrow> Tx \<Rightarrow> (byte \<rightharpoonup> FeeEstimator) option" where
  "observe_fee fes h d t =
     (case GetTxSenderChain (AddressLastByte t) of
        Ok chainId \<Rightarrow>
          map_option (\<lambda>ef. fes(chainId \<mapsto> ObserveTransaction ef h (GetTxVirtualSize (td_Tx d)) (td_Fee d) (td_Height d))) (fes chainId)
      | Err _ \<Rightarrow> Some fes
      | Panic \<Rightarrow> None)"

definition addTx :: "proof_string \<Rightarrow> clock \<Rightarrow> TxPool \<Rightarrow> transaction \<Rightarrow> int \<Rightarrow> u64 \<Rightarrow> (pool_TxDesc \<times> TxPool) option" where
  "addTx PS now tp tx height fee =
     (case tx_Hash PS tx of
        None \<Rightarrow> None
      | Some h \<Rightarrow>
          let d = \<lparr>td_Tx = tx, Added = now_added now, td_Height = height, td_Fee = fee, td_FeePerKB = 0\<rparr>;
              txD = \<lparr>pd_Desc = d, StartingPriority = 1\<rparr>;
              tp' = tp\<lparr>pool := map_put h txD (pool tp), poolNullifiers := map_put h (ListNullifiers tx) (poolNullifiers tp),
                       lastUpdated := now_updated now\<rparr>
          in if GetType tx = TxNormalType then
               (case FeeEstimators tp of
                  None \<Rightarrow> Some (txD, tp')
                | Some fes \<Rightarrow>
                    (case tx of
                       NormalTx t \<Rightarrow> map_option (\<lambda>fes'. (txD, tp'\<lparr>FeeEstimators := Some fes'\<rparr>)) (observe_fee fes h d t)
                     | _ \<Rightarrow> None))
             else Some (txD, tp'))"

definition removeTx :: "proof_string \<Rightarrow> int \<Rightarrow> TxPool \<Rightarrow> transaction \<Rightarrow> (mp_error, unit) res \<times> TxPool" where
  "removeTx PS now tp tx =
     (case tx_Hash PS tx of
        None \<Rightarrow> (Panic, tp)
      | Some h \<Rightarrow>
          if isTxInPool tp h
          then (Ok (), tp\<lparr>pool := filter (\<lambda>e. fst e \<noteq> h) (pool tp), lastUpdated := now\<rparr>)
          else (Err (Plain ''Not exist tx in pool''), tp))"

subsection \<open>Policy\<close>

definition CheckTxVersion :: "int \<Rightarrow> transaction \<Rightarrow> bool option" where
  "CheckTxVersion maxVersion tx =
     (if GetType tx = TxSalaryType \<or> GetType tx = TxNormalType then
        (case tx of
           NormalTx temp \<Rightarrow> Some (if Version temp > maxVersion then False else True)
         | _ \<Rightarrow> None)
      else Some True)"

definition calcMinFeeTxAccepted :: "'d chain \<Rightarrow> u64 option" where
  "calcMinFeeTxAccepted s = map_option (\<lambda>b. BasicSalary (gc_GOVParams (hd_GOVConstitution (Header b)))) (best_block s 0)"

definition calcMinFeeTxCustomTokenAccepted :: "'d chain \<Rightarrow> u64 option" where
  "calcMinFeeTxCustomTokenAccepted s = map_option (\<lambda>b. BasicSalary (gc_GOVParams (hd_GOVConstitution (Header b)))) (best_block s 0)"

definition Policy_CheckTransactionFee :: "Tx \<Rightarrow> ('d, unit) mpm" where
  "Policy_CheckTransactionFee tx = (\<lambda>s.
     case calcMinFeeTxAccepted s of
       None \<Rightarrow> (Panic, s)
     | Some minFee \<Rightarrow> (if Fee tx < minFee then Err (MempoolTxError RejectInvalidFee) else Ok (), s))"

definition CheckCustomTokenTransactionFee :: "TxCustomToken \<Rightarrow> ('d, unit) mpm" where
  "CheckCustomTokenTransactionFee tx = (\<lambda>s.
     case calcMinFeeTxCustomTokenAccepted s of
       None \<Rightarrow> (Panic, s)
     | Some minFee \<Rightarrow> (if Fee (ct_Tx tx) < minFee then Err (MempoolTxError RejectInvalidFee) else Ok (), s))"

definition CheckTransactionFee :: "transaction \<Rightarrow> ('d, u64) mpm" where
  "CheckTransactionFee tx =
     (if IsSalaryTx tx then mret 0
      else if GetType tx = TxCustomTokenType then
        (case tx of
           CustomTokenTx t \<Rightarrow> mbind (CheckCustomTokenTransactionFee t) (\<lambda>_. mret (Fee (ct_Tx t)))
         | _ \<Rightarrow> mpanic)
      else if GetType tx = TxNormalType then
        (case tx of
           NormalTx t \<Rightarrow> mbind (Policy_CheckTransactionFee t) (\<lambda>_. mret (Fee t))
         | _ \<Rightarrow> mpanic)
      else mfail (Plain ''Wrong tx type''))"


subsection \<open>Sanity\<close>

text \<open>The two results of the Go functions: the verdict, and the error or nil.\<close>

definition sane :: "bool \<times> string option" where
  "sane = (True, None)"

definition wrong :: "string \<Rightarrow> bool \<times> string option" where
  "wrong msg = (False, Some msg)"

definition two_of_32 :: "bytes list \<Rightarrow> bool" where
  "two_of_32 bs = (length bs = 2 \<and> length (bs ! 0) = 32 \<and> length (bs ! 1) = 32)"

definition proof_sizes :: "PHGRProof \<Rightarrow> bool" where
  "proof_sizes p =
     (length (G_A p) = 33 \<and> length (G_APrime p) = 33 \<and> length (G_B p) = 65 \<and> length (G_BPrime p) = 33 \<and>
      length (G_C p) = 33 \<and> length (G_CPrime p) = 33 \<and> length (G_K p) = 33 \<and> length (G_H p) = 33)"

fun sane_descs :: "JoinSplitDesc list \<Rightarrow> bool \<times> string option" where
  "sane_descs [] = sane"
| "sane_descs (desc # descs) =
     (if length (Anchor desc) \<noteq> 2 then wrong ''Wrong tx desc's anchor''
      else if length (EphemeralPubKey desc) \<noteq> unat EphemeralKeyLength then wrong ''Wrong tx desc's ephemeralpubkey''
      else if length (HSigSeed desc) \<noteq> 32 then wrong ''Wrong tx desc's hsigseed''
      else if \<not> two_of_32 (Nullifiers desc) then wrong ''Wrong tx desc's nullifiers''
      else if \<not> two_of_32 (Commitments desc) then wrong ''Wrong tx desc's commitments''
      else if \<not> two_of_32 (Vmacs desc) then wrong ''Wrong tx desc's vmacs''
      else if Proof desc = None \<and> length (elems (desc_Note desc)) = 0 then wrong ''Wrong tx desc's proof''
      else if (case Proof desc of None \<Rightarrow> False | Some p \<Rightarrow> \<not> proof_sizes p) then wrong ''Wrong tx desc's proof''
      else if Proof desc \<noteq> None \<and> length (EncryptedData desc) \<noteq> 2 then wrong ''Wrong tx desc's encryptedData''
      else if Reward desc \<noteq> 0 then wrong ''Wrong tx desc's reward''
      else sane_descs descs)"

definition validateSanityNormalTxData :: "int \<Rightarrow> Tx \<Rightarrow> bool \<times> string option" where
  "validateSanityNormalTxData now txN =
     (if Version txN > TxVersion then wrong ''Wrong tx version''
      else if LockTime txN > now then wrong ''Wrong tx locktime''
      else if length (tx_Type txN) \<noteq> 1 \<or> (tx_Type txN \<noteq> TxNormalType \<and> tx_Type txN \<noteq> TxSalaryType) then wrong ''Wrong tx type''
      else if length (elems (JSPubKey txN)) \<noteq> 64 then wrong ''Wrong tx jspubkey''
      else if length (elems (JSSig txN)) \<noteq> 64 then wrong ''Wrong tx jssig''
      else sane_descs (Descs txN))"

fun sane_vins :: "TxTokenVin list \<Rightarrow> bool \<times> string option" where
  "sane_vins [] = sane"
| "sane_vins (vin # vins) =
     (if Signature vin = [] then wrong ''Wrong signature''
      else if length (Pk (vin_PaymentAddress vin)) = 0 then wrong ''Wrong input transaction''
      else if hash_String (vin_TxCustomTokenID vin) = hash_String zero_hash then wrong ''Wrong input transaction''
      else sane_vins vins)"

fun sane_vouts :: "TxTokenVout list \<Rightarrow> bool \<times> string option" where
  "sane_vouts [] = sane"
| "sane_vouts (vout # vouts) =
     (if length (Pk (vout_PaymentAddress vout)) = 0 then wrong ''Wrong input transaction''
      else if vout_Value vout = 0 then wrong ''Wrong input transaction''
      else sane_vouts vouts)"

definition and_sane :: "bool \<times> string option \<Rightarrow> bool \<times> string option \<Rightarrow> bool \<times> string option" where
  "and_sane p q = (if snd p \<noteq> None \<or> \<not> fst p then p else q)"

definition validateSanityCustomTokenTxData :: "int \<Rightarrow> TxCustomToken \<Rightarrow> bool \<times> string option" where
  "validateSanityCustomTokenTxData now t =
     and_sane (validateSanityNormalTxData now (ct_Tx t))
       (and_sane (sane_vins (Vins (ct_TxTokenData t))) (sane_vouts (elems (Vouts (ct_TxTokenData t)))))"

text \<open>A candidate key of the wrong length is refused without an error. The two board votes have the same check.\<close>

definition validateSanityVoteBoardTx :: "int \<Rightarrow> TxVoteBoard \<Rightarrow> bool \<times> string option" where
  "validateSanityVoteBoardTx now voteBoard =
     and_sane (validateSanityCustomTokenTxData now (vb_TxCustomToken voteBoard))
       (if length (CandidatePubKey voteBoard) \<noteq> 33 then (False, None) else sane)"

definition ValidateSanityData :: "int \<Rightarrow> transaction \<Rightarrow> (bool \<times> string option) option" where
  "ValidateSanityData now tx =
     (if GetType tx = TxNormalType \<or> GetType tx = TxSalaryType then
        (case tx of NormalTx t \<Rightarrow> Some (validateSanityNormalTxData now t) | _ \<Rightarrow> None)
      else if GetType tx = TxCustomTokenType then
        (case tx of CustomTokenTx t \<Rightarrow> Some (validateSanityCustomTokenTxData now t) | _ \<Rightarrow> None)
      else if GetType tx = TxVoteDCBBoardType then
        (case tx of VoteDCBBoardTx t \<Rightarrow> Some (validateSanityVoteBoardTx now t) | _ \<Rightarrow> None)
      else if GetType tx = TxVoteGOVBoardType then
        (case tx of VoteGOVBoardTx t \<Rightarrow> Some (validateSanityVoteBoardTx now t) | _ \<Rightarrow> None)
      else Some (wrong ''Wrong tx type''))"

subsection \<open>Validation against the pool\<close>

text \<open>A nullifier that an entry of \<open>poolNullifiers\<close> does \<^emph>\<open>not\<close> contain is reported as a double spend.\<close>

definition ValidateDoubleSpendTxWithCurrentMempool :: "TxPool \<Rightarrow> Tx \<Rightarrow> (mp_error, unit) res" where
  "ValidateDoubleSpendTxWithCurrentMempool tp txNormal =
     (if list_ex (\<lambda>temp1. list_ex (\<lambda>desc. list_ex (\<lambda>nullifier. \<not> SliceBytesExists (snd temp1) nullifier) (Nullifiers desc)) (Descs txNormal))
           (poolNullifiers tp)
      then Err (Plain ''Double spend'') else Ok ())"

fun tokens_in_pool :: "TxCustomToken \<Rightarrow> pool_TxDesc list \<Rightarrow> (mp_error, unit) res" where
  "tokens_in_pool t [] = Ok ()"
| "tokens_in_pool t (txInMem # txsInMem) =
     and_then (map_err ChainErr (ValidateDoubleSpendCustomTokenOnTx t (td_Tx (pd_Desc txInMem)))) (\<lambda>_. tokens_in_pool t txsInMem)"

definition validateTxCustomTokenInPool :: "'d pool_env \<Rightarrow> TxPool \<Rightarrow> transaction \<Rightarrow> (mp_error, unit) res" where
  "validateTxCustomTokenInPool P tp tx =
     (case tx of
        CustomTokenTx txCustomToken \<Rightarrow>
          and_then (ValidateDoubleSpendTxWithCurrentMempool tp (ct_Tx txCustomToken)) (\<lambda>_.
            tokens_in_pool txCustomToken (pool_order P (pool tp)))
      | _ \<Rightarrow> Panic)"

definition ValidateTxWithCurrentMempool :: "'d pool_env \<Rightarrow> TxPool \<Rightarrow> transaction \<Rightarrow> (mp_error, unit) res" where
  "ValidateTxWithCurrentMempool P tp tx =
     (if GetType tx = TxNormalType then
        (case tx of NormalTx t \<Rightarrow> ValidateDoubleSpendTxWithCurrentMempool tp t | _ \<Rightarrow> Panic)
      else if GetType tx = TxSalaryType then
        Err (Plain ''Can not receive a salary tx from other node, this is a violation'')
      else if GetType tx = TxCustomTokenType then validateTxCustomTokenInPool P tp tx
      else if GetType tx = TxVoteDCBBoardType then
        (case tx of VoteDCBBoardTx t \<Rightarrow> validateTxCustomTokenInPool P tp (CustomTokenTx (vb_TxCustomToken t)) | _ \<Rightarrow> Panic)
      else if GetType tx = TxVoteGOVBoardType then
        (case tx of VoteGOVBoardTx t \<Rightarrow> validateTxCustomTokenInPool P tp (CustomTokenTx (vb_TxCustomToken t)) | _ \<Rightarrow> Panic)
      else Err (Plain ''Wrong tx type''))"

subsection \<open>Validation against the chain\<close>

text \<open>Checking the signatures of a board takes them out of the transaction: the result is the transaction
  afterwards. The board votes are checked on a copy.\<close>

definition ValidateTxCustomTokenBlockChain :: "'d pool_env \<Rightarrow> transaction \<Rightarrow> byte \<Rightarrow> ('d, transaction) mpm" where
  "ValidateTxCustomTokenBlockChain P tx chainID = (\<lambda>s.
     case VerifyCustomTokenSigns (pl_valid P) s tx of
       (None, tx') \<Rightarrow> (Panic, s)
     | (Some ok, tx') \<Rightarrow>
         (if \<not> ok then mfail (Plain ''Custom token signs validation is not passed.'')
          else mbind (of_chain (ValidateDoubleSpend (pl_chain P) tx' chainID)) (\<lambda>_.
               case tx' of
                 CustomTokenTx t \<Rightarrow> mbind (of_chain (ValidateDoubleSpendCustomToken (pl_valid P) t)) (\<lambda>_. mret tx')
               | _ \<Rightarrow> mpanic)) s)"

definition ValidateTxWithBlockChain :: "'d pool_env \<Rightarrow> transaction \<Rightarrow> byte \<Rightarrow> ('d, transaction) mpm" where
  "ValidateTxWithBlockChain P tx chainID =
     (let E = pl_chain P; V = pl_valid P; keep = (\<lambda>m. mbind (of_chain m) (\<lambda>_. mret tx)) in
      if GetType tx = TxNormalType then keep (ValidateDoubleSpend E tx chainID)
      else if GetType tx = TxSalaryType then mret tx
      else if GetType tx = TxCustomTokenType then ValidateTxCustomTokenBlockChain P tx chainID
      else if GetType tx = TxVoteDCBBoardType then
        (case tx of
           VoteDCBBoardTx t \<Rightarrow> mbind (ValidateTxCustomTokenBlockChain P (CustomTokenTx (vb_TxCustomToken t)) chainID) (\<lambda>_. mret tx)
         | _ \<Rightarrow> mpanic)
      else if GetType tx = TxVoteGOVBoardType then
        (case tx of
           VoteGOVBoardTx t \<Rightarrow> mbind (ValidateTxCustomTokenBlockChain P (CustomTokenTx (vb_TxCustomToken t)) chainID) (\<lambda>_. mret tx)
         | _ \<Rightarrow> mpanic)
      else if GetType tx = TxLoanRequestType then keep (ValidateTxLoanRequest tx chainID)
      else if GetType tx = TxLoanResponseType then keep (ValidateTxLoanResponse E tx chainID)
      else if GetType tx = TxLoanPaymentType then keep (ValidateTxLoanPayment E tx chainID)
      else if GetType tx = TxLoanWithdrawType then keep (ValidateTxLoanWithdraw V tx chainID)
      else if GetType tx = TxDividendPayoutType then keep (ValidateTxDividendPayout V tx chainID)
      else if GetType tx = TxBuySellDCBRequestType then keep (ValidateTxBuyRequest tx chainID)
      else if GetType tx \<in> {TxSubmitDCBProposalType, TxAcceptDCBProposalType, TxVoteDCBProposalType,
                            TxSubmitGOVProposalType, TxAcceptGOVProposalType, TxVoteGOVProposalType}
      then keep (ValidateTxProposal tx chainID)
      else mfail (Plain ''Wrong tx type''))"

subsection \<open>Validation of the transaction by itself\<close>

fun list_utxos :: "'d chain_env \<Rightarrow> TxTokenVin list \<Rightarrow> (hash \<times> TxTokenVout list) list \<Rightarrow> ('d, (hash \<times> TxTokenVout list) list option) bcm" where
  "list_utxos E [] data = bret (Some data)"
| "list_utxos E (vin # vins) data =
     bbind (btry (GetTransactionByHash E (vin_TxCustomTokenID vin))) (\<lambda>r.
       case r of
         Inl e \<Rightarrow> bret None
       | Inr (_, _, _, utxo) \<Rightarrow>
           (case utxo of
              CustomTokenTx u \<Rightarrow> list_utxos E vins (map_put (vin_TxCustomTokenID vin) (elems (Vouts (ct_TxTokenData u))) data)
            | _ \<Rightarrow> bpanic))"

text \<open>The second result is the transaction with the outputs it spends.\<close>

definition GetListUTXOForCustomToken :: "'d chain_env \<Rightarrow> TxCustomToken \<Rightarrow> ('d, bool \<times> TxCustomToken) bcm" where
  "GetListUTXOForCustomToken E t =
     bbind (list_utxos E (Vins (ct_TxTokenData t)) []) (\<lambda>r.
       case r of
         None \<Rightarrow> bret (False, t)
       | Some data \<Rightarrow> if data = [] then bret (False, t) else bret (True, SetListUtxo t data))"

definition token_by_itself :: "'d pool_env \<Rightarrow> TxCustomToken \<Rightarrow> ('d, bool \<times> TxCustomToken) mpm" where
  "token_by_itself P t =
     mbind (of_chain (GetListUTXOForCustomToken (pl_chain P) t)) (\<lambda>(ok, t').
       if \<not> ok then mret (False, t')
       else mbind (of_option (TxCustomToken_ValidateTransaction (ve_ecdsa (pl_valid P)) t')) (\<lambda>v. mret (v, t')))"

text \<open>\<open>Validate\<close> of a board vote is true.\<close>

definition ValidateTxByItSelf :: "'d pool_env \<Rightarrow> transaction \<Rightarrow> ('d, bool \<times> transaction) mpm" where
  "ValidateTxByItSelf P tx =
     (if GetType tx = TxCustomTokenType then
        (case tx of
           CustomTokenTx t \<Rightarrow> mbind (token_by_itself P t) (\<lambda>(v, t'). mret (v, CustomTokenTx t'))
         | _ \<Rightarrow> mpanic)
      else if GetType tx = TxVoteDCBBoardType then
        (case tx of
           VoteDCBBoardTx t \<Rightarrow> mbind (token_by_itself P (vb_TxCustomToken t)) (\<lambda>(v, _). mret (v \<and> True, tx))
         | _ \<Rightarrow> mpanic)
      else if GetType tx = TxVoteGOVBoardType then
        (case tx of
           VoteGOVBoardTx t \<Rightarrow> mbind (token_by_itself P (vb_TxCustomToken t)) (\<lambda>(v, _). mret (v \<and> True, tx))
         | _ \<Rightarrow> mpanic)
      else mbind (of_option (ValidateTransaction (ve_ecdsa (pl_valid P)) tx)) (\<lambda>v. mret (v, tx)))"

subsection \<open>Accepting a transaction\<close>

text \<open>The result is the hash, the description in the pool and the pool afterwards; an error leaves the pool as it was.\<close>

definition maybeAcceptTransaction :: "'d pool_env \<Rightarrow> clock \<Rightarrow> TxPool \<Rightarrow> transaction \<Rightarrow> ('d, hash \<times> pool_TxDesc \<times> TxPool) mpm" where
  "maybeAcceptTransaction P now tp tx =
     mbind (of_option (tx_Hash (ce_PS (pl_chain P)) tx)) (\<lambda>txHash.
     mbind (\<lambda>s. (map_err (\<lambda>_. Plain ''sender chain'') (GetTxSenderChain (GetSenderAddrLastByte tx)), s)) (\<lambda>chainID.
     mbind (\<lambda>s. of_option (best_block s (unat chainID)) s) (\<lambda>best.
     mbind (of_option (CheckTxVersion (MaxTxVersion P) tx)) (\<lambda>ok.
     if \<not> ok then mfail (MempoolTxError RejectVersion) else
     mbind (CheckTransactionFee tx) (\<lambda>txFee.
     mbind (\<lambda>s. (ValidateTxWithCurrentMempool P tp tx, s)) (\<lambda>_.
     mbind (ValidateTxWithBlockChain P tx chainID) (\<lambda>tx1.
     if isTxInPool tp txHash then mfail (MempoolTxError RejectDuplicateTx)
     else if IsSalaryTx tx1 then mfail (MempoolTxError RejectSalaryTx) else
     mbind (of_option (ValidateSanityData (now_sanity now) tx1)) (\<lambda>(validate, errS).
     if \<not> validate then (if errS = None then mpanic else mfail (MempoolTxError RejectSansityTx)) else
     mbind (ValidateTxByItSelf P tx1) (\<lambda>(validate, tx2).
     if \<not> validate then mfail (MempoolTxError RejectInvalidTx) else
     mbind (of_option (addTx (ce_PS (pl_chain P)) now tp tx2 (hd_Height (Header best)) txFee)) (\<lambda>(txD, tp').
     mret (txHash, txD, tp')))))))))))"

definition MaybeAcceptTransaction :: "'d pool_env \<Rightarrow> clock \<Rightarrow> transaction \<Rightarrow> TxPool \<times> 'd chain \<Rightarrow>
    (mp_error, hash \<times> pool_TxDesc) res \<times> TxPool \<times> 'd chain" where
  "MaybeAcceptTransaction P now tx = (\<lambda>(tp, s).
     case maybeAcceptTransaction P now tp tx s of
       (Ok (h, d, tp'), s') \<Rightarrow> (Ok (h, d), tp', s')
     | (Err e, s') \<Rightarrow> (Err e, tp, s')
     | (Panic, s') \<Rightarrow> (Panic, tp, s'))"

definition RemoveTx :: "proof_string \<Rightarrow> int \<Rightarrow> TxPool \<Rightarrow> transaction \<Rightarrow> (mp_error, unit) res \<times> TxPool" where
  "RemoveTx PS now tp tx = removeTx PS now tp tx"

subsection \<open>Looking at the pool\<close>

definition GetTx :: "TxPool \<Rightarrow> hash \<Rightarrow> (mp_error, transaction) res" where
  "GetTx tp txHash =
     (case map_of (pool tp) txHash of
        Some txDesc \<Rightarrow> Ok (td_Tx (pd_Desc txDesc))
      | None \<Rightarrow> Err (Plain ''transaction is not in the pool''))"

definition MiningDescs :: "'d pool_env \<Rightarrow> TxPool \<Rightarrow> TxDesc list" where
  "MiningDescs P tp = map pd_Desc (pool_order P (pool tp))"

definition Count :: "TxPool \<Rightarrow> nat" where
  "Count tp = length (pool tp)"

definition Size :: "TxPool \<Rightarrow> u64" where
  "Size tp = sum_list (map (\<lambda>e. GetTxVirtualSize (td_Tx (pd_Desc (snd e)))) (pool tp))"

definition MaxFee :: "TxPool \<Rightarrow> u64" where
  "MaxFee tp = foldl (\<lambda>fee e. if td_Fee (pd_Desc (snd e)) > fee then td_Fee (pd_Desc (snd e)) else fee) 0 (pool tp)"

definition LastUpdated :: "TxPool \<Rightarrow> int" where
  "LastUpdated tp = lastUpdated tp"

definition HaveTransaction :: "TxPool \<Rightarrow> hash \<Rightarrow> bool" where
  "HaveTransaction tp h = isTxInPool tp h"

definition ListTxs :: "'d pool_env \<Rightarrow> TxPool \<Rightarrow> string list option" where
  "ListTxs P tp = map_option (map hash_String) (those (map (\<lambda>d. tx_Hash (ce_PS (pl_chain P)) (td_Tx (pd_Desc d))) (pool_order P (pool tp))))"


subsection \<open>What the pool accepts\<close>

lemma mbind_OkE:
  assumes "mbind m f s = (Ok b, s'')"
  obtains a s' where "m s = (Ok a, s')" "f a s' = (Ok b, s'')"
  using assms by (cases "m s"; cases "fst (m s)") (auto simp: mbind_def)

lemma of_option_Ok [simp]: "of_option x s = (Ok a, s') \<longleftrightarrow> x = Some a \<and> s' = s"
  by (cases x) (auto simp: of_option_def mpanic_def mret_def)

lemma mret_Ok [simp]: "mret b s = (Ok a, s') \<longleftrightarrow> a = b \<and> s' = s"
  by (auto simp: mret_def)

lemma mfail_not_Ok [simp]: "mfail e s \<noteq> (Ok a, s')" "mpanic s \<noteq> (Ok a, s')"
  by (simp_all add: mfail_def mpanic_def)

lemma pool_types:
  "TxVoteDCBBoardType = ''vbd''" "TxVoteGOVBoardType = ''vbg''"
  by (simp_all add: TxVoteDCBBoardType_def TxVoteGOVBoardType_def)

lemma fee_Ok:
  assumes "CheckTransactionFee tx s = (Ok fee, s')"
  shows "s' = s \<and> (IsSalaryTx tx \<or> (\<exists>t. tx = CustomTokenTx t \<and> tx_Type (ct_Tx t) = TxCustomTokenType) \<or>
    (\<exists>t m. tx = NormalTx t \<and> tx_Type t = TxNormalType \<and> calcMinFeeTxAccepted s = Some m \<and> m \<le> Fee t \<and> fee = Fee t))"
proof (cases "IsSalaryTx tx")
  case False
  note run = assms [unfolded CheckTransactionFee_def, simplified False if_False]
  show ?thesis
  proof (cases "GetType tx = TxCustomTokenType")
    case True
    then obtain t where t: "tx = CustomTokenTx t" using run by (cases tx) simp_all
    with True run show ?thesis
      by (auto simp: CheckCustomTokenTransactionFee_def Tx_GetType_def elim!: mbind_OkE split: option.splits)
  next
    case notTok: False
    then have ty: "GetType tx = TxNormalType" using run by (auto split: if_splits)
    then obtain t where t: "tx = NormalTx t" using run notTok by (cases tx) simp_all
    with run ty notTok show ?thesis
      by (auto simp: Policy_CheckTransactionFee_def Tx_GetType_def elim!: mbind_OkE split: option.splits if_splits)
  qed
qed (use assms in \<open>simp add: CheckTransactionFee_def\<close>)

lemma token_not_sane: "tx_Type (ct_Tx t) = TxCustomTokenType \<Longrightarrow> \<not> fst (validateSanityCustomTokenTxData now t)"
  by (simp add: validateSanityCustomTokenTxData_def and_sane_def validateSanityNormalTxData_def wrong_def type_names)

lemma verify_keeps_tx: "VerifyCustomTokenSigns V s (CustomTokenTx t) = (r, tx') \<Longrightarrow> \<exists>t'. tx' = CustomTokenTx t' \<and> ct_Tx t' = ct_Tx t"
  by (auto simp: VerifyCustomTokenSigns_def verifyByBoard_def verifySignatures_def Let_def split: if_splits option.splits prod.splits)

lemma token_chain_Ok:
  assumes "ValidateTxCustomTokenBlockChain P (CustomTokenTx t) c s = (Ok tx1, s')"
  shows "\<exists>t'. tx1 = CustomTokenTx t' \<and> ct_Tx t' = ct_Tx t"
proof -
  obtain r tx' where v: "VerifyCustomTokenSigns (pl_valid P) s (CustomTokenTx t) = (r, tx')" by (metis prod.exhaust)
  from verify_keeps_tx [OF v] obtain t' where t': "tx' = CustomTokenTx t'" "ct_Tx t' = ct_Tx t" by blast
  show ?thesis using assms t' v
    by (auto simp: ValidateTxCustomTokenBlockChain_def elim!: mbind_OkE split: option.splits if_splits)
qed

lemma salary_is_normal: "IsSalaryTx tx \<Longrightarrow> \<exists>t. tx = NormalTx t"
  by (cases tx) (simp_all add: IsSalaryTx_def split: if_splits)

lemma salary_in_pool:
  assumes "IsSalaryTx tx" and "ValidateTxWithCurrentMempool P tp tx = Ok ()"
  shows "\<exists>t. tx = NormalTx t \<and> tx_Type t = TxNormalType"
proof -
  obtain t where t: "tx = NormalTx t" using salary_is_normal [OF assms(1)] by blast
  then show ?thesis
    using assms(2) by (auto simp: ValidateTxWithCurrentMempool_def validateTxCustomTokenInPool_def Tx_GetType_def split: if_splits)
qed

lemma accept_steps:
  assumes "maybeAcceptTransaction P now tp tx s = (Ok (h, d, tp'), s')"
  shows "\<exists>c b fee s3 tx1 s4 v tx2.
    tx_Hash (ce_PS (pl_chain P)) tx = Some h \<and> GetTxSenderChain (GetSenderAddrLastByte tx) = Ok c \<and> best_block s (unat c) = Some b \<and>
    CheckTxVersion (MaxTxVersion P) tx = Some True \<and> CheckTransactionFee tx s = (Ok fee, s3) \<and> ValidateTxWithCurrentMempool P tp tx = Ok () \<and>
    ValidateTxWithBlockChain P tx c s3 = (Ok tx1, s4) \<and> \<not> isTxInPool tp h \<and> \<not> IsSalaryTx tx1 \<and>
    ValidateSanityData (now_sanity now) tx1 = Some (True, v) \<and> ValidateTxByItSelf P tx1 s4 = (Ok (True, tx2), s') \<and>
    addTx (ce_PS (pl_chain P)) now tp tx2 (hd_Height (Header b)) fee = Some (d, tp')"
  using assms unfolding maybeAcceptTransaction_def
  by (elim mbind_OkE) (auto simp: map_err_Ok_iff split: if_splits prod.splits elim!: mbind_OkE)

text \<open>Everything the pool knows of a transaction it has accepted.\<close>

lemma accepted:
  assumes "maybeAcceptTransaction P now tp tx s = (Ok (h, d, tp'), s')"
  shows "\<exists>t c b m. tx = NormalTx t \<and> tx_Type t = TxNormalType \<and> h = Tx_Hash (ce_PS (pl_chain P)) t \<and>
    GetTxSenderChain (AddressLastByte t) = Ok c \<and> best_block s (unat c) = Some b \<and>
    calcMinFeeTxAccepted s = Some m \<and> m \<le> Fee t \<and> Version t \<le> MaxTxVersion P \<and> \<not> isTxInPool tp h \<and>
    ValidateDoubleSpendTxWithCurrentMempool tp t = Ok () \<and> fst (ValidateDoubleSpend (pl_chain P) tx c s) = Ok () \<and>
    fst (validateSanityNormalTxData (now_sanity now) t) \<and>
    addTx (ce_PS (pl_chain P)) now tp tx (hd_Height (Header b)) (Fee t) = Some (d, tp')"
proof -
  obtain c b fee s3 tx1 s4 v tx2 where ver: "CheckTxVersion (MaxTxVersion P) tx = Some True" and 1:
    "tx_Hash (ce_PS (pl_chain P)) tx = Some h" "GetTxSenderChain (GetSenderAddrLastByte tx) = Ok c" "best_block s (unat c) = Some b"
    "CheckTransactionFee tx s = (Ok fee, s3)" "ValidateTxWithCurrentMempool P tp tx = Ok ()"
    "ValidateTxWithBlockChain P tx c s3 = (Ok tx1, s4)" "\<not> isTxInPool tp h" "\<not> IsSalaryTx tx1"
    "ValidateSanityData (now_sanity now) tx1 = Some (True, v)" "ValidateTxByItSelf P tx1 s4 = (Ok (True, tx2), s')"
    "addTx (ce_PS (pl_chain P)) now tp tx2 (hd_Height (Header b)) fee = Some (d, tp')"
    using accept_steps [OF assms] by (elim exE conjE) (rule that)
  have s3: "s3 = s" using fee_Ok [OF 1(4)] by simp
  have chain: "tx1 = tx" "fst (ValidateDoubleSpend (pl_chain P) tx c s) = Ok ()" if "GetType tx = TxNormalType"
    using 1(6) that s3 by (auto simp: ValidateTxWithBlockChain_def Let_def of_chain_def map_err_Ok_iff elim!: mbind_OkE split: prod.splits)
  have not_salary: "\<not> IsSalaryTx tx"
  proof
    assume sal: "IsSalaryTx tx"
    with salary_in_pool [OF this 1(5)] chain(1) 1(8) show False by (auto simp: Tx_GetType_def)
  qed
  have not_token: "\<not> (tx = CustomTokenTx t \<and> tx_Type (ct_Tx t) = TxCustomTokenType)" for t
  proof
    assume t: "tx = CustomTokenTx t \<and> tx_Type (ct_Tx t) = TxCustomTokenType"
    then have "ValidateTxCustomTokenBlockChain P (CustomTokenTx t) c s3 = (Ok tx1, s4)"
      using 1(6) by (simp add: ValidateTxWithBlockChain_def Let_def Tx_GetType_def type_names)
    then obtain t' where t': "tx1 = CustomTokenTx t'" "ct_Tx t' = ct_Tx t" using token_chain_Ok by blast
    then show False using 1(9) t token_not_sane [of t' "now_sanity now"]
      by (auto simp: ValidateSanityData_def Tx_GetType_def type_names)
  qed
  obtain t m where t: "tx = NormalTx t" "tx_Type t = TxNormalType" "calcMinFeeTxAccepted s = Some m" "m \<le> Fee t" "fee = Fee t"
    using fee_Ok [OF 1(4)] not_salary not_token by blast
  have ty: "GetType tx = TxNormalType" using t by (simp add: Tx_GetType_def)
  note tx1 = chain [OF ty]
  have "tx2 = tx" using 1(10) ty unfolding tx1(1)
    by (auto simp: ValidateTxByItSelf_def type_names pool_types elim!: mbind_OkE)
  then show ?thesis
    using 1(1,2,3,5,7,9,11) t tx1 ty ver
    by (auto simp: CheckTxVersion_def GetSenderAddrLastByte_def Tx_GetSenderAddrLastByte_def ValidateTxWithCurrentMempool_def ValidateSanityData_def
        Tx_GetType_def split: if_splits)
qed


lemma map_of_map_put [simp]: "map_of (map_put k v m) = (map_of m)(k \<mapsto> v)"
  by (induction m) (auto simp: map_put_def fun_eq_iff map_of_eq_None_iff split: option.splits)

lemma set_map_put: "set (map_put k v m) = {e \<in> set m. fst e \<noteq> k} \<union> {(k, v)}"
  by (auto simp: map_put_def)

lemma distinct_map_put: "distinct (map fst m) \<Longrightarrow> distinct (map fst (map_put k v m))"
  by (auto simp: map_put_def distinct_map_filter)

lemma double_spend_pool_iff:
  "ValidateDoubleSpendTxWithCurrentMempool tp t = Ok () \<longleftrightarrow>
     (\<forall>(h, ns) \<in> set (poolNullifiers tp). set (Tx_ListNullifiers t) \<subseteq> set ns)"
  by (simp add: ValidateDoubleSpendTxWithCurrentMempool_def list_ex_iff Tx_ListNullifiers_def split_beta subset_iff) blast

text \<open>The pool after a normal transaction was added.\<close>

lemma addTx_normal:
  assumes "addTx PS now tp (NormalTx t) height fee = Some (d, tp')" and "tx_Type t = TxNormalType"
  shows "td_Tx (pd_Desc d) = NormalTx t \<and> td_Fee (pd_Desc d) = fee \<and>
    pool tp' = map_put (Tx_Hash PS t) d (pool tp) \<and>
    poolNullifiers tp' = map_put (Tx_Hash PS t) (Tx_ListNullifiers t) (poolNullifiers tp) \<and>
    (FeeEstimators tp' = None \<and> FeeEstimators tp = None \<or>
     (\<exists>fes fes'. FeeEstimators tp = Some fes \<and> FeeEstimators tp' = Some fes' \<and> observe_fee fes (Tx_Hash PS t) (pd_Desc d) t = Some fes'))"
  using assms by (auto simp: addTx_def Let_def Tx_GetType_def ListNullifiers_def split: option.splits)

lemma addTx_succeeds:
  assumes "tx_Type t = TxNormalType" and "GetTxSenderChain (AddressLastByte t) = Ok c"
    and "\<And>fes. FeeEstimators tp = Some fes \<Longrightarrow> fes c \<noteq> None"
  shows "\<exists>d tp'. addTx PS now tp (NormalTx t) height fee = Some (d, tp')"
  using assms by (auto simp: addTx_def Let_def Tx_GetType_def observe_fee_def split: option.splits)

text \<open>A transaction that passes every check is accepted.\<close>

lemma accept_run:
  assumes ty: "tx_Type t = TxNormalType" and c: "GetTxSenderChain (AddressLastByte t) = Ok c"
    and b: "best_block s (unat c) = Some b" and ver: "Version t \<le> MaxTxVersion P"
    and fee: "calcMinFeeTxAccepted s = Some m" "m \<le> Fee t"
    and pool: "ValidateDoubleSpendTxWithCurrentMempool tp t = Ok ()"
    and chain: "ValidateDoubleSpend (pl_chain P) (NormalTx t) c s = (Ok (), s)"
    and new: "\<not> isTxInPool tp (Tx_Hash (ce_PS (pl_chain P)) t)" "\<not> IsSalaryTx (NormalTx t)"
    and sane: "validateSanityNormalTxData (now_sanity now) t = (True, v)"
    and fes: "\<And>fes. FeeEstimators tp = Some fes \<Longrightarrow> fes c \<noteq> None"
  shows "\<exists>d tp'. maybeAcceptTransaction P now tp (NormalTx t) s = (Ok (Tx_Hash (ce_PS (pl_chain P)) t, d, tp'), s)"
proof -
  obtain d tp' where add: "addTx (ce_PS (pl_chain P)) now tp (NormalTx t) (hd_Height (Header b)) (Fee t) = Some (d, tp')"
    using addTx_succeeds [OF ty c, of tp] fes by blast
  have fee': "CheckTransactionFee (NormalTx t) s = (Ok (Fee t), s)"
    using new(2) ty fee by (simp add: CheckTransactionFee_def Policy_CheckTransactionFee_def Tx_GetType_def type_names mbind_def mret_def)
  have bc: "ValidateTxWithBlockChain P (NormalTx t) c s = (Ok (NormalTx t), s)"
    using chain ty by (simp add: ValidateTxWithBlockChain_def Let_def of_chain_def mbind_def mret_def Tx_GetType_def)
  have self: "ValidateTxByItSelf P (NormalTx t) s = (Ok (True, NormalTx t), s)"
    using ty by (simp add: ValidateTxByItSelf_def Tx_GetType_def type_names pool_types mbind_def mret_def of_option_def Tx_ValidateTransaction_def)
  show ?thesis
    using add ty c b ver fee' pool bc self new sane
    by (simp add: maybeAcceptTransaction_def mbind_def of_option_def mret_def GetSenderAddrLastByte_def Tx_GetSenderAddrLastByte_def
        CheckTxVersion_def Tx_GetType_def ValidateTxWithCurrentMempool_def ValidateSanityData_def)
qed



subsection \<open>The pool as a state machine\<close>

text \<open>The chain may be in any state when the pool reads it: blocks arrive between the steps.\<close>

inductive pool_step :: "'d pool_env \<Rightarrow> TxPool \<Rightarrow> TxPool \<Rightarrow> bool" for P where
  maybe_accept: "MaybeAcceptTransaction P now tx (tp, s) = (r, tp', s') \<Longrightarrow> pool_step P tp tp'"
| remove: "RemoveTx (ce_PS (pl_chain P)) now tp tx = (r, tp') \<Longrightarrow> pool_step P tp tp'"

inductive_cases pool_stepE: "pool_step P tp tp'"

inductive pool_reachable :: "'d pool_env \<Rightarrow> TxPool \<Rightarrow> bool" for P where
  start: "(\<And>fes c ef. estimators = Some fes \<Longrightarrow> fes c = Some ef \<Longrightarrow> fe_ok ef) \<Longrightarrow> pool_reachable P (TxPool_Init estimators u)"
| step: "pool_reachable P tp \<Longrightarrow> pool_step P tp tp' \<Longrightarrow> pool_reachable P tp'"

text \<open>An entry of the pool: a sane normal transaction under its hash, with its fee and its nullifiers.\<close>

definition entry_ok :: "'d pool_env \<Rightarrow> TxPool \<Rightarrow> hash \<Rightarrow> pool_TxDesc \<Rightarrow> bool" where
  "entry_ok P tp h d \<longleftrightarrow>
     (\<exists>t. td_Tx (pd_Desc d) = NormalTx t \<and> tx_Type t = TxNormalType \<and> h = Tx_Hash (ce_PS (pl_chain P)) t \<and>
          td_Fee (pd_Desc d) = Fee t \<and> (\<exists>now. fst (validateSanityNormalTxData now t)) \<and>
          map_of (poolNullifiers tp) h = Some (Tx_ListNullifiers t))"

definition pool_ok :: "'d pool_env \<Rightarrow> TxPool \<Rightarrow> bool" where
  "pool_ok P tp \<longleftrightarrow> distinct (map fst (pool tp)) \<and> (\<forall>(h, d) \<in> set (pool tp). entry_ok P tp h d) \<and>
     (\<forall>fes c ef. FeeEstimators tp = Some fes \<longrightarrow> fes c = Some ef \<longrightarrow> fe_ok ef)"

lemma observe_fee_ok:
  "observe_fee fes h d t = Some fes' \<Longrightarrow> (\<And>c ef. fes c = Some ef \<Longrightarrow> fe_ok ef) \<Longrightarrow> fes' c = Some ef \<Longrightarrow> fe_ok ef"
  by (auto simp: observe_fee_def fe_ok_Observe split: res.splits if_splits)

lemma pool_ok_accept:
  assumes "pool_ok P tp" and "maybeAcceptTransaction P now tp tx s = (Ok (h, d, tp'), s')"
  shows "pool_ok P tp'"
proof -
  obtain t height where t: "tx = NormalTx t" "tx_Type t = TxNormalType" "h = Tx_Hash (ce_PS (pl_chain P)) t"
    "fst (validateSanityNormalTxData (now_sanity now) t)"
    "addTx (ce_PS (pl_chain P)) now tp (NormalTx t) height (Fee t) = Some (d, tp')"
    using accepted [OF assms(2)] by blast
  note add = addTx_normal [OF t(5,2)]
  have "entry_ok P tp' h d" using t add by (auto simp: entry_ok_def)
  moreover have "entry_ok P tp' k e" if "(k, e) \<in> set (pool tp)" "k \<noteq> h" for k e
    using that assms(1) add t(3) by (fastforce simp: pool_ok_def entry_ok_def)
  ultimately have "\<forall>(k, e) \<in> set (pool tp'). entry_ok P tp' k e"
    using add t(3) by (auto simp: set_map_put)
  moreover have "distinct (map fst (pool tp'))" using assms(1) add by (simp add: pool_ok_def distinct_map_put)
  moreover have "fe_ok ef" if "FeeEstimators tp' = Some fes" "fes c = Some ef" for fes c ef
    using that add assms(1) observe_fee_ok [of _ _ _ t fes c ef] by (auto simp: pool_ok_def)
  ultimately show ?thesis by (auto simp: pool_ok_def)
qed

lemma pool_ok_remove: "pool_ok P tp \<Longrightarrow> removeTx PS now tp tx = (r, tp') \<Longrightarrow> pool_ok P tp'"
  by (auto simp: removeTx_def pool_ok_def entry_ok_def distinct_map_filter split: option.splits if_splits)

lemma pool_ok_step: "pool_step P tp tp' \<Longrightarrow> pool_ok P tp \<Longrightarrow> pool_ok P tp'"
  by (erule pool_stepE)
    (auto simp: MaybeAcceptTransaction_def RemoveTx_def split: prod.splits res.splits dest: pool_ok_accept pool_ok_remove)

lemma reachable_ok: "pool_reachable P tp \<Longrightarrow> pool_ok P tp"
proof (induction rule: pool_reachable.induct)
  case (start estimators u)
  then show ?case by (simp add: pool_ok_def TxPool_Init_def)
next
  case (step tp tp')
  then show ?case using pool_ok_step by blast
qed

text \<open>Entries of \<open>poolNullifiers\<close> stay when a transaction leaves the pool.\<close>

lemma nullifiers_stay: "RemoveTx PS now tp tx = (r, tp') \<Longrightarrow> poolNullifiers tp' = poolNullifiers tp"
  by (auto simp: RemoveTx_def removeTx_def split: option.splits if_splits)

text \<open>A token transaction meets a normal transaction of the pool.\<close>

lemma token_panics:
  assumes "\<And>e. e \<in> set ds \<Longrightarrow> \<exists>t. td_Tx (pd_Desc e) = NormalTx t" and "ds \<noteq> []"
  shows "tokens_in_pool u ds = Panic"
  using assms by (cases ds) (force simp: ValidateDoubleSpendCustomTokenOnTx_def)+


lemma sane_not_salary: "fst (validateSanityNormalTxData now t) \<Longrightarrow> \<not> IsSalaryTx (NormalTx t)"
  by (auto simp: validateSanityNormalTxData_def IsSalaryTx_def wrong_def split: if_splits list.splits)

lemma ValidateDoubleSpend_state:
  assumes "kv_store (ce_lv E) view invar" and "kv_store.lists_good view invar (ch_db s)"
  shows "snd (ValidateDoubleSpend E (NormalTx t) c s) = s"
  using kv_store.FetchTxViewPoint_eq [OF assms(1) refl assms(2)]
  by (simp add: ValidateDoubleSpend_def or_panic_def bbind_def bwrap_def bret_def bfail_def)

lemma fst_MaybeAccept:
  "fst (MaybeAcceptTransaction P now tx (tp, s)) = Ok (h, d) \<longleftrightarrow> (\<exists>tp' s'. maybeAcceptTransaction P now tp tx s = (Ok (h, d, tp'), s'))"
  by (auto simp: MaybeAcceptTransaction_def split: prod.splits res.splits)


subsection \<open>An example node\<close>

definition example_desc :: JoinSplitDesc where
  "example_desc = empty_desc\<lparr>Anchor := [[1], [2]], EphemeralPubKey := replicate 32 0, HSigSeed := replicate 32 0,
     Nullifiers := [replicate 32 1, replicate 32 2], Commitments := [replicate 32 3, replicate 32 4],
     Vmacs := [replicate 32 5, replicate 32 6], desc_Note := Some [example_note 7]\<rparr>"

definition example_sane_tx :: Tx where
  "example_sane_tx = \<lparr>Version = 1, tx_Type = TxNormalType, LockTime = 0, Fee = 0, Descs = [example_desc],
     JSPubKey = Some (replicate 64 0), JSSig = Some (replicate 64 0), AddressLastByte = 3, txId = None, RequestedTxID = None\<rparr>"

definition example_pool_env :: "(bytes \<times> bytes) list pool_env" where
  "example_pool_env = \<lparr>pl_valid = \<lparr>ve_chain = example_node, ve_ecdsa = example_ecdsa, token_json = \<lambda>_. [], ShakeSum256 = id,
     key_spare = 0, holder_order = \<lambda>_. [], tx_order = map snd\<rparr>, MaxTxVersion = 1, pool_order = map snd\<rparr>"

definition example_pool_chain :: "(bytes \<times> bytes) list chain" where
  "example_pool_chain = example_chain\<lparr>BestStates := [empty_BestState\<lparr>BestBlock := Some (example_block TxNormalType)\<rparr>]\<rparr>"

definition example_now :: clock where
  "example_now = \<lparr>now_sanity = 5, now_added = 5, now_updated = 5\<rparr>"

lemma example_pool_parts:
  "pl_chain example_pool_env = example_node" "MaxTxVersion example_pool_env = 1" "pool_order example_pool_env = map snd"
  "best_block example_pool_chain 0 = Some (example_block TxNormalType)" "calcMinFeeTxAccepted example_pool_chain = Some 0"
  "calcMinFeeTxCustomTokenAccepted example_pool_chain = Some 0" "ch_db example_pool_chain = []"
  "validateSanityNormalTxData (now_sanity example_now) example_sane_tx = (True, None)" "GetTxSenderChain 3 = Ok 0"
  "AddressLastByte example_sane_tx = 3" "tx_Type example_sane_tx = TxNormalType"
  by (simp_all add: example_pool_env_def best_block_def example_pool_chain_def calcMinFeeTxAccepted_def
      calcMinFeeTxCustomTokenAccepted_def example_parts(9) example_header_def example_now_def example_sane_tx_def
      validateSanityNormalTxData_def TxVersion_def TxNormalType_def TxSalaryType_def example_desc_def two_of_32_def sane_def empty_desc_def
      EphemeralKeyLength_def GetTxSenderChain_eq example_chain_def)

lemma example_accept_run:
  assumes "\<And>h ns. (h, ns) \<in> set (poolNullifiers tp) \<Longrightarrow> ns = Tx_ListNullifiers example_sane_tx"
    and "\<not> isTxInPool tp (Tx_Hash (ce_PS example_node) example_sane_tx)" and "FeeEstimators tp = None"
  shows "\<exists>d tp'. maybeAcceptTransaction example_pool_env example_now tp (NormalTx example_sane_tx) example_pool_chain
      = (Ok (Tx_Hash (ce_PS example_node) example_sane_tx, d, tp'), example_pool_chain)"
proof -
  have g: "adb.lists_good (ch_db example_pool_chain)" by (simp add: adb.lists_good_def example_pool_parts example_parts)
  have "fst (ValidateDoubleSpend example_node (NormalTx example_sane_tx) 0 example_pool_chain) = Ok ()"
    using adb.double_spend_verdict(1) [OF example_parts(1) g, of example_sane_tx 0]
    by (simp add: example_pool_parts example_parts Tx_GetType_def)
  then have "ValidateDoubleSpend example_node (NormalTx example_sane_tx) 0 example_pool_chain = (Ok (), example_pool_chain)"
    using ValidateDoubleSpend_state [of example_node map_of al_sorted example_pool_chain example_sane_tx 0] g
    by (metis adb.kv_store_axioms example_parts(1) prod.collapse)
  moreover have "ValidateDoubleSpendTxWithCurrentMempool tp example_sane_tx = Ok ()"
    using assms(1) by (force simp: double_spend_pool_iff)
  moreover have "\<not> IsSalaryTx (NormalTx example_sane_tx)"
    by (rule sane_not_salary [of "now_sanity example_now"]) (simp add: example_pool_parts)
  moreover have "Version example_sane_tx \<le> 1" "Fee example_sane_tx = 0" by (simp_all add: example_sane_tx_def)
  ultimately show ?thesis
    using accept_run [of example_sane_tx 0 example_pool_chain "example_block TxNormalType" example_pool_env 0 tp example_now None] assms(2,3)
    by (simp add: example_pool_parts)
qed

lemma example_accepted:
  "\<exists>d tp'. MaybeAcceptTransaction example_pool_env example_now (NormalTx example_sane_tx) (TxPool_Init None 0, example_pool_chain)
      = (Ok (Tx_Hash (ce_PS example_node) example_sane_tx, d), tp', example_pool_chain) \<and>
    pool tp' = [(Tx_Hash (ce_PS example_node) example_sane_tx, d)] \<and>
    poolNullifiers tp' = [(Tx_Hash (ce_PS example_node) example_sane_tx, Tx_ListNullifiers example_sane_tx)] \<and> FeeEstimators tp' = None"
proof -
  obtain d tp' where run: "maybeAcceptTransaction example_pool_env example_now (TxPool_Init None 0) (NormalTx example_sane_tx) example_pool_chain
      = (Ok (Tx_Hash (ce_PS example_node) example_sane_tx, d, tp'), example_pool_chain)"
    using example_accept_run [of "TxPool_Init None 0"] by (auto simp: TxPool_Init_def isTxInPool_def)
  from accepted [OF run] obtain height where
    "addTx (ce_PS example_node) example_now (TxPool_Init None 0) (NormalTx example_sane_tx) height (Fee example_sane_tx) = Some (d, tp')"
    by (auto simp: example_pool_parts)
  from addTx_normal [OF this example_pool_parts(11)] run show ?thesis
    by (intro exI [of _ d] exI [of _ tp']) (simp add: MaybeAcceptTransaction_def map_put_def TxPool_Init_def)
qed

subsection \<open>Properties\<close>

text \<open>Claim C7 (functional): what the pool accepts. For a node whose chains have best blocks and, if fees are
  estimated at all, an estimator each: a transaction is accepted if and only if it is a plain
  transaction of the normal type, of a supported version, with at least the minimal fee, sane, not in
  the pool, without a nullifier that its chain has spent, and \<^emph>\<open>every\<close> nullifier it spends is spent by
  \<^emph>\<open>every\<close> transaction that ever entered the pool. Token transactions, board votes, loans and proposals
  are never accepted.\<close>

theorem pool_accepts_iff:
  assumes "kv_store (ce_lv (pl_chain P)) view invar" and "invar (ch_db s)"
    and "slices_ok (view (ch_db s)) nullifiersPrefix" and "slices_ok (view (ch_db s)) commitmentsPrefix"
    and "GetTxSenderChain (AddressLastByte t) = Ok c" and "best_block s (unat c) = Some b" and "calcMinFeeTxAccepted s = Some m"
    and "\<And>fes. FeeEstimators tp = Some fes \<Longrightarrow> fes c \<noteq> None"
  shows "((\<exists>h d. fst (MaybeAcceptTransaction P now (NormalTx t) (tp, s)) = Ok (h, d)) \<longleftrightarrow>
      tx_Type t = TxNormalType \<and> Version t \<le> MaxTxVersion P \<and> m \<le> Fee t \<and> fst (validateSanityNormalTxData (now_sanity now) t) \<and>
      \<not> HaveTransaction tp (Tx_Hash (ce_PS (pl_chain P)) t) \<and>
      (\<forall>n \<in> set (Tx_ListNullifiers t). n \<notin> set (slices_at (view (ch_db s)) nullifiersPrefix c)) \<and>
      (\<forall>(h, ns) \<in> set (poolNullifiers tp). set (Tx_ListNullifiers t) \<subseteq> set ns)) \<and>
    (\<forall>tx h d. (\<forall>t. tx \<noteq> NormalTx t) \<longrightarrow> fst (MaybeAcceptTransaction P now tx (tp, s)) \<noteq> Ok (h, d))"
    (is "(?acc \<longleftrightarrow> ?good) \<and> ?plain")
proof (intro conjI)
  have g: "kv_store.lists_good view invar (ch_db s)" using assms(1-4) by (simp add: kv_store.lists_good_def)
  have chain: "fst (ValidateDoubleSpend (pl_chain P) (NormalTx t) c s) = Ok () \<longleftrightarrow>
      (\<forall>n \<in> set (Tx_ListNullifiers t). n \<notin> set (slices_at (view (ch_db s)) nullifiersPrefix c))" if "tx_Type t = TxNormalType"
    using kv_store.double_spend_verdict(1) [OF assms(1) refl g, of t c] that by (simp add: Tx_GetType_def)
  show "?acc \<longleftrightarrow> ?good"
  proof
    assume ?acc
    then obtain h d tp' s' where "maybeAcceptTransaction P now tp (NormalTx t) s = (Ok (h, d, tp'), s')" by (auto simp: fst_MaybeAccept)
    from accepted [OF this] show ?good
      using assms(5,7) chain by (auto simp: double_spend_pool_iff HaveTransaction_def)
  next
    assume good: ?good
    obtain v where v: "validateSanityNormalTxData (now_sanity now) t = (True, v)" using good by (metis (full_types) prod.collapse)
    have "ValidateDoubleSpend (pl_chain P) (NormalTx t) c s = (Ok (), s)"
      using chain good ValidateDoubleSpend_state [OF assms(1) g, of t c] by (metis prod.collapse)
    moreover have "ValidateDoubleSpendTxWithCurrentMempool tp t = Ok ()" using good double_spend_pool_iff by blast
    moreover have "\<not> IsSalaryTx (NormalTx t)" using good sane_not_salary by blast
    moreover have "\<not> isTxInPool tp (Tx_Hash (ce_PS (pl_chain P)) t)" using good by (simp add: HaveTransaction_def)
    ultimately show ?acc
      using accept_run [of t c s b P m tp now v] good v assms(5-8) unfolding fst_MaybeAccept by blast
  qed
  show ?plain unfolding fst_MaybeAccept using accepted by metis
qed

theorem pool_accepts_iff_witness:
  "(\<exists>h d. fst (MaybeAcceptTransaction example_pool_env example_now (NormalTx example_sane_tx) (TxPool_Init None 0, example_pool_chain)) = Ok (h, d)) \<and>
   \<not> (\<exists>h d. fst (MaybeAcceptTransaction example_pool_env example_now (NormalTx example_sane_tx)
     ((TxPool_Init None 0)\<lparr>poolNullifiers := [(zero_hash, [])]\<rparr>, example_pool_chain)) = Ok (h, d))"
proof -
  let ?n = "\<lambda>ns. (TxPool_Init None 0)\<lparr>poolNullifiers := ns\<rparr>"
  have nf: "Tx_ListNullifiers example_sane_tx = [replicate 32 1, replicate 32 2]"
    by (simp add: Tx_ListNullifiers_def example_sane_tx_def example_desc_def)
  have "(\<exists>h d. fst (MaybeAcceptTransaction example_pool_env example_now (NormalTx example_sane_tx) (?n ns, example_pool_chain)) = Ok (h, d)) \<longleftrightarrow>
      (\<forall>(h, l) \<in> set ns. set (Tx_ListNullifiers example_sane_tx) \<subseteq> set l)" for ns
    using pool_accepts_iff [where P = example_pool_env and tp = "?n ns" and s = example_pool_chain and t = example_sane_tx and c = 0
        and b = "example_block TxNormalType" and m = 0 and view = map_of and invar = al_sorted and now = example_now]
    by (simp add: example_pool_parts example_parts adb.kv_store_axioms TxPool_Init_def HaveTransaction_def isTxInPool_def)
      (simp add: example_sane_tx_def)
  from this [of "[]"] this [of "[(zero_hash, [])]"] show ?thesis by (simp add: TxPool_Init_def nf)
qed

text \<open>Claim C8 (invariant): in every reachable state, each entry of the pool is a sane normal transaction stored
  under its own hash, once, with its fee and with its nullifiers recorded, and every fee estimator
  satisfies its invariant. Reachable are the states after any sequence of accepting and removing
  transactions, with the chain in any state at each step.\<close>

theorem pool_invariant:
  assumes "pool_reachable P tp"
  shows "pool_ok P tp"
  using assms by (rule reachable_ok)

theorem pool_invariant_witness:
  "\<exists>tp d. pool_reachable example_pool_env tp \<and> pool tp = [(Tx_Hash (ce_PS example_node) example_sane_tx, d)] \<and> pool_ok example_pool_env tp"
proof -
  obtain d tp where a: "MaybeAcceptTransaction example_pool_env example_now (NormalTx example_sane_tx) (TxPool_Init None 0, example_pool_chain)
      = (Ok (Tx_Hash (ce_PS example_node) example_sane_tx, d), tp, example_pool_chain)"
    "pool tp = [(Tx_Hash (ce_PS example_node) example_sane_tx, d)]" using example_accepted by blast
  have "pool_reachable example_pool_env (TxPool_Init None 0)" by (rule pool_reachable.start) simp
  then have "pool_reachable example_pool_env tp" using pool_step.maybe_accept [OF a(1)] by (rule pool_reachable.step)
  with a(2) pool_invariant [OF this] show ?thesis by blast
qed

text \<open>Claim C9 (safety): the check for double spends in the pool is the wrong way round. Once a transaction has
  been accepted, and also after it was removed, another one is accepted only if it spends nothing but
  nullifiers of the first: exactly the double spends.\<close>

theorem pool_keeps_only_double_spends:
  assumes "MaybeAcceptTransaction P now1 (NormalTx t1) (tp, s1) = (Ok r1, tp1, s1')"
    and "tp2 = tp1 \<or> RemoveTx (ce_PS (pl_chain P)) now (tp1) (NormalTx t1) = (Ok (), tp2)"
    and "MaybeAcceptTransaction P now2 (NormalTx t2) (tp2, s2) = (Ok r2, tp3, s2')"
  shows "set (Tx_ListNullifiers t2) \<subseteq> set (Tx_ListNullifiers t1)"
proof -
  obtain h1 d1 where "maybeAcceptTransaction P now1 tp (NormalTx t1) s1 = (Ok (h1, d1, tp1), s1')"
    using assms(1) by (auto simp: MaybeAcceptTransaction_def split: prod.splits res.splits)
  from accepted [OF this] obtain height where t1: "tx_Type t1 = TxNormalType"
    "addTx (ce_PS (pl_chain P)) now1 tp (NormalTx t1) height (Fee t1) = Some (d1, tp1)" by auto
  have "(Tx_Hash (ce_PS (pl_chain P)) t1, Tx_ListNullifiers t1) \<in> set (poolNullifiers tp1)"
    using addTx_normal [OF t1(2,1)] by (simp add: set_map_put)
  then have entry: "(Tx_Hash (ce_PS (pl_chain P)) t1, Tx_ListNullifiers t1) \<in> set (poolNullifiers tp2)"
    using assms(2) nullifiers_stay by metis
  obtain h2 d2 where "maybeAcceptTransaction P now2 tp2 (NormalTx t2) s2 = (Ok (h2, d2, tp3), s2')"
    using assms(3) by (auto simp: MaybeAcceptTransaction_def split: prod.splits res.splits)
  from accepted [OF this] have "ValidateDoubleSpendTxWithCurrentMempool tp2 t2 = Ok ()" by auto
  then show ?thesis using entry unfolding double_spend_pool_iff by blast
qed

theorem pool_keeps_only_double_spends_witness:
  "\<exists>r1 tp1 tp2 r2 tp3.
     MaybeAcceptTransaction example_pool_env example_now (NormalTx example_sane_tx) (TxPool_Init None 0, example_pool_chain) = (Ok r1, tp1, example_pool_chain) \<and>
     RemoveTx (ce_PS example_node) 6 tp1 (NormalTx example_sane_tx) = (Ok (), tp2) \<and> pool tp2 = [] \<and>
     MaybeAcceptTransaction example_pool_env example_now (NormalTx example_sane_tx) (tp2, example_pool_chain) = (Ok r2, tp3, example_pool_chain) \<and>
     set (Tx_ListNullifiers example_sane_tx) \<subseteq> set (Tx_ListNullifiers example_sane_tx)"
proof -
  obtain d tp1 where a: "MaybeAcceptTransaction example_pool_env example_now (NormalTx example_sane_tx) (TxPool_Init None 0, example_pool_chain)
      = (Ok (Tx_Hash (ce_PS example_node) example_sane_tx, d), tp1, example_pool_chain)"
    "pool tp1 = [(Tx_Hash (ce_PS example_node) example_sane_tx, d)]"
    "poolNullifiers tp1 = [(Tx_Hash (ce_PS example_node) example_sane_tx, Tx_ListNullifiers example_sane_tx)]" "FeeEstimators tp1 = None"
    using example_accepted by blast
  define tp2 where "tp2 = tp1\<lparr>pool := [], lastUpdated := 6\<rparr>"
  have rem: "RemoveTx (ce_PS example_node) 6 tp1 (NormalTx example_sane_tx) = (Ok (), tp2)"
    using a(2) by (simp add: RemoveTx_def removeTx_def isTxInPool_def tp2_def)
  obtain d2 tp3 where "maybeAcceptTransaction example_pool_env example_now tp2 (NormalTx example_sane_tx) example_pool_chain
      = (Ok (Tx_Hash (ce_PS example_node) example_sane_tx, d2, tp3), example_pool_chain)"
    using example_accept_run [of tp2] a(3,4) by (auto simp: tp2_def isTxInPool_def)
  then have again: "MaybeAcceptTransaction example_pool_env example_now (NormalTx example_sane_tx) (tp2, example_pool_chain)
      = (Ok (Tx_Hash (ce_PS example_node) example_sane_tx, d2), tp3, example_pool_chain)" by (simp add: MaybeAcceptTransaction_def)
  have "set (Tx_ListNullifiers example_sane_tx) \<subseteq> set (Tx_ListNullifiers example_sane_tx)"
    by (rule pool_keeps_only_double_spends [OF a(1) _ again, where now = 6]) (simp add: example_pool_parts rem)
  with a(1) rem again show ?thesis by (auto simp: tp2_def)
qed

text \<open>Claim C28 (error): a token transaction brings the node down. When the pool has a transaction, checking a
  token transaction without descriptions and with the minimal fee against the pool asserts that the
  pooled transaction is a token transaction, which no transaction of a reachable pool is.\<close>

theorem token_tx_crashes_node:
  assumes "pool_reachable P tp" and "pool tp \<noteq> []" and "set (pool_order P (pool tp)) = snd ` set (pool tp)"
    and "tx_Type (ct_Tx u) = TxCustomTokenType" and "Descs (ct_Tx u) = []"
    and "GetTxSenderChain (AddressLastByte (ct_Tx u)) = Ok c" and "best_block s (unat c) = Some b"
    and "calcMinFeeTxCustomTokenAccepted s = Some m" and "m \<le> Fee (ct_Tx u)"
  shows "MaybeAcceptTransaction P now (CustomTokenTx u) (tp, s) = (Panic, tp, s)"
proof -
  have "pool_order P (pool tp) \<noteq> []" using assms(2,3) by (cases "pool tp") auto
  moreover have "\<exists>t. td_Tx (pd_Desc e) = NormalTx t" if "e \<in> set (pool_order P (pool tp))" for e
    using that reachable_ok [OF assms(1)] unfolding assms(3) pool_ok_def entry_ok_def by fastforce
  ultimately have panic: "tokens_in_pool u (pool_order P (pool tp)) = Panic" using token_panics by blast
  have "CheckTransactionFee (CustomTokenTx u) s = (Ok (Fee (ct_Tx u)), s)"
    using assms(4,8,9) by (simp add: CheckTransactionFee_def IsSalaryTx_def CheckCustomTokenTransactionFee_def Tx_GetType_def
        type_names mbind_def mret_def)
  then show ?thesis
    using assms panic by (simp add: MaybeAcceptTransaction_def maybeAcceptTransaction_def mbind_def of_option_def mret_def
        GetSenderAddrLastByte_def Tx_GetSenderAddrLastByte_def CheckTxVersion_def Tx_GetType_def type_names
        ValidateTxWithCurrentMempool_def validateTxCustomTokenInPool_def ValidateDoubleSpendTxWithCurrentMempool_def list_ex_iff)
qed

theorem token_tx_crashes_node_witness:
  "\<exists>tp. pool_reachable example_pool_env tp \<and>
     fst (MaybeAcceptTransaction example_pool_env example_now (CustomTokenTx (new_token_tx (example_sane_tx\<lparr>tx_Type := TxCustomTokenType, Descs := []\<rparr>)
       (new_token_data (example_params 0 0)))) (tp, example_pool_chain)) = Panic"
proof -
  let ?u = "new_token_tx (example_sane_tx\<lparr>tx_Type := TxCustomTokenType, Descs := []\<rparr>) (new_token_data (example_params 0 0))"
  obtain d tp where a: "MaybeAcceptTransaction example_pool_env example_now (NormalTx example_sane_tx) (TxPool_Init None 0, example_pool_chain)
      = (Ok (Tx_Hash (ce_PS example_node) example_sane_tx, d), tp, example_pool_chain)"
    "pool tp = [(Tx_Hash (ce_PS example_node) example_sane_tx, d)]" using example_accepted by blast
  have "pool_reachable example_pool_env (TxPool_Init None 0)" by (rule pool_reachable.start) simp
  then have r: "pool_reachable example_pool_env tp" using pool_step.maybe_accept [OF a(1)] by (rule pool_reachable.step)
  have "MaybeAcceptTransaction example_pool_env example_now (CustomTokenTx ?u) (tp, example_pool_chain) = (Panic, tp, example_pool_chain)"
    by (rule token_tx_crashes_node [OF r, where c = 0 and m = 0])
      (simp_all add: a(2) example_pool_parts new_token_tx_def)
  then show ?thesis using r by auto
qed

end
