(* ===== verification/Consensus.thy ===== *)
theory Consensus
  imports Mempool
begin

text \<open>
  The proof-of-stake engine (\<open>consensus/ppos\<close>): the committee, the checks on blocks, the handlers of the
  messages of peers, finalizing a block and swapping a member of the committee.

  The state is the record \<open>engine\<close>: heights, committee, key set, and the chain and the pool it works on,
  with the messages sent so far. A handler maps the state to a result and the state afterwards; \<open>Panic\<close>
  is the crash of the node. What a handler waits for (the
  heights after a pause, the signatures a collector has received) is an argument, and so are the clock,
  randomness and map orders. Messages that goroutines send on the side are left out, as is the log.

  The state machine \<open>engine_step\<close> runs handlers and rounds of the producer one after the other. No lock of the
  code makes them exclude each other: the engine's own lock is taken in \<open>Start\<close> and \<open>Stop\<close> only, and the two
  locks of the heights only around their updates in \<open>UpdateChain\<close>. The theory \<open>Interleaving\<close> splits the round
  into its calls and lets messages come in between.
\<close>

subsection \<open>Constants and errors\<close>

definition MinBlockSigs :: nat where "MinBlockSigs = TotalValidators div 2 + 1"
definition MaxBlockSize :: nat where "MaxBlockSize = 5000000"
definition SigPointAdd :: int where "SigPointAdd = 1"
definition SigPointMin :: int where "SigPointMin = -1"
definition BlkPointAdd :: int where "BlkPointAdd = 5"
definition MaxBlockRetry :: nat where "MaxBlockRetry = 5"

datatype cs_code = ErrUnexpected | ErrBlockSizeExceed | ErrNotInCommittee | ErrSigWrongOrNotExits | ErrChainNotFullySynced
  | ErrTxIsWrong | ErrNotEnoughChainData | ErrExceedSigWaitTime | ErrMerkleRootCommitments | ErrNotEnoughSigs | ErrExceedBlockRetry

fun cs_ErrCode :: "cs_code \<Rightarrow> int" where
  "cs_ErrCode ErrUnexpected = -1"
| "cs_ErrCode ErrBlockSizeExceed = -2"
| "cs_ErrCode ErrNotInCommittee = -3"
| "cs_ErrCode ErrSigWrongOrNotExits = -4"
| "cs_ErrCode ErrChainNotFullySynced = -5"
| "cs_ErrCode ErrTxIsWrong = -6"
| "cs_ErrCode ErrNotEnoughChainData = -7"
| "cs_ErrCode ErrExceedSigWaitTime = -8"
| "cs_ErrCode ErrMerkleRootCommitments = -9"
| "cs_ErrCode ErrNotEnoughSigs = -10"
| "cs_ErrCode ErrExceedBlockRetry = -11"

datatype cs_error = ConsensusError cs_code | PoolErr mp_error | BlockErr bc_error | KeyErr keyset_error
  | CsJsonError | CsPlain string

subsection \<open>State\<close>

record committeeStruct =
  ValidatorBlkNum :: "string \<rightharpoonup> int"
  ValidatorReliablePts :: "string \<rightharpoonup> int"
  CurrentCommittee :: "string list"
  cmWatcherStarted :: bool

datatype message =
    MessageBlock Block
  | MessageGetBlocks string
  | MessageBlockSig string string
  | MessageInvalidBlock cs_error string byte string string
  | MessageChainState "string list" "int list"
  | MessageSwapSig string string
  | MessageSwapRequest int byte string string string

datatype target = ToAll | ToPeer string

record 'd engine =
  started :: bool
  producerStarted :: bool
  knownHeights :: "int list"
  validatedHeights :: "int list"
  eg_committee :: committeeStruct
  ProducerKeySet :: KeySet
  eg_chain :: "'d chain"
  MemPool :: TxPool
  sent :: "(target \<times> message) list"

text \<open>
  \<open>ecdsa_Sign\<close> is \<open>ecdsa.Sign\<close> on a hash and a private key, \<open>invalid_json\<close> the JSON of an invalid-block
  message, \<open>GetPeerIDs\<close> and \<open>IDB58Decode\<close> the server's peers, \<open>est_order\<close> and \<open>est_rnd\<close> the order and the draws
  of the fee estimator. The engine's map of fee estimators is the one of the pool.
\<close>

record 'd engine_env =
  ee_pool :: "'d pool_env"
  ecdsa_Sign :: "bytes \<Rightarrow> bytes \<Rightarrow> (nat \<times> nat) option"
  GenesisCommittee :: "string list"
  invalid_json :: "cs_error \<Rightarrow> string \<Rightarrow> byte \<Rightarrow> string \<Rightarrow> bytes"
  GetPeerIDs :: "string \<Rightarrow> string list"
  IDB58Decode :: "string \<Rightarrow> string option"
  est_order :: "hash list \<Rightarrow> hash list"
  est_rnd :: "nat \<Rightarrow> nat"

abbreviation ee_chain :: "'d engine_env \<Rightarrow> 'd chain_env" where
  "ee_chain E \<equiv> pl_chain (ee_pool E)"

abbreviation ee_ecdsa :: "'d engine_env \<Rightarrow> ecdsa" where
  "ee_ecdsa E \<equiv> ve_ecdsa (pl_valid (ee_pool E))"

type_synonym ('d, 'a) egm = "'d engine \<Rightarrow> (cs_error, 'a) res \<times> 'd engine"

definition eret :: "'a \<Rightarrow> ('d, 'a) egm" where
  "eret a = (\<lambda>s. (Ok a, s))"

definition efail :: "cs_error \<Rightarrow> ('d, 'a) egm" where
  "efail e = (\<lambda>s. (Err e, s))"

definition epanic :: "('d, 'a) egm" where
  "epanic = (\<lambda>s. (Panic, s))"

definition ebind :: "('d, 'a) egm \<Rightarrow> ('a \<Rightarrow> ('d, 'b) egm) \<Rightarrow> ('d, 'b) egm" where
  "ebind m f = (\<lambda>s. case m s of (Ok a, s') \<Rightarrow> f a s' | (Err e, s') \<Rightarrow> (Err e, s') | (Panic, s') \<Rightarrow> (Panic, s'))"

text \<open>\<open>elog\<close> is a call whose error is logged: the handler returns in any case.\<close>

definition elog :: "('d, unit) egm \<Rightarrow> ('d, unit) egm" where
  "elog m = (\<lambda>s. case m s of (Err _, s') \<Rightarrow> (Ok (), s') | (r, s') \<Rightarrow> (r, s'))"

definition of_result :: "(cs_error, 'a) res \<Rightarrow> ('d, 'a) egm" where
  "of_result r = (\<lambda>s. (r, s))"

definition or_crash :: "'a option \<Rightarrow> ('d, 'a) egm" where
  "or_crash x = (case x of None \<Rightarrow> epanic | Some a \<Rightarrow> eret a)"

definition on_chain :: "('d, 'a) bcm \<Rightarrow> ('d, 'a) egm" where
  "on_chain m = (\<lambda>s. case m (eg_chain s) of (r, c) \<Rightarrow> (map_err BlockErr r, s\<lparr>eg_chain := c\<rparr>))"

definition on_pool :: "('d, 'a) mpm \<Rightarrow> ('d, 'a) egm" where
  "on_pool m = (\<lambda>s. case m (eg_chain s) of (r, c) \<Rightarrow> (map_err PoolErr r, s\<lparr>eg_chain := c\<rparr>))"

definition send_msg :: "target \<Rightarrow> message \<Rightarrow> ('d, unit) egm" where
  "send_msg to m = (\<lambda>s. (Ok (), s\<lparr>sent := sent s @ [(to, m)]\<rparr>))"

subsection \<open>The committee\<close>

definition copy_committee :: "string list \<Rightarrow> string list" where
  "copy_committee c = take TotalValidators c @ replicate (TotalValidators - length c) []"

definition GetCommittee :: "'d engine \<Rightarrow> string list" where
  "GetCommittee self = copy_committee (CurrentCommittee (eg_committee self))"

definition CheckCandidate :: "string \<Rightarrow> (cs_error, unit) res" where
  "CheckCandidate candidate = Ok ()"

definition CheckCommittee :: "string list \<Rightarrow> int \<Rightarrow> byte \<Rightarrow> bool" where
  "CheckCommittee committee blockHeight chainID = True"

definition signData :: "'d engine_env \<Rightarrow> 'd engine \<Rightarrow> bytes \<Rightarrow> (cs_error, string) res" where
  "signData E self data =
     (case ecdsa_Sign E (HashB data) (PrivateKey (ProducerKeySet self)) of
        None \<Rightarrow> Err (CsPlain ''Can't sign data. '')
      | Some (r, s) \<Rightarrow> Ok (Base58Check_Encode (SigToByteArray r s) 0))"

definition producer_pbk :: "'d engine \<Rightarrow> string" where
  "producer_pbk self = Base58Check_Encode (Pk (ks_PaymentAddress (ProducerKeySet self))) 0"

text \<open>A key outside the committee has the index -1, which is chain 255.\<close>

definition getChainIdByPbk :: "'d engine \<Rightarrow> string \<Rightarrow> byte" where
  "getChainIdByPbk self pbk = of_int (IndexOfStr pbk (GetCommittee self))"

definition getMyChain :: "'d engine \<Rightarrow> byte" where
  "getMyChain self = getChainIdByPbk self (producer_pbk self)"

definition add_points :: "string \<Rightarrow> int \<Rightarrow> (string \<rightharpoonup> int) \<Rightarrow> (string \<rightharpoonup> int)" where
  "add_points k d m = m(k \<mapsto> wrap64 ((case m k of None \<Rightarrow> 0 | Some v \<Rightarrow> v) + d))"

fun sig_points :: "string list \<Rightarrow> string list \<Rightarrow> (string \<rightharpoonup> int) \<Rightarrow> (string \<rightharpoonup> int) option" where
  "sig_points committee [] m = Some m"
| "sig_points [] (sig # sigs) m = (if sig \<noteq> [] then None else sig_points [] sigs m)"
| "sig_points (c # committee) (sig # sigs) m =
     sig_points committee sigs (if sig \<noteq> [] then add_points c SigPointAdd m else m)"

definition UpdateCommitteePoint :: "committeeStruct \<Rightarrow> string \<Rightarrow> string list \<Rightarrow> committeeStruct option" where
  "UpdateCommitteePoint committee chainLeader validatorSig =
     map_option (\<lambda>pts. committee\<lparr>ValidatorBlkNum := add_points chainLeader 1 (ValidatorBlkNum committee),
          ValidatorReliablePts := (\<lambda>v. map_option (\<lambda>p. wrap64 (p + SigPointMin)) (pts v))\<rparr>)
       (sig_points (CurrentCommittee committee) validatorSig
          (add_points chainLeader BlkPointAdd (ValidatorReliablePts committee)))"

definition StopCommitteeWatcher :: "committeeStruct \<Rightarrow> committeeStruct" where
  "StopCommitteeWatcher committee =
     (if cmWatcherStarted committee then committee\<lparr>cmWatcherStarted := False\<rparr> else committee)"

text \<open>The candidate leaves every best state; the errors of storing them are dropped.\<close>

definition drop_candidate :: "'d chain_env \<Rightarrow> string \<Rightarrow> nat \<Rightarrow> ('d, unit) bcm" where
  "drop_candidate E pbk chainId = (\<lambda>s.
     bbind (btry (bc_StoreBestState E (of_nat chainId))) (\<lambda>_. bret ())
       (s\<lparr>BestStates := (BestStates s)[chainId := RemoveCandidate (BestStates s ! chainId) pbk]\<rparr>))"

text \<open>The two \<open>append\<close>s write into the copy of the committee, where they replace one entry; beyond the last
  entry the slice expressions panic.\<close>

definition updateCommittee :: "'d engine_env \<Rightarrow> string \<Rightarrow> byte \<Rightarrow> ('d, unit) egm" where
  "updateCommittee E producerPbk chanId = (\<lambda>self.
     let committee = GetCommittee self in
     if IndexOfStr producerPbk committee \<ge> 0 then (Err (CsPlain ''pbk is existed on committee list''), self)
     else if unat chanId \<ge> TotalValidators then (Panic, self)
     else on_chain (bforall (drop_candidate (ee_chain E) producerPbk) [0..<length (BestStates (eg_chain self))])
       (self\<lparr>eg_committee := (eg_committee self)\<lparr>CurrentCommittee := committee[unat chanId := producerPbk]\<rparr>\<rparr>))"

definition PutUint64 :: "u64 \<Rightarrow> bytes" where
  "PutUint64 v = map (\<lambda>i. ucast (drop_bit (8 * i) v)) [0..<8]"

definition getRawBytesForSwap :: "int \<Rightarrow> string \<Rightarrow> byte \<Rightarrow> string \<Rightarrow> bytes" where
  "getRawBytesForSwap lockTime requesterPbk chainId producerPbk =
     PutUint64 (of_int lockTime) @ bytes_of_string requesterPbk @ [chainId] @ bytes_of_string producerPbk"

subsection \<open>Checks on blocks (\<open>validation.go\<close>)\<close>

definition ValidateSpecTxWithBlockChain :: "'d engine_env \<Rightarrow> transaction \<Rightarrow> ('d, transaction) egm" where
  "ValidateSpecTxWithBlockChain E tx =
     ebind (of_result (map_err (\<lambda>_. CsPlain ''sender chain'') (GetTxSenderChain (GetSenderAddrLastByte tx)))) (\<lambda>chainID.
       on_pool (ValidateTxWithBlockChain (ee_pool E) tx chainID))"

definition ValidateSpecTxByItSelf :: "'d engine_env \<Rightarrow> transaction \<Rightarrow> ('d, bool \<times> transaction) egm" where
  "ValidateSpecTxByItSelf E tx = on_pool (ValidateTxByItSelf (ee_pool E) tx)"

text \<open>The checks of the pool change token transactions in place: the result is the list afterwards.\<close>

fun ValidateTxList :: "'d engine_env \<Rightarrow> transaction list \<Rightarrow> ('d, transaction list) egm" where
  "ValidateTxList E [] = eret []"
| "ValidateTxList E (tx # txList) =
     ebind (ValidateSpecTxWithBlockChain E tx) (\<lambda>tx1.
     ebind (ValidateSpecTxByItSelf E tx1) (\<lambda>(ok, tx2).
       if \<not> ok then efail (ConsensusError ErrTxIsWrong)
       else ebind (ValidateTxList E txList) (\<lambda>rest. eret (tx2 # rest))))"

text \<open>Whether one member of the committee has signed. A key that does not decode is skipped before the
  signature is looked at; a key that is no point of the curve crashes the node (\<open>None\<close>).\<close>

definition sig_counts :: "ecdsa \<Rightarrow> bytes \<Rightarrow> string list \<Rightarrow> nat \<Rightarrow> string \<Rightarrow> bool option" where
  "sig_counts V blockHash sigs idx validator =
     (case Base58Check_Decode validator of
        Err _ \<Rightarrow> Some False
      | Panic \<Rightarrow> None
      | Ok (decPubkey, _) \<Rightarrow>
          if length sigs \<le> idx then None
          else (case Base58Check_Decode (sigs ! idx) of
                  Err _ \<Rightarrow> Some False
                | Panic \<Rightarrow> None
                | Ok (decSig, _) \<Rightarrow> KeySet_Verify V decPubkey blockHash decSig))"

fun count_sigs :: "ecdsa \<Rightarrow> bytes \<Rightarrow> string list \<Rightarrow> nat \<Rightarrow> string list \<Rightarrow> nat option" where
  "count_sigs V blockHash sigs idx [] = Some 0"
| "count_sigs V blockHash sigs idx (validator # committee) =
     (case sig_counts V blockHash sigs idx validator of
        None \<Rightarrow> None
      | Some b \<Rightarrow> map_option (\<lambda>n. if b then Suc n else n) (count_sigs V blockHash sigs (Suc idx) committee))"

definition ValidateCommitteeSigs :: "ecdsa \<Rightarrow> bytes \<Rightarrow> string list \<Rightarrow> string list \<Rightarrow> (cs_error, unit) res" where
  "ValidateCommitteeSigs V blockHash committee sigs =
     (case count_sigs V blockHash sigs 0 committee of
        None \<Rightarrow> Panic
      | Some validatedSigs \<Rightarrow> if validatedSigs < 10 then Err (ConsensusError ErrNotEnoughSigs) else Ok ())"

text \<open>The loop that logs the commitments after a difference has no effect: a transaction it could not
  convert has failed in \<open>UpdateMerkleTreeForBlock\<close> before.\<close>

definition ValidateMerkleRootCommitments :: "'d chain \<Rightarrow> Block \<Rightarrow> (cs_error, unit) res" where
  "ValidateMerkleRootCommitments s block =
     (let i = unat (ChainID (Header block)) in
      if length (BestStates s) \<le> i \<or> BestBlock (BestStates s ! i) = None then Panic
      else (case UpdateMerkleTreeForBlock (MakeCopy (CmTree (BestStates s ! i))) block of
              (Panic, _) \<Rightarrow> Panic
            | (Err e, _) \<Rightarrow> Err (BlockErr e)
            | (Ok _, newTree) \<Rightarrow>
                if GetRoot newTree IncMerkleTreeHeight \<noteq> MerkleRootCommitments (Header block)
                then Err (ConsensusError ErrMerkleRootCommitments) else Ok ()))"

definition CheckBlockSize :: "'d engine_env \<Rightarrow> Block \<Rightarrow> (cs_error, unit) res" where
  "CheckBlockSize E block =
     (case block_json (ee_chain E) block of
        None \<Rightarrow> Err CsJsonError
      | Some blockBytes \<Rightarrow> if length blockBytes > MaxBlockSize then Err (ConsensusError ErrBlockSizeExceed) else Ok ())"

text \<open>The chains other than the block's that are behind the heights the block names.\<close>

definition behind :: "int list \<Rightarrow> Block \<Rightarrow> nat list" where
  "behind heights block =
     filter (\<lambda>i. heights ! i < ChainsHeight (Header block) ! i \<and> i \<noteq> unat (ChainID (Header block))) [0..<TotalValidators]"

text \<open>\<open>later\<close> are the validated heights when the pause is over. The heights of fewer than 20 chains are indexed
  out of range; a chain behind has its best block hash printed, which must not be nil.\<close>

definition IsEnoughData :: "'d engine \<Rightarrow> int list \<Rightarrow> Block \<Rightarrow> (cs_error, unit) res" where
  "IsEnoughData self later block =
     (let h = Header block; i = unat (ChainID h); now = validatedHeights self in
      if length now \<le> i then Panic
      else if now ! i \<noteq> hd_Height h - 1 then Err (ConsensusError ErrChainNotFullySynced)
      else if length now < TotalValidators \<or> length (ChainsHeight h) < TotalValidators then Panic
      else if behind now block = [] then Ok ()
      else if list_ex (\<lambda>j. length (BestStates (eg_chain self)) \<le> j \<or> BestBlockHash (BestStates (eg_chain self) ! j) = None)
                (behind now block) then Panic
      else if length later < TotalValidators then Panic
      else if behind later block \<noteq> [] then Err (ConsensusError ErrChainNotFullySynced)
      else Ok ())"

definition block_hash_bytes :: "'d engine_env \<Rightarrow> Block \<Rightarrow> ('d, bytes) egm" where
  "block_hash_bytes E block =
     ebind (or_crash (Block_Hash (ce_PS (ee_chain E)) block)) (\<lambda>h. eret (bytes_of_string (hash_String h)))"

definition header_bytes :: "'d engine_env \<Rightarrow> BlockHeader \<Rightarrow> bytes" where
  "header_bytes E h = (case header_json (ee_chain E) h of None \<Rightarrow> [] | Some b \<Rightarrow> b)"

definition check_txs :: "'d engine_env \<Rightarrow> Block \<Rightarrow> ('d, Block) egm" where
  "check_txs E block =
     ebind (\<lambda>self. (ValidateMerkleRootCommitments (eg_chain self) block, self)) (\<lambda>_.
     ebind (ValidateTxList E (txs_of block)) (\<lambda>txs.
       eret (block\<lparr>Transactions := map_option (\<lambda>_. txs) (Transactions block)\<rparr>)))"

definition validateBlockSanity :: "'d engine_env \<Rightarrow> int list \<Rightarrow> Block \<Rightarrow> ('d, Block) egm" where
  "validateBlockSanity E later block =
     ebind (\<lambda>self. (IsEnoughData self later block, self)) (\<lambda>_.
     ebind (of_result (CheckBlockSize E block)) (\<lambda>_.
     ebind (of_result (map_err KeyErr (ValidateDataB58 (ee_ecdsa E) (BlockProducer block) (BlockProducerSig block)
                (header_bytes E (Header block))))) (\<lambda>_.
     ebind (block_hash_bytes E block) (\<lambda>h.
     ebind (of_result (ValidateCommitteeSigs (ee_ecdsa E) h (Committee (Header block)) (BlockCommitteeSigs (Header block)))) (\<lambda>_.
       check_txs E block)))))"

definition validatePreSignBlockSanity :: "'d engine_env \<Rightarrow> int list \<Rightarrow> Block \<Rightarrow> ('d, Block) egm" where
  "validatePreSignBlockSanity E later block =
     ebind (\<lambda>self. (IsEnoughData self later block, self)) (\<lambda>_.
     ebind (of_result (CheckBlockSize E block)) (\<lambda>_.
     let sigs = BlockCommitteeSigs (Header block); i = unat (ChainID (Header block)) in
     if length sigs \<le> i then epanic else
     ebind (block_hash_bytes E block) (\<lambda>h.
     ebind (of_result (map_err KeyErr (ValidateDataB58 (ee_ecdsa E) (BlockProducer block) (sigs ! i) h))) (\<lambda>_.
       check_txs E block))))"

subsection \<open>Connecting a block\<close>

definition sendBlockMsg :: "Block \<Rightarrow> ('d, unit) egm" where
  "sendBlockMsg block = send_msg ToAll (MessageBlock block)"

text \<open>The hashes of the normal and salary transactions a block registers with the estimator.\<close>

fun estimator_txs :: "proof_string \<Rightarrow> transaction list \<Rightarrow> hash list option" where
  "estimator_txs PS [] = Some []"
| "estimator_txs PS (t # ts) =
     (if GetType t = TxNormalType \<or> GetType t = TxSalaryType then
        (case t of NormalTx tx \<Rightarrow> map_option (\<lambda>hs. Tx_Hash PS tx # hs) (estimator_txs PS ts) | _ \<Rightarrow> None)
      else estimator_txs PS ts)"

definition register_block :: "'d engine_env \<Rightarrow> Block \<Rightarrow> ('d, unit) egm" where
  "register_block E block = (\<lambda>self.
     let PS = ce_PS (ee_chain E); c = ChainID (Header block) in
     case FeeEstimators (MemPool self) of
       None \<Rightarrow> (Panic, self)
     | Some fes \<Rightarrow>
         (case (fes c, Block_Hash PS block, estimator_txs PS (txs_of block)) of
            (Some ef, Some h, Some hs) \<Rightarrow>
              (case RegisterBlock (est_rnd E) ef (hd_Height (Header block)) h (est_order E hs) of
                 None \<Rightarrow> (Panic, self)
               | Some (e, ef') \<Rightarrow>
                   (case e of None \<Rightarrow> Ok () | Some _ \<Rightarrow> Err (CsPlain ''RegisterBlock''),
                    self\<lparr>MemPool := (MemPool self)\<lparr>FeeEstimators := Some (fes(c \<mapsto> ef'))\<rparr>\<rparr>))
          | _ \<Rightarrow> (Panic, self)))"

fun remove_txs :: "'d engine_env \<Rightarrow> int \<Rightarrow> transaction list \<Rightarrow> ('d, unit) egm" where
  "remove_txs E now [] = eret ()"
| "remove_txs E now (tx # txs) = (\<lambda>self.
     case RemoveTx (ce_PS (ee_chain E)) now (MemPool self) tx of
       (Panic, tp) \<Rightarrow> (Panic, self)
     | (_, tp) \<Rightarrow> remove_txs E now txs (self\<lparr>MemPool := tp\<rparr>))"

definition update_best_state :: "'d chain_env \<Rightarrow> Block \<Rightarrow> ('d, unit) bcm" where
  "update_best_state E block = (\<lambda>s.
     let i = unat (ChainID (Header block)) in
     if length (BestStates s) \<le> i then (Panic, s)
     else case BestState_Update (ce_PS E) (BestStates s ! i) block of
            (r, bs) \<Rightarrow> (r, s\<lparr>BestStates := (BestStates s)[i := bs]\<rparr>))"

definition set_heights :: "Block \<Rightarrow> ('d, unit) egm" where
  "set_heights block = (\<lambda>self.
     let i = unat (ChainID (Header block)); h = hd_Height (Header block) in
     if length (knownHeights self) \<le> i then (Panic, self)
     else ebind (if knownHeights self ! i < h
                 then (\<lambda>s. sendBlockMsg block (s\<lparr>knownHeights := (knownHeights s)[i := h]\<rparr>)) else eret ()) (\<lambda>_ s.
            if length (validatedHeights s) \<le> i then (Panic, s)
            else (Ok (), s\<lparr>validatedHeights := (validatedHeights s)[i := h]\<rparr>)) self)"

definition add_committee_points :: "Block \<Rightarrow> ('d, unit) egm" where
  "add_committee_points block = (\<lambda>self.
     case UpdateCommitteePoint (eg_committee self) (BlockProducer block) (BlockCommitteeSigs (Header block)) of
       None \<Rightarrow> (Panic, self)
     | Some c \<Rightarrow> (Ok (), self\<lparr>eg_committee := c\<rparr>))"

definition UpdateChain :: "'d engine_env \<Rightarrow> int \<Rightarrow> Block \<Rightarrow> ('d, unit) egm" where
  "UpdateChain E now block =
     elog (ebind (on_chain (ConnectBlock (ee_chain E) block)) (\<lambda>block.
     ebind (register_block E block) (\<lambda>_.
     ebind (remove_txs E now (txs_of block)) (\<lambda>_.
     ebind (on_chain (update_best_state (ee_chain E) block)) (\<lambda>_.
     ebind (on_chain (bbind (btry (bc_StoreBestState (ee_chain E) (ChainID (Header block)))) (\<lambda>_. bret ()))) (\<lambda>_.
     ebind (set_heights block) (\<lambda>_. add_committee_points block)))))))"

subsection \<open>Messages of peers (\<open>message.go\<close>)\<close>

text \<open>The node signs the hash of a block that passes, and complains to everyone about one that does not.\<close>

definition OnRequestSign :: "'d engine_env \<Rightarrow> int list \<Rightarrow> Block \<Rightarrow> string \<Rightarrow> ('d, unit) egm" where
  "OnRequestSign E later block senderID = (\<lambda>self.
     case validatePreSignBlockSanity E later block self of
       (Panic, self') \<Rightarrow> (Panic, self')
     | (Err e, self') \<Rightarrow>
         ebind (or_crash (Block_Hash (ce_PS (ee_chain E)) block)) (\<lambda>h.
         let bh = hash_String h; c = ChainID (Header block); v = producer_pbk self' in
         elog (ebind (of_result (signData E self' (invalid_json E e bh c v))) (\<lambda>sig.
           send_msg ToAll (MessageInvalidBlock e bh c v sig)))) self'
     | (Ok block', self') \<Rightarrow>
         ebind (block_hash_bytes E block') (\<lambda>h.
         elog (ebind (of_result (signData E self' h)) (\<lambda>sig.
           send_msg (ToPeer (case IDB58Decode E senderID of None \<Rightarrow> [] | Some p \<Rightarrow> p))
             (MessageBlockSig (producer_pbk self') sig)))) self')"

definition OnBlockReceived :: "'d engine_env \<Rightarrow> int \<Rightarrow> int list \<Rightarrow> Block \<Rightarrow> ('d, unit) egm" where
  "OnBlockReceived E now later block = (\<lambda>self.
     let i = unat (ChainID (Header block)) in
     if length (BestStates (eg_chain self)) \<le> i then (Panic, self)
     else if bs_Height (BestStates (eg_chain self) ! i) < hd_Height (Header block)
     then ebind (or_crash (Block_Hash (ce_PS (ee_chain E)) block)) (\<lambda>h.
          elog (ebind (on_chain (BlockExists (ee_chain E) h)) (\<lambda>exists.
            if exists then eret ()
            else ebind (validateBlockSanity E later block) (\<lambda>block'. UpdateChain E now block')))) self
     else (Ok (), self))"

text \<open>\<open>chainsHeight\<close> is the list of the message, \<open>None\<close> when the field is missing; a list shorter than the
  heights of the node is indexed out of range.\<close>

fun chain_state_loop :: "'d engine_env \<Rightarrow> string \<Rightarrow> int list \<Rightarrow> nat list \<Rightarrow> ('d, unit) egm" where
  "chain_state_loop E senderID hs [] = eret ()"
| "chain_state_loop E senderID hs (i # is) = (\<lambda>self.
     if length hs \<le> i then (Panic, self)
     else if validatedHeights self ! i < hs ! i then
       (if length (knownHeights self) \<le> i then (Panic, self)
        else let self' = self\<lparr>knownHeights := (knownHeights self)[i := hs ! i]\<rparr>; bss = BestStates (eg_chain self') in
             if length bss \<le> i then (Panic, self')
             else case BestBlockHash (bss ! i) of
                    None \<Rightarrow> (Panic, self')
                  | Some h \<Rightarrow>
                      ebind (case IDB58Decode E senderID of
                               None \<Rightarrow> eret ()
                             | Some p \<Rightarrow> send_msg (ToPeer p) (MessageGetBlocks (hash_String h))) (\<lambda>_.
                        chain_state_loop E senderID hs is) self')
     else chain_state_loop E senderID hs is self)"

definition OnChainStateReceived :: "'d engine_env \<Rightarrow> string \<Rightarrow> int list option \<Rightarrow> ('d, unit) egm" where
  "OnChainStateReceived E senderID chainsHeight =
     (case chainsHeight of
        None \<Rightarrow> eret ()
      | Some hs \<Rightarrow> (\<lambda>self. chain_state_loop E senderID hs [0..<length (validatedHeights self)] self))"

definition OnGetChainState :: "'d engine_env \<Rightarrow> string \<Rightarrow> ('d, unit) egm" where
  "OnGetChainState E senderID = (\<lambda>self.
     send_msg (ToPeer (case IDB58Decode E senderID of None \<Rightarrow> [] | Some p \<Rightarrow> p))
       (MessageChainState (GetCommittee self) (validatedHeights self)) self)"

subsection \<open>Swapping a member of the committee (\<open>swap.go\<close>, \<open>wire/messageswap*.go\<close>)\<close>

record SwapRequest =
  rq_LockTime :: int
  rq_ChainID :: byte
  Candidate :: string
  Requester :: string
  RequesterSig :: string
  rq_SenderID :: string

definition GetMsgByte :: "SwapRequest \<Rightarrow> bytes" where
  "GetMsgByte msg =
     PutUint64 (of_int (rq_LockTime msg)) @ [rq_ChainID msg] @ bytes_of_string (Candidate msg) @
     bytes_of_string (Requester msg) @ bytes_of_string (rq_SenderID msg)"

definition SwapRequest_Verify :: "ecdsa \<Rightarrow> SwapRequest \<Rightarrow> (keyset_error, unit) res" where
  "SwapRequest_Verify V msg = ValidateDataB58 V (Requester msg) (RequesterSig msg) (GetMsgByte msg)"

definition OnSwapRequest :: "'d engine_env \<Rightarrow> int \<Rightarrow> SwapRequest \<Rightarrow> ('d, unit) egm" where
  "OnSwapRequest E now msg = (\<lambda>self.
     if rq_LockTime msg > now then (Ok (), self)
     else if IndexOfStr (Requester msg) (GetCommittee self) < 0 then (Ok (), self)
     else elog (ebind (of_result (map_err KeyErr (SwapRequest_Verify (ee_ecdsa E) msg))) (\<lambda>_.
            if GetPeerIDs E (Candidate msg) = [] then eret ()
            else ebind (of_result (signData E self (GetMsgByte msg))) (\<lambda>sig.
                 case IDB58Decode E (rq_SenderID msg) of
                   None \<Rightarrow> eret ()
                 | Some peerID \<Rightarrow> send_msg (ToPeer peerID) (MessageSwapSig (producer_pbk self) sig)))) self)"

text \<open>The signatures of an update, in the order the map is ranged over.\<close>

record SwapUpdate =
  up_LockTime :: int
  up_Requester :: string
  up_ChainID :: byte
  up_Candidate :: string
  Signatures :: "(string \<times> string) list"

fun count_leaders :: "ecdsa \<Rightarrow> bytes \<Rightarrow> string list \<Rightarrow> (string \<times> string) list \<Rightarrow> nat option" where
  "count_leaders V rawBytes committee [] = Some 0"
| "count_leaders V rawBytes committee ((leaderPbk, leaderSig) # sigs) =
     (if IndexOfStr leaderPbk committee \<ge> 0 then
        (case ValidateDataB58 V leaderPbk leaderSig rawBytes of
           Panic \<Rightarrow> None
         | Err _ \<Rightarrow> count_leaders V rawBytes committee sigs
         | Ok _ \<Rightarrow> map_option Suc (count_leaders V rawBytes committee sigs))
      else count_leaders V rawBytes committee sigs)"

definition OnSwapUpdate :: "'d engine_env \<Rightarrow> int \<Rightarrow> SwapUpdate \<Rightarrow> ('d, unit) egm" where
  "OnSwapUpdate E now msg = (\<lambda>self.
     let committee = GetCommittee self;
         rawBytes = getRawBytesForSwap (up_LockTime msg) (up_Requester msg) (up_ChainID msg) (up_Candidate msg) in
     if up_LockTime msg > now then (Ok (), self)
     else if IndexOfStr (up_Candidate msg) committee \<ge> 0 then (Ok (), self)
     else case count_leaders (ee_ecdsa E) rawBytes committee (Signatures msg) of
            None \<Rightarrow> (Panic, self)
          | Some cLeader \<Rightarrow>
              if cLeader < TotalValidators div 2 then (Ok (), self)
              else elog (updateCommittee E (up_Candidate msg) (up_ChainID msg)) self)"

text \<open>The last candidate of the list that has peers; \<open>[]\<close> when there is none.\<close>

definition next_producer :: "'d engine_env \<Rightarrow> string list \<Rightarrow> string" where
  "next_producer E candidates = foldl (\<lambda>next c. if GetPeerIDs E c = [] then next else c) [] candidates"

text \<open>The collector of one attempt: it takes the signatures as they arrive, until there are ten. The result
  is the map and whether it is complete; a collector that crashes is \<open>None\<close>.\<close>

fun collect_swap :: "ecdsa \<Rightarrow> string list \<Rightarrow> string \<Rightarrow> bytes \<Rightarrow> (string \<times> string) list \<Rightarrow> (string \<times> string) list \<Rightarrow>
    ((string \<times> string) list \<times> bool) option" where
  "collect_swap V committee requesterPbk rawBytes [] sigMap = Some (sigMap, False)"
| "collect_swap V committee requesterPbk rawBytes ((v, sig) # sigs) sigMap =
     (if IndexOfStr v committee \<ge> 0 \<and> v = requesterPbk then
        (case ValidateDataB58 V v sig rawBytes of
           Panic \<Rightarrow> None
         | Err _ \<Rightarrow> collect_swap V committee requesterPbk rawBytes sigs sigMap
         | Ok _ \<Rightarrow>
             let sigMap' = map_put v sig sigMap
             in if length sigMap' \<ge> TotalValidators div 2 then Some (sigMap', True)
                else collect_swap V committee requesterPbk rawBytes sigs sigMap')
      else collect_swap V committee requesterPbk rawBytes sigs sigMap)"

text \<open>The attempts of one swap: \<open>arrivals n\<close> are the signatures that arrive during attempt \<open>n\<close>. The map is kept
  between attempts; after the sixth the swap is given up.\<close>

function swap_attempts :: "ecdsa \<Rightarrow> string list \<Rightarrow> string \<Rightarrow> bytes \<Rightarrow> (nat \<Rightarrow> (string \<times> string) list) \<Rightarrow> nat \<Rightarrow>
    (string \<times> string) list \<Rightarrow> ((string \<times> string) list \<times> bool) option" where
  "swap_attempts V committee requesterPbk rawBytes arrivals retryTime sigMap =
     (case collect_swap V committee requesterPbk rawBytes (arrivals retryTime) sigMap of
        None \<Rightarrow> None
      | Some (sigMap', True) \<Rightarrow> Some (sigMap', True)
      | Some (sigMap', False) \<Rightarrow>
          if retryTime \<ge> MaxBlockRetry then Some (sigMap', False)
          else swap_attempts V committee requesterPbk rawBytes arrivals (Suc retryTime) sigMap')"
  by pat_completeness auto
termination
  by (relation "measure (\<lambda>(_, _, _, _, _, retryTime, _). MaxBlockRetry - retryTime)") auto

declare swap_attempts.simps [simp del]

text \<open>The server writes \<open>senderID\<close> into the request when it sends it, after the requester has signed it. The
  requester's signature is not used again and left out.\<close>

definition swap_request :: "'d engine \<Rightarrow> int \<Rightarrow> byte \<Rightarrow> string \<Rightarrow> string \<Rightarrow> SwapRequest" where
  "swap_request self lockTime chainID candidate senderID =
     \<lparr>rq_LockTime = lockTime, rq_ChainID = chainID, Candidate = candidate, Requester = producer_pbk self,
      RequesterSig = [], rq_SenderID = senderID\<rparr>"

text \<open>One swap of \<open>StartSwap\<close>, with the candidates in their order. It is the request that is broadcast in the
  end, not the update.\<close>

definition swap_round :: "'d engine_env \<Rightarrow> int \<Rightarrow> string \<Rightarrow> string list \<Rightarrow> (nat \<Rightarrow> (string \<times> string) list) \<Rightarrow> byte \<Rightarrow> ('d, unit) egm" where
  "swap_round E now senderID candidates arrivals chainID = (\<lambda>self.
     let committee = GetCommittee self; requesterPbk = producer_pbk self; nextPbk = next_producer E candidates;
         msg = swap_request self now chainID nextPbk senderID in
     if IndexOfStr requesterPbk committee < 0 then (Ok (), self)
     else if nextPbk = [] then (Ok (), self)
     else if IndexOfStr nextPbk committee \<ge> 0 then (Ok (), self)
     else case swap_attempts (ee_ecdsa E) committee requesterPbk (GetMsgByte msg) arrivals 0 [] of
            None \<Rightarrow> (Panic, self)
          | Some (_, False) \<Rightarrow> (Ok (), self)
          | Some (_, True) \<Rightarrow>
              elog (ebind (updateCommittee E nextPbk chainID) (\<lambda>_.
                send_msg ToAll (MessageSwapRequest now chainID nextPbk requesterPbk senderID))) self)"

subsection \<open>Producing a block (\<open>engine.go\<close>)\<close>

text \<open>The block of a template gets the heights, the chain and the producer.\<close>

definition createBlock :: "'d engine \<Rightarrow> (bc_error, Block) res \<Rightarrow> (cs_error, Block) res" where
  "createBlock self template =
     and_then (map_err BlockErr template) (\<lambda>newblock.
       Ok (newblock\<lparr>Header := (Header newblock)\<lparr>
             ChainsHeight := take TotalValidators (validatedHeights self) @ replicate (TotalValidators - length (validatedHeights self)) 0,
             ChainID := getMyChain self\<rparr>, BlockProducer := producer_pbk self\<rparr>))"

text \<open>How waiting for the signatures of one attempt ends, with the signatures that arrived.\<close>

datatype wait = QuitSignal | SigsReceived "(string \<times> string) list" | WaitExceeded

definition fresh_sigs :: "'d engine_env \<Rightarrow> 'd engine \<Rightarrow> Block \<Rightarrow> (cs_error, Block) res" where
  "fresh_sigs E self block =
     (let block0 = block\<lparr>Header := (Header block)\<lparr>BlockCommitteeSigs := replicate TotalValidators [],
                                                Committee := copy_committee (GetCommittee self)\<rparr>\<rparr>;
          i = unat (ChainID (Header block0)) in
      case Block_Hash (ce_PS (ee_chain E)) block0 of
        None \<Rightarrow> Panic
      | Some h \<Rightarrow>
          and_then (signData E self (bytes_of_string (hash_String h))) (\<lambda>sig.
            if TotalValidators \<le> i then Panic
            else Ok (block0\<lparr>Header := (Header block0)\<lparr>BlockCommitteeSigs := (replicate TotalValidators [])[i := sig]\<rparr>\<rparr>)))"

text \<open>The collector: a signature of a member without one is checked and entered, until ten have been.\<close>

fun collect_sigs :: "ecdsa \<Rightarrow> bytes \<Rightarrow> string list \<Rightarrow> (string \<times> string) list \<Rightarrow> string list \<Rightarrow> nat \<Rightarrow> string list option" where
  "collect_sigs V blockHash committee [] sigs n = Some sigs"
| "collect_sigs V blockHash committee ((v, sig) # arrived) sigs n =
     (let idx = IndexOfStr v committee;
          next = (\<lambda>sigs n. if n = MinBlockSigs - 1 then Some sigs else collect_sigs V blockHash committee arrived sigs n) in
      if idx \<noteq> -1 then
        if sigs ! nat idx = [] then
          (case ValidateDataB58 V v sig blockHash of
             Panic \<Rightarrow> None
           | Err _ \<Rightarrow> collect_sigs V blockHash committee arrived sigs n
           | Ok _ \<Rightarrow> next (sigs[nat idx := sig]) (Suc n))
        else next sigs n
      else next sigs n)"

definition seal_block :: "'d engine_env \<Rightarrow> int \<Rightarrow> Block \<Rightarrow> ('d, unit) egm" where
  "seal_block E now block =
     ebind (\<lambda>self. (signData E self (header_bytes E (Header block)), self)) (\<lambda>sig.
     let block' = block\<lparr>BlockProducerSig := sig\<rparr> in
     ebind (UpdateChain E now block') (\<lambda>_. sendBlockMsg block'))"

text \<open>The attempts of \<open>Finalize\<close>. The goroutine that asks for signatures signals at once that all have been
  received, so that \<open>SigsReceived\<close> comes with whatever the collector has got by then.\<close>

function Finalize_loop :: "'d engine_env \<Rightarrow> int \<Rightarrow> (nat \<Rightarrow> wait) \<Rightarrow> nat \<Rightarrow> Block \<Rightarrow> ('d, unit) egm" where
  "Finalize_loop E now waits retryTime finalBlock = (\<lambda>self.
     case fresh_sigs E self finalBlock of
       Panic \<Rightarrow> (Panic, self)
     | Err e \<Rightarrow> (Err e, self)
     | Ok block \<Rightarrow>
         (case waits retryTime of
            QuitSignal \<Rightarrow> (Ok (), self)
          | WaitExceeded \<Rightarrow>
              if retryTime \<ge> MaxBlockRetry then (Err (ConsensusError ErrExceedBlockRetry), self)
              else Finalize_loop E now waits (Suc retryTime) block self
          | SigsReceived arrived \<Rightarrow>
              ebind (block_hash_bytes E block) (\<lambda>h.
              ebind (or_crash (collect_sigs (ee_ecdsa E) h (Committee (Header block)) arrived (BlockCommitteeSigs (Header block)) 0)) (\<lambda>sigs.
                seal_block E now (block\<lparr>Header := (Header block)\<lparr>BlockCommitteeSigs := sigs\<rparr>\<rparr>))) self))"
  by pat_completeness auto
termination
  by (relation "measure (\<lambda>(_, _, _, retryTime, _). MaxBlockRetry - retryTime)") auto

declare Finalize_loop.simps [simp del]

definition Finalize :: "'d engine_env \<Rightarrow> int \<Rightarrow> (nat \<Rightarrow> wait) \<Rightarrow> Block \<Rightarrow> ('d, unit) egm" where
  "Finalize E now waits finalBlock = Finalize_loop E now waits 0 finalBlock"

text \<open>One round of the producer's loop, run without interruption: it works only while no chain is known to be higher than validated, and
  only for the chain of its key; otherwise it asks for the missing blocks. The error of a round is logged.\<close>

fun ask_blocks :: "int list \<Rightarrow> nat list \<Rightarrow> ('d, unit) egm" where
  "ask_blocks known [] = eret ()"
| "ask_blocks known (i # is) = (\<lambda>self.
     if known ! i > validatedHeights self ! i then
       (case (if i < length (BestStates (eg_chain self)) then BestBlockHash (BestStates (eg_chain self) ! i) else None) of
          None \<Rightarrow> (Panic, self)
        | Some h \<Rightarrow> ebind (send_msg ToAll (MessageGetBlocks (hash_String h))) (\<lambda>_. ask_blocks known is) self)
     else ask_blocks known is self)"

definition producer_round :: "'d engine_env \<Rightarrow> int \<Rightarrow> (bc_error, Block) res \<Rightarrow> (nat \<Rightarrow> wait) \<Rightarrow> ('d, unit) egm" where
  "producer_round E now template waits = (\<lambda>self.
     if \<not> started self then (Ok (), self)
     else if IntArrayEquals (knownHeights self) (validatedHeights self) then
       (if unat (getMyChain self) < TotalValidators
        then let self' = self\<lparr>eg_committee := (eg_committee self)\<lparr>cmWatcherStarted := True\<rparr>\<rparr>
             in elog (ebind (of_result (createBlock self' template)) (Finalize E now waits)) self'
        else (Ok (), self))
     else ask_blocks (knownHeights self) [0..<length (knownHeights self)]
            (self\<lparr>eg_committee := StopCommitteeWatcher (eg_committee self)\<rparr>))"

subsection \<open>Starting and stopping\<close>

text \<open>The blocks of one chain are read again from the second on; the view of a block is stored anew, while the
  call that would check the block is commented out. An error ends the loop of the chain.\<close>

function validate_chain :: "'d engine_env \<Rightarrow> byte \<Rightarrow> int \<Rightarrow> int \<Rightarrow> ('d, unit) egm" where
  "validate_chain E chainID known blockHeight =
     (if blockHeight > known then eret ()
      else ebind (on_chain (GetBlockByBlockHeight (ee_chain E) (wrap32 blockHeight) chainID)) (\<lambda>block.
           ebind (on_chain (CreateAndSaveTxViewPoint (ee_chain E) block)) (\<lambda>_.
           ebind (register_block E block) (\<lambda>_.
           ebind (\<lambda>self. (Ok (), self\<lparr>validatedHeights := (validatedHeights self)[unat chainID := blockHeight]\<rparr>)) (\<lambda>_.
           ebind (add_committee_points block) (\<lambda>_. validate_chain E chainID known (blockHeight + 1)))))))"
  by pat_completeness auto
termination
  by (relation "measure (\<lambda>(E, chainID, known, blockHeight). nat (known - blockHeight + 1))") auto

declare validate_chain.simps [simp del]

text \<open>The goroutines of the chains, run one after the other in \<open>order\<close>. A goroutine that fails has already
  left the wait group when it reports its error, so that \<open>Start\<close> may or may not see one: \<open>noticed\<close> says which.\<close>

fun validate_chains :: "'d engine_env \<Rightarrow> nat list \<Rightarrow> (nat \<Rightarrow> bool) \<Rightarrow> ('d, cs_error option) egm" where
  "validate_chains E [] noticed = eret None"
| "validate_chains E (c # order) noticed = (\<lambda>self.
     case validate_chain E (of_nat c) (knownHeights self ! c) 2 self of
       (Panic, self') \<Rightarrow> (Panic, self')
     | (r, self') \<Rightarrow>
         ebind (validate_chains E order noticed) (\<lambda>later.
           eret (case r of Err e \<Rightarrow> if noticed c then Some e else later | _ \<Rightarrow> later)) self')"

definition start_state :: "'d engine_env \<Rightarrow> 'd engine \<Rightarrow> 'd engine" where
  "start_state E self =
     self\<lparr>knownHeights := map (\<lambda>i. bs_Height (BestStates (eg_chain self) ! i)) [0..<TotalValidators],
          validatedHeights := replicate TotalValidators 1,
          eg_committee := (eg_committee self)\<lparr>ValidatorBlkNum := Map.empty, ValidatorReliablePts := Map.empty,
            CurrentCommittee := copy_committee (GenesisCommittee E)\<rparr>\<rparr>"

definition new_estimators :: "byte \<rightharpoonup> FeeEstimator" where
  "new_estimators = (\<lambda>c. if unat c < TotalValidators then Some (NewFeeEstimator 2 3) else None)"

definition Start :: "'d engine_env \<Rightarrow> nat list \<Rightarrow> (nat \<Rightarrow> bool) \<Rightarrow> ('d, unit) egm" where
  "Start E order noticed = (\<lambda>self.
     if started self then (Err (CsPlain ''Consensus engine is already started''), self)
     else if length (BestStates (eg_chain self)) < TotalValidators then (Panic, self)
     else let self1 = start_state E self in
          case FeeEstimators (MemPool self1) of
            None \<Rightarrow> (Panic, self1)
          | Some fes \<Rightarrow>
              if fes 0 \<noteq> None
              then (Ok (), self1\<lparr>validatedHeights := knownHeights self1, started := True\<rparr>)
              else ebind (validate_chains E order noticed) (\<lambda>e self2.
                     case e of Some e \<Rightarrow> (Err e, self2) | None \<Rightarrow> (Ok (), self2\<lparr>started := True\<rparr>))
                   (self1\<lparr>MemPool := (MemPool self1)\<lparr>FeeEstimators := Some (fes ++ new_estimators)\<rparr>\<rparr>))"

definition StopProducer :: "'d engine \<Rightarrow> 'd engine" where
  "StopProducer self =
     (if producerStarted self
      then self\<lparr>eg_committee := StopCommitteeWatcher (eg_committee self), producerStarted := False\<rparr> else self)"

definition Stop :: "('d, unit) egm" where
  "Stop = (\<lambda>self.
     if \<not> started self then (Err (CsPlain ''Consensus engine isn't running''), self)
     else (Ok (), (StopProducer self)\<lparr>started := False\<rparr>))"

definition StartProducer :: "KeySet \<Rightarrow> 'd engine \<Rightarrow> 'd engine" where
  "StartProducer producerKeySet self =
     (if producerStarted self then self else self\<lparr>ProducerKeySet := producerKeySet, producerStarted := True\<rparr>)"

subsection \<open>The engine as a state machine\<close>

text \<open>The steps of a running node: messages of peers, transactions entering the pool, swaps, and rounds of
  the producer that run without interruption. A step that crashes the node has no successor.\<close>

inductive handler_step :: "'d engine_env \<Rightarrow> 'd engine \<Rightarrow> 'd engine \<Rightarrow> bool" for E where
  recv_block: "OnBlockReceived E now later block s = (Ok (), s') \<Longrightarrow> handler_step E s s'"
| recv_request: "OnRequestSign E later block senderID s = (Ok (), s') \<Longrightarrow> handler_step E s s'"
| recv_state: "OnChainStateReceived E senderID chainsHeight s = (Ok (), s') \<Longrightarrow> handler_step E s s'"
| recv_get_state: "OnGetChainState E senderID s = (Ok (), s') \<Longrightarrow> handler_step E s s'"
| recv_swap_request: "OnSwapRequest E now msg s = (Ok (), s') \<Longrightarrow> handler_step E s s'"
| recv_swap_update: "OnSwapUpdate E now upd s = (Ok (), s') \<Longrightarrow> handler_step E s s'"
| swap: "swap_round E now senderID candidates arrivals chainID s = (Ok (), s') \<Longrightarrow> handler_step E s s'"
| recv_tx: "MaybeAcceptTransaction (ee_pool E) clk tx (MemPool s, eg_chain s) = (r, tp, c) \<Longrightarrow>
    handler_step E s (s\<lparr>MemPool := tp, eg_chain := c\<rparr>)"

inductive engine_step :: "'d engine_env \<Rightarrow> 'd engine \<Rightarrow> 'd engine \<Rightarrow> bool" for E where
  handle: "handler_step E s s' \<Longrightarrow> engine_step E s s'"
| produce: "producer_round E now template waits s = (Ok (), s') \<Longrightarrow> engine_step E s s'"

definition engine_reachable :: "'d engine_env \<Rightarrow> 'd engine \<Rightarrow> 'd engine \<Rightarrow> bool" where
  "engine_reachable E = (engine_step E)\<^sup>*\<^sup>*"

definition engine_ok :: "'d engine \<Rightarrow> bool" where
  "engine_ok s \<longleftrightarrow> length (knownHeights s) = TotalValidators \<and> length (validatedHeights s) = TotalValidators \<and>
     length (CurrentCommittee (eg_committee s)) = TotalValidators \<and> distinct (CurrentCommittee (eg_committee s)) \<and>
     (\<forall>i<TotalValidators. validatedHeights s ! i \<le> knownHeights s ! i)"

subsection \<open>What operations keep\<close>

text \<open>An operation keeps a property of the state whatever its result is.\<close>

definition ekeeps :: "('d engine \<Rightarrow> bool) \<Rightarrow> ('d, 'a) egm \<Rightarrow> bool" where
  "ekeeps Q m \<longleftrightarrow> (\<forall>s. Q s \<longrightarrow> Q (snd (m s)))"

named_theorems ekeeps_intro

lemma ekeepsD: "ekeeps Q m \<Longrightarrow> Q s \<Longrightarrow> m s = (r, s') \<Longrightarrow> Q s'"
  by (metis ekeeps_def snd_conv)

lemma ekeeps_pure [ekeeps_intro]: "ekeeps Q (eret a)" "ekeeps Q (efail e)" "ekeeps Q epanic" "ekeeps Q (of_result r)"
  "ekeeps Q (or_crash x)"
  by (auto simp: ekeeps_def eret_def efail_def epanic_def of_result_def or_crash_def split: option.splits)

lemma ekeeps_ebind [ekeeps_intro]: "ekeeps Q m \<Longrightarrow> (\<And>a. ekeeps Q (f a)) \<Longrightarrow> ekeeps Q (ebind m f)"
  unfolding ekeeps_def ebind_def by (fastforce split: prod.splits res.splits)

lemma ekeeps_elog [ekeeps_intro]: "ekeeps Q m \<Longrightarrow> ekeeps Q (elog m)"
  unfolding ekeeps_def elog_def by (fastforce split: prod.splits res.splits)

lemma ekeeps_const [ekeeps_intro]: "ekeeps Q (\<lambda>s. (f s, s))"
  by (simp add: ekeeps_def)

lemma ekeeps_if [ekeeps_intro]: "(b \<Longrightarrow> ekeeps Q m) \<Longrightarrow> (\<not> b \<Longrightarrow> ekeeps Q n) \<Longrightarrow> ekeeps Q (if b then m else n)"
  by simp

lemma ekeeps_case [ekeeps_intro]: "(\<And>a. ekeeps Q (f a)) \<Longrightarrow> ekeeps Q (case x of None \<Rightarrow> eret b | Some a \<Rightarrow> f a)"
  by (cases x) (simp_all add: ekeeps_pure)

text \<open>A property of the heights, the committee and the key set does not see the chain, the pool and the messages.\<close>

definition heights_only :: "('d engine \<Rightarrow> bool) \<Rightarrow> bool" where
  "heights_only Q \<longleftrightarrow> (\<forall>s s'. knownHeights s' = knownHeights s \<longrightarrow> validatedHeights s' = validatedHeights s \<longrightarrow>
     CurrentCommittee (eg_committee s') = CurrentCommittee (eg_committee s) \<longrightarrow> ProducerKeySet s' = ProducerKeySet s \<longrightarrow> Q s = Q s')"

lemma heights_onlyD:
  "heights_only Q \<Longrightarrow> knownHeights s' = knownHeights s \<Longrightarrow> validatedHeights s' = validatedHeights s \<Longrightarrow>
   CurrentCommittee (eg_committee s') = CurrentCommittee (eg_committee s) \<Longrightarrow> ProducerKeySet s' = ProducerKeySet s \<Longrightarrow> Q s \<Longrightarrow> Q s'"
  unfolding heights_only_def by blast

lemma ekeeps_on_chain [ekeeps_intro]: "heights_only Q \<Longrightarrow> ekeeps Q (on_chain m)"
  unfolding ekeeps_def on_chain_def by (auto split: prod.splits intro: heights_onlyD)

lemma ekeeps_on_pool [ekeeps_intro]: "heights_only Q \<Longrightarrow> ekeeps Q (on_pool m)"
  unfolding ekeeps_def on_pool_def by (auto split: prod.splits intro: heights_onlyD)

lemma ekeeps_send [ekeeps_intro]: "heights_only Q \<Longrightarrow> ekeeps Q (send_msg t m)" "heights_only Q \<Longrightarrow> ekeeps Q (sendBlockMsg b)"
  unfolding ekeeps_def send_msg_def sendBlockMsg_def by (auto intro: heights_onlyD)

lemma ekeeps_ValidateTxList [ekeeps_intro]: "heights_only Q \<Longrightarrow> ekeeps Q (ValidateTxList E txs)"
  by (induction txs)
    (auto simp: ValidateSpecTxWithBlockChain_def ValidateSpecTxByItSelf_def split: prod.splits intro!: ekeeps_intro)

lemma ekeeps_check_txs [ekeeps_intro]: "heights_only Q \<Longrightarrow> ekeeps Q (check_txs E block)"
  unfolding check_txs_def by (intro ekeeps_intro)

lemma ekeeps_block_hash [ekeeps_intro]: "ekeeps Q (block_hash_bytes E block)"
  unfolding block_hash_bytes_def by (intro ekeeps_intro)

lemma ekeeps_sanity [ekeeps_intro]:
  "heights_only Q \<Longrightarrow> ekeeps Q (validateBlockSanity E later block)"
  "heights_only Q \<Longrightarrow> ekeeps Q (validatePreSignBlockSanity E later block)"
  unfolding validateBlockSanity_def validatePreSignBlockSanity_def Let_def by (intro ekeeps_intro; assumption)+

lemma ekeeps_register [ekeeps_intro]: "heights_only Q \<Longrightarrow> ekeeps Q (register_block E block)"
  unfolding ekeeps_def register_block_def Let_def by (auto split: option.splits intro: heights_onlyD)

lemma ekeeps_remove_txs [ekeeps_intro]: "heights_only Q \<Longrightarrow> ekeeps Q (remove_txs E now txs)"
proof (induction txs)
  case (Cons tx txs)
  have "Q (snd (remove_txs E now (tx # txs) s))" if "Q s" for s
  proof -
    have "Q (snd (remove_txs E now txs (s\<lparr>MemPool := tp\<rparr>)))" for tp
      using Cons heights_onlyD [OF Cons.prems, of "s\<lparr>MemPool := tp\<rparr>" s] that by (simp add: ekeeps_def)
    then show ?thesis using that by (auto split: prod.splits res.splits)
  qed
  then show ?case by (simp add: ekeeps_def)
qed (simp add: ekeeps_pure)

lemma ekeeps_points [ekeeps_intro]: "heights_only Q \<Longrightarrow> ekeeps Q (add_committee_points block)"
  unfolding ekeeps_def add_committee_points_def UpdateCommitteePoint_def
  by (auto split: option.splits intro: heights_onlyD)

lemma ekeeps_UpdateChain: "heights_only Q \<Longrightarrow> (\<And>b. ekeeps Q (set_heights b)) \<Longrightarrow> ekeeps Q (UpdateChain E now block)"
  unfolding UpdateChain_def by (intro ekeeps_intro)

lemma ekeeps_seal: "heights_only Q \<Longrightarrow> (\<And>b. ekeeps Q (set_heights b)) \<Longrightarrow> ekeeps Q (seal_block E now block)"
  unfolding seal_block_def Let_def by (intro ekeeps_intro ekeeps_UpdateChain)

lemma ekeeps_Finalize:
  assumes "heights_only Q" "\<And>b. ekeeps Q (set_heights b)"
  shows "ekeeps Q (Finalize_loop E now waits n block)"
proof (induction E now waits n block rule: Finalize_loop.induct)
  case (1 E now waits n block)
  have seal: "ekeeps Q (ebind (block_hash_bytes E b) (\<lambda>h. ebind (or_crash (f h)) (\<lambda>sigs. seal_block E now (g sigs))))" for b f g
    by (intro ekeeps_intro ekeeps_seal assms)
  show ?case
    unfolding ekeeps_def
  proof (intro allI impI)
    fix s assume "Q s"
    then show "Q (snd (Finalize_loop E now waits n block s))"
      using 1 unfolding ekeeps_def
      by (subst Finalize_loop.simps)
        (auto split: res.splits wait.splits intro!: seal [unfolded ekeeps_def, rule_format])
  qed
qed

lemmas ekeepsI = ekeeps_def [THEN iffD2, rule_format]
lemmas ekeeps_at = ekeeps_def [THEN iffD1, rule_format]
lemmas ekeeps_at_calls = ekeeps_at [where m = "ebind _ _"] ekeeps_at [where m = "elog _"] ekeeps_at [where m = "on_chain _"]

lemma heights_only_ok [simp]: "heights_only engine_ok"
  by (simp add: heights_only_def engine_ok_def)

lemma set_heights_ok: "ekeeps engine_ok (set_heights block)"
  by (rule ekeepsI)
    (auto simp: engine_ok_def set_heights_def sendBlockMsg_def send_msg_def eret_def ebind_def Let_def nth_list_update)

lemma UpdateChain_ok: "ekeeps engine_ok (UpdateChain E now block)"
  by (intro ekeeps_UpdateChain set_heights_ok) simp

lemma Finalize_ok: "ekeeps engine_ok (Finalize E now waits block)"
  unfolding Finalize_def by (intro ekeeps_Finalize set_heights_ok) simp

lemma ekeeps_OnBlockReceived:
  assumes "heights_only Q" "\<And>b. ekeeps Q (set_heights b)"
  shows "ekeeps Q (OnBlockReceived E now later block)"
proof (rule ekeepsI)
  fix s assume "Q s"
  moreover have "ekeeps Q (ebind (or_crash (Block_Hash (ce_PS (ee_chain E)) block)) (\<lambda>h.
      elog (ebind (on_chain (BlockExists (ee_chain E) h)) (\<lambda>exists.
        if exists then eret () else ebind (validateBlockSanity E later block) (UpdateChain E now)))))"
    by (intro ekeeps_intro ekeeps_UpdateChain assms)
  ultimately show "Q (snd (OnBlockReceived E now later block s))"
    unfolding OnBlockReceived_def Let_def by (auto intro: ekeeps_at)
qed

lemma ekeeps_OnRequestSign: "heights_only Q \<Longrightarrow> ekeeps Q (OnRequestSign E later block senderID)"
proof (rule ekeepsI)
  fix s assume Q: "heights_only Q" "Q s"
  obtain r s' where v: "validatePreSignBlockSanity E later block s = (r, s')" by fastforce
  have "Q s'" using ekeepsD [OF ekeeps_sanity(2) _ v] Q by blast
  then show "Q (snd (OnRequestSign E later block senderID s))"
    unfolding OnRequestSign_def v Let_def
    by (cases r) (auto intro!: ekeeps_at_calls [where Q = Q] ekeeps_intro Q(1))
qed

text \<open>The chain state of a peer only raises known heights above the validated ones.\<close>

lemma chain_state_keeps:
  assumes "heights_only Q" and raise: "\<And>s i h. Q s \<Longrightarrow> validatedHeights s ! i < h \<Longrightarrow> i < length (knownHeights s) \<Longrightarrow>
      Q (s\<lparr>knownHeights := (knownHeights s)[i := h]\<rparr>)"
  shows "ekeeps Q (chain_state_loop E senderID hs is)"
proof (induction "is")
  case (Cons i "is")
  have "Q (snd (chain_state_loop E senderID hs (i # is) s))" if "Q s" for s
  proof -
    have "ekeeps Q (ebind (case IDB58Decode E senderID of None \<Rightarrow> eret ()
        | Some p \<Rightarrow> send_msg (ToPeer p) m) (\<lambda>_. chain_state_loop E senderID hs is))" for m
      using assms(1) by (intro ekeeps_intro Cons.IH)
    then show ?thesis using that Cons.IH raise [of s i "hs ! i"]
      by (auto simp: Let_def not_le split: option.splits intro: ekeeps_at)
  qed
  then show ?case by (simp add: ekeeps_def)
qed (simp add: ekeeps_pure)

lemma ekeeps_OnChainState:
  "ekeeps Q (chain_state_loop E senderID hs [0..<n]) \<Longrightarrow> TotalValidators = n \<Longrightarrow>
   (\<And>s. Q s \<Longrightarrow> length (validatedHeights s) = TotalValidators) \<Longrightarrow> ekeeps Q (OnChainStateReceived E senderID (Some hs))"
  by (simp add: OnChainStateReceived_def ekeeps_def)

lemma OnChainStateReceived_ok: "ekeeps engine_ok (OnChainStateReceived E senderID ch)"
proof (cases ch)
  case (Some hs)
  have "ekeeps engine_ok (chain_state_loop E senderID hs is)" for "is"
  proof (rule chain_state_keeps)
    fix s :: "'a engine" and i h assume "engine_ok s" "validatedHeights s ! i < h" "i < length (knownHeights s)"
    then show "engine_ok (s\<lparr>knownHeights := (knownHeights s)[i := h]\<rparr>)"
      by (auto simp: engine_ok_def nth_list_update)
  qed simp
  then show ?thesis using Some by (auto simp: engine_ok_def intro!: ekeeps_OnChainState)
qed (simp add: OnChainStateReceived_def ekeeps_pure)

lemma ekeeps_OnGetChainState: "heights_only Q \<Longrightarrow> ekeeps Q (OnGetChainState E senderID)"
  unfolding ekeeps_def OnGetChainState_def send_msg_def by (auto intro: heights_onlyD)

lemma ekeeps_OnSwapRequest: "heights_only Q \<Longrightarrow> ekeeps Q (OnSwapRequest E now msg)"
  by (rule ekeepsI) (auto simp: OnSwapRequest_def intro!: ekeeps_at_calls [where Q = Q] ekeeps_intro)

lemma updateCommittee_ok: "ekeeps engine_ok (updateCommittee E pbk c)" for E :: "'a engine_env"
proof (rule ekeepsI)
  fix s :: "'a engine" assume ok: "engine_ok s"
  let ?c = "CurrentCommittee (eg_committee s)"
  have c: "GetCommittee s = ?c"
    using ok by (simp add: GetCommittee_def copy_committee_def engine_ok_def)
  have "engine_ok (s\<lparr>eg_committee := (eg_committee s)\<lparr>CurrentCommittee := ?c[unat c := pbk]\<rparr>\<rparr>)" if "pbk \<notin> set ?c"
    using ok that by (auto simp: engine_ok_def distinct_list_update in_set_conv_nth)
  then show "engine_ok (snd (updateCommittee E pbk c s))"
    using ok IndexOfStr_member [of pbk ?c] c
    by (auto simp: updateCommittee_def Let_def intro!: ekeeps_at_calls [where Q = engine_ok] ekeeps_on_chain)
qed

lemma OnSwapUpdate_ok: "ekeeps engine_ok (OnSwapUpdate E now msg)" for E :: "'a engine_env"
proof (rule ekeepsI)
  fix s :: "'a engine" assume "engine_ok s"
  moreover have "ekeeps engine_ok (elog (updateCommittee E pbk c))" for pbk c and E :: "'a engine_env"
    by (intro ekeeps_intro updateCommittee_ok)
  ultimately show "engine_ok (snd (OnSwapUpdate E now msg s))"
    by (auto simp: OnSwapUpdate_def Let_def split: option.splits intro!: ekeeps_at_calls [where Q = engine_ok])
qed

text \<open>The collector of a swap takes only the signature of the requester itself, so that its map never has
  more than one entry.\<close>

lemma collect_swap_incomplete:
  assumes "set sigMap \<subseteq> {requesterPbk} \<times> UNIV" "length sigMap \<le> 1"
  shows "case collect_swap V committee requesterPbk rawBytes sigs sigMap of
      None \<Rightarrow> True | Some (m, full) \<Rightarrow> \<not> full \<and> set m \<subseteq> {requesterPbk} \<times> UNIV \<and> length m \<le> 1"
  using assms
proof (induction V committee requesterPbk rawBytes sigs sigMap rule: collect_swap.induct)
  case (2 V committee requesterPbk rawBytes v sig sigs sigMap)
  have "filter (\<lambda>e. fst e \<noteq> requesterPbk) sigMap = []"
    using 2(4) by (auto simp: filter_empty_conv)
  then have "map_put requesterPbk sig sigMap = [(requesterPbk, sig)]" by (simp add: map_put_def)
  then show ?case using 2 by (auto simp: Let_def TotalValidators_def split: res.splits)
qed simp

lemma swap_attempts_incomplete:
  assumes "set sigMap \<subseteq> {requesterPbk} \<times> UNIV" "length sigMap \<le> 1"
  shows "case swap_attempts V committee requesterPbk rawBytes arrivals n sigMap of None \<Rightarrow> True | Some (m, full) \<Rightarrow> \<not> full"
  using assms
proof (induction V committee requesterPbk rawBytes arrivals n sigMap rule: swap_attempts.induct)
  case (1 V committee requesterPbk rawBytes arrivals n sigMap)
  show ?case
    using collect_swap_incomplete [OF 1(2,3), of V committee rawBytes "arrivals n"] 1(1)
    by (subst swap_attempts.simps) (auto split: option.splits prod.splits bool.splits, blast)
qed

lemma swap_round_idle: "swap_round E now senderID candidates arrivals chainID s \<in> {(Ok (), s), (Panic, s)}"
  using swap_attempts_incomplete [of "[]" "producer_pbk s" "ee_ecdsa E" "GetCommittee s"
      "GetMsgByte (swap_request s now chainID (next_producer E candidates) senderID)" arrivals 0]
  by (auto simp: swap_round_def Let_def split: option.splits bool.splits)

lemma ekeeps_ask_blocks: "heights_only Q \<Longrightarrow> ekeeps Q (ask_blocks known is)"
proof (induction "is")
  case (Cons i "is")
  then have "ekeeps Q (ebind (send_msg ToAll m) (\<lambda>_. ask_blocks known is))" for m
    by (intro ekeeps_intro) simp_all
  then show ?case using Cons by (auto simp: ekeeps_def split: option.splits)
qed (simp add: ekeeps_pure)

lemma ekeeps_producer_round:
  assumes "heights_only Q" "\<And>b. ekeeps Q (set_heights b)"
  shows "ekeeps Q (producer_round E now template waits)"
proof (rule ekeepsI)
  fix s assume "Q s"
  then have Q: "Q (s\<lparr>eg_committee := (eg_committee s)\<lparr>cmWatcherStarted := True\<rparr>\<rparr>)"
    "Q (s\<lparr>eg_committee := StopCommitteeWatcher (eg_committee s)\<rparr>)"
    by (auto intro: heights_onlyD [OF assms(1)] simp: StopCommitteeWatcher_def)
  have "ekeeps Q (elog (ebind (of_result t) (Finalize E now waits)))" for t
    unfolding Finalize_def by (intro ekeeps_intro ekeeps_Finalize assms)
  then show "Q (snd (producer_round E now template waits s))"
    using Q \<open>Q s\<close> ekeeps_ask_blocks [OF assms(1)]
    by (auto simp: producer_round_def Let_def intro: ekeeps_at)
qed

lemma heights_only_frame: "heights_only Q \<Longrightarrow> Q s \<Longrightarrow> Q (s\<lparr>MemPool := tp, eg_chain := c\<rparr>)"
  by (rule heights_onlyD) simp_all

lemma handler_ok_step: "handler_step E s s' \<Longrightarrow> engine_ok s \<Longrightarrow> engine_ok s'"
proof (induction rule: handler_step.induct)
  case (recv_block now later block s s')
  then show ?case by (metis ekeepsD ekeeps_OnBlockReceived heights_only_ok set_heights_ok)
next
  case (recv_request later block senderID s s')
  then show ?case by (metis ekeepsD ekeeps_OnRequestSign heights_only_ok)
next
  case (recv_state senderID chainsHeight s s')
  then show ?case by (metis ekeepsD OnChainStateReceived_ok)
next
  case (recv_get_state senderID s s')
  then show ?case by (metis ekeepsD ekeeps_OnGetChainState heights_only_ok)
next
  case (recv_swap_request now msg s s')
  then show ?case by (metis ekeepsD ekeeps_OnSwapRequest heights_only_ok)
next
  case (recv_swap_update now upd s s')
  then show ?case by (metis ekeepsD OnSwapUpdate_ok)
next
  case (swap now senderID candidates arrivals chainID s s')
  then show ?case using swap_round_idle [of E now senderID candidates arrivals chainID s] by simp
next
  case (recv_tx clk tx s r tp c)
  then show ?case by (simp add: heights_only_frame)
qed

lemma engine_ok_step: "engine_step E s s' \<Longrightarrow> engine_ok s \<Longrightarrow> engine_ok s'"
  by (erule engine_step.cases) (metis handler_ok_step, metis ekeepsD ekeeps_producer_round heights_only_ok set_heights_ok)

subsection \<open>Signatures of peers\<close>

text \<open>
  \<open>Verify\<close> of \<open>signature.go\<close> on the curve \<open>C\<close>, with \<open>verify\<close> for \<open>ecdsa.Verify\<close>: the key is decompressed and the
  error is dropped, so that a bad key leaves a nil point, which is dereferenced.
\<close>

definition p256_ecdsa :: "curve \<Rightarrow> (int \<times> int \<Rightarrow> bytes \<Rightarrow> nat \<Rightarrow> nat \<Rightarrow> bool) \<Rightarrow> (bytes \<Rightarrow> bytes) \<Rightarrow> ecdsa" where
  "p256_ecdsa C verify spare =
     \<lparr>ec_Verify = (\<lambda>address hash r s. case DecompressKey C address of Ok p \<Rightarrow> Some (verify p hash r s) | _ \<Rightarrow> None),
      ec_spare = spare\<rparr>"

text \<open>\<open>ValidateDataB58\<close> verifies under the empty key: it crashes on every well-formed key and signature.\<close>

lemma ValidateDataB58_p256:
  "ValidateDataB58 (p256_ecdsa C verify spare) pubkey sig data =
     (case Base58Check_Decode pubkey of
        Ok _ \<Rightarrow> (case Base58Check_Decode sig of Ok _ \<Rightarrow> Panic | Err _ \<Rightarrow> Err BadSignatureEncoding | Panic \<Rightarrow> Panic)
      | Err _ \<Rightarrow> Err BadPublicKey | Panic \<Rightarrow> Panic)"
  by (auto simp: ValidateDataB58_def KeySet_Verify_def privacy_Verify_def p256_ecdsa_def DecompressKey_def
      split: res.splits option.splits)

lemma ValidateDataB58_not_Ok [simp]: "ValidateDataB58 (p256_ecdsa C verify spare) pubkey sig data \<noteq> Ok ()"
  by (simp add: ValidateDataB58_p256 split: res.splits)

lemma ebind_Ok_iff: "ebind m f s = (Ok b, s'') \<longleftrightarrow> (\<exists>a s'. m s = (Ok a, s') \<and> f a s' = (Ok b, s''))"
  by (auto simp: ebind_def split: prod.splits res.splits)

lemma sanity_p256:
  assumes "ee_ecdsa E = p256_ecdsa C verify spare"
  shows "validateBlockSanity E later block s \<noteq> (Ok b, s')" "validatePreSignBlockSanity E later block s \<noteq> (Ok b, s')"
  by (auto simp: validateBlockSanity_def validatePreSignBlockSanity_def Let_def ebind_Ok_iff of_result_def assms epanic_def
      map_err_Ok_iff split: if_splits)

lemma sanity_state:
  assumes "ee_ecdsa E = p256_ecdsa C verify spare"
  shows "snd (validateBlockSanity E later block s) = s" "snd (validatePreSignBlockSanity E later block s) = s"
  using ValidateDataB58_not_Ok [of C verify spare]
  by (auto simp: validateBlockSanity_def validatePreSignBlockSanity_def Let_def ebind_def of_result_def assms epanic_def
      block_hash_bytes_def or_crash_def eret_def map_err_Ok_iff split: if_splits res.splits option.splits)

text \<open>The states that differ from \<open>s\<close> in the database only.\<close>

definition db_only :: "'d engine \<Rightarrow> 'd engine \<Rightarrow> bool" where
  "db_only s s' \<longleftrightarrow> (\<exists>d. s' = s\<lparr>eg_chain := (eg_chain s)\<lparr>ch_db := d\<rparr>\<rparr>)"

lemma db_only_refl [simp]: "db_only s s"
  unfolding db_only_def by (rule exI [of _ "ch_db (eg_chain s)"]) simp

lemma OnBlockReceived_p256:
  assumes "ee_ecdsa E = p256_ecdsa C verify spare"
  shows "db_only s (snd (OnBlockReceived E now later block s))"
proof -
  have "snd (ebind (validateBlockSanity E later block) (UpdateChain E now) s') = s'" for s'
    using sanity_p256(1) [OF assms, of later block s'] sanity_state(1) [OF assms, of later block s']
    by (auto simp: ebind_def split: prod.splits res.splits)
  then have v: "ekeeps (db_only s) (ebind (validateBlockSanity E later block) (UpdateChain E now))"
    by (simp add: ekeeps_def)
  have b: "ekeeps (db_only s) (on_chain (BlockExists (ee_chain E) h))" for h
    by (auto simp: ekeeps_def db_only_def on_chain_def BlockExists_def bwrap_def db_op_def split: prod.splits)
  have "ekeeps (db_only s) (ebind (or_crash (Block_Hash (ce_PS (ee_chain E)) block)) (\<lambda>h.
      elog (ebind (on_chain (BlockExists (ee_chain E) h)) (\<lambda>exists.
        if exists then eret () else ebind (validateBlockSanity E later block) (UpdateChain E now)))))"
    by (intro ekeeps_intro v b)
  then show ?thesis
    unfolding OnBlockReceived_def Let_def by (auto intro: ekeeps_at)
qed

lemma count_leaders_p256: "count_leaders (p256_ecdsa C verify spare) rawBytes committee sigs \<in> {None, Some 0}"
  by (induction sigs) (auto split: res.splits if_splits)

lemma OnSwapUpdate_p256:
  assumes "ee_ecdsa E = p256_ecdsa C verify spare"
  shows "snd (OnSwapUpdate E now msg s) = s"
proof -
  have "count_leaders (p256_ecdsa C verify spare) raw c sigs \<noteq> Some (Suc n)" for raw c sigs n
    using count_leaders_p256 [of C verify spare raw c sigs] by auto
  then show ?thesis
    by (auto simp: OnSwapUpdate_def Let_def assms TotalValidators_def gr0_conv_Suc not_less split: option.splits)
       (metis Suc_numeral Suc_le_D numeral_nat(2))+
qed

lemma collect_sigs_p256:
  "collect_sigs (p256_ecdsa C verify spare) blockHash committee arrived sigs n = Some sigs' \<Longrightarrow> sigs' = sigs"
  by (induction arrived) (auto simp: Let_def split: if_splits res.splits)

lemma db_only_keeps: "heights_only Q \<Longrightarrow> db_only s s' \<Longrightarrow> Q s \<Longrightarrow> Q s'"
  by (auto simp: db_only_def intro: heights_onlyD)

text \<open>With the signatures of peers refused, a step changes heights and committee only by a peer's chain state
  or by producing a block.\<close>

lemma handler_p256:
  assumes V: "ee_ecdsa E = p256_ecdsa C verify spare" and Q: "heights_only Q"
    and state: "\<And>senderID ch. ekeeps Q (OnChainStateReceived E senderID ch)"
    and "handler_step E s s'" "Q s"
  shows "Q s'"
  using assms(4,5)
proof (induction rule: handler_step.induct)
  case (recv_block now later block s s')
  then show ?case using db_only_keeps [OF Q] OnBlockReceived_p256 [OF V, of s now later block] by simp
next
  case (recv_request later block senderID s s')
  then show ?case by (metis ekeepsD ekeeps_OnRequestSign Q)
next
  case (recv_state senderID chainsHeight s s')
  then show ?case by (metis ekeepsD state)
next
  case (recv_get_state senderID s s')
  then show ?case by (metis ekeepsD ekeeps_OnGetChainState Q)
next
  case (recv_swap_request now msg s s')
  then show ?case by (metis ekeepsD ekeeps_OnSwapRequest Q)
next
  case (recv_swap_update now upd s s')
  then show ?case using OnSwapUpdate_p256 [OF V, of now upd s] by simp
next
  case (swap now senderID candidates arrivals chainID s s')
  then show ?case using swap_round_idle [of E now senderID candidates arrivals chainID s] by simp
next
  case (recv_tx clk tx s r tp c)
  then show ?case by (simp add: heights_only_frame Q)
qed

lemma step_p256:
  assumes "ee_ecdsa E = p256_ecdsa C verify spare" and "heights_only Q"
    and "\<And>senderID ch. ekeeps Q (OnChainStateReceived E senderID ch)"
    and round: "\<And>now template waits. ekeeps Q (producer_round E now template waits)"
    and step: "engine_step E s s'" "Q s"
  shows "Q s'"
  using step(1)
proof cases
  case handle
  then show ?thesis by (rule handler_p256 [OF assms(1-3) _ step(2)])
next
  case (produce now template waits)
  then show ?thesis using round step(2) by (metis ekeepsD)
qed

lemma engine_reachable_keeps:
  assumes "engine_reachable E s s'" "\<And>s s'. engine_step E s s' \<Longrightarrow> Q s \<Longrightarrow> Q s'" "Q s"
  shows "Q s'"
  using assms(1) unfolding engine_reachable_def
  by (induction rule: rtranclp_induct) (auto simp: assms(2,3))

text \<open>The committee \<open>c\<close> of a node whose heights have the right length.\<close>

definition committee_is :: "string list \<Rightarrow> 'd engine \<Rightarrow> bool" where
  "committee_is c s \<longleftrightarrow> CurrentCommittee (eg_committee s) = c \<and> length (validatedHeights s) = TotalValidators"

lemma heights_only_committee [simp]: "heights_only (committee_is c)"
  by (simp add: heights_only_def committee_is_def)

lemma committee_round: "ekeeps (committee_is c) (producer_round E now template waits)"
proof (rule ekeeps_producer_round)
  show "ekeeps (committee_is c) (set_heights b)" for b
    by (rule ekeepsI)
      (auto simp: committee_is_def set_heights_def sendBlockMsg_def send_msg_def eret_def ebind_def Let_def)
qed simp

lemma committee_state: "ekeeps (committee_is c) (OnChainStateReceived E senderID ch)"
proof (cases ch)
  case (Some hs)
  have "ekeeps (committee_is c) (chain_state_loop E senderID hs is)" for "is"
    by (rule chain_state_keeps) (auto simp: committee_is_def)
  then show ?thesis using Some by (auto simp: committee_is_def intro!: ekeeps_OnChainState)
qed (simp add: OnChainStateReceived_def ekeeps_pure)

text \<open>Validating a chain at the start raises its validated height, never above the known one.\<close>

definition known_is :: "int list \<Rightarrow> 'd engine \<Rightarrow> bool" where
  "known_is ks s \<longleftrightarrow> engine_ok s \<and> knownHeights s = ks"

lemma heights_only_known [simp]: "heights_only (known_is ks)"
  by (simp add: heights_only_def known_is_def engine_ok_def)

lemma validate_chain_ok:
  assumes "known \<le> ks ! unat chainID" "unat chainID < TotalValidators"
  shows "ekeeps (known_is ks) (validate_chain E chainID known h)"
  using assms
proof (induction E chainID known h rule: validate_chain.induct)
  case (1 E chainID known h)
  show ?case
  proof (cases "h > known")
    case True
    then show ?thesis by (subst validate_chain.simps) (simp add: ekeeps_pure)
  next
    case False
    then have set: "ekeeps (known_is ks) (\<lambda>s. (Ok (), s\<lparr>validatedHeights := (validatedHeights s)[unat chainID := h]\<rparr>))"
      using 1(2,3) by (auto simp: ekeeps_def known_is_def engine_ok_def nth_list_update)
    from False show ?thesis
      by (subst validate_chain.simps) (auto intro!: ekeeps_intro set 1)
  qed
qed

lemma validate_chains_ok:
  assumes "set order \<subseteq> {..<TotalValidators}"
  shows "ekeeps (known_is ks) (validate_chains E order noticed)"
  using assms
proof (induction order)
  case (Cons c order)
  have "known_is ks (snd (validate_chains E (c # order) noticed s))" if "known_is ks s" for s
  proof -
    have "unat (of_nat c :: byte) = c" using Cons.prems by (simp add: unat_of_nat TotalValidators_def)
    then have k: "ekeeps (known_is ks) (validate_chain E (of_nat c) (knownHeights s ! c) 2)"
      using Cons.prems that by (intro validate_chain_ok) (simp_all add: known_is_def)
    have "ekeeps (known_is ks) (ebind (validate_chains E order noticed) (\<lambda>x. eret (f x)))" for f :: "cs_error option \<Rightarrow> cs_error option"
      using Cons by (intro ekeeps_intro) simp
    then show ?thesis using ekeepsD [OF k that] by (auto split: prod.splits res.splits intro: ekeeps_at)
  qed
  then show ?case by (simp add: ekeeps_def)
qed (simp add: ekeeps_pure)

lemma Start_ok:
  assumes "Start E order noticed s0 = (Ok (), s)" "length (GenesisCommittee E) = TotalValidators"
    "distinct (GenesisCommittee E)" "set order \<subseteq> {..<TotalValidators}"
    "\<And>i. i < TotalValidators \<Longrightarrow> 1 \<le> bs_Height (BestStates (eg_chain s0) ! i)"
  shows "engine_ok s"
proof -
  let ?s = "start_state E s0"
  have ok: "engine_ok ?s"
    using assms(2,3,5) by (simp add: engine_ok_def start_state_def copy_committee_def)
  show ?thesis
  proof (cases "\<exists>fes. FeeEstimators (MemPool ?s) = Some fes \<and> fes 0 \<noteq> None")
    case True
    then show ?thesis using assms(1) ok by (auto simp: Start_def Let_def engine_ok_def split: if_splits)
  next
    case False
    then obtain fes s' where run: "validate_chains E order noticed (?s\<lparr>MemPool := (MemPool ?s)\<lparr>FeeEstimators := Some fes\<rparr>\<rparr>) = (Ok None, s')"
      and s: "s = s'\<lparr>started := True\<rparr>"
      using assms(1) by (auto simp: Start_def Let_def ebind_Ok_iff split: if_splits option.splits)
    have "known_is (knownHeights ?s) (?s\<lparr>MemPool := (MemPool ?s)\<lparr>FeeEstimators := Some fes\<rparr>\<rparr>)"
      using ok by (simp add: known_is_def engine_ok_def)
    then have "known_is (knownHeights ?s) s'" using ekeepsD [OF validate_chains_ok [OF assms(4)] _ run] by blast
    then show ?thesis using s by (auto simp: known_is_def engine_ok_def)
  qed
qed

lemma count_sigs_eq:
  "count_sigs V h sigs k committee =
     (if \<exists>i<length committee. sig_counts V h sigs (k + i) (committee ! i) = None then None
      else Some (card {i. i < length committee \<and> sig_counts V h sigs (k + i) (committee ! i) = Some True}))"
proof (induction committee arbitrary: k)
  case (Cons v committee)
  let ?P = "\<lambda>i. sig_counts V h sigs (Suc k + i) (committee ! i)"
  let ?A = "{i. i < length committee \<and> ?P i = Some True}"
  have none: "(\<exists>i<length (v # committee). sig_counts V h sigs (k + i) ((v # committee) ! i) = None) \<longleftrightarrow>
      sig_counts V h sigs k v = None \<or> (\<exists>i<length committee. ?P i = None)"
    by (auto simp: Ex_less_Suc2)
  have "{i. i < length (v # committee) \<and> sig_counts V h sigs (k + i) ((v # committee) ! i) = Some True} =
      (if sig_counts V h sigs k v = Some True then {0} else {}) \<union> Suc ` ?A"
    by (auto simp: less_Suc_eq_0_disj image_iff)
  moreover have "card ({0} \<union> Suc ` ?A) = Suc (card ?A)" "card (Suc ` ?A) = card ?A"
    by (simp_all add: card_image card_insert_if)
  ultimately show ?case unfolding none by (auto simp: Cons.IH split: option.splits)
qed simp

lemma Base58Check_Decode_total: "Base58Check_Decode x \<noteq> Panic"
  by (simp add: Base58Check_Decode_def Let_def)

lemma sig_counts_p256:
  "sig_counts (p256_ecdsa C verify spare) h sigs i validator = None \<longleftrightarrow>
     (\<exists>pk v. Base58Check_Decode validator = Ok (pk, v) \<and>
        (length sigs \<le> i \<or> (\<exists>sg w. Base58Check_Decode (sigs ! i) = Ok (sg, w) \<and>
           (FromByteArrayToSig (spare sg) sg = None \<or> DecompressKey C pk = Panic \<or> (\<exists>e. DecompressKey C pk = Err e)))))"
  "sig_counts (p256_ecdsa C verify spare) h sigs i validator = Some True \<longleftrightarrow> i < length sigs \<and>
     (\<exists>pk v sg w r s p. Base58Check_Decode validator = Ok (pk, v) \<and> Base58Check_Decode (sigs ! i) = Ok (sg, w) \<and>
        FromByteArrayToSig (spare sg) sg = Some (r, s) \<and> DecompressKey C pk = Ok p \<and> verify p (HashB h) r s)"
  using Base58Check_Decode_total
  by (auto simp: sig_counts_def KeySet_Verify_def privacy_Verify_def p256_ecdsa_def split: res.splits option.splits prod.splits)

lemma Base58Check_Decode_Nil: "Base58Check_Decode [] = Err ErrInvalidFormat"
  by (simp add: Base58Check_Decode_def Base58_Decode_def)

lemma one_signature_refused:
  assumes "\<And>j. j < length sigs \<Longrightarrow> j \<noteq> i \<Longrightarrow> sigs ! j = []"
  shows "ValidateCommitteeSigs V h committee sigs \<noteq> Ok ()"
proof -
  have "{j. j < length committee \<and> sig_counts V h sigs (0 + j) (committee ! j) = Some True} \<subseteq> {i}"
  proof
    fix j assume "j \<in> {j. j < length committee \<and> sig_counts V h sigs (0 + j) (committee ! j) = Some True}"
    then have "j < length sigs" "sigs ! j \<noteq> []"
      by (auto simp: sig_counts_def Base58Check_Decode_Nil split: res.splits if_splits)
    then show "j \<in> {i}" using assms by auto
  qed
  from card_mono [OF _ this] show ?thesis
    by (simp add: ValidateCommitteeSigs_def count_sigs_eq)
qed

subsection \<open>A small engine\<close>

definition example_committee :: "string list" where
  "example_committee = map (\<lambda>n. [char_of (65 + n)]) [0..<20]"

definition example_engine_env :: "(bytes \<times> bytes) list engine_env" where
  "example_engine_env = \<lparr>ee_pool = example_pool_env\<lparr>pl_valid := (pl_valid example_pool_env)
       \<lparr>ve_ecdsa := p256_ecdsa example_curve (\<lambda>_ _ _ _. True) (\<lambda>_. [])\<rparr>\<rparr>,
     ecdsa_Sign = (\<lambda>_ _. Some (1, 1)), GenesisCommittee = example_committee, invalid_json = (\<lambda>_ _ _ _. []),
     GetPeerIDs = (\<lambda>_. []), IDB58Decode = (\<lambda>_. None), est_order = id, est_rnd = id\<rparr>"

definition example_engine :: "(bytes \<times> bytes) list engine" where
  "example_engine = \<lparr>started = False, producerStarted = False, knownHeights = [], validatedHeights = [],
     eg_committee = \<lparr>ValidatorBlkNum = Map.empty, ValidatorReliablePts = Map.empty, CurrentCommittee = [], cmWatcherStarted = False\<rparr>,
     ProducerKeySet = empty_KeySet,
     eg_chain = example_chain\<lparr>BestStates := replicate 20 (empty_BestState\<lparr>bs_Height := 1, BestBlockHash := Some zero_hash\<rparr>)\<rparr>,
     MemPool = TxPool_Init (Some (\<lambda>_. Some (NewFeeEstimator 2 3))) 0, sent = []\<rparr>"

definition example_started :: "(bytes \<times> bytes) list engine" where
  "example_started = example_engine\<lparr>started := True, knownHeights := replicate 20 1, validatedHeights := replicate 20 1,
     eg_committee := (eg_committee example_engine)\<lparr>CurrentCommittee := example_committee\<rparr>\<rparr>"

lemma example_start: "Start example_engine_env [] (\<lambda>_. True) example_engine = (Ok (), example_started)"
  by (simp add: Start_def start_state_def example_engine_def example_engine_env_def example_started_def TxPool_Init_def
      TotalValidators_def example_committee_def copy_committee_def Let_def upt_rec numeral_nat)

lemma example_V: "ee_ecdsa example_engine_env = p256_ecdsa example_curve (\<lambda>_ _ _ _. True) (\<lambda>_. [])"
  by (simp add: example_engine_env_def)

lemma example_started_ok: "engine_ok example_started"
proof (rule Start_ok [OF example_start])
  show "distinct (GenesisCommittee example_engine_env)"
    by (simp add: example_engine_env_def example_committee_def distinct_map inj_on_def)
qed (simp_all add: example_engine_env_def example_committee_def TotalValidators_def example_engine_def)

definition example_heights :: "int list" where
  "example_heights = 5 # replicate 19 1"

definition example_lagging :: "(bytes \<times> bytes) list engine" where
  "example_lagging = example_started\<lparr>knownHeights := example_heights\<rparr>"

lemma example_message: "OnChainStateReceived example_engine_env [] (Some example_heights) example_started = (Ok (), example_lagging)"
  by (simp add: OnChainStateReceived_def example_started_def example_engine_def example_lagging_def example_heights_def
      example_engine_env_def upt_rec numeral_nat Let_def ebind_def eret_def)

subsection \<open>Properties\<close>

text \<open>Claim C10 (invariant): from a start with a committee of twenty different keys, and whatever messages, transactions,
  swaps and rounds of the producer follow, the committee keeps twenty different members, there are
  twenty known and twenty validated heights, and no chain is validated beyond the height known of it.\<close>

theorem engine_invariant:
  assumes "Start E order noticed s0 = (Ok (), s)" and "length (GenesisCommittee E) = TotalValidators"
    and "distinct (GenesisCommittee E)" and "set order \<subseteq> {..<TotalValidators}"
    and "\<And>i. i < TotalValidators \<Longrightarrow> 1 \<le> bs_Height (BestStates (eg_chain s0) ! i)" and "engine_reachable E s s'"
  shows "engine_ok s'"
  by (rule engine_reachable_keeps [OF assms(6)]) (auto intro: engine_ok_step Start_ok [OF assms(1-5)])

theorem engine_invariant_witness: "engine_ok example_lagging"
proof (rule engine_invariant [OF example_start])
  show "engine_reachable example_engine_env example_started example_lagging"
    unfolding engine_reachable_def by (rule r_into_rtranclp engine_step.handle handler_step.recv_state example_message)+
  show "distinct (GenesisCommittee example_engine_env)"
    by (simp add: example_engine_env_def example_committee_def distinct_map inj_on_def)
qed (simp_all add: example_engine_env_def example_committee_def TotalValidators_def example_engine_def)

text \<open>Claim C11 (safety): no block of a peer is ever connected. With the signature check of the code, \<open>ValidateDataB58\<close>
  verifies under an empty key and crashes on every well-formed key and signature; so neither check of a
  block succeeds, and a received block changes nothing but (possibly) the database it is looked up in.\<close>

theorem peer_blocks_never_connected:
  assumes "ee_ecdsa E = p256_ecdsa C verify spare"
  shows "fst (validateBlockSanity E later block s) \<noteq> Ok b \<and> fst (validatePreSignBlockSanity E later block s) \<noteq> Ok b \<and>
    (\<exists>d. snd (OnBlockReceived E now later block s) = s\<lparr>eg_chain := (eg_chain s)\<lparr>ch_db := d\<rparr>\<rparr>) \<and>
    (Base58Check_Decode pubkey = Ok x \<longrightarrow> Base58Check_Decode sig = Ok y \<longrightarrow> ValidateDataB58 (ee_ecdsa E) pubkey sig data = Panic)"
proof (intro conjI impI)
  show "fst (validateBlockSanity E later block s) \<noteq> Ok b" "fst (validatePreSignBlockSanity E later block s) \<noteq> Ok b"
    using sanity_p256 [OF assms] by (metis prod.collapse)+
  show "\<exists>d. snd (OnBlockReceived E now later block s) = s\<lparr>eg_chain := (eg_chain s)\<lparr>ch_db := d\<rparr>\<rparr>"
    using OnBlockReceived_p256 [OF assms] unfolding db_only_def .
  show "ValidateDataB58 (ee_ecdsa E) pubkey sig data = Panic"
    if "Base58Check_Decode pubkey = Ok x" "Base58Check_Decode sig = Ok y"
    using that by (simp add: assms ValidateDataB58_p256)
qed

theorem peer_blocks_never_connected_witness:
  "ValidateDataB58 (p256_ecdsa example_curve (\<lambda>_ _ _ _. True) (\<lambda>_. [])) (Base58Check_Encode [1] 0) (Base58Check_Encode [2] 0) [] = Panic \<and>
   fst (validateBlockSanity example_engine_env (replicate 20 1) (example_block TxNormalType) example_started) \<noteq> Ok (example_block TxNormalType)"
  using peer_blocks_never_connected [OF example_V, of "replicate 20 1" "example_block TxNormalType" example_started
      "example_block TxNormalType" 0 "Base58Check_Encode [1] 0" "([1], 0)" "Base58Check_Encode [2] 0" "([2], 0)" "[]"]
    Base58Check_Decode_Encode [of "[1]" 0] Base58Check_Decode_Encode [of "[2]" 0]
  by (simp add: example_V)

text \<open>Claim C13 (safety): the committee never changes. A swap of the node's own never completes, as the collector
  accepts only the signature of the requester itself and waits for ten; this holds for any signature
  scheme. An update of a peer never has a valid signature, so that with the signature check of the code
  every reachable state has the committee of the first.\<close>

theorem committee_never_changes:
  assumes "ee_ecdsa E = p256_ecdsa C verify spare" and "engine_ok s" and "engine_reachable E s s'"
  shows "CurrentCommittee (eg_committee s') = CurrentCommittee (eg_committee s) \<and>
    swap_round E' now senderID candidates arrivals chainID t \<in> {(Ok (), t), (Panic, t)}"
proof
  have "committee_is (CurrentCommittee (eg_committee s)) s" using assms(2) by (simp add: committee_is_def engine_ok_def)
  then have "committee_is (CurrentCommittee (eg_committee s)) s'"
    by (rule engine_reachable_keeps [OF assms(3), rotated])
      (rule step_p256 [OF assms(1) heights_only_committee committee_state committee_round])
  then show "CurrentCommittee (eg_committee s') = CurrentCommittee (eg_committee s)" by (simp add: committee_is_def)
qed (rule swap_round_idle)

theorem committee_never_changes_witness:
  "CurrentCommittee (eg_committee example_lagging) = CurrentCommittee (eg_committee example_started)"
proof -
  have "engine_reachable example_engine_env example_started example_lagging"
    unfolding engine_reachable_def by (rule r_into_rtranclp engine_step.handle handler_step.recv_state example_message)+
  then show ?thesis
    using committee_never_changes [OF example_V example_started_ok, of example_lagging example_engine_env 0 "[]" "[]" "\<lambda>_. []" 0 example_started]
    by simp
qed

text \<open>Claim C14 (functional): the signatures of a block are accepted exactly when at least ten members of its committee
  have a valid one. A member counts when its key and the string at its position decode, the decoded bytes
  split into \<open>r\<close> and \<open>s\<close>, the key is a point of the curve and \<open>ecdsa.Verify\<close> accepts \<open>r\<close> and \<open>s\<close> for
  the hash of the block hash under it. A key or a signature that does not decode only makes the member not
  count; a member whose key decodes crashes the node when there is no string at its position, or when
  the decoded signature is too short to be split or the key is no point of the curve. Ten is one less
  than \<open>MinBlockSigs\<close>.\<close>

theorem committee_signatures_iff:
  "ValidateCommitteeSigs (p256_ecdsa C verify spare) h committee sigs =
     (if \<exists>i<length committee. \<exists>pk v. Base58Check_Decode (committee ! i) = Ok (pk, v) \<and>
           (length sigs \<le> i \<or> (\<exists>sg w. Base58Check_Decode (sigs ! i) = Ok (sg, w) \<and>
              (FromByteArrayToSig (spare sg) sg = None \<or> DecompressKey C pk = Panic \<or> (\<exists>e. DecompressKey C pk = Err e))))
      then Panic
      else if card {i. i < length committee \<and> i < length sigs \<and> (\<exists>pk v sg w r s p.
           Base58Check_Decode (committee ! i) = Ok (pk, v) \<and> Base58Check_Decode (sigs ! i) = Ok (sg, w) \<and>
           FromByteArrayToSig (spare sg) sg = Some (r, s) \<and> DecompressKey C pk = Ok p \<and> verify p (HashB h) r s)} < MinBlockSigs - 1
      then Err (ConsensusError ErrNotEnoughSigs) else Ok ())"
proof -
  have ten: "MinBlockSigs - 1 = 10" by (simp add: MinBlockSigs_def TotalValidators_def)
  show ?thesis
    unfolding ValidateCommitteeSigs_def count_sigs_eq sig_counts_p256 add_0 ten by (simp only: option.case split: if_split) simp
qed

text \<open>Claim C15 (safety): a block a node finalizes carries its own signature only, whatever signatures arrive while it waits,
  and the check of the committee's signatures refuses it under every signature scheme.\<close>

theorem own_blocks_lack_signatures:
  assumes "ee_ecdsa E = p256_ecdsa C verify spare" and "fresh_sigs E s block = Ok b"
    and "collect_sigs (ee_ecdsa E) h (Committee (Header b)) arrived (BlockCommitteeSigs (Header b)) 0 = Some sigs"
  shows "(\<forall>j. j \<noteq> unat (ChainID (Header block)) \<and> j < TotalValidators \<longrightarrow> sigs ! j = []) \<and>
    ValidateCommitteeSigs V h' committee sigs \<noteq> Ok ()"
proof -
  have "sigs = BlockCommitteeSigs (Header b)" using assms(3) unfolding assms(1) by (rule collect_sigs_p256)
  then have s: "sigs ! j = []" "length sigs = TotalValidators" if "j \<noteq> unat (ChainID (Header block))" "j < TotalValidators" for j
    using assms(2) that by (auto simp: fresh_sigs_def Let_def and_then_Ok_iff split: option.splits if_splits)
  moreover have "length sigs = TotalValidators"
    using \<open>sigs = _\<close> assms(2) by (auto simp: fresh_sigs_def Let_def and_then_Ok_iff split: option.splits if_splits)
  ultimately show ?thesis using one_signature_refused [of sigs "unat (ChainID (Header block))" V h' committee] by auto
qed

theorem own_blocks_lack_signatures_witness:
  "\<exists>b sigs. fresh_sigs example_engine_env example_started (example_block TxNormalType) = Ok b \<and>
     collect_sigs (ee_ecdsa example_engine_env) [] (Committee (Header b)) [(''A'', [])] (BlockCommitteeSigs (Header b)) 0 = Some sigs \<and>
     ValidateCommitteeSigs example_ecdsa [] example_committee sigs \<noteq> Ok ()"
proof -
  obtain h where "Block_Hash (ce_PS example_node) ((example_block TxNormalType)\<lparr>Header := example_header
      \<lparr>BlockCommitteeSigs := replicate TotalValidators [], Committee := copy_committee (GetCommittee example_started)\<rparr>\<rparr>) = Some h"
    by (simp add: Block_Hash_def example_block_def)
  then have f: "\<exists>b. fresh_sigs example_engine_env example_started (example_block TxNormalType) = Ok b"
    by (simp add: fresh_sigs_def Let_def example_parts example_header_def TotalValidators_def example_engine_env_def
        example_pool_env_def signData_def)
  then obtain b where b: "fresh_sigs example_engine_env example_started (example_block TxNormalType) = Ok b" by blast
  have "\<exists>sigs. collect_sigs (ee_ecdsa example_engine_env) [] (Committee (Header b)) [(''A'', [])] (BlockCommitteeSigs (Header b)) 0 = Some sigs"
    using Base58Check_Decode_total [of "''A''"]
    by (auto simp: Let_def example_V ValidateDataB58_p256 Base58Check_Decode_Nil split: res.splits)
  then obtain sigs where c: "collect_sigs (ee_ecdsa example_engine_env) [] (Committee (Header b)) [(''A'', [])] (BlockCommitteeSigs (Header b)) 0 = Some sigs"
    by blast
  then show ?thesis using b own_blocks_lack_signatures [OF example_V b c, of example_ecdsa "[]" example_committee] by blast
qed

end
