(* ===== verification/Interleaving.thy ===== *)
theory Interleaving
  imports Consensus
begin

text \<open>
  The producer's loop of \<open>StartProducer\<close> with messages of peers coming in between. A round (check the
  heights, create a block, collect signatures, seal it, and the calls of \<open>UpdateChain\<close>) is split at every
  call, since no lock is held from one call to the next; the state of the goroutine between two calls is a
  \<open>round_phase\<close> with the block it works on. Handlers of messages run between any two calls, and the handler
  of a chain state message also entry by entry. What is one step here reads and writes one height.

  Shown: what a chain state message with a greater height does to the producer when rounds are split.
\<close>

subsection \<open>The round in flight\<close>

text \<open>The two updates of the heights in \<open>UpdateChain\<close>, each under a lock of its own.\<close>

definition set_known :: "Block \<Rightarrow> ('d, unit) egm" where
  "set_known block = (\<lambda>self.
     let i = unat (ChainID (Header block)); h = hd_Height (Header block) in
     if length (knownHeights self) \<le> i then (Panic, self)
     else if knownHeights self ! i < h then sendBlockMsg block (self\<lparr>knownHeights := (knownHeights self)[i := h]\<rparr>)
     else (Ok (), self))"

definition set_validated :: "Block \<Rightarrow> ('d, unit) egm" where
  "set_validated block = (\<lambda>self.
     let i = unat (ChainID (Header block)) in
     if length (validatedHeights self) \<le> i then (Panic, self)
     else (Ok (), self\<lparr>validatedHeights := (validatedHeights self)[i := hd_Height (Header block)]\<rparr>))"

text \<open>Where the goroutine of the producer is: between two rounds, after the check of the heights, before or
  after signing an attempt with its number, with a sealed block, and after each call of \<open>UpdateChain\<close>.\<close>

datatype round_phase =
    NoRound
  | Checked
  | Signing Block nat
  | Waiting Block nat
  | Sealed Block
  | Connected Block
  | Registered Block
  | Pooled Block
  | BestSet Block
  | Stored Block
  | Announced Block
  | Counted Block
  | Sending Block

fun phase_block :: "round_phase \<Rightarrow> Block option" where
  "phase_block NoRound = None"
| "phase_block Checked = None"
| "phase_block (Signing b n) = Some b"
| "phase_block (Waiting b n) = Some b"
| "phase_block (Sealed b) = Some b"
| "phase_block (Connected b) = Some b"
| "phase_block (Registered b) = Some b"
| "phase_block (Pooled b) = Some b"
| "phase_block (BestSet b) = Some b"
| "phase_block (Stored b) = Some b"
| "phase_block (Announced b) = Some b"
| "phase_block (Counted b) = Some b"
| "phase_block (Sending b) = Some b"

text \<open>The chain the round in flight works for: that of its block or, before there is one, the node's own.\<close>

definition round_chain :: "'d engine \<Rightarrow> round_phase \<Rightarrow> nat option" where
  "round_chain s ph =
     (if ph = Checked then Some (unat (getMyChain s)) else map_option (\<lambda>b. unat (ChainID (Header b))) (phase_block ph))"

subsection \<open>The steps\<close>

text \<open>A call of \<open>UpdateChain\<close> that fails ends it; the block is sent all the same.\<close>

inductive node_step :: "'d engine_env \<Rightarrow> 'd engine \<times> round_phase \<Rightarrow> 'd engine \<times> round_phase \<Rightarrow> bool" for E where
  handler: "handler_step E s s' \<Longrightarrow> node_step E (s, ph) (s', ph)"
| state_entry: "i < length (validatedHeights s) \<Longrightarrow> chain_state_loop E senderID hs [i] s = (Ok (), s') \<Longrightarrow> node_step E (s, ph) (s', ph)"
| check: "started s \<Longrightarrow> IntArrayEquals (knownHeights s) (validatedHeights s) \<Longrightarrow> unat (getMyChain s) < TotalValidators \<Longrightarrow>
    node_step E (s, NoRound) (s\<lparr>eg_committee := (eg_committee s)\<lparr>cmWatcherStarted := True\<rparr>\<rparr>, Checked)"
| ask: "started s \<Longrightarrow> \<not> IntArrayEquals (knownHeights s) (validatedHeights s) \<Longrightarrow>
    ask_blocks (knownHeights s) [0..<length (knownHeights s)] (s\<lparr>eg_committee := StopCommitteeWatcher (eg_committee s)\<rparr>) = (Ok (), s') \<Longrightarrow>
    node_step E (s, NoRound) (s', NoRound)"
| create: "createBlock s template = Ok b \<Longrightarrow> node_step E (s, Checked) (s, Signing b 0)"
| create_fails: "createBlock s template = Err e \<Longrightarrow> node_step E (s, Checked) (s, NoRound)"
| sign: "fresh_sigs E s b = Ok b' \<Longrightarrow> node_step E (s, Signing b n) (s, Waiting b' n)"
| sign_fails: "fresh_sigs E s b = Err e \<Longrightarrow> node_step E (s, Signing b n) (s, NoRound)"
| wait_exceeded: "n < MaxBlockRetry \<Longrightarrow> node_step E (s, Waiting b n) (s, Signing b (Suc n))"
| give_up: "node_step E (s, Waiting b n) (s, NoRound)"
| seal: "block_hash_bytes E b s = (Ok h, s) \<Longrightarrow>
    collect_sigs (ee_ecdsa E) h (Committee (Header b)) arrived (BlockCommitteeSigs (Header b)) 0 = Some sigs \<Longrightarrow>
    b' = b\<lparr>Header := (Header b)\<lparr>BlockCommitteeSigs := sigs\<rparr>\<rparr> \<Longrightarrow> signData E s (header_bytes E (Header b')) = Ok sig \<Longrightarrow>
    node_step E (s, Waiting b n) (s, Sealed (b'\<lparr>BlockProducerSig := sig\<rparr>))"
| seal_fails: "signData E s (header_bytes E ((Header b)\<lparr>BlockCommitteeSigs := sigs\<rparr>)) = Err e \<Longrightarrow>
    node_step E (s, Waiting b n) (s, NoRound)"
| connect: "on_chain (ConnectBlock (ee_chain E) b) s = (Ok b', s') \<Longrightarrow> node_step E (s, Sealed b) (s', Connected b')"
| connect_fails: "on_chain (ConnectBlock (ee_chain E) b) s = (Err e, s') \<Longrightarrow> node_step E (s, Sealed b) (s', Sending b)"
| register: "register_block E b s = (Ok (), s') \<Longrightarrow> node_step E (s, Connected b) (s', Registered b)"
| register_fails: "register_block E b s = (Err e, s') \<Longrightarrow> node_step E (s, Connected b) (s', Sending b)"
| pool: "remove_txs E now (txs_of b) s = (Ok (), s') \<Longrightarrow> node_step E (s, Registered b) (s', Pooled b)"
| best: "on_chain (update_best_state (ee_chain E) b) s = (Ok (), s') \<Longrightarrow> node_step E (s, Pooled b) (s', BestSet b)"
| best_fails: "on_chain (update_best_state (ee_chain E) b) s = (Err e, s') \<Longrightarrow> node_step E (s, Pooled b) (s', Sending b)"
| store: "on_chain (bc_StoreBestState (ee_chain E) (ChainID (Header b))) s = (r, s') \<Longrightarrow> r \<noteq> Panic \<Longrightarrow>
    node_step E (s, BestSet b) (s', Stored b)"
| announce: "set_known b s = (Ok (), s') \<Longrightarrow> node_step E (s, Stored b) (s', Announced b)"
| count: "set_validated b s = (Ok (), s') \<Longrightarrow> node_step E (s, Announced b) (s', Counted b)"
| points: "add_committee_points b s = (Ok (), s') \<Longrightarrow> node_step E (s, Counted b) (s', Sending b)"
| send: "sendBlockMsg b s = (Ok (), s') \<Longrightarrow> node_step E (s, Sending b) (s', NoRound)"

definition node_reachable :: "'d engine_env \<Rightarrow> 'd engine \<times> round_phase \<Rightarrow> 'd engine \<times> round_phase \<Rightarrow> bool" where
  "node_reachable E = (node_step E)\<^sup>*\<^sup>*"

inductive_cases check_cases: "node_step E (s, NoRound) (s', Checked)"

text \<open>Run one after the other, the two updates are that of \<open>UpdateChain\<close>.\<close>

lemma set_heights_split: "set_heights b = ebind (set_known b) (\<lambda>_. set_validated b)"
  by (rule ext)
    (auto simp: set_heights_def set_known_def set_validated_def sendBlockMsg_def send_msg_def ebind_def eret_def Let_def)

subsection \<open>The chain of the block in flight\<close>

lemma light_accounts_header: "light_accounts E nfs as b s = (Ok b', s') \<Longrightarrow> Header b' = Header b"
proof (induction "as" arbitrary: b s)
  case (Cons a "as")
  from Cons.prems obtain txs b1 s1 s2 where
    g: "bwrap unexpected_error (of_res (GetListUnspentTxByPrivateKeyInBlock E (walletKeys s ! a) b nfs True)) s = (Ok (txs, b1), s1)"
    and rest: "light_accounts E nfs as b1 s2 = (Ok b', s')"
    by (auto elim!: bbind_OkE)
  have "Header b1 = Header b"
    using g by (elim bwrap_OkE)
      (auto simp: of_res_def GetListUnspentTxByPrivateKeyInBlock_def Let_def and_then_Ok_iff)
  with Cons.IH [OF rest] show ?case by simp
qed (simp add: bret_def)

lemma ConnectBlock_header:
  assumes "ConnectBlock E b s = (Ok b', s')"
  shows "Header b' = Header b"
proof -
  obtain bh b1 s1 s2 where c: "(if ce_Light E then connect_light E b else connect_full E b bh) s1 = (Ok b1, s2)" and "b' = b1"
    using assms unfolding ConnectBlock_def by (elim bbind_OkE) (auto simp: bret_def)
  moreover have "Header b1 = Header b"
    using c by (auto simp: connect_light_def connect_full_def bret_def bfail_def elim!: bbind_OkE
        dest: light_accounts_header split: if_splits sum.splits)
  ultimately show ?thesis by simp
qed

lemma createBlock_chain: "createBlock s t = Ok b \<Longrightarrow> ChainID (Header b) = getMyChain s"
  by (auto simp: createBlock_def and_then_Ok_iff)

lemma fresh_sigs_chain: "fresh_sigs E s b = Ok b' \<Longrightarrow> ChainID (Header b') = ChainID (Header b)"
  by (auto simp: fresh_sigs_def Let_def and_then_Ok_iff split: option.splits if_splits)

subsection \<open>A node that is behind\<close>

text \<open>Chain \<open>i\<close> is known to be higher than the validated heights \<open>vs\<close>; of these only that of chain \<open>c\<close>, the
  chain of the round in flight, may have changed.\<close>

definition behind_on :: "nat \<Rightarrow> nat option \<Rightarrow> int list \<Rightarrow> byte \<Rightarrow> 'd engine \<Rightarrow> bool" where
  "behind_on i c vs mine s \<longleftrightarrow> length (knownHeights s) = TotalValidators \<and> length (validatedHeights s) = TotalValidators \<and>
     vs ! i < knownHeights s ! i \<and> (\<forall>j<TotalValidators. Some j \<noteq> c \<longrightarrow> validatedHeights s ! j = vs ! j) \<and> getMyChain s = mine"

lemma heights_only_behind [simp]: "heights_only (behind_on i c vs mine)"
  by (auto simp: heights_only_def behind_on_def getMyChain_def getChainIdByPbk_def producer_pbk_def GetCommittee_def)

lemma behind_loop: "i < TotalValidators \<Longrightarrow> c \<noteq> Some i \<Longrightarrow> ekeeps (behind_on i c vs mine) (chain_state_loop E senderID hs is)"
proof (rule chain_state_keeps)
  fix s :: "'a engine" and j h
  assume "i < TotalValidators" "c \<noteq> Some i" "behind_on i c vs mine s" "validatedHeights s ! j < h" "j < length (knownHeights s)"
  then show "behind_on i c vs mine (s\<lparr>knownHeights := (knownHeights s)[j := h]\<rparr>)"
    by (auto simp: behind_on_def nth_list_update getMyChain_def getChainIdByPbk_def producer_pbk_def GetCommittee_def)
qed simp

lemma behind_state:
  assumes "i < TotalValidators" "c \<noteq> Some i"
  shows "ekeeps (behind_on i c vs mine) (OnChainStateReceived E senderID ch)"
proof (cases ch)
  case (Some hs)
  then show ?thesis using behind_loop [OF assms] by (auto simp: behind_on_def intro!: ekeeps_OnChainState)
qed (simp add: OnChainStateReceived_def ekeeps_pure)

lemma behind_set_heights:
  assumes "c = Some (unat (ChainID (Header b)))" "c \<noteq> Some i" "i < TotalValidators"
  shows "ekeeps (behind_on i c vs mine) (set_known b)" "ekeeps (behind_on i c vs mine) (set_validated b)"
  using assms
  by (auto simp: ekeeps_def behind_on_def set_known_def set_validated_def sendBlockMsg_def send_msg_def Let_def nth_list_update
      getMyChain_def getChainIdByPbk_def producer_pbk_def GetCommittee_def)

definition node_behind :: "nat \<Rightarrow> nat option \<Rightarrow> int list \<Rightarrow> byte \<Rightarrow> 'd engine \<times> round_phase \<Rightarrow> bool" where
  "node_behind i c vs mine n \<longleftrightarrow> behind_on i c vs mine (fst n) \<and> round_chain (fst n) (snd n) \<in> {None, c}"

lemma behind_not_equal:
  "behind_on i c vs mine s \<Longrightarrow> i < TotalValidators \<Longrightarrow> c \<noteq> Some i \<Longrightarrow> \<not> IntArrayEquals (knownHeights s) (validatedHeights s)"
  by (auto simp: behind_on_def IntArrayEquals_iff)

lemma behind_call:
  assumes "ekeeps (behind_on i c vs mine) m" "m s = (r, s')" "node_behind i c vs mine (s, ph)"
    "round_chain s' ph' = round_chain s ph \<or> ph' = NoRound"
  shows "node_behind i c vs mine (s', ph')"
  using assms ekeepsD [OF assms(1) _ assms(2)] by (auto simp: node_behind_def round_chain_def)

lemma round_chain_Some: "phase_block ph = Some b \<Longrightarrow> round_chain s ph = Some (unat (ChainID (Header b)))"
  by (cases ph) (auto simp: round_chain_def)

lemma node_behind_chain: "node_behind i c vs mine (s, ph) \<Longrightarrow> phase_block ph = Some b \<Longrightarrow> c = Some (unat (ChainID (Header b)))"
  by (auto simp: node_behind_def round_chain_Some)

lemma node_behind_step:
  assumes V: "ee_ecdsa E = p256_ecdsa C verify spare" and i: "i < TotalValidators" "c \<noteq> Some i"
    and "node_step E n n'" "node_behind i c vs mine n"
  shows "node_behind i c vs mine n'"
  using assms(4,5)
proof (induction rule: node_step.induct)
  case (handler s s' ph)
  have "behind_on i c vs mine s'"
    by (rule handler_p256 [OF V heights_only_behind behind_state [OF i] handler(1)]) (use handler(2) in \<open>simp add: node_behind_def\<close>)
  then show ?case using handler(2) by (auto simp: node_behind_def round_chain_def behind_on_def)
next
  case (state_entry j s senderID hs s' ph)
  have "behind_on i c vs mine s'"
    using ekeepsD [OF behind_loop [OF i] _ state_entry(2)] state_entry(3) by (simp add: node_behind_def)
  then show ?case using state_entry(3) by (auto simp: node_behind_def round_chain_def behind_on_def)
next
  case (check s)
  then have "behind_on i c vs mine s" by (simp add: node_behind_def)
  from behind_not_equal [OF this i] check(2) show ?case by blast
next
  case (ask s s')
  then have "behind_on i c vs mine (s\<lparr>eg_committee := StopCommitteeWatcher (eg_committee s)\<rparr>)"
    by (auto simp: node_behind_def StopCommitteeWatcher_def intro: heights_onlyD [OF heights_only_behind])
  then show ?case
    using ekeepsD [OF ekeeps_ask_blocks [OF heights_only_behind] _ ask(3)] by (simp add: node_behind_def round_chain_def)
next
  case (create s template b)
  then show ?case by (simp add: node_behind_def round_chain_def createBlock_chain)
next
  case (sign s b b' n)
  then show ?case by (simp add: node_behind_def round_chain_def fresh_sigs_chain)
next
  case (seal b s h arrived sigs b' sig n)
  then show ?case by (simp add: node_behind_def round_chain_def)
next
  case (connect b s b' s')
  have "Header b' = Header b" using connect(1) by (auto simp: on_chain_def map_err_Ok_iff dest: ConnectBlock_header split: prod.splits)
  then show ?case using behind_call [OF ekeeps_on_chain connect(1,2)] by (simp add: round_chain_def)
next
  case (announce b s s')
  then show ?case using node_behind_chain [OF announce(2)] behind_call [OF behind_set_heights(1) [OF _ i(2,1)] announce]
    by (simp add: round_chain_def)
next
  case (count b s s')
  then show ?case using node_behind_chain [OF count(2)] behind_call [OF behind_set_heights(2) [OF _ i(2,1)] count]
    by (simp add: round_chain_def)
next
  case (create_fails s template e)
  then show ?case by (simp add: node_behind_def round_chain_def)
next
  case (sign_fails s b e n)
  then show ?case by (simp add: node_behind_def round_chain_def)
next
  case (wait_exceeded n s b)
  then show ?case by (simp add: node_behind_def round_chain_def)
next
  case (give_up s b n)
  then show ?case by (simp add: node_behind_def round_chain_def)
next
  case (seal_fails s b sigs e n)
  then show ?case by (simp add: node_behind_def round_chain_def)
next
  case (connect_fails b s e s')
  show ?case by (rule behind_call [OF ekeeps_on_chain [OF heights_only_behind] connect_fails]) (simp add: round_chain_def)
next
  case (register b s s')
  show ?case by (rule behind_call [OF ekeeps_register [OF heights_only_behind] register]) (simp add: round_chain_def)
next
  case (register_fails b s e s')
  show ?case by (rule behind_call [OF ekeeps_register [OF heights_only_behind] register_fails]) (simp add: round_chain_def)
next
  case (pool now b s s')
  show ?case by (rule behind_call [OF ekeeps_remove_txs [OF heights_only_behind] pool]) (simp add: round_chain_def)
next
  case (best b s s')
  show ?case by (rule behind_call [OF ekeeps_on_chain [OF heights_only_behind] best]) (simp add: round_chain_def)
next
  case (best_fails b s e s')
  show ?case by (rule behind_call [OF ekeeps_on_chain [OF heights_only_behind] best_fails]) (simp add: round_chain_def)
next
  case (points b s s')
  show ?case by (rule behind_call [OF ekeeps_points [OF heights_only_behind] points]) (simp add: round_chain_def)
next
  case (send b s s')
  show ?case by (rule behind_call [OF ekeeps_send(2) [OF heights_only_behind] send]) (simp add: round_chain_def)
next
  case (store b s r s')
  show ?case by (rule behind_call [OF ekeeps_on_chain [OF heights_only_behind] store(1,3)]) (simp add: round_chain_def)
qed


text \<open>A chain state message that names a greater height for chain \<open>i\<close> leaves the node behind on it.\<close>

lemma chain_state_behind:
  assumes "chain_state_loop E senderID hs is s = (Ok (), s')" "i \<in> set is" "validatedHeights s ! i < hs ! i" "i < TotalValidators"
    "length (validatedHeights s) = TotalValidators" "length (knownHeights s) = TotalValidators"
  shows "behind_on i None (validatedHeights s) (getMyChain s) s'"
  using assms
proof (induction "is" arbitrary: s)
  case (Cons j "is")
  let ?s = "\<lambda>m. s\<lparr>knownHeights := (knownHeights s)[j := hs ! j], sent := m\<rparr>"
  have send: "ebind (case IDB58Decode E senderID of None \<Rightarrow> eret () | Some p \<Rightarrow> send_msg (ToPeer p) m)
      (\<lambda>_. chain_state_loop E senderID hs is) t = chain_state_loop E senderID hs is
        (t\<lparr>sent := sent t @ (case IDB58Decode E senderID of None \<Rightarrow> [] | Some p \<Rightarrow> [(ToPeer p, m)])\<rparr>)" for m t
    by (auto simp: ebind_def eret_def send_msg_def split: option.splits)
  have mine: "getMyChain (?s m) = getMyChain s" for m
    by (simp add: getMyChain_def getChainIdByPbk_def producer_pbk_def GetCommittee_def)
  show ?case
  proof (cases "validatedHeights s ! j < hs ! j")
    case True
    then obtain m where run: "chain_state_loop E senderID hs is (?s m) = (Ok (), s')"
      using Cons.prems(1) by (auto simp: Let_def send split: if_splits option.splits)
    show ?thesis
    proof (cases "j = i")
      case True
      then have "behind_on i None (validatedHeights s) (getMyChain s) (?s m)"
        using Cons.prems(3-6) mine by (simp add: behind_on_def)
      then show ?thesis using ekeepsD [OF behind_loop _ run] Cons.prems(4) by blast
    next
      case False
      then show ?thesis using Cons.IH [OF run] Cons.prems(2-6) mine by simp
    qed
  next
    case False
    then have "j \<noteq> i" using Cons.prems(3) by blast
    then show ?thesis using False Cons by (auto split: if_splits)
  qed
qed simp

subsection \<open>A node with a block in flight\<close>

definition example_inflight :: "(bytes \<times> bytes) list engine" where
  "example_inflight = example_lagging\<lparr>validatedHeights := (replicate 20 1)[3 := 2], knownHeights := example_heights[3 := 2],
     sent := [(ToAll, MessageBlock (example_block TxNormalType))]\<rparr>"

lemma example_inflight_run:
  "node_reachable example_engine_env (example_lagging, Stored (example_block TxNormalType)) (example_inflight, Counted (example_block TxNormalType))"
proof -
  let ?b = "example_block TxNormalType"
  let ?s = "example_lagging\<lparr>knownHeights := example_heights[3 := 2], sent := [(ToAll, MessageBlock ?b)]\<rparr>"
  have b: "ChainID (Header ?b) = 3" "hd_Height (Header ?b) = 2" by (simp_all add: example_block_def example_header_def)
  have l: "knownHeights example_lagging = example_heights" "validatedHeights example_lagging = replicate 20 1"
    "sent example_lagging = []" by (simp_all add: example_lagging_def example_started_def example_engine_def)
  have h: "length example_heights = 20" "example_heights ! 3 = 1" by (simp_all add: example_heights_def)
  have "set_known ?b example_lagging = (Ok (), ?s)"
    by (simp add: set_known_def b l h Let_def sendBlockMsg_def send_msg_def)
  then have a: "node_step example_engine_env (example_lagging, Stored ?b) (?s, Announced ?b)" by (rule node_step.announce)
  have "set_validated ?b ?s = (Ok (), example_inflight)"
    by (simp add: set_validated_def b l Let_def example_inflight_def)
  then have "node_step example_engine_env (?s, Announced ?b) (example_inflight, Counted ?b)" by (rule node_step.count)
  with a show ?thesis unfolding node_reachable_def by (rule converse_rtranclp_into_rtranclp [OF _ r_into_rtranclp])
qed

subsection \<open>Properties\<close>

text \<open>Claim C12 (liveness): one message stops a producer for good, except for a round in flight. After a chain state
  message that names, for some chain, a height above the validated one, the node is behind. Let
  any messages, transactions, swaps and calls of the producer follow, in any order; the
  round in flight when the message comes, if there is one, works for another chain. Then no
  further round begins: the round in flight, or none, is the only one there ever is, and the validated height
  of no chain other than its own changes. The reason is that blocks of peers are never connected.\<close>

theorem chain_state_stops_producer:
  assumes "ee_ecdsa E = p256_ecdsa C verify spare" and "engine_ok s"
    and "OnChainStateReceived E senderID (Some hs) s = (Ok (), s1)"
    and "i < TotalValidators" and "validatedHeights s ! i < hs ! i" and "round_chain s1 ph \<noteq> Some i"
    and "node_reachable E (s1, ph) (s2, ph2)"
  shows "\<not> node_step E (s2, NoRound) (s3, Checked) \<and> round_chain s2 ph2 \<in> {None, round_chain s1 ph} \<and>
    {j. j < TotalValidators \<and> validatedHeights s2 ! j \<noteq> validatedHeights s ! j} \<subseteq> set_option (round_chain s1 ph)"
proof -
  let ?c = "round_chain s1 ph" and ?vs = "validatedHeights s"
  have b: "behind_on i None ?vs (getMyChain s) s1"
    using assms(2-5) by (intro chain_state_behind) (auto simp: OnChainStateReceived_def engine_ok_def)
  have "node_behind i ?c ?vs (getMyChain s) (s2, ph2)"
    using assms(7) unfolding node_reachable_def
  proof (induction rule: rtranclp_induct)
    case base
    then show ?case using b by (simp add: node_behind_def behind_on_def)
  next
    case (step n n')
    then show ?case by (metis node_behind_step [OF assms(1,4,6)])
  qed
  then have s2: "behind_on i ?c ?vs (getMyChain s) s2" "round_chain s2 ph2 \<in> {None, ?c}" by (simp_all add: node_behind_def)
  have "\<not> node_step E (s2, NoRound) (s3, Checked)"
    using behind_not_equal [OF s2(1) assms(4,6)] by (auto elim: check_cases)
  moreover have "{j. j < TotalValidators \<and> validatedHeights s2 ! j \<noteq> ?vs ! j} \<subseteq> set_option ?c"
    using s2(1) by (auto simp: behind_on_def)
  ultimately show ?thesis using s2(2) by blast
qed

theorem chain_state_stops_producer_witness:
  "\<not> node_step example_engine_env (example_inflight, NoRound) (example_inflight, Checked) \<and>
   validatedHeights example_inflight ! 3 = 2 \<and> validatedHeights example_started ! 3 = 1"
proof -
  have "round_chain example_lagging (Stored (example_block TxNormalType)) \<noteq> Some 0"
    by (simp add: round_chain_def example_block_def example_header_def)
  from chain_state_stops_producer [OF example_V example_started_ok example_message, of 0, OF _ _ this example_inflight_run,
      of example_inflight]
  have "\<not> node_step example_engine_env (example_inflight, NoRound) (example_inflight, Checked)"
    by (simp add: TotalValidators_def example_started_def example_heights_def)
  then show ?thesis
    by (simp add: example_inflight_def example_started_def numeral_nat)
qed

end
