(* ===== verification/Commitments.thy ===== *)
theory Commitments
  imports Keys
begin

text \<open>
  Schnorr signatures, commitments and zero-knowledge proofs of \<open>privacy-protocol\<close> (\<open>schnorr.go\<close>,
  \<open>ElGamalCMS.go\<close>, \<open>coin.go\<close>, \<open>signature.go\<close>, \<open>zero-knowledge/\<close>). The curve, its addition and BLAKE2b are parameters
  and random bytes are arguments; \<open>None\<close> is a panic. The laws of the group are the predicate \<open>cyclic_curve\<close>: every
  point is a multiple \<open>pt a\<close> of the base point, and the operations add and multiply the multiples modulo the order.
\<close>

subsection \<open>The group\<close>

record group_env =
  gv_curve :: curve
  Gen :: "int \<times> int"
  Add :: "int \<times> int \<Rightarrow> int \<times> int \<Rightarrow> int \<times> int"
  Blake2b :: "bytes \<Rightarrow> bytes"

abbreviation gP :: "group_env \<Rightarrow> int" where "gP V \<equiv> cP (gv_curve V)"
abbreviation gN :: "group_env \<Rightarrow> int" where "gN V \<equiv> cN (gv_curve V)"
abbreviation Mult :: "group_env \<Rightarrow> int \<times> int \<Rightarrow> bytes \<Rightarrow> int \<times> int" where "Mult V \<equiv> ScalarMult (gv_curve V)"
abbreviation BaseMult :: "group_env \<Rightarrow> bytes \<Rightarrow> int \<times> int" where "BaseMult V \<equiv> ScalarBaseMult (gv_curve V)"
abbreviation Compress :: "group_env \<Rightarrow> int \<times> int \<Rightarrow> bytes" where "Compress V \<equiv> CompressPoint (gv_curve V)"

text \<open>The bytes of a number: \<open>big.Int.Bytes\<close> gives those of the absolute value.\<close>

definition int_Bytes :: "int \<Rightarrow> bytes" where
  "int_Bytes n = big_Bytes (nat \<bar>n\<bar>)"

definition int_SetBytes :: "bytes \<Rightarrow> int" where
  "int_SetBytes b = int (big_SetBytes b)"

subsection \<open>Schnorr signatures (\<open>schnorr.go\<close>)\<close>

record SchnPubKey =
  sp_PK :: "int \<times> int"
  sp_H :: "int \<times> int"

record SchnPrivKey =
  sk_SK :: int
  sk_R :: int
  sk_PubKey :: SchnPubKey

record SchnSignature =
  sg_E :: int
  sg_S1 :: int
  sg_S2 :: int

text \<open>\<open>Hash(p, m)\<close>; the coordinates are written without padding.\<close>

definition Schn_Hash :: "int \<times> int \<Rightarrow> bytes \<Rightarrow> int" where
  "Schn_Hash p m = int_SetBytes (sha256_spec (int_Bytes (fst p) @ int_Bytes (snd p) @ m))"

definition SchnGenPubKey :: "group_env \<Rightarrow> bytes \<Rightarrow> int \<Rightarrow> int \<Rightarrow> SchnPubKey" where
  "SchnGenPubKey V hBytes sk r =
     (let H = BaseMult V hBytes; rH = Mult V H (int_Bytes r)
      in \<lparr>sp_PK = Add V (BaseMult V (int_Bytes sk)) rH, sp_H = H\<rparr>)"

definition SchnGenPrivKey :: "group_env \<Rightarrow> bytes \<Rightarrow> bytes \<Rightarrow> bytes \<Rightarrow> SchnPrivKey" where
  "SchnGenPrivKey V xBytes rBytes hBytes =
     (let sk = int_SetBytes xBytes mod gN V; r = int_SetBytes rBytes mod gN V
      in \<lparr>sk_SK = sk, sk_R = r, sk_PubKey = SchnGenPubKey V hBytes sk r\<rparr>)"

definition SchnSign :: "group_env \<Rightarrow> bytes \<Rightarrow> bytes \<Rightarrow> bytes \<Rightarrow> SchnPrivKey \<Rightarrow> (string, SchnSignature) res" where
  "SchnSign V k1Bytes k2Bytes hash priv =
     (if length hash \<noteq> 32 then Err ''Hash length must be 32 bytes''
      else let k1 = int_SetBytes k1Bytes mod gN V; k2 = int_SetBytes k2Bytes mod gN V;
               t1 = Mult V (Gen V) (int_Bytes k1); t2 = Mult V (sp_H (sk_PubKey priv)) (int_Bytes k2);
               E = Schn_Hash (Add V t1 t2) hash
           in Ok \<lparr>sg_E = E, sg_S1 = (k1 - sk_SK priv * E) mod gN V, sg_S2 = (k2 - sk_R priv * E) mod gN V\<rparr>)"

definition SchnVerify :: "group_env \<Rightarrow> SchnSignature option \<Rightarrow> bytes \<Rightarrow> SchnPubKey \<Rightarrow> bool" where
  "SchnVerify V signature hash pub =
     (if length hash \<noteq> 32 then False
      else case signature of
             None \<Rightarrow> False
           | Some sg \<Rightarrow>
               let rv = Mult V (Gen V) (int_Bytes (sg_S1 sg));
                   rv = Add V rv (Mult V (sp_H pub) (int_Bytes (sg_S2 sg)));
                   rv = Add V rv (Mult V (sp_PK pub) (int_Bytes (sg_E sg)))
               in Schn_Hash rv hash = sg_E sg)"

text \<open>The methods of the keys repeat the functions.\<close>

definition SchnPrivKey_KeyGen :: "group_env \<Rightarrow> bytes \<Rightarrow> bytes \<Rightarrow> bytes \<Rightarrow> SchnPrivKey" where
  "SchnPrivKey_KeyGen V xBytes rBytes hBytes =
     (let sk = int_SetBytes xBytes mod gN V; r = int_SetBytes rBytes mod gN V; H = BaseMult V hBytes;
          rH = Mult V H (int_Bytes r); PK = BaseMult V (int_Bytes sk)
      in \<lparr>sk_SK = sk, sk_R = r, sk_PubKey = \<lparr>sp_PK = Add V PK rH, sp_H = H\<rparr>\<rparr>)"

definition SchnPrivKey_Sign :: "group_env \<Rightarrow> bytes \<Rightarrow> bytes \<Rightarrow> SchnPrivKey \<Rightarrow> bytes \<Rightarrow> (string, SchnSignature) res" where
  "SchnPrivKey_Sign V k1Bytes k2Bytes priKey hash =
     (if length hash \<noteq> 32 then Err ''Hash length must be 32 bytes''
      else let k1 = int_SetBytes k1Bytes mod gN V; k2 = int_SetBytes k2Bytes mod gN V;
               t = Add V (Mult V (Gen V) (int_Bytes k1)) (Mult V (sp_H (sk_PubKey priKey)) (int_Bytes k2));
               E = Schn_Hash t hash; xe = sk_SK priKey * E; re = sk_R priKey * E
           in Ok \<lparr>sg_E = E, sg_S1 = (k1 - xe) mod gN V, sg_S2 = (k2 - re) mod gN V\<rparr>)"

definition SchnPubKey_Verify :: "group_env \<Rightarrow> SchnPubKey \<Rightarrow> SchnSignature option \<Rightarrow> bytes \<Rightarrow> bool" where
  "SchnPubKey_Verify V pub signature hash =
     (if length hash \<noteq> 32 then False
      else case signature of
             None \<Rightarrow> False
           | Some sg \<Rightarrow>
               let rv = Add V (Mult V (Gen V) (int_Bytes (sg_S1 sg))) (Mult V (sp_H pub) (int_Bytes (sg_S2 sg)))
               in Schn_Hash (Add V rv (Mult V (sp_PK pub) (int_Bytes (sg_E sg)))) hash = sg_E sg)"

subsection \<open>Commitments (\<open>ElGamalCMS.go\<close>, \<open>coin.go\<close>)\<close>

definition CM_CAPACITY :: nat where "CM_CAPACITY = 5"
definition PK_CM :: byte where "PK_CM = 1"
definition VALUE_CM :: byte where "VALUE_CM = 2"
definition SN_CM :: byte where "SN_CM = 3"
definition FULL_CM :: byte where "FULL_CM = 4"

text \<open>The next generator: the first hash of a hash that is the first coordinate of a point. The last check, for a nil
  result of doubling, never applies.\<close>

partial_function (option) hash_generator_loop :: "group_env \<Rightarrow> int \<Rightarrow> (int \<times> int) option" where
  "hash_generator_loop V x =
     (let x' = int_SetBytes (Blake2b V (int_Bytes x)) in
      case ComputeYCoord (gv_curve V) x' of
        Ok y \<Rightarrow> if IsOnCurve (gv_curve V) (x', y) then Some (x', y) else hash_generator_loop V x'
      | _ \<Rightarrow> hash_generator_loop V x')"

definition HashGenerator :: "group_env \<Rightarrow> int \<times> int \<Rightarrow> (int \<times> int) option" where
  "HashGenerator V g = hash_generator_loop V (fst g)"

fun generators :: "group_env \<Rightarrow> nat \<Rightarrow> int \<times> int \<Rightarrow> (int \<times> int) list option" where
  "generators V 0 g = Some [g]"
| "generators V (Suc n) g =
     (case HashGenerator V g of None \<Rightarrow> None | Some g' \<Rightarrow> map_option (Cons g) (generators V n g'))"

definition InitCommitment :: "group_env \<Rightarrow> (int \<times> int) list option" where
  "InitCommitment V = generators V (CM_CAPACITY - 1) (Gen V)"

definition GetHashOfValues :: "group_env \<Rightarrow> (int \<times> int) list \<Rightarrow> bytes list \<Rightarrow> bytes" where
  "GetHashOfValues V G values = Blake2b V (concat (map (Compress V) G) @ concat values)"

text \<open>The loop runs over the generators 1 to 3 and the values with the same indices: the first value is not used.\<close>

definition Commit :: "group_env \<Rightarrow> (int \<times> int) list \<Rightarrow> bytes list \<Rightarrow> bytes" where
  "Commit V G values =
     (let component1 = Mult V (G ! 0) (values ! (CM_CAPACITY - 2));
          component2 = foldl (\<lambda>acc i. Add V acc (Mult V (G ! i) (values ! i))) (0, 0) [1..<CM_CAPACITY - 1]
      in Compress V component1 @ CompressCommitment (gv_curve V) component2 FULL_CM)"

text \<open>The second component of \<open>CommitSpecValue\<close>.\<close>

definition spec_point :: "group_env \<Rightarrow> (int \<times> int) list \<Rightarrow> bytes \<Rightarrow> bytes \<Rightarrow> nat \<Rightarrow> int \<times> int" where
  "spec_point V G value sRnd index =
     Add V (Add V (0, 0) (Mult V (G ! (CM_CAPACITY - 1)) sRnd)) (Mult V (G ! index) value)"

definition CommitSpecValue :: "group_env \<Rightarrow> (int \<times> int) list \<Rightarrow> bytes \<Rightarrow> bytes \<Rightarrow> byte \<Rightarrow> bytes option" where
  "CommitSpecValue V G value sRnd index =
     (if unat index \<ge> CM_CAPACITY then None
      else Some (Compress V (Mult V (G ! 0) sRnd) @
                 CompressCommitment (gv_curve V) (spec_point V G value sRnd (unat index)) index))"

definition with_point :: "group_env \<Rightarrow> int \<times> int \<Rightarrow> int \<times> int \<Rightarrow> bytes \<Rightarrow> bytes \<Rightarrow> int \<times> int" where
  "with_point V G H value sRnd = Add V (Add V (0, 0) (Mult V G value)) (Mult V H sRnd)"

definition CommitWithSpecPoint :: "group_env \<Rightarrow> int \<times> int \<Rightarrow> int \<times> int \<Rightarrow> bytes \<Rightarrow> bytes \<Rightarrow> bytes" where
  "CommitWithSpecPoint V G H value sRnd =
     Compress V (Mult V H sRnd) @ 0 # Compress V (with_point V G H value sRnd)"

record Coin =
  co_PublicKey :: bytes
  SerialNumber :: bytes
  CoinCommitment :: bytes
  co_R :: bytes
  co_Value :: bytes
  co_Info :: bytes

definition CommitAll :: "group_env \<Rightarrow> (int \<times> int) list \<Rightarrow> Coin \<Rightarrow> Coin" where
  "CommitAll V G coin =
     coin\<lparr>CoinCommitment := CoinCommitment coin @ FULL_CM #
       Commit V G [co_PublicKey coin, co_Value coin, SerialNumber coin, co_R coin]\<rparr>"

definition CommitPublicKey :: "group_env \<Rightarrow> (int \<times> int) list \<Rightarrow> Coin \<Rightarrow> bytes" where
  "CommitPublicKey V G coin = PK_CM # Commit V G [co_PublicKey coin, [], [], co_R coin]"

definition CommitValue :: "group_env \<Rightarrow> (int \<times> int) list \<Rightarrow> Coin \<Rightarrow> bytes" where
  "CommitValue V G coin = VALUE_CM # Commit V G [[], co_Value coin, [], co_R coin]"

definition CommitSerialNumber :: "group_env \<Rightarrow> (int \<times> int) list \<Rightarrow> Coin \<Rightarrow> bytes" where
  "CommitSerialNumber V G coin = SN_CM # Commit V G [[], [], SerialNumber coin, co_R coin]"

subsection \<open>A commitment to zero (\<open>zkp_zero_commitment.go\<close>)\<close>

definition challenge :: "group_env \<Rightarrow> (int \<times> int) list \<Rightarrow> bytes list \<Rightarrow> int" where
  "challenge V G values = int_SetBytes (GetHashOfValues V G values) mod gN V"

definition ProveIsZero :: "group_env \<Rightarrow> (int \<times> int) list \<Rightarrow> int \<Rightarrow> bytes \<Rightarrow> bytes \<Rightarrow> byte \<Rightarrow> (bytes \<times> int) option" where
  "ProveIsZero V G sRnd commitmentValue commitmentRnd index =
     map_option (\<lambda>commitmentZeroS.
         let xRnd = challenge V G [commitmentValue];
             z = int_SetBytes commitmentRnd * xRnd mod gN V
         in (commitmentZeroS, (z + sRnd) mod gN V))
       (CommitSpecValue V G [] (int_Bytes sRnd) index)"

text \<open>A \<open>DecompressCommitment\<close> that fails ends the check, one that panics the program.\<close>

definition try_point :: "(point_error, int \<times> int) res \<Rightarrow> (int \<times> int \<Rightarrow> bool option) \<Rightarrow> bool option" where
  "try_point r f = (case r of Ok p \<Rightarrow> f p | Err _ \<Rightarrow> Some False | Panic \<Rightarrow> None)"

definition VerifyIsZero :: "group_env \<Rightarrow> (int \<times> int) list \<Rightarrow> bytes \<Rightarrow> bytes \<Rightarrow> byte \<Rightarrow> int \<Rightarrow> bool option" where
  "VerifyIsZero V G commitmentValue commitmentZeroS index z =
     (let C = gv_curve V; xRnd = challenge V G [commitmentValue] in
      try_point (DecompressKey C commitmentValue) (\<lambda>A.
        if \<not> IsOnCurve C A \<or> gN V \<le> z then Some False
        else try_point (DecompressCommitment C commitmentZeroS) (\<lambda>B.
          if \<not> IsOnCurve C B \<or> gN V \<le> z then Some False
          else let verifyPoint = Add V (Mult V A (int_Bytes xRnd)) B in
               case CommitSpecValue V G [] (int_Bytes z) index of
                 None \<Rightarrow> None
               | Some commitmentZeroZ \<Rightarrow>
                   try_point (DecompressCommitment C commitmentZeroZ) (\<lambda>Z.
                     if \<not> IsOnCurve C Z \<or> gN V \<le> z then Some False
                     else Some (\<bar>fst Z\<bar> = \<bar>fst verifyPoint\<bar> \<and> \<bar>snd Z\<bar> = \<bar>snd verifyPoint\<bar>)))))"

subsection \<open>A commitment to zero or one (\<open>zkp_zero_or_one.go\<close>)\<close>

record PKComZeroOneWitness =
  w_Commitment :: bytes
  w_CommitedValue :: bytes
  w_Rand :: bytes
  w_Index :: byte

record PKComZeroOneProof =
  p_ca :: bytes
  p_cb :: bytes
  p_f :: bytes
  p_za :: bytes
  p_zb :: bytes
  p_commitment :: bytes
  p_index :: byte

text \<open>The check of the value compares it with 0 twice, so that every value passes. The points computed at the end are not
  used. The three random numbers are arguments.\<close>

definition ZeroOne_Prove :: "group_env \<Rightarrow> (int \<times> int) list \<Rightarrow> bytes \<Rightarrow> bytes \<Rightarrow> bytes \<Rightarrow> PKComZeroOneWitness \<Rightarrow>
    (string, PKComZeroOneProof) res" where
  "ZeroOne_Prove V G aRnd sRnd tRnd w =
     (let N = gN V; m = int_SetBytes (w_CommitedValue w); r = int_SetBytes (w_Rand w);
          a = int_SetBytes aRnd mod N; s = int_SetBytes sRnd mod N; t = int_SetBytes tRnd mod N in
      if w_Index w > 2 then Err ''Index must be between 0 and 2''
      else if \<not> m = 0 \<and> \<not> m > 0 then Err ''commited value must be zero or one''
      else case (CommitSpecValue V G (int_Bytes a) (int_Bytes s) (w_Index w),
                 CommitSpecValue V G (int_Bytes (a * m)) (int_Bytes t) (w_Index w)) of
             (Some ca, Some cb) \<Rightarrow>
               let x = challenge V G [ca, cb, w_Commitment w];
                   f = (m * x + a) mod N;
                   za = (r * x + s) mod N;
                   zb = (r * ((x - f) mod N) + t) mod N
               in Ok \<lparr>p_ca = ca, p_cb = cb, p_f = int_Bytes f, p_za = int_Bytes za, p_zb = int_Bytes zb,
                      p_commitment = w_Commitment w, p_index = w_Index w\<rparr>
           | _ \<Rightarrow> Panic)"

text \<open>The first point on the right is printed before its error is looked at: an error is a nil dereference.\<close>

definition ZeroOne_Verify :: "group_env \<Rightarrow> (int \<times> int) list \<Rightarrow> PKComZeroOneProof \<Rightarrow> bool option" where
  "ZeroOne_Verify V G p =
     (let C = gv_curve V; x = challenge V G [p_ca p, p_cb p, p_commitment p] in
      try_point (DecompressCommitment C (p_commitment p)) (\<lambda>com.
      try_point (DecompressCommitment C (p_ca p)) (\<lambda>ca.
      try_point (DecompressCommitment C (p_cb p)) (\<lambda>cb.
      let left1 = Add V (Mult V com (int_Bytes x)) ca in
      case CommitSpecValue V G (p_f p) (p_za p) (p_index p) of
        None \<Rightarrow> None
      | Some rightValue1 \<Rightarrow>
          (case DecompressCommitment C rightValue1 of
             Ok right1 \<Rightarrow>
               let xSubF = (x - int_SetBytes (p_f p)) mod gN V;
                   left2 = Add V (Mult V com (int_Bytes xSubF)) cb in
               (case CommitSpecValue V G [] (p_zb p) (p_index p) of
                  None \<Rightarrow> None
                | Some rightValue2 \<Rightarrow>
                    try_point (DecompressCommitment C rightValue2) (\<lambda>right2. Some (left1 = right1 \<and> left2 = right2)))
           | _ \<Rightarrow> None)))))"

subsection \<open>A product of commitments (\<open>zkp_product_commitment.go\<close>)\<close>

definition computeCommitmentPoint :: "group_env \<Rightarrow> int \<times> int \<Rightarrow> int \<times> int \<Rightarrow> int \<Rightarrow> int \<Rightarrow> int \<times> int" where
  "computeCommitmentPoint V G H val1 val2 = Add V (Mult V G (int_Bytes val1)) (Mult V H (int_Bytes val2))"

definition computeHashString :: "group_env \<Rightarrow> bytes list \<Rightarrow> bytes" where
  "computeHashString V data = Blake2b V (concat data)"

definition MultiScalarMul :: "group_env \<Rightarrow> int list \<Rightarrow> int \<times> int \<Rightarrow> int \<times> int" where
  "MultiScalarMul V factors point = Mult V point (int_Bytes (prod_list factors))"

definition InitBasePoint :: "group_env \<Rightarrow> ((int \<times> int) \<times> (int \<times> int)) option" where
  "InitBasePoint V =
     (case HashGenerator V (Gen V) of
        None \<Rightarrow> None
      | Some g \<Rightarrow> map_option (\<lambda>h. (g, h)) (HashGenerator V g))"

record PKComProductWitness =
  witnessA :: bytes
  randA :: bytes
  witnessB :: bytes
  randB :: bytes
  witnessAB :: bytes
  randC :: bytes

record PKComProductProof =
  bp_G :: "int \<times> int"
  bp_H :: "int \<times> int"
  pf_D :: "int \<times> int"
  pf_D1 :: "int \<times> int"
  pf_E :: "int \<times> int"
  pf_f1 :: int
  pf_z1 :: int
  pf_f2 :: int
  pf_z2 :: int
  pf_z3 :: int
  pf_G1 :: "int \<times> int"
  cmA :: bytes
  cmB :: bytes
  cmC :: bytes

text \<open>The first coordinate of \<open>H\<close> is left out and the second written twice.\<close>

definition product_challenge :: "group_env \<Rightarrow> int \<times> int \<Rightarrow> int \<times> int \<Rightarrow> int \<times> int \<Rightarrow> int \<times> int \<Rightarrow> int \<times> int \<Rightarrow> bytes" where
  "product_challenge V G H D D1 E = computeHashString V
     [int_Bytes (fst G), int_Bytes (snd G), int_Bytes (snd H), int_Bytes (snd H), int_Bytes (fst D), int_Bytes (snd D),
      int_Bytes (fst D1), int_Bytes (snd D1), int_Bytes (fst E), int_Bytes (snd E)]"

text \<open>The random numbers are not reduced. A commitment to \<open>b\<close> that does not decompress is a nil dereference.\<close>

definition Product_Prove :: "group_env \<Rightarrow> int \<Rightarrow> int \<Rightarrow> int \<Rightarrow> int \<Rightarrow> int \<Rightarrow> PKComProductWitness \<Rightarrow> PKComProductProof option" where
  "Product_Prove V d e s s1 t w =
     (case InitBasePoint V of
        None \<Rightarrow> None
      | Some (G, H) \<Rightarrow>
          let N = gN V;
              a = int_SetBytes (witnessA w); ra = int_SetBytes (randA w); b = int_SetBytes (witnessB w);
              rb = int_SetBytes (randB w); rc = int_SetBytes (randC w);
              cA = CommitWithSpecPoint V G H (witnessA w) (randA w);
              cB = CommitWithSpecPoint V G H (witnessB w) (randB w);
              cC = CommitWithSpecPoint V G H (witnessAB w) (randC w) in
          (case DecompressCommitment (gv_curve V) cB of
             Ok G1 \<Rightarrow>
               let D = computeCommitmentPoint V G H d s; D1 = computeCommitmentPoint V G1 H d s1;
                   E = computeCommitmentPoint V G H e t;
                   x = int_SetBytes (product_challenge V G H D D1 E)
               in Some \<lparr>bp_G = G, bp_H = H, pf_D = D, pf_D1 = D1, pf_E = E, pf_f1 = (a * x + d) mod N,
                    pf_z1 = (ra * x + s) mod N, pf_f2 = (b * x + e) mod N, pf_z2 = (rb * x + t) mod N,
                    pf_z3 = ((rc - a * rb) * x + s1) mod N, pf_G1 = G1, cmA = cA, cmB = cB, cmC = cC\<rparr>
           | _ \<Rightarrow> None))"

definition product_check :: "group_env \<Rightarrow> bytes \<Rightarrow> bytes \<Rightarrow> int \<times> int \<Rightarrow> int \<times> int \<Rightarrow> bool option" where
  "product_check V cm x D com =
     (case DecompressCommitment (gv_curve V) cm of
        Ok A \<Rightarrow> Some (com = Add V (Mult V A x) D)
      | _ \<Rightarrow> None)"

definition Product_Verify :: "group_env \<Rightarrow> PKComProductProof \<Rightarrow> bool option" where
  "Product_Verify V p =
     (let x = product_challenge V (bp_G p) (bp_H p) (pf_D p) (pf_D1 p) (pf_E p) in
      case product_check V (cmA p) x (pf_D p) (computeCommitmentPoint V (bp_G p) (bp_H p) (pf_f1 p) (pf_z1 p)) of
        None \<Rightarrow> None
      | Some ok1 \<Rightarrow>
          (case product_check V (cmB p) x (pf_E p) (computeCommitmentPoint V (bp_G p) (bp_H p) (pf_f2 p) (pf_z2 p)) of
             None \<Rightarrow> None
           | Some ok2 \<Rightarrow>
               map_option (\<lambda>ok3. ok1 \<and> ok2 \<and> ok3)
                 (product_check V (cmC p) x (pf_D1 p) (computeCommitmentPoint V (pf_G1 p) (bp_H p) (pf_f1 p) (pf_z3 p)))))"

subsection \<open>Signing (\<open>signature.go\<close>, \<open>keysetprivacy.go\<close>)\<close>

text \<open>\<open>sign d p hash\<close> stands for \<open>ecdsa.Sign\<close> with the private number \<open>d\<close> and the public point \<open>p\<close>.\<close>

definition privacy_Sign :: "(int \<Rightarrow> int \<times> int \<Rightarrow> bytes \<Rightarrow> (nat \<times> nat) option) \<Rightarrow> curve \<Rightarrow> bytes \<Rightarrow> bytes \<Rightarrow> (string, bytes) res" where
  "privacy_Sign sign C hash spendingKey =
     (case sign (int_SetBytes spendingKey) (ScalarBaseMult C spendingKey) hash of
        None \<Rightarrow> Err ''sign''
      | Some (r, s) \<Rightarrow> Ok (SigToByteArray r s))"

definition KeySet_Sign :: "(int \<Rightarrow> int \<times> int \<Rightarrow> bytes \<Rightarrow> (nat \<times> nat) option) \<Rightarrow> curve \<Rightarrow> KeySet \<Rightarrow> bytes \<Rightarrow> (string, bytes) res" where
  "KeySet_Sign sign C self data = privacy_Sign sign C (HashB data) (PrivateKey self)"

text \<open>The one-time key pair of \<open>signature.go\<close>: random bytes hashed until they are not above the order.\<close>

definition privacy_GenerateKey :: "curve \<Rightarrow> bytes \<Rightarrow> (bytes \<times> bytes) option" where
  "privacy_GenerateKey C rnd =
     map_option (\<lambda>privKey. (privKey, CompressPoint C (ScalarBaseMult C privKey))) (spending_loop C rnd)"

subsection \<open>The laws of the curve\<close>

text \<open>\<open>pt a\<close> is the multiple \<open>a\<close> of the base point; the neutral element is written \<open>(0, 0)\<close>.\<close>

definition cyclic_curve :: "group_env \<Rightarrow> (int \<Rightarrow> int \<times> int) \<Rightarrow> bool" where
  "cyclic_curve V pt \<longleftrightarrow> 0 < gN V \<and> pt 0 = (0, 0) \<and> Gen V = pt 1 \<and>
     (\<forall>a b. pt a = pt b \<longleftrightarrow> a mod gN V = b mod gN V) \<and>
     (\<forall>a b. Add V (pt a) (pt b) = pt (a + b)) \<and>
     (\<forall>a k. Mult V (pt a) k = pt (a * int_SetBytes k)) \<and> (\<forall>k. BaseMult V k = pt (int_SetBytes k))"

text \<open>The other multiples are points of the curve with reduced coordinates.\<close>

definition points_on_curve :: "group_env \<Rightarrow> (int \<Rightarrow> int \<times> int) \<Rightarrow> bool" where
  "points_on_curve V pt \<longleftrightarrow> curve_ok (gv_curve V) \<and>
     (\<forall>a. a mod gN V \<noteq> 0 \<longrightarrow> IsOnCurve (gv_curve V) (pt a) \<and> 0 \<le> fst (pt a) \<and> fst (pt a) < gP V \<and>
        0 \<le> snd (pt a) \<and> snd (pt a) < gP V)"

lemma cyclicD:
  assumes "cyclic_curve V pt"
  shows "0 < gN V" "Gen V = pt 1" "Add V (pt a) (pt b) = pt (a + b)" "Mult V (pt a) k = pt (a * int_SetBytes k)"
    "BaseMult V k = pt (int_SetBytes k)" "Add V (0, 0) (pt b) = pt b" "pt a = pt b \<longleftrightarrow> gN V dvd a - b"
proof -
  show "0 < gN V" "Gen V = pt 1" "Add V (pt a) (pt b) = pt (a + b)" "Mult V (pt a) k = pt (a * int_SetBytes k)"
    "BaseMult V k = pt (int_SetBytes k)"
    using assms unfolding cyclic_curve_def by blast+
  have "pt a = pt b \<longleftrightarrow> a mod gN V = b mod gN V" using assms unfolding cyclic_curve_def by blast
  then show "pt a = pt b \<longleftrightarrow> gN V dvd a - b" by (simp add: mod_eq_dvd_iff)
  have "pt 0 = (0, 0)" "Add V (pt 0) (pt b) = pt (0 + b)" using assms unfolding cyclic_curve_def by blast+
  then show "Add V (0, 0) (pt b) = pt b" by simp
qed

lemma pt_shift:
  assumes "cyclic_curve V pt" "a = b + gN V * k"
  shows "pt a = pt b"
  using assms(2) by (simp add: cyclicD(7) [OF assms(1)])

lemma mod_shift: "\<exists>q. a mod N = a + N * q" for a N :: int
  by (rule exI [of _ "- (a div N)"]) (simp add: minus_mult_div_eq_mod [symmetric])

lemma int_SetBytes_Bytes [simp]: "int_SetBytes (int_Bytes n) = \<bar>n\<bar>"
  by (simp add: int_SetBytes_def int_Bytes_def big_SetBytes_Bytes)

lemma int_SetBytes_nonneg [simp]: "0 \<le> int_SetBytes b" "int_SetBytes [] = 0"
  by (simp_all add: int_SetBytes_def)

lemma Schn_Hash_nonneg [simp]: "0 \<le> Schn_Hash p m"
  by (simp add: Schn_Hash_def)

lemma schnorr_methods:
  "SchnPrivKey_KeyGen = SchnGenPrivKey" "SchnPrivKey_Sign V k1 k2 priv hash = SchnSign V k1 k2 hash priv"
  "SchnPubKey_Verify V pub sg hash = SchnVerify V sg hash pub"
  by (auto simp: fun_eq_iff SchnPrivKey_KeyGen_def SchnGenPrivKey_def SchnGenPubKey_def SchnPrivKey_Sign_def SchnSign_def
      SchnPubKey_Verify_def SchnVerify_def Let_def split: option.split)

lemma schnorr_accepts:
  assumes "cyclic_curve V pt" "length hash = 32"
  shows "\<exists>sg. SchnSign V k1 k2 hash (SchnGenPrivKey V x r h) = Ok sg \<and>
    SchnVerify V (Some sg) hash (sk_PubKey (SchnGenPrivKey V x r h))"
proof -
  note G = cyclicD [OF assms(1)]
  let ?N = "gN V" and ?h = "int_SetBytes h"
  define sk where "sk = int_SetBytes x mod ?N"
  define rr where "rr = int_SetBytes r mod ?N"
  define j1 where "j1 = int_SetBytes k1 mod ?N"
  define j2 where "j2 = int_SetBytes k2 mod ?N"
  have nn: "0 \<le> sk" "0 \<le> rr" "0 \<le> j1" "0 \<le> j2" using G(1) by (simp_all add: sk_def rr_def j1_def j2_def)
  define e where "e = Schn_Hash (pt (j1 + ?h * j2)) hash"
  have e_nn: "0 \<le> e" by (simp add: e_def)
  have key: "SchnGenPrivKey V x r h = \<lparr>sk_SK = sk, sk_R = rr, sk_PubKey = \<lparr>sp_PK = pt (sk + ?h * rr), sp_H = pt ?h\<rparr>\<rparr>"
    using nn by (simp add: SchnGenPrivKey_def SchnGenPubKey_def Let_def G(3-5) sk_def [symmetric] rr_def [symmetric])
  have sg: "SchnSign V k1 k2 hash (SchnGenPrivKey V x r h) =
      Ok \<lparr>sg_E = e, sg_S1 = (j1 - sk * e) mod ?N, sg_S2 = (j2 - rr * e) mod ?N\<rparr>"
    using nn assms(2) by (simp add: SchnSign_def key Let_def G(2-4) j1_def [symmetric] j2_def [symmetric] e_def)
  obtain q1 q2 where q: "(j1 - sk * e) mod ?N = j1 - sk * e + ?N * q1" "(j2 - rr * e) mod ?N = j2 - rr * e + ?N * q2"
    using mod_shift by metis
  have "pt ((j1 - sk * e) mod ?N + ?h * ((j2 - rr * e) mod ?N) + (sk + ?h * rr) * e) = pt (j1 + ?h * j2)"
    unfolding q by (rule pt_shift [OF assms(1), where k = "q1 + ?h * q2"]) (simp add: algebra_simps)
  then show ?thesis
    unfolding sg using assms(2) G(1) e_nn by (simp add: SchnVerify_def key Let_def G(2-4) e_def [symmetric])
qed

subsection \<open>Opening commitments\<close>

text \<open>A commitment opens to its second component when both components are points and the second coordinate of the
  second one is even: an odd one comes back as the inverse point.\<close>

definition opens :: "group_env \<Rightarrow> int \<times> int \<Rightarrow> int \<times> int \<Rightarrow> bool" where
  "opens V P Q \<longleftrightarrow> IsOnCurve (gv_curve V) P \<and> IsOnCurve (gv_curve V) Q \<and> even (snd Q)"

definition spec_opens :: "group_env \<Rightarrow> (int \<times> int) list \<Rightarrow> bytes \<Rightarrow> bytes \<Rightarrow> nat \<Rightarrow> bool" where
  "spec_opens V G value sRnd i = opens V (Mult V (G ! 0) sRnd) (spec_point V G value sRnd i)"

lemma pt_bounds:
  assumes "cyclic_curve V pt" "points_on_curve V pt"
  shows "0 \<le> fst (pt a)" "fst (pt a) < gP V" "0 \<le> snd (pt a)" "snd (pt a) < gP V"
proof -
  have "0 \<le> fst (pt a) \<and> fst (pt a) < gP V \<and> 0 \<le> snd (pt a) \<and> snd (pt a) < gP V"
  proof (cases "a mod gN V = 0")
    case True
    then have "pt a = pt 0" using cyclicD(7) [OF assms(1), of a 0] by (simp add: mod_eq_0_iff_dvd)
    moreover have "pt 0 = (0, 0)" using assms(1) unfolding cyclic_curve_def by blast
    moreover have "3 \<le> gP V" using assms(2) by (simp add: points_on_curve_def curve_ok_def)
    ultimately show ?thesis by simp
  next
    case False
    then show ?thesis using assms(2) unfolding points_on_curve_def by blast
  qed
  then show "0 \<le> fst (pt a)" "fst (pt a) < gP V" "0 \<le> snd (pt a)" "snd (pt a) < gP V" by blast+
qed

lemma pt_compress:
  assumes "cyclic_curve V pt" "points_on_curve V pt" "IsOnCurve (gv_curve V) (pt a)"
  shows "length (Compress V (pt a)) = 33"
    "even (snd (pt a)) \<Longrightarrow> DecompressKey (gv_curve V) (Compress V (pt a)) = Ok (pt a)"
proof -
  note b = pt_bounds [OF assms(1,2), of a]
  have C: "curve_ok (gv_curve V)" using assms(2) unfolding points_on_curve_def by blast
  have on: "IsOnCurve (gv_curve V) (fst (pt a), snd (pt a))" using assms(3) by simp
  show "length (Compress V (pt a)) = 33" using compressed_bytes [OF C b(1,2) on] by auto
  show "DecompressKey (gv_curve V) (Compress V (pt a)) = Ok (pt a)" if "even (snd (pt a))"
    using conjunct2 [OF decompress_compress [OF C b on]] that by simp
qed

lemma opens_Decompress:
  assumes "cyclic_curve V pt" "points_on_curve V pt" "opens V (pt a) (pt b)"
  shows "DecompressCommitment (gv_curve V) (Compress V (pt a) @ ty # Compress V (pt b)) = Ok (pt b)"
proof -
  have on: "IsOnCurve (gv_curve V) (pt a)" "IsOnCurve (gv_curve V) (pt b)" "even (snd (pt b))"
    using assms(3) by (simp_all add: opens_def)
  show ?thesis
    using pt_compress(1) [OF assms(1,2) on(1)] pt_compress(1) [OF assms(1,2) on(2)]
      pt_compress(2) [OF assms(1,2) on(2,3)] by (simp add: DecompressCommitment_def)
qed

text \<open>The second component of a commitment with generators \<open>map pt gs\<close>.\<close>

definition spec_log :: "int list \<Rightarrow> int \<Rightarrow> int \<Rightarrow> nat \<Rightarrow> int" where
  "spec_log gs v r i = gs ! 4 * r + gs ! i * v"

lemma spec_point_log:
  assumes "cyclic_curve V pt" "length gs = 5" "i < 5"
  shows "spec_point V (map pt gs) value sRnd i = pt (spec_log gs (int_SetBytes value) (int_SetBytes sRnd) i)"
  using assms(2,3) by (simp add: spec_point_def spec_log_def CM_CAPACITY_def cyclicD(3,4,6) [OF assms(1)])

lemma CommitSpecValue_opens:
  assumes "cyclic_curve V pt" "points_on_curve V pt" "length gs = 5" "unat index < 5"
    "spec_opens V (map pt gs) value sRnd (unat index)"
  shows "\<exists>c. CommitSpecValue V (map pt gs) value sRnd index = Some c \<and>
    DecompressCommitment (gv_curve V) c = Ok (pt (spec_log gs (int_SetBytes value) (int_SetBytes sRnd) (unat index)))"
proof -
  have g0: "map pt gs ! 0 = pt (gs ! 0)" using assms(3) by simp
  show ?thesis
    using opens_Decompress [OF assms(1,2)] assms(3-5)
    by (simp add: CommitSpecValue_def CM_CAPACITY_def CompressCommitment_def spec_opens_def g0
        spec_point_log [OF assms(1)] cyclicD(4) [OF assms(1)])
qed

lemma challenge_nonneg: "0 < gN V \<Longrightarrow> 0 \<le> challenge V G values"
  by (simp add: challenge_def)


lemma dvd_shift: "N dvd N * k - a \<longleftrightarrow> N dvd a" "N dvd N * k + a \<longleftrightarrow> N dvd a" for N a :: int
  by (simp_all add: dvd_diff_right_iff dvd_add_right_iff)

lemma zero_proof_accepts:
  assumes cyc: "cyclic_curve V pt" and poc: "points_on_curve V pt" and gs: "length gs = 5" "unat index < 5" "0 \<le> s"
    and cv: "cv = Compress V (spec_point V (map pt gs) value rnd (unat index))"
      "IsOnCurve (gv_curve V) (spec_point V (map pt gs) value rnd (unat index))"
      "even (snd (spec_point V (map pt gs) value rnd (unat index)))"
    and proof_s: "ProveIsZero V (map pt gs) s cv rnd index = Some (c0, z)"
    and op: "spec_opens V (map pt gs) [] (int_Bytes s) (unat index)" "spec_opens V (map pt gs) [] (int_Bytes z) (unat index)"
  shows "VerifyIsZero V (map pt gs) cv c0 index z =
    Some (gN V dvd gs ! unat index * int_SetBytes value * challenge V (map pt gs) [cv])"
proof -
  note G = cyclicD [OF cyc] and pc = pt_compress [OF cyc poc] and b = pt_bounds [OF cyc poc]
  let ?i = "unat index" and ?v = "int_SetBytes value" and ?r = "int_SetBytes rnd"
  define x where "x = challenge V (map pt gs) [cv]"
  have x: "0 \<le> x" unfolding x_def by (rule challenge_nonneg [OF G(1)])
  let ?A = "pt (spec_log gs ?v ?r ?i)"
  have sp: "spec_point V (map pt gs) value rnd ?i = ?A" by (rule spec_point_log [OF cyc gs(1,2)])
  have A: "DecompressKey (gv_curve V) cv = Ok ?A" "IsOnCurve (gv_curve V) ?A"
    using cv pc(2) [of "spec_log gs ?v ?r ?i"] by (simp_all add: sp)
  obtain cs where cs: "CommitSpecValue V (map pt gs) [] (int_Bytes s) index = Some cs"
      "DecompressCommitment (gv_curve V) cs = Ok (pt (spec_log gs 0 s ?i))"
    using CommitSpecValue_opens [OF cyc poc gs(1,2) op(1)] gs(3) by auto
  have z: "c0 = cs" "z = (?r * x mod gN V + s) mod gN V"
    using proof_s cs(1) by (simp_all add: ProveIsZero_def x_def Let_def)
  then have zb: "0 \<le> z" "z < gN V" using G(1) by simp_all
  obtain cz where cz: "CommitSpecValue V (map pt gs) [] (int_Bytes z) index = Some cz"
      "DecompressCommitment (gv_curve V) cz = Ok (pt (spec_log gs 0 z ?i))"
    using CommitSpecValue_opens [OF cyc poc gs(1,2) op(2)] zb(1) by auto
  have on: "IsOnCurve (gv_curve V) (pt (spec_log gs 0 s ?i))" "IsOnCurve (gv_curve V) (pt (spec_log gs 0 z ?i))"
    using op gs zb by (simp_all add: spec_opens_def opens_def spec_point_log [OF cyc])
  obtain q where q: "z = ?r * x + s + gN V * q"
    using mod_shift [of "?r * x + s" "gN V"] z(2) by (auto simp: mod_add_left_eq)
  have "spec_log gs 0 z ?i - (spec_log gs ?v ?r ?i * x + spec_log gs 0 s ?i) = gN V * (gs ! 4 * q) - gs ! ?i * ?v * x"
    by (simp add: q spec_log_def algebra_simps)
  then have "pt (spec_log gs 0 z ?i) = pt (spec_log gs ?v ?r ?i * x + spec_log gs 0 s ?i) \<longleftrightarrow> gN V dvd gs ! ?i * ?v * x"
    by (simp only: G(7) dvd_shift)
  moreover have "VerifyIsZero V (map pt gs) cv cs index z =
      Some (pt (spec_log gs 0 z ?i) = pt (spec_log gs ?v ?r ?i * x + spec_log gs 0 s ?i))"
    using A zb on b x by (simp add: VerifyIsZero_def Let_def try_point_def cs(2) cz x_def [symmetric] G(3,4) prod_eq_iff)
  ultimately show ?thesis using z(1) by (simp add: x_def)
qed

lemma zero_one_accepts:
  assumes cyc: "cyclic_curve V pt" and poc: "points_on_curve V pt" and gs: "length gs = 5"
    and com: "CommitSpecValue V (map pt gs) (w_CommitedValue w) (w_Rand w) (w_Index w) = Some (w_Commitment w)"
    and pr: "ZeroOne_Prove V (map pt gs) aRnd sRnd tRnd w = Ok p"
    and op: "spec_opens V (map pt gs) (w_CommitedValue w) (w_Rand w) (unat (w_Index w))"
      "spec_opens V (map pt gs) (int_Bytes a) (int_Bytes s) (unat (w_Index w))"
      "spec_opens V (map pt gs) (int_Bytes (a * int_SetBytes (w_CommitedValue w))) (int_Bytes t) (unat (w_Index w))"
      "spec_opens V (map pt gs) (p_f p) (p_za p) (unat (w_Index w))"
      "spec_opens V (map pt gs) [] (p_zb p) (unat (w_Index w))"
    and ast: "a = int_SetBytes aRnd mod gN V" "s = int_SetBytes sRnd mod gN V" "t = int_SetBytes tRnd mod gN V"
  shows "ZeroOne_Verify V (map pt gs) p = Some (gN V dvd gs ! unat (w_Index w) * int_SetBytes (w_CommitedValue w) *
    (1 - int_SetBytes (w_CommitedValue w)) * challenge V (map pt gs) [p_ca p, p_cb p, p_commitment p])"
proof -
  note G = cyclicD [OF cyc]
  let ?N = "gN V" and ?i = "unat (w_Index w)" and ?G = "map pt gs"
  let ?m = "int_SetBytes (w_CommitedValue w)" and ?r = "int_SetBytes (w_Rand w)"
  have nn: "0 \<le> a" "0 \<le> s" "0 \<le> t" "0 \<le> a * ?m" using ast G(1) by simp_all
  have i: "w_Index w \<le> 2" using pr by (auto simp: ZeroOne_Prove_def Let_def split: if_splits)
  then have i5: "?i < 5" by (simp add: word_le_nat_alt)
  note opn = CommitSpecValue_opens [OF cyc poc gs i5]
  have dcom: "DecompressCommitment (gv_curve V) (w_Commitment w) = Ok (pt (spec_log gs ?m ?r ?i))"
    using opn [OF op(1)] com by auto
  obtain ca where ca: "CommitSpecValue V ?G (int_Bytes a) (int_Bytes s) (w_Index w) = Some ca"
      "DecompressCommitment (gv_curve V) ca = Ok (pt (spec_log gs a s ?i))"
    using opn [OF op(2)] nn by auto
  obtain cb where cb: "CommitSpecValue V ?G (int_Bytes (a * ?m)) (int_Bytes t) (w_Index w) = Some cb"
      "DecompressCommitment (gv_curve V) cb = Ok (pt (spec_log gs (a * ?m) t ?i))"
    using opn [OF op(3)] nn by auto
  define x where "x = challenge V ?G [ca, cb, w_Commitment w]"
  define f where "f = (?m * x + a) mod ?N"
  define za where "za = (?r * x + s) mod ?N"
  define zb where "zb = (?r * ((x - f) mod ?N) + t) mod ?N"
  have x: "0 \<le> x" unfolding x_def by (rule challenge_nonneg [OF G(1)])
  have fz: "0 \<le> f" "0 \<le> za" "0 \<le> zb" "0 \<le> (x - f) mod ?N" using G(1) by (simp_all add: f_def za_def zb_def)
  have m: "(\<not> ?m = 0 \<and> \<not> ?m > 0) = False" "(w_Index w > 2) = False"
    using int_SetBytes_nonneg(1) [of "w_CommitedValue w"] i by (simp_all add: order.order_iff_strict not_less)
  have "Ok p = (Ok \<lparr>p_ca = ca, p_cb = cb, p_f = int_Bytes f, p_za = int_Bytes za, p_zb = int_Bytes zb,
      p_commitment = w_Commitment w, p_index = w_Index w\<rparr> :: (string, PKComZeroOneProof) res)"
    unfolding pr [symmetric] ZeroOne_Prove_def Let_def ast [symmetric] f_def za_def zb_def x_def
    unfolding m if_False ca(1) cb(1) prod.case option.case ..
  then have p: "p = \<lparr>p_ca = ca, p_cb = cb, p_f = int_Bytes f, p_za = int_Bytes za, p_zb = int_Bytes zb,
      p_commitment = w_Commitment w, p_index = w_Index w\<rparr>" by simp
  obtain r1 where r1: "CommitSpecValue V ?G (int_Bytes f) (int_Bytes za) (w_Index w) = Some r1"
      "DecompressCommitment (gv_curve V) r1 = Ok (pt (spec_log gs f za ?i))"
    using opn [OF op(4)] fz by (auto simp: p)
  obtain r2 where r2: "CommitSpecValue V ?G [] (int_Bytes zb) (w_Index w) = Some r2"
      "DecompressCommitment (gv_curve V) r2 = Ok (pt (spec_log gs 0 zb ?i))"
    using opn [OF op(5)] fz by (auto simp: p)
  obtain qf qa qb qx where q: "f = ?m * x + a + ?N * qf" "za = ?r * x + s + ?N * qa" "(x - f) mod ?N = x - f + ?N * qx"
      "zb = ?r * ((x - f) mod ?N) + t + ?N * qb"
    unfolding f_def za_def zb_def using mod_shift by metis
  have "pt (spec_log gs ?m ?r ?i * x + spec_log gs a s ?i) = pt (spec_log gs f za ?i)"
    by (rule pt_shift [OF cyc, where k = "- (gs ! 4 * qa + gs ! ?i * qf)"]) (simp add: q(1,2) spec_log_def algebra_simps)
  moreover have "spec_log gs ?m ?r ?i * ((x - f) mod ?N) + spec_log gs (a * ?m) t ?i - spec_log gs 0 zb ?i =
      ?N * (gs ! ?i * ?m * (qx - qf) - gs ! 4 * qb) + gs ! ?i * ?m * (1 - ?m) * x"
    unfolding q(4) unfolding q(3) unfolding q(1) by (simp add: spec_log_def algebra_simps)
  then have "pt (spec_log gs ?m ?r ?i * ((x - f) mod ?N) + spec_log gs (a * ?m) t ?i) = pt (spec_log gs 0 zb ?i) \<longleftrightarrow>
      ?N dvd gs ! ?i * ?m * (1 - ?m) * x"
    by (simp only: G(7) dvd_shift)
  ultimately show ?thesis
    using x fz by (simp add: ZeroOne_Verify_def Let_def try_point_def p dcom ca(2) cb(2) r1 r2 x_def [symmetric] G(3,4))
qed


definition with_opens :: "group_env \<Rightarrow> int \<times> int \<Rightarrow> int \<times> int \<Rightarrow> bytes \<Rightarrow> bytes \<Rightarrow> bool" where
  "with_opens V G H value sRnd = opens V (Mult V H sRnd) (with_point V G H value sRnd)"

lemma with_opens_Decompress:
  assumes "cyclic_curve V pt" "points_on_curve V pt" "with_opens V (pt g) (pt h) value sRnd"
  shows "DecompressCommitment (gv_curve V) (CommitWithSpecPoint V (pt g) (pt h) value sRnd) =
    Ok (pt (g * int_SetBytes value + h * int_SetBytes sRnd))"
  using opens_Decompress [OF assms(1,2)] assms(3)
  by (simp add: CommitWithSpecPoint_def with_opens_def with_point_def cyclicD(3,4,6) [OF assms(1)])

lemma commitment_point_log:
  assumes "cyclic_curve V pt" "0 \<le> u" "0 \<le> v"
  shows "computeCommitmentPoint V (pt g) (pt h) u v = pt (g * u + h * v)"
  using assms(2,3) by (simp add: computeCommitmentPoint_def cyclicD(3,4) [OF assms(1)])

lemma product_accepts:
  assumes cyc: "cyclic_curve V pt" and poc: "points_on_curve V pt" and base: "InitBasePoint V = Some (pt g, pt h)"
    and nn: "0 \<le> d" "0 \<le> e" "0 \<le> s" "0 \<le> s1" "0 \<le> t" and pr: "Product_Prove V d e s s1 t w = Some p"
    and op: "with_opens V (pt g) (pt h) (witnessA w) (randA w)" "with_opens V (pt g) (pt h) (witnessB w) (randB w)"
      "with_opens V (pt g) (pt h) (witnessAB w) (randC w)"
  shows "Product_Verify V p = Some (gN V dvd g * (int_SetBytes (witnessA w) * int_SetBytes (witnessB w) -
    int_SetBytes (witnessAB w)) * int_SetBytes (product_challenge V (pt g) (pt h) (pf_D p) (pf_D1 p) (pf_E p)))"
proof -
  note G = cyclicD [OF cyc] and dec = with_opens_Decompress [OF cyc poc] and cpl = commitment_point_log [OF cyc]
  let ?N = "gN V" and ?a = "int_SetBytes (witnessA w)" and ?b = "int_SetBytes (witnessB w)"
  let ?ra = "int_SetBytes (randA w)" and ?rb = "int_SetBytes (randB w)" and ?rc = "int_SetBytes (randC w)"
  let ?c = "int_SetBytes (witnessAB w)" and ?g1 = "g * int_SetBytes (witnessB w) + h * int_SetBytes (randB w)"
  define xb where "xb = product_challenge V (pt g) (pt h) (pt (g * d + h * s)) (pt (?g1 * d + h * s1)) (pt (g * e + h * t))"
  define x where "x = int_SetBytes xb"
  define f1 where "f1 = (?a * x + d) mod ?N"
  define z1 where "z1 = (?ra * x + s) mod ?N"
  define f2 where "f2 = (?b * x + e) mod ?N"
  define z2 where "z2 = (?rb * x + t) mod ?N"
  define z3 where "z3 = ((?rc - ?a * ?rb) * x + s1) mod ?N"
  note zdefs = f1_def z1_def f2_def z2_def z3_def
  have p: "p = \<lparr>bp_G = pt g, bp_H = pt h, pf_D = pt (g * d + h * s), pf_D1 = pt (?g1 * d + h * s1),
      pf_E = pt (g * e + h * t), pf_f1 = f1, pf_z1 = z1, pf_f2 = f2, pf_z2 = z2, pf_z3 = z3, pf_G1 = pt ?g1,
      cmA = CommitWithSpecPoint V (pt g) (pt h) (witnessA w) (randA w),
      cmB = CommitWithSpecPoint V (pt g) (pt h) (witnessB w) (randB w),
      cmC = CommitWithSpecPoint V (pt g) (pt h) (witnessAB w) (randC w)\<rparr>"
    using pr nn by (simp add: Product_Prove_def base Let_def dec [OF op(2)] cpl xb_def x_def zdefs)
  have zn: "0 \<le> f1" "0 \<le> z1" "0 \<le> f2" "0 \<le> z2" "0 \<le> z3" using G(1) by (simp_all add: zdefs)
  obtain q1 q2 q3 q4 q5 where q: "f1 = ?a * x + d + ?N * q1" "z1 = ?ra * x + s + ?N * q2" "f2 = ?b * x + e + ?N * q3"
      "z2 = ?rb * x + t + ?N * q4" "z3 = (?rc - ?a * ?rb) * x + s1 + ?N * q5"
    unfolding zdefs using mod_shift by metis
  have ok1: "pt (g * f1 + h * z1) = pt ((g * ?a + h * ?ra) * x + (g * d + h * s))"
    by (rule pt_shift [OF cyc, where k = "g * q1 + h * q2"]) (simp add: q algebra_simps)
  have ok2: "pt (g * f2 + h * z2) = pt ((g * ?b + h * ?rb) * x + (g * e + h * t))"
    by (rule pt_shift [OF cyc, where k = "g * q3 + h * q4"]) (simp add: q algebra_simps)
  have "?g1 * f1 + h * z3 - ((g * ?c + h * ?rc) * x + (?g1 * d + h * s1)) =
      ?N * (?g1 * q1 + h * q5) + g * (?a * ?b - ?c) * x" by (simp add: q algebra_simps)
  then have "pt (?g1 * f1 + h * z3) = pt ((g * ?c + h * ?rc) * x + (?g1 * d + h * s1)) \<longleftrightarrow>
      ?N dvd g * (?a * ?b - ?c) * x" by (simp only: G(7) dvd_shift)
  with ok1 ok2 show ?thesis
    by (simp add: Product_Verify_def Let_def p xb_def [symmetric] product_check_def dec op G(3,4) cpl zn x_def [symmetric])
qed


subsection \<open>Properties\<close>

text \<open>Claim C34 (functional): with a Schnorr key pair of \<open>SchnGenPrivKey\<close>, \<open>SchnSign\<close> signs every hash of 32 bytes and
  \<open>SchnVerify\<close> accepts the signature under the public key, whatever the random bytes are; the methods \<open>KeyGen\<close>, \<open>Sign\<close>
  and \<open>Verify\<close> of the keys do the same.\<close>

theorem schnorr_complete:
  assumes "cyclic_curve V pt" and "length hash = 32"
  shows "(\<exists>sg. SchnSign V k1Bytes k2Bytes hash (SchnGenPrivKey V xBytes rBytes hBytes) = Ok sg \<and>
      SchnVerify V (Some sg) hash (sk_PubKey (SchnGenPrivKey V xBytes rBytes hBytes))) \<and>
    (\<exists>sg. SchnPrivKey_Sign V k1Bytes k2Bytes (SchnPrivKey_KeyGen V xBytes rBytes hBytes) hash = Ok sg \<and>
      SchnPubKey_Verify V (sk_PubKey (SchnPrivKey_KeyGen V xBytes rBytes hBytes)) (Some sg) hash)"
  unfolding schnorr_methods using schnorr_accepts [OF assms] by blast

text \<open>The proof that \<open>ProveIsZero\<close> makes for a commitment to \<open>value\<close> is accepted by \<open>VerifyIsZero\<close>
  exactly when the order of the group divides \<open>value\<close> times the challenge times the generator's multiple, so for
  a prime order and a challenge other than 0 exactly when the value is zero, provided that the three points have even second
  coordinates.\<close>

theorem zero_proof_verdict:
  assumes "cyclic_curve V pt" and "points_on_curve V pt" and "length gs = 5" and "unat index < 5" and "0 \<le> s"
    and "cv = Compress V (spec_point V (map pt gs) value rnd (unat index))"
    and "IsOnCurve (gv_curve V) (spec_point V (map pt gs) value rnd (unat index))"
    and "even (snd (spec_point V (map pt gs) value rnd (unat index)))"
    and "ProveIsZero V (map pt gs) s cv rnd index = Some (c0, z)"
    and "spec_opens V (map pt gs) [] (int_Bytes s) (unat index)"
    and "spec_opens V (map pt gs) [] (int_Bytes z) (unat index)"
  shows "VerifyIsZero V (map pt gs) cv c0 index z =
    Some (gN V dvd gs ! unat index * int_SetBytes value * challenge V (map pt gs) [cv])"
  by (rule zero_proof_accepts [OF assms])

text \<open>Claim C36 (safety): \<open>PKComZeroOneProtocol.Verify\<close> accepts the proof that \<open>Prove\<close> makes for a commitment to \<open>m\<close>
  exactly when the order divides \<open>m (1 - m)\<close> times the challenge times the generator's multiple, so for a prime order
  and a challenge other than 0 exactly for the values 0 and 1 modulo the order, provided that the five commitments open. \<open>Prove\<close>
  itself, which compares the value with 0 twice, refuses no value.\<close>

theorem zero_one_verdict:
  assumes "cyclic_curve V pt" and "points_on_curve V pt" and "length gs = 5"
    and "CommitSpecValue V (map pt gs) (w_CommitedValue w) (w_Rand w) (w_Index w) = Some (w_Commitment w)"
    and "ZeroOne_Prove V (map pt gs) aRnd sRnd tRnd w = Ok p"
    and "spec_opens V (map pt gs) (w_CommitedValue w) (w_Rand w) (unat (w_Index w))"
    and "spec_opens V (map pt gs) (int_Bytes a) (int_Bytes s) (unat (w_Index w))"
    and "spec_opens V (map pt gs) (int_Bytes (a * int_SetBytes (w_CommitedValue w))) (int_Bytes t) (unat (w_Index w))"
    and "spec_opens V (map pt gs) (p_f p) (p_za p) (unat (w_Index w))"
    and "spec_opens V (map pt gs) [] (p_zb p) (unat (w_Index w))"
    and "a = int_SetBytes aRnd mod gN V" and "s = int_SetBytes sRnd mod gN V" and "t = int_SetBytes tRnd mod gN V"
  shows "ZeroOne_Verify V (map pt gs) p = Some (gN V dvd gs ! unat (w_Index w) * int_SetBytes (w_CommitedValue w) *
    (1 - int_SetBytes (w_CommitedValue w)) * challenge V (map pt gs) [p_ca p, p_cb p, p_commitment p])"
  by (rule zero_one_accepts [OF assms])

text \<open>Claim C37 (safety): \<open>PKComProductProtocol.Verify\<close> accepts the proof that \<open>Prove\<close> makes for commitments to
  \<open>a\<close>, \<open>b\<close> and \<open>c\<close> exactly when the order divides \<open>a b - c\<close> times the challenge times the generator's multiple, so
  for a prime order and a challenge other than 0 exactly when \<open>c\<close> is the product, provided that the three commitments open.\<close>

theorem product_verdict:
  assumes "cyclic_curve V pt" and "points_on_curve V pt" and "InitBasePoint V = Some (pt g, pt h)"
    and "0 \<le> d" and "0 \<le> e" and "0 \<le> s" and "0 \<le> s1" and "0 \<le> t" and "Product_Prove V d e s s1 t w = Some p"
    and "with_opens V (pt g) (pt h) (witnessA w) (randA w)" and "with_opens V (pt g) (pt h) (witnessB w) (randB w)"
    and "with_opens V (pt g) (pt h) (witnessAB w) (randC w)"
  shows "Product_Verify V p = Some (gN V dvd g * (int_SetBytes (witnessA w) * int_SetBytes (witnessB w) -
    int_SetBytes (witnessAB w)) * int_SetBytes (product_challenge V (pt g) (pt h) (pf_D p) (pf_D1 p) (pf_E p)))"
  by (rule product_accepts [OF assms])

subsection \<open>A concrete group\<close>

text \<open>The multiples of \<open>(0, 1)\<close> on the curve modulo 3; the example hash is empty for the empty and for long inputs.\<close>

definition ex_pt :: "int \<Rightarrow> int \<times> int" where
  "ex_pt a = (0, a mod 3)"

definition ex_group :: group_env where
  "ex_group = \<lparr>gv_curve = example_curve\<lparr>ScalarBaseMult := (\<lambda>k. ex_pt (int_SetBytes k)),
       ScalarMult := (\<lambda>p k. ex_pt (snd p * int_SetBytes k))\<rparr>,
     Gen = ex_pt 1, Add = (\<lambda>p q. ex_pt (snd p + snd q)),
     Blake2b = (\<lambda>b. if b \<noteq> [] \<and> length b < 100 then [1] else [])\<rparr>"

lemma ex_group_simps [simp]: "gP ex_group = 3" "gN ex_group = 3" "cB (gv_curve ex_group) = 1" "Gen ex_group = ex_pt 1"
  "BaseMult ex_group k = ex_pt (int_SetBytes k)" "Mult ex_group p k = ex_pt (snd p * int_SetBytes k)"
  "Add ex_group p q = ex_pt (snd p + snd q)" "Blake2b ex_group b = (if b \<noteq> [] \<and> length b < 100 then [1] else [])"
  "IsOnCurve (gv_curve ex_group) (x, y) \<longleftrightarrow> y * y mod 3 = (x * x * x + 1 - x * 3) mod 3"
  by (simp_all add: ex_group_def example_curve_def)

lemma ex_cyclic: "cyclic_curve ex_group ex_pt"
  unfolding cyclic_curve_def by (auto simp: ex_pt_def mod_simps)

lemma ex_points: "points_on_curve ex_group ex_pt"
proof -
  have "curve_ok (gv_curve ex_group)"
    using example_curve_ok by (simp add: curve_ok_def cubic_def ex_group_def example_curve_def)
  moreover have "(a mod 3) * (a mod 3) mod 3 = 1" if "a mod 3 \<noteq> 0" for a :: int
    using not_dvd_3 [of a] that by (auto simp: mod_eq_0_iff_dvd)
  ultimately show ?thesis unfolding points_on_curve_def by (simp add: ex_pt_def)
qed

definition ex_gens :: "int list" where
  "ex_gens = [1, 1, 1, 1, 1]"

lemma ex_gens_simps [simp]: "length ex_gens = 5" "ex_gens ! 0 = 1" "ex_gens ! 4 = 1"
  by (simp_all add: ex_gens_def)

lemma ex_challenge [simp]: "challenge ex_group (map ex_pt ex_gens) values = 0"
proof -
  have "length (Compress ex_group (ex_pt 1)) = 33"
    by (rule pt_compress(1) [OF ex_cyclic ex_points]) (simp add: ex_pt_def)
  then show ?thesis by (simp add: challenge_def GetHashOfValues_def ex_gens_def)
qed

lemma ex_on_curve: "IsOnCurve (gv_curve ex_group) (ex_pt a) \<longleftrightarrow> a mod 3 \<noteq> 0"
  using not_dvd_3 [of a] by (auto simp: ex_pt_def mod_eq_0_iff_dvd)

lemma ex_even: "a mod 3 \<noteq> 0 \<and> even (snd (ex_pt a)) \<longleftrightarrow> a mod 3 = 2"
  unfolding ex_pt_def snd_conv by presburger

lemma ex_spec_point: "spec_point ex_group (map ex_pt ex_gens) v r 0 = ex_pt (int_SetBytes r + int_SetBytes v)"
  by (simp add: spec_point_log [OF ex_cyclic] spec_log_def)

lemma ex_opens: "spec_opens ex_group (map ex_pt ex_gens) v r 0 \<longleftrightarrow>
    int_SetBytes r mod 3 \<noteq> 0 \<and> (int_SetBytes r + int_SetBytes v) mod 3 = 2"
proof -
  have "map ex_pt ex_gens ! 0 = ex_pt 1" by (simp add: ex_gens_def)
  then have "Mult ex_group (map ex_pt ex_gens ! 0) r = ex_pt (int_SetBytes r)" by (simp add: ex_pt_def)
  then show ?thesis by (simp only: spec_opens_def opens_def ex_spec_point ex_on_curve ex_even)
qed


lemma ex_with_opens: "with_opens ex_group (ex_pt 1) (ex_pt 1) v r \<longleftrightarrow>
    int_SetBytes r mod 3 \<noteq> 0 \<and> (int_SetBytes v + int_SetBytes r) mod 3 = 2"
proof -
  have "Mult ex_group (ex_pt 1) r = ex_pt (int_SetBytes r)"
    "with_point ex_group (ex_pt 1) (ex_pt 1) v r = ex_pt (int_SetBytes v + int_SetBytes r)"
    by (simp_all add: with_point_def ex_pt_def mod_simps)
  then show ?thesis by (simp only: with_opens_def opens_def ex_on_curve ex_even)
qed

lemma ex_InitBasePoint: "InitBasePoint ex_group = Some (ex_pt 1, ex_pt 1)"
proof -
  have e: "int_Bytes 0 = []" by (simp add: int_Bytes_def)
  have y: "ComputeYCoord (gv_curve ex_group) 0 = Ok 1" by (simp add: ComputeYCoord_def cubic_def big_Exp_def PAdd1Div4_def)
  have "hash_generator_loop ex_group 0 = Some (0, 1)"
    by (subst hash_generator_loop.simps) (simp add: e y)
  then show ?thesis by (simp add: InitBasePoint_def HashGenerator_def ex_pt_def)
qed

text \<open>One byte as a number.\<close>

lemma int_SetBytes_one [simp]: "int_SetBytes [b] = uint b"
  by (simp add: int_SetBytes_def big_SetBytes_def)

theorem schnorr_complete_witness:
  "\<exists>sg. SchnSign ex_group [1] [2] (replicate 32 0) (SchnGenPrivKey ex_group [1] [1] [2]) = Ok sg \<and>
    SchnVerify ex_group (Some sg) (replicate 32 0) (sk_PubKey (SchnGenPrivKey ex_group [1] [1] [2]))"
  by (rule conjunct1 [OF schnorr_complete [OF ex_cyclic]]) simp

theorem zero_proof_verdict_witness:
  "\<exists>cv c0. ProveIsZero ex_group (map ex_pt ex_gens) 2 cv [2] 0 = Some (c0, 2) \<and>
    VerifyIsZero ex_group (map ex_pt ex_gens) cv c0 0 2 = Some True"
proof -
  define cv where "cv = Compress ex_group (spec_point ex_group (map ex_pt ex_gens) [] [2] (unat (0 :: byte)))"
  have op: "spec_opens ex_group (map ex_pt ex_gens) [] (int_Bytes 2) (unat (0 :: byte))" by (simp add: ex_opens)
  obtain c0 where "CommitSpecValue ex_group (map ex_pt ex_gens) [] (int_Bytes 2) 0 = Some c0"
    using CommitSpecValue_opens [OF ex_cyclic ex_points _ _ op] by auto
  then have pr: "ProveIsZero ex_group (map ex_pt ex_gens) 2 cv [2] 0 = Some (c0, 2)" by (simp add: ProveIsZero_def)
  have sp: "IsOnCurve (gv_curve ex_group) (spec_point ex_group (map ex_pt ex_gens) [] [2] (unat (0 :: byte)))"
    "even (snd (spec_point ex_group (map ex_pt ex_gens) [] [2] (unat (0 :: byte))))"
    by (simp_all only: unsigned_0 ex_spec_point ex_on_curve) (simp_all add: ex_pt_def)
  have "VerifyIsZero ex_group (map ex_pt ex_gens) cv c0 0 2 = Some True"
    using zero_proof_verdict [OF ex_cyclic ex_points _ _ _ cv_def sp pr op op] by simp
  with pr show ?thesis by blast
qed

definition ex_zero_one :: "bytes \<Rightarrow> PKComZeroOneWitness" where
  "ex_zero_one c = \<lparr>w_Commitment = c, w_CommitedValue = [1], w_Rand = [1], w_Index = 0\<rparr>"

theorem zero_one_verdict_witness:
  "\<exists>c p. CommitSpecValue ex_group (map ex_pt ex_gens) [1] [1] 0 = Some c \<and>
    ZeroOne_Prove ex_group (map ex_pt ex_gens) [] [2] [2] (ex_zero_one c) = Ok p \<and>
    ZeroOne_Verify ex_group (map ex_pt ex_gens) p = Some True"
proof -
  let ?G = "map ex_pt ex_gens"
  have op: "spec_opens ex_group ?G [1] [1] (unat (0 :: byte))" "spec_opens ex_group ?G (int_Bytes 0) (int_Bytes 2) (unat (0 :: byte))"
    by (simp_all add: ex_opens)
  note opn = CommitSpecValue_opens [OF ex_cyclic ex_points]
  obtain c ca where c: "CommitSpecValue ex_group ?G [1] [1] 0 = Some c"
      "CommitSpecValue ex_group ?G (int_Bytes 0) (int_Bytes 2) 0 = Some ca"
    using opn [OF _ _ op(1)] opn [OF _ _ op(2)] by auto
  define p where "p = \<lparr>p_ca = ca, p_cb = ca, p_f = int_Bytes 0, p_za = int_Bytes 2, p_zb = int_Bytes 2,
    p_commitment = c, p_index = 0\<rparr>"
  have pr: "ZeroOne_Prove ex_group ?G [] [2] [2] (ex_zero_one c) = Ok p"
    by (simp add: ZeroOne_Prove_def Let_def ex_zero_one_def c p_def)
  have w: "w_CommitedValue (ex_zero_one c) = [1]" "w_Rand (ex_zero_one c) = [1]" "w_Index (ex_zero_one c) = 0"
    "w_Commitment (ex_zero_one c) = c" by (simp_all add: ex_zero_one_def)
  have op2: "spec_opens ex_group ?G (int_Bytes (0 * int_SetBytes [1])) (int_Bytes 2) (unat (0 :: byte))"
    "spec_opens ex_group ?G (p_f p) (p_za p) (unat (0 :: byte))" "spec_opens ex_group ?G [] (p_zb p) (unat (0 :: byte))"
    by (simp_all add: ex_opens p_def)
  have n: "0 = int_SetBytes [] mod gN ex_group" "2 = int_SetBytes [2] mod gN ex_group" by simp_all
  have "ZeroOne_Verify ex_group ?G p = Some True"
    using zero_one_verdict [OF ex_cyclic ex_points ex_gens_simps(1), of "ex_zero_one c", unfolded w, OF c(1) pr op op2 n n(2)]
    by simp
  with c(1) pr show ?thesis by blast
qed

definition ex_product :: PKComProductWitness where
  "ex_product = \<lparr>witnessA = [1], randA = [1], witnessB = [1], randB = [1], witnessAB = [1], randC = [1]\<rparr>"

theorem product_verdict_witness:
  "\<exists>p. Product_Prove ex_group 1 1 1 1 1 ex_product = Some p \<and> Product_Verify ex_group p = Some True"
proof -
  have op: "with_opens ex_group (ex_pt 1) (ex_pt 1) [1] [1]" by (simp add: ex_with_opens)
  obtain p where p: "Product_Prove ex_group 1 1 1 1 1 ex_product = Some p"
    using with_opens_Decompress [OF ex_cyclic ex_points op]
    by (simp add: Product_Prove_def ex_InitBasePoint ex_product_def Let_def)
  have "Product_Verify ex_group p = Some True"
    using product_verdict [OF ex_cyclic ex_points ex_InitBasePoint _ _ _ _ _ p] op by (simp add: ex_product_def)
  with p show ?thesis by blast
qed

end
