(* ===== verification/Polynomials.thy ===== *)
theory Polynomials
  imports GoStrings
begin

text \<open>
  Polynomials with integer coefficients, with or without a modulus (\<open>privacy-protocol/polynomials.go\<close>). A polynomial is
  the list of its coefficients, the constant first; the modulus \<open>None\<close> is nil. \<open>None\<close> as a result is a panic or, for \<open>Div\<close> and
  \<open>Gcd\<close>, no return. An empty slice has no spare capacity, so that cutting it to length 1 panics.
\<close>

type_synonym Poly = "int list"

subsection \<open>Operations\<close>

text \<open>\<open>big.Int.Mod\<close> and \<open>big.Int.Div\<close> are Euclidean; a modulus 0 panics, see \<open>bad_mod\<close>.\<close>

definition reduce :: "int option \<Rightarrow> int \<Rightarrow> int" where
  "reduce m x = (case m of None \<Rightarrow> x | Some n \<Rightarrow> x mod \<bar>n\<bar>)"

definition big_Div :: "int \<Rightarrow> int \<Rightarrow> int" where
  "big_Div x y = sgn y * (x div \<bar>y\<bar>)"

definition bad_mod :: "int option \<Rightarrow> bool" where
  "bad_mod m = (m = Some 0)"

text \<open>\<open>big.Int.ModInverse\<close>; without an inverse the receiver keeps its value, here 0.\<close>

definition ModInverse :: "int \<Rightarrow> int \<Rightarrow> int" where
  "ModInverse g n =
     (let a = nat (g mod \<bar>n\<bar>); b = nat \<bar>n\<bar> in if gcd a b = 1 then fst (bezw a b) mod \<bar>n\<bar> else 0)"

definition GetDegree :: "Poly \<Rightarrow> int" where
  "GetDegree p = int (length p) - 1"

fun trim_loop :: "Poly \<Rightarrow> nat \<Rightarrow> nat" where
  "trim_loop p 0 = 0"
| "trim_loop p (Suc i) = (if p ! Suc i \<noteq> 0 then Suc i else trim_loop p i)"

definition trim :: "Poly \<Rightarrow> Poly option" where
  "trim p = (if p = [] then None else Some (take (trim_loop p (length p - 1) + 1) p))"

definition NewPolyInts :: "int list \<Rightarrow> Poly option" where
  "NewPolyInts coeffs = trim coeffs"

text \<open>The random coefficients are the argument, one more than the degree.\<close>

definition RandomPoly :: "int list \<Rightarrow> Poly option" where
  "RandomPoly randoms = trim randoms"

definition isZero :: "Poly \<Rightarrow> bool" where
  "isZero p = (GetDegree p = 0 \<and> p ! 0 = 0)"

text \<open>\<open>String\<close>: \<open>Int64\<close> takes the low 64 bits of the absolute value.\<close>

definition Int64_of :: "int \<Rightarrow> int" where
  "Int64_of x = wrap64 (sgn x * wrap64 \<bar>x\<bar>)"

definition term_String :: "nat \<Rightarrow> nat \<Rightarrow> int \<Rightarrow> string" where
  "term_String n i c =
     (let power = (if i > 0 then ''x'' @ (if i > 1 then ''^'' @ Itoa (int i) else '''') else '''') in
      if c < 0 then
        (if i = n - 1 then ''-'' else '' - '') @ (if i = 0 \<or> Int64_of c \<noteq> - 1 then drop 1 (Itoa c) else '''') @ power
      else if c = 0 then ''''
      else (if i < n - 1 then '' + '' else '''') @ (if i = 0 \<or> Int64_of c \<noteq> 1 then Itoa c else '''') @ power)"

definition Poly_String :: "Poly \<Rightarrow> string" where
  "Poly_String p =
     (let s = ''['' @ concat (map (\<lambda>i. term_String (length p) i (p ! i)) (rev [0..<length p]))
      in (if s = ''['' then s @ ''0'' else s) @ '']'')"

fun compare_loop :: "Poly \<Rightarrow> Poly \<Rightarrow> int" where
  "compare_loop (a # p) (b # q) = (if a > b then 1 else if a < b then - 1 else compare_loop p q)"
| "compare_loop _ _ = 0"

definition Compare :: "Poly \<Rightarrow> Poly \<Rightarrow> int" where
  "Compare p q =
     (if GetDegree p > GetDegree q then 1 else if GetDegree p < GetDegree q then - 1 else compare_loop p q)"

lemma compare_loop_swap: "compare_loop q p = - compare_loop p q"
  by (induction p q rule: compare_loop.induct) auto

lemma Compare_swap: "Compare q p = - Compare p q"
  by (simp add: Compare_def compare_loop_swap [of q p])

text \<open>The operands are swapped when the first is the smaller.\<close>

function poly_Add :: "Poly \<Rightarrow> Poly \<Rightarrow> int option \<Rightarrow> Poly option" where
  "poly_Add p q m =
     (if Compare p q < 0 then poly_Add q p m
      else if bad_mod m then None
      else trim (map (reduce m) (map2 (+) p q @ drop (length q) p)))"
  by pat_completeness auto
termination
proof (relation "measure (\<lambda>(p, q, m). if Compare p q < 0 then 1 else 0)", goal_cases)
  case (2 p q m)
  then show ?case by (simp add: Compare_swap [of q p])
qed simp

definition Neg :: "Poly \<Rightarrow> Poly" where
  "Neg p = map uminus p"

definition Clone :: "Poly \<Rightarrow> int \<Rightarrow> Poly option" where
  "Clone p adjust =
     (if int (length p) + adjust < 0 then None
      else if adjust < 0 then NewPolyInts [0]
      else Some (replicate (nat adjust) 0 @ p))"

text \<open>\<open>sanitize\<close> changes the coefficients in place: the caller of \<open>Mul\<close> and \<open>Div\<close> sees its operands as \<open>in_place m p\<close>,
  reduced but not trimmed.\<close>

definition in_place :: "int option \<Rightarrow> Poly \<Rightarrow> Poly" where
  "in_place m p = map (reduce m) p"

definition sanitize :: "int option \<Rightarrow> Poly \<Rightarrow> Poly option" where
  "sanitize m p = (if m = None then Some p else if bad_mod m then None else trim (in_place m p))"

definition poly_Sub :: "Poly \<Rightarrow> Poly \<Rightarrow> int option \<Rightarrow> Poly option" where
  "poly_Sub p q m = poly_Add p (Neg q) m"

fun mul_row :: "int option \<Rightarrow> int \<Rightarrow> Poly \<Rightarrow> nat \<Rightarrow> Poly \<Rightarrow> Poly" where
  "mul_row m a [] k r = r"
| "mul_row m a (b # q) k r = mul_row m a q (k + 1) (r[k := reduce m (a * b + r ! k)])"

fun mul_rows :: "int option \<Rightarrow> Poly \<Rightarrow> Poly \<Rightarrow> nat \<Rightarrow> Poly \<Rightarrow> Poly" where
  "mul_rows m [] q k r = r"
| "mul_rows m (a # p) q k r = mul_rows m p q (k + 1) (mul_row m a q k r)"

definition poly_Mul :: "Poly \<Rightarrow> Poly \<Rightarrow> int option \<Rightarrow> Poly option" where
  "poly_Mul p q m =
     Option.bind (sanitize m p) (\<lambda>p. Option.bind (sanitize m q) (\<lambda>q.
       if p = [] \<and> q = [] then None
       else trim (mul_rows m p q 0 (replicate (length p + length q - 1) 0))))"

text \<open>The next coefficient of the quotient.\<close>

definition lead_quotient :: "int option \<Rightarrow> int \<Rightarrow> int \<Rightarrow> int option" where
  "lead_quotient m t q =
     (case m of
        Some n \<Rightarrow> Some (ModInverse q n * t mod \<bar>n\<bar>)
      | None \<Rightarrow> if q = 0 then None else Some (big_Div t q))"

partial_function (option) div_loop :: "Poly \<Rightarrow> int option \<Rightarrow> Poly \<Rightarrow> Poly \<Rightarrow> Poly \<Rightarrow> (Poly \<times> Poly) option" where
  "div_loop q m p t quo =
     (let rd = GetDegree t - GetDegree q in
      if rd < 0 \<or> isZero t
      then Option.bind (trim quo) (\<lambda>quo. Option.bind (trim t) (\<lambda>rem. Some (quo, rem)))
      else if q = [] \<or> t = [] then None
      else Option.bind (lead_quotient m (last t) (last q)) (\<lambda>r.
        if r = 0 then Option.bind (NewPolyInts [0]) (\<lambda>quo. Option.bind (Clone p 0) (\<lambda>rem. Some (quo, rem)))
        else Option.bind (Clone q rd) (\<lambda>u.
          let u = take (nat rd) u @ map (\<lambda>c. reduce m (c * r)) (drop (nat rd) u) in
          Option.bind (poly_Sub t u m) (\<lambda>t. Option.bind (trim t) (\<lambda>t. div_loop q m p t (quo[nat rd := r]))))))"

definition poly_Div :: "Poly \<Rightarrow> Poly \<Rightarrow> int option \<Rightarrow> (Poly \<times> Poly) option" where
  "poly_Div p q m =
     Option.bind (sanitize m p) (\<lambda>p. Option.bind (sanitize m q) (\<lambda>q.
       if GetDegree p < GetDegree q \<or> isZero q
       then Option.bind (NewPolyInts [0]) (\<lambda>quo. Option.bind (Clone p 0) (\<lambda>rem. Some (quo, rem)))
       else Option.bind (Clone p 0) (\<lambda>t.
              div_loop q m p t (replicate (nat (GetDegree p - GetDegree q + 1)) 0))))"

text \<open>After \<open>Div\<close> the divisor has its coefficients reduced in place.\<close>

partial_function (option) poly_Gcd :: "Poly \<Rightarrow> Poly \<Rightarrow> int option \<Rightarrow> Poly option" where
  "poly_Gcd p q m =
     (if Compare p q < 0 then poly_Gcd q p m
      else if isZero q then Some p
      else Option.bind (poly_Div p q m) (\<lambda>(_, rem). poly_Gcd (in_place m q) rem m))"

fun eval_loop :: "int option \<Rightarrow> int \<Rightarrow> Poly \<Rightarrow> int \<Rightarrow> int \<Rightarrow> int" where
  "eval_loop m x [] y accx = y"
| "eval_loop m x (a # p) y accx = eval_loop m x p (reduce m (y + accx * a)) (reduce m (accx * x))"

definition Eval :: "Poly \<Rightarrow> int \<Rightarrow> int option \<Rightarrow> int option" where
  "Eval p x m = (if bad_mod m \<and> p \<noteq> [] then None else Some (eval_loop m x p 0 1))"

subsection \<open>Evaluation\<close>

text \<open>The value of a polynomial by Horner's rule, and equality up to the modulus.\<close>

fun peval :: "Poly \<Rightarrow> int \<Rightarrow> int" where
  "peval [] x = 0"
| "peval (a # p) x = a + x * peval p x"

definition meq :: "int option \<Rightarrow> int \<Rightarrow> int \<Rightarrow> bool" where
  "meq m a b \<longleftrightarrow> reduce m a = reduce m b"

lemma meq_iff: "meq m a b \<longleftrightarrow> (case m of None \<Rightarrow> a = b | Some n \<Rightarrow> n dvd a - b)"
  by (simp add: meq_def reduce_def mod_eq_dvd_iff split: option.split)

lemma meq_refl [simp, intro!]: "meq m a a"
  by (simp add: meq_def)

lemma meq_sym: "meq m a b \<Longrightarrow> meq m b a"
  by (simp add: meq_def)

lemma meq_trans [trans]: "meq m a b \<Longrightarrow> meq m b c \<Longrightarrow> meq m a c"
  by (simp add: meq_def)

lemma meq_add:
  assumes "meq m a b" "meq m c d"
  shows "meq m (a + c) (b + d)"
proof (cases m)
  case (Some n)
  have e: "a + c - (b + d) = (a - b) + (c - d)" by simp
  show ?thesis using assms unfolding meq_iff Some option.case e by (rule dvd_add)
qed (use assms in \<open>simp add: meq_iff\<close>)

lemma meq_mult:
  assumes "meq m a b" "meq m c d"
  shows "meq m (a * c) (b * d)"
proof (cases m)
  case (Some n)
  have e: "a * c - b * d = (a - b) * c + b * (c - d)" by (simp add: algebra_simps)
  show ?thesis
    using assms unfolding meq_iff Some option.case e by (intro dvd_add dvd_mult dvd_mult2)
qed (use assms in \<open>simp add: meq_iff\<close>)

lemma meq_uminus: "meq m a b \<Longrightarrow> meq m (- a) (- b)"
  using meq_mult [of m "- 1" "- 1" a b] by simp

lemma meq_diff: "meq m a b \<Longrightarrow> meq m c d \<Longrightarrow> meq m (a - c) (b - d)"
  using meq_add [OF _ meq_uminus] by fastforce

lemma meq_reduce [simp]: "meq m (reduce m a) a"
  by (simp add: meq_def reduce_def split: option.split)

lemma peval_meq: "length p = length q \<Longrightarrow> (\<And>i. i < length p \<Longrightarrow> meq m (p ! i) (q ! i)) \<Longrightarrow> meq m (peval p x) (peval q x)"
proof (induction p q rule: list_induct2)
  case (Cons a p b q)
  have "meq m a b" using Cons.prems [of 0] by simp
  moreover have "meq m (peval p x) (peval q x)" using Cons.prems [of "Suc i" for i] by (intro Cons.IH) auto
  ultimately show ?case by (simp add: meq_add meq_mult)
qed simp

lemma peval_reduce: "meq m (peval (map (reduce m) p) x) (peval p x)"
  by (rule peval_meq) simp_all

lemma peval_append: "peval (p @ q) x = peval p x + x ^ length p * peval q x"
  by (induction p) (simp_all add: algebra_simps)

lemma peval_zeros [simp]: "peval (replicate n 0) x = 0"
  by (induction n) simp_all

lemma peval_Neg: "peval (Neg p) x = - peval p x"
  by (induction p) (simp_all add: Neg_def)

lemma peval_scale: "peval (map (\<lambda>c. c * r) p) x = r * peval p x"
  by (induction p) (simp_all add: algebra_simps)

lemma peval_plus: "length q \<le> length p \<Longrightarrow> peval (map2 (+) p q @ drop (length q) p) x = peval p x + peval q x"
proof (induction p arbitrary: q)
  case (Cons a p)
  then show ?case by (cases q) (simp_all add: algebra_simps)
qed simp

lemma peval_update: "k < length r \<Longrightarrow> peval (r[k := c]) x = peval r x + x ^ k * (c - r ! k)"
proof (induction r arbitrary: k)
  case (Cons a r)
  show ?case
  proof (cases k)
    case (Suc j)
    then have "peval (r[j := c]) x = peval r x + x ^ j * (c - r ! j)" using Cons by simp
    then show ?thesis using Suc by (simp add: distrib_left mult.assoc)
  qed simp
qed simp

subsection \<open>Trimming\<close>

text \<open>A polynomial is trimmed when it is not empty and has no leading zero.\<close>

definition trimmed :: "Poly \<Rightarrow> bool" where
  "trimmed p \<longleftrightarrow> p \<noteq> [] \<and> (length p = 1 \<or> last p \<noteq> 0)"

lemma trim_loop_le: "trim_loop p i \<le> i"
  by (induction i) auto

lemma trim_loop_zeros: "trim_loop p i < j \<Longrightarrow> j \<le> i \<Longrightarrow> p ! j = 0"
  by (induction i) (auto simp: le_Suc_eq split: if_splits)

lemma trim_loop_nonzero: "trim_loop p i \<noteq> 0 \<Longrightarrow> p ! trim_loop p i \<noteq> 0"
  by (induction i) auto

lemma trim_Some:
  assumes "p \<noteq> []"
  obtains n where "trim p = Some (take (n + 1) p)" "n < length p" "drop (n + 1) p = replicate (length p - (n + 1)) 0"
    "n \<noteq> 0 \<Longrightarrow> p ! n \<noteq> 0"
proof -
  let ?n = "trim_loop p (length p - 1)"
  have n: "?n < length p" using trim_loop_le [of p "length p - 1"] assms by (cases p) auto
  have "drop (?n + 1) p = replicate (length p - (?n + 1)) 0"
    by (rule nth_equalityI) (use trim_loop_zeros [of p "length p - 1"] in auto)
  then show ?thesis using that [of ?n] n trim_loop_nonzero [of p "length p - 1"] assms by (auto simp: trim_def)
qed

lemma trim_peval: "trim p = Some q \<Longrightarrow> peval q x = peval p x"
proof -
  assume t: "trim p = Some q"
  then have "p \<noteq> []" by (auto simp: trim_def)
  then obtain n where n: "q = take (n + 1) p" "drop (n + 1) p = replicate (length p - (n + 1)) 0"
    using trim_Some [of p] t by (metis option.inject)
  have "peval p x = peval (take (n + 1) p @ drop (n + 1) p) x" by simp
  also have "\<dots> = peval q x" unfolding n peval_append by simp
  finally show ?thesis by simp
qed

lemma trim_trimmed: "trim p = Some q \<Longrightarrow> trimmed q \<and> length q \<le> length p \<and> set q \<subseteq> set p"
proof -
  assume t: "trim p = Some q"
  then have "p \<noteq> []" by (auto simp: trim_def)
  then obtain n where n: "q = take (n + 1) p" "n < length p" "n \<noteq> 0 \<Longrightarrow> p ! n \<noteq> 0"
    using trim_Some [of p] t by (metis option.inject)
  have "last q = p ! n" "length q = n + 1" using n(1,2) by (simp_all add: take_Suc_conv_app_nth)
  then show ?thesis using n set_take_subset [of "n + 1" p] by (auto simp: trimmed_def)
qed

lemma trim_id: "trimmed p \<Longrightarrow> trim p = Some p"
proof -
  assume t: "trimmed p"
  then have "trim_loop p (length p - 1) = length p - 1"
    by (cases "length p - 1") (auto simp: trimmed_def last_conv_nth)
  then show ?thesis using t by (simp add: trim_def trimmed_def)
qed

lemma trim_total: "p \<noteq> [] \<Longrightarrow> \<exists>q. trim p = Some q"
  by (simp add: trim_def)

subsection \<open>Sum, product and value\<close>

text \<open>What the operations promise of their results: trimmed and reduced.\<close>

definition poly_ok :: "int option \<Rightarrow> Poly \<Rightarrow> bool" where
  "poly_ok m p \<longleftrightarrow> trimmed p \<and> (\<forall>c\<in>set p. reduce m c = c)"

lemma reduce_reduce [simp]: "reduce m (reduce m c) = reduce m c"
  by (simp add: reduce_def split: option.split)

lemma trim_ok:
  assumes "p \<noteq> []" "\<forall>c\<in>set p. reduce m c = c"
  obtains q where "trim p = Some q" "poly_ok m q" "length q \<le> length p" "\<And>x. peval q x = peval p x"
  using trim_total [OF assms(1)] trim_trimmed trim_peval assms(2) unfolding poly_ok_def by (metis subsetD)

lemma Compare_length: "Compare p q \<ge> 0 \<Longrightarrow> length q \<le> length p"
  by (auto simp: Compare_def GetDegree_def split: if_splits)

lemma poly_Add_ordered:
  assumes "Compare p q \<ge> 0" "p \<noteq> []" "\<not> bad_mod m"
  shows "\<exists>r. poly_Add p q m = Some r \<and> poly_ok m r \<and> length r \<le> length p \<and>
    (\<forall>x. meq m (peval r x) (peval p x + peval q x))"
proof -
  let ?l = "map (reduce m) (map2 (+) p q @ drop (length q) p)"
  have len: "length q \<le> length p" by (rule Compare_length [OF assms(1)])
  then have l: "length ?l = length p" by simp
  then have ne: "?l \<noteq> []" using assms(2) by fastforce
  have red: "\<forall>c\<in>set ?l. reduce m c = c" by auto
  obtain r where r: "trim ?l = Some r" "poly_ok m r" "length r \<le> length p" "\<And>x. peval r x = peval ?l x"
    using trim_ok [OF ne red] unfolding l by blast
  moreover have "meq m (peval ?l x) (peval p x + peval q x)" for x
    unfolding peval_plus [OF len, symmetric] by (rule peval_reduce)
  ultimately show ?thesis using assms by (subst poly_Add.simps) (simp del: map_append)
qed

lemma poly_Add_spec:
  assumes "p \<noteq> []" "q \<noteq> []" "\<not> bad_mod m"
  shows "\<exists>r. poly_Add p q m = Some r \<and> poly_ok m r \<and> length r \<le> max (length p) (length q) \<and>
    (\<forall>x. meq m (peval r x) (peval p x + peval q x))"
proof (cases "Compare p q < 0")
  case True
  have c: "Compare q p \<ge> 0" using True by (simp add: Compare_swap [of q p])
  have "poly_Add p q m = poly_Add q p m" using True by (subst poly_Add.simps) simp
  then show ?thesis
    using poly_Add_ordered [OF c assms(2,3)] unfolding add.commute [of "peval p x" "peval q x" for x] by (metis le_max_iff_disj)
next
  case False
  then show ?thesis using poly_Add_ordered [OF _ assms(1,3), of q] by auto
qed

lemma poly_Sub_spec:
  assumes "p \<noteq> []" "q \<noteq> []" "\<not> bad_mod m"
  shows "\<exists>r. poly_Sub p q m = Some r \<and> poly_ok m r \<and> length r \<le> max (length p) (length q) \<and>
    (\<forall>x. meq m (peval r x) (peval p x - peval q x))"
proof -
  have n: "Neg q \<noteq> []" "length (Neg q) = length q" using assms(2) by (simp_all add: Neg_def)
  show ?thesis using poly_Add_spec [OF assms(1) n(1) assms(3)] by (simp add: poly_Sub_def n(2) peval_Neg)
qed

lemma sanitize_spec:
  assumes "p \<noteq> []" "\<not> bad_mod m"
  shows "\<exists>q. sanitize m p = Some q \<and> q \<noteq> [] \<and> length q \<le> length p \<and> (\<forall>x. meq m (peval q x) (peval p x)) \<and>
    (m \<noteq> None \<longrightarrow> poly_ok m q)"
proof (cases m)
  case (Some n)
  have ne: "in_place m p \<noteq> []" "\<forall>c\<in>set (in_place m p). reduce m c = c" using assms(1) by (auto simp: in_place_def)
  obtain q where q: "trim (in_place m p) = Some q" "poly_ok m q" "length q \<le> length (in_place m p)"
      "\<And>x. peval q x = peval (in_place m p) x"
    using trim_ok [OF ne] by blast
  have "meq m (peval (in_place m p) x) (peval p x)" for x unfolding in_place_def by (rule peval_reduce)
  then show ?thesis using q assms Some by (auto simp: sanitize_def in_place_def poly_ok_def trimmed_def)
qed (use assms in \<open>simp add: sanitize_def\<close>)

lemma sanitize_ok: "poly_ok m p \<Longrightarrow> \<not> bad_mod m \<Longrightarrow> sanitize m p = Some p"
  using map_idI [of p "reduce m"] by (simp add: sanitize_def in_place_def poly_ok_def trim_id)

lemma mul_row_eval:
  "k + length q \<le> length r \<Longrightarrow> length (mul_row m a q k r) = length r \<and>
    meq m (peval (mul_row m a q k r) x) (peval r x + x ^ k * (a * peval q x))"
proof (induction q arbitrary: k r)
  case (Cons b q)
  let ?r = "r[k := reduce m (a * b + r ! k)]"
  have k: "k < length r" "Suc k + length q \<le> length ?r" using Cons.prems by simp_all
  have "meq m (peval ?r x) (peval r x + x ^ k * ((a * b + r ! k) - r ! k))"
    unfolding peval_update [OF k(1)] by (intro meq_add meq_mult meq_diff meq_refl meq_reduce)
  then have "meq m (peval ?r x) (peval r x + x ^ k * (a * b))" by simp
  then have e: "meq m (peval ?r x + x ^ Suc k * (a * peval q x)) (peval r x + x ^ k * (a * b) + x ^ Suc k * (a * peval q x))"
    by (rule meq_add [OF _ meq_refl])
  have f: "peval r x + x ^ k * (a * b) + x ^ Suc k * (a * peval q x) = peval r x + x ^ k * (a * peval (b # q) x)"
    by (simp add: algebra_simps)
  note IH = Cons.IH [OF k(2)]
  have "meq m (peval (mul_row m a q (Suc k) ?r) x) (peval r x + x ^ k * (a * peval (b # q) x))"
    by (rule meq_trans [OF conjunct2 [OF IH] e [unfolded f]])
  then show ?case using IH by simp
qed simp

lemma mul_rows_eval:
  "q \<noteq> [] \<Longrightarrow> k + length p + length q \<le> length r + 1 \<Longrightarrow> length (mul_rows m p q k r) = length r \<and>
    meq m (peval (mul_rows m p q k r) x) (peval r x + x ^ k * (peval p x * peval q x))"
proof (induction p arbitrary: k r)
  case (Cons a p)
  let ?r = "mul_row m a q k r"
  have "k + length q \<le> length r" using Cons.prems by simp
  note row = mul_row_eval [OF this, of m a x]
  then have IH: "length (mul_rows m p q (k + 1) ?r) = length ?r \<and>
      meq m (peval (mul_rows m p q (k + 1) ?r) x) (peval ?r x + x ^ (k + 1) * (peval p x * peval q x))"
    using Cons.prems by (intro Cons.IH) simp_all
  have e: "meq m (peval ?r x + x ^ (k + 1) * (peval p x * peval q x))
      (peval r x + x ^ k * (a * peval q x) + x ^ (k + 1) * (peval p x * peval q x))"
    by (rule meq_add [OF conjunct2 [OF row] meq_refl])
  have f: "peval r x + x ^ k * (a * peval q x) + x ^ (k + 1) * (peval p x * peval q x) =
      peval r x + x ^ k * (peval (a # p) x * peval q x)" by (simp add: algebra_simps)
  show ?case unfolding mul_rows.simps using IH row meq_trans [OF conjunct2 [OF IH] e [unfolded f]] by simp
qed simp

lemma mul_row_reduced: "\<forall>c\<in>set r. reduce m c = c \<Longrightarrow> \<forall>c\<in>set (mul_row m a q k r). reduce m c = c"
proof (induction q arbitrary: k r)
  case (Cons b q)
  have "\<forall>c\<in>set (r[k := reduce m (a * b + r ! k)]). reduce m c = c"
  proof
    fix c assume "c \<in> set (r[k := reduce m (a * b + r ! k)])"
    then have "c = reduce m (a * b + r ! k) \<or> c \<in> set r" using set_update_subset_insert by fast
    then show "reduce m c = c" using Cons.prems reduce_reduce by metis
  qed
  then show ?case unfolding mul_row.simps by (rule Cons.IH)
qed simp

lemma mul_rows_reduced: "\<forall>c\<in>set r. reduce m c = c \<Longrightarrow> \<forall>c\<in>set (mul_rows m p q k r). reduce m c = c"
proof (induction p arbitrary: k r)
  case (Cons a p)
  show ?case unfolding mul_rows.simps by (rule Cons.IH [OF mul_row_reduced [OF Cons.prems]])
qed simp

lemma poly_Mul_spec:
  assumes "p \<noteq> []" "q \<noteq> []" "\<not> bad_mod m"
  shows "\<exists>r. poly_Mul p q m = Some r \<and> poly_ok m r \<and> length r \<le> length p + length q - 1 \<and>
    (\<forall>x. meq m (peval r x) (peval p x * peval q x))"
proof -
  obtain p' where p: "sanitize m p = Some p'" "p' \<noteq> []" "length p' \<le> length p" "\<And>x. meq m (peval p' x) (peval p x)"
    using sanitize_spec [OF assms(1,3)] by auto
  obtain q' where q: "sanitize m q = Some q'" "q' \<noteq> []" "length q' \<le> length q" "\<And>x. meq m (peval q' x) (peval q x)"
    using sanitize_spec [OF assms(2,3)] by auto
  let ?z = "replicate (length p' + length q' - 1) 0" and ?r = "mul_rows m p' q' 0 (replicate (length p' + length q' - 1) 0)"
  have room: "0 + length p' + length q' \<le> length ?z + 1" by simp
  have len: "length ?r = length p' + length q' - 1" using mul_rows_eval [OF q(2) room] by simp
  then have ne: "?r \<noteq> []" using p(2) q(2) by (cases p'; cases q') auto
  have red: "\<forall>c\<in>set ?r. reduce m c = c" by (rule mul_rows_reduced) (simp add: reduce_def split: option.split)
  obtain r where r: "trim ?r = Some r" "poly_ok m r" "length r \<le> length ?r" "\<And>x. peval r x = peval ?r x"
    using trim_ok [OF ne red] by blast
  have "meq m (peval r x) (peval p x * peval q x)" for x
    using mul_rows_eval [OF q(2) room, of m x] meq_trans [OF _ meq_mult [OF p(4) q(4)]] by (simp add: r(4))
  moreover have "length r \<le> length p + length q - 1" using r(3) len p(3) q(3) by simp
  ultimately show ?thesis using p q r by (simp add: poly_Mul_def)
qed

lemma eval_loop_meq: "meq m (eval_loop m x p y a) (y + a * peval p x)"
proof (induction p arbitrary: y a)
  case (Cons c p)
  have "meq m (reduce m (y + a * c) + reduce m (a * x) * peval p x) (y + a * c + a * x * peval p x)"
    by (intro meq_add meq_mult meq_refl meq_reduce)
  moreover have "y + a * c + a * x * peval p x = y + a * peval (c # p) x" by (simp add: algebra_simps)
  ultimately show ?case
    unfolding eval_loop.simps using meq_trans [OF Cons.IH [of "reduce m (y + a * c)" "reduce m (a * x)"]] by simp
qed simp

lemma eval_loop_reduced: "reduce m y = y \<Longrightarrow> reduce m (eval_loop m x p y a) = eval_loop m x p y a"
  by (induction p arbitrary: y a) simp_all

lemma Eval_eq: "\<not> bad_mod m \<Longrightarrow> Eval p x m = Some (reduce m (peval p x))"
proof -
  have "reduce m 0 = 0" by (simp add: reduce_def split: option.split)
  then have "eval_loop m x p 0 1 = reduce m (eval_loop m x p 0 1)" by (simp add: eval_loop_reduced)
  also have "\<dots> = reduce m (peval p x)" using eval_loop_meq [of m x p 0 1] by (simp add: meq_def)
  finally show "\<not> bad_mod m \<Longrightarrow> Eval p x m = Some (reduce m (peval p x))" by (simp add: Eval_def)
qed

subsection \<open>Division\<close>

declare bezw.simps [simp del]

lemma coprime_mod: "coprime (g mod \<bar>n\<bar>) \<bar>n\<bar> \<longleftrightarrow> coprime g n" for g n :: int
proof -
  have "gcd (g mod \<bar>n\<bar>) \<bar>n\<bar> = gcd g n"
    using gcd_red_int [of g "\<bar>n\<bar>"] unfolding gcd.commute [of "\<bar>n\<bar>" "g mod \<bar>n\<bar>"] by simp
  then show ?thesis by (simp only: coprime_iff_gcd_eq_1)
qed

lemma ModInverse_unit:
  assumes "coprime g n" "n \<noteq> 0"
  shows "g * ModInverse g n mod \<bar>n\<bar> = 1 mod \<bar>n\<bar>"
proof -
  let ?a = "nat (g mod \<bar>n\<bar>)" and ?b = "nat \<bar>n\<bar>"
  have ab: "int ?a = g mod \<bar>n\<bar>" "int ?b = \<bar>n\<bar>" using assms(2) by simp_all
  have "coprime (g mod \<bar>n\<bar>) \<bar>n\<bar>" using assms(1) by (simp only: coprime_mod)
  then have "coprime (int ?a) (int ?b)" unfolding ab .
  then have "coprime ?a ?b" by (simp only: coprime_int_iff)
  then have g: "gcd ?a ?b = 1" by (simp only: coprime_iff_gcd_eq_1)
  have "fst (bezw ?a ?b) * int ?a + snd (bezw ?a ?b) * int ?b = 1"
    unfolding bezw_aux [symmetric] g by simp
  then have "fst (bezw ?a ?b) * (g mod \<bar>n\<bar>) + snd (bezw ?a ?b) * \<bar>n\<bar> = 1" unfolding ab .
  then have "(fst (bezw ?a ?b) * (g mod \<bar>n\<bar>)) mod \<bar>n\<bar> = 1 mod \<bar>n\<bar>" by (metis mod_mult_self1)
  then have "(g * fst (bezw ?a ?b)) mod \<bar>n\<bar> = 1 mod \<bar>n\<bar>" by (simp only: mod_mult_right_eq mod_mult_left_eq mult.commute)
  moreover have "ModInverse g n = fst (bezw ?a ?b) mod \<bar>n\<bar>" using g by (simp add: ModInverse_def Let_def)
  ultimately show ?thesis by (simp only: mod_mult_right_eq)
qed

lemma ModInverse_coprime: "ModInverse g n \<noteq> 0 \<Longrightarrow> n \<noteq> 0 \<Longrightarrow> coprime g n"
proof -
  assume "ModInverse g n \<noteq> 0" "n \<noteq> 0"
  then have "gcd (nat (g mod \<bar>n\<bar>)) (nat \<bar>n\<bar>) = 1" by (auto simp: ModInverse_def Let_def split: if_splits)
  then have "coprime (nat (g mod \<bar>n\<bar>)) (nat \<bar>n\<bar>)" by (simp only: coprime_iff_gcd_eq_1)
  then have "coprime (int (nat (g mod \<bar>n\<bar>))) (int (nat \<bar>n\<bar>))" by (simp only: coprime_int_iff)
  then have "coprime (g mod \<bar>n\<bar>) \<bar>n\<bar>" using \<open>n \<noteq> 0\<close> by simp
  then show "coprime g n" by (simp only: coprime_mod)
qed

lemma big_Div_rest: "y \<noteq> 0 \<Longrightarrow> x - y * big_Div x y = x mod \<bar>y\<bar>"
proof -
  have "y * big_Div x y = \<bar>y\<bar> * (x div \<bar>y\<bar>)" by (simp add: big_Div_def mult.assoc [symmetric] abs_sgn)
  then show ?thesis by (simp add: minus_mult_div_eq_mod)
qed

text \<open>The leading coefficient after a step: zero, or over the integers a remainder of the divisor's.\<close>

lemma lead_quotient_rest:
  assumes "lead_quotient m a b = Some r" "r \<noteq> 0" "\<not> bad_mod m"
  shows "reduce m (a - b * r) = 0 \<or> (m = None \<and> b \<noteq> 0 \<and> a - b * r = a mod \<bar>b\<bar>)"
proof (cases m)
  case None
  then show ?thesis using assms(1) big_Div_rest [of b a] by (auto simp: lead_quotient_def split: if_splits)
next
  case (Some n)
  then have r: "r = ModInverse b n * a mod \<bar>n\<bar>" and n: "n \<noteq> 0" using assms by (simp_all add: lead_quotient_def bad_mod_def)
  then have "ModInverse b n \<noteq> 0" using assms(2) by auto
  then have "coprime b n" using n by (rule ModInverse_coprime)
  then have "b * ModInverse b n mod \<bar>n\<bar> = 1 mod \<bar>n\<bar>" using n by (rule ModInverse_unit)
  then have "meq m (b * ModInverse b n) 1" by (simp add: meq_def reduce_def Some)
  then have "meq m (b * ModInverse b n * a) (1 * a)" by (rule meq_mult [OF _ meq_refl])
  moreover have "meq m (b * r) (b * (ModInverse b n * a))"
    by (rule meq_mult [OF meq_refl]) (simp add: r meq_def reduce_def Some)
  ultimately have "meq m (b * r) a" using meq_trans [of m "b * r" "b * ModInverse b n * a" a] by (simp add: mult.assoc)
  then have "meq m (a - b * r) (a - a)" by (intro meq_diff meq_refl)
  then show ?thesis by (simp add: meq_def reduce_def Some)
qed

lemma poly_Add_same_length:
  assumes "length p = length q" "\<not> bad_mod m"
  shows "poly_Add p q m = trim (map (reduce m) (map2 (+) p q))"
proof (cases "Compare p q < 0")
  case True
  have "\<not> Compare q p < 0" using True by (simp add: Compare_swap [of q p])
  moreover have "map2 (+) q p = map2 (+) p q" using assms(1) by (intro nth_equalityI) (simp_all add: add.commute)
  ultimately show ?thesis using True assms by (simp add: poly_Add.simps [of p q] poly_Add.simps [of q p])
qed (use assms in \<open>simp add: poly_Add.simps [of p q]\<close>)

lemma trim_last:
  assumes "l \<noteq> []" "trim l = Some l'"
  shows "last l = 0 \<Longrightarrow> length l' < length l \<or> l' = [0]" "last l \<noteq> 0 \<Longrightarrow> l' = l"
proof -
  show "l' = l" if "last l \<noteq> 0" using trim_id [of l] that assms by (simp add: trimmed_def)
  show "length l' < length l \<or> l' = [0]" if "last l = 0"
  proof (cases "length l' < length l")
    case False
    then have "l' = l" using assms(2) by (auto simp: trim_def split: if_splits)
    then have "length l = 1" using trim_trimmed [OF assms(2)] that by (simp add: trimmed_def)
    then show ?thesis using \<open>l' = l\<close> that by (cases l) auto
  qed simp
qed

lemma div_step:
  assumes ok: "\<not> bad_mod m" "t \<noteq> []" "q \<noteq> []" "length q \<le> length t"
    and u: "u = replicate (length t - length q) 0 @ map (\<lambda>c. reduce m (c * r)) q"
  shows "\<exists>t'. poly_Sub t u m = Some t' \<and> poly_ok m t' \<and> trim t' = Some t' \<and>
    (\<forall>x. meq m (peval t' x) (peval t x - x ^ (length t - length q) * (r * peval q x))) \<and>
    (reduce m (last t - last q * r) = 0 \<longrightarrow> length t' < length t \<or> t' = [0]) \<and>
    (reduce m (last t - last q * r) \<noteq> 0 \<longrightarrow> length t' = length t \<and> last t' = reduce m (last t - last q * r))"
proof -
  have len: "length u = length t" "u \<noteq> []" using ok u by auto
  obtain t' where t': "poly_Sub t u m = Some t'" "poly_ok m t'" "\<And>x. meq m (peval t' x) (peval t x - peval u x)"
    using poly_Sub_spec [OF ok(2) len(2) ok(1)] by blast
  let ?l = "map (reduce m) (map2 (+) t (Neg u))"
  have l: "?l \<noteq> []" "trim ?l = Some t'" "length ?l = length t"
    using t'(1) poly_Add_same_length [of t "Neg u" m] len ok by (simp_all add: poly_Sub_def Neg_def)
  have "last u = reduce m (last q * r)" using ok(3) by (simp add: u last_map)
  moreover have "last (map2 (+) t (Neg u)) = last t + - last u"
    using len ok(2) by (simp add: Neg_def last_conv_nth nth_append)
  ultimately have "last ?l = reduce m (last t + - reduce m (last q * r))" using len ok(2) by (simp add: last_map Neg_def)
  moreover have "meq m (last t + - reduce m (last q * r)) (last t + - (last q * r))"
    by (intro meq_add meq_uminus meq_refl meq_reduce)
  ultimately have last: "last ?l = reduce m (last t - last q * r)" by (simp add: meq_def)
  have "meq m (peval (map (\<lambda>c. reduce m (c * r)) q) x) (r * peval q x)" for x
    unfolding peval_scale [symmetric] by (rule peval_meq) simp_all
  then have "meq m (peval u x) (x ^ (length t - length q) * (r * peval q x))" for x
    by (simp add: u peval_append) (intro meq_mult meq_refl)
  then have ev: "meq m (peval t' x) (peval t x - x ^ (length t - length q) * (r * peval q x))" for x
    using meq_trans [OF t'(3) meq_diff [OF meq_refl]] by blast
  show ?thesis
  proof (intro exI conjI impI allI)
    show "trim t' = Some t'" using t'(2) by (simp add: poly_ok_def trim_id)
    show "length t' < length t \<or> t' = [0]" if "reduce m (last t - last q * r) = 0"
      using trim_last(1) [OF l(1,2)] that unfolding last l(3) by blast
    show "length t' = length t" "last t' = reduce m (last t - last q * r)" if "reduce m (last t - last q * r) \<noteq> 0"
      using trim_last(2) [OF l(1,2)] that last l(3) by simp_all
  qed (use t' ev in blast)+
qed


text \<open>A leading coefficient that can be inverted: division does not give up.\<close>

definition lead_unit :: "int option \<Rightarrow> int \<Rightarrow> bool" where
  "lead_unit m c = (case m of None \<Rightarrow> c = 1 \<or> c = - 1 | Some n \<Rightarrow> coprime c n)"

definition div_result :: "int option \<Rightarrow> Poly \<Rightarrow> Poly \<Rightarrow> Poly \<times> Poly \<Rightarrow> bool" where
  "div_result m p q qr \<longleftrightarrow> (case qr of (quo, rem) \<Rightarrow>
     (\<forall>x. meq m (peval p x) (peval quo x * peval q x + peval rem x)) \<and>
     (quo = [0] \<and> rem = p \<and> \<not> lead_unit m (last q) \<or> poly_ok m rem \<and> (length rem < length q \<or> isZero rem)))"

lemma isZero_iff: "isZero p \<longleftrightarrow> p = [0]"
  by (cases p) (auto simp: isZero_def GetDegree_def)

lemma trimmed_last: "trimmed p \<Longrightarrow> \<not> isZero p \<Longrightarrow> last p \<noteq> 0"
  by (cases p) (auto simp: trimmed_def isZero_iff)

lemma trim_zero: "NewPolyInts [0] = Some [0]" "Clone p 0 = Some p"
  by (simp_all add: NewPolyInts_def trim_def Clone_def)

lemma lead_unit_quotient:
  assumes "lead_unit m c" "a \<noteq> 0" "reduce m a = a" "\<not> bad_mod m"
  shows "lead_quotient m a c \<noteq> Some 0"
proof (cases m)
  case None
  then show ?thesis using assms by (auto simp: lead_unit_def lead_quotient_def big_Div_def)
next
  case (Some n)
  then have c: "coprime c n" "n \<noteq> 0" using assms by (simp_all add: lead_unit_def bad_mod_def)
  show ?thesis
  proof
    assume "lead_quotient m a c = Some 0"
    then have "meq m (ModInverse c n * a) 0" by (simp add: lead_quotient_def meq_def reduce_def Some)
    then have "meq m (c * (ModInverse c n * a)) (c * 0)" by (rule meq_mult [OF meq_refl])
    moreover have "meq m (c * ModInverse c n * a) (1 * a)"
      by (rule meq_mult) (simp_all add: meq_def reduce_def Some ModInverse_unit [OF c])
    ultimately have "meq m a 0" unfolding mult.assoc mult_1_left mult_zero_right by (rule meq_trans [OF meq_sym, rotated])
    then show False using assms(2,3) by (simp add: meq_def reduce_def Some)
  qed
qed

lemma div_loop_unfold:
  assumes "q \<noteq> []" "t \<noteq> []" "length q \<le> length t" "\<not> isZero t" "lead_quotient m (last t) (last q) = Some r"
    "u = replicate (length t - length q) 0 @ map (\<lambda>c. reduce m (c * r)) q"
  shows "div_loop q m p t quo = (if r = 0 then Some ([0], p)
    else Option.bind (poly_Sub t u m) (\<lambda>t'. Option.bind (trim t') (\<lambda>t'. div_loop q m p t' (quo[length t - length q := r]))))"
proof -
  let ?d = "length t - length q"
  have rd: "GetDegree t - GetDegree q = int ?d" using assms(3) by (simp add: GetDegree_def)
  define d where "d = ?d"
  have "Clone q (int d) = Some (replicate d 0 @ q)" by (simp add: Clone_def)
  then show ?thesis
    using assms unfolding d_def [symmetric]
    by (subst div_loop.simps) (simp add: Let_def rd [folded d_def] trim_zero)
qed

lemma div_loop_stop:
  assumes "length t < length q \<or> isZero t" "trimmed t" "quo \<noteq> []"
  shows "\<exists>quo'. div_loop q m p t quo = Some (quo', t) \<and> (\<forall>x. peval quo' x = peval quo x)"
proof -
  obtain quo' where q: "trim quo = Some quo'" using trim_total [OF assms(3)] by blast
  have "div_loop q m p t quo = Some (quo', t)"
    using assms q trim_id by (subst div_loop.simps) (auto simp: Let_def GetDegree_def)
  then show ?thesis using trim_peval [OF q] by blast
qed

lemma div_loop_spec:
  assumes q: "trimmed q" "\<not> isZero q" "\<not> bad_mod m"
    and t: "poly_ok m t" "length t \<le> length p" "length quo = length p - length q + 1"
    and inv: "\<And>x. meq m (peval p x) (peval quo x * peval q x + peval t x)"
      "isZero t \<or> (\<forall>j. j + length q \<le> length t \<longrightarrow> quo ! j = 0)"
  shows "\<exists>qr. div_loop q m p t quo = Some qr \<and> div_result m p q qr"
  using t inv
proof (induction "if isZero t then 0 else length t" arbitrary: t quo rule: less_induct)
  case less
  have ne: "q \<noteq> []" "t \<noteq> []" "trimmed t" "last q \<noteq> 0"
    using q less.prems(1) trimmed_last [OF q(1,2)] by (auto simp: trimmed_def poly_ok_def)
  show ?case
  proof (cases "length t < length q \<or> isZero t")
    case True
    have "quo \<noteq> []" using less.prems(3) by auto
    then obtain quo' where "div_loop q m p t quo = Some (quo', t)" "\<And>x. peval quo' x = peval quo x"
      using div_loop_stop [OF True ne(3)] by blast
    then show ?thesis using less.prems(1,4) True by (simp add: div_result_def)
  next
    case False
    then have lt: "length q \<le> length t" "\<not> isZero t" by simp_all
    have "last t \<noteq> 0" by (rule trimmed_last [OF ne(3) lt(2)])
    have lred: "reduce m (last t) = last t" using less.prems(1) ne(2) by (simp add: poly_ok_def)
    obtain r where r: "lead_quotient m (last t) (last q) = Some r" using ne(4) by (cases m) (auto simp: lead_quotient_def)
    let ?d = "length t - length q"
    define u where "u = replicate ?d 0 @ map (\<lambda>c. reduce m (c * r)) q"
    note unf = div_loop_unfold [OF ne(1,2) lt r u_def]
    show ?thesis
    proof (cases "r = 0")
      case True
      have "\<not> lead_unit m (last q)" using lead_unit_quotient [OF _ \<open>last t \<noteq> 0\<close> lred q(3)] r True by auto
      then show ?thesis using unf True by (simp add: div_result_def)
    next
      case False
      obtain t' where t': "poly_Sub t u m = Some t'" "poly_ok m t'" "trim t' = Some t'"
          "\<And>x. meq m (peval t' x) (peval t x - x ^ ?d * (r * peval q x))"
          "reduce m (last t - last q * r) = 0 \<Longrightarrow> length t' < length t \<or> t' = [0]"
          "reduce m (last t - last q * r) \<noteq> 0 \<Longrightarrow> length t' = length t \<and> last t' = reduce m (last t - last q * r)"
        using div_step [OF q(3) ne(2,1) lt(1) u_def] by blast
      let ?quo = "quo[?d := r]"
      have loop: "div_loop q m p t quo = div_loop q m p t' ?quo" using unf False t' by simp
      show ?thesis
      proof (cases "reduce m (last t - last q * r) = 0")
        case True
        have d: "?d < length quo" "quo ! ?d = 0" using less.prems(2,3,5) lt by auto
        have "meq m (peval ?quo x * peval q x + peval t' x) (peval p x)" for x
        proof -
          have "meq m (peval ?quo x * peval q x + peval t' x)
              (peval ?quo x * peval q x + (peval t x - x ^ ?d * (r * peval q x)))" by (intro meq_add meq_refl t'(4))
          also have "peval ?quo x * peval q x + (peval t x - x ^ ?d * (r * peval q x)) = peval quo x * peval q x + peval t x"
            unfolding peval_update [OF d(1)] d(2) by (simp add: algebra_simps)
          also have "meq m (peval quo x * peval q x + peval t x) (peval p x)" by (rule meq_sym [OF less.prems(4)])
          finally show ?thesis .
        qed
        then have ev: "meq m (peval p x) (peval ?quo x * peval q x + peval t' x)" for x by (rule meq_sym)
        have sh: "length t' < length t \<or> t' = [0]" by (rule t'(5) [OF True])
        have "isZero t' \<or> (\<forall>j. j + length q \<le> length t' \<longrightarrow> ?quo ! j = 0)"
          using sh less.prems(5) lt by (auto simp: isZero_iff)
        moreover have "(if isZero t' then 0 else length t') < (if isZero t then 0 else length t)"
          using sh lt ne by (auto simp: isZero_iff)
        moreover have "length t' \<le> length p" using sh less.prems(2) ne(2) by (cases p) auto
        ultimately show ?thesis unfolding loop using less.hyps [OF _ t'(2) _ _ ev] less.prems(3) by simp
      next
        case nz: False
        then have m: "m = None" "last t - last q * r = last t mod \<bar>last q\<bar>" using lead_quotient_rest [OF r False q(3)] by simp_all
        have l: "length t' = length t" "last t' = last t mod \<bar>last q\<bar>" using t'(6) [OF nz] m by (simp_all add: reduce_def)
        have "lead_quotient m (last t') (last q) = Some 0"
          using ne(4) by (simp add: lead_quotient_def m(1) l(2) big_Div_def)
        moreover have "t' \<noteq> []" "\<not> isZero t'" using l nz m ne by (auto simp: isZero_iff reduce_def)
        ultimately have "div_loop q m p t' ?quo = Some ([0], p)"
          using div_loop_unfold [of q t' m 0] ne lt l(1) by simp
        moreover have "\<not> lead_unit m (last q)" using nz m by (auto simp: lead_unit_def reduce_def)
        ultimately show ?thesis unfolding loop by (simp add: div_result_def)
      qed
    qed
  qed
qed


lemma div_result_meq:
  assumes "\<And>x. meq m (peval p' x) (peval p x)" "\<And>x. meq m (peval q' x) (peval q x)"
    "meq m (peval p' x) (peval quo x * peval q' x + peval rem x)"
  shows "meq m (peval p x) (peval quo x * peval q x + peval rem x)"
proof -
  have "meq m (peval p x) (peval p' x)" by (rule meq_sym [OF assms(1)])
  also note assms(3)
  also have "meq m (peval quo x * peval q' x + peval rem x) (peval quo x * peval q x + peval rem x)"
    by (intro meq_add meq_mult meq_refl assms(2))
  finally show ?thesis .
qed

lemma poly_Div_ok:
  assumes "poly_ok m p" "poly_ok m q" "\<not> bad_mod m"
  shows "\<exists>qr. poly_Div p q m = Some qr \<and> (if isZero q then qr = ([0], p) else div_result m p q qr)"
proof -
  have D: "poly_Div p q m = (if GetDegree p < GetDegree q \<or> isZero q then Some ([0], p)
      else div_loop q m p p (replicate (nat (GetDegree p - GetDegree q + 1)) 0))"
    using assms by (simp add: poly_Div_def sanitize_ok trim_zero)
  show ?thesis
  proof (cases "length p < length q \<or> isZero q")
    case True
    then show ?thesis using assms by (auto simp: D GetDegree_def div_result_def)
  next
    case False
    let ?z = "replicate (length p - length q + 1) 0"
    have "nat (GetDegree p - GetDegree q + 1) = length p - length q + 1"
      using False by (simp add: GetDegree_def nat_diff_distrib' nat_add_distrib)
    then have "poly_Div p q m = div_loop q m p p ?z" using False by (simp only: D) (simp add: GetDegree_def)
    moreover have "isZero p \<or> (\<forall>j. j + length q \<le> length p \<longrightarrow> ?z ! j = 0)" by (auto simp del: replicate_Suc simp: nth_append)
    ultimately show ?thesis
      using False assms div_loop_spec [of q m p p ?z] by (auto simp: poly_ok_def)
  qed
qed

lemma sanitize_Some_ok:
  assumes "p \<noteq> []" "\<not> bad_mod m" "m = None \<Longrightarrow> trimmed p"
  obtains q where "sanitize m p = Some q" "poly_ok m q" "\<And>x. meq m (peval q x) (peval p x)"
proof (cases m)
  case None
  then show ?thesis using that [of p] assms by (simp add: sanitize_def poly_ok_def reduce_def)
next
  case (Some n)
  then show ?thesis using that sanitize_spec [OF assms(1,2)] by blast
qed

lemma poly_Div_sanitized:
  assumes "sanitize m p = Some p'" "sanitize m q = Some q'" "poly_ok m p'" "poly_ok m q'" "\<not> bad_mod m"
  shows "poly_Div p q m = poly_Div p' q' m"
  using assms sanitize_ok by (simp add: poly_Div_def)

lemma poly_Div_spec:
  assumes "p \<noteq> []" "q \<noteq> []" "\<not> bad_mod m" "m = None \<Longrightarrow> trimmed p \<and> trimmed q"
  shows "\<exists>quo rem. poly_Div p q m = Some (quo, rem) \<and>
    (\<forall>x. meq m (peval p x) (peval quo x * peval q x + peval rem x)) \<and>
    (poly_ok m q \<and> \<not> isZero q \<and> lead_unit m (last q) \<longrightarrow> length rem < length q \<or> rem = [0])"
proof -
  obtain p' where p: "sanitize m p = Some p'" "poly_ok m p'" "\<And>x. meq m (peval p' x) (peval p x)"
    using sanitize_Some_ok [OF assms(1,3)] assms(4) by blast
  obtain q' where q: "sanitize m q = Some q'" "poly_ok m q'" "\<And>x. meq m (peval q' x) (peval q x)"
    using sanitize_Some_ok [OF assms(2,3)] assms(4) by blast
  obtain quo rem where qr: "poly_Div p' q' m = Some (quo, rem)"
      "if isZero q' then (quo, rem) = ([0], p') else div_result m p' q' (quo, rem)"
    using poly_Div_ok [OF p(2) q(2) assms(3)] by auto
  have D: "poly_Div p q m = Some (quo, rem)" using qr(1) poly_Div_sanitized [OF p(1) q(1) p(2) q(2) assms(3)] by simp
  have ev: "meq m (peval p x) (peval quo x * peval q x + peval rem x)" for x
    by (rule div_result_meq [OF p(3) q(3)]) (use qr(2) in \<open>auto simp: div_result_def split: if_splits\<close>)
  have "length rem < length q \<or> rem = [0]" if "poly_ok m q" "\<not> isZero q" "lead_unit m (last q)"
  proof -
    have "q' = q" using sanitize_ok [OF that(1) assms(3)] q(1) by simp
    then show ?thesis using qr(2) that by (auto simp: div_result_def isZero_iff)
  qed
  then show ?thesis using D ev by blast
qed

subsection \<open>The greatest common divisor\<close>

text \<open>A modulus all of whose residues but 0 are units.\<close>

definition field_mod :: "int \<Rightarrow> bool" where
  "field_mod n \<longleftrightarrow> 1 < n \<and> (\<forall>a. 0 < a \<and> a < n \<longrightarrow> coprime a n)"

lemma field_lead:
  assumes "field_mod n" "poly_ok (Some n) q" "\<not> isZero q"
  shows "lead_unit (Some n) (last q)" "0 < last q"
proof -
  have "q \<noteq> []" using assms(2) by (auto simp: poly_ok_def trimmed_def)
  then have "last q mod n = last q" using assms(1,2) by (simp add: poly_ok_def reduce_def field_mod_def)
  moreover have "last q \<noteq> 0" using assms(2,3) by (intro trimmed_last) (simp_all add: poly_ok_def)
  moreover have "0 \<le> last q mod n" "last q mod n < n" using assms(1) by (simp_all add: field_mod_def)
  ultimately show "0 < last q" "lead_unit (Some n) (last q)" using assms(1) by (simp_all add: field_mod_def lead_unit_def)
qed

lemma Gcd_ordered:
  assumes n: "field_mod n"
  shows "poly_ok (Some n) p \<Longrightarrow> poly_ok (Some n) q \<Longrightarrow> Compare p q \<ge> 0 \<Longrightarrow>
    \<exists>d. poly_Gcd p q (Some n) = Some d \<and> (\<forall>x. n dvd peval d x \<longleftrightarrow> n dvd peval p x \<and> n dvd peval q x)"
proof (induction "if isZero q then 0 else length q" arbitrary: p q rule: less_induct)
  case less
  have bad: "\<not> bad_mod (Some n)" using n by (simp add: bad_mod_def field_mod_def)
  show ?case
  proof (cases "isZero q")
    case True
    then have "poly_Gcd p q (Some n) = Some p" using less.prems by (subst poly_Gcd.simps) simp
    then show ?thesis using True by (simp add: isZero_iff)
  next
    case False
    have q: "q \<noteq> []" "p \<noteq> []" using less.prems by (auto simp: poly_ok_def trimmed_def)
    have unit: "lead_unit (Some n) (last q)" "0 < last q" using field_lead [OF n less.prems(2) False] by simp_all
    obtain quo rem where D: "poly_Div p q (Some n) = Some (quo, rem)" "div_result (Some n) p q (quo, rem)"
      using poly_Div_ok [OF less.prems(1,2) bad] False by auto
    then have rem: "poly_ok (Some n) rem" "length rem < length q \<or> rem = [0]"
        "\<And>x. n dvd peval p x - (peval quo x * peval q x + peval rem x)"
      using unit(1) by (auto simp: div_result_def isZero_iff meq_iff)
    have "in_place (Some n) q = q" using less.prems(2) by (simp add: in_place_def poly_ok_def map_idI)
    then have G: "poly_Gcd p q (Some n) = poly_Gcd q rem (Some n)"
      using D(1) less.prems(3) False by (subst poly_Gcd.simps) simp
    have "Compare q rem \<ge> 0"
    proof (cases "length rem < length q")
      case True
      then show ?thesis by (simp add: Compare_def GetDegree_def)
    next
      case False
      then have r: "rem = [0]" using rem(2) by blast
      then have "length q = 1" using False q(1) by (cases q) auto
      then show ?thesis using unit(2) r by (cases q) (auto simp: Compare_def GetDegree_def)
    qed
    moreover have "(if isZero rem then 0 else length rem) < (if isZero q then 0 else length q)"
      using rem(2) False q(1) by (auto simp: isZero_iff)
    ultimately obtain d where d: "poly_Gcd q rem (Some n) = Some d"
        "\<And>x. n dvd peval d x \<longleftrightarrow> n dvd peval q x \<and> n dvd peval rem x"
      using less.hyps [of rem q] less.prems(2) rem(1) by blast
    have "n dvd peval q x \<and> n dvd peval rem x \<longleftrightarrow> n dvd peval p x \<and> n dvd peval q x" for x
      using rem(3) [of x] by (metis dvd_add_right_iff dvd_diff_commute dvd_mult diff_add_cancel)
    then show ?thesis using G d by simp
  qed
qed

lemma Gcd_field:
  assumes "field_mod n" "poly_ok (Some n) p" "poly_ok (Some n) q"
  shows "\<exists>d. poly_Gcd p q (Some n) = Some d \<and> (\<forall>x. n dvd peval d x \<longleftrightarrow> n dvd peval p x \<and> n dvd peval q x)"
proof (cases "Compare p q < 0")
  case True
  then have c: "Compare q p \<ge> 0" by (simp add: Compare_swap [of q p])
  have "poly_Gcd p q (Some n) = poly_Gcd q p (Some n)" using True by (subst poly_Gcd.simps) simp
  then show ?thesis using Gcd_ordered [OF assms(1,3,2) c] by auto
qed (use Gcd_ordered [OF assms] in auto)

text \<open>Over the integers division gives up, and the two operands come back.\<close>

lemma Gcd_integers_hangs: "poly_Gcd [0, 0, 1] [0, 2] None = None"
proof -
  have D: "poly_Div [0, 0, 1] [0, 2] None = Some ([0], [0, 0, 1])"
    by (simp add: poly_Div_def sanitize_def GetDegree_def isZero_def Clone_def eval_nat_numeral
        div_loop_unfold [where r = 0] lead_quotient_def big_Div_def)
  let ?P = "\<lambda>(p :: Poly) (q :: Poly) (m :: int option) (y :: Poly). \<not> (p = [0, 0, 1] \<and> q = [0, 2] \<and> m = None \<or> p = [0, 2] \<and> q = [0, 0, 1] \<and> m = None)"
  have "poly_Gcd [0, 0, 1] [0, 2] None \<noteq> Some y" for y
  proof
    assume ret: "poly_Gcd [0, 0, 1] [0, 2] None = Some y"
    have "?P [0, 0, 1] [0, 2] None y"
    proof (rule poly_Gcd.raw_induct [where P = ?P, OF _ ret])
      fix f :: "Poly \<Rightarrow> Poly \<Rightarrow> int option \<Rightarrow> Poly option" and p q m y
      assume IH: "\<And>p q m y. f p q m = Some y \<Longrightarrow> ?P p q m y"
        and body: "(if Compare p q < 0 then f q p m else if isZero q then Some p
          else Option.bind (poly_Div p q m) (\<lambda>(_, rem). f (in_place m q) rem m)) = Some y"
      show "?P p q m y"
      proof
        assume "p = [0, 0, 1] \<and> q = [0, 2] \<and> m = None \<or> p = [0, 2] \<and> q = [0, 0, 1] \<and> m = None"
        then show False
        proof
          assume "p = [0, 0, 1] \<and> q = [0, 2] \<and> m = None"
          then have "f [0, 2] [0, 0, 1] None = Some y"
            using body D by (simp add: Compare_def GetDegree_def isZero_def in_place_def reduce_def)
          then show False using IH by blast
        next
          assume "p = [0, 2] \<and> q = [0, 0, 1] \<and> m = None"
          then have "f [0, 0, 1] [0, 2] None = Some y" using body by (simp add: Compare_def GetDegree_def)
          then show False using IH by blast
        qed
      qed
    qed
    then show False by simp
  qed
  then show ?thesis using not_Some_eq by blast
qed


subsection \<open>Coefficients\<close>

definition coef :: "Poly \<Rightarrow> nat \<Rightarrow> int" where
  "coef p k = (if k < length p then p ! k else 0)"

lemma coef_simps [simp]: "coef [] k = 0" "coef (a # p) 0 = a" "coef (a # p) (Suc k) = coef p k"
  by (simp_all add: coef_def)

lemma coef_update: "k < length r \<Longrightarrow> coef (r[k := c]) i = (if i = k then c else coef r i)"
  by (simp add: coef_def)

lemma coef_trim: "trim p = Some q \<Longrightarrow> coef q k = coef p k"
proof -
  assume t: "trim p = Some q"
  then have "p \<noteq> []" by (auto simp: trim_def)
  then obtain n where n: "q = take (n + 1) p" "drop (n + 1) p = replicate (length p - (n + 1)) 0"
    using trim_Some [of p] t by (metis option.inject)
  show ?thesis
  proof (cases "k < n + 1")
    case False
    have "p ! k = 0" if "k < length p"
    proof -
      have "p ! k = drop (n + 1) p ! (k - (n + 1))" using False that by simp
      also have "\<dots> = 0" unfolding n(2) using False that by simp
      finally show ?thesis .
    qed
    then show ?thesis using False n(1) by (auto simp: coef_def)
  qed (simp add: coef_def n(1))
qed

lemma peval_coef: "length p \<le> n \<Longrightarrow> peval p x = (\<Sum>k<n. coef p k * x ^ k)"
proof (induction p arbitrary: n)
  case (Cons a p)
  then obtain n' where n: "n = Suc n'" "length p \<le> n'" by (cases n) auto
  show ?case unfolding n(1) sum.lessThan_Suc_shift using Cons.IH [OF n(2)] by (simp add: sum_distrib_left mult.left_commute)
qed simp

lemma coef_mul_row:
  "k + length q \<le> length r \<Longrightarrow>
    meq m (coef (mul_row m a q k r) i) (coef r i + (if k \<le> i then a * coef q (i - k) else 0))"
proof (induction q arbitrary: k r)
  case (Cons b q)
  let ?r = "r[k := reduce m (a * b + r ! k)]"
  have k: "k < length r" "Suc k + length q \<le> length ?r" using Cons.prems by simp_all
  have "meq m (coef ?r i + (if Suc k \<le> i then a * coef q (i - Suc k) else 0))
      (coef r i + (if k \<le> i then a * coef (b # q) (i - k) else 0))"
  proof (cases "i = k")
    case True
    have "meq m (reduce m (a * b + r ! k)) (r ! k + a * b)" by (simp add: add.commute)
    then show ?thesis using True k(1) by (simp add: coef_update coef_def)
  next
    case False
    then have "k \<le> i \<Longrightarrow> i - k = Suc (i - Suc k)" by simp
    then show ?thesis using False k(1) by (auto simp: coef_update)
  qed
  from meq_trans [OF Cons.IH [OF k(2)] this] show ?case by simp
qed simp

lemma length_mul_row: "length (mul_row m a q k r) = length r"
  by (induction q arbitrary: k r) simp_all

lemma coef_mul_rows:
  "q \<noteq> [] \<Longrightarrow> k + length p + length q \<le> length r + 1 \<Longrightarrow>
    meq m (coef (mul_rows m p q k r) i) (coef r i + (\<Sum>j<length p. if k + j \<le> i then p ! j * coef q (i - (k + j)) else 0))"
proof (induction p arbitrary: k r)
  case (Cons a p)
  have room: "k + length q \<le> length r" using Cons.prems by simp
  have "meq m (coef (mul_rows m p q (k + 1) (mul_row m a q k r)) i) (coef (mul_row m a q k r) i +
      (\<Sum>j<length p. if k + 1 + j \<le> i then p ! j * coef q (i - (k + 1 + j)) else 0))"
    using Cons.prems by (intro Cons.IH) (simp_all add: length_mul_row)
  also have "meq m \<dots> (coef r i + (if k \<le> i then a * coef q (i - k) else 0) +
      (\<Sum>j<length p. if k + 1 + j \<le> i then p ! j * coef q (i - (k + 1 + j)) else 0))"
    by (intro meq_add meq_refl coef_mul_row room)
  finally have "meq m (coef (mul_rows m (a # p) q k r) i) (coef r i + (if k \<le> i then a * coef q (i - k) else 0) +
      (\<Sum>j<length p. if k + 1 + j \<le> i then p ! j * coef q (i - (k + 1 + j)) else 0))" by simp
  moreover have "(\<Sum>j<length (a # p). if k + j \<le> i then (a # p) ! j * coef q (i - (k + j)) else 0) =
      (if k \<le> i then a * coef q (i - k) else 0) +
      (\<Sum>j<length p. if k + 1 + j \<le> i then p ! j * coef q (i - (k + 1 + j)) else 0)"
    unfolding length_Cons sum.lessThan_Suc_shift by (simp cong: if_cong)
  ultimately show ?case by (simp only: add.assoc)
qed simp

lemma coef_mul_top:
  assumes "p \<noteq> []" "q \<noteq> []" "length p \<le> d + 1" "length q \<le> e + 1"
  shows "meq m (coef (mul_rows m p q 0 (replicate (length p + length q - 1) 0)) (d + e)) (coef p d * coef q e)"
proof -
  have z: "(if 0 + j \<le> d + e then p ! j * coef q (d + e - (0 + j)) else 0) = (if j = d then p ! d * coef q e else 0)"
    if "j < length p" for j
    using that assms(3,4) by (auto simp: coef_def)
  have "(\<Sum>j<length p. if 0 + j \<le> d + e then p ! j * coef q (d + e - (0 + j)) else 0) =
      (\<Sum>j<length p. if j = d then p ! d * coef q e else 0)" by (rule sum.cong) (simp_all only: z lessThan_iff)
  also have "\<dots> = coef p d * coef q e" by (simp add: coef_def)
  finally have "(\<Sum>j<length p. if 0 + j \<le> d + e then p ! j * coef q (d + e - (0 + j)) else 0) = coef p d * coef q e" .
  moreover have "coef (replicate n 0) i = 0" for n i by (simp add: coef_def)
  ultimately show ?thesis
    using coef_mul_rows [OF assms(2), of 0 p "replicate (length p + length q - 1) 0" m "d + e"] by simp
qed

lemma coef_sanitize:
  assumes "sanitize m p = Some p'"
  shows "meq m (coef p' k) (coef p k)"
proof (cases m)
  case (Some n)
  then have "coef p' k = coef (in_place m p) k" using assms by (intro coef_trim) (simp add: sanitize_def split: if_splits)
  then show ?thesis by (simp add: coef_def in_place_def)
qed (use assms in \<open>simp add: sanitize_def\<close>)

lemma poly_Mul_top:
  assumes "p \<noteq> []" "q \<noteq> []" "\<not> bad_mod m" "length p \<le> d + 1" "length q \<le> e + 1" "poly_Mul p q m = Some r"
  shows "meq m (coef r (d + e)) (coef p d * coef q e)"
proof -
  obtain p' where p: "sanitize m p = Some p'" "p' \<noteq> []" "length p' \<le> length p" using sanitize_spec [OF assms(1,3)] by auto
  obtain q' where q: "sanitize m q = Some q'" "q' \<noteq> []" "length q' \<le> length q" using sanitize_spec [OF assms(2,3)] by auto
  have "coef r (d + e) = coef (mul_rows m p' q' 0 (replicate (length p' + length q' - 1) 0)) (d + e)"
    using assms(6) p q by (intro coef_trim) (simp add: poly_Mul_def)
  also have "meq m \<dots> (coef p' d * coef q' e)" using p q assms(4,5) by (intro coef_mul_top) simp_all
  also have "meq m (coef p' d * coef q' e) (coef p d * coef q e)" by (intro meq_mult coef_sanitize p(1) q(1))
  finally show ?thesis .
qed

subsection \<open>Properties\<close>

text \<open>Sum, difference and product of polynomials, with any modulus but 0 or without one, are returned
  for operands that are not empty, trimmed and reduced, and \<open>Eval\<close> turns them into sum, difference and product of the
  values.\<close>

theorem poly_arithmetic:
  assumes "p \<noteq> []" and "q \<noteq> []" and "m \<noteq> Some 0"
  shows "\<exists>s d r. poly_Add p q m = Some s \<and> poly_Sub p q m = Some d \<and> poly_Mul p q m = Some r \<and>
    poly_ok m s \<and> poly_ok m d \<and> poly_ok m r \<and>
    (\<forall>x. \<exists>a b. Eval p x m = Some a \<and> Eval q x m = Some b \<and> Eval s x m = Some (reduce m (a + b)) \<and>
      Eval d x m = Some (reduce m (a - b)) \<and> Eval r x m = Some (reduce m (a * b)))"
proof -
  have bad: "\<not> bad_mod m" using assms(3) by (simp add: bad_mod_def)
  obtain s where s: "poly_Add p q m = Some s" "poly_ok m s" "\<And>x. meq m (peval s x) (peval p x + peval q x)"
    using poly_Add_spec [OF assms(1,2) bad] by blast
  obtain d where d: "poly_Sub p q m = Some d" "poly_ok m d" "\<And>x. meq m (peval d x) (peval p x - peval q x)"
    using poly_Sub_spec [OF assms(1,2) bad] by blast
  obtain r where r: "poly_Mul p q m = Some r" "poly_ok m r" "\<And>x. meq m (peval r x) (peval p x * peval q x)"
    using poly_Mul_spec [OF assms(1,2) bad] by blast
  have red: "meq m (a + b) (reduce m a + reduce m b)" "meq m (a - b) (reduce m a - reduce m b)"
    "meq m (a * b) (reduce m a * reduce m b)" for a b
    by (intro meq_add meq_diff meq_mult meq_sym [OF meq_reduce])+
  have ev: "reduce m (peval s x) = reduce m (reduce m (peval p x) + reduce m (peval q x))"
    "reduce m (peval d x) = reduce m (reduce m (peval p x) - reduce m (peval q x))"
    "reduce m (peval r x) = reduce m (reduce m (peval p x) * reduce m (peval q x))" for x
    using meq_trans [OF s(3) red(1)] meq_trans [OF d(3) red(2)] meq_trans [OF r(3) red(3)] unfolding meq_def by blast+
  show ?thesis unfolding s(1) d(1) r(1) Eval_eq [OF bad] using s(2) d(2) r(2) ev by blast
qed

theorem poly_arithmetic_witness:
  "poly_Add [1, 2] [3, 5] (Some 7) = Some [4] \<and> poly_Mul [1, 2] [3, 5] (Some 7) = Some [3, 4, 3] \<and>
   Eval [3, 4, 3] 2 (Some 7) = Some (reduce (Some 7) (5 * 6))"
proof -
  have e: "poly_Add [1, 2] [3, 5] (Some 7) = Some [4]" "poly_Mul [1, 2] [3, 5] (Some 7) = Some [3, 4, 3]"
    "Eval [1, 2] 2 (Some 7) = Some 5" "Eval [3, 5] 2 (Some 7) = Some 6"
    by code_simp+
  have h: "[1, 2 :: int] \<noteq> []" "[3, 5 :: int] \<noteq> []" "Some (7 :: int) \<noteq> Some 0" by simp_all
  obtain r where "poly_Mul [1, 2] [3, 5] (Some 7) = Some r"
      "\<exists>a b. Eval [1, 2] 2 (Some 7) = Some a \<and> Eval [3, 5] 2 (Some 7) = Some b \<and> Eval r 2 (Some 7) = Some (reduce (Some 7) (a * b))"
    using poly_arithmetic [OF h] by blast
  then show ?thesis unfolding e option.inject using e by blast
qed

text \<open>Claim C39 (functional): division returns, whatever the operands are (trimmed, without a modulus), a quotient and a remainder
  with \<open>p = quo q + rem\<close> up to the modulus. When the leading coefficient of the divisor can be inverted, the remainder is zero
  or of smaller degree than the divisor; otherwise \<open>Div\<close> may give up with quotient zero and remainder \<open>p\<close>.\<close>

theorem poly_Div_correct:
  assumes "p \<noteq> []" and "q \<noteq> []" and "m \<noteq> Some 0" and "m = None \<Longrightarrow> trimmed p \<and> trimmed q"
  shows "\<exists>quo rem. poly_Div p q m = Some (quo, rem) \<and>
    (\<forall>x. reduce m (peval p x) = reduce m (peval quo x * peval q x + peval rem x)) \<and>
    (poly_ok m q \<and> \<not> isZero q \<and> lead_unit m (last q) \<longrightarrow> length rem < length q \<or> rem = [0])"
  using poly_Div_spec [OF assms(1,2) _ assms(4)] assms(3) unfolding meq_def bad_mod_def by blast

theorem poly_Div_correct_witness:
  "\<exists>quo rem. poly_Div [1, 0, 1] [1, 1] (Some 5) = Some (quo, rem) \<and> (length rem < 2 \<or> rem = [0]) \<and>
    (\<forall>x. (1 + x * x) mod 5 = (peval quo x * (1 + x) + peval rem x) mod 5)"
proof -
  have "poly_ok (Some 5) [1, 1] \<and> \<not> isZero [1, 1] \<and> lead_unit (Some 5) (last [1, 1])"
    by (simp add: poly_ok_def trimmed_def reduce_def isZero_def GetDegree_def lead_unit_def)
  then show ?thesis using poly_Div_correct [of "[1, 0, 1]" "[1, 1]" "Some 5"] by (auto simp: reduce_def)
qed

text \<open>Claim C38 (termination): with a prime modulus \<open>Gcd\<close> returns for trimmed and reduced polynomials, and the roots of the result
  are exactly the common roots of the two. Without a modulus it may never return: for \<open>x\<^sup>2\<close> and \<open>2 x\<close> division
  gives up and \<open>Gcd\<close> calls itself with the same operands again and again.\<close>

theorem Gcd_common_roots:
  assumes "field_mod n" and "poly_ok (Some n) p" and "poly_ok (Some n) q"
  shows "(\<exists>d. poly_Gcd p q (Some n) = Some d \<and> (\<forall>x. n dvd peval d x \<longleftrightarrow> n dvd peval p x \<and> n dvd peval q x)) \<and>
    poly_Gcd [0, 0, 1] [0, 2] None = None"
  using Gcd_field [OF assms] Gcd_integers_hangs by blast

theorem Gcd_common_roots_witness:
  "\<exists>d. poly_Gcd [2, 0, 1] [1, 1] (Some 3) = Some d \<and>
    (\<forall>x. 3 dvd peval d x \<longleftrightarrow> 3 dvd 2 + x * x \<and> 3 dvd 1 + x)"
proof -
  have "coprime a 3" if "0 < a" "a < 3" for a :: int
  proof -
    have "a = 1 \<or> a = 2" using that by presburger
    then show ?thesis by auto
  qed
  then have "field_mod 3" by (simp add: field_mod_def)
  then show ?thesis
    using conjunct1 [OF Gcd_common_roots [of 3 "[2, 0, 1]" "[1, 1]"]] by (simp add: poly_ok_def trimmed_def reduce_def)
qed

end
