(* ===== verification/OneOfMany.thy ===== *)
theory OneOfMany
  imports Commitments Polynomials
begin

text \<open>
  The proof that one of many commitments is a commitment to zero (\<open>zero-knowledge/zkp_one_of_many.go\<close>), the proof that a value
  has at most 64 bits (\<open>zkp_value_max.go\<close>) and the helpers of \<open>privacy_utils.go\<close>. The random bytes are arguments; lists that the
  code fills from index 1 on have an empty entry at index 0, as in the code.
\<close>

subsection \<open>Helpers (\<open>privacy_utils.go\<close>)\<close>

text \<open>Go's division and remainder by 2 round towards zero.\<close>

definition quot2 :: "int \<Rightarrow> int" where
  "quot2 x = sgn x * (\<bar>x\<bar> div 2)"

definition rem2 :: "int \<Rightarrow> int" where
  "rem2 x = sgn x * (\<bar>x\<bar> mod 2)"

function power_loop :: "int \<Rightarrow> bool" where
  "power_loop n = (if n > 2 then (if rem2 n = 0 then power_loop (quot2 n) else False) else True)"
  by pat_completeness auto
termination
  by (relation "measure nat") (auto simp: quot2_def)

definition IsPowerOfTwo :: "int \<Rightarrow> bool" where
  "IsPowerOfTwo n = (if n < 2 then False else power_loop n)"

fun ConvertIntToBinary :: "int \<Rightarrow> nat \<Rightarrow> byte list" where
  "ConvertIntToBinary inum 0 = []"
| "ConvertIntToBinary inum (Suc n) = ConvertIntToBinary (quot2 inum) n @ [word_of_int (rem2 inum)]"

subsection \<open>One of many (\<open>zkp_one_of_many.go\<close>)\<close>

record PKOneOfManyProof =
  om_cl :: "bytes list"
  om_ca :: "bytes list"
  om_cb :: "bytes list"
  om_cd :: "bytes list"
  om_f :: "bytes list"
  om_za :: "bytes list"
  om_zb :: "bytes list"
  om_zd :: bytes

text \<open>The number of bits of the indices: the loop doubles \<open>temp\<close> until it is not below the number of commitments.\<close>

function bits_loop :: "nat \<Rightarrow> nat \<Rightarrow> nat \<Rightarrow> nat \<times> nat" where
  "bits_loop N temp n = (if 0 < temp \<and> temp < N then bits_loop N (2 * temp) (n + 1) else (temp, n))"
  by pat_completeness auto
termination
  by (relation "measure (\<lambda>(N, temp, n). N - temp)") auto

declare power_loop.simps [simp del] bits_loop.simps [simp del]

text \<open>The linear factors of the polynomial \<open>p\<^sub>i\<close> and their product.\<close>

fun coefficient_loop :: "int \<Rightarrow> (byte \<times> bytes \<times> byte) list \<Rightarrow> Poly \<Rightarrow> Poly option" where
  "coefficient_loop N [] res = Some res"
| "coefficient_loop N ((i, a, l) # js) res =
     (let fj = [int_SetBytes a, uint l] in
      Option.bind (if i = 0 then poly_Sub [0, 1] fj (Some N) else Some fj) (\<lambda>fji.
      Option.bind (poly_Mul res fji (Some N)) (coefficient_loop N js)))"

definition GetCoefficient :: "int \<Rightarrow> byte list \<Rightarrow> nat \<Rightarrow> nat \<Rightarrow> bytes list \<Rightarrow> byte list \<Rightarrow> int option" where
  "GetCoefficient N iBinary k n a l =
     Option.bind (coefficient_loop N (map (\<lambda>j. (iBinary ! (j - 1), a ! j, l ! (j - 1))) [1..<n + 1]) [1])
       (\<lambda>res. Some (if GetDegree res < int k then 0 else res ! k))"

text \<open>The sum of the commitments with their coefficients.\<close>

fun cd_loop :: "group_env \<Rightarrow> (nat \<Rightarrow> int option) \<Rightarrow> nat \<Rightarrow> bytes list \<Rightarrow> int \<times> int \<Rightarrow> (string, int \<times> int) res" where
  "cd_loop V pik i [] res = Ok res"
| "cd_loop V pik i (c # cs) res =
     (case DecompressCommitment (gv_curve V) c of
        Ok P \<Rightarrow> (case pik i of None \<Rightarrow> Panic | Some p \<Rightarrow> cd_loop V pik (i + 1) cs (Add V res (Mult V P (int_Bytes p))))
      | Err _ \<Rightarrow> Err ''decompress''
      | Panic \<Rightarrow> Panic)"

definition cd_point :: "group_env \<Rightarrow> (int \<times> int) list \<Rightarrow> byte \<Rightarrow> bytes list \<Rightarrow> (nat \<Rightarrow> int option) \<Rightarrow> bytes \<Rightarrow>
    (string, int \<times> int) res" where
  "cd_point V G index commitments pik u =
     and_then (cd_loop V pik 0 commitments (0, 0)) (\<lambda>res.
       case CommitSpecValue V G [] u index of
         None \<Rightarrow> Panic
       | Some comZero \<Rightarrow>
           (case DecompressCommitment (gv_curve V) comZero of
              Ok Z \<Rightarrow> Ok (Add V res Z)
            | Err _ \<Rightarrow> Err ''decompress''
            | Panic \<Rightarrow> Panic))"

definition cd_commitment :: "group_env \<Rightarrow> (int \<times> int) list \<Rightarrow> byte \<Rightarrow> bytes list \<Rightarrow> (nat \<Rightarrow> int option) \<Rightarrow> bytes \<Rightarrow> (string, bytes) res" where
  "cd_commitment V G index commitments pik u =
     and_then (cd_point V G index commitments pik u) (\<lambda>Q.
       let cd = Compress V Q in Ok (take 33 cd @ replicate (33 - length cd) 0))"

fun cd_commitments :: "group_env \<Rightarrow> (int \<times> int) list \<Rightarrow> byte \<Rightarrow> bytes list \<Rightarrow> (nat \<Rightarrow> nat \<Rightarrow> int option) \<Rightarrow> nat \<Rightarrow> bytes list \<Rightarrow>
    (string, bytes list) res" where
  "cd_commitments V G index commitments p k [] = Ok []"
| "cd_commitments V G index commitments p k (u # us) =
     and_then (cd_commitment V G index commitments (\<lambda>i. p i k) u) (\<lambda>cd.
     and_then (cd_commitments V G index commitments p (k + 1) us) (\<lambda>cds. Ok (cd # cds)))"

definition om_challenge :: "group_env \<Rightarrow> (int \<times> int) list \<Rightarrow> nat \<Rightarrow> bytes list \<Rightarrow> bytes list \<Rightarrow> bytes list \<Rightarrow> bytes list \<Rightarrow> int" where
  "om_challenge V G n cl ca cb cd =
     foldl (\<lambda>x j. int_SetBytes (GetHashOfValues V G [int_Bytes x, cl ! j, ca ! j, cb ! j, cd ! (j - 1)])) 0 [1..<n + 1]
       mod gN V"

definition om_zd_value :: "int \<Rightarrow> nat \<Rightarrow> int \<Rightarrow> bytes \<Rightarrow> bytes list \<Rightarrow> int" where
  "om_zd_value N n x rand u =
     (let zd = big_Exp x (int n) N * int_SetBytes rand;
          s = foldl (\<lambda>s k. (s + big_Exp x (int k) N * int_SetBytes (u ! k)) mod N) 0 [0..<n]
      in (zd + (N - s)) mod N)"

text \<open>The proof itself, for the bits \<open>l\<close> of the index; \<open>za\<close> is not reduced. \<open>u\<close> starts at index 0, the other random numbers
  at 1.\<close>

definition om_proof :: "group_env \<Rightarrow> (int \<times> int) list \<Rightarrow> bytes list \<Rightarrow> bytes list \<Rightarrow> bytes list \<Rightarrow> bytes list \<Rightarrow> bytes list \<Rightarrow>
    bytes list \<Rightarrow> nat \<Rightarrow> byte list \<Rightarrow> bytes \<Rightarrow> byte \<Rightarrow> (string, PKOneOfManyProof) res" where
  "om_proof V G r a s t u commitments n l rand index =
     (let N = gN V; com = (\<lambda>v rnd. CommitSpecValue V G v rnd index) in
      case (those (map (\<lambda>j. com (int_Bytes (uint (l ! (j - 1)))) (r ! j)) [1..<n + 1]),
            those (map (\<lambda>j. com (a ! j) (s ! j)) [1..<n + 1]),
            those (map (\<lambda>j. com (int_Bytes (uint (l ! (j - 1)) * int_SetBytes (a ! j) mod N)) (t ! j)) [1..<n + 1])) of
        (Some cl, Some ca, Some cb) \<Rightarrow>
          and_then (cd_commitments V G index commitments
              (\<lambda>i k. GetCoefficient N (ConvertIntToBinary (int i) n) k n a l) 0 (take n u)) (\<lambda>cd.
            let cl = [] # cl; ca = [] # ca; cb = [] # cb;
                x = om_challenge V G n cl ca cb cd;
                f = (\<lambda>j. (uint (l ! (j - 1)) * x + int_SetBytes (a ! j)) mod N);
                za = (\<lambda>j. int_SetBytes (r ! j) * x + int_SetBytes (s ! j));
                zb = (\<lambda>j. ((N - f j + x) * int_SetBytes (r ! j) + int_SetBytes (t ! j)) mod N)
            in Ok \<lparr>om_cl = cl, om_ca = ca, om_cb = cb, om_cd = cd, om_f = [] # map (\<lambda>j. int_Bytes (f j)) [1..<n + 1],
                   om_za = [] # map (\<lambda>j. int_Bytes (za j)) [1..<n + 1], om_zb = [] # map (\<lambda>j. int_Bytes (zb j)) [1..<n + 1],
                   om_zd = int_Bytes (om_zd_value N n x rand u)\<rparr>)
      | _ \<Rightarrow> Panic)"

text \<open>The argument \<open>commitmentValue\<close> is not used.\<close>

definition OneOfMany_Prove :: "group_env \<Rightarrow> (int \<times> int) list \<Rightarrow> bytes list \<Rightarrow> bytes list \<Rightarrow> bytes list \<Rightarrow> bytes list \<Rightarrow> bytes list \<Rightarrow>
    bytes list \<Rightarrow> int \<Rightarrow> bytes \<Rightarrow> byte \<Rightarrow> (string, PKOneOfManyProof) res" where
  "OneOfMany_Prove V G r a s t u commitments indexIsZero rand index =
     (let M = length commitments; (temp, n) = bits_loop M 1 0 in
      if temp \<noteq> M then Err ''the number of Commitment list's elements must be power of two''
      else if indexIsZero > int M then Err ''Index is zero must be Index in list of commitments''
      else if index < 1 \<or> index > 4 then Err ''Index must be between 1 and 4''
      else om_proof V G r a s t u commitments n (ConvertIntToBinary indexIsZero n) rand index)"

text \<open>The two equations for one bit.\<close>

definition om_check_bit :: "group_env \<Rightarrow> (int \<times> int) list \<Rightarrow> byte \<Rightarrow> int \<Rightarrow> PKOneOfManyProof \<Rightarrow> nat \<Rightarrow> bool option \<Rightarrow> bool option" where
  "om_check_bit V G index x p i rest =
     (let C = gv_curve V in
      try_point (DecompressCommitment C (om_cl p ! i)) (\<lambda>cl.
      try_point (DecompressCommitment C (om_ca p ! i)) (\<lambda>ca.
      try_point (DecompressCommitment C (om_cb p ! i)) (\<lambda>cb.
      try_point (DecompressKey C (om_cd p ! (i - 1))) (\<lambda>cd.
      if length (om_f p) \<le> i \<or> length (om_za p) \<le> i then None
      else case CommitSpecValue V G (om_f p ! i) (om_za p ! i) index of
        None \<Rightarrow> None
      | Some right1 \<Rightarrow> try_point (DecompressCommitment C right1) (\<lambda>rightPoint1.
          if Add V (Mult V cl (int_Bytes x)) ca \<noteq> rightPoint1 then Some False
          else let xSubF = (x - int_SetBytes (om_f p ! i)) mod gN V in
               if length (om_zb p) \<le> i then None
               else case CommitSpecValue V G [] (om_zb p ! i) index of
                 None \<Rightarrow> None
               | Some right2 \<Rightarrow> try_point (DecompressCommitment C right2) (\<lambda>rightPoint2.
                   if Add V (Mult V cl (int_Bytes xSubF)) cb \<noteq> rightPoint2 then Some False else rest)))))))"

fun om_check_bits :: "group_env \<Rightarrow> (int \<times> int) list \<Rightarrow> byte \<Rightarrow> int \<Rightarrow> PKOneOfManyProof \<Rightarrow> nat list \<Rightarrow> bool option \<Rightarrow> bool option" where
  "om_check_bits V G index x p [] rest = rest"
| "om_check_bits V G index x p (i # is) rest = om_check_bit V G index x p i (om_check_bits V G index x p is rest)"

text \<open>The exponent of a commitment: \<open>f\<close> for a bit 1 of its index, \<open>x - f\<close> for a bit 0.\<close>

definition om_exponent :: "int \<Rightarrow> int \<Rightarrow> bytes list \<Rightarrow> byte list \<Rightarrow> nat \<Rightarrow> int" where
  "om_exponent N x f iBinary n =
     foldl (\<lambda>e j. e * (if iBinary ! (j - 1) = 1 then int_SetBytes (f ! j) else (x - int_SetBytes (f ! j)) mod N) mod N)
       1 [1..<n + 1]"

fun om_sum :: "group_env \<Rightarrow> (nat \<Rightarrow> int) \<Rightarrow> nat \<Rightarrow> bytes list \<Rightarrow> int \<times> int \<Rightarrow> (int \<times> int \<Rightarrow> bool option) \<Rightarrow> bool option" where
  "om_sum V e i [] acc rest = rest acc"
| "om_sum V e i (c # cs) acc rest =
     try_point (DecompressCommitment (gv_curve V) c) (\<lambda>P. om_sum V e (i + 1) cs (Add V acc (Mult V P (int_Bytes (e i)))) rest)"

fun om_cd_sum :: "group_env \<Rightarrow> int \<Rightarrow> nat \<Rightarrow> bytes list \<Rightarrow> int \<times> int \<Rightarrow> (int \<times> int \<Rightarrow> bool option) \<Rightarrow> bool option" where
  "om_cd_sum V x k [] acc rest = rest acc"
| "om_cd_sum V x k (c # cs) acc rest =
     try_point (DecompressKey (gv_curve V) c) (\<lambda>P.
       om_cd_sum V x (k + 1) cs (Add V acc (Mult V P (int_Bytes (gN V - big_Exp x (int k) (gN V))))) rest)"

definition OneOfMany_Verify :: "group_env \<Rightarrow> (int \<times> int) list \<Rightarrow> bytes list \<Rightarrow> PKOneOfManyProof \<Rightarrow> byte \<Rightarrow> bool option" where
  "OneOfMany_Verify V G commitments p index =
     (let (temp, n) = bits_loop (length commitments) 1 0 in
      if length (om_cl p) \<le> n \<and> 0 < n \<or> length (om_ca p) \<le> n \<and> 0 < n \<or> length (om_cb p) \<le> n \<and> 0 < n \<or> length (om_cd p) < n then None
      else
        let x = om_challenge V G n (om_cl p) (om_ca p) (om_cb p) (om_cd p) in
        om_check_bits V G index x p [1..<n + 1]
          (om_sum V (\<lambda>i. om_exponent (gN V) x (om_f p) (ConvertIntToBinary (int i) n) n) 0 commitments (0, 0) (\<lambda>left.
           om_cd_sum V x 0 (take n (om_cd p)) (0, 0) (\<lambda>left2.
             case CommitSpecValue V G [] (om_zd p) index of
               None \<Rightarrow> None
             | Some right \<Rightarrow>
                 (case DecompressCommitment (gv_curve V) right of
                    Ok R \<Rightarrow> Some (Add V left left2 = R)
                  | _ \<Rightarrow> None)))))"

subsection \<open>Values of at most 64 bits (\<open>zkp_value_max.go\<close>)\<close>

text \<open>\<open>binary.Uvarint\<close> and \<open>binary.Varint\<close>: seven bits per byte, the sign in the lowest bit.\<close>

fun Uvarint_loop :: "bytes \<Rightarrow> nat \<Rightarrow> u64 \<Rightarrow> nat \<Rightarrow> u64 \<times> int" where
  "Uvarint_loop [] i x s = (0, 0)"
| "Uvarint_loop (b # buf) i x s =
     (if b < 128
      then (if i > 9 \<or> i = 9 \<and> b > 1 then (0, - (int i + 1)) else (x OR push_bit s (ucast b), int i + 1))
      else Uvarint_loop buf (i + 1) (x OR push_bit s (ucast (b AND 127))) (s + 7))"

definition Varint :: "bytes \<Rightarrow> int \<times> int" where
  "Varint buf =
     (let (ux, n) = Uvarint_loop buf 0 0 0; x = uint (drop_bit 1 ux)
      in (if ux AND 1 \<noteq> 0 then - x - 1 else x, n))"

definition VMAX :: u64 where "VMAX = 18446744073709551615"

definition threshold :: "nat list" where "threshold = [8, 16, 32, 64]"

text \<open>The bits of a positive value, the lowest first, and the index of the first threshold that is not smaller than their
  number.\<close>

function value_bits :: "int \<Rightarrow> nat \<Rightarrow> nat \<Rightarrow> byte list \<times> nat" where
  "value_bits v nBits index =
     (if v > 0
      then let index = (if nBits + 1 > threshold ! index then index + 1 else index);
               (bits, index) = value_bits (v div 2) (nBits + 1) index
           in (word_of_int (v mod 2) # bits, index)
      else ([], index))"
  by pat_completeness auto
termination
  by (relation "measure (\<lambda>(v, nBits, index). nat v)") auto

declare value_bits.simps [simp del]

text \<open>\<open>None\<close> is a nil pointer; the proof inside a protocol has all fields empty before \<open>SetProof\<close>.\<close>

record PKMaxValueProof =
  mv_commitments :: "bytes list"
  mv_proofs :: "PKComZeroOneProof option list"
  mv_protocols :: "PKComZeroOneProof list"

definition empty_ZeroOneProof :: PKComZeroOneProof where
  "empty_ZeroOneProof = \<lparr>p_ca = [], p_cb = [], p_f = [], p_za = [], p_zb = [], p_commitment = [], p_index = 0\<rparr>"

definition bit_proof :: "group_env \<Rightarrow> (int \<times> int) list \<Rightarrow> byte \<Rightarrow> bytes \<times> bytes \<times> bytes \<times> bytes \<Rightarrow> (bytes \<times> PKComZeroOneProof option) option" where
  "bit_proof V G b rnd =
     (case rnd of (rand, a, s, t) \<Rightarrow>
        let value = int_Bytes (uint b) in
        case CommitSpecValue V G value rand 2 of
          None \<Rightarrow> None
        | Some c \<Rightarrow>
            (case ZeroOne_Prove V G a s t \<lparr>w_Commitment = c, w_CommitedValue = value, w_Rand = rand, w_Index = 2\<rparr> of
               Ok p \<Rightarrow> Some (c, Some p)
             | Err _ \<Rightarrow> Some (c, None)
             | Panic \<Rightarrow> None))"

text \<open>The error of \<open>Varint\<close> is not looked at: bytes that cannot be decoded give the value 0, and a negative value has no bits.
  \<open>rnds\<close> are the random numbers, four per bit.\<close>

definition MaxValue_Prove :: "group_env \<Rightarrow> (bytes \<times> bytes \<times> bytes \<times> bytes) list \<Rightarrow> bytes \<Rightarrow> (string, PKMaxValueProof) res" where
  "MaxValue_Prove V rnds witness_value =
     (let (vInt, _) = Varint witness_value in
      if word_of_int vInt > VMAX then Err ''value must be less than 2^64-1''
      else case InitCommitment V of
             None \<Rightarrow> Panic
           | Some G \<Rightarrow>
               let (bits, index) = value_bits vInt 0 0;
                   m = threshold ! index;
                   padded = bits @ replicate (m - length bits) 0
               in case those (map2 (bit_proof V G) padded (take m rnds)) of
                    None \<Rightarrow> Panic
                  | Some ps \<Rightarrow> Ok \<lparr>mv_commitments = map fst ps, mv_proofs = map snd ps,
                      mv_protocols = replicate m empty_ZeroOneProof\<rparr>)"

definition MaxValue_SetProof :: "PKMaxValueProof \<Rightarrow> PKMaxValueProof option" where
  "MaxValue_SetProof p =
     (let n = length (mv_commitments p) in
      if length (mv_proofs p) < n \<or> length (mv_protocols p) < n then None
      else map_option (\<lambda>ps. p\<lparr>mv_protocols := ps @ drop n (mv_protocols p)\<rparr>) (those (take n (mv_proofs p))))"

fun verify_bits :: "group_env \<Rightarrow> (int \<times> int) list \<Rightarrow> nat \<Rightarrow> PKComZeroOneProof list \<Rightarrow> bool option" where
  "verify_bits V G 0 ps = Some True"
| "verify_bits V G (Suc n) [] = None"
| "verify_bits V G (Suc n) (p # ps) =
     (case ZeroOne_Verify V G p of None \<Rightarrow> None | Some ok \<Rightarrow> if ok then verify_bits V G n ps else Some False)"

definition MaxValue_Verify :: "group_env \<Rightarrow> (int \<times> int) list \<Rightarrow> PKMaxValueProof \<Rightarrow> bool option" where
  "MaxValue_Verify V G p =
     (if length (mv_commitments p) > 64 \<or> length (mv_proofs p) > 64 then Some False
      else if length (mv_commitments p) \<noteq> length (mv_proofs p) then Some False
      else verify_bits V G (length (mv_commitments p)) (mv_protocols p))"

text \<open>The bits are those of the value, and a value below \<open>2 ^ 63\<close> has at most as many as the threshold chosen.\<close>

lemma value_bits_spec:
  assumes "0 \<le> v" "v < 2 ^ k" "nBits + k \<le> 64" "index < 4" "nBits \<le> threshold ! index"
  shows "(\<Sum>i<length (fst (value_bits v nBits index)). uint (fst (value_bits v nBits index) ! i) * 2 ^ i) = v \<and>
    snd (value_bits v nBits index) < 4 \<and>
    nBits + length (fst (value_bits v nBits index)) \<le> threshold ! snd (value_bits v nBits index)"
  using assms
proof (induction v nBits index arbitrary: k rule: value_bits.induct)
  case (1 v nBits index)
  show ?case
  proof (cases "v > 0")
    case False
    then show ?thesis using "1.prems" by (subst (1 2 3 4 5) value_bits.simps) simp
  next
    case True
    define index' where "index' = (if nBits + 1 > threshold ! index then index + 1 else index)"
    obtain k' where k: "k = Suc k'" using True "1.prems"(2) by (cases k) auto
    obtain bits j where bj: "value_bits (v div 2) (nBits + 1) index' = (bits, j)" by (cases "value_bits (v div 2) (nBits + 1) index'")
    have e: "value_bits v nBits index = (word_of_int (v mod 2) # bits, j)"
      using True bj unfolding value_bits.simps [of v nBits index] Let_def index'_def by simp
    have ix: "index = 0 \<or> index = 1 \<or> index = 2 \<or> index = 3" using "1.prems"(4) by linarith
    have i': "index' < 4" "nBits + 1 \<le> threshold ! index'"
      using ix "1.prems"(3,5) k by (auto simp: index'_def threshold_def split: if_splits)
    have half: "v div 2 < 2 ^ k'" using "1.prems"(2) k by simp
    have IH: "(\<Sum>i<length bits. uint (bits ! i) * 2 ^ i) = v div 2 \<and> j < 4 \<and> nBits + 1 + length bits \<le> threshold ! j"
      using "1.IH" [OF True index'_def, of k'] "1.prems" i' k True half by (simp add: bj [simplified])
    have "uint (word_of_int (v mod 2) :: byte) = v mod 2" by (simp add: uint_word_of_int)
    then have "(\<Sum>i<Suc (length bits). uint ((word_of_int (v mod 2) # bits) ! i) * 2 ^ i) = v mod 2 + 2 * (v div 2)"
      unfolding sum.lessThan_Suc_shift IH [THEN conjunct1, symmetric] by (simp add: sum_distrib_left mult.left_commute)
    then show ?thesis using IH by (simp add: e)
  qed
qed

text \<open>The verifier looks at the number of the commitments only: they are tied neither to the proofs of the bits nor to a
  commitment to the value.\<close>

lemma MaxValue_unbound:
  "length cs = length (mv_commitments p) \<Longrightarrow> MaxValue_Verify V G (p\<lparr>mv_commitments := cs\<rparr>) = MaxValue_Verify V G p"
  by (simp add: MaxValue_Verify_def)

subsection \<open>Bits and coefficients\<close>

lemma meq_sum: "(\<And>i. i \<in> A \<Longrightarrow> meq m (f i) (g i)) \<Longrightarrow> meq m (sum f A) (sum g A)"
  by (induction A rule: infinite_finite_induct) (auto intro: meq_add)

lemma meq_prod_list: "(\<And>a. a \<in> set xs \<Longrightarrow> meq m (f a) (g a)) \<Longrightarrow> meq m (prod_list (map f xs)) (prod_list (map g xs))"
  by (induction xs) (auto intro: meq_mult)

lemma bits_loop_power: "k \<le> n \<Longrightarrow> bits_loop (2 ^ n) (2 ^ k) k = (2 ^ n, n)"
proof (induction "n - k" arbitrary: k)
  case (Suc d)
  then have "k < n" by simp
  then have "bits_loop (2 ^ n) (2 ^ k) k = bits_loop (2 ^ n) (2 ^ Suc k) (Suc k)"
    by (subst bits_loop.simps) (simp add: power_strict_increasing_iff)
  also have "\<dots> = (2 ^ n, n)" using Suc \<open>k < n\<close> by (intro Suc.hyps(1)) simp_all
  finally show ?case .
qed (simp add: bits_loop.simps)

lemma bits_loop_eq [simp]: "bits_loop (2 ^ n) (Suc 0) 0 = (2 ^ n, n)"
  using bits_loop_power [of 0 n] by simp

lemma length_Convert [simp]: "length (ConvertIntToBinary i n) = n"
  by (induction n arbitrary: i) simp_all

lemma quot2_nat: "quot2 (int i) = int (i div 2)" "rem2 (int i) = int (i mod 2)"
  by (simp_all add: quot2_def rem2_def zdiv_int zmod_int sgn_if)

lemma Convert_bits: "set (ConvertIntToBinary (int i) n) \<subseteq> {0, 1}"
proof (induction n arbitrary: i)
  case (Suc n)
  have "word_of_int (int (i mod 2)) \<in> {0, 1 :: byte}" by (cases "even i") (auto simp: odd_iff_mod_2_eq_one even_iff_mod_2_eq_zero)
  then show ?case using Suc.IH [of "i div 2"] by (simp add: quot2_nat)
qed simp

lemma Convert_inject: "i < 2 ^ n \<Longrightarrow> j < 2 ^ n \<Longrightarrow> ConvertIntToBinary (int i) n = ConvertIntToBinary (int j) n \<Longrightarrow> i = j"
proof (induction n arbitrary: i j)
  case (Suc n)
  have "word_of_int (int (i mod 2)) = (word_of_int (int (j mod 2)) :: byte)"
    using Suc.prems(3) by (simp add: quot2_nat)
  then have m: "i mod 2 = j mod 2" by (cases "even i"; cases "even j") (auto simp: odd_iff_mod_2_eq_one even_iff_mod_2_eq_zero)
  have "i div 2 = j div 2" using Suc.prems by (intro Suc.IH) (simp_all add: quot2_nat less_mult_imp_div_less)
  then show ?case using m by (metis mult_div_mod_eq)
qed simp

text \<open>The factor of \<open>p\<^sub>i(x)\<close> for one bit, and its leading coefficient.\<close>

definition factor :: "int \<Rightarrow> byte \<times> bytes \<times> byte \<Rightarrow> int" where
  "factor x j = (case j of (i, a, l) \<Rightarrow> if i = 0 then x - (uint l * x + int_SetBytes a) else uint l * x + int_SetBytes a)"

definition factor_top :: "byte \<times> bytes \<times> byte \<Rightarrow> int" where
  "factor_top j = (case j of (i, a, l) \<Rightarrow> if i = 0 then 1 - uint l else uint l)"

lemma factor_poly:
  assumes N: "N \<noteq> 0"
  shows "\<exists>q. (if i = 0 then poly_Sub [0, 1] [int_SetBytes a, uint l] (Some N) else Some [int_SetBytes a, uint l]) = Some q \<and>
    q \<noteq> [] \<and> length q \<le> 2 \<and> (\<forall>x. meq (Some N) (peval q x) (factor x (i, a, l))) \<and>
    meq (Some N) (coef q 1) (factor_top (i, a, l))"
proof (cases "i = 0")
  case True
  have bad: "\<not> bad_mod (Some N)" using N by (simp add: bad_mod_def)
  obtain q where q: "poly_Sub [0, 1] [int_SetBytes a, uint l] (Some N) = Some q" "poly_ok (Some N) q" "length q \<le> 2"
      "\<And>x. meq (Some N) (peval q x) (peval [0, 1] x - peval [int_SetBytes a, uint l] x)"
    using poly_Sub_spec [of "[0, 1]" "[int_SetBytes a, uint l]" "Some N"] bad by auto
  have "trim (map (reduce (Some N)) (map2 (+) [0, 1] (Neg [int_SetBytes a, uint l]))) = Some q"
    using q(1) poly_Add_same_length [of "[0, 1]" "Neg [int_SetBytes a, uint l]" "Some N"] bad by (simp add: poly_Sub_def Neg_def)
  then have "coef q 1 = reduce (Some N) (1 - uint l)" by (simp add: coef_trim Neg_def)
  moreover have "q \<noteq> []" using q(2) by (auto simp: poly_ok_def trimmed_def)
  ultimately show ?thesis using q(1,3,4) True by (simp add: factor_def factor_top_def algebra_simps)
next
  case False
  then show ?thesis by (simp add: factor_def factor_top_def algebra_simps)
qed

lemma poly_ok_nonneg: "N \<noteq> 0 \<Longrightarrow> poly_ok (Some N) p \<Longrightarrow> c \<in> set p \<Longrightarrow> 0 \<le> c"
  unfolding poly_ok_def reduce_def option.case by (metis abs_ge_zero pos_mod_sign zero_less_abs_iff)

lemma coefficient_loop_spec:
  assumes N: "N \<noteq> 0"
  shows "res \<noteq> [] \<Longrightarrow> length res \<le> d + 1 \<Longrightarrow> (\<And>c. c \<in> set res \<Longrightarrow> 0 \<le> c) \<Longrightarrow>
    \<exists>r. coefficient_loop N js res = Some r \<and> length r \<le> d + length js + 1 \<and> (\<forall>c\<in>set r. 0 \<le> c) \<and>
      (\<forall>x. meq (Some N) (peval r x) (peval res x * prod_list (map (factor x) js))) \<and>
      meq (Some N) (coef r (d + length js)) (coef res d * prod_list (map factor_top js))"
proof (induction js arbitrary: res d)
  case (Cons j js)
  obtain i a l where j: "j = (i, a, l)" by (cases j)
  have bad: "\<not> bad_mod (Some N)" using N by (simp add: bad_mod_def)
  obtain q where q: "(if i = 0 then poly_Sub [0, 1] [int_SetBytes a, uint l] (Some N) else Some [int_SetBytes a, uint l]) = Some q"
      "q \<noteq> []" "length q \<le> 2" "\<And>x. meq (Some N) (peval q x) (factor x j)" "meq (Some N) (coef q 1) (factor_top j)"
    using factor_poly [OF N] unfolding j by blast
  obtain res' where m: "poly_Mul res q (Some N) = Some res'" "poly_ok (Some N) res'" "length res' \<le> length res + length q - 1"
      "\<And>x. meq (Some N) (peval res' x) (peval res x * peval q x)"
    using poly_Mul_spec [OF Cons.prems(1) q(2) bad] by blast
  have top: "meq (Some N) (coef res' (d + 1)) (coef res d * coef q 1)"
    using poly_Mul_top [OF Cons.prems(1) q(2) bad Cons.prems(2) _ m(1), of 1] q(3) by simp
  have ne: "res' \<noteq> []" "length res' \<le> d + 1 + 1" "\<And>c. c \<in> set res' \<Longrightarrow> 0 \<le> c"
    using m(2,3) q(3) Cons.prems(2) poly_ok_nonneg [OF N m(2)] by (auto simp: poly_ok_def trimmed_def)
  obtain r where r: "coefficient_loop N js res' = Some r" "length r \<le> d + 1 + length js + 1" "\<forall>c\<in>set r. 0 \<le> c"
      "\<And>x. meq (Some N) (peval r x) (peval res' x * prod_list (map (factor x) js))"
      "meq (Some N) (coef r (d + 1 + length js)) (coef res' (d + 1) * prod_list (map factor_top js))"
    using Cons.IH [OF ne] by blast
  have "meq (Some N) (peval r x) (peval res x * prod_list (map (factor x) (j # js)))" for x
  proof -
    have "meq (Some N) (peval res' x) (peval res x * factor x j)" by (rule meq_trans [OF m(4) meq_mult [OF meq_refl q(4)]])
    from meq_trans [OF r(4) meq_mult [OF this meq_refl]] show ?thesis by (simp add: mult.assoc)
  qed
  moreover have "meq (Some N) (coef r (d + length (j # js))) (coef res d * prod_list (map factor_top (j # js)))"
  proof -
    have "meq (Some N) (coef res' (d + 1)) (coef res d * factor_top j)" by (rule meq_trans [OF top meq_mult [OF meq_refl q(5)]])
    from meq_trans [OF r(5) meq_mult [OF this meq_refl]] show ?thesis by (simp add: mult.assoc)
  qed
  moreover have "coefficient_loop N (j # js) res = Some r" using q(1) m(1) r(1) by (simp add: j Let_def)
  moreover have "length r \<le> d + length (j # js) + 1" using r(2) by simp
  ultimately show ?case using r(3) by blast
qed simp


abbreviation index_bits :: "nat \<Rightarrow> byte list \<Rightarrow> bytes list \<Rightarrow> byte list \<Rightarrow> (byte \<times> bytes \<times> byte) list" where
  "index_bits n b a l \<equiv> map (\<lambda>j. (b ! (j - 1), a ! j, l ! (j - 1))) [1..<n + 1]"

lemma GetCoefficient_spec:
  assumes N: "N \<noteq> 0"
  shows "\<exists>p. (\<forall>k. GetCoefficient N b k n a l = Some (p k)) \<and> (\<forall>k. 0 \<le> p k) \<and>
    (\<forall>x. meq (Some N) ((\<Sum>k<n. p k * x ^ k) + prod_list (map factor_top (index_bits n b a l)) * x ^ n)
      (prod_list (map (factor x) (index_bits n b a l))))"
proof -
  let ?js = "index_bits n b a l"
  obtain r where r: "coefficient_loop N ?js [1] = Some r" "length r \<le> n + 1" "\<forall>c\<in>set r. 0 \<le> c"
      "\<And>x. meq (Some N) (peval r x) (prod_list (map (factor x) ?js))"
      "meq (Some N) (coef r n) (prod_list (map factor_top ?js))"
    using coefficient_loop_spec [OF N, of "[1]" 0 ?js] by (auto simp del: upt_Suc)
  have "GetCoefficient N b k n a l = Some (coef r k)" for k
    using r(1) by (simp add: GetCoefficient_def GetDegree_def coef_def del: upt_Suc)
  moreover have "0 \<le> coef r k" for k using r(3) by (simp add: coef_def)
  moreover have "meq (Some N) ((\<Sum>k<n. coef r k * x ^ k) + prod_list (map factor_top ?js) * x ^ n)
      (prod_list (map (factor x) ?js))" for x
  proof -
    have e: "peval r x = (\<Sum>k<n. coef r k * x ^ k) + coef r n * x ^ n" using peval_coef [OF r(2)] by simp
    have "meq (Some N) ((\<Sum>k<n. coef r k * x ^ k) + prod_list (map factor_top ?js) * x ^ n) (peval r x)"
      unfolding e by (intro meq_add meq_mult meq_refl meq_sym [OF r(5)])
    then show ?thesis by (rule meq_trans [OF _ r(4)])
  qed
  ultimately show ?thesis by blast
qed

lemma factor_top_bits:
  assumes "length b = n" "length l = n" "set b \<subseteq> {0, 1}" "set l \<subseteq> {0, 1}"
  shows "prod_list (map factor_top (index_bits n b a l)) = (if b = l then 1 else 0)"
proof -
  have f: "factor_top (b ! j, a ! Suc j, l ! j) = (if b ! j = l ! j then 1 else 0)" if "j < n" for j
  proof -
    have "b ! j \<in> {0, 1}" using that assms(1) by (intro subsetD [OF assms(3)]) simp
    moreover have "l ! j \<in> {0, 1}" using that assms(2) by (intro subsetD [OF assms(4)]) simp
    ultimately show ?thesis by (auto simp: factor_top_def)
  qed
  have "index_bits n b a l = map (\<lambda>j. (b ! j, a ! Suc j, l ! j)) [0..<n]"
    by (rule nth_equalityI) (simp_all del: upt_Suc)
  then have e: "map factor_top (index_bits n b a l) = map (\<lambda>j. if b ! j = l ! j then 1 else 0) [0..<n]"
    using f by (simp del: upt_Suc)
  show ?thesis
  proof (cases "b = l")
    case True
    have "prod_list (map (\<lambda>_. 1 :: int) [0..<n]) = 1" by (simp add: map_replicate_const)
    then show ?thesis unfolding e by (simp add: True)
  next
    case False
    then obtain j where "j < n" "b ! j \<noteq> l ! j" using assms nth_equalityI by metis
    then have "(0 :: int) \<in> set (map (\<lambda>j. if b ! j = l ! j then 1 else 0) [0..<n])" by force
    then have "prod_list (map (\<lambda>j. if b ! j = l ! j then 1 else 0 :: int) [0..<n]) = 0"
      by (rule prod_list_zero_iff [THEN iffD2])
    then show ?thesis unfolding e using False by simp
  qed
qed

subsection \<open>The sums of points\<close>

lemma cd_loop_eq:
  assumes cyc: "cyclic_curve V pt"
  shows "(\<And>j. j < length cs \<Longrightarrow> DecompressCommitment (gv_curve V) (cs ! j) = Ok (pt (c (i + j))) \<and>
      pik (i + j) = Some (p (i + j)) \<and> 0 \<le> p (i + j)) \<Longrightarrow>
    cd_loop V pik i cs (pt A) = Ok (pt (A + (\<Sum>j<length cs. c (i + j) * p (i + j))))"
proof (induction cs arbitrary: i A)
  case (Cons b cs)
  have 0: "DecompressCommitment (gv_curve V) b = Ok (pt (c i))" "pik i = Some (p i)" "0 \<le> p i" using Cons.prems [of 0] by simp_all
  have "cd_loop V pik (i + 1) cs (pt (A + c i * p i)) = Ok (pt (A + c i * p i + (\<Sum>j<length cs. c (i + 1 + j) * p (i + 1 + j))))"
    by (rule Cons.IH) (use Cons.prems [of "Suc j" for j] in auto)
  then show ?case
    using 0 by (simp del: sum.lessThan_Suc add: sum.lessThan_Suc_shift cyclicD(3,4) [OF cyc] add.assoc)
qed simp

lemma om_sum_eq:
  assumes cyc: "cyclic_curve V pt"
  shows "(\<And>j. j < length cs \<Longrightarrow> DecompressCommitment (gv_curve V) (cs ! j) = Ok (pt (c (i + j)))) \<Longrightarrow> (\<And>j. 0 \<le> e j) \<Longrightarrow>
    om_sum V e i cs (pt A) rest = rest (pt (A + (\<Sum>j<length cs. c (i + j) * e (i + j))))"
proof (induction cs arbitrary: i A)
  case (Cons b cs)
  have 0: "DecompressCommitment (gv_curve V) b = Ok (pt (c i))" "0 \<le> e i" using Cons.prems(1) [of 0] Cons.prems(2) by simp_all
  have "om_sum V e (i + 1) cs (pt (A + c i * e i)) rest = rest (pt (A + c i * e i + (\<Sum>j<length cs. c (i + 1 + j) * e (i + 1 + j))))"
    by (rule Cons.IH) (use Cons.prems(1) [of "Suc j" for j] Cons.prems(2) in auto)
  then show ?case
    using 0 by (simp del: sum.lessThan_Suc add: sum.lessThan_Suc_shift try_point_def cyclicD(3,4) [OF cyc] add.assoc)
qed simp

lemma om_cd_sum_eq:
  assumes cyc: "cyclic_curve V pt"
  shows "(\<And>j. j < length cs \<Longrightarrow> DecompressKey (gv_curve V) (cs ! j) = Ok (pt (c (k + j)))) \<Longrightarrow>
    om_cd_sum V x k cs (pt A) rest = rest (pt (A + (\<Sum>j<length cs. c (k + j) * (gN V - x ^ (k + j) mod gN V))))"
proof (induction cs arbitrary: k A)
  case (Cons b cs)
  have 0: "DecompressKey (gv_curve V) b = Ok (pt (c k))" using Cons.prems(1) [of 0] by simp
  have n: "0 \<le> gN V - x ^ k mod gN V" using cyclicD(1) [OF cyc] by (simp add: less_imp_le)
  let ?A = "A + c k * (gN V - x ^ k mod gN V)"
  have "om_cd_sum V x (k + 1) cs (pt ?A) rest = rest (pt (?A + (\<Sum>j<length cs. c (k + 1 + j) * (gN V - x ^ (k + 1 + j) mod gN V))))"
    by (rule Cons.IH) (use Cons.prems(1) [of "Suc j" for j] in auto)
  then show ?case
    using 0 n by (simp del: sum.lessThan_Suc
        add: sum.lessThan_Suc_shift try_point_def big_Exp_def cyclicD(3,4) [OF cyc] add.assoc)
qed simp

lemma cd_commitments_eq:
  "(\<And>j. j < length us \<Longrightarrow> cd_commitment V G index commitments (\<lambda>i. p i (k + j)) (us ! j) = Ok (cd (k + j))) \<Longrightarrow>
    cd_commitments V G index commitments p k us = Ok (map (\<lambda>j. cd (k + j)) [0..<length us])"
proof (induction us arbitrary: k)
  case (Cons u us)
  have 0: "cd_commitment V G index commitments (\<lambda>i. p i k) u = Ok (cd k)" using Cons.prems [of 0] by simp
  have "cd_commitments V G index commitments p (k + 1) us = Ok (map (\<lambda>j. cd (k + 1 + j)) [0..<length us])"
    by (rule Cons.IH) (use Cons.prems [of "Suc j" for j] in auto)
  then show ?case using 0 by (simp add: upt_conv_Cons map_Suc_upt [symmetric] comp_def del: upt_Suc)
qed simp


subsection \<open>The checks on an honest proof\<close>

lemma pt_meq: "cyclic_curve V pt \<Longrightarrow> pt a = pt b \<longleftrightarrow> meq (Some (gN V)) a b"
  by (simp add: cyclicD(7) meq_iff)

lemma meq_mod: "meq (Some N) (a mod N) a" if "0 < N"
  using that by (simp add: meq_def reduce_def)

text \<open>The two equations hold for a bit.\<close>

lemma bit_equations:
  assumes N: "0 < N" and l: "l = 0 \<or> l = 1" and f: "f = (l * x + a) mod N"
  shows "meq (Some N) (spec_log gs l r i * x + spec_log gs a s i) (spec_log gs f (r * x + s) i)"
    "meq (Some N) (spec_log gs l r i * ((x - f) mod N) + spec_log gs (l * a mod N) t i)
      (spec_log gs 0 (((N - f + x) * r + t) mod N) i)"
proof -
  obtain q1 where q1: "f = l * x + a + N * q1" using mod_shift [of "l * x + a" N] f by auto
  obtain q2 where q2: "(x - f) mod N = x - f + N * q2" using mod_shift by metis
  obtain q3 where q3: "l * a mod N = l * a + N * q3" using mod_shift by metis
  obtain q4 where q4: "((N - f + x) * r + t) mod N = (N - f + x) * r + t + N * q4" using mod_shift by metis
  have "spec_log gs l r i * x + spec_log gs a s i - spec_log gs f (r * x + s) i = N * - (gs ! i * q1)"
    by (simp add: spec_log_def q1 algebra_simps)
  then show "meq (Some N) (spec_log gs l r i * x + spec_log gs a s i) (spec_log gs f (r * x + s) i)"
    by (simp only: meq_iff option.case dvd_triv_left)
  have "l * (l * x) = l * x" using l by auto
  then have "spec_log gs l r i * (x - f + N * q2) + spec_log gs (l * a + N * q3) t i -
      spec_log gs 0 ((N - f + x) * r + t + N * q4) i =
      N * (gs ! i * l * (q2 - q1) + gs ! i * q3 + gs ! 4 * r * (q2 - 1) - gs ! 4 * q4)"
    using l by (auto simp: spec_log_def q1 algebra_simps)
  then show "meq (Some N) (spec_log gs l r i * ((x - f) mod N) + spec_log gs (l * a mod N) t i)
      (spec_log gs 0 (((N - f + x) * r + t) mod N) i)"
    unfolding q2 q3 q4 by (simp only: meq_iff option.case dvd_triv_left)
qed

lemma check_bit_passes:
  assumes cyc: "cyclic_curve V pt" and poc: "points_on_curve V pt" and gs: "length gs = 5" and ix: "unat index < 5"
    and x: "0 \<le> x" and l: "l = 0 \<or> l = 1"
    and cl: "DecompressCommitment (gv_curve V) (om_cl p ! j) = Ok (pt (spec_log gs l r (unat index)))"
    and ca: "DecompressCommitment (gv_curve V) (om_ca p ! j) = Ok (pt (spec_log gs a s (unat index)))"
    and cb: "DecompressCommitment (gv_curve V) (om_cb p ! j) = Ok (pt (spec_log gs (l * a mod gN V) t (unat index)))"
    and cd: "DecompressKey (gv_curve V) (om_cd p ! (j - 1)) = Ok Q"
    and len: "j < length (om_f p)" "j < length (om_za p)" "j < length (om_zb p)"
    and f: "int_SetBytes (om_f p ! j) = (l * x + a) mod gN V" and za: "int_SetBytes (om_za p ! j) = r * x + s"
    and zb: "int_SetBytes (om_zb p ! j) = ((gN V - (l * x + a) mod gN V + x) * r + t) mod gN V"
    and op: "spec_opens V (map pt gs) (om_f p ! j) (om_za p ! j) (unat index)"
      "spec_opens V (map pt gs) [] (om_zb p ! j) (unat index)"
  shows "om_check_bit V (map pt gs) index x p j rest = rest"
proof -
  note G = cyclicD [OF cyc]
  obtain r1 where r1: "CommitSpecValue V (map pt gs) (om_f p ! j) (om_za p ! j) index = Some r1"
      "DecompressCommitment (gv_curve V) r1 = Ok (pt (spec_log gs ((l * x + a) mod gN V) (r * x + s) (unat index)))"
    using CommitSpecValue_opens [OF cyc poc gs ix op(1)] by (auto simp: f za)
  obtain r2 where r2: "CommitSpecValue V (map pt gs) [] (om_zb p ! j) index = Some r2"
      "DecompressCommitment (gv_curve V) r2 =
        Ok (pt (spec_log gs 0 (((gN V - (l * x + a) mod gN V + x) * r + t) mod gN V) (unat index)))"
    using CommitSpecValue_opens [OF cyc poc gs ix op(2)] by (auto simp: zb)
  note eqs = bit_equations [OF G(1) l refl, where gs = gs and i = "unat index"]
  have nn: "0 \<le> (x - (l * x + a) mod gN V) mod gN V" using G(1) by simp
  have "Add V (Mult V (pt (spec_log gs l r (unat index))) (int_Bytes x)) (pt (spec_log gs a s (unat index))) =
      pt (spec_log gs ((l * x + a) mod gN V) (r * x + s) (unat index))"
    using x eqs(1) by (simp add: G(3,4) pt_meq [OF cyc])
  moreover have "Add V (Mult V (pt (spec_log gs l r (unat index))) (int_Bytes ((x - (l * x + a) mod gN V) mod gN V)))
      (pt (spec_log gs (l * a mod gN V) t (unat index))) =
      pt (spec_log gs 0 (((gN V - (l * x + a) mod gN V + x) * r + t) mod gN V) (unat index))"
    using nn eqs(2) by (simp only: G(3,4) pt_meq [OF cyc] int_SetBytes_Bytes abs_of_nonneg)
  ultimately show ?thesis
    unfolding om_check_bit_def Let_def try_point_def cl ca cb cd f using len r1 r2 by simp
qed

lemma check_bits_pass:
  "(\<And>j rest. j \<in> set js \<Longrightarrow> om_check_bit V G index x p j rest = rest) \<Longrightarrow> om_check_bits V G index x p js rest = rest"
  by (induction js) simp_all

lemma exponent_factors:
  assumes N: "0 < N" and b: "length b = n" "set b \<subseteq> {0, 1}"
    and f: "\<And>j. 1 \<le> j \<Longrightarrow> j \<le> n \<Longrightarrow> int_SetBytes (f ! j) = (uint (l ! (j - 1)) * x + int_SetBytes (a ! j)) mod N"
  shows "meq (Some N) (om_exponent N x f b n) (prod_list (map (factor x) (index_bits n b a l))) \<and> 0 \<le> om_exponent N x f b n"
proof -
  have "meq (Some N) (foldl (\<lambda>e j. e * (if b ! (j - 1) = 1 then int_SetBytes (f ! j) else (x - int_SetBytes (f ! j)) mod N) mod N) e js)
      (e * prod_list (map (factor x) (map (\<lambda>j. (b ! (j - 1), a ! j, l ! (j - 1))) js)))" if "set js \<subseteq> {1..n}" for js e
    using that
  proof (induction js arbitrary: e)
    case (Cons j js)
    have j: "1 \<le> j" "j \<le> n" using Cons.prems by auto
    have bj: "b ! (j - 1) \<in> {0, 1}" using j b(1) by (intro subsetD [OF b(2)]) simp
    have f1: "meq (Some N) (int_SetBytes (f ! j)) (uint (l ! (j - 1)) * x + int_SetBytes (a ! j))"
      unfolding f [OF j] by (rule meq_mod [OF N])
    then have f0: "meq (Some N) ((x - int_SetBytes (f ! j)) mod N) (x - (uint (l ! (j - 1)) * x + int_SetBytes (a ! j)))"
      by (rule meq_trans [OF meq_mod [OF N] meq_diff [OF meq_refl]])
    let ?v = "if b ! (j - 1) = 1 then int_SetBytes (f ! j) else (x - int_SetBytes (f ! j)) mod N"
    have "meq (Some N) ?v (factor x (b ! (j - 1), a ! j, l ! (j - 1)))"
      using bj f1 f0 by (auto simp: factor_def)
    then have "meq (Some N) (e * ?v mod N) (e * factor x (b ! (j - 1), a ! j, l ! (j - 1)))"
      by (rule meq_trans [OF meq_mod [OF N] meq_mult [OF meq_refl]])
    from meq_trans [OF Cons.IH meq_mult [OF this meq_refl]] Cons.prems show ?case by (simp add: mult.assoc)
  qed simp
  from this [of "[1..<n + 1]" 1] have "meq (Some N) (om_exponent N x f b n) (prod_list (map (factor x) (index_bits n b a l)))"
    unfolding om_exponent_def by (simp add: atLeastLessThanSuc_atLeastAtMost del: upt_Suc)
  moreover have "0 \<le> om_exponent N x f b n" using N by (cases n) (simp_all add: om_exponent_def)
  ultimately show ?thesis by blast
qed


lemma zd_value:
  assumes N: "0 < N"
  shows "meq (Some N) (om_zd_value N n x rand u) (x ^ n * int_SetBytes rand - (\<Sum>k<n. x ^ k * int_SetBytes (u ! k)))"
    "0 \<le> om_zd_value N n x rand u"
proof -
  let ?s = "foldl (\<lambda>s k. (s + big_Exp x (int k) N * int_SetBytes (u ! k)) mod N) 0 [0..<n]"
  have e: "meq (Some N) (big_Exp x (int k) N) (x ^ k)" for k unfolding big_Exp_def nat_int by (rule meq_mod [OF N])
  have s: "meq (Some N) ?s (\<Sum>k<n. x ^ k * int_SetBytes (u ! k))"
  proof (induction n)
    case (Suc n)
    let ?t = "foldl (\<lambda>s k. (s + big_Exp x (int k) N * int_SetBytes (u ! k)) mod N) 0 [0..<n]"
    have "meq (Some N) ((?t + big_Exp x (int n) N * int_SetBytes (u ! n)) mod N)
        ((\<Sum>k<n. x ^ k * int_SetBytes (u ! k)) + x ^ n * int_SetBytes (u ! n))"
      by (rule meq_trans [OF meq_mod [OF N]]) (intro meq_add meq_mult meq_refl e Suc.IH)
    then show ?case by simp
  qed simp
  have N0: "meq (Some N) N 0" by (simp add: meq_iff)
  have "meq (Some N) ((big_Exp x (int n) N * int_SetBytes rand + (N - ?s)) mod N)
      (x ^ n * int_SetBytes rand + (0 - (\<Sum>k<n. x ^ k * int_SetBytes (u ! k))))"
    by (rule meq_trans [OF meq_mod [OF N]]) (intro meq_add meq_mult meq_diff meq_refl e s N0)
  then show "meq (Some N) (om_zd_value N n x rand u) (x ^ n * int_SetBytes rand - (\<Sum>k<n. x ^ k * int_SetBytes (u ! k)))"
    by (simp add: om_zd_value_def Let_def)
  show "0 \<le> om_zd_value N n x rand u" using N by (simp add: om_zd_value_def Let_def)
qed

text \<open>The powers of \<open>x\<close> below the \<open>n\<close>-th cancel, and of the \<open>n\<close>-th the commitment with the chosen index is left.\<close>

lemma third_equation:
  fixes c D U :: "nat \<Rightarrow> int" and P :: "nat \<Rightarrow> nat \<Rightarrow> int"
  assumes N: "0 < N" and l: "l < M"
    and E: "\<And>i. i < M \<Longrightarrow> meq (Some N) (E i) ((\<Sum>k<n. P i k * x ^ k) + (if i = l then 1 else 0) * x ^ n)"
    and D: "\<And>k. D k = (\<Sum>i<M. c i * P i k) + h * U k"
    and zd: "meq (Some N) zd (x ^ n * R - (\<Sum>k<n. x ^ k * U k))"
  shows "meq (Some N) ((\<Sum>i<M. c i * E i) + (\<Sum>k<n. D k * (N - x ^ k mod N))) (h * zd + (c l - h * R) * x ^ n)"
proof -
  have N0: "meq (Some N) N 0" by (simp add: meq_iff)
  have "meq (Some N) (N - x ^ k mod N) (0 - x ^ k)" for k by (intro meq_diff N0 meq_mod N)
  then have m1: "meq (Some N) ((\<Sum>i<M. c i * E i) + (\<Sum>k<n. D k * (N - x ^ k mod N)))
      ((\<Sum>i<M. c i * ((\<Sum>k<n. P i k * x ^ k) + (if i = l then 1 else 0) * x ^ n)) + (\<Sum>k<n. D k * (0 - x ^ k)))"
    by (intro meq_add meq_sum meq_mult meq_refl E) simp_all
  have e1: "(\<Sum>i<M. c i * ((\<Sum>k<n. P i k * x ^ k) + (if i = l then 1 else 0) * x ^ n)) =
      (\<Sum>k<n. (\<Sum>i<M. c i * P i k) * x ^ k) + c l * x ^ n"
  proof -
    have "(\<Sum>i<M. c i * ((\<Sum>k<n. P i k * x ^ k) + (if i = l then 1 else 0) * x ^ n)) =
        (\<Sum>i<M. \<Sum>k<n. c i * P i k * x ^ k) + (\<Sum>i<M. if i = l then c l * x ^ n else 0)"
      unfolding sum.distrib [symmetric] by (rule sum.cong) (simp_all add: distrib_left sum_distrib_left mult.assoc)
    also have "(\<Sum>i<M. \<Sum>k<n. c i * P i k * x ^ k) = (\<Sum>k<n. (\<Sum>i<M. c i * P i k) * x ^ k)"
      by (subst sum.swap) (simp add: sum_distrib_right)
    finally show ?thesis using l by simp
  qed
  have e2: "(\<Sum>k<n. D k * (0 - x ^ k)) = - (\<Sum>k<n. (\<Sum>i<M. c i * P i k) * x ^ k) - h * (\<Sum>k<n. x ^ k * U k)"
    by (simp add: D sum_subtractf sum.distrib sum_negf sum_distrib_left algebra_simps)
  have "S + c l * x ^ n + (- S - h * T) = h * (x ^ n * R - T) + (c l - h * R) * x ^ n" for S T :: int
    by (simp add: algebra_simps)
  then have "meq (Some N) ((\<Sum>i<M. c i * E i) + (\<Sum>k<n. D k * (N - x ^ k mod N)))
      (h * (x ^ n * R - (\<Sum>k<n. x ^ k * U k)) + (c l - h * R) * x ^ n)" using m1 unfolding e1 e2 by (simp only:)
  then show ?thesis by (rule meq_trans) (intro meq_add meq_mult meq_refl meq_sym [OF zd])
qed

text \<open>The points of an honest proof that have to be points with even second coordinates.\<close>

definition om_opens :: "group_env \<Rightarrow> (int \<times> int) list \<Rightarrow> byte \<Rightarrow> nat \<Rightarrow> byte list \<Rightarrow> bytes list \<Rightarrow> bytes list \<Rightarrow> bytes list \<Rightarrow>
    bytes list \<Rightarrow> bytes list \<Rightarrow> bytes list \<Rightarrow> PKOneOfManyProof \<Rightarrow> bool" where
  "om_opens V G index n l r a s t u commitments p \<longleftrightarrow>
     (\<forall>j\<in>{1..n}. spec_opens V G (int_Bytes (uint (l ! (j - 1)))) (r ! j) (unat index) \<and>
        spec_opens V G (a ! j) (s ! j) (unat index) \<and>
        spec_opens V G (int_Bytes (uint (l ! (j - 1)) * int_SetBytes (a ! j) mod gN V)) (t ! j) (unat index) \<and>
        spec_opens V G (om_f p ! j) (om_za p ! j) (unat index) \<and> spec_opens V G [] (om_zb p ! j) (unat index)) \<and>
     (\<forall>k\<in>{..<n}. spec_opens V G [] (u ! k) (unat index) \<and>
        (case cd_point V G index commitments (\<lambda>i. GetCoefficient (gN V) (ConvertIntToBinary (int i) n) k n a l) (u ! k) of
           Ok Q \<Rightarrow> IsOnCurve (gv_curve V) Q \<and> even (snd Q)
         | _ \<Rightarrow> False)) \<and>
     spec_opens V G [] (om_zd p) (unat index)"

lemma those_commit:
  "unat index < 5 \<Longrightarrow> those (map (\<lambda>j. CommitSpecValue V G (f j) (g j) index) js) =
    Some (map (\<lambda>j. the (CommitSpecValue V G (f j) (g j) index)) js)"
  by (induction js) (simp_all add: CommitSpecValue_def CM_CAPACITY_def)

lemma Prove_Ok:
  assumes "length commitments = 2 ^ n" "OneOfMany_Prove V G r a s t u commitments lz rand index = Ok p"
  shows "unat index < 5" "om_proof V G r a s t u commitments n (ConvertIntToBinary lz n) rand index = Ok p"
proof -
  have P: "(if lz > 2 ^ n then Err ''Index is zero must be Index in list of commitments''
      else if index < 1 \<or> index > 4 then Err ''Index must be between 1 and 4''
      else om_proof V G r a s t u commitments n (ConvertIntToBinary lz n) rand index) = Ok p"
    using assms(2) unfolding OneOfMany_Prove_def assms(1) Let_def One_nat_def bits_loop_eq prod.case by simp
  then have "index \<le> 4" by (simp add: not_less split: if_splits)
  then show "unat index < 5" by (simp add: word_le_nat_alt)
  show "om_proof V G r a s t u commitments n (ConvertIntToBinary lz n) rand index = Ok p" using P by (simp split: if_splits)
qed

lemma Prove_form:
  assumes ix: "unat index < 5" and pr: "om_proof V G r a s t u commitments n l rand index = Ok p"
    and cd: "cd_commitments V G index commitments (\<lambda>i k. GetCoefficient (gN V) (ConvertIntToBinary (int i) n) k n a l) 0 (take n u) = Ok cd"
    and x: "x = om_challenge V G n (om_cl p) (om_ca p) (om_cb p) (om_cd p)"
  shows "om_cl p = [] # map (\<lambda>j. the (CommitSpecValue V G (int_Bytes (uint (l ! (j - 1)))) (r ! j) index)) [1..<n + 1]"
    "om_ca p = [] # map (\<lambda>j. the (CommitSpecValue V G (a ! j) (s ! j) index)) [1..<n + 1]"
    "om_cb p = [] # map (\<lambda>j. the (CommitSpecValue V G (int_Bytes (uint (l ! (j - 1)) * int_SetBytes (a ! j) mod gN V)) (t ! j) index)) [1..<n + 1]"
    "om_cd p = cd"
    "om_f p = [] # map (\<lambda>j. int_Bytes ((uint (l ! (j - 1)) * x + int_SetBytes (a ! j)) mod gN V)) [1..<n + 1]"
    "om_za p = [] # map (\<lambda>j. int_Bytes (int_SetBytes (r ! j) * x + int_SetBytes (s ! j))) [1..<n + 1]"
    "om_zb p = [] # map (\<lambda>j. int_Bytes (((gN V - (uint (l ! (j - 1)) * x + int_SetBytes (a ! j)) mod gN V + x) *
      int_SetBytes (r ! j) + int_SetBytes (t ! j)) mod gN V)) [1..<n + 1]"
    "om_zd p = int_Bytes (om_zd_value (gN V) n x rand u)"
proof -
  define cl where "cl = map (\<lambda>j. the (CommitSpecValue V G (int_Bytes (uint (l ! (j - 1)))) (r ! j) index)) [1..<n + 1]"
  define ca where "ca = map (\<lambda>j. the (CommitSpecValue V G (a ! j) (s ! j) index)) [1..<n + 1]"
  define cb where "cb = map (\<lambda>j. the (CommitSpecValue V G (int_Bytes (uint (l ! (j - 1)) * int_SetBytes (a ! j) mod gN V)) (t ! j) index)) [1..<n + 1]"
  define y where "y = om_challenge V G n ([] # cl) ([] # ca) ([] # cb) cd"
  have "Ok \<lparr>om_cl = [] # cl, om_ca = [] # ca, om_cb = [] # cb, om_cd = cd,
        om_f = [] # map (\<lambda>j. int_Bytes ((uint (l ! (j - 1)) * y + int_SetBytes (a ! j)) mod gN V)) [1..<n + 1],
        om_za = [] # map (\<lambda>j. int_Bytes (int_SetBytes (r ! j) * y + int_SetBytes (s ! j))) [1..<n + 1],
        om_zb = [] # map (\<lambda>j. int_Bytes (((gN V - (uint (l ! (j - 1)) * y + int_SetBytes (a ! j)) mod gN V + y) *
          int_SetBytes (r ! j) + int_SetBytes (t ! j)) mod gN V)) [1..<n + 1],
        om_zd = int_Bytes (om_zd_value (gN V) n y rand u)\<rparr> = (Ok p :: (string, PKOneOfManyProof) res)"
    unfolding pr [symmetric] om_proof_def Let_def those_commit [OF ix] prod.case option.case cd
    by (simp only: and_then.simps y_def cl_def ca_def cb_def)
  then have p: "p = \<lparr>om_cl = [] # cl, om_ca = [] # ca, om_cb = [] # cb, om_cd = cd,
        om_f = [] # map (\<lambda>j. int_Bytes ((uint (l ! (j - 1)) * y + int_SetBytes (a ! j)) mod gN V)) [1..<n + 1],
        om_za = [] # map (\<lambda>j. int_Bytes (int_SetBytes (r ! j) * y + int_SetBytes (s ! j))) [1..<n + 1],
        om_zb = [] # map (\<lambda>j. int_Bytes (((gN V - (uint (l ! (j - 1)) * y + int_SetBytes (a ! j)) mod gN V + y) *
          int_SetBytes (r ! j) + int_SetBytes (t ! j)) mod gN V)) [1..<n + 1],
        om_zd = int_Bytes (om_zd_value (gN V) n y rand u)\<rparr>" by (simp only: res.inject)
  have xy: "x = y" unfolding x y_def p by (simp del: upt_Suc)
  show "om_cl p = [] # map (\<lambda>j. the (CommitSpecValue V G (int_Bytes (uint (l ! (j - 1)))) (r ! j) index)) [1..<n + 1]"
    "om_ca p = [] # map (\<lambda>j. the (CommitSpecValue V G (a ! j) (s ! j) index)) [1..<n + 1]"
    "om_cb p = [] # map (\<lambda>j. the (CommitSpecValue V G (int_Bytes (uint (l ! (j - 1)) * int_SetBytes (a ! j) mod gN V)) (t ! j) index)) [1..<n + 1]"
    "om_cd p = cd"
    "om_f p = [] # map (\<lambda>j. int_Bytes ((uint (l ! (j - 1)) * x + int_SetBytes (a ! j)) mod gN V)) [1..<n + 1]"
    "om_za p = [] # map (\<lambda>j. int_Bytes (int_SetBytes (r ! j) * x + int_SetBytes (s ! j))) [1..<n + 1]"
    "om_zb p = [] # map (\<lambda>j. int_Bytes (((gN V - (uint (l ! (j - 1)) * x + int_SetBytes (a ! j)) mod gN V + x) *
      int_SetBytes (r ! j) + int_SetBytes (t ! j)) mod gN V)) [1..<n + 1]"
    "om_zd p = int_Bytes (om_zd_value (gN V) n x rand u)"
    unfolding xy p cl_def ca_def cb_def by (simp_all only: PKOneOfManyProof.select_convs)
qed


lemma nth_Nil_map: "1 \<le> j \<Longrightarrow> j \<le> n \<Longrightarrow> ([] # map f [1..<n + 1]) ! j = f j"
  by (cases j) (simp_all del: upt_Suc)

lemma cd_point_eq:
  assumes cyc: "cyclic_curve V pt" and poc: "points_on_curve V pt" and gs: "length gs = 5" "unat index < 5"
    and com: "\<And>i. i < length commitments \<Longrightarrow> DecompressCommitment (gv_curve V) (commitments ! i) = Ok (pt (c i))"
    and P: "\<And>i. i < length commitments \<Longrightarrow> pik i = Some (P i) \<and> 0 \<le> P i"
    and op: "spec_opens V (map pt gs) [] u (unat index)"
  shows "cd_point V (map pt gs) index commitments pik u =
    Ok (pt ((\<Sum>i<length commitments. c i * P i) + gs ! 4 * int_SetBytes u))"
proof -
  have 0: "pt 0 = (0, 0)" using cyc unfolding cyclic_curve_def by blast
  have "cd_loop V pik 0 commitments (pt 0) = Ok (pt (0 + (\<Sum>i<length commitments. c (0 + i) * P (0 + i))))"
    by (rule cd_loop_eq [OF cyc]) (use com P in simp)
  moreover obtain z where "CommitSpecValue V (map pt gs) [] u index = Some z"
      "DecompressCommitment (gv_curve V) z = Ok (pt (spec_log gs 0 (int_SetBytes u) (unat index)))"
    using CommitSpecValue_opens [OF cyc poc gs op] by auto
  ultimately show ?thesis by (simp add: cd_point_def 0 cyclicD(3) [OF cyc] spec_log_def)
qed

lemma one_of_many_accepts:
  assumes cyc: "cyclic_curve V pt" and poc: "points_on_curve V pt" and gs: "length gs = 5"
    and M: "length commitments = 2 ^ n" "lz < 2 ^ n" "length u = n"
    and com: "\<And>i. i < 2 ^ n \<Longrightarrow> DecompressCommitment (gv_curve V) (commitments ! i) = Ok (pt (c i))"
    and clz: "c lz = spec_log gs v (int_SetBytes rand) (unat index)"
    and pr: "OneOfMany_Prove V (map pt gs) r a s t u commitments (int lz) rand index = Ok p"
    and op: "om_opens V (map pt gs) index n (ConvertIntToBinary (int lz) n) r a s t u commitments p"
  shows "OneOfMany_Verify V (map pt gs) commitments p index = Some (gN V dvd gs ! unat index * v *
    om_challenge V (map pt gs) n (om_cl p) (om_ca p) (om_cb p) (om_cd p) ^ n)"
proof -
  note G = cyclicD [OF cyc]
  let ?G = "map pt gs" and ?N = "gN V" and ?i = "unat index" and ?C = "gv_curve V"
  define l where "l = ConvertIntToBinary (int lz) n"
  define x where "x = om_challenge V ?G n (om_cl p) (om_ca p) (om_cb p) (om_cd p)"
  have x0: "0 \<le> x" using G(1) by (simp add: x_def om_challenge_def)
  have N0: "?N \<noteq> 0" using G(1) by simp
  have l: "length l = n" "set l \<subseteq> {0, 1}" unfolding l_def by (simp, rule Convert_bits)
  have ix: "?i < 5" and pr': "om_proof V ?G r a s t u commitments n l rand index = Ok p"
    using Prove_Ok [OF M(1) pr] by (simp_all add: l_def)
  note opn = CommitSpecValue_opens [OF cyc poc gs ix]
  have opj: "spec_opens V ?G (int_Bytes (uint (l ! (j - 1)))) (r ! j) ?i" "spec_opens V ?G (a ! j) (s ! j) ?i"
      "spec_opens V ?G (int_Bytes (uint (l ! (j - 1)) * int_SetBytes (a ! j) mod ?N)) (t ! j) ?i"
      "spec_opens V ?G (om_f p ! j) (om_za p ! j) ?i" "spec_opens V ?G [] (om_zb p ! j) ?i" if "1 \<le> j" "j \<le> n" for j
    using op that unfolding om_opens_def l_def by auto
  have "\<forall>i. \<exists>q. (\<forall>k. GetCoefficient ?N (ConvertIntToBinary (int i) n) k n a l = Some (q k)) \<and> (\<forall>k. 0 \<le> q k) \<and>
      (\<forall>x. meq (Some ?N) ((\<Sum>k<n. q k * x ^ k) +
          prod_list (map factor_top (index_bits n (ConvertIntToBinary (int i) n) a l)) * x ^ n)
        (prod_list (map (factor x) (index_bits n (ConvertIntToBinary (int i) n) a l))))"
    by (intro allI GetCoefficient_spec N0)
  from choice [OF this] obtain P where P:
    "\<And>i k. GetCoefficient ?N (ConvertIntToBinary (int i) n) k n a l = Some (P i k)" "\<And>i k. 0 \<le> P i k"
    "\<And>i x. meq (Some ?N) ((\<Sum>k<n. P i k * x ^ k) +
          prod_list (map factor_top (index_bits n (ConvertIntToBinary (int i) n) a l)) * x ^ n)
        (prod_list (map (factor x) (index_bits n (ConvertIntToBinary (int i) n) a l)))" by blast
  define D where "D k = (\<Sum>i<2 ^ n. c i * P i k) + gs ! 4 * int_SetBytes (u ! k)" for k
  have opu: "spec_opens V ?G [] (u ! k) ?i" if "k < n" for k using op that unfolding om_opens_def by blast
  have cdp: "cd_point V ?G index commitments (\<lambda>i. GetCoefficient ?N (ConvertIntToBinary (int i) n) k n a l) (u ! k) = Ok (pt (D k))"
    if "k < n" for k
    using cd_point_eq [OF cyc poc gs ix _ _ opu [OF that], of commitments c _ "\<lambda>i. P i k"] com P(1,2) by (simp add: M(1) D_def)
  have "IsOnCurve ?C (pt (D k)) \<and> even (snd (pt (D k)))" if "k < n" for k
  proof -
    have "case cd_point V ?G index commitments (\<lambda>i. GetCoefficient ?N (ConvertIntToBinary (int i) n) k n a l) (u ! k) of
        Ok Q \<Rightarrow> IsOnCurve ?C Q \<and> even (snd Q) | _ \<Rightarrow> False"
      using op that unfolding om_opens_def l_def [symmetric] by blast
    then show ?thesis unfolding cdp [OF that] by simp
  qed
  then have cds: "length (Compress V (pt (D k))) = 33" "DecompressKey ?C (Compress V (pt (D k))) = Ok (pt (D k))" if "k < n" for k
    using pt_compress [OF cyc poc] that by blast+
  have "cd_commitments V ?G index commitments (\<lambda>i k. GetCoefficient ?N (ConvertIntToBinary (int i) n) k n a l) 0 u =
      Ok (map (\<lambda>j. Compress V (pt (D (0 + j)))) [0..<length u])"
    by (rule cd_commitments_eq) (use cdp cds(1) in \<open>simp add: cd_commitment_def M(3)\<close>)
  then have cd: "cd_commitments V ?G index commitments (\<lambda>i k. GetCoefficient ?N (ConvertIntToBinary (int i) n) k n a l) 0 (take n u) =
      Ok (map (\<lambda>j. Compress V (pt (D j))) [0..<n])" by (simp add: M(3))
  note pf = Prove_form [OF ix pr' cd x_def]
  have bits: "om_check_bits V ?G index x p [1..<n + 1] rest = rest" for rest
  proof (rule check_bits_pass)
    fix j rest assume "j \<in> set [1..<n + 1]"
    then have j: "1 \<le> j" "j \<le> n" by auto
    then have jn: "j - 1 < n" by simp
    have lj: "uint (l ! (j - 1)) = 0 \<or> uint (l ! (j - 1)) = 1"
    proof -
      have "l ! (j - 1) \<in> {0, 1}" using j l(1) by (intro subsetD [OF l(2)]) simp
      then show ?thesis by auto
    qed
    have nn: "0 \<le> (uint (l ! (j - 1)) * x + int_SetBytes (a ! j)) mod ?N" "0 \<le> int_SetBytes (r ! j) * x + int_SetBytes (s ! j)"
      "0 \<le> uint (l ! (j - 1)) * int_SetBytes (a ! j) mod ?N" using G(1) x0 by simp_all
    show "om_check_bit V ?G index x p j rest = rest"
    proof (rule check_bit_passes [OF cyc poc gs ix x0 lj, where r = "int_SetBytes (r ! j)" and a = "int_SetBytes (a ! j)"
          and s = "int_SetBytes (s ! j)" and t = "int_SetBytes (t ! j)" and Q = "pt (D (j - 1))"])
      show "DecompressCommitment ?C (om_cl p ! j) = Ok (pt (spec_log gs (uint (l ! (j - 1))) (int_SetBytes (r ! j)) ?i))"
        unfolding pf(1) nth_Nil_map [OF j] using opn [OF opj(1) [OF j]] by auto
      show "DecompressCommitment ?C (om_ca p ! j) = Ok (pt (spec_log gs (int_SetBytes (a ! j)) (int_SetBytes (s ! j)) ?i))"
        unfolding pf(2) nth_Nil_map [OF j] using opn [OF opj(2) [OF j]] by auto
      show "DecompressCommitment ?C (om_cb p ! j) =
          Ok (pt (spec_log gs (uint (l ! (j - 1)) * int_SetBytes (a ! j) mod ?N) (int_SetBytes (t ! j)) ?i))"
        unfolding pf(3) nth_Nil_map [OF j] using opn [OF opj(3) [OF j]] nn(3) by auto
      show "DecompressKey ?C (om_cd p ! (j - 1)) = Ok (pt (D (j - 1)))" using jn cds(2) [OF jn] by (simp add: pf(4) del: One_nat_def)
      show "j < length (om_f p)" "j < length (om_za p)" "j < length (om_zb p)" using j by (simp_all add: pf(5-7))
      show "int_SetBytes (om_f p ! j) = (uint (l ! (j - 1)) * x + int_SetBytes (a ! j)) mod ?N"
        unfolding pf(5) nth_Nil_map [OF j] using nn by simp
      show "int_SetBytes (om_za p ! j) = int_SetBytes (r ! j) * x + int_SetBytes (s ! j)"
        unfolding pf(6) nth_Nil_map [OF j] using nn by simp
      show "int_SetBytes (om_zb p ! j) = ((?N - (uint (l ! (j - 1)) * x + int_SetBytes (a ! j)) mod ?N + x) *
          int_SetBytes (r ! j) + int_SetBytes (t ! j)) mod ?N"
        unfolding pf(7) nth_Nil_map [OF j] using G(1) by simp
    qed (rule opj [OF j])+
  qed
  define E where "E i = om_exponent ?N x (om_f p) (ConvertIntToBinary (int i) n) n" for i
  have f: "int_SetBytes (om_f p ! j) = (uint (l ! (j - 1)) * x + int_SetBytes (a ! j)) mod ?N" if "1 \<le> j" "j \<le> n" for j
    unfolding pf(5) nth_Nil_map [OF that] using G(1) by simp
  have E: "meq (Some ?N) (E i) (prod_list (map (factor x) (index_bits n (ConvertIntToBinary (int i) n) a l)))" "0 \<le> E i" for i
    unfolding E_def by (rule exponent_factors [OF G(1) length_Convert Convert_bits f, THEN conjunct1]
        exponent_factors [OF G(1) length_Convert Convert_bits f, THEN conjunct2]; assumption)+
  have E': "meq (Some ?N) (E i) ((\<Sum>k<n. P i k * x ^ k) + (if i = lz then 1 else 0) * x ^ n)" if "i < 2 ^ n" for i
  proof -
    have "(ConvertIntToBinary (int i) n = l) = (i = lz)" using Convert_inject [OF that M(2)] by (auto simp: l_def)
    then have "prod_list (map factor_top (index_bits n (ConvertIntToBinary (int i) n) a l)) = (if i = lz then 1 else 0)"
      unfolding factor_top_bits [OF length_Convert l(1) Convert_bits l(2)] by (simp only:)
    then show ?thesis using meq_trans [OF E(1) meq_sym [OF P(3)], of i] by (simp only:)
  qed
  define zd where "zd = om_zd_value ?N n x rand u"
  have zd: "meq (Some ?N) zd (x ^ n * int_SetBytes rand - (\<Sum>k<n. x ^ k * int_SetBytes (u ! k)))" "0 \<le> zd"
    unfolding zd_def by (rule zd_value [OF G(1)])+
  obtain right where right: "CommitSpecValue V ?G [] (om_zd p) index = Some right" "DecompressCommitment ?C right = Ok (pt (gs ! 4 * zd))"
    using opn [of "[]" "om_zd p"] op zd(2) unfolding om_opens_def by (auto simp: pf(8) zd_def [symmetric] spec_log_def)
  let ?L = "(\<Sum>i<2 ^ n. c i * E i) + (\<Sum>k<n. D k * (?N - x ^ k mod ?N))"
  have 0: "pt 0 = (0, 0)" using cyc unfolding cyclic_curve_def by blast
  have s1: "om_sum V E 0 commitments (pt 0) rest = rest (pt (0 + (\<Sum>i<length commitments. c (0 + i) * E (0 + i))))" for rest
    by (rule om_sum_eq [OF cyc]) (use com M(1) E(2) in simp_all)
  have s2: "om_cd_sum V x 0 (om_cd p) (pt 0) rest =
      rest (pt (0 + (\<Sum>k<length (om_cd p). D (0 + k) * (?N - x ^ (0 + k) mod ?N))))" for rest
    by (rule om_cd_sum_eq [OF cyc]) (use cds(2) in \<open>simp add: pf(4)\<close>)
  have len: "length (om_cl p) = n + 1" "length (om_ca p) = n + 1" "length (om_cb p) = n + 1" "length (om_cd p) = n"
    by (simp_all add: pf(1-4))
  have "OneOfMany_Verify V ?G commitments p index = Some (pt ?L = pt (gs ! 4 * zd))"
    unfolding OneOfMany_Verify_def M(1) One_nat_def bits_loop_eq Let_def prod.case x_def [symmetric] E_def [abs_def, symmetric]
    using bits s1 s2 by (simp add: len right M(1) 0 [symmetric] G(3) del: upt_Suc)
  moreover have "meq (Some ?N) ?L (gs ! 4 * zd + (c lz - gs ! 4 * int_SetBytes rand) * x ^ n)"
    by (rule third_equation [OF G(1) M(2) E' D_def zd(1)])
  then have "pt ?L = pt (gs ! 4 * zd) \<longleftrightarrow> ?N dvd gs ! ?i * v * x ^ n"
    unfolding pt_meq [OF cyc] clz by (simp add: meq_def) (simp add: meq_def [symmetric] meq_iff spec_log_def)
  ultimately show ?thesis by (simp add: x_def)
qed


subsection \<open>A concrete curve\<close>

text \<open>The five multiples of \<open>(0, 1)\<close> on \<open>y\<^sup>2 = x\<^sup>3 - 3 x + 1\<close> modulo 7; the example hash is constant.\<close>

definition c7_pt :: "int \<Rightarrow> int \<times> int" where
  "c7_pt a = [(0, 0), (0, 1), (4, 5), (4, 2), (0, 6)] ! nat (a mod 5)"

definition c7_log :: "int \<times> int \<Rightarrow> int" where
  "c7_log p = (if p = (0, 1) then 1 else if p = (4, 5) then 2 else if p = (4, 2) then 3 else if p = (0, 6) then 4 else 0)"

definition c7_group :: group_env where
  "c7_group = \<lparr>gv_curve = \<lparr>cP = 7, cN = 5, cB = 1, ScalarBaseMult = (\<lambda>k. c7_pt (int_SetBytes k)),
       ScalarMult = (\<lambda>p k. c7_pt (c7_log p * int_SetBytes k)),
       IsOnCurve = (\<lambda>(x, y). y * y mod 7 = (x * x * x + 1 - x * 3) mod 7)\<rparr>,
     Gen = c7_pt 1, Add = (\<lambda>p q. c7_pt (c7_log p + c7_log q)), Blake2b = (\<lambda>b. [1])\<rparr>"

definition c7_gens :: "int list" where
  "c7_gens = [1, 1, 1, 1, 1]"

lemma c7_simps [simp]: "gP c7_group = 7" "gN c7_group = 5" "cB (gv_curve c7_group) = 1" "Gen c7_group = c7_pt 1"
  "BaseMult c7_group k = c7_pt (int_SetBytes k)" "Mult c7_group p k = c7_pt (c7_log p * int_SetBytes k)"
  "Add c7_group p q = c7_pt (c7_log p + c7_log q)" "Blake2b c7_group b = [1]"
  "IsOnCurve (gv_curve c7_group) (x, y) \<longleftrightarrow> y * y mod 7 = (x * x * x + 1 - x * 3) mod 7"
  "length c7_gens = 5" "c7_gens ! 0 = 1" "c7_gens ! Suc 0 = 1" "c7_gens ! 4 = 1"
  by (simp_all add: c7_group_def c7_gens_def)

lemma mod_5_cases: "a mod 5 \<in> {0, 1, 2, 3, 4 :: int}"
proof -
  have "a mod 5 = 0 \<or> a mod 5 = 1 \<or> a mod 5 = 2 \<or> a mod 5 = 3 \<or> a mod 5 = 4" by presburger
  then show ?thesis by blast
qed

lemma c7_pt_cases:
  "a mod 5 = 0 \<Longrightarrow> c7_pt a = (0, 0)" "a mod 5 = 1 \<Longrightarrow> c7_pt a = (0, 1)" "a mod 5 = 2 \<Longrightarrow> c7_pt a = (4, 5)"
  "a mod 5 = 3 \<Longrightarrow> c7_pt a = (4, 2)" "a mod 5 = 4 \<Longrightarrow> c7_pt a = (0, 6)"
  by (simp_all add: c7_pt_def eval_nat_numeral)

lemma c7_log_pt [simp]: "c7_log (c7_pt a) = a mod 5"
  using mod_5_cases [of a] by (auto simp: c7_pt_cases c7_log_def)

lemma c7_pt_mod [simp]: "c7_pt (a mod 5) = c7_pt a"
  by (simp add: c7_pt_def)

lemma c7_cyclic: "cyclic_curve c7_group c7_pt"
proof -
  have mods: "c7_pt (a mod 5 + b mod 5) = c7_pt (a + b)" "c7_pt (a mod 5 * k) = c7_pt (a * k)" for a b k
    by (simp_all add: c7_pt_def mod_simps)
  have "c7_pt a = c7_pt b \<longleftrightarrow> a mod 5 = b mod 5" for a b
    using c7_log_pt [of a] c7_log_pt [of b] c7_pt_mod [of a] c7_pt_mod [of b] by metis
  then show ?thesis unfolding cyclic_curve_def by (simp add: mods c7_pt_cases)
qed

lemma c7_on_curve: "IsOnCurve (gv_curve c7_group) (c7_pt a) \<longleftrightarrow> a mod 5 \<noteq> 0"
  using mod_5_cases [of a] by (auto simp: c7_pt_cases)

lemma c7_even: "a mod 5 \<noteq> 0 \<and> even (snd (c7_pt a)) \<longleftrightarrow> a mod 5 = 3 \<or> a mod 5 = 4"
  using mod_5_cases [of a] by (auto simp: c7_pt_cases)

lemma c7_curve_ok: "curve_ok (gv_curve c7_group)"
proof -
  have cases: "a mod 7 \<in> {1, 2, 3, 4, 5, 6}" if "\<not> 7 dvd a" for a :: int
  proof -
    have "a mod 7 = 1 \<or> a mod 7 = 2 \<or> a mod 7 = 3 \<or> a mod 7 = 4 \<or> a mod 7 = 5 \<or> a mod 7 = 6" using that by presburger
    then show ?thesis by blast
  qed
  have nz: "u * v mod 7 \<noteq> 0" "u ^ 6 mod 7 = 1" if "u \<in> {1, 2, 3, 4, 5, 6}" "v \<in> {1, 2, 3, 4, 5, 6}" for u v :: int
    using that by auto
  have prime: "7 dvd a \<or> 7 dvd b" if "7 dvd a * b" for a b :: int
  proof (rule ccontr)
    assume n: "\<not> (7 dvd a \<or> 7 dvd b)"
    have "(a mod 7) * (b mod 7) mod 7 = 0" unfolding mod_mult_eq using that by (rule dvd_imp_mod_0)
    moreover have "(a mod 7) * (b mod 7) mod 7 \<noteq> 0" by (rule nz; rule cases) (use n in simp_all)
    ultimately show False by contradiction
  qed
  have fermat: "a ^ 6 mod 7 = 1" if "\<not> 7 dvd a" for a :: int
    using nz(2) [OF cases [OF that] cases [OF that]] unfolding power_mod .
  have e: "nat (7 - 1) = 6" by simp
  have on: "IsOnCurve (gv_curve c7_group) (x, y) \<longleftrightarrow> y * y mod 7 = cubic (gv_curve c7_group) x" for x y
    by (simp add: cubic_def)
  show ?thesis
    unfolding curve_ok_def c7_simps(1) e using prime fermat on by (intro conjI allI impI) (assumption | simp | blast)+
qed

lemma c7_points: "points_on_curve c7_group c7_pt"
proof -
  have "IsOnCurve (gv_curve c7_group) (c7_pt a) \<and> 0 \<le> fst (c7_pt a) \<and> fst (c7_pt a) < 7 \<and> 0 \<le> snd (c7_pt a) \<and> snd (c7_pt a) < 7"
    if "a mod 5 \<noteq> 0" for a
    using mod_5_cases [of a] that by (auto simp: c7_pt_cases)
  then show ?thesis unfolding points_on_curve_def c7_simps(1,2) using c7_curve_ok by blast
qed

lemma c7_opens: "spec_opens c7_group (map c7_pt c7_gens) v r (Suc 0) \<longleftrightarrow> int_SetBytes r mod 5 \<noteq> 0 \<and>
    ((int_SetBytes r + int_SetBytes v) mod 5 = 3 \<or> (int_SetBytes r + int_SetBytes v) mod 5 = 4)"
proof -
  have "Mult c7_group (map c7_pt c7_gens ! 0) r = c7_pt (int_SetBytes r)" by (simp add: c7_gens_def)
  moreover have "spec_point c7_group (map c7_pt c7_gens) v r (Suc 0) = c7_pt (int_SetBytes r + int_SetBytes v)"
    using spec_point_log [OF c7_cyclic, of c7_gens "Suc 0" v r] by (simp add: spec_log_def)
  ultimately show ?thesis by (simp only: spec_opens_def opens_def c7_on_curve c7_even)
qed


subsection \<open>Properties\<close>

text \<open>Claim C35 (safety): for \<open>2 ^ n\<close> commitments, \<open>PKOneOfManyProtocol.Verify\<close> accepts the proof that \<open>Prove\<close> makes for the index
  \<open>lz\<close> of a commitment to \<open>v\<close> exactly when the order of the group divides \<open>v\<close> times the generator's multiple times the
  \<open>n\<close>-th power of the challenge, so for a prime order and a challenge other than 0 exactly when the commitment is one to zero,
  provided that the commitments of the proof open. The coefficients of \<open>GetCoefficient\<close>, computed with the polynomials of
  \<open>polynomials.go\<close>, cancel in the last equation.\<close>

theorem one_of_many_verdict:
  assumes "cyclic_curve V pt" and "points_on_curve V pt" and "length gs = 5"
    and "length commitments = 2 ^ n" and "lz < 2 ^ n" and "length u = n"
    and "\<And>i. i < 2 ^ n \<Longrightarrow> DecompressCommitment (gv_curve V) (commitments ! i) = Ok (pt (c i))"
    and "c lz = spec_log gs v (int_SetBytes rand) (unat index)"
    and "OneOfMany_Prove V (map pt gs) r a s t u commitments (int lz) rand index = Ok p"
    and "om_opens V (map pt gs) index n (ConvertIntToBinary (int lz) n) r a s t u commitments p"
  shows "OneOfMany_Verify V (map pt gs) commitments p index = Some (gN V dvd gs ! unat index * v *
    om_challenge V (map pt gs) n (om_cl p) (om_ca p) (om_cb p) (om_cd p) ^ n)"
  by (rule one_of_many_accepts [OF assms])

lemma c7_challenge: "om_challenge c7_group G 1 cl ca cb cd = 1"
  by (simp add: om_challenge_def GetHashOfValues_def int_SetBytes_one)

lemma c7_coefficients:
  "GetCoefficient 5 (ConvertIntToBinary 0 1) 0 1 [[], [1]] [0] = Some 4"
  "GetCoefficient 5 (ConvertIntToBinary 1 1) 0 1 [[], [1]] [0] = Some 1"
  by code_simp+

lemma c7_commitment:
  "\<exists>c. CommitSpecValue c7_group (map c7_pt c7_gens) [] [3] 1 = Some c \<and>
    DecompressCommitment (gv_curve c7_group) c = Ok (c7_pt 3)"
  using CommitSpecValue_opens [OF c7_cyclic c7_points, of c7_gens 1 "[]" "[3]"] by (simp add: c7_opens spec_log_def)

lemma c7_cd_point:
  assumes "DecompressCommitment (gv_curve c7_group) c = Ok (c7_pt 3)"
  shows "cd_point c7_group (map c7_pt c7_gens) 1 [c, c]
    (\<lambda>i. GetCoefficient 5 (ConvertIntToBinary (int i) 1) 0 1 [[], [1]] [0]) [4] = Ok (c7_pt 4)"
proof -
  have P: "GetCoefficient 5 (ConvertIntToBinary (int i) 1) 0 1 [[], [1]] [0] = Some (if i = 0 then 4 else 1) \<and>
      0 \<le> (if i = 0 then 4 else 1 :: int)" if "i < length [c, c]" for i
    using that c7_coefficients by (cases i) (auto simp: less_Suc_eq)
  have com: "DecompressCommitment (gv_curve c7_group) ([c, c] ! i) = Ok (c7_pt 3)" if "i < length [c, c]" for i
    using that assms by (cases i) (auto simp: less_Suc_eq)
  have "spec_opens c7_group (map c7_pt c7_gens) [] [4] (unat (1 :: byte))" by (simp add: c7_opens)
  then have "cd_point c7_group (map c7_pt c7_gens) 1 [c, c]
        (\<lambda>i. GetCoefficient 5 (ConvertIntToBinary (int i) 1) 0 1 [[], [1]] [0]) [4] =
      Ok (c7_pt ((\<Sum>i<length [c, c]. 3 * (if i = 0 then 4 else 1)) + c7_gens ! 4 * int_SetBytes [4]))"
    by (rule cd_point_eq [OF c7_cyclic c7_points _ _ com P, rotated -1]) simp_all
  also have "(\<Sum>i<length [c, c]. 3 * (if i = 0 then 4 else 1)) + c7_gens ! 4 * int_SetBytes [4] = 19" by simp
  also have "c7_pt 19 = c7_pt 4" by (simp add: c7_pt_def)
  finally show ?thesis .
qed

theorem one_of_many_verdict_witness:
  "\<exists>c p. CommitSpecValue c7_group (map c7_pt c7_gens) [] [3] 1 = Some c \<and>
    OneOfMany_Prove c7_group (map c7_pt c7_gens) [[], [4]] [[], [1]] [[], [3]] [[], [3]] [[4]] [c, c] 0 [3] 1 = Ok p \<and>
    OneOfMany_Verify c7_group (map c7_pt c7_gens) [c, c] p 1 = Some True"
proof -
  let ?G = "map c7_pt c7_gens" and ?V = c7_group
  obtain c where c: "CommitSpecValue ?V ?G [] [3] 1 = Some c" "DecompressCommitment (gv_curve ?V) c = Ok (c7_pt 3)"
    using c7_commitment by blast
  note cd = c7_cd_point [OF c(2)]
  have l: "ConvertIntToBinary (int 0) 1 = [0]" by (simp add: rem2_def)
  have on: "IsOnCurve (gv_curve ?V) (c7_pt 4)" "even (snd (c7_pt 4))" by (simp_all add: c7_on_curve c7_pt_cases)
  have len: "length (Compress ?V (c7_pt 4)) = 33" by (rule pt_compress(1) [OF c7_cyclic c7_points on(1)])
  have cds: "cd_commitments ?V ?G 1 [c, c] (\<lambda>i k. GetCoefficient (gN ?V) (ConvertIntToBinary (int i) 1) k 1 [[], [1]] [0]) 0 (take 1 [[4]]) =
      Ok [Compress ?V (c7_pt 4)]"
    using cd len by (simp add: cd_commitment_def)
  obtain p where p: "om_proof ?V ?G [[], [4]] [[], [1]] [[], [3]] [[], [3]] [[4]] [c, c] 1 [0] [3] 1 = Ok p"
    using cds unfolding om_proof_def Let_def by (simp add: CommitSpecValue_def CM_CAPACITY_def)
  have pr: "OneOfMany_Prove ?V ?G [[], [4]] [[], [1]] [[], [3]] [[], [3]] [[4]] [c, c] (int 0) [3] 1 = Ok p"
    using p l by (simp add: OneOfMany_Prove_def bits_loop_eq [of 1, simplified numeral_2_eq_2 power_one_right])
  have ix: "unat (1 :: byte) < 5" by simp
  note pf = Prove_form [OF ix p cds refl]
  have vals: "om_f p ! 1 = int_Bytes 1" "om_za p ! 1 = int_Bytes 7" "om_zb p ! 1 = int_Bytes 3" "om_zd p = int_Bytes 4"
    by (simp_all add: pf(5-8) c7_challenge [unfolded One_nat_def] om_zd_value_def big_Exp_def)
  have op: "om_opens ?V ?G 1 1 (ConvertIntToBinary (int 0) 1) [[], [4]] [[], [1]] [[], [3]] [[], [3]] [[4]] [c, c] p"
    unfolding om_opens_def l c7_simps(2) using cd on vals by (simp add: c7_opens)
  have "OneOfMany_Verify ?V ?G [c, c] p 1 = Some (gN ?V dvd c7_gens ! unat (1 :: byte) * 0 *
      om_challenge ?V ?G 1 (om_cl p) (om_ca p) (om_cb p) (om_cd p) ^ 1)"
    by (rule one_of_many_verdict [OF c7_cyclic c7_points _ _ _ _ _ _ pr op, where c = "\<lambda>_. 3"])
      (use c(2) in \<open>auto simp: less_2_cases_iff spec_log_def\<close>)
  then show ?thesis using c(1) pr by (intro exI [of _ c] exI [of _ p]) simp
qed

end
