(* ===== verification/Spec2Isabelle.thy ===== *)
theory Spec2Isabelle
  imports Prelude Sha256 Common Base58 Merkle_Spec TxMerkle IncMerkle FeeEstimator GoStrings Transaction Database TokenDb Notes Keys CreateTx WordList Mnemonic Wallet NoteCrypto Block BlockChain Connect ChainValidation Mempool Consensus Interleaving Commitments Polynomials OneOfMany
begin

text \<open>
A verification library for the Go node of the Constant blockchain (\<open>src/\<close>).

  \<^bold>\<open>The program.\<close> A node keeps up to 20 chains of blocks. Wallets build payments from notes
  (\<open>transaction/txnormal.go\<close>): a join-split spends two notes, named by nullifiers, and makes two new
  ones, named by commitments. Commitments are the leaves of an incremental Merkle tree
  (\<open>privacy-protocol/client/merkle_tree.go\<close>); a block commits to its transactions by an array Merkle
  tree (\<open>blockchain/merkle.go\<close>). Blocks, nullifiers, commitments, custom tokens and loans are kept in
  LevelDB (\<open>database/lvdb\<close>); \<open>blockchain/\<close> connects blocks to the chains and checks transactions against
  them. The pool of pending transactions (\<open>mempool/\<close>) has a fee estimator. A committee of validators, one
  per chain, makes blocks, signs them and exchanges them with its peers (\<open>consensus/ppos\<close>). Everything is
  hashed with the node's copy of SHA-256 and shown in Base58Check; keys come from a wallet (\<open>wallet/\<close>).

  \<^bold>\<open>Theories.\<close>
  \<^item> \<open>Prelude\<close>: results with errors and panics (\<open>res\<close>), nil-able slices, signed integers with
    wrap-around, the collection \<open>go_simps\<close>.
  \<^item> \<open>Sha256\<close>: \<open>crypto/sha256\<close>, the digest record, \<open>Write\<close>, \<open>checkSum\<close>, \<open>Sum256\<close>, \<open>Sum256NoPad\<close>, the
    marshalled state; all are related to the reference value \<open>sha256_spec\<close> of a message.
  \<^item> \<open>Common\<close>, \<open>Base58\<close>: \<open>common/hash.go\<close>, \<open>common/common.go\<close>, \<open>common/base58\<close>; round trips and errors.
  \<^item> \<open>Merkle_Spec\<close>: the reference Merkle trees over an abstract hash (locale \<open>binary_hash\<close>) with the
    binding theorems, interpreted in \<open>TxMerkle\<close> and \<open>IncMerkle\<close> on the hash functions of the program.
  \<^item> \<open>TxMerkle\<close>: \<open>blockchain/merkle.go\<close>; the array construction computes the recursive root.
  \<^item> \<open>IncMerkle\<close>: \<open>client/merkle_tree.go\<close>; the incremental tree is the padded tree of height 29 and
    \<open>BuildWitnessPath\<close> produces authentication paths.
  \<^item> \<open>FeeEstimator\<close>: \<open>mempool/estimatefee.go\<close> over an explicit store of observed transactions, because
    bins, map and dropped blocks share them by pointer; invariants of the bins, rollback, estimates.
  \<^item> \<open>GoStrings\<close>: the parts of \<open>strconv\<close>, \<open>strings\<close>, \<open>encoding/binary\<close>, \<open>base64\<close> and \<open>json\<close> the node uses.
  \<^item> \<open>Transaction\<close>: all transaction types of \<open>transaction/\<close> and \<open>voting/\<close> with hashes, validation and
    constructors.
  \<^item> \<open>Database\<close>, \<open>TokenDb\<close>: \<open>database/lvdb\<close> in a state and error monad over a LevelDB given as a record
    of functions; the locale \<open>kv_store\<close> states its laws and is interpreted on association lists, the
    locale \<open>slice_store\<close> gives the list-valued entries (nullifiers, commitments) their contract.
    \<open>TokenDb\<close> refines an abstract ledger of token outputs.
  \<^item> \<open>Notes\<close>: commitments, nullifiers and pseudo-random functions (\<open>client/note.go\<close>, \<open>prf.go\<close>) and
    \<open>Prove\<close> without privacy (\<open>client/joinsplit.go\<close>).
  \<^item> \<open>CreateTx\<close>: \<open>CreateTx\<close>, \<open>BuildNewJSDesc\<close>, salaries and dividends; payments are exact, the call
    returns without a panic on funded positive payments and runs forever on others.
  \<^item> \<open>Keys\<close>, \<open>NoteCrypto\<close>: compressed points, spending and payment keys (\<open>privacy-protocol/ecc.go\<close>, \<open>key.go\<close>,
    \<open>cashec\<close>) and the encryption of notes (\<open>client/note.go\<close>); round trips of points and of the cipher.
  \<^item> \<open>WordList\<close>, \<open>Mnemonic\<close>, \<open>Wallet\<close>: the word list, mnemonic sentences, extended keys, the encrypted wallet
    file and the accounts of \<open>wallet/\<close>; round trips and the reuse of keys.
  \<^item> \<open>Block\<close>, \<open>BlockChain\<close>, \<open>Connect\<close>: blocks, best states, views, \<open>ConnectBlock\<close> and the look-ups of \<open>blockchain/\<close>
    in a state and error monad over the database. \<open>Connect\<close> shows what a connected block leaves in the
    database, by frame lemmas (\<open>dkeeps\<close>, \<open>bkeeps\<close>) over the sets of keys each operation writes.
  \<^item> \<open>ChainValidation\<close>: \<open>blockchain/validation.go\<close>; after a block is connected its nullifiers are refused.
  \<^item> \<open>Mempool\<close>: \<open>mempool/mempool.go\<close>, \<open>policy.go\<close>; the pool as a state machine (\<open>pool_step\<close>), its invariant, and
    exactly which transactions it accepts.
  \<^item> \<open>Consensus\<close>: \<open>consensus/ppos\<close>; the engine as a state machine (\<open>engine_step\<close>) over chain and pool, the
    invariant of heights and committee, and what the checks on signatures let through. Its steps run one after
    the other; \<open>Interleaving\<close> splits the round of the producer at every call, as the code holds no lock over
    it, and lets messages come in between (\<open>node_step\<close>).
  \<^item> \<open>Commitments\<close>, \<open>Polynomials\<close>, \<open>OneOfMany\<close>: \<open>privacy-protocol/schnorr.go\<close>, \<open>ElGamalCMS.go\<close>, \<open>coin.go\<close>,
    \<open>signature.go\<close>, \<open>polynomials.go\<close> and \<open>zero-knowledge/\<close>. The laws of the group are the predicates
    \<open>cyclic_curve\<close> and \<open>points_on_curve\<close>; signatures are accepted, and an honest proof is accepted exactly when
    its statement holds, provided the points it compresses have even second coordinates (\<open>Keys\<close> shows why).
    Polynomial arithmetic is related to evaluation, division to its identity, \<open>Gcd\<close> to common roots.

  \<^bold>\<open>Conventions.\<close> Go strings are HOL strings, byte slices lists of 8-bit words, unsigned integers
  words, signed integers \<open>int\<close> with explicit wrap-around. A result with an error is \<open>Ok\<close>, \<open>Err\<close> or
  \<open>Panic\<close>; out-of-range indices and nil dereferences are \<open>Panic\<close> or \<open>None\<close>. Map order, randomness and
  the clock are arguments. Code that is not in the repository (LevelDB, BLAKE2b, elliptic curves,
  protobuf text) is a parameter with its documented laws as named hypotheses, and every property with
  such a hypothesis is applied to a concrete instance in its witness. There is no fuel: loops are
  structural, have a measure, or are partial functions (\<open>CreateTx.create_loop\<close>, \<open>Polynomials.div_loop\<close>,
  \<open>poly_Gcd\<close>) whose return is a theorem of its own; the loops that search a hash (\<open>hash_generator_loop\<close>,
  \<open>spending_loop\<close>) return by luck only and are hypotheses where a property needs them. The bounds that
  occur are those of the code: 29 levels and \<open>2 ^ 29\<close> leaves of the commitment tree, 25 bins of 100 transactions of the estimator, 20 chains.

  \<^bold>\<open>Not modelled.\<close> The call of the zero-knowledge proving service, the arithmetic of the elliptic curve, the
  modified copies of Go's crypto, TLS and X.509 packages, peer-to-peer networking and message envelopes, the
  RPC server, the genesis blocks, the templates of new blocks and process start-up: they are input and output,
  third-party code, constants, or plumbing around the parts above. Goroutines, channels and timers of the
  consensus engine appear as steps and as arguments (what has arrived, what time it is), not as processes.
\<close>

end
